(* ===== verification/Prelude.thy ===== *)
theory Prelude
  imports Main "HOL-Library.Word"
begin

text \<open>
  Shared vocabulary of the development: the C integer types, the generic pointer, the lemma
  collections and the facts on words, bits and lists that several components use.
\<close>

unbundle bit_operations_syntax

section \<open>Lemma collections\<close>

named_theorems os_defs \<open>definitions of kernel operations, unfolded in functional proofs\<close>
named_theorems io_defs \<open>definitions of bus operations, unfolded in trace proofs\<close>

section \<open>C integer types\<close>

text \<open>
  \<^verbatim>\<open>INT8U\<close>, \<^verbatim>\<open>INT16U\<close>, \<^verbatim>\<open>INT32U\<close> (os_cpu.h) and \<^verbatim>\<open>alt_u8\<close>, \<^verbatim>\<open>alt_u16\<close>, \<^verbatim>\<open>alt_u32\<close> (alt_types.h).
\<close>

type_synonym u8 = "8 word"
type_synonym u16 = "16 word"
type_synonym u32 = "32 word"

section \<open>Bits of words\<close>

lemma bit_u8_one_shift:
  "bit (push_bit k (1 :: u8)) n \<longleftrightarrow> n = k \<and> n < 8"
  by (auto simp: bit_push_bit_iff bit_1_iff simp del: push_bit_of_1)

lemma word_eq_zero_iff_bits: "(w :: u8) = 0 \<longleftrightarrow> (\<forall>n < 8. \<not> bit w n)"
  by (auto intro!: bit_word_eqI)

lemma word_neq_zero_ex_bit: "(w :: u8) \<noteq> 0 \<Longrightarrow> \<exists>n < 8. bit w n"
  using word_eq_zero_iff_bits by blast

lemma unat_lt_256 [simp]: "unat (w :: u8) < 256"
  using unsigned_less [of w] by simp

lemma unat_u8_le_255: "unat (w :: u8) \<le> 255"
  using unat_lt_256 [of w] by linarith

lemma unat_shift3:
  assumes "unat (y :: u8) < 8" "unat (x :: u8) < 8"
  shows "unat (push_bit 3 y + x) = 8 * unat y + unat x"
proof -
  have "push_bit 3 y = 8 * y"
    by (simp add: push_bit_eq_mult)
  moreover have "unat (8 * y) = 8 * unat y"
    using assms by (simp add: unat_word_ariths)
  ultimately show ?thesis
    using assms by (simp add: unat_word_ariths)
qed

lemma unat_drop3: "unat (drop_bit 3 (p :: u8)) = unat p div 8"
  by (simp add: drop_bit_eq_div unat_div)

lemma unat_and7: "unat ((p :: u8) AND 7) = unat p mod 8"
proof -
  have "p AND 7 = take_bit 3 p"
    by (simp add: take_bit_eq_mask mask_eq_exp_minus_1)
  then show ?thesis
    by (simp add: unat_mod take_bit_eq_mod)
qed

lemma unat_lt_65536 [simp]: "unat (w :: u16) < 65536"
  using unsigned_less [of w] by simp

lemma unat_ucast_8_32 [simp]: "unat (ucast (w :: u8) :: u32) = unat w"
  by (simp add: unsigned_ucast_eq take_bit_nat_eq_self order_less_trans [OF unat_lt_256])

lemma unat_ucast_16_32 [simp]: "unat (ucast (w :: u16) :: u32) = unat w"
  by (simp add: unsigned_ucast_eq take_bit_nat_eq_self order_less_trans [OF unat_lt_65536])

lemma unat_drop16: "unat (ucast (drop_bit 16 (t :: u32)) :: u16) = unat t div 65536"
proof -
  have "unat t < 2^32" using unsigned_less [of t] by simp
  then show ?thesis
    by (simp add: unsigned_ucast_eq drop_bit_eq_div unat_div take_bit_eq_mod)
qed

lemma unat_low16: "unat (ucast ((t :: u32) AND 0xFFFF) :: u16) = unat t mod 65536"
proof -
  have "t AND 0xFFFF = take_bit 16 t"
    by (simp add: take_bit_eq_mask mask_eq_exp_minus_1)
  then show ?thesis
    by (simp add: unsigned_ucast_eq unsigned_take_bit_eq)
      (simp add: take_bit_eq_mod unat_mod)
qed
section \<open>Lists indexed by word\<close>

lemma nth_list_update_if:
  "i < length xs \<Longrightarrow> xs[i := v] ! j = (if i = j then v else xs ! j)"
  by auto

end
