(* ===== verification/Os_Bitmap.thy ===== *)
theory Os_Bitmap
  imports Prelude
begin

text \<open>
  The two-level priority bitmap of uC/OS-II (\<^verbatim>\<open>OS_LOWEST_PRIO <= 63\<close>, rows of 8 bits): the pair
  \<^verbatim>\<open>OSRdyGrp\<close>/\<^verbatim>\<open>OSRdyTbl\<close> of the ready list and the pairs \<^verbatim>\<open>OSEventGrp\<close>/\<^verbatim>\<open>OSEventTbl\<close> of the
  wait lists have the same layout and the kernel repeats the same three fragments on them: set a
  task's bits, clear them (dropping the group bit of an empty row) and find the highest priority
  through \<^verbatim>\<open>OSUnMapTbl\<close>.  Bit \<open>x\<close> of row \<open>y\<close> stands for priority \<open>8 * y + x\<close>; a smaller number
  is a higher priority.
\<close>

section \<open>The priority resolution table\<close>

definition OSUnMapTbl :: "u8 list" where
  "OSUnMapTbl = [
    0, 0, 1, 0, 2, 0, 1, 0, 3, 0, 1, 0, 2, 0, 1, 0,
    4, 0, 1, 0, 2, 0, 1, 0, 3, 0, 1, 0, 2, 0, 1, 0,
    5, 0, 1, 0, 2, 0, 1, 0, 3, 0, 1, 0, 2, 0, 1, 0,
    4, 0, 1, 0, 2, 0, 1, 0, 3, 0, 1, 0, 2, 0, 1, 0,
    6, 0, 1, 0, 2, 0, 1, 0, 3, 0, 1, 0, 2, 0, 1, 0,
    4, 0, 1, 0, 2, 0, 1, 0, 3, 0, 1, 0, 2, 0, 1, 0,
    5, 0, 1, 0, 2, 0, 1, 0, 3, 0, 1, 0, 2, 0, 1, 0,
    4, 0, 1, 0, 2, 0, 1, 0, 3, 0, 1, 0, 2, 0, 1, 0,
    7, 0, 1, 0, 2, 0, 1, 0, 3, 0, 1, 0, 2, 0, 1, 0,
    4, 0, 1, 0, 2, 0, 1, 0, 3, 0, 1, 0, 2, 0, 1, 0,
    5, 0, 1, 0, 2, 0, 1, 0, 3, 0, 1, 0, 2, 0, 1, 0,
    4, 0, 1, 0, 2, 0, 1, 0, 3, 0, 1, 0, 2, 0, 1, 0,
    6, 0, 1, 0, 2, 0, 1, 0, 3, 0, 1, 0, 2, 0, 1, 0,
    4, 0, 1, 0, 2, 0, 1, 0, 3, 0, 1, 0, 2, 0, 1, 0,
    5, 0, 1, 0, 2, 0, 1, 0, 3, 0, 1, 0, 2, 0, 1, 0,
    4, 0, 1, 0, 2, 0, 1, 0, 3, 0, 1, 0, 2, 0, 1, 0]"

text \<open>The table read at a byte: \<^verbatim>\<open>OSUnMapTbl[w]\<close>.\<close>

definition unmap :: "u8 \<Rightarrow> u8" where
  "unmap w = OSUnMapTbl ! unat w"

lemma length_OSUnMapTbl: "length OSUnMapTbl = 256"
  by (simp add: OSUnMapTbl_def)

text \<open>
  All 256 entries are checked by evaluation: entry \<open>n\<close> is below 8, it is the position of a set
  bit of \<open>n\<close> and no lower bit of \<open>n\<close> is set.
\<close>

fun unmap_rows_ok :: "int \<Rightarrow> u8 list \<Rightarrow> bool" where
  "unmap_rows_ok n [] = True"
| "unmap_rows_ok n (e # es) =
     ((n div 2 ^ unat e) mod 2 = 1 \<and> n mod 2 ^ unat e = 0 \<and> unat e < 8 \<and> unmap_rows_ok (n + 1) es)"

lemma unmap_rows_ok_table: "unmap_rows_ok 1 (tl OSUnMapTbl)"
  by (simp add: OSUnMapTbl_def)

lemma unmap_rows_ok_nth:
  "unmap_rows_ok n es \<Longrightarrow> k < length es \<Longrightarrow>
     ((n + int k) div 2 ^ unat (es ! k)) mod 2 = 1 \<and> (n + int k) mod 2 ^ unat (es ! k) = 0 \<and>
     unat (es ! k) < 8"
proof (induction n es arbitrary: k rule: unmap_rows_ok.induct)
  case (2 n e es)
  then show ?case
    by (cases k) (auto simp: algebra_simps)
qed simp

lemma unmap_correct:
  assumes "w \<noteq> 0"
  shows "unat (unmap w) < 8" and "bit w (unat (unmap w))"
    and "i < unat (unmap w) \<Longrightarrow> \<not> bit w i"
proof -
  let ?e = "unat (unmap w)"
  have pos: "0 < unat w"
    using assms by (simp add: unat_gt_0)
  then have k: "unat w - 1 < length (tl OSUnMapTbl)"
    using unat_u8_le_255 [of w] by (simp only: length_tl length_OSUnMapTbl)
  have e: "tl OSUnMapTbl ! (unat w - 1) = unmap w"
    using pos k by (simp add: nth_tl unmap_def)
  have n: "1 + int (unat w - 1) = uint w"
    using pos by (simp add: of_nat_diff)
  have facts: "(uint w div 2 ^ ?e) mod 2 = 1 \<and> uint w mod 2 ^ ?e = 0 \<and> ?e < 8"
    using unmap_rows_ok_nth [OF unmap_rows_ok_table k] unfolding e n .
  then show "?e < 8" by simp
  from facts have "bit (uint w) ?e"
    by (simp only: bit_iff_odd odd_iff_mod_2_eq_one)
  then show "bit w ?e"
    by (simp add: bit_uint_iff)
  assume i: "i < ?e"
  from facts have "take_bit ?e (uint w) = 0"
    by (simp add: take_bit_eq_mod)
  then have "\<not> bit (take_bit ?e (uint w)) i" by simp
  with i show "\<not> bit w i"
    using facts by (simp add: bit_take_bit_iff bit_uint_iff)
qed


section \<open>Bitmaps and the three fragments the kernel runs on them\<close>

record prio_map =
  Grp :: u8
  Tbl :: "u8 list"

definition OS_EVENT_TBL_SIZE :: nat where
  "OS_EVENT_TBL_SIZE = 20 div 8 + 1"

text \<open>\<^verbatim>\<open>Grp = 0; for (i = 0; i < OS_EVENT_TBL_SIZE; i++) *ptbl++ = 0;\<close>\<close>

definition bm_init :: prio_map where
  "bm_init = \<lparr>Grp = 0, Tbl = replicate OS_EVENT_TBL_SIZE 0\<rparr>"

text \<open>\<^verbatim>\<open>Grp |= BitY; Tbl[Y] |= BitX;\<close>\<close>

definition bm_set :: "u8 \<Rightarrow> u8 \<Rightarrow> u8 \<Rightarrow> prio_map \<Rightarrow> prio_map" where
  "bm_set y bitx bity m =
     m\<lparr>Grp := Grp m OR bity, Tbl := (Tbl m)[unat y := Tbl m ! unat y OR bitx]\<rparr>"

text \<open>\<^verbatim>\<open>Tbl[Y] &= ~BitX; if (Tbl[Y] == 0) { Grp &= ~BitY; }\<close>\<close>

definition bm_clr :: "u8 \<Rightarrow> u8 \<Rightarrow> u8 \<Rightarrow> prio_map \<Rightarrow> prio_map" where
  "bm_clr y bitx bity m =
     (let t = (Tbl m)[unat y := Tbl m ! unat y AND NOT bitx]
      in if t ! unat y = 0 then m\<lparr>Grp := Grp m AND NOT bity, Tbl := t\<rparr> else m\<lparr>Tbl := t\<rparr>)"

text \<open>\<^verbatim>\<open>y = OSUnMapTbl[Grp]; prio = (INT8U)((y << 3) + OSUnMapTbl[Tbl[y]]);\<close>\<close>

definition bm_highest :: "prio_map \<Rightarrow> u8" where
  "bm_highest m = (let y = unmap (Grp m) in push_bit 3 y + unmap (Tbl m ! unat y))"

text \<open>\<^verbatim>\<open>(Tbl[Y] & BitX) != 0\<close>\<close>

definition bm_test :: "u8 \<Rightarrow> u8 \<Rightarrow> prio_map \<Rightarrow> bool" where
  "bm_test y bitx m \<longleftrightarrow> Tbl m ! unat y AND bitx \<noteq> 0"

text \<open>
  The position fields \<^verbatim>\<open>OSTCBX\<close>, \<^verbatim>\<open>OSTCBY\<close>, \<^verbatim>\<open>OSTCBBitX\<close> and \<^verbatim>\<open>OSTCBBitY\<close> that the kernel
  precomputes for a priority.
\<close>

definition prio_y :: "u8 \<Rightarrow> u8" where
  "prio_y p = drop_bit 3 p"

definition prio_x :: "u8 \<Rightarrow> u8" where
  "prio_x p = p AND 7"

definition prio_bit :: "u8 \<Rightarrow> u8" where
  "prio_bit k = push_bit (unat k) 1"

section \<open>The set a bitmap stands for\<close>

definition bm_elems :: "prio_map \<Rightarrow> nat set" where
  "bm_elems m = {p. p div 8 < length (Tbl m) \<and> bit (Tbl m ! (p div 8)) (p mod 8)}"

definition bm_wf :: "prio_map \<Rightarrow> bool" where
  "bm_wf m \<longleftrightarrow> length (Tbl m) = OS_EVENT_TBL_SIZE \<and>
     (\<forall>y < 8. bit (Grp m) y \<longleftrightarrow> y < OS_EVENT_TBL_SIZE \<and> Tbl m ! y \<noteq> 0)"

lemma OS_EVENT_TBL_SIZE_eq [simp]: "OS_EVENT_TBL_SIZE = 3"
  by (simp add: OS_EVENT_TBL_SIZE_def)

lemma prio_y_lt: "unat p < 24 \<Longrightarrow> unat (prio_y p) < 3"
  by (simp add: prio_y_def unat_drop3)

lemma unat_prio_y: "unat (prio_y p) = unat p div 8"
  by (simp add: prio_y_def unat_drop3)

lemma unat_prio_x: "unat (prio_x p) = unat p mod 8"
  by (simp add: prio_x_def unat_and7)

lemma bit_prio_bit: "bit (prio_bit k) n \<longleftrightarrow> n = unat k \<and> n < 8"
  by (simp add: prio_bit_def bit_u8_one_shift del: push_bit_of_1)

lemma bm_elems_subset: "bm_wf m \<Longrightarrow> bm_elems m \<subseteq> {..<24}"
  by (auto simp: bm_elems_def bm_wf_def)

lemma finite_bm_elems: "bm_wf m \<Longrightarrow> finite (bm_elems m)"
  using bm_elems_subset finite_subset by blast

lemma bm_elems_init: "bm_elems bm_init = {}"
  by (auto simp: bm_elems_def bm_init_def)

lemma bm_wf_init: "bm_wf bm_init"
  by (simp add: bm_wf_def bm_init_def)

lemma Tbl_bm_set: "Tbl (bm_set y bx bb m) = (Tbl m)[unat y := Tbl m ! unat y OR bx]"
  by (simp add: bm_set_def)

lemma Tbl_bm_clr: "Tbl (bm_clr y bx bb m) = (Tbl m)[unat y := Tbl m ! unat y AND NOT bx]"
  by (simp add: bm_clr_def Let_def)

lemma div_mod_8_eq: "q div 8 = r div 8 \<Longrightarrow> q mod 8 = r mod 8 \<Longrightarrow> q = (r :: nat)"
  by (metis div_mult_mod_eq)

lemma bm_elems_set:
  assumes "bm_wf m" "unat p < 24"
  shows "bm_elems (bm_set (prio_y p) (prio_bit (prio_x p)) (prio_bit (prio_y p)) m) =
    insert (unat p) (bm_elems m)"
proof -
  have len: "length (Tbl m) = 3" and y: "unat p div 8 < 3"
    using assms by (auto simp: bm_wf_def)
  show ?thesis
    unfolding bm_elems_def Tbl_bm_set unat_prio_y length_list_update
    using len y div_mod_8_eq [of _ "unat p"]
    by (auto simp: bit_or_iff unat_prio_x bit_prio_bit nth_list_update)
qed

lemma bm_wf_set:
  assumes "bm_wf m" "unat p < 24"
  shows "bm_wf (bm_set (prio_y p) (prio_bit (prio_x p)) (prio_bit (prio_y p)) m)"
proof -
  have len: "length (Tbl m) = 3" and y: "unat p div 8 < 3"
    and g: "\<And>k. k < 8 \<Longrightarrow> bit (Grp m) k \<longleftrightarrow> k < 3 \<and> Tbl m ! k \<noteq> 0"
    using assms by (auto simp: bm_wf_def)
  have "Tbl m ! (unat p div 8) OR prio_bit (prio_x p) \<noteq> 0"
    using bit_prio_bit [of "prio_x p" "unat p mod 8"]
    by (metis bit_or_iff bit_0_eq bot_apply bot_bool_def mod_less_divisor unat_prio_x zero_less_numeral)
  then show ?thesis
    using len y g
    by (auto simp: bm_wf_def bm_set_def unat_prio_y bit_or_iff bit_prio_bit nth_list_update)
qed

lemma bm_elems_clr:
  assumes "bm_wf m" "unat p < 24"
  shows "bm_elems (bm_clr (prio_y p) (prio_bit (prio_x p)) (prio_bit (prio_y p)) m) =
    bm_elems m - {unat p}"
proof -
  have len: "length (Tbl m) = 3" and y: "unat p div 8 < 3"
    using assms by (auto simp: bm_wf_def)
  show ?thesis
    unfolding bm_elems_def Tbl_bm_clr unat_prio_y length_list_update
    using len y div_mod_8_eq [of _ "unat p"]
    by (auto simp: bit_and_iff bit_not_iff unat_prio_x bit_prio_bit nth_list_update)
qed

lemma bm_wf_clr:
  assumes "bm_wf m" "unat p < 24"
  shows "bm_wf (bm_clr (prio_y p) (prio_bit (prio_x p)) (prio_bit (prio_y p)) m)"
proof -
  have len: "length (Tbl m) = 3" and y: "unat p div 8 < 3"
    and g: "\<And>k. k < 8 \<Longrightarrow> bit (Grp m) k \<longleftrightarrow> k < 3 \<and> Tbl m ! k \<noteq> 0"
    using assms by (auto simp: bm_wf_def)
  have "Tbl m ! (unat p div 8) AND NOT (prio_bit (prio_x p)) \<noteq> 0 \<Longrightarrow> Tbl m ! (unat p div 8) \<noteq> 0"
    by auto
  then show ?thesis
    using len y g
    by (auto simp: bm_wf_def bm_clr_def Let_def unat_prio_y bit_and_iff bit_not_iff bit_prio_bit
        nth_list_update)
qed

lemma bm_empty_iff:
  assumes "bm_wf m"
  shows "Grp m = 0 \<longleftrightarrow> bm_elems m = {}"
proof
  assume "Grp m = 0"
  then have "\<And>y. y < 3 \<Longrightarrow> Tbl m ! y = 0"
    using assms by (auto simp: bm_wf_def)
  then show "bm_elems m = {}"
    using assms by (auto simp: bm_elems_def bm_wf_def)
next
  assume none: "bm_elems m = {}"
  show "Grp m = 0"
  proof (rule ccontr)
    assume "Grp m \<noteq> 0"
    then obtain y where y: "y < 3" "Tbl m ! y \<noteq> 0"
      using assms word_neq_zero_ex_bit [of "Grp m"] by (auto simp: bm_wf_def)
    then obtain x where x: "x < 8" "bit (Tbl m ! y) x"
      using word_neq_zero_ex_bit by blast
    have "8 * y + x \<in> bm_elems m"
      using y x assms by (auto simp: bm_elems_def bm_wf_def)
    with none show False by simp
  qed
qed

lemma bm_highest_least:
  assumes wf: "bm_wf m" and ne: "Grp m \<noteq> 0"
  shows "unat (bm_highest m) \<in> bm_elems m"
    and "q \<in> bm_elems m \<Longrightarrow> unat (bm_highest m) \<le> q"
proof -
  let ?y = "unmap (Grp m)"
  have len: "length (Tbl m) = 3"
    and g: "\<And>k. k < 8 \<Longrightarrow> bit (Grp m) k \<longleftrightarrow> k < 3 \<and> Tbl m ! k \<noteq> 0"
    using wf by (auto simp: bm_wf_def)
  have y8: "unat ?y < 8" and yb: "bit (Grp m) (unat ?y)"
    using unmap_correct [OF ne] by auto
  then have y3: "unat ?y < 3" and row: "Tbl m ! unat ?y \<noteq> 0"
    using g by auto
  let ?x = "unmap (Tbl m ! unat ?y)"
  have x8: "unat ?x < 8" and xb: "bit (Tbl m ! unat ?y) (unat ?x)"
    using unmap_correct [OF row] by auto
  have hi: "unat (bm_highest m) = 8 * unat ?y + unat ?x"
    using unat_shift3 [OF y8 x8] by (simp add: bm_highest_def Let_def)
  show "unat (bm_highest m) \<in> bm_elems m"
    using hi x8 xb y3 len by (auto simp: bm_elems_def)
  assume q: "q \<in> bm_elems m"
  then have q3: "q div 8 < 3" and qb: "bit (Tbl m ! (q div 8)) (q mod 8)"
    using len by (auto simp: bm_elems_def)
  have "Tbl m ! (q div 8) \<noteq> 0" using qb by auto
  then have "bit (Grp m) (q div 8)" using g q3 by auto
  then have yle: "unat ?y \<le> q div 8"
    using unmap_correct(3) [OF ne] by (metis not_le)
  have "unat ?x \<le> q mod 8" if "unat ?y = q div 8"
    using unmap_correct(3) [OF row] qb that by (metis not_le)
  then show "unat (bm_highest m) \<le> q"
    using hi yle x8 div_mult_mod_eq [of q 8] by (cases "unat ?y = q div 8") arith+
qed


section \<open>The interface: a set of priorities with a highest element\<close>

text \<open>
  What the scheduler and the wait lists rely on.  \<open>els\<close> is the abstraction, \<open>inv\<close> the
  representation invariant; priorities below 24 fit the table.
\<close>

locale prio_set =
  fixes inv :: "'m \<Rightarrow> bool"
    and els :: "'m \<Rightarrow> nat set"
    and ins :: "u8 \<Rightarrow> 'm \<Rightarrow> 'm"
    and del :: "u8 \<Rightarrow> 'm \<Rightarrow> 'm"
    and hi :: "'m \<Rightarrow> u8"
    and some :: "'m \<Rightarrow> bool"
  assumes els_bound: "inv m \<Longrightarrow> els m \<subseteq> {..<24}"
    and some_iff: "inv m \<Longrightarrow> some m \<longleftrightarrow> els m \<noteq> {}"
    and els_ins: "inv m \<Longrightarrow> unat p < 24 \<Longrightarrow> els (ins p m) = insert (unat p) (els m)"
    and inv_ins: "inv m \<Longrightarrow> unat p < 24 \<Longrightarrow> inv (ins p m)"
    and els_del: "inv m \<Longrightarrow> unat p < 24 \<Longrightarrow> els (del p m) = els m - {unat p}"
    and inv_del: "inv m \<Longrightarrow> unat p < 24 \<Longrightarrow> inv (del p m)"
    and hi_mem: "inv m \<Longrightarrow> some m \<Longrightarrow> unat (hi m) \<in> els m"
    and hi_le: "inv m \<Longrightarrow> some m \<Longrightarrow> q \<in> els m \<Longrightarrow> unat (hi m) \<le> q"
begin

lemma finite_els: "inv m \<Longrightarrow> finite (els m)"
  using els_bound finite_subset by blast

lemma hi_bound: "inv m \<Longrightarrow> some m \<Longrightarrow> unat (hi m) < 24"
  using hi_mem els_bound by blast

lemma hi_eq_Min: "inv m \<Longrightarrow> some m \<Longrightarrow> unat (hi m) = Min (els m)"
  by (metis Min_eqI finite_els hi_le hi_mem)

lemma hi_ins:
  assumes "inv m" "unat p < 24"
  shows "unat (hi (ins p m)) = (if some m then min (unat p) (unat (hi m)) else unat p)"
proof -
  have i: "inv (ins p m)" and s: "some (ins p m)"
    using assms by (simp_all add: inv_ins some_iff els_ins)
  show ?thesis
    using hi_eq_Min [OF i s] hi_eq_Min [OF assms(1)] assms some_iff [OF assms(1)] finite_els
    by (simp add: els_ins)
qed

lemma card_del_hi:
  assumes "inv m" "some m"
  shows "card (els m) = Suc (card (els (del (hi m) m)))"
  using card.remove [OF finite_els hi_mem, of m] assms hi_bound
  by (simp add: els_del)

lemma card_els_le: "inv m \<Longrightarrow> card (els m) \<le> 24"
  using card_mono [OF finite_lessThan els_bound] by fastforce

end

definition bm_ins :: "u8 \<Rightarrow> prio_map \<Rightarrow> prio_map" where
  "bm_ins p = bm_set (prio_y p) (prio_bit (prio_x p)) (prio_bit (prio_y p))"

definition bm_del :: "u8 \<Rightarrow> prio_map \<Rightarrow> prio_map" where
  "bm_del p = bm_clr (prio_y p) (prio_bit (prio_x p)) (prio_bit (prio_y p))"

definition bm_some :: "prio_map \<Rightarrow> bool" where
  "bm_some m \<longleftrightarrow> Grp m \<noteq> 0"

interpretation bm: prio_set bm_wf bm_elems bm_ins bm_del bm_highest bm_some
  by unfold_locales
    (simp_all add: bm_elems_subset bm_some_def bm_empty_iff bm_ins_def bm_del_def bm_elems_set
      bm_wf_set bm_elems_clr bm_wf_clr bm_highest_least)

lemma bm_test_iff:
  assumes "bm_wf m" "unat p < 24"
  shows "bm_test (prio_y p) (prio_bit (prio_x p)) m \<longleftrightarrow> unat p \<in> bm_elems m"
proof -
  let ?w = "Tbl m ! (unat p div 8)"
  have "?w AND prio_bit (prio_x p) \<noteq> 0 \<longleftrightarrow> bit ?w (unat p mod 8)"
    unfolding word_eq_zero_iff_bits
    by (auto simp: bit_and_iff bit_prio_bit unat_prio_x)
  then show ?thesis
    using assms by (auto simp: bm_test_def bm_elems_def bm_wf_def unat_prio_y)
qed

end
