(* ===== verification/Os_Types.thy ===== *)
theory Os_Types
  imports Os_Bitmap
begin

text \<open>
  The data model of uC/OS-II V2.86 as configured for the rover (ucos_ii.h with the
  \<^verbatim>\<open>OS_...\<close> settings of system.h and os_cfg.h): constants, control blocks, and the record of all
  kernel variables.

  A \<^verbatim>\<open>void *\<close> or a pointer to a control block is a value of \<open>ptr\<close>: a plain 32-bit word (an
  application message, a block address, \<^verbatim>\<open>NULL\<close> = 0, \<^verbatim>\<open>OS_TCB_RESERVED\<close> = 1) or the address of the
  \<open>n\<close>-th element of one of the kernel's static tables.  The tables are stores from element numbers
  to control blocks.  A \<^verbatim>\<open>void **\<close> into the storage of a message queue is a cell number of the store
  \<open>OSQStore\<close>; the words of memory partitions live in \<open>OSMemHeap\<close>.
\<close>

section \<open>Pointers, errors and constants\<close>

datatype ptr =
    PWord u32
  | PTcb nat
  | PEvent nat
  | PQ nat
  | PMem nat
  | PFlagGrp nat
  | PFlagNode nat

abbreviation (input) NULL :: ptr where
  "NULL \<equiv> PWord 0"

abbreviation (input) OS_TCB_RESERVED :: ptr where
  "OS_TCB_RESERVED \<equiv> PWord 1"

text \<open>
  The table element a pointer addresses.  Dereferencing a pointer that is not such an address is
  undefined in C; the model gives it element 255, outside every table, and the safety lemmas show
  that the kernel never does it in a well-formed state.
\<close>

fun tcb_of :: "ptr \<Rightarrow> nat" where
  "tcb_of (PTcb i) = i"
| "tcb_of _ = 255"

fun event_of :: "ptr \<Rightarrow> nat" where
  "event_of (PEvent i) = i"
| "event_of _ = 255"

fun q_of :: "ptr \<Rightarrow> nat" where
  "q_of (PQ i) = i"
| "q_of _ = 255"

fun flag_of :: "ptr \<Rightarrow> nat" where
  "flag_of (PFlagGrp i) = i"
| "flag_of _ = 255"

fun node_of :: "ptr \<Rightarrow> nat" where
  "node_of (PFlagNode i) = i"
| "node_of _ = 255"

fun mem_of :: "ptr \<Rightarrow> nat" where
  "mem_of (PMem i) = i"
| "mem_of _ = 255"

datatype os_err =
    OS_ERR_NONE | OS_ERR_EVENT_TYPE | OS_ERR_PEND_ISR | OS_ERR_PEVENT_NULL | OS_ERR_POST_ISR
  | OS_ERR_QUERY_ISR | OS_ERR_INVALID_OPT | OS_ERR_PDATA_NULL | OS_ERR_TIMEOUT
  | OS_ERR_EVENT_NAME_TOO_LONG | OS_ERR_PNAME_NULL | OS_ERR_PEND_LOCKED | OS_ERR_PEND_ABORT
  | OS_ERR_DEL_ISR | OS_ERR_CREATE_ISR | OS_ERR_NAME_GET_ISR | OS_ERR_NAME_SET_ISR
  | OS_ERR_MBOX_FULL | OS_ERR_Q_FULL | OS_ERR_Q_EMPTY | OS_ERR_POST_NULL_PTR
  | OS_ERR_PRIO_EXIST | OS_ERR_PRIO | OS_ERR_PRIO_INVALID | OS_ERR_SEM_OVF
  | OS_ERR_TASK_CREATE_ISR | OS_ERR_TASK_DEL | OS_ERR_TASK_DEL_IDLE | OS_ERR_TASK_DEL_REQ
  | OS_ERR_TASK_DEL_ISR | OS_ERR_TASK_NAME_TOO_LONG | OS_ERR_TASK_NO_MORE_TCB
  | OS_ERR_TASK_NOT_EXIST | OS_ERR_TASK_NOT_SUSPENDED | OS_ERR_TASK_OPT | OS_ERR_TASK_RESUME_PRIO
  | OS_ERR_TASK_SUSPEND_IDLE | OS_ERR_TASK_SUSPEND_PRIO | OS_ERR_TASK_WAITING
  | OS_ERR_TIME_NOT_DLY | OS_ERR_TIME_INVALID_MINUTES | OS_ERR_TIME_INVALID_SECONDS
  | OS_ERR_TIME_INVALID_MS | OS_ERR_TIME_ZERO_DLY | OS_ERR_TIME_DLY_ISR
  | OS_ERR_MEM_INVALID_PART | OS_ERR_MEM_INVALID_BLKS | OS_ERR_MEM_INVALID_SIZE
  | OS_ERR_MEM_NO_FREE_BLKS | OS_ERR_MEM_FULL | OS_ERR_MEM_INVALID_PBLK
  | OS_ERR_MEM_INVALID_PMEM | OS_ERR_MEM_INVALID_PDATA | OS_ERR_MEM_INVALID_ADDR
  | OS_ERR_MEM_NAME_TOO_LONG | OS_ERR_NOT_MUTEX_OWNER | OS_ERR_FLAG_INVALID_PGRP
  | OS_ERR_FLAG_WAIT_TYPE | OS_ERR_FLAG_NOT_RDY | OS_ERR_FLAG_INVALID_OPT
  | OS_ERR_FLAG_GRP_DEPLETED | OS_ERR_FLAG_NAME_TOO_LONG | OS_ERR_PIP_LOWER
  | OS_ERR_TMR_INVALID_DLY | OS_ERR_TMR_INVALID_PERIOD | OS_ERR_TMR_INVALID_OPT
  | OS_ERR_TMR_NON_AVAIL | OS_ERR_TMR_INACTIVE | OS_ERR_TMR_INVALID_DEST
  | OS_ERR_TMR_INVALID_TYPE | OS_ERR_TMR_INVALID | OS_ERR_TMR_ISR | OS_ERR_TMR_NAME_TOO_LONG
  | OS_ERR_TMR_INVALID_STATE | OS_ERR_TMR_STOPPED | OS_ERR_TMR_NO_CALLBACK

text \<open>\<^verbatim>\<open>OSTCBStatPend\<close>.\<close>

datatype pend_stat = OS_STAT_PEND_OK | OS_STAT_PEND_TO | OS_STAT_PEND_ABORT

datatype event_type =
    OS_EVENT_TYPE_UNUSED | OS_EVENT_TYPE_MBOX | OS_EVENT_TYPE_Q | OS_EVENT_TYPE_SEM
  | OS_EVENT_TYPE_MUTEX | OS_EVENT_TYPE_FLAG

datatype tick_step = OS_TICK_STEP_DIS | OS_TICK_STEP_WAIT | OS_TICK_STEP_ONCE

text \<open>Status bits of \<^verbatim>\<open>OSTCBStat\<close>.\<close>

abbreviation (input) OS_STAT_RDY :: u8 where "OS_STAT_RDY \<equiv> 0x00"
abbreviation (input) OS_STAT_SEM :: u8 where "OS_STAT_SEM \<equiv> 0x01"
abbreviation (input) OS_STAT_MBOX :: u8 where "OS_STAT_MBOX \<equiv> 0x02"
abbreviation (input) OS_STAT_Q :: u8 where "OS_STAT_Q \<equiv> 0x04"
abbreviation (input) OS_STAT_SUSPEND :: u8 where "OS_STAT_SUSPEND \<equiv> 0x08"
abbreviation (input) OS_STAT_MUTEX :: u8 where "OS_STAT_MUTEX \<equiv> 0x10"
abbreviation (input) OS_STAT_FLAG :: u8 where "OS_STAT_FLAG \<equiv> 0x20"
abbreviation (input) OS_STAT_MULTI :: u8 where "OS_STAT_MULTI \<equiv> 0x80"

text \<open>\<^verbatim>\<open>OS_STAT_SEM | OS_STAT_MBOX | OS_STAT_Q | OS_STAT_MUTEX | OS_STAT_FLAG\<close>\<close>

abbreviation (input) OS_STAT_PEND_ANY :: u8 where "OS_STAT_PEND_ANY \<equiv> 0x37"

abbreviation (input) OS_PRIO_SELF :: u8 where "OS_PRIO_SELF \<equiv> 0xFF"
abbreviation (input) OS_LOWEST_PRIO :: u8 where "OS_LOWEST_PRIO \<equiv> 20"
abbreviation (input) OS_TASK_IDLE_PRIO :: u8 where "OS_TASK_IDLE_PRIO \<equiv> 20"
abbreviation (input) OS_TASK_STAT_PRIO :: u8 where "OS_TASK_STAT_PRIO \<equiv> 19"
abbreviation (input) OS_TICKS_PER_SEC :: u32 where "OS_TICKS_PER_SEC \<equiv> 1000"

abbreviation (input) OS_DEL_NO_PEND :: u8 where "OS_DEL_NO_PEND \<equiv> 0"
abbreviation (input) OS_DEL_ALWAYS :: u8 where "OS_DEL_ALWAYS \<equiv> 1"
abbreviation (input) OS_PEND_OPT_BROADCAST :: u8 where "OS_PEND_OPT_BROADCAST \<equiv> 1"
abbreviation (input) OS_POST_OPT_BROADCAST :: u8 where "OS_POST_OPT_BROADCAST \<equiv> 0x01"
abbreviation (input) OS_POST_OPT_FRONT :: u8 where "OS_POST_OPT_FRONT \<equiv> 0x02"
abbreviation (input) OS_POST_OPT_NO_SCHED :: u8 where "OS_POST_OPT_NO_SCHED \<equiv> 0x04"
abbreviation (input) OS_TASK_OPT_STK_CHK :: u16 where "OS_TASK_OPT_STK_CHK \<equiv> 0x0001"
abbreviation (input) OS_TASK_OPT_STK_CLR :: u16 where "OS_TASK_OPT_STK_CLR \<equiv> 0x0002"

abbreviation (input) OS_FLAG_WAIT_CLR_ALL :: u8 where "OS_FLAG_WAIT_CLR_ALL \<equiv> 0"
abbreviation (input) OS_FLAG_WAIT_CLR_ANY :: u8 where "OS_FLAG_WAIT_CLR_ANY \<equiv> 1"
abbreviation (input) OS_FLAG_WAIT_SET_ALL :: u8 where "OS_FLAG_WAIT_SET_ALL \<equiv> 2"
abbreviation (input) OS_FLAG_WAIT_SET_ANY :: u8 where "OS_FLAG_WAIT_SET_ANY \<equiv> 3"
abbreviation (input) OS_FLAG_CONSUME :: u8 where "OS_FLAG_CONSUME \<equiv> 0x80"
abbreviation (input) OS_FLAG_CLR :: u8 where "OS_FLAG_CLR \<equiv> 0"
abbreviation (input) OS_FLAG_SET :: u8 where "OS_FLAG_SET \<equiv> 1"

abbreviation (input) OS_MAX_EVENTS :: nat where "OS_MAX_EVENTS \<equiv> 60"
abbreviation (input) OS_MAX_QS :: nat where "OS_MAX_QS \<equiv> 20"
abbreviation (input) OS_MAX_TASKS :: nat where "OS_MAX_TASKS \<equiv> 10"
abbreviation (input) OS_N_SYS_TASKS :: nat where "OS_N_SYS_TASKS \<equiv> 2"
abbreviation (input) OS_MAX_MEM_PART :: nat where "OS_MAX_MEM_PART \<equiv> 60"
abbreviation (input) OS_MAX_FLAGS :: nat where "OS_MAX_FLAGS \<equiv> 20"
abbreviation (input) OS_FLAG_NAME_SIZE :: nat where "OS_FLAG_NAME_SIZE \<equiv> 32"
abbreviation (input) OS_EVENT_NAME_SIZE :: nat where "OS_EVENT_NAME_SIZE \<equiv> 32"
abbreviation (input) OS_TASK_NAME_SIZE :: nat where "OS_TASK_NAME_SIZE \<equiv> 32"
abbreviation (input) OS_MEM_NAME_SIZE :: nat where "OS_MEM_NAME_SIZE \<equiv> 32"

section \<open>Control blocks\<close>

text \<open>\<^verbatim>\<open>OSEventWait\<close> is the pair \<^verbatim>\<open>OSEventGrp\<close>/\<^verbatim>\<open>OSEventTbl\<close>.\<close>

record OS_EVENT =
  OSEventType :: event_type
  OSEventPtr :: ptr
  OSEventCnt :: u16
  OSEventWait :: prio_map
  OSEventName :: "u8 list"

text \<open>
  \<^verbatim>\<open>OSFlagWaitList\<close> is the first node of the wait list of a group in use and the next free group
  otherwise.  A node is a local variable of \<^verbatim>\<open>OSFlagPend\<close> on the stack of the waiting task; node \<open>i\<close> of
  the store is the one of TCB \<open>i\<close>.
\<close>

record OS_FLAG_GRP =
  OSFlagType :: event_type
  OSFlagWaitList :: ptr
  OSFlagFlags :: u16
  OSFlagName :: "u8 list"

record OS_FLAG_NODE =
  OSFlagNodeNext :: ptr
  OSFlagNodePrev :: ptr
  OSFlagNodeTCB :: ptr
  OSFlagNodeFlagGrp :: ptr
  OSFlagNodeFlags :: u16
  OSFlagNodeWaitType :: u8

record OS_Q =
  OSQPtr :: ptr
  OSQStart :: nat
  OSQEnd :: nat
  OSQIn :: nat
  OSQOut :: nat
  OSQSize :: u16
  OSQEntries :: u16

record OS_MEM =
  OSMemAddr :: ptr
  OSMemFreeLst :: ptr
  OSMemBlkSize :: u32
  OSMemNBlks :: u32
  OSMemNFree :: u32
  OSMemName :: "u8 list"

text \<open>
  \<^verbatim>\<open>OSTCBEventMultiPtr\<close> points to the caller's NULL-terminated array of event pointers; it is
  \<open>None\<close> for \<^verbatim>\<open>NULL\<close> and the array's event numbers otherwise.
\<close>

record OS_TCB =
  OSTCBStkPtr :: u32
  OSTCBExtPtr :: ptr
  OSTCBStkBottom :: u32
  OSTCBStkSize :: u32
  OSTCBOpt :: u16
  OSTCBId :: u16
  OSTCBNext :: ptr
  OSTCBPrev :: ptr
  OSTCBEventPtr :: ptr
  OSTCBEventMultiPtr :: "nat list option"
  OSTCBMsg :: ptr
  OSTCBFlagNode :: ptr
  OSTCBFlagsRdy :: u16
  OSTCBDly :: u16
  OSTCBStat :: u8
  OSTCBStatPend :: pend_stat
  OSTCBPrio :: u8
  OSTCBX :: u8
  OSTCBY :: u8
  OSTCBBitX :: u8
  OSTCBBitY :: u8
  OSTCBDelReq :: os_err
  OSTCBCtxSwCtr :: u32
  OSTCBCyclesTot :: u32
  OSTCBCyclesStart :: u32
  OSTCBStkBase :: u32
  OSTCBStkUsed :: u32
  OSTCBTaskName :: "u8 list"

section \<open>The kernel state\<close>

text \<open>\<^verbatim>\<open>OSRdy\<close> is the pair \<^verbatim>\<open>OSRdyGrp\<close>/\<^verbatim>\<open>OSRdyTbl\<close>.\<close>

record os_state =
  OSCtxSwCtr :: u32
  OSEventFreeList :: ptr
  OSEventTbl :: "nat \<Rightarrow> OS_EVENT"
  OSCPUUsage :: u8
  OSIdleCtrMax :: u32
  OSIdleCtrRun :: u32
  OSStatRdy :: bool
  OSIntNesting :: u8
  OSLockNesting :: u8
  OSPrioCur :: u8
  OSPrioHighRdy :: u8
  OSRdy :: prio_map
  OSRunning :: bool
  OSTaskCtr :: u8
  OSIdleCtr :: u32
  OSTCBCur :: ptr
  OSTCBFreeList :: ptr
  OSTCBHighRdy :: ptr
  OSTCBList :: ptr
  OSTCBPrioTbl :: "nat \<Rightarrow> ptr"
  OSTCBTbl :: "nat \<Rightarrow> OS_TCB"
  OSTickStepState :: tick_step
  OSMemFreeList :: ptr
  OSMemTbl :: "nat \<Rightarrow> OS_MEM"
  OSMemHeap :: "u32 \<Rightarrow> ptr"
  OSQFreeList :: ptr
  OSQTbl :: "nat \<Rightarrow> OS_Q"
  OSQStore :: "nat \<Rightarrow> ptr"
  OSFlagFreeList :: ptr
  OSFlagTbl :: "nat \<Rightarrow> OS_FLAG_GRP"
  OSFlagNodes :: "nat \<Rightarrow> OS_FLAG_NODE"
  OSTime :: u32
  OSStkMem :: "u32 \<Rightarrow> u32"

text \<open>Control blocks filled with zero bytes (\<^verbatim>\<open>OS_MemClr\<close>).\<close>

definition tcb_zero :: OS_TCB where
  "tcb_zero = \<lparr>OSTCBStkPtr = 0, OSTCBExtPtr = NULL, OSTCBStkBottom = 0, OSTCBStkSize = 0,
     OSTCBOpt = 0, OSTCBId = 0, OSTCBNext = NULL, OSTCBPrev = NULL, OSTCBEventPtr = NULL,
     OSTCBEventMultiPtr = None, OSTCBMsg = NULL, OSTCBFlagNode = NULL, OSTCBFlagsRdy = 0,
     OSTCBDly = 0, OSTCBStat = 0, OSTCBStatPend = OS_STAT_PEND_OK, OSTCBPrio = 0, OSTCBX = 0,
     OSTCBY = 0, OSTCBBitX = 0, OSTCBBitY = 0, OSTCBDelReq = OS_ERR_NONE, OSTCBCtxSwCtr = 0,
     OSTCBCyclesTot = 0, OSTCBCyclesStart = 0, OSTCBStkBase = 0, OSTCBStkUsed = 0,
     OSTCBTaskName = replicate OS_TASK_NAME_SIZE 0\<rparr>"

definition event_zero :: OS_EVENT where
  "event_zero = \<lparr>OSEventType = OS_EVENT_TYPE_UNUSED, OSEventPtr = NULL, OSEventCnt = 0,
     OSEventWait = bm_init, OSEventName = replicate OS_EVENT_NAME_SIZE 0\<rparr>"

definition q_zero :: OS_Q where
  "q_zero = \<lparr>OSQPtr = NULL, OSQStart = 0, OSQEnd = 0, OSQIn = 0, OSQOut = 0, OSQSize = 0,
     OSQEntries = 0\<rparr>"

definition mem_zero :: OS_MEM where
  "mem_zero = \<lparr>OSMemAddr = NULL, OSMemFreeLst = NULL, OSMemBlkSize = 0, OSMemNBlks = 0,
     OSMemNFree = 0, OSMemName = replicate OS_MEM_NAME_SIZE 0\<rparr>"

definition flag_zero :: OS_FLAG_GRP where
  "flag_zero = \<lparr>OSFlagType = OS_EVENT_TYPE_UNUSED, OSFlagWaitList = NULL, OSFlagFlags = 0,
     OSFlagName = replicate OS_FLAG_NAME_SIZE 0\<rparr>"

definition node_zero :: OS_FLAG_NODE where
  "node_zero = \<lparr>OSFlagNodeNext = NULL, OSFlagNodePrev = NULL, OSFlagNodeTCB = NULL,
     OSFlagNodeFlagGrp = NULL, OSFlagNodeFlags = 0, OSFlagNodeWaitType = 0\<rparr>"

text \<open>Writing one field of one control block, as in \<^verbatim>\<open>ptcb->OSTCBDly = 0\<close>.\<close>

definition upd_tcb :: "nat \<Rightarrow> (OS_TCB \<Rightarrow> OS_TCB) \<Rightarrow> os_state \<Rightarrow> os_state" where
  "upd_tcb i f s = s\<lparr>OSTCBTbl := (OSTCBTbl s)(i := f (OSTCBTbl s i))\<rparr>"

definition upd_event :: "nat \<Rightarrow> (OS_EVENT \<Rightarrow> OS_EVENT) \<Rightarrow> os_state \<Rightarrow> os_state" where
  "upd_event e f s = s\<lparr>OSEventTbl := (OSEventTbl s)(e := f (OSEventTbl s e))\<rparr>"

definition upd_q :: "nat \<Rightarrow> (OS_Q \<Rightarrow> OS_Q) \<Rightarrow> os_state \<Rightarrow> os_state" where
  "upd_q q f s = s\<lparr>OSQTbl := (OSQTbl s)(q := f (OSQTbl s q))\<rparr>"

definition upd_flag :: "nat \<Rightarrow> (OS_FLAG_GRP \<Rightarrow> OS_FLAG_GRP) \<Rightarrow> os_state \<Rightarrow> os_state" where
  "upd_flag g f s = s\<lparr>OSFlagTbl := (OSFlagTbl s)(g := f (OSFlagTbl s g))\<rparr>"

definition upd_node :: "nat \<Rightarrow> (OS_FLAG_NODE \<Rightarrow> OS_FLAG_NODE) \<Rightarrow> os_state \<Rightarrow> os_state" where
  "upd_node n f s = s\<lparr>OSFlagNodes := (OSFlagNodes s)(n := f (OSFlagNodes s n))\<rparr>"

text \<open>The control block of the running task: \<^verbatim>\<open>OSTCBCur->...\<close>\<close>

abbreviation cur_tcb :: "os_state \<Rightarrow> OS_TCB" where
  "cur_tcb s \<equiv> OSTCBTbl s (tcb_of (OSTCBCur s))"

abbreviation upd_cur :: "(OS_TCB \<Rightarrow> OS_TCB) \<Rightarrow> os_state \<Rightarrow> os_state" where
  "upd_cur f s \<equiv> upd_tcb (tcb_of (OSTCBCur s)) f s"

text \<open>The wait list of event \<open>e\<close>.\<close>

abbreviation wait_of :: "os_state \<Rightarrow> nat \<Rightarrow> prio_map" where
  "wait_of s e \<equiv> OSEventWait (OSEventTbl s e)"

text \<open>
  The result of a kernel call that may suspend its caller: \<open>Done\<close> when the call ends without
  waiting, \<open>Wait\<close> when the caller was put on a wait list and \<^verbatim>\<open>OS_Sched()\<close> has switched to another
  task.  The rest of the call, run when the caller is scheduled again, is a function of its own.
\<close>

datatype 'a call = Done 'a | Wait

end
