(* ===== verification/Os_Core.thy ===== *)
theory Os_Core
  imports Os_Types
begin

text \<open>
  os_core.c: the scheduler, the wait-list services on which semaphores, mailboxes, queues and
  mutexes rest, the clock tick, interrupt and scheduler-lock nesting, initialisation and the
  creation of task control blocks.  \<^verbatim>\<open>OS_ENTER_CRITICAL\<close>/\<^verbatim>\<open>OS_EXIT_CRITICAL\<close> disable interrupts on
  the single processor, so a function is one atomic step up to its calls of \<^verbatim>\<open>OS_Sched\<close>.  The hooks
  of os_cpu_c.c are empty in this configuration.
\<close>

section \<open>Scheduling\<close>

definition OS_SchedNew :: "os_state \<Rightarrow> os_state" where
  "OS_SchedNew s =
     (let y = unmap (Grp (OSRdy s))
      in s\<lparr>OSPrioHighRdy := push_bit 3 y + unmap (Tbl (OSRdy s) ! unat y)\<rparr>)"

text \<open>
  \<^verbatim>\<open>OSCtxSw\<close> and \<^verbatim>\<open>OSIntCtxSw\<close> (os_cpu_a.S): the kernel-visible effect of the context switch.
\<close>

definition OSCtxSw :: "os_state \<Rightarrow> os_state" where
  "OSCtxSw s = s\<lparr>OSTCBCur := OSTCBHighRdy s, OSPrioCur := OSPrioHighRdy s\<rparr>"

text \<open>The body shared by \<^verbatim>\<open>OS_Sched\<close> and \<^verbatim>\<open>OSIntExit\<close>: switch if another task is the highest ready.\<close>

definition sched_switch :: "os_state \<Rightarrow> os_state" where
  "sched_switch s =
     (let s1 = OS_SchedNew s
      in if OSPrioHighRdy s1 \<noteq> OSPrioCur s1 then
           let s2 = s1\<lparr>OSTCBHighRdy := OSTCBPrioTbl s1 (unat (OSPrioHighRdy s1))\<rparr>;
               s3 = upd_tcb (tcb_of (OSTCBHighRdy s2))
                      (\<lambda>t. t\<lparr>OSTCBCtxSwCtr := OSTCBCtxSwCtr t + 1\<rparr>) s2;
               s4 = s3\<lparr>OSCtxSwCtr := OSCtxSwCtr s3 + 1\<rparr>
           in OSCtxSw s4
         else s1)"

definition OS_Sched :: "os_state \<Rightarrow> os_state" where
  "OS_Sched s =
     (if OSIntNesting s = 0 then if OSLockNesting s = 0 then sched_switch s else s else s)"

definition OSIntEnter :: "os_state \<Rightarrow> os_state" where
  "OSIntEnter s =
     (if OSRunning s then
        if OSIntNesting s < 255 then s\<lparr>OSIntNesting := OSIntNesting s + 1\<rparr> else s
      else s)"

definition OSIntExit :: "os_state \<Rightarrow> os_state" where
  "OSIntExit s =
     (if OSRunning s then
        let s1 = (if OSIntNesting s > 0 then s\<lparr>OSIntNesting := OSIntNesting s - 1\<rparr> else s)
        in if OSIntNesting s1 = 0 then
             if OSLockNesting s1 = 0 then sched_switch s1 else s1
           else s1
      else s)"

definition OSSchedLock :: "os_state \<Rightarrow> os_state" where
  "OSSchedLock s =
     (if OSRunning s then
        if OSIntNesting s = 0 then
          if OSLockNesting s < 255 then s\<lparr>OSLockNesting := OSLockNesting s + 1\<rparr> else s
        else s
      else s)"

definition OSSchedUnlock :: "os_state \<Rightarrow> os_state" where
  "OSSchedUnlock s =
     (if OSRunning s then
        if OSLockNesting s > 0 then
          let s1 = s\<lparr>OSLockNesting := OSLockNesting s - 1\<rparr>
          in if OSLockNesting s1 = 0 then if OSIntNesting s1 = 0 then OS_Sched s1 else s1 else s1
        else s
      else s)"

text \<open>\<^verbatim>\<open>OSStartHighRdy\<close> (os_cpu_a.S) sets \<^verbatim>\<open>OSRunning\<close> and loads the context of \<^verbatim>\<open>OSTCBHighRdy\<close>.\<close>

definition OSStart :: "os_state \<Rightarrow> os_state" where
  "OSStart s =
     (if \<not> OSRunning s then
        let s1 = OS_SchedNew s;
            s2 = s1\<lparr>OSPrioCur := OSPrioHighRdy s1\<rparr>;
            s3 = s2\<lparr>OSTCBHighRdy := OSTCBPrioTbl s2 (unat (OSPrioHighRdy s2))\<rparr>;
            s4 = s3\<lparr>OSTCBCur := OSTCBHighRdy s3\<rparr>
        in s4\<lparr>OSRunning := True\<rparr>
      else s)"

section \<open>Wait lists\<close>

definition OS_EventTaskRemove :: "nat \<Rightarrow> nat \<Rightarrow> os_state \<Rightarrow> os_state" where
  "OS_EventTaskRemove ptcb pevent s =
     (let t = OSTCBTbl s ptcb
      in upd_event pevent (\<lambda>ev. ev\<lparr>OSEventWait :=
           bm_clr (OSTCBY t) (OSTCBBitX t) (OSTCBBitY t) (OSEventWait ev)\<rparr>) s)"

fun OS_EventTaskRemoveMulti :: "nat \<Rightarrow> nat list \<Rightarrow> os_state \<Rightarrow> os_state" where
  "OS_EventTaskRemoveMulti ptcb [] s = s"
| "OS_EventTaskRemoveMulti ptcb (pevent # pevents) s =
     OS_EventTaskRemoveMulti ptcb pevents (OS_EventTaskRemove ptcb pevent s)"

text \<open>Making a task ready: \<^verbatim>\<open>OSRdyGrp |= ptcb->OSTCBBitY; OSRdyTbl[y] |= ptcb->OSTCBBitX;\<close>\<close>

definition rdy_insert :: "nat \<Rightarrow> u8 \<Rightarrow> os_state \<Rightarrow> os_state" where
  "rdy_insert ptcb y s =
     (let t = OSTCBTbl s ptcb in s\<lparr>OSRdy := bm_set y (OSTCBBitX t) (OSTCBBitY t) (OSRdy s)\<rparr>)"

text \<open>
  Removing a task from the ready list:
  \<^verbatim>\<open>OSRdyTbl[y] &= ~BitX; if (OSRdyTbl[y] == 0) OSRdyGrp &= ~BitY;\<close>
\<close>

definition rdy_remove :: "nat \<Rightarrow> os_state \<Rightarrow> os_state" where
  "rdy_remove ptcb s =
     (let t = OSTCBTbl s ptcb
      in s\<lparr>OSRdy := bm_clr (OSTCBY t) (OSTCBBitX t) (OSTCBBitY t) (OSRdy s)\<rparr>)"

definition OS_EventTaskRdy ::
  "nat \<Rightarrow> ptr \<Rightarrow> u8 \<Rightarrow> pend_stat \<Rightarrow> os_state \<Rightarrow> u8 \<times> os_state" where
  "OS_EventTaskRdy pevent pmsg msk pend s =
     (let w = wait_of s pevent;
          y = unmap (Grp w);
          x = unmap (Tbl w ! unat y);
          prio = push_bit 3 y + x;
          ptcb = tcb_of (OSTCBPrioTbl s (unat prio));
          s1 = upd_tcb ptcb (\<lambda>t. t\<lparr>OSTCBDly := 0, OSTCBMsg := pmsg,
                 OSTCBStat := OSTCBStat t AND NOT msk, OSTCBStatPend := pend\<rparr>) s;
          s2 = (if OSTCBStat (OSTCBTbl s1 ptcb) AND OS_STAT_SUSPEND = OS_STAT_RDY
                then rdy_insert ptcb y s1 else s1);
          s3 = OS_EventTaskRemove ptcb pevent s2;
          s4 = (case OSTCBEventMultiPtr (OSTCBTbl s3 ptcb) of
                  None \<Rightarrow> s3
                | Some es \<Rightarrow> upd_tcb ptcb (\<lambda>t. t\<lparr>OSTCBEventPtr := PEvent pevent\<rparr>)
                    (OS_EventTaskRemoveMulti ptcb es s3))
      in (prio, s4))"

definition OS_EventTaskWait :: "nat \<Rightarrow> os_state \<Rightarrow> os_state" where
  "OS_EventTaskWait pevent s =
     (let s1 = upd_cur (\<lambda>t. t\<lparr>OSTCBEventPtr := PEvent pevent\<rparr>) s;
          t = cur_tcb s1;
          s2 = upd_event pevent (\<lambda>ev. ev\<lparr>OSEventWait :=
                 bm_set (OSTCBY t) (OSTCBBitX t) (OSTCBBitY t) (OSEventWait ev)\<rparr>) s1
      in rdy_remove (tcb_of (OSTCBCur s2)) s2)"

text \<open>
  The fragment every pend call ends its first half with:
  \<^verbatim>\<open>OSTCBCur->OSTCBStat |= stat; OSTCBCur->OSTCBStatPend = OS_STAT_PEND_OK;
  OSTCBCur->OSTCBDly = timeout; OS_EventTaskWait(pevent);\<close>
\<close>

definition pend_block :: "nat \<Rightarrow> u8 \<Rightarrow> u16 \<Rightarrow> os_state \<Rightarrow> os_state" where
  "pend_block pevent stat timeout s =
     OS_EventTaskWait pevent (upd_cur (\<lambda>t. t\<lparr>OSTCBStat := OSTCBStat t OR stat,
       OSTCBStatPend := OS_STAT_PEND_OK, OSTCBDly := timeout\<rparr>) s)"

text \<open>
  And the fragment that ends the second half:
  \<^verbatim>\<open>OSTCBStat = OS_STAT_RDY; OSTCBStatPend = OS_STAT_PEND_OK; OSTCBEventPtr = 0; OSTCBEventMultiPtr = 0;\<close>
\<close>

definition pend_clear :: "os_state \<Rightarrow> os_state" where
  "pend_clear s = upd_cur (\<lambda>t. t\<lparr>OSTCBStat := OS_STAT_RDY, OSTCBStatPend := OS_STAT_PEND_OK,
     OSTCBEventPtr := NULL, OSTCBEventMultiPtr := None\<rparr>) s"

text \<open>The loop of \<^verbatim>\<open>OS_EventTaskWaitMulti\<close> that enters the task on each wait list.\<close>

fun wait_multi_loop :: "nat list \<Rightarrow> os_state \<Rightarrow> os_state" where
  "wait_multi_loop [] s = s"
| "wait_multi_loop (pevent # pevents) s =
     wait_multi_loop pevents
       (upd_event pevent (\<lambda>ev. ev\<lparr>OSEventWait :=
          bm_set (OSTCBY (cur_tcb s)) (OSTCBBitX (cur_tcb s)) (OSTCBBitY (cur_tcb s))
            (OSEventWait ev)\<rparr>) s)"

definition OS_EventTaskWaitMulti :: "nat list \<Rightarrow> os_state \<Rightarrow> os_state" where
  "OS_EventTaskWaitMulti pevents_wait s =
     (let s1 = upd_cur (\<lambda>t. t\<lparr>OSTCBEventPtr := NULL, OSTCBEventMultiPtr := Some pevents_wait\<rparr>) s;
          s2 = wait_multi_loop pevents_wait s1
      in rdy_remove (tcb_of (OSTCBCur s2)) s2)"

definition OS_EventWaitListInit :: "nat \<Rightarrow> os_state \<Rightarrow> os_state" where
  "OS_EventWaitListInit pevent s = upd_event pevent (\<lambda>ev. ev\<lparr>OSEventWait := bm_init\<rparr>) s"

text \<open>
  \<^verbatim>\<open>while (pevent->OSEventGrp != 0) (void)OS_EventTaskRdy(pevent, pmsg, msk, pend_stat);\<close>, the
  loop of the deletions, broadcasts and aborts, with the number of tasks it readied.  Each round
  clears one of the 24 bits of a well-formed wait list, so 24 rounds are enough; \<open>None\<close> stands for
  a loop that is still running after its fuel.
\<close>

fun rdy_all :: "nat \<Rightarrow> nat \<Rightarrow> ptr \<Rightarrow> u8 \<Rightarrow> pend_stat \<Rightarrow> os_state \<Rightarrow> (nat \<times> os_state) option" where
  "rdy_all fuel pevent pmsg msk pend s =
     (if Grp (wait_of s pevent) = 0 then Some (0, s)
      else case fuel of
          0 \<Rightarrow> None
        | Suc n \<Rightarrow>
            (case rdy_all n pevent pmsg msk pend (snd (OS_EventTaskRdy pevent pmsg msk pend s)) of
               None \<Rightarrow> None
             | Some (k, s') \<Rightarrow> Some (Suc k, s')))"

declare rdy_all.simps [simp del]

section \<open>The clock tick\<close>

text \<open>
  The fragment \<^verbatim>\<open>OSTimeTick\<close> and \<^verbatim>\<open>OSTimeDlyResume\<close> run on a task whose delay has just ended: a task
  that waits for an event gets a time-out status.
\<close>

definition dly_over :: "nat \<Rightarrow> os_state \<Rightarrow> os_state" where
  "dly_over ptcb s =
     (if OSTCBStat (OSTCBTbl s ptcb) AND OS_STAT_PEND_ANY \<noteq> OS_STAT_RDY
      then upd_tcb ptcb (\<lambda>t. t\<lparr>OSTCBStat := OSTCBStat t AND NOT OS_STAT_PEND_ANY,
                               OSTCBStatPend := OS_STAT_PEND_TO\<rparr>) s
      else upd_tcb ptcb (\<lambda>t. t\<lparr>OSTCBStatPend := OS_STAT_PEND_OK\<rparr>) s)"

text \<open>The body of the loop of \<^verbatim>\<open>OSTimeTick\<close> for one TCB.\<close>

definition tick_tcb :: "nat \<Rightarrow> os_state \<Rightarrow> os_state" where
  "tick_tcb ptcb s =
     (if OSTCBDly (OSTCBTbl s ptcb) \<noteq> 0 then
        let s1 = upd_tcb ptcb (\<lambda>t. t\<lparr>OSTCBDly := OSTCBDly t - 1\<rparr>) s
        in if OSTCBDly (OSTCBTbl s1 ptcb) = 0 then
             let s2 = dly_over ptcb s1
             in if OSTCBStat (OSTCBTbl s2 ptcb) AND OS_STAT_SUSPEND = OS_STAT_RDY
                then rdy_insert ptcb (OSTCBY (OSTCBTbl s2 ptcb)) s2 else s2
           else s1
      else s)"

text \<open>
  The walk along \<^verbatim>\<open>OSTCBNext\<close> up to the idle task; \<open>None\<close> when the idle task is not reached within
  the fuel, one more than the 12 TCBs there are.
\<close>

fun tick_loop :: "nat \<Rightarrow> ptr \<Rightarrow> os_state \<Rightarrow> os_state option" where
  "tick_loop 0 ptcb s = None"
| "tick_loop (Suc n) ptcb s =
     (if OSTCBPrio (OSTCBTbl s (tcb_of ptcb)) \<noteq> OS_TASK_IDLE_PRIO then
        let s1 = tick_tcb (tcb_of ptcb) s
        in tick_loop n (OSTCBNext (OSTCBTbl s1 (tcb_of ptcb))) s1
      else Some s)"

definition OSTimeTick :: "os_state \<Rightarrow> os_state option" where
  "OSTimeTick s =
     (let s1 = s\<lparr>OSTime := OSTime s + 1\<rparr>
      in if OSRunning s1 then
           let (step, s2) =
             (case OSTickStepState s1 of
                OS_TICK_STEP_DIS \<Rightarrow> (True, s1)
              | OS_TICK_STEP_WAIT \<Rightarrow> (False, s1)
              | OS_TICK_STEP_ONCE \<Rightarrow> (True, s1\<lparr>OSTickStepState := OS_TICK_STEP_WAIT\<rparr>))
           in if \<not> step then Some s2
              else tick_loop (OS_MAX_TASKS + OS_N_SYS_TASKS + 1) (OSTCBList s2) s2
         else Some s1)"

definition OSVersion :: u16 where
  "OSVersion = 286"

end
