(* ===== verification/Os_Inv.thy ===== *)
theory Os_Inv
  imports Os_Core
begin

text \<open>
  The kernel invariant \<open>os_wf\<close> and what the operations of Os_Core do to the ready set and the wait
  sets of a well-formed state.
\<close>

section \<open>Field lemmas for the table updates\<close>

lemma upd_tcb_fields [simp]:
  "OSRdy (upd_tcb i f s) = OSRdy s" "OSEventTbl (upd_tcb i f s) = OSEventTbl s"
  "OSTCBPrioTbl (upd_tcb i f s) = OSTCBPrioTbl s" "OSTCBCur (upd_tcb i f s) = OSTCBCur s"
  "OSPrioCur (upd_tcb i f s) = OSPrioCur s" "OSIntNesting (upd_tcb i f s) = OSIntNesting s"
  "OSLockNesting (upd_tcb i f s) = OSLockNesting s" "OSQTbl (upd_tcb i f s) = OSQTbl s"
  "OSQStore (upd_tcb i f s) = OSQStore s" "OSRunning (upd_tcb i f s) = OSRunning s"
  "OSEventFreeList (upd_tcb i f s) = OSEventFreeList s" "OSQFreeList (upd_tcb i f s) = OSQFreeList s"
  "OSPrioHighRdy (upd_tcb i f s) = OSPrioHighRdy s" "OSTCBHighRdy (upd_tcb i f s) = OSTCBHighRdy s"
  "OSTCBList (upd_tcb i f s) = OSTCBList s" "OSTCBFreeList (upd_tcb i f s) = OSTCBFreeList s"
  "OSTime (upd_tcb i f s) = OSTime s" "OSTickStepState (upd_tcb i f s) = OSTickStepState s"
  "OSTCBTbl (upd_tcb i f s) = (OSTCBTbl s)(i := f (OSTCBTbl s i))"
  "OSTaskCtr (upd_tcb i f s) = OSTaskCtr s" "OSCtxSwCtr (upd_tcb i f s) = OSCtxSwCtr s"
  by (simp_all add: upd_tcb_def)

lemma upd_event_fields [simp]:
  "OSRdy (upd_event e g s) = OSRdy s" "OSTCBTbl (upd_event e g s) = OSTCBTbl s"
  "OSTCBPrioTbl (upd_event e g s) = OSTCBPrioTbl s" "OSTCBCur (upd_event e g s) = OSTCBCur s"
  "OSPrioCur (upd_event e g s) = OSPrioCur s" "OSIntNesting (upd_event e g s) = OSIntNesting s"
  "OSLockNesting (upd_event e g s) = OSLockNesting s" "OSQTbl (upd_event e g s) = OSQTbl s"
  "OSQStore (upd_event e g s) = OSQStore s" "OSRunning (upd_event e g s) = OSRunning s"
  "OSEventFreeList (upd_event e g s) = OSEventFreeList s"
  "OSQFreeList (upd_event e g s) = OSQFreeList s"
  "OSPrioHighRdy (upd_event e g s) = OSPrioHighRdy s"
  "OSTCBHighRdy (upd_event e g s) = OSTCBHighRdy s"
  "OSTCBList (upd_event e g s) = OSTCBList s" "OSTCBFreeList (upd_event e g s) = OSTCBFreeList s"
  "OSTime (upd_event e g s) = OSTime s" "OSTickStepState (upd_event e g s) = OSTickStepState s"
  "OSEventTbl (upd_event e g s) = (OSEventTbl s)(e := g (OSEventTbl s e))"
  "OSTaskCtr (upd_event e g s) = OSTaskCtr s" "OSCtxSwCtr (upd_event e g s) = OSCtxSwCtr s"
  by (simp_all add: upd_event_def)

lemma upd_q_fields [simp]:
  "OSRdy (upd_q q g s) = OSRdy s" "OSTCBTbl (upd_q q g s) = OSTCBTbl s"
  "OSTCBPrioTbl (upd_q q g s) = OSTCBPrioTbl s" "OSTCBCur (upd_q q g s) = OSTCBCur s"
  "OSPrioCur (upd_q q g s) = OSPrioCur s" "OSIntNesting (upd_q q g s) = OSIntNesting s"
  "OSLockNesting (upd_q q g s) = OSLockNesting s" "OSEventTbl (upd_q q g s) = OSEventTbl s"
  "OSQStore (upd_q q g s) = OSQStore s" "OSRunning (upd_q q g s) = OSRunning s"
  "OSEventFreeList (upd_q q g s) = OSEventFreeList s" "OSQFreeList (upd_q q g s) = OSQFreeList s"
  "OSTCBList (upd_q q g s) = OSTCBList s" "OSTCBFreeList (upd_q q g s) = OSTCBFreeList s"
  "OSQTbl (upd_q q g s) = (OSQTbl s)(q := g (OSQTbl s q))"
  by (simp_all add: upd_q_def)

section \<open>The invariant\<close>

definition rdy_set :: "os_state \<Rightarrow> nat set" where
  "rdy_set s = bm_elems (OSRdy s)"

definition wait_set :: "os_state \<Rightarrow> nat \<Rightarrow> nat set" where
  "wait_set s e = bm_elems (wait_of s e)"

text \<open>The precomputed position fields of a TCB agree with its priority.\<close>

definition tcb_pos_ok :: "OS_TCB \<Rightarrow> bool" where
  "tcb_pos_ok t \<longleftrightarrow> OSTCBY t = prio_y (OSTCBPrio t) \<and> OSTCBX t = prio_x (OSTCBPrio t) \<and>
     OSTCBBitY t = prio_bit (prio_y (OSTCBPrio t)) \<and> OSTCBBitX t = prio_bit (prio_x (OSTCBPrio t))"

text \<open>TCB \<open>i\<close> is the task that the priority table lists at priority \<open>p\<close>, and it agrees.\<close>

definition at_prio :: "os_state \<Rightarrow> nat \<Rightarrow> nat \<Rightarrow> bool" where
  "at_prio s p i \<longleftrightarrow> OSTCBPrioTbl s p = PTcb i \<and> unat (OSTCBPrio (OSTCBTbl s i)) = p \<and> p \<le> 20 \<and>
     tcb_pos_ok (OSTCBTbl s i)"

text \<open>Which wait list a TCB says it may be on.\<close>

definition waits_on :: "OS_TCB \<Rightarrow> nat \<Rightarrow> bool" where
  "waits_on t e \<longleftrightarrow>
     (case OSTCBEventMultiPtr t of None \<Rightarrow> OSTCBEventPtr t = PEvent e | Some es \<Rightarrow> e \<in> set es)"

definition rdy_ok :: "OS_TCB \<Rightarrow> bool" where
  "rdy_ok t \<longleftrightarrow> OSTCBDly t = 0 \<and> OSTCBStat t AND OS_STAT_SUSPEND = OS_STAT_RDY"

definition os_wf :: "os_state \<Rightarrow> bool" where
  "os_wf s \<longleftrightarrow> bm_wf (OSRdy s) \<and> (\<forall>e. bm_wf (wait_of s e)) \<and>
     (\<forall>p \<in> rdy_set s. \<exists>i. at_prio s p i \<and> rdy_ok (OSTCBTbl s i)) \<and>
     (\<forall>e. \<forall>p \<in> wait_set s e. \<exists>i. at_prio s p i \<and> waits_on (OSTCBTbl s i) e)"

lemma os_wf_bm: "os_wf s \<Longrightarrow> bm_wf (OSRdy s)" "os_wf s \<Longrightarrow> bm_wf (wait_of s e)"
  by (simp_all add: os_wf_def)

lemma os_wf_rdyE:
  assumes "os_wf s" "p \<in> rdy_set s"
  obtains i where "at_prio s p i" "rdy_ok (OSTCBTbl s i)"
  using assms by (auto simp: os_wf_def)

lemma os_wf_waitE:
  assumes "os_wf s" "p \<in> wait_set s e"
  obtains i where "at_prio s p i" "waits_on (OSTCBTbl s i) e"
  using assms unfolding os_wf_def by blast

lemma at_prio_unique: "at_prio s p i \<Longrightarrow> at_prio s p j \<Longrightarrow> i = j"
  by (simp add: at_prio_def)

lemma at_prio_same_tcb: "at_prio s p i \<Longrightarrow> at_prio s q i \<Longrightarrow> p = q"
  by (simp add: at_prio_def)

lemma at_prio_lt_24: "at_prio s p i \<Longrightarrow> unat (OSTCBPrio (OSTCBTbl s i)) < 24"
  by (simp add: at_prio_def)

lemma at_prio_unat: "at_prio s p i \<Longrightarrow> unat (OSTCBPrio (OSTCBTbl s i)) = p"
  by (simp add: at_prio_def)

lemma at_prio_pos: "at_prio s p i \<Longrightarrow> tcb_pos_ok (OSTCBTbl s i)"
  by (simp add: at_prio_def)

lemma at_prio_tbl: "at_prio s p i \<Longrightarrow> OSTCBPrioTbl s p = PTcb i"
  by (simp add: at_prio_def)

lemma at_prio_rdy_ok: "os_wf s \<Longrightarrow> at_prio s p i \<Longrightarrow> p \<in> rdy_set s \<Longrightarrow> rdy_ok (OSTCBTbl s i)"
  by (metis at_prio_unique os_wf_rdyE)

lemma at_prio_waits_on:
  "os_wf s \<Longrightarrow> at_prio s p i \<Longrightarrow> p \<in> wait_set s e \<Longrightarrow> waits_on (OSTCBTbl s i) e"
  by (metis at_prio_unique os_wf_waitE)

text \<open>With agreeing position fields the kernel's fragments are the operations of the interface.\<close>

lemma bm_set_pos: "tcb_pos_ok t \<Longrightarrow> bm_set (OSTCBY t) (OSTCBBitX t) (OSTCBBitY t) = bm_ins (OSTCBPrio t)"
  by (simp add: tcb_pos_ok_def bm_ins_def)

lemma bm_clr_pos: "tcb_pos_ok t \<Longrightarrow> bm_clr (OSTCBY t) (OSTCBBitX t) (OSTCBBitY t) = bm_del (OSTCBPrio t)"
  by (simp add: tcb_pos_ok_def bm_del_def)

lemma bm_test_pos:
  "tcb_pos_ok t \<Longrightarrow> bm_wf m \<Longrightarrow> unat (OSTCBPrio t) < 24 \<Longrightarrow>
     bm_test (OSTCBY t) (OSTCBBitX t) m \<longleftrightarrow> unat (OSTCBPrio t) \<in> bm_elems m"
  by (simp add: tcb_pos_ok_def bm_test_iff)

text \<open>
  Invariance in one place: a state whose bitmaps are well formed is well formed when every listed
  priority has its task.
\<close>

lemma os_wfI:
  assumes "bm_wf (OSRdy s)" "\<And>e. bm_wf (wait_of s e)"
    and "\<And>p. p \<in> rdy_set s \<Longrightarrow> \<exists>i. at_prio s p i \<and> rdy_ok (OSTCBTbl s i)"
    and "\<And>e p. p \<in> wait_set s e \<Longrightarrow> \<exists>i. at_prio s p i \<and> waits_on (OSTCBTbl s i) e"
  shows "os_wf s"
  using assms by (auto simp: os_wf_def)

text \<open>
  Changing the fields of one task that do not carry its priority keeps the invariant when the task
  still fits the lists it is on.
\<close>

definition keeps_prio :: "(OS_TCB \<Rightarrow> OS_TCB) \<Rightarrow> bool" where
  "keeps_prio f \<longleftrightarrow> (\<forall>t. OSTCBPrio (f t) = OSTCBPrio t \<and> OSTCBX (f t) = OSTCBX t \<and>
     OSTCBY (f t) = OSTCBY t \<and> OSTCBBitX (f t) = OSTCBBitX t \<and> OSTCBBitY (f t) = OSTCBBitY t)"

lemma at_prio_cong:
  assumes "OSTCBPrioTbl s' p = OSTCBPrioTbl s p"
    and "\<And>i. OSTCBPrio (OSTCBTbl s' i) = OSTCBPrio (OSTCBTbl s i) \<and>
      tcb_pos_ok (OSTCBTbl s' i) = tcb_pos_ok (OSTCBTbl s i)"
  shows "at_prio s' p i \<longleftrightarrow> at_prio s p i"
  using assms by (simp add: at_prio_def)

lemma keeps_prio_pos: "keeps_prio f \<Longrightarrow> tcb_pos_ok (f t) \<longleftrightarrow> tcb_pos_ok t"
  by (simp add: keeps_prio_def tcb_pos_ok_def)

lemma at_prio_upd_tcb [simp]: "keeps_prio f \<Longrightarrow> at_prio (upd_tcb j f s) p i \<longleftrightarrow> at_prio s p i"
  by (rule at_prio_cong) (auto simp: keeps_prio_pos keeps_prio_def)

lemma at_prio_upd_event [simp]: "at_prio (upd_event e g s) p i \<longleftrightarrow> at_prio s p i"
  by (simp add: at_prio_def)

lemma at_prio_OSRdy [simp]: "at_prio (s\<lparr>OSRdy := r\<rparr>) p i \<longleftrightarrow> at_prio s p i"
  by (simp add: at_prio_def)

lemma set_simps [simp]:
  "rdy_set (upd_tcb i f s) = rdy_set s" "wait_set (upd_tcb i f s) e = wait_set s e"
  "rdy_set (upd_event e g s) = rdy_set s"
  "rdy_set (s\<lparr>OSRdy := r\<rparr>) = bm_elems r" "wait_set (s\<lparr>OSRdy := r\<rparr>) e = wait_set s e"
  by (simp_all add: rdy_set_def wait_set_def)

lemma wait_set_upd_event:
  "wait_set (upd_event e g s) e' =
     (if e' = e then bm_elems (OSEventWait (g (OSEventTbl s e))) else wait_set s e')"
  by (simp add: wait_set_def)

lemma os_wf_upd_tcb:
  assumes wf: "os_wf s" and k: "keeps_prio f"
    and r: "\<And>p. at_prio s p i \<Longrightarrow> p \<in> rdy_set s \<Longrightarrow> rdy_ok (f (OSTCBTbl s i))"
    and w: "\<And>e p. at_prio s p i \<Longrightarrow> p \<in> wait_set s e \<Longrightarrow> waits_on (f (OSTCBTbl s i)) e"
  shows "os_wf (upd_tcb i f s)"
proof (rule os_wfI)
  fix p assume p: "p \<in> rdy_set (upd_tcb i f s)"
  then obtain j where j: "at_prio s p j" "rdy_ok (OSTCBTbl s j)"
    using wf by (auto elim: os_wf_rdyE)
  then show "\<exists>j. at_prio (upd_tcb i f s) p j \<and> rdy_ok (OSTCBTbl (upd_tcb i f s) j)"
    using r p k by (cases "j = i") auto
next
  fix e p assume p: "p \<in> wait_set (upd_tcb i f s) e"
  then obtain j where j: "at_prio s p j" "waits_on (OSTCBTbl s j) e"
    using wf by (auto elim: os_wf_waitE)
  then show "\<exists>j. at_prio (upd_tcb i f s) p j \<and> waits_on (OSTCBTbl (upd_tcb i f s) j) e"
    using w p k by (cases "j = i") auto
qed (use wf in \<open>auto simp: os_wf_bm\<close>)


text \<open>The same for the task listed at \<open>p\<close>.\<close>

lemma os_wf_upd_tcb_at:
  assumes wf: "os_wf s" and k: "keeps_prio f" and a: "at_prio s p i"
    and r: "p \<in> rdy_set s \<Longrightarrow> rdy_ok (f (OSTCBTbl s i))"
    and w: "\<And>e. p \<in> wait_set s e \<Longrightarrow> waits_on (f (OSTCBTbl s i)) e"
  shows "os_wf (upd_tcb i f s)"
proof (rule os_wf_upd_tcb [OF wf k])
  fix q assume q: "at_prio s q i"
  then have "q = p" using a by (rule at_prio_same_tcb)
  then show "q \<in> rdy_set s \<Longrightarrow> rdy_ok (f (OSTCBTbl s i))"
    and "q \<in> wait_set s e \<Longrightarrow> waits_on (f (OSTCBTbl s i)) e" for e
    using r w by auto
qed

text \<open>And for a change that neither list looks at.\<close>

lemma os_wf_upd_tcb_same:
  assumes "os_wf s" "keeps_prio f" "\<And>t. rdy_ok t \<Longrightarrow> rdy_ok (f t)"
    and "\<And>t e. waits_on (f t) e = waits_on t e"
  shows "os_wf (upd_tcb i f s)"
  using assms by (auto intro!: os_wf_upd_tcb dest: at_prio_rdy_ok at_prio_waits_on)

section \<open>Ready list operations\<close>

lemma rdy_set_insert:
  assumes "os_wf s" "at_prio s p i"
  shows "rdy_set (rdy_insert i (OSTCBY (OSTCBTbl s i)) s) = insert p (rdy_set s)"
  using assms at_prio_lt_24 [OF assms(2)] at_prio_unat [OF assms(2)]
  by (simp add: rdy_insert_def Let_def bm_set_pos [OF at_prio_pos] bm.els_ins os_wf_bm rdy_set_def)

lemma rdy_set_remove:
  assumes "os_wf s" "at_prio s p i"
  shows "rdy_set (rdy_remove i s) = rdy_set s - {p}"
  using assms at_prio_lt_24 [OF assms(2)] at_prio_unat [OF assms(2)]
  by (simp add: rdy_remove_def Let_def bm_clr_pos [OF at_prio_pos] bm.els_del os_wf_bm rdy_set_def)

lemma rdy_fields [simp]:
  "OSTCBTbl (rdy_insert i y s) = OSTCBTbl s" "OSEventTbl (rdy_insert i y s) = OSEventTbl s"
  "OSTCBPrioTbl (rdy_insert i y s) = OSTCBPrioTbl s" "OSTCBCur (rdy_insert i y s) = OSTCBCur s"
  "OSPrioCur (rdy_insert i y s) = OSPrioCur s" "OSIntNesting (rdy_insert i y s) = OSIntNesting s"
  "OSLockNesting (rdy_insert i y s) = OSLockNesting s" "OSQTbl (rdy_insert i y s) = OSQTbl s"
  "OSQStore (rdy_insert i y s) = OSQStore s" "OSRunning (rdy_insert i y s) = OSRunning s"
  "OSTCBList (rdy_insert i y s) = OSTCBList s"
  "OSEventFreeList (rdy_insert i y s) = OSEventFreeList s"
  "wait_set (rdy_insert i y s) e = wait_set s e" "at_prio (rdy_insert i y s) q j = at_prio s q j"
  "OSTCBTbl (rdy_remove i s) = OSTCBTbl s" "OSEventTbl (rdy_remove i s) = OSEventTbl s"
  "OSTCBPrioTbl (rdy_remove i s) = OSTCBPrioTbl s" "OSTCBCur (rdy_remove i s) = OSTCBCur s"
  "OSPrioCur (rdy_remove i s) = OSPrioCur s" "OSIntNesting (rdy_remove i s) = OSIntNesting s"
  "OSLockNesting (rdy_remove i s) = OSLockNesting s" "OSQTbl (rdy_remove i s) = OSQTbl s"
  "OSQStore (rdy_remove i s) = OSQStore s" "OSRunning (rdy_remove i s) = OSRunning s"
  "OSTCBList (rdy_remove i s) = OSTCBList s"
  "OSEventFreeList (rdy_remove i s) = OSEventFreeList s"
  "wait_set (rdy_remove i s) e = wait_set s e" "at_prio (rdy_remove i s) q j = at_prio s q j"
  by (simp_all add: rdy_insert_def rdy_remove_def Let_def)

lemma os_wf_rdy_insert:
  assumes wf: "os_wf s" and a: "at_prio s p i" and r: "rdy_ok (OSTCBTbl s i)"
  shows "os_wf (rdy_insert i (OSTCBY (OSTCBTbl s i)) s)"
proof (rule os_wfI)
  show "bm_wf (OSRdy (rdy_insert i (OSTCBY (OSTCBTbl s i)) s))"
    using wf a at_prio_lt_24 [OF a]
    by (simp add: rdy_insert_def Let_def bm_set_pos [OF at_prio_pos] bm.inv_ins os_wf_bm)
next
  fix q assume "q \<in> rdy_set (rdy_insert i (OSTCBY (OSTCBTbl s i)) s)"
  then have "q = p \<or> q \<in> rdy_set s"
    by (simp add: rdy_set_insert [OF wf a])
  then show "\<exists>j. at_prio (rdy_insert i (OSTCBY (OSTCBTbl s i)) s) q j \<and>
      rdy_ok (OSTCBTbl (rdy_insert i (OSTCBY (OSTCBTbl s i)) s) j)"
    using wf a r by (auto elim: os_wf_rdyE)
qed (use wf in \<open>auto simp: os_wf_bm elim: os_wf_waitE\<close>)

lemma os_wf_rdy_remove:
  assumes wf: "os_wf s" and a: "at_prio s p i"
  shows "os_wf (rdy_remove i s)"
proof (rule os_wfI)
  show "bm_wf (OSRdy (rdy_remove i s))"
    using wf a at_prio_lt_24 [OF a]
    by (simp add: rdy_remove_def Let_def bm_clr_pos [OF at_prio_pos] bm.inv_del os_wf_bm)
next
  fix q assume "q \<in> rdy_set (rdy_remove i s)"
  then have "q \<in> rdy_set s"
    by (simp add: rdy_set_remove [OF wf a])
  then show "\<exists>j. at_prio (rdy_remove i s) q j \<and> rdy_ok (OSTCBTbl (rdy_remove i s) j)"
    using wf by (auto elim: os_wf_rdyE)
qed (use wf in \<open>auto simp: os_wf_bm elim: os_wf_waitE\<close>)

section \<open>Wait list operations\<close>

lemma EventTaskRemove_fields [simp]:
  "OSTCBTbl (OS_EventTaskRemove i e s) = OSTCBTbl s" "OSRdy (OS_EventTaskRemove i e s) = OSRdy s"
  "rdy_set (OS_EventTaskRemove i e s) = rdy_set s"
  "OSTCBPrioTbl (OS_EventTaskRemove i e s) = OSTCBPrioTbl s"
  "OSTCBCur (OS_EventTaskRemove i e s) = OSTCBCur s"
  "OSPrioCur (OS_EventTaskRemove i e s) = OSPrioCur s"
  "OSIntNesting (OS_EventTaskRemove i e s) = OSIntNesting s"
  "OSLockNesting (OS_EventTaskRemove i e s) = OSLockNesting s"
  "OSQTbl (OS_EventTaskRemove i e s) = OSQTbl s"
  "OSQStore (OS_EventTaskRemove i e s) = OSQStore s"
  "OSRunning (OS_EventTaskRemove i e s) = OSRunning s"
  "OSTCBList (OS_EventTaskRemove i e s) = OSTCBList s"
  "OSEventFreeList (OS_EventTaskRemove i e s) = OSEventFreeList s"
  "at_prio (OS_EventTaskRemove i e s) q j = at_prio s q j"
  by (simp_all add: OS_EventTaskRemove_def Let_def)

text \<open>Fields of an event other than its wait list.\<close>

definition event_data :: "OS_EVENT \<Rightarrow> event_type \<times> ptr \<times> u16 \<times> u8 list" where
  "event_data ev = (OSEventType ev, OSEventPtr ev, OSEventCnt ev, OSEventName ev)"

lemma event_data_EventTaskRemove [simp]:
  "event_data (OSEventTbl (OS_EventTaskRemove i e s) e') = event_data (OSEventTbl s e')"
  by (simp add: OS_EventTaskRemove_def Let_def event_data_def)

lemma wait_set_EventTaskRemove:
  assumes wf: "os_wf s" and a: "at_prio s p i"
  shows "wait_set (OS_EventTaskRemove i e s) e' =
    (if e' = e then wait_set s e - {p} else wait_set s e')"
  using assms at_prio_lt_24 [OF a] at_prio_unat [OF a]
  by (simp add: OS_EventTaskRemove_def Let_def wait_set_upd_event bm_clr_pos [OF at_prio_pos]
      bm.els_del os_wf_bm) (simp add: wait_set_def)

lemma os_wf_EventTaskRemove:
  assumes wf: "os_wf s" and a: "at_prio s p i"
  shows "os_wf (OS_EventTaskRemove i e s)"
proof (rule os_wfI)
  show "bm_wf (wait_of (OS_EventTaskRemove i e s) e')" for e'
    using wf a at_prio_lt_24 [OF a]
    by (simp add: OS_EventTaskRemove_def Let_def bm_clr_pos [OF at_prio_pos] bm.inv_del os_wf_bm)
next
  fix e' q assume "q \<in> wait_set (OS_EventTaskRemove i e s) e'"
  then have "q \<in> wait_set s e'"
    by (simp add: wait_set_EventTaskRemove [OF wf a] split: if_splits)
  then show "\<exists>j. at_prio (OS_EventTaskRemove i e s) q j \<and>
      waits_on (OSTCBTbl (OS_EventTaskRemove i e s) j) e'"
    using wf by (auto elim: os_wf_waitE)
qed (use wf in \<open>auto simp: os_wf_bm elim: os_wf_rdyE\<close>)

lemma EventTaskRemoveMulti_fields [simp]:
  "OSTCBTbl (OS_EventTaskRemoveMulti i es s) = OSTCBTbl s"
  "rdy_set (OS_EventTaskRemoveMulti i es s) = rdy_set s"
  "OSTCBPrioTbl (OS_EventTaskRemoveMulti i es s) = OSTCBPrioTbl s"
  "OSTCBCur (OS_EventTaskRemoveMulti i es s) = OSTCBCur s"
  "OSPrioCur (OS_EventTaskRemoveMulti i es s) = OSPrioCur s"
  "OSIntNesting (OS_EventTaskRemoveMulti i es s) = OSIntNesting s"
  "OSLockNesting (OS_EventTaskRemoveMulti i es s) = OSLockNesting s"
  "OSQTbl (OS_EventTaskRemoveMulti i es s) = OSQTbl s"
  "OSQStore (OS_EventTaskRemoveMulti i es s) = OSQStore s"
  "OSRunning (OS_EventTaskRemoveMulti i es s) = OSRunning s"
  "OSTCBList (OS_EventTaskRemoveMulti i es s) = OSTCBList s"
  "OSEventFreeList (OS_EventTaskRemoveMulti i es s) = OSEventFreeList s"
  "at_prio (OS_EventTaskRemoveMulti i es s) q j = at_prio s q j"
  "event_data (OSEventTbl (OS_EventTaskRemoveMulti i es s) e') = event_data (OSEventTbl s e')"
  by (induction es arbitrary: s) simp_all

lemma EventTaskRemoveMulti_sets:
  assumes "os_wf s" "at_prio s p i"
  shows "os_wf (OS_EventTaskRemoveMulti i es s) \<and>
    wait_set (OS_EventTaskRemoveMulti i es s) e' =
      (if e' \<in> set es then wait_set s e' - {p} else wait_set s e')"
  using assms
proof (induction es arbitrary: s)
  case (Cons e es)
  have wf: "os_wf (OS_EventTaskRemove i e s)" and a: "at_prio (OS_EventTaskRemove i e s) p i"
    using Cons.prems by (auto intro: os_wf_EventTaskRemove)
  show ?case
    using Cons.IH [OF wf a] by (auto simp: wait_set_EventTaskRemove [OF Cons.prems])
qed simp


section \<open>Readying the highest-priority waiter\<close>

lemma bm_highest_row:
  assumes "bm_wf m" "Grp m \<noteq> 0"
  shows "prio_y (bm_highest m) = unmap (Grp m)"
proof -
  let ?y = "unmap (Grp m)"
  have y8: "unat ?y < 8" and yb: "bit (Grp m) (unat ?y)"
    using unmap_correct [OF assms(2)] by auto
  then have "Tbl m ! unat ?y \<noteq> 0"
    using assms(1) by (auto simp: bm_wf_def)
  then have x8: "unat (unmap (Tbl m ! unat ?y)) < 8"
    by (rule unmap_correct)
  have "unat (prio_y (bm_highest m)) = unat ?y"
    using unat_shift3 [OF y8 x8] x8 by (simp add: unat_prio_y bm_highest_def Let_def)
  then show ?thesis by (rule unsigned_word_eqI)
qed

text \<open>The fields \<^verbatim>\<open>OS_EventTaskRdy\<close> writes in the TCB of the readied task.\<close>

definition rdy_write :: "ptr \<Rightarrow> u8 \<Rightarrow> pend_stat \<Rightarrow> OS_TCB \<Rightarrow> OS_TCB" where
  "rdy_write pmsg msk pend t = t\<lparr>OSTCBDly := 0, OSTCBMsg := pmsg,
     OSTCBStat := OSTCBStat t AND NOT msk, OSTCBStatPend := pend\<rparr>"

lemma keeps_prio_rdy_write [simp]: "keeps_prio (rdy_write pmsg msk pend)"
  by (simp add: keeps_prio_def rdy_write_def)

lemma rdy_ok_rdy_write: "rdy_ok t \<Longrightarrow> rdy_ok (rdy_write pmsg msk pend t)"
proof -
  assume "rdy_ok t"
  then have "(OSTCBStat t AND OS_STAT_SUSPEND) AND NOT msk = 0"
    by (simp add: rdy_ok_def)
  then show ?thesis
    by (simp add: rdy_ok_def rdy_write_def ac_simps)
qed

lemma waits_on_rdy_write [simp]: "waits_on (rdy_write pmsg msk pend t) e = waits_on t e"
  by (simp add: waits_on_def rdy_write_def split: option.split)

lemma EventTaskRdy_unfold:
  fixes pmsg :: ptr and msk :: u8 and pend :: pend_stat
  assumes wf: "os_wf s" and ne: "Grp (wait_of s e) \<noteq> 0"
    and a: "at_prio s (unat (bm_highest (wait_of s e))) i"
  defines "s1 \<equiv> upd_tcb i (rdy_write pmsg msk pend) s"
  defines "s2 \<equiv> if (OSTCBStat (OSTCBTbl s i) AND NOT msk) AND OS_STAT_SUSPEND = OS_STAT_RDY
    then rdy_insert i (OSTCBY (OSTCBTbl s1 i)) s1 else s1"
  defines "s3 \<equiv> OS_EventTaskRemove i e s2"
  shows "OS_EventTaskRdy e pmsg msk pend s = (bm_highest (wait_of s e),
    case OSTCBEventMultiPtr (OSTCBTbl s i) of None \<Rightarrow> s3
    | Some es \<Rightarrow> upd_tcb i (\<lambda>t. t\<lparr>OSTCBEventPtr := PEvent e\<rparr>) (OS_EventTaskRemoveMulti i es s3))"
proof -
  have i: "OSTCBPrioTbl s (unat (bm_highest (wait_of s e))) = PTcb i"
    using a by (rule at_prio_tbl)
  have "OSTCBPrio (OSTCBTbl s i) = bm_highest (wait_of s e)"
    using at_prio_unat [OF a] by (rule unsigned_word_eqI)
  then have y: "OSTCBY (OSTCBTbl s i) = unmap (Grp (wait_of s e))"
    using at_prio_pos [OF a] bm_highest_row [OF os_wf_bm(2) [OF wf] ne]
    by (simp add: tcb_pos_ok_def)
  have m: "OSTCBEventMultiPtr (OSTCBTbl s3 i) = OSTCBEventMultiPtr (OSTCBTbl s i)"
    by (simp add: s3_def s2_def s1_def rdy_write_def)
  have s1': "upd_tcb i (\<lambda>t. t\<lparr>OSTCBDly := 0, OSTCBMsg := pmsg,
      OSTCBStat := OSTCBStat t AND NOT msk, OSTCBStatPend := pend\<rparr>) s = s1"
    by (simp add: s1_def rdy_write_def [abs_def])
  have s2': "(if OSTCBStat (OSTCBTbl s1 i) AND OS_STAT_SUSPEND = OS_STAT_RDY
      then rdy_insert i (unmap (Grp (wait_of s e))) s1 else s1) = s2"
    by (simp add: s2_def s1_def rdy_write_def y)
  show ?thesis
    unfolding OS_EventTaskRdy_def Let_def bm_highest_def [unfolded Let_def, symmetric] i tcb_of.simps
      s1' s2' s3_def [symmetric] m ..
qed

lemma EventTaskRdy_correct:
  fixes s :: os_state and e :: nat and pmsg :: ptr and msk :: u8 and pend :: pend_stat
  assumes wf: "os_wf s" and ne: "Grp (wait_of s e) \<noteq> 0"
  defines "p \<equiv> unat (bm_highest (wait_of s e))"
  defines "s' \<equiv> snd (OS_EventTaskRdy e pmsg msk pend s)"
  assumes a: "at_prio s p i"
  shows "os_wf s'"
    and "wait_set s' e' = wait_set s e' - {p}"
    and "rdy_set s' = (if (OSTCBStat (OSTCBTbl s i) AND NOT msk) AND OS_STAT_SUSPEND = OS_STAT_RDY
      then insert p (rdy_set s) else rdy_set s)"
    and "at_prio s' q j = at_prio s q j"
    and "event_data (OSEventTbl s' e') = event_data (OSEventTbl s e')"
    and "OSTCBTbl s' i = (rdy_write pmsg msk pend (OSTCBTbl s i))
      \<lparr>OSTCBEventPtr := if OSTCBEventMultiPtr (OSTCBTbl s i) = None
         then OSTCBEventPtr (OSTCBTbl s i) else PEvent e\<rparr>"
    and "j \<noteq> i \<Longrightarrow> OSTCBTbl s' j = OSTCBTbl s j"
proof -
  let ?f = "rdy_write pmsg msk pend"
  define s1 where "s1 = upd_tcb i ?f s"
  define ready where
    "ready \<longleftrightarrow> (OSTCBStat (OSTCBTbl s i) AND NOT msk) AND OS_STAT_SUSPEND = OS_STAT_RDY"
  define s2 where "s2 = (if ready then rdy_insert i (OSTCBY (OSTCBTbl s1 i)) s1 else s1)"
  define s3 where "s3 = OS_EventTaskRemove i e s2"
  have s': "s' = (case OSTCBEventMultiPtr (OSTCBTbl s i) of None \<Rightarrow> s3
    | Some es \<Rightarrow> upd_tcb i (\<lambda>t. t\<lparr>OSTCBEventPtr := PEvent e\<rparr>) (OS_EventTaskRemoveMulti i es s3))"
    unfolding s'_def EventTaskRdy_unfold [OF wf ne a [unfolded p_def]] s3_def s2_def s1_def ready_def
    by simp
  have a1: "at_prio s1 p i"
    using a by (simp add: s1_def)
  have wf1: "os_wf s1"
    unfolding s1_def
  proof (rule os_wf_upd_tcb [OF wf keeps_prio_rdy_write])
    fix q assume q: "at_prio s q i" "q \<in> rdy_set s"
    with wf show "rdy_ok (?f (OSTCBTbl s i))"
      by (metis at_prio_unique os_wf_rdyE rdy_ok_rdy_write)
  next
    fix e q assume q: "at_prio s q i" "q \<in> wait_set s e"
    with wf show "waits_on (?f (OSTCBTbl s i)) e"
      by (metis at_prio_unique os_wf_waitE waits_on_rdy_write)
  qed
  have "ready \<Longrightarrow> rdy_ok (OSTCBTbl s1 i)"
    by (simp add: s1_def ready_def rdy_ok_def rdy_write_def)
  then have wf2: "os_wf s2"
    using wf1 os_wf_rdy_insert [OF wf1 a1] by (simp add: s2_def)
  have a2: "at_prio s2 p i"
    using a1 by (simp add: s2_def)
  have r2: "rdy_set s2 = (if ready then insert p (rdy_set s) else rdy_set s)"
    using rdy_set_insert [OF wf1 a1] by (simp add: s2_def) (simp add: s1_def)
  have w2: "wait_set s2 e' = wait_set s e'" for e'
    by (simp add: s2_def s1_def)
  have wf3: "os_wf s3" and a3: "at_prio s3 p i"
    using os_wf_EventTaskRemove [OF wf2 a2] a2 by (simp_all add: s3_def)
  have w3: "wait_set s3 e' = (if e' = e then wait_set s e - {p} else wait_set s e')" for e'
    by (simp add: s3_def wait_set_EventTaskRemove [OF wf2 a2] w2)
  have t3: "OSTCBTbl s3 = (OSTCBTbl s)(i := ?f (OSTCBTbl s i))"
    by (simp add: s3_def s2_def s1_def)
  have r3: "rdy_set s3 = rdy_set s2"
    by (simp add: s3_def)
  have only: "waits_on (OSTCBTbl s i) e'" if "p \<in> wait_set s e'" for e'
    using that wf a by (metis at_prio_unique os_wf_waitE)
  have in_e: "p \<in> wait_set s e"
    using bm.hi_mem [OF os_wf_bm(2) [OF wf]] ne by (simp add: p_def wait_set_def bm_some_def)
  show "j \<noteq> i \<Longrightarrow> OSTCBTbl s' j = OSTCBTbl s j"
    by (simp add: s' t3 split: option.split)
  show "OSTCBTbl s' i = (?f (OSTCBTbl s i)) \<lparr>OSTCBEventPtr :=
      if OSTCBEventMultiPtr (OSTCBTbl s i) = None then OSTCBEventPtr (OSTCBTbl s i) else PEvent e\<rparr>"
    by (auto simp: s' t3 rdy_write_def split: option.split)
  show "event_data (OSEventTbl s' e') = event_data (OSEventTbl s e')"
    by (simp add: s' s3_def s2_def s1_def split: option.split)
  have kp: "keeps_prio (\<lambda>t. t\<lparr>OSTCBEventPtr := PEvent e\<rparr>)"
    by (simp add: keeps_prio_def)
  show "at_prio s' q j = at_prio s q j"
    by (simp add: s' s3_def s2_def s1_def kp split: option.split)
  show "rdy_set s' = (if (OSTCBStat (OSTCBTbl s i) AND NOT msk) AND OS_STAT_SUSPEND = OS_STAT_RDY
      then insert p (rdy_set s) else rdy_set s)"
    by (simp add: s' r3 r2 ready_def split: option.split)
  show "wait_set s' e' = wait_set s e' - {p}"
  proof (cases "OSTCBEventMultiPtr (OSTCBTbl s i)")
    case None
    then have "e' \<noteq> e \<Longrightarrow> p \<notin> wait_set s e'"
      using only [of e'] only [OF in_e] by (auto simp: waits_on_def)
    with None show ?thesis by (auto simp: s' w3)
  next
    case (Some es)
    then have "e' \<notin> set es \<Longrightarrow> p \<notin> wait_set s e'"
      using only [of e'] by (auto simp: waits_on_def)
    moreover have "e \<in> set es"
      using Some only [OF in_e] by (simp add: waits_on_def)
    ultimately show ?thesis
      using Some EventTaskRemoveMulti_sets [OF wf3 a3, of es e'] by (auto simp: s' w3)
  qed
  show "os_wf s'"
  proof (cases "OSTCBEventMultiPtr (OSTCBTbl s i)")
    case None
    with wf3 show ?thesis by (simp add: s')
  next
    case (Some es)
    have wf4: "os_wf (OS_EventTaskRemoveMulti i es s3)"
      using EventTaskRemoveMulti_sets [OF wf3 a3] by blast
    have "os_wf (upd_tcb i (\<lambda>t. t\<lparr>OSTCBEventPtr := PEvent e\<rparr>) (OS_EventTaskRemoveMulti i es s3))"
    proof (rule os_wf_upd_tcb [OF wf4 kp], goal_cases)
      case (1 q)
      then have "rdy_ok (OSTCBTbl (OS_EventTaskRemoveMulti i es s3) i)"
        using wf4 by (metis at_prio_unique os_wf_rdyE)
      then show ?case
        by (simp add: rdy_ok_def)
    next
      case (2 e q)
      then have "waits_on (OSTCBTbl (OS_EventTaskRemoveMulti i es s3) i) e"
        using wf4 by (metis at_prio_unique os_wf_waitE)
      with Some show ?case
        by (simp add: t3 waits_on_def rdy_write_def)
    qed
    with Some show ?thesis by (simp add: s')
  qed
qed


text \<open>What readying, waiting and removing leave alone.\<close>

definition os_frame ::
  "os_state \<Rightarrow> ptr \<times> u8 \<times> u8 \<times> u8 \<times> bool \<times> (nat \<Rightarrow> ptr) \<times> ptr \<times> ptr \<times> ptr \<times> (nat \<Rightarrow> OS_Q) \<times> (nat \<Rightarrow> ptr)"
  where
  "os_frame s = (OSTCBCur s, OSPrioCur s, OSIntNesting s, OSLockNesting s, OSRunning s,
     OSTCBPrioTbl s, OSTCBList s, OSEventFreeList s, OSQFreeList s, OSQTbl s, OSQStore s)"

lemma os_frame_simps [simp]:
  "os_frame (upd_tcb i f s) = os_frame s" "os_frame (upd_event e g s) = os_frame s"
  "os_frame (rdy_insert i y s) = os_frame s" "os_frame (rdy_remove i s) = os_frame s"
  "os_frame (OS_EventTaskRemove i e s) = os_frame s"
  by (simp_all add: os_frame_def upd_tcb_def upd_event_def rdy_insert_def rdy_remove_def Let_def
      OS_EventTaskRemove_def)

lemma os_frame_RemoveMulti [simp]: "os_frame (OS_EventTaskRemoveMulti i es s) = os_frame s"
  by (induction es arbitrary: s) simp_all

lemma os_frame_EventTaskRdy [simp]: "os_frame (snd (OS_EventTaskRdy e pmsg msk pend s)) = os_frame s"
  by (simp add: OS_EventTaskRdy_def Let_def split: option.split)

text \<open>The waiters of \<open>e\<close> that a post with mask \<open>msk\<close> makes ready: all but the suspended ones.\<close>

definition task_at :: "os_state \<Rightarrow> nat \<Rightarrow> OS_TCB" where
  "task_at s p = OSTCBTbl s (tcb_of (OSTCBPrioTbl s p))"

definition released :: "os_state \<Rightarrow> nat set \<Rightarrow> u8 \<Rightarrow> nat set" where
  "released s P msk = {p \<in> P. (OSTCBStat (task_at s p) AND NOT msk) AND OS_STAT_SUSPEND = OS_STAT_RDY}"

lemma task_at_prio: "at_prio s p i \<Longrightarrow> task_at s p = OSTCBTbl s i"
  by (simp add: task_at_def at_prio_def)

lemma rdy_all_correct:
  assumes "os_wf s" "card (wait_set s e) \<le> fuel"
  shows "\<exists>s'. rdy_all fuel e pmsg msk pend s = Some (card (wait_set s e), s') \<and> os_wf s' \<and>
    Grp (wait_of s' e) = 0 \<and> (\<forall>e'. wait_set s' e' = wait_set s e' - wait_set s e) \<and>
    rdy_set s' = rdy_set s \<union> released s (wait_set s e) msk \<and>
    (\<forall>e'. event_data (OSEventTbl s' e') = event_data (OSEventTbl s e')) \<and>
    (\<forall>q j. at_prio s' q j = at_prio s q j) \<and> os_frame s' = os_frame s \<and>
    (\<forall>q \<in> wait_set s e. OSTCBMsg (task_at s' q) = pmsg \<and> OSTCBStatPend (task_at s' q) = pend) \<and>
    (\<forall>q j. at_prio s q j \<longrightarrow> q \<notin> wait_set s e \<longrightarrow> task_at s' q = task_at s q)"
  using assms
proof (induction fuel arbitrary: s)
  case 0
  then have "wait_set s e = {}"
    using bm.finite_els [OF os_wf_bm(2)] by (simp add: wait_set_def)
  moreover from this have "Grp (wait_of s e) = 0"
    using bm.some_iff [OF os_wf_bm(2) [OF 0(1)]] by (simp add: wait_set_def bm_some_def)
  ultimately show ?case
    using 0 by (simp add: rdy_all.simps released_def)
next
  case (Suc n)
  let ?w = "wait_set s e"
  show ?case
  proof (cases "Grp (wait_of s e) = 0")
    case True
    then have "?w = {}"
      using bm.some_iff [OF os_wf_bm(2) [OF Suc.prems(1)]] by (simp add: wait_set_def bm_some_def)
    with True Suc.prems show ?thesis
      by (simp add: rdy_all.simps released_def)
  next
    case False
    let ?p = "unat (bm_highest (wait_of s e))"
    define s1 where "s1 = snd (OS_EventTaskRdy e pmsg msk pend s)"
    have p: "?p \<in> ?w"
      using bm.hi_mem [OF os_wf_bm(2) [OF Suc.prems(1)]] False
      by (simp add: wait_set_def bm_some_def)
    then obtain i where a: "at_prio s ?p i"
      using Suc.prems(1) by (auto elim: os_wf_waitE)
    note step = EventTaskRdy_correct [OF Suc.prems(1) False a, where pmsg = pmsg and msk = msk and
      pend = pend, folded s1_def]
    have fin: "finite ?w"
      using bm.finite_els [OF os_wf_bm(2) [OF Suc.prems(1)]] by (simp add: wait_set_def)
    have card: "card ?w = Suc (card (?w - {?p}))"
      using card.remove [OF fin p] .
    have w1: "wait_set s1 e' = wait_set s e' - {?p}" for e'
      using step(2) .
    obtain s' where s': "rdy_all n e pmsg msk pend s1 = Some (card (wait_set s1 e), s')"
      "os_wf s'" "Grp (wait_of s' e) = 0" "\<forall>e'. wait_set s' e' = wait_set s1 e' - wait_set s1 e"
      "rdy_set s' = rdy_set s1 \<union> released s1 (wait_set s1 e) msk"
      "\<forall>e'. event_data (OSEventTbl s' e') = event_data (OSEventTbl s1 e')"
      "\<forall>q j. at_prio s' q j = at_prio s1 q j" "os_frame s' = os_frame s1"
      "\<forall>q \<in> wait_set s1 e. OSTCBMsg (task_at s' q) = pmsg \<and> OSTCBStatPend (task_at s' q) = pend"
      "\<forall>q j. at_prio s1 q j \<longrightarrow> q \<notin> wait_set s1 e \<longrightarrow> task_at s' q = task_at s1 q"
      using Suc.IH [OF step(1)] Suc.prems(2) card w1 by auto
    have fr: "os_frame s1 = os_frame s"
      by (simp add: s1_def)
    have same': "task_at s1 q = task_at s q" if j: "at_prio s q j" and q: "q \<noteq> ?p" for q j
    proof -
      from j have "j \<noteq> i"
        using a q at_prio_same_tcb by blast
      moreover have "at_prio s1 q j"
        using j step(4) by simp
      ultimately show ?thesis
        using j step(7) by (simp add: task_at_prio)
    qed
    have same: "task_at s1 q = task_at s q" if "q \<in> ?w" "q \<noteq> ?p" for q
      using that same' Suc.prems(1) by (metis os_wf_waitE)
    have first: "OSTCBMsg (task_at s' ?p) = pmsg \<and> OSTCBStatPend (task_at s' ?p) = pend"
    proof -
      have "at_prio s1 ?p i" using a step(4) by simp
      moreover from this have "task_at s' ?p = task_at s1 ?p"
        using s'(10) w1 by blast
      ultimately show ?thesis
        using step(6) by (simp add: task_at_prio rdy_write_def)
    qed
    have msgs: "OSTCBMsg (task_at s' q) = pmsg \<and> OSTCBStatPend (task_at s' q) = pend"
      if "q \<in> ?w" for q
      using that first s'(9) w1 by (cases "q = ?p") auto
    have rest: "task_at s' q = task_at s q" if q: "at_prio s q j" "q \<notin> ?w" for q j
    proof -
      have "q \<noteq> ?p" using q(2) p by blast
      moreover have "at_prio s1 q j" using q(1) step(4) by simp
      then have "task_at s' q = task_at s1 q"
        using s'(10) w1 q(2) by blast
      ultimately show ?thesis using same' [OF q(1)] by simp
    qed
    have "released s1 (?w - {?p}) msk = released s ?w msk - {?p}"
      using same by (auto simp: released_def)
    then have "rdy_set s' = rdy_set s \<union> released s ?w msk"
      using s'(5) step(3) w1 p task_at_prio [OF a] by (auto simp: released_def)
    with s'(1-4,6-8) fr step(4,5) card w1 False p msgs rest show ?thesis
      by (intro exI [of _ s']) (auto simp: rdy_all.simps s1_def)
  qed
qed

corollary rdy_all_terminates:
  assumes "os_wf s"
  obtains s' where "rdy_all 24 e pmsg msk pend s = Some (card (wait_set s e), s')" "os_wf s'"
    "Grp (wait_of s' e) = 0" "\<And>e'. wait_set s' e' = wait_set s e' - wait_set s e"
    "rdy_set s' = rdy_set s \<union> released s (wait_set s e) msk"
    "\<And>e'. event_data (OSEventTbl s' e') = event_data (OSEventTbl s e')"
    "\<And>q j. at_prio s' q j = at_prio s q j" "os_frame s' = os_frame s"
    "\<And>q. q \<in> wait_set s e \<Longrightarrow>
      OSTCBMsg (task_at s' q) = pmsg \<and> OSTCBStatPend (task_at s' q) = pend"
proof -
  have "card (wait_set s e) \<le> 24"
    using bm.card_els_le [OF os_wf_bm(2) [OF assms]] by (simp add: wait_set_def)
  from rdy_all_correct [OF assms this, where pmsg = pmsg and msk = msk and pend = pend]
  show thesis
    by (elim exE conjE) (rule that; blast)
qed


section \<open>The running task\<close>

text \<open>
  \<open>running s p i\<close>: task \<open>i\<close> runs at priority \<open>p\<close>, is on the ready list and on no wait list.  This
  is the state in which a task calls the kernel.
\<close>

definition running :: "os_state \<Rightarrow> nat \<Rightarrow> nat \<Rightarrow> bool" where
  "running s p i \<longleftrightarrow> OSTCBCur s = PTcb i \<and> unat (OSPrioCur s) = p \<and> at_prio s p i \<and> p \<in> rdy_set s \<and>
     (\<forall>e. p \<notin> wait_set s e) \<and> OSTCBEventMultiPtr (OSTCBTbl s i) = None"

text \<open>\<^verbatim>\<open>OSTCBCur\<close> is the TCB listed at \<^verbatim>\<open>OSPrioCur\<close>.\<close>

definition cur_ok :: "os_state \<Rightarrow> bool" where
  "cur_ok s \<longleftrightarrow> OSTCBCur s = OSTCBPrioTbl s (unat (OSPrioCur s))"

text \<open>Not in an interrupt service routine and the scheduler not locked.\<close>

definition can_sched :: "os_state \<Rightarrow> bool" where
  "can_sched s \<longleftrightarrow> OSIntNesting s = 0 \<and> OSLockNesting s = 0"

lemma running_cur_ok: "running s p i \<Longrightarrow> cur_ok s"
  by (simp add: running_def cur_ok_def at_prio_def)

lemma pend_block_correct:
  fixes e :: nat and stat :: u8 and timeout :: u16
  assumes wf: "os_wf s" and run: "running s p i"
  defines "s' \<equiv> pend_block e stat timeout s"
  shows "os_wf s'"
    and "rdy_set s' = rdy_set s - {p}"
    and "wait_set s' e' = (if e' = e then insert p (wait_set s e) else wait_set s e')"
    and "OSTCBTbl s' = (OSTCBTbl s)(i := (OSTCBTbl s i)\<lparr>OSTCBStat := OSTCBStat (OSTCBTbl s i) OR stat,
      OSTCBStatPend := OS_STAT_PEND_OK, OSTCBDly := timeout, OSTCBEventPtr := PEvent e\<rparr>)"
    and "at_prio s' q j = at_prio s q j" and "os_frame s' = os_frame s"
    and "event_data (OSEventTbl s' e') = event_data (OSEventTbl s e')"
proof -
  let ?t = "OSTCBTbl s i"
  let ?t' = "?t\<lparr>OSTCBStat := OSTCBStat ?t OR stat, OSTCBStatPend := OS_STAT_PEND_OK,
    OSTCBDly := timeout, OSTCBEventPtr := PEvent e\<rparr>"
  have cur: "OSTCBCur s = PTcb i" and a: "at_prio s p i"
    and off: "\<And>e. p \<notin> wait_set s e" and multi: "OSTCBEventMultiPtr ?t = None"
    using run by (auto simp: running_def)
  have pos: "tcb_pos_ok ?t" "tcb_pos_ok ?t'"
    using at_prio_pos [OF a] by (simp_all add: tcb_pos_ok_def)
  note s'_unf = s'_def pend_block_def OS_EventTaskWait_def Let_def rdy_remove_def
  show tbl: "OSTCBTbl s' = (OSTCBTbl s)(i := ?t')"
    by (simp add: s'_unf cur)
  show fr: "os_frame s' = os_frame s"
    by (simp add: s'_def pend_block_def OS_EventTaskWait_def Let_def)
  then have pt: "OSTCBPrioTbl s' = OSTCBPrioTbl s"
    by (simp add: os_frame_def)
  show a': "at_prio s' q j = at_prio s q j" for q j
    by (rule at_prio_cong) (auto simp: tbl pt tcb_pos_ok_def)
  show "event_data (OSEventTbl s' e') = event_data (OSEventTbl s e')"
    by (simp add: s'_unf event_data_def)
  have rdy: "OSRdy s' = bm_del (OSTCBPrio ?t) (OSRdy s)"
    using pos(1) by (simp add: s'_unf cur tcb_pos_ok_def bm_del_def)
  show rs: "rdy_set s' = rdy_set s - {p}"
    using at_prio_lt_24 [OF a] at_prio_unat [OF a] wf
    by (simp add: rdy_set_def rdy bm.els_del os_wf_bm)
  have wl: "wait_of s' e' = (if e' = e then bm_ins (OSTCBPrio ?t) (wait_of s e) else wait_of s e')" for e'
    using pos(1) by (simp add: s'_unf cur tcb_pos_ok_def bm_ins_def)
  show ws: "wait_set s' e' = (if e' = e then insert p (wait_set s e) else wait_set s e')" for e'
    using at_prio_lt_24 [OF a] at_prio_unat [OF a] wf
    by (simp add: wait_set_def wl bm.els_ins os_wf_bm)
  show "os_wf s'"
  proof (rule os_wfI)
    show "bm_wf (OSRdy s')" "\<And>e'. bm_wf (wait_of s' e')"
      using at_prio_lt_24 [OF a] wf by (simp_all add: rdy wl bm.inv_ins bm.inv_del os_wf_bm)
  next
    fix q assume "q \<in> rdy_set s'"
    then obtain j where j: "at_prio s q j" "rdy_ok (OSTCBTbl s j)" "q \<noteq> p"
      using rs wf by (auto elim: os_wf_rdyE)
    then have "j \<noteq> i" using a at_prio_same_tcb by blast
    with j show "\<exists>j. at_prio s' q j \<and> rdy_ok (OSTCBTbl s' j)"
      using a' tbl by auto
  next
    fix e' q assume q: "q \<in> wait_set s' e'"
    show "\<exists>j. at_prio s' q j \<and> waits_on (OSTCBTbl s' j) e'"
    proof (cases "q = p")
      case True
      then have "e' = e" using q ws off by (auto split: if_splits)
      with True a a' multi show ?thesis
        by (intro exI [of _ i]) (auto simp: tbl waits_on_def)
    next
      case False
      then have "q \<in> wait_set s e'" using q ws by (auto split: if_splits)
      then obtain j where j: "at_prio s q j" "waits_on (OSTCBTbl s j) e'"
        using wf by (auto elim: os_wf_waitE)
      then have "j \<noteq> i" using a False at_prio_same_tcb by blast
      with j show ?thesis using a' tbl by auto
    qed
  qed
qed

section \<open>The scheduler\<close>

lemma OS_SchedNew_highest: "OSPrioHighRdy (OS_SchedNew s) = bm_highest (OSRdy s)"
  by (simp add: OS_SchedNew_def bm_highest_def Let_def)

lemma OS_SchedNew_eq: "OS_SchedNew s = s\<lparr>OSPrioHighRdy := bm_highest (OSRdy s)\<rparr>"
  by (simp add: OS_SchedNew_def bm_highest_def Let_def)

text \<open>The fields the scheduler never writes.\<close>

lemma sched_switch_fields [simp]:
  "OSRdy (sched_switch s) = OSRdy s" "OSEventTbl (sched_switch s) = OSEventTbl s"
  "OSTCBPrioTbl (sched_switch s) = OSTCBPrioTbl s" "OSIntNesting (sched_switch s) = OSIntNesting s"
  "OSLockNesting (sched_switch s) = OSLockNesting s" "OSQTbl (sched_switch s) = OSQTbl s"
  "OSQStore (sched_switch s) = OSQStore s" "OSRunning (sched_switch s) = OSRunning s"
  "OSTCBList (sched_switch s) = OSTCBList s" "OSEventFreeList (sched_switch s) = OSEventFreeList s"
  "OSQFreeList (sched_switch s) = OSQFreeList s" "OSTime (sched_switch s) = OSTime s"
  by (simp_all add: sched_switch_def OSCtxSw_def Let_def OS_SchedNew_eq)

lemma OS_Sched_fields [simp]:
  "OSRdy (OS_Sched s) = OSRdy s" "OSEventTbl (OS_Sched s) = OSEventTbl s"
  "OSTCBPrioTbl (OS_Sched s) = OSTCBPrioTbl s" "OSIntNesting (OS_Sched s) = OSIntNesting s"
  "OSLockNesting (OS_Sched s) = OSLockNesting s" "OSQTbl (OS_Sched s) = OSQTbl s"
  "OSQStore (OS_Sched s) = OSQStore s" "OSRunning (OS_Sched s) = OSRunning s"
  "OSTCBList (OS_Sched s) = OSTCBList s" "OSEventFreeList (OS_Sched s) = OSEventFreeList s"
  "OSQFreeList (OS_Sched s) = OSQFreeList s" "OSTime (OS_Sched s) = OSTime s"
  by (simp_all add: OS_Sched_def)

text \<open>A TCB up to its context-switch counter.\<close>

definition tcb_core :: "OS_TCB \<Rightarrow> OS_TCB" where
  "tcb_core t = t\<lparr>OSTCBCtxSwCtr := 0\<rparr>"

lemma tcb_core_fields:
  assumes "tcb_core t = tcb_core t'"
  shows "OSTCBPrio t = OSTCBPrio t'" "OSTCBStat t = OSTCBStat t'" "OSTCBStatPend t = OSTCBStatPend t'"
    "OSTCBDly t = OSTCBDly t'" "OSTCBMsg t = OSTCBMsg t'" "OSTCBEventPtr t = OSTCBEventPtr t'"
    "OSTCBEventMultiPtr t = OSTCBEventMultiPtr t'" "OSTCBNext t = OSTCBNext t'"
    "OSTCBX t = OSTCBX t'" "OSTCBY t = OSTCBY t'" "OSTCBBitX t = OSTCBBitX t'"
    "OSTCBBitY t = OSTCBBitY t'"
  using arg_cong [OF assms, of OSTCBPrio] arg_cong [OF assms, of OSTCBStat]
    arg_cong [OF assms, of OSTCBStatPend] arg_cong [OF assms, of OSTCBDly]
    arg_cong [OF assms, of OSTCBMsg] arg_cong [OF assms, of OSTCBEventPtr]
    arg_cong [OF assms, of OSTCBEventMultiPtr] arg_cong [OF assms, of OSTCBNext]
    arg_cong [OF assms, of OSTCBX] arg_cong [OF assms, of OSTCBY]
    arg_cong [OF assms, of OSTCBBitX] arg_cong [OF assms, of OSTCBBitY]
  by (simp_all add: tcb_core_def)

lemma tcb_core_preds:
  assumes "tcb_core t = tcb_core t'"
  shows "tcb_pos_ok t = tcb_pos_ok t'" "rdy_ok t = rdy_ok t'" "waits_on t e = waits_on t' e"
  by (simp_all add: tcb_pos_ok_def rdy_ok_def waits_on_def tcb_core_fields [OF assms] split: option.split)

lemma tcb_core_sched [simp]: "tcb_core (OSTCBTbl (OS_Sched s) i) = tcb_core (OSTCBTbl s i)"
  by (simp add: OS_Sched_def sched_switch_def OSCtxSw_def Let_def OS_SchedNew_eq tcb_core_def)

lemma OS_Sched_sets [simp]:
  "rdy_set (OS_Sched s) = rdy_set s" "wait_set (OS_Sched s) e = wait_set s e"
  "at_prio (OS_Sched s) p i = at_prio s p i"
  using tcb_core_fields(1) [OF tcb_core_sched, of s] tcb_core_preds(1) [OF tcb_core_sched, of s]
  by (simp_all add: rdy_set_def wait_set_def at_prio_def)

lemma os_wf_OS_Sched [simp]: "os_wf (OS_Sched s) = os_wf s"
  using tcb_core_preds(2,3) [OF tcb_core_sched, of s]
  by (simp add: os_wf_def)

lemma OS_Sched_locked: "\<not> can_sched s \<Longrightarrow> OS_Sched s = s"
  by (auto simp: OS_Sched_def can_sched_def)

lemma OS_Sched_runs_highest:
  assumes "os_wf s" "rdy_set s \<noteq> {}" "cur_ok s" "can_sched s"
  shows "unat (OSPrioCur (OS_Sched s)) = Min (rdy_set s)"
    and "OSTCBCur (OS_Sched s) = OSTCBPrioTbl s (Min (rdy_set s))"
    and "cur_ok (OS_Sched s)"
proof -
  have hi: "unat (bm_highest (OSRdy s)) = Min (rdy_set s)"
    using bm.hi_eq_Min [OF os_wf_bm(1)] bm.some_iff [OF os_wf_bm(1)] assms(1,2)
    by (simp add: rdy_set_def)
  have p: "OSPrioCur (OS_Sched s) = bm_highest (OSRdy s)"
    and c: "OSTCBCur (OS_Sched s) = OSTCBPrioTbl s (unat (bm_highest (OSRdy s)))"
    using assms(3,4)
    by (auto simp: OS_Sched_def can_sched_def sched_switch_def Let_def OS_SchedNew_eq OSCtxSw_def
        cur_ok_def)
  show "unat (OSPrioCur (OS_Sched s)) = Min (rdy_set s)"
    by (simp add: p hi)
  show "OSTCBCur (OS_Sched s) = OSTCBPrioTbl s (Min (rdy_set s))"
    by (simp add: c hi)
  show "cur_ok (OS_Sched s)"
    by (simp add: cur_ok_def p c)
qed

end
