(* ===== verification/Os_Demo.thy ===== *)
theory Os_Demo
  imports Os_Inv
begin

text \<open>
  A small concrete kernel state, at which the theorems on the kernel's services are instantiated:
  task 0 runs at priority 5, task 1 of priority 3 waits up to 10 ticks for semaphore 0, task 3 of
  priority 12 is ready, task 2 is the idle task.  Event 1 is a free semaphore of count 2, event 2 an
  empty mailbox and event 3 a message queue of three cells that holds one message, event 4 a semaphore of count 0 for
  which nobody waits; all flags of flag group 0 are clear.
\<close>

definition demo_tcb :: "u8 \<Rightarrow> ptr \<Rightarrow> OS_TCB" where
  "demo_tcb p nxt = tcb_zero\<lparr>OSTCBPrio := p, OSTCBX := prio_x p, OSTCBY := prio_y p,
     OSTCBBitX := prio_bit (prio_x p), OSTCBBitY := prio_bit (prio_y p), OSTCBNext := nxt\<rparr>"

definition demo :: os_state where
  "demo = \<lparr>OSCtxSwCtr = 0, OSEventFreeList = PEvent 10,
     OSEventTbl = (\<lambda>_. event_zero)
       (0 := event_zero\<lparr>OSEventType := OS_EVENT_TYPE_SEM, OSEventWait := bm_ins 3 bm_init\<rparr>,
        1 := event_zero\<lparr>OSEventType := OS_EVENT_TYPE_SEM, OSEventCnt := 2\<rparr>,
        2 := event_zero\<lparr>OSEventType := OS_EVENT_TYPE_MBOX\<rparr>,
        3 := event_zero\<lparr>OSEventType := OS_EVENT_TYPE_Q, OSEventPtr := PQ 0\<rparr>,
        4 := event_zero\<lparr>OSEventType := OS_EVENT_TYPE_SEM\<rparr>),
     OSCPUUsage = 0, OSIdleCtrMax = 0, OSIdleCtrRun = 0, OSStatRdy = False, OSIntNesting = 0,
     OSLockNesting = 0, OSPrioCur = 5, OSPrioHighRdy = 5,
     OSRdy = bm_ins 5 (bm_ins 12 (bm_ins 20 bm_init)),
     OSRunning = True, OSTaskCtr = 4, OSIdleCtr = 0, OSTCBCur = PTcb 0, OSTCBFreeList = PTcb 4,
     OSTCBHighRdy = PTcb 0, OSTCBList = PTcb 3,
     OSTCBPrioTbl = (\<lambda>_. NULL)(5 := PTcb 0, 3 := PTcb 1, 12 := PTcb 3, 20 := PTcb 2),
     OSTCBTbl = (\<lambda>_. tcb_zero)
       (0 := demo_tcb 5 (PTcb 2),
        1 := (demo_tcb 3 (PTcb 0))\<lparr>OSTCBStat := OS_STAT_SEM, OSTCBDly := 10,
               OSTCBEventPtr := PEvent 0\<rparr>,
        2 := demo_tcb 20 NULL,
        3 := demo_tcb 12 (PTcb 1)),
     OSTickStepState = OS_TICK_STEP_DIS, OSMemFreeList = PMem 0, OSMemTbl = (\<lambda>_. mem_zero),
     OSMemHeap = (\<lambda>_. NULL), OSQFreeList = PQ 1,
     OSQTbl = (\<lambda>_. q_zero)(0 := \<lparr>OSQPtr = NULL, OSQStart = 0, OSQEnd = 3, OSQIn = 1, OSQOut = 0,
       OSQSize = 3, OSQEntries = 1\<rparr>),
     OSQStore = (\<lambda>_. NULL)(0 := PWord 77), OSFlagFreeList = PFlagGrp 1,
     OSFlagTbl = (\<lambda>_. flag_zero)(0 := flag_zero\<lparr>OSFlagType := OS_EVENT_TYPE_FLAG\<rparr>),
     OSFlagNodes = (\<lambda>_. node_zero), OSTime = 100, OSStkMem = (\<lambda>_. 0)\<rparr>"

lemma bm_wf_demo: "bm_wf (OSRdy demo)" "bm_wf (wait_of demo e)"
  by (simp_all add: demo_def event_zero_def bm.inv_ins bm_wf_init)

lemma rdy_set_demo: "rdy_set demo = {5, 12, 20}"
  by (simp add: rdy_set_def demo_def bm.els_ins bm.inv_ins bm_wf_init bm_elems_init)

lemma wait_set_demo: "wait_set demo e = (if e = 0 then {3} else {})"
  by (simp add: wait_set_def demo_def bm.els_ins bm.inv_ins bm_wf_init bm_elems_init event_zero_def)

lemma tcb_pos_demo: "tcb_pos_ok (demo_tcb p nxt)"
  by (simp add: tcb_pos_ok_def demo_tcb_def)

lemma at_prio_demo: "at_prio demo 5 0" "at_prio demo 3 1" "at_prio demo 12 3" "at_prio demo 20 2"
  by (simp_all add: at_prio_def demo_def tcb_pos_ok_def demo_tcb_def)

lemma os_wf_demo: "os_wf demo"
proof (rule os_wfI)
  fix p assume "p \<in> rdy_set demo"
  then consider "p = 5" | "p = 12" | "p = 20" by (auto simp: rdy_set_demo)
  then show "\<exists>i. at_prio demo p i \<and> rdy_ok (OSTCBTbl demo i)"
  proof cases
    case 1
    with at_prio_demo show ?thesis
      by (intro exI [of _ 0]) (simp add: rdy_ok_def demo_def demo_tcb_def tcb_zero_def)
  next
    case 2
    with at_prio_demo show ?thesis
      by (intro exI [of _ 3]) (simp add: rdy_ok_def demo_def demo_tcb_def tcb_zero_def)
  next
    case 3
    with at_prio_demo show ?thesis
      by (intro exI [of _ 2]) (simp add: rdy_ok_def demo_def demo_tcb_def tcb_zero_def)
  qed
next
  fix e p assume "p \<in> wait_set demo e"
  then have "p = 3 \<and> e = 0" by (simp add: wait_set_demo split: if_splits)
  with at_prio_demo show "\<exists>i. at_prio demo p i \<and> waits_on (OSTCBTbl demo i) e"
    by (intro exI [of _ 1]) (simp add: waits_on_def demo_def demo_tcb_def tcb_zero_def)
qed (rule bm_wf_demo)+

lemma running_demo: "running demo 5 0"
  using at_prio_demo
  by (simp add: running_def rdy_set_demo wait_set_demo)
    (simp add: demo_def demo_tcb_def tcb_zero_def)

lemma can_sched_demo: "can_sched demo"
  by (simp add: can_sched_def demo_def)

lemma cur_ok_demo: "cur_ok demo"
  by (simp add: cur_ok_def demo_def)

end
