(* ===== verification/Os_Time.thy ===== *)
theory Os_Time
  imports Os_Demo
begin

text \<open>
  os_time.c and the clock tick: delays, their expiry by \<^verbatim>\<open>OSTimeTick\<close>, \<^verbatim>\<open>OSTimeDlyHMSM\<close> as the
  sequence of delays it makes, and the system clock.
\<close>

section \<open>Operations\<close>

definition OSTimeDly :: "u16 \<Rightarrow> os_state \<Rightarrow> os_state" where
  "OSTimeDly ticks s =
     (if OSIntNesting s > 0 then s
      else if ticks > 0 then
        let s1 = rdy_remove (tcb_of (OSTCBCur s)) s;
            s2 = upd_cur (\<lambda>t. t\<lparr>OSTCBDly := ticks\<rparr>) s1
        in OS_Sched s2
      else s)"

text \<open>The tick count, in the 32-bit arithmetic of the source.\<close>

definition hmsm_ticks :: "u8 \<Rightarrow> u8 \<Rightarrow> u8 \<Rightarrow> u16 \<Rightarrow> u32" where
  "hmsm_ticks hours minutes seconds ms =
     (ucast hours * 3600 + ucast minutes * 60 + ucast seconds) * OS_TICKS_PER_SEC
       + OS_TICKS_PER_SEC * (ucast ms + 500 div OS_TICKS_PER_SEC) div 1000"

text \<open>The arguments of the calls of \<^verbatim>\<open>OSTimeDly\<close> in the loop of \<^verbatim>\<open>OSTimeDlyHMSM\<close>.\<close>

fun dly_loop :: "nat \<Rightarrow> u16 list" where
  "dly_loop 0 = []"
| "dly_loop (Suc loops) = 32768 # 32768 # dly_loop loops"

definition OSTimeDlyHMSM_delays :: "u8 \<Rightarrow> u8 \<Rightarrow> u8 \<Rightarrow> u16 \<Rightarrow> os_state \<Rightarrow> os_err \<times> u16 list" where
  "OSTimeDlyHMSM_delays hours minutes seconds ms s =
     (if OSIntNesting s > 0 then (OS_ERR_TIME_DLY_ISR, [])
      else if hours = 0 \<and> minutes = 0 \<and> seconds = 0 \<and> ms = 0 then (OS_ERR_TIME_ZERO_DLY, [])
      else if minutes > 59 then (OS_ERR_TIME_INVALID_MINUTES, [])
      else if seconds > 59 then (OS_ERR_TIME_INVALID_SECONDS, [])
      else if ms > 999 then (OS_ERR_TIME_INVALID_MS, [])
      else
        let ticks = hmsm_ticks hours minutes seconds ms;
            loops = (ucast (drop_bit 16 ticks) :: u16);
            ticks' = ticks AND 0xFFFF
        in (OS_ERR_NONE, ucast ticks' # dly_loop (unat loops)))"

text \<open>
  Running the call: each \<^verbatim>\<open>OSTimeDly\<close> gives up the processor, and \<open>others\<close> is what happens until the
  caller runs again (the other tasks and the ticks).
\<close>

fun dly_seq :: "(os_state \<Rightarrow> os_state) \<Rightarrow> u16 list \<Rightarrow> os_state \<Rightarrow> os_state" where
  "dly_seq others [] s = s"
| "dly_seq others (d # ds) s = dly_seq others ds (others (OSTimeDly d s))"

definition OSTimeDlyHMSM ::
  "(os_state \<Rightarrow> os_state) \<Rightarrow> u8 \<Rightarrow> u8 \<Rightarrow> u8 \<Rightarrow> u16 \<Rightarrow> os_state \<Rightarrow> os_err \<times> os_state" where
  "OSTimeDlyHMSM others hours minutes seconds ms s =
     (let (err, ds) = OSTimeDlyHMSM_delays hours minutes seconds ms s in (err, dly_seq others ds s))"

definition OSTimeDlyResume :: "u8 \<Rightarrow> os_state \<Rightarrow> os_err \<times> os_state" where
  "OSTimeDlyResume prio s =
     (if prio \<ge> OS_LOWEST_PRIO then (OS_ERR_PRIO_INVALID, s)
      else
        let ptcb = OSTCBPrioTbl s (unat prio)
        in if ptcb = NULL then (OS_ERR_TASK_NOT_EXIST, s)
           else if ptcb = OS_TCB_RESERVED then (OS_ERR_TASK_NOT_EXIST, s)
           else
             let i = tcb_of ptcb
             in if OSTCBDly (OSTCBTbl s i) = 0 then (OS_ERR_TIME_NOT_DLY, s)
                else
                  let s1 = upd_tcb i (\<lambda>t. t\<lparr>OSTCBDly := 0\<rparr>) s;
                      s2 = dly_over i s1
                  in if OSTCBStat (OSTCBTbl s2 i) AND OS_STAT_SUSPEND = OS_STAT_RDY
                     then (OS_ERR_NONE, OS_Sched (rdy_insert i (OSTCBY (OSTCBTbl s2 i)) s2))
                     else (OS_ERR_NONE, s2))"

definition OSTimeGet :: "os_state \<Rightarrow> u32" where
  "OSTimeGet s = OSTime s"

definition OSTimeSet :: "u32 \<Rightarrow> os_state \<Rightarrow> os_state" where
  "OSTimeSet ticks s = s\<lparr>OSTime := ticks\<rparr>"

section \<open>The tick on one task\<close>

text \<open>What a tick does to a delayed task whose delay ends.\<close>

definition expire :: "OS_TCB \<Rightarrow> OS_TCB" where
  "expire t = (if OSTCBStat t AND OS_STAT_PEND_ANY \<noteq> OS_STAT_RDY
     then t\<lparr>OSTCBDly := 0, OSTCBStat := OSTCBStat t AND NOT OS_STAT_PEND_ANY,
       OSTCBStatPend := OS_STAT_PEND_TO\<rparr>
     else t\<lparr>OSTCBDly := 0, OSTCBStatPend := OS_STAT_PEND_OK\<rparr>)"

definition tick_write :: "OS_TCB \<Rightarrow> OS_TCB" where
  "tick_write t =
     (if OSTCBDly t = 0 then t
      else if OSTCBDly t = 1 then expire t else t\<lparr>OSTCBDly := OSTCBDly t - 1\<rparr>)"

definition suspended :: "OS_TCB \<Rightarrow> bool" where
  "suspended t \<longleftrightarrow> OSTCBStat t AND OS_STAT_SUSPEND \<noteq> OS_STAT_RDY"

text \<open>\<^verbatim>\<open>~OS_STAT_PEND_ANY\<close> (as the simplifier shows it) keeps the suspend bit.\<close>

lemma mask_keeps_suspend [simp]: "((w :: u8) AND - 56) AND OS_STAT_SUSPEND = w AND OS_STAT_SUSPEND"
  unfolding and.assoc by (rule arg_cong [where f = "\<lambda>x. w AND x"]) code_simp

lemma expire_stat [simp]: "OSTCBStat (expire t) AND OS_STAT_SUSPEND = OSTCBStat t AND OS_STAT_SUSPEND"
  by (simp add: expire_def)

lemma suspended_expire [simp]: "suspended (expire t) = suspended t"
  by (simp add: suspended_def expire_def)

lemma keeps_prio_expire [simp]: "keeps_prio expire"
  by (simp add: keeps_prio_def expire_def)

lemma keeps_prio_tick_write [simp]: "keeps_prio tick_write"
  by (simp add: keeps_prio_def tick_write_def expire_def)

lemma waits_on_expire [simp]: "waits_on (expire t) e = waits_on t e"
  by (simp add: waits_on_def expire_def split: option.split)

lemma waits_on_tick_write [simp]: "waits_on (tick_write t) e = waits_on t e"
  by (simp add: waits_on_def expire_def tick_write_def split: option.split)

lemma tick_write_Next [simp]: "OSTCBNext (tick_write t) = OSTCBNext t"
  "OSTCBPrio (tick_write t) = OSTCBPrio t"
  by (simp_all add: tick_write_def expire_def)

lemma rdy_ok_expire: "rdy_ok (expire t) \<longleftrightarrow> \<not> suspended t"
  by (simp add: rdy_ok_def suspended_def expire_def)

lemma upd_tcb_twice: "upd_tcb i g (upd_tcb i f s) = upd_tcb i (\<lambda>t. g (f t)) s"
  by (simp add: upd_tcb_def)

lemma upd_tcb_cong: "f (OSTCBTbl s i) = g (OSTCBTbl s i) \<Longrightarrow> upd_tcb i f s = upd_tcb i g s"
  by (simp add: upd_tcb_def)

lemma dly_over_eq: "dly_over i (upd_tcb i (\<lambda>t. t\<lparr>OSTCBDly := 0\<rparr>) s) = upd_tcb i expire s"
  by (auto simp: dly_over_def upd_tcb_twice expire_def intro!: upd_tcb_cong)

text \<open>Waking a task whose delay ends, by the tick or by \<^verbatim>\<open>OSTimeDlyResume\<close>.\<close>

definition wake :: "nat \<Rightarrow> os_state \<Rightarrow> os_state" where
  "wake i s =
     (if suspended (OSTCBTbl s i) then upd_tcb i expire s
      else rdy_insert i (OSTCBY (OSTCBTbl s i)) (upd_tcb i expire s))"

lemma expire_Y [simp]: "OSTCBY (expire t) = OSTCBY t"
  by (simp add: expire_def)

lemma wake_correct:
  assumes wf: "os_wf s" and a: "at_prio s p i" and d: "OSTCBDly (OSTCBTbl s i) \<noteq> 0"
  shows "os_wf (wake i s)"
    and "rdy_set (wake i s) =
      (if suspended (OSTCBTbl s i) then rdy_set s else insert p (rdy_set s))"
proof -
  have off: "q \<notin> rdy_set s" if "at_prio s q i" for q
    using that wf d by (metis at_prio_unique os_wf_rdyE rdy_ok_def)
  have wf1: "os_wf (upd_tcb i expire s)"
    using wf off by (intro os_wf_upd_tcb) (auto elim: os_wf_waitE dest: at_prio_unique)
  have a1: "at_prio (upd_tcb i expire s) p i"
    using a by simp
  show "os_wf (wake i s)"
    using wf1 os_wf_rdy_insert [OF wf1 a1] by (simp add: wake_def rdy_ok_expire)
  show "rdy_set (wake i s) =
      (if suspended (OSTCBTbl s i) then rdy_set s else insert p (rdy_set s))"
    using rdy_set_insert [OF wf1 a1] by (simp add: wake_def)
qed


section \<open>The tick on the task list\<close>

lemma tick_tcb_eq:
  "tick_tcb i s =
     (if OSTCBDly (OSTCBTbl s i) = 1 then wake i s else upd_tcb i tick_write s)"
proof (cases "OSTCBDly (OSTCBTbl s i) = 1")
  case True
  have "upd_tcb i (\<lambda>t. t\<lparr>OSTCBDly := OSTCBDly t - 1\<rparr>) s = upd_tcb i (\<lambda>t. t\<lparr>OSTCBDly := 0\<rparr>) s"
    using True by (intro upd_tcb_cong) simp
  with True show ?thesis
    by (simp add: tick_tcb_def dly_over_eq wake_def Let_def suspended_def)
next
  case False
  then have "OSTCBDly (OSTCBTbl s i) - 1 \<noteq> 0"
    by (simp add: eq_iff_diff_eq_0 [symmetric])
  moreover have "upd_tcb i tick_write s = s" if "OSTCBDly (OSTCBTbl s i) = 0"
    using that by (simp add: upd_tcb_def tick_write_def)
  ultimately show ?thesis
    using False by (auto simp: tick_tcb_def tick_write_def Let_def intro!: upd_tcb_cong)
qed

lemma OSTCBTbl_tick_tcb [simp]:
  "OSTCBTbl (tick_tcb i s) = (OSTCBTbl s)(i := tick_write (OSTCBTbl s i))"
  by (simp add: tick_tcb_eq wake_def tick_write_def)

lemma at_prio_tick_tcb [simp]: "at_prio (tick_tcb i s) q j = at_prio s q j"
  by (simp add: tick_tcb_eq wake_def)

lemma wait_set_tick_tcb [simp]: "wait_set (tick_tcb i s) e = wait_set s e"
  by (simp add: tick_tcb_eq wake_def)

lemma os_frame_tick_tcb [simp]: "os_frame (tick_tcb i s) = os_frame s"
  by (simp add: tick_tcb_eq wake_def)

lemma event_tick_tcb [simp]: "OSEventTbl (tick_tcb i s) = OSEventTbl s"
  by (simp add: tick_tcb_eq wake_def)

definition wakes :: "OS_TCB \<Rightarrow> bool" where
  "wakes t \<longleftrightarrow> OSTCBDly t = 1 \<and> \<not> suspended t"

lemma tick_tcb_correct:
  assumes wf: "os_wf s" and a: "at_prio s p i"
  shows "os_wf (tick_tcb i s)"
    and "rdy_set (tick_tcb i s) =
      (if wakes (OSTCBTbl s i) then insert p (rdy_set s) else rdy_set s)"
proof -
  have off: "rdy_ok (OSTCBTbl s i)" if "at_prio s q i" "q \<in> rdy_set s" for q
    using that wf by (metis at_prio_unique os_wf_rdyE)
  have on: "waits_on (OSTCBTbl s i) e" if "at_prio s q i" "q \<in> wait_set s e" for e q
    using that wf by (metis at_prio_unique os_wf_waitE)
  have "os_wf (upd_tcb i tick_write s)" if "OSTCBDly (OSTCBTbl s i) \<noteq> 1"
  proof (rule os_wf_upd_tcb [OF wf keeps_prio_tick_write], goal_cases)
    case (1 q)
    then show ?case using off by (auto simp: tick_write_def rdy_ok_def)
  next
    case (2 e q)
    then show ?case using on by simp
  qed
  then show "os_wf (tick_tcb i s)"
    using wake_correct(1) [OF wf a] by (simp add: tick_tcb_eq)
  show "rdy_set (tick_tcb i s) =
      (if wakes (OSTCBTbl s i) then insert p (rdy_set s) else rdy_set s)"
    using wake_correct(2) [OF wf a] by (simp add: tick_tcb_eq wakes_def)
qed

text \<open>\<open>chain tbl ptcb js\<close>: from \<open>ptcb\<close>, \<^verbatim>\<open>OSTCBNext\<close> leads through the TCBs \<open>js\<close> to the idle task.\<close>

fun chain :: "(nat \<Rightarrow> OS_TCB) \<Rightarrow> ptr \<Rightarrow> nat list \<Rightarrow> bool" where
  "chain tbl ptcb [] \<longleftrightarrow> (\<exists>i. ptcb = PTcb i \<and> OSTCBPrio (tbl i) = OS_TASK_IDLE_PRIO)"
| "chain tbl ptcb (j # js) \<longleftrightarrow> ptcb = PTcb j \<and> OSTCBPrio (tbl j) \<noteq> OS_TASK_IDLE_PRIO \<and>
     chain tbl (OSTCBNext (tbl j)) js"

text \<open>The task list holds \<open>js\<close> before the idle task, each of them listed at its priority.\<close>

definition task_list :: "os_state \<Rightarrow> nat list \<Rightarrow> bool" where
  "task_list s js \<longleftrightarrow> chain (OSTCBTbl s) (OSTCBList s) js \<and> distinct js \<and>
     set js \<subseteq> {..<OS_MAX_TASKS + OS_N_SYS_TASKS} \<and> (\<forall>j \<in> set js. \<exists>p. at_prio s p j)"

lemma chain_cong:
  assumes "\<And>i. OSTCBPrio (tbl' i) = OSTCBPrio (tbl i)" "\<And>i. OSTCBNext (tbl' i) = OSTCBNext (tbl i)"
  shows "chain tbl' p js = chain tbl p js"
  by (induction js arbitrary: p) (simp_all add: assms)

lemma task_list_core:
  assumes "task_list s js" "OSTCBList s' = OSTCBList s" "\<And>p i. at_prio s' p i = at_prio s p i"
    and "\<And>i. OSTCBPrio (OSTCBTbl s' i) = OSTCBPrio (OSTCBTbl s i) \<and>
      OSTCBNext (OSTCBTbl s' i) = OSTCBNext (OSTCBTbl s i)"
  shows "task_list s' js"
  using assms chain_cong [of "OSTCBTbl s'" "OSTCBTbl s"] by (simp add: task_list_def)

lemma task_list_length: "task_list s js \<Longrightarrow> length js \<le> 12"
  using card_mono [of "{..<12 :: nat}" "set js"] distinct_card [of js]
  by (simp add: task_list_def)

fun tick_all :: "nat list \<Rightarrow> os_state \<Rightarrow> os_state" where
  "tick_all [] s = s"
| "tick_all (j # js) s = tick_all js (tick_tcb j s)"

lemma tick_loop_chain:
  "chain (OSTCBTbl s) p js \<Longrightarrow> length js < n \<Longrightarrow> tick_loop n p s = Some (tick_all js s)"
proof (induction js arbitrary: n p s)
  case Nil
  then show ?case by (cases n) auto
next
  case (Cons j js)
  from Cons.prems have c: "chain (OSTCBTbl (tick_tcb j s)) (OSTCBNext (OSTCBTbl s j)) js"
    by (subst chain_cong [of _ "OSTCBTbl s"]) auto
  with Cons.prems Cons.IH [OF c] show ?case
    by (cases n) (auto simp: Let_def simp del: OSTCBTbl_tick_tcb
        simp: fun_cong [OF OSTCBTbl_tick_tcb])
qed

lemma tick_all_frame [simp]:
  "os_frame (tick_all js s) = os_frame s" "wait_set (tick_all js s) e = wait_set s e"
  "at_prio (tick_all js s) q j = at_prio s q j" "OSEventTbl (tick_all js s) = OSEventTbl s"
  by (induction js arbitrary: s) simp_all

lemma tick_all_tbl:
  "distinct js \<Longrightarrow> OSTCBTbl (tick_all js s) j =
     (if j \<in> set js then tick_write (OSTCBTbl s j) else OSTCBTbl s j)"
  by (induction js arbitrary: s) auto

lemma tick_all_sets:
  assumes "os_wf s" "distinct js" "\<forall>j \<in> set js. \<exists>p. at_prio s p j"
  shows "os_wf (tick_all js s) \<and>
    rdy_set (tick_all js s) = rdy_set s \<union> {p. \<exists>j \<in> set js. at_prio s p j \<and> wakes (OSTCBTbl s j)}"
  using assms
proof (induction js arbitrary: s)
  case (Cons j js)
  then obtain p where p: "at_prio s p j" by auto
  note step = tick_tcb_correct [OF Cons.prems(1) p]
  have "\<forall>j \<in> set js. \<exists>p. at_prio (tick_tcb j s) p j"
    using Cons.prems(3) by simp
  with Cons.IH [OF step(1)] Cons.prems(2,3)
  have IH: "os_wf (tick_all js (tick_tcb j s))"
    "rdy_set (tick_all js (tick_tcb j s)) = rdy_set (tick_tcb j s) \<union>
       {p. \<exists>k \<in> set js. at_prio s p k \<and> wakes (OSTCBTbl (tick_tcb j s) k)}"
    by auto
  have "wakes (OSTCBTbl (tick_tcb j s) k) = wakes (OSTCBTbl s k)" if "k \<in> set js" for k
    using that Cons.prems(2) by auto
  moreover have "at_prio s q j \<longleftrightarrow> q = p" for q
    using p at_prio_same_tcb by blast
  ultimately show ?case
    using IH by (auto simp: step(2))
qed simp


lemma os_frameD:
  assumes "os_frame s' = os_frame s"
  shows "OSTCBCur s' = OSTCBCur s" "OSPrioCur s' = OSPrioCur s" "OSIntNesting s' = OSIntNesting s"
    "OSLockNesting s' = OSLockNesting s" "OSRunning s' = OSRunning s"
    "OSTCBPrioTbl s' = OSTCBPrioTbl s" "OSTCBList s' = OSTCBList s"
  using assms by (simp_all add: os_frame_def)

lemma tick_all_fields [simp]:
  "OSTickStepState (tick_all js s) = OSTickStepState s" "OSTime (tick_all js s) = OSTime s"
  by (induction js arbitrary: s)
    (simp_all add: tick_tcb_eq wake_def rdy_insert_def Let_def)

lemma task_list_tick_all:
  assumes "task_list s js"
  shows "task_list (tick_all js s) js"
proof -
  have d: "distinct js" using assms by (simp add: task_list_def)
  have "chain (OSTCBTbl (tick_all js s)) (OSTCBList s) js = chain (OSTCBTbl s) (OSTCBList s) js"
    by (rule chain_cong) (simp_all add: tick_all_tbl [OF d])
  moreover have "OSTCBList (tick_all js s) = OSTCBList s"
    by (rule os_frameD) simp
  ultimately show ?thesis
    using assms by (simp add: task_list_def)
qed

lemma time_update_simps [simp]:
  "os_wf (s\<lparr>OSTime := n\<rparr>) = os_wf s" "task_list (s\<lparr>OSTime := n\<rparr>) js = task_list s js"
  "rdy_set (s\<lparr>OSTime := n\<rparr>) = rdy_set s" "wait_set (s\<lparr>OSTime := n\<rparr>) e = wait_set s e"
  "at_prio (s\<lparr>OSTime := n\<rparr>) p i = at_prio s p i" "os_frame (s\<lparr>OSTime := n\<rparr>) = os_frame s"
  by (simp_all add: os_wf_def task_list_def rdy_set_def wait_set_def at_prio_def os_frame_def)

lemma OSTimeTick_tick_all:
  assumes "task_list s js" "OSRunning s" "OSTickStepState s = OS_TICK_STEP_DIS"
  shows "OSTimeTick s = Some (tick_all js (s\<lparr>OSTime := OSTime s + 1\<rparr>))"
  using assms task_list_length [OF assms(1)]
  by (simp add: OSTimeTick_def Let_def task_list_def tick_loop_chain)

text \<open>\<open>k\<close> ticks in a row, nothing else running.\<close>

fun run_ticks :: "nat \<Rightarrow> os_state \<Rightarrow> os_state option" where
  "run_ticks 0 s = Some s"
| "run_ticks (Suc k) s = (case run_ticks k s of None \<Rightarrow> None | Some s' \<Rightarrow> OSTimeTick s')"

text \<open>The delay of a task that is not suspended and waits for nothing, \<open>k\<close> run_ticks later.\<close>

definition delayed :: "u16 \<Rightarrow> nat \<Rightarrow> OS_TCB \<Rightarrow> bool" where
  "delayed n k t \<longleftrightarrow> unat (OSTCBDly t) = unat n - k \<and> \<not> suspended t"

lemma delayed_tick:
  assumes "delayed n k t"
  shows "delayed n (Suc k) (tick_write t)"
proof -
  have d: "unat (OSTCBDly t) = unat n - k" "\<not> suspended t"
    using assms by (auto simp: delayed_def)
  have "unat (OSTCBDly (tick_write t)) = unat (OSTCBDly t) - 1"
    by (auto simp: tick_write_def expire_def unat_minus_one)
  moreover have "\<not> suspended (tick_write t)"
    using d by (auto simp: tick_write_def) (simp add: suspended_def)
  ultimately show ?thesis
    using d by (simp add: delayed_def)
qed

lemma delayed_wakes: "delayed n k t \<Longrightarrow> wakes t \<longleftrightarrow> unat n = Suc k"
proof -
  assume d: "delayed n k t"
  have "OSTCBDly t = 1 \<longleftrightarrow> unat (OSTCBDly t) = 1"
    by (metis unat_1 word_unat_eq_iff)
  with d show ?thesis by (auto simp: wakes_def delayed_def)
qed

text \<open>
  The wait of a task through \<open>k\<close> ticks.  \<open>P\<close> is whatever else a tick keeps about the delayed TCB.
\<close>

lemma ticks_delayed:
  fixes P :: "nat \<Rightarrow> OS_TCB \<Rightarrow> bool"
  assumes "os_wf s" "task_list s js" "OSRunning s" "OSTickStepState s = OS_TICK_STEP_DIS"
    and "i \<in> set js" "at_prio s p i" "p \<notin> rdy_set s" "delayed n 0 (OSTCBTbl s i)" "0 < unat n"
    and "P 0 (OSTCBTbl s i)" and P: "\<And>k t. delayed n k t \<Longrightarrow> P k t \<Longrightarrow> P (Suc k) (tick_write t)"
  shows "\<exists>s'. run_ticks k s = Some s' \<and> os_wf s' \<and> task_list s' js \<and> OSRunning s' \<and>
    OSTickStepState s' = OS_TICK_STEP_DIS \<and> (\<forall>q j. at_prio s' q j = at_prio s q j) \<and>
    delayed n k (OSTCBTbl s' i) \<and> (p \<in> rdy_set s' \<longleftrightarrow> unat n \<le> k) \<and> P k (OSTCBTbl s' i) \<and>
    os_frame s' = os_frame s \<and> OSEventTbl s' = OSEventTbl s"
proof (induction k)
  case 0
  then show ?case using assms by simp
next
  case (Suc k)
  then obtain s' where s': "run_ticks k s = Some s'" "os_wf s'" "task_list s' js" "OSRunning s'"
    "OSTickStepState s' = OS_TICK_STEP_DIS" "\<forall>q j. at_prio s' q j = at_prio s q j"
    "delayed n k (OSTCBTbl s' i)" "p \<in> rdy_set s' \<longleftrightarrow> unat n \<le> k" "P k (OSTCBTbl s' i)"
    "os_frame s' = os_frame s" "OSEventTbl s' = OSEventTbl s"
    by blast
  define u where "u = s'\<lparr>OSTime := OSTime s' + 1\<rparr>"
  have u: "os_wf u" "task_list u js" "OSTCBTbl u = OSTCBTbl s'" "at_prio u q j = at_prio s q j"
    "rdy_set u = rdy_set s'" "OSRunning u" "OSTickStepState u = OS_TICK_STEP_DIS"
    "os_frame u = os_frame s" "OSEventTbl u = OSEventTbl s" for q j
    using s' by (simp_all add: u_def)
  have a: "at_prio s' p i" using s'(6) assms(6) by simp
  have dist: "distinct js" "\<forall>j \<in> set js. \<exists>p. at_prio u p j"
    using u(2) by (auto simp: task_list_def)
  have step: "run_ticks (Suc k) s = Some (tick_all js u)"
    using s' by (simp add: OSTimeTick_tick_all u_def)
  have sets: "os_wf (tick_all js u)" "rdy_set (tick_all js u) =
      rdy_set s' \<union> {p. \<exists>j \<in> set js. at_prio s' p j \<and> wakes (OSTCBTbl s' j)}"
    using tick_all_sets [OF u(1) dist] u s'(6) by auto
  have tcb: "OSTCBTbl (tick_all js u) i = tick_write (OSTCBTbl s' i)"
    using assms(5) u(3) by (simp add: tick_all_tbl [OF dist(1)])
  have "OSRunning (tick_all js u)"
    using u(6) os_frameD(5) [OF tick_all_frame(1)] by simp
  moreover have "delayed n (Suc k) (OSTCBTbl (tick_all js u) i)" "P (Suc k) (OSTCBTbl (tick_all js u) i)"
    using s'(7,9) by (simp_all add: tcb delayed_tick P)
  moreover have "p \<in> rdy_set (tick_all js u) \<longleftrightarrow> unat n \<le> Suc k"
  proof -
    have "(\<exists>j \<in> set js. at_prio s' p j \<and> wakes (OSTCBTbl s' j)) \<longleftrightarrow> wakes (OSTCBTbl s' i)"
      using a assms(5) at_prio_unique [OF a] by blast
    then have "p \<in> rdy_set (tick_all js u) \<longleftrightarrow> p \<in> rdy_set s' \<or> unat n = Suc k"
      unfolding sets(2) using delayed_wakes [OF s'(7)] by simp
    then show ?thesis
      using s'(8) by linarith
  qed
  moreover have "OSTickStepState (tick_all js u) = OS_TICK_STEP_DIS"
    "\<forall>q j. at_prio (tick_all js u) q j = at_prio s q j" "os_frame (tick_all js u) = os_frame s"
    "OSEventTbl (tick_all js u) = OSEventTbl s"
    using u(4,7,8,9) by simp_all
  ultimately show ?case
    using step sets(1) task_list_tick_all [OF u(2)] by blast
qed

section \<open>Giving up the processor for a delay\<close>

lemma running_rdy_ok: "os_wf s \<Longrightarrow> running s p i \<Longrightarrow> rdy_ok (OSTCBTbl s i)"
  unfolding running_def by (metis at_prio_unique os_wf_rdyE)

lemma OSTimeDly_correct:
  assumes wf: "os_wf s" and run: "running s p i" and cs: "can_sched s" and n: "ticks > 0"
  shows "os_wf (OSTimeDly ticks s)" and "rdy_set (OSTimeDly ticks s) = rdy_set s - {p}"
    and "wait_set (OSTimeDly ticks s) e = wait_set s e"
    and "at_prio (OSTimeDly ticks s) q j = at_prio s q j"
    and "tcb_core (OSTCBTbl (OSTimeDly ticks s) j) =
      tcb_core (if j = i then (OSTCBTbl s i)\<lparr>OSTCBDly := ticks\<rparr> else OSTCBTbl s j)"
    and "\<exists>s1. OSTimeDly ticks s = OS_Sched s1 \<and> os_wf s1 \<and> cur_ok s1 \<and> can_sched s1 \<and>
      rdy_set s1 = rdy_set s - {p} \<and> OSTCBPrioTbl s1 = OSTCBPrioTbl s"
proof -
  have cur: "OSTCBCur s = PTcb i" and a: "at_prio s p i" and off: "\<And>e. p \<notin> wait_set s e"
    using run by (auto simp: running_def)
  define s1 where "s1 = upd_tcb i (\<lambda>t. t\<lparr>OSTCBDly := ticks\<rparr>) (rdy_remove i s)"
  have eq: "OSTimeDly ticks s = OS_Sched s1"
    using cs n by (simp add: OSTimeDly_def can_sched_def s1_def cur Let_def)
  have wf0: "os_wf (rdy_remove i s)" and r0: "rdy_set (rdy_remove i s) = rdy_set s - {p}"
    using os_wf_rdy_remove [OF wf a] rdy_set_remove [OF wf a] by auto
  have k: "keeps_prio (\<lambda>t. t\<lparr>OSTCBDly := ticks\<rparr>)"
    by (simp add: keeps_prio_def)
  have wf1: "os_wf s1"
    unfolding s1_def
  proof (rule os_wf_upd_tcb [OF wf0 k], goal_cases)
    case (1 q)
    then have "q = p" using a by (simp add: at_prio_same_tcb)
    with 1 show ?case using r0 by simp
  next
    case (2 e q)
    then have "q = p" using a by (simp add: at_prio_same_tcb)
    with 2 show ?case using off by simp
  qed
  then show "os_wf (OSTimeDly ticks s)" by (simp add: eq)
  show "rdy_set (OSTimeDly ticks s) = rdy_set s - {p}"
    "wait_set (OSTimeDly ticks s) e = wait_set s e"
    "at_prio (OSTimeDly ticks s) q j = at_prio s q j"
    "tcb_core (OSTCBTbl (OSTimeDly ticks s) j) =
      tcb_core (if j = i then (OSTCBTbl s i)\<lparr>OSTCBDly := ticks\<rparr> else OSTCBTbl s j)"
    using r0 k by (simp_all add: eq s1_def)
  have "cur_ok s1" "can_sched s1"
    using running_cur_ok [OF run] cs by (simp_all add: s1_def cur_ok_def can_sched_def)
  with eq wf1 show "\<exists>s1. OSTimeDly ticks s = OS_Sched s1 \<and> os_wf s1 \<and> cur_ok s1 \<and> can_sched s1 \<and>
      rdy_set s1 = rdy_set s - {p} \<and> OSTCBPrioTbl s1 = OSTCBPrioTbl s"
    using r0 by (intro exI [of _ s1]) (simp add: s1_def)
qed

section \<open>The sequence of delays of OSTimeDlyHMSM\<close>

lemma ticks_per_ms: "(1000 * ucast (ms :: u16) div 1000 :: u32) = ucast ms"
proof (rule unsigned_word_eqI)
  have "unat (1000 * ucast ms :: u32) = 1000 * unat ms"
    using unat_lt_65536 [of ms] by (simp add: unat_word_ariths mod_less del: unat_lt_65536)
  then show "unat (1000 * ucast ms div 1000 :: u32) = unat (ucast ms :: u32)"
    by (simp add: unat_div)
qed

lemma unat_hmsm_ticks:
  assumes "unat m \<le> 59" "unat sec \<le> 59" "unat ms \<le> 999"
  shows "unat (hmsm_ticks h m sec ms) =
    ((unat h * 60 + unat m) * 60 + unat sec) * 1000 + unat ms"
  using assms unat_u8_le_255 [of h]
  by (simp add: hmsm_ticks_def ticks_per_ms unat_word_ariths)

lemma sum_dly_loop: "sum_list (map unat (dly_loop n)) = n * 65536"
  by (induction n) simp_all

section \<open>Properties\<close>

text \<open>
  A task that calls \<^verbatim>\<open>OSTimeDly(n)\<close> leaves the ready list and is ready again after exactly
  \<^verbatim>\<open>n\<close> clock ticks, not earlier, when nothing else runs; every tick ends and keeps the kernel
  invariant.
\<close>

theorem OSTimeDly_wakes:
  assumes "os_wf s" "running s p i" "can_sched s" "task_list s js" "i \<in> set js"
    and "OSRunning s" "OSTickStepState s = OS_TICK_STEP_DIS" "n > 0"
  shows "\<exists>s'. run_ticks k (OSTimeDly n s) = Some s' \<and> os_wf s' \<and>
    (p \<in> rdy_set s' \<longleftrightarrow> unat n \<le> k)"
proof -
  note dly = OSTimeDly_correct [OF assms(1-3,8)]
  have same: "OSTCBPrio (OSTCBTbl (OSTimeDly n s) j) = OSTCBPrio (OSTCBTbl s j) \<and>
      OSTCBNext (OSTCBTbl (OSTimeDly n s) j) = OSTCBNext (OSTCBTbl s j)" for j
    using tcb_core_fields(1,8) [OF dly(5) [of j]] by simp
  have tl: "task_list (OSTimeDly n s) js"
    by (rule task_list_core [OF assms(4) _ dly(4) same]) (simp add: OSTimeDly_def Let_def)
  have core: "tcb_core (OSTCBTbl (OSTimeDly n s) i) = tcb_core ((OSTCBTbl s i)\<lparr>OSTCBDly := n\<rparr>)"
    using dly(5) [of i] by simp
  have "delayed n 0 (OSTCBTbl (OSTimeDly n s) i)"
    using running_rdy_ok [OF assms(1,2)] tcb_core_fields(2,4) [OF core]
    by (simp add: delayed_def suspended_def rdy_ok_def)
  moreover have "at_prio (OSTimeDly n s) p i"
    using assms(2) dly(4) by (simp add: running_def)
  moreover have "OSRunning (OSTimeDly n s)"
    "OSTickStepState (OSTimeDly n s) = OS_TICK_STEP_DIS"
    using assms(6,7)
    by (simp_all add: OSTimeDly_def Let_def OS_Sched_def sched_switch_def OSCtxSw_def
        OS_SchedNew_eq rdy_remove_def)
  moreover have "p \<notin> rdy_set (OSTimeDly n s)" "0 < unat n"
    using assms(8) by (simp_all add: dly(2) word_gt_0_no unat_gt_0)
  ultimately show ?thesis
    using ticks_delayed [OF dly(1) tl _ _ assms(5), of p n "\<lambda>_ _. True" k] by blast
qed

lemma task_list_demo: "task_list demo [3, 1, 0]"
proof -
  have "chain (OSTCBTbl demo) (OSTCBList demo) [3, 1, 0]"
    by (simp add: demo_def demo_tcb_def tcb_zero_def)
  moreover have "\<forall>j \<in> set [3, 1, 0]. \<exists>p. at_prio demo p j"
    using at_prio_demo by auto
  ultimately show ?thesis
    by (simp add: task_list_def)
qed

lemma demo_running: "OSRunning demo" "OSTickStepState demo = OS_TICK_STEP_DIS"
  by (simp_all add: demo_def)

theorem OSTimeDly_wakes_witness:
  "\<exists>s'. run_ticks 3 (OSTimeDly 3 demo) = Some s' \<and> os_wf s' \<and> (5 \<in> rdy_set s' \<longleftrightarrow> unat (3 :: u16) \<le> 3)"
  by (rule OSTimeDly_wakes [OF os_wf_demo running_demo can_sched_demo task_list_demo _ demo_running])
    simp_all

text \<open>
  C5: A tick of the running kernel always ends, advances \<^verbatim>\<open>OSTime\<close>, counts down the delay of every
  task on the task list, and makes ready exactly the tasks whose delay it ends and that are not
  suspended; a task that was waiting for an event gets the time-out status and stays on its wait
  list until it runs.
\<close>

theorem OSTimeTick_correct:
  assumes "os_wf s" "task_list s js" "OSRunning s" "OSTickStepState s = OS_TICK_STEP_DIS"
  shows "\<exists>s'. OSTimeTick s = Some s' \<and> os_wf s' \<and> task_list s' js \<and> OSTime s' = OSTime s + 1 \<and>
    rdy_set s' = rdy_set s \<union> {p. \<exists>j \<in> set js. at_prio s p j \<and> OSTCBDly (OSTCBTbl s j) = 1 \<and>
      OSTCBStat (OSTCBTbl s j) AND OS_STAT_SUSPEND = 0} \<and>
    (\<forall>e. wait_set s' e = wait_set s e) \<and>
    (\<forall>j \<in> set js. OSTCBDly (OSTCBTbl s' j) = (if OSTCBDly (OSTCBTbl s j) = 0 then 0
       else OSTCBDly (OSTCBTbl s j) - 1) \<and>
       OSTCBStatPend (OSTCBTbl s' j) =
         (if OSTCBDly (OSTCBTbl s j) \<noteq> 1 then OSTCBStatPend (OSTCBTbl s j)
          else if OSTCBStat (OSTCBTbl s j) AND OS_STAT_PEND_ANY = 0 then OS_STAT_PEND_OK
          else OS_STAT_PEND_TO))"
proof -
  let ?u = "s\<lparr>OSTime := OSTime s + 1\<rparr>"
  have tl: "task_list ?u js" and wf: "os_wf ?u"
    using assms(1,2) by simp_all
  then have d: "distinct js" "\<forall>j \<in> set js. \<exists>p. at_prio ?u p j"
    by (auto simp: task_list_def)
  have eq: "OSTimeTick s = Some (tick_all js ?u)"
    by (rule OSTimeTick_tick_all [OF assms(2-4)])
  have sets: "os_wf (tick_all js ?u)" "rdy_set (tick_all js ?u) =
      rdy_set s \<union> {p. \<exists>j \<in> set js. at_prio s p j \<and> wakes (OSTCBTbl s j)}"
    using tick_all_sets [OF wf d] by simp_all
  have tcb: "OSTCBTbl (tick_all js ?u) j = tick_write (OSTCBTbl s j)" if "j \<in> set js" for j
    using that by (simp add: tick_all_tbl [OF d(1)])
  show ?thesis
    using sets task_list_tick_all [OF tl]
    by (intro exI [of _ "tick_all js ?u"])
      (auto simp: eq wakes_def suspended_def tcb tick_write_def expire_def)
qed

theorem OSTimeTick_correct_witness:
  "\<exists>s'. OSTimeTick demo = Some s' \<and> OSTime s' = OSTime demo + 1 \<and> 5 \<in> rdy_set s' \<and>
     OSTCBDly (OSTCBTbl s' 1) = 9"
proof -
  have d: "OSTCBDly (OSTCBTbl demo 1) = 10" "5 \<in> rdy_set demo" "1 \<in> set [3, 1, 0 :: nat]"
    by (simp_all add: rdy_set_demo) (simp add: demo_def)
  with OSTimeTick_correct [OF os_wf_demo task_list_demo demo_running] show ?thesis
    by fastforce
qed

text \<open>
  \<^verbatim>\<open>OSTimeDlyHMSM\<close> with valid arguments delays its caller by exactly the requested time in total:
  the arguments of its calls of \<^verbatim>\<open>OSTimeDly\<close> add up to hours, minutes, seconds and milliseconds in
  ticks of 1 ms, without overflow; with an invalid argument, or from an interrupt, it makes no call
  and returns an error.
\<close>

theorem OSTimeDlyHMSM_total:
  "case OSTimeDlyHMSM_delays h m sec ms s of (err, ds) \<Rightarrow>
     if OSIntNesting s = 0 \<and> \<not> (h = 0 \<and> m = 0 \<and> sec = 0 \<and> ms = 0) \<and> unat m \<le> 59 \<and> unat sec \<le> 59 \<and>
        unat ms \<le> 999
     then err = OS_ERR_NONE \<and>
       sum_list (map unat ds) = ((unat h * 60 + unat m) * 60 + unat sec) * 1000 + unat ms
     else err \<noteq> OS_ERR_NONE \<and> ds = []"
proof -
  have le: "m > 59 \<longleftrightarrow> \<not> unat m \<le> 59" "sec > 59 \<longleftrightarrow> \<not> unat sec \<le> 59" "ms > 999 \<longleftrightarrow> \<not> unat ms \<le> 999"
    by (auto simp: word_less_nat_alt)
  have i: "OSIntNesting s > 0 \<longleftrightarrow> OSIntNesting s \<noteq> 0"
    by (simp add: word_gt_0)
  have sum: "unat (ucast (t AND 0xFFFF) :: u16) +
      sum_list (map unat (dly_loop (unat (ucast (drop_bit 16 t) :: u16)))) = unat t" for t :: u32
    unfolding sum_dly_loop unat_drop16 unat_low16 by simp
  show ?thesis
    unfolding OSTimeDlyHMSM_delays_def le i
    by (simp add: Let_def sum unat_hmsm_ticks del: unat_ucast_8_32)
qed

end
