(* ===== verification/Os_Event.thy ===== *)
theory Os_Event
  imports Os_Time
begin

text \<open>
  What semaphores, mailboxes, queues and mutexes share: taking an event control block from the free
  list and giving it back, waking waiters on a post, an abort or a deletion, and finishing a wait.
  The interface \<open>wait_object\<close> states the contract of a post; each kind of object interprets it.
\<close>

section \<open>Shared fragments\<close>

text \<open>\<^verbatim>\<open>pevent->OSEventName[0] = '?'; pevent->OSEventName[1] = OS_ASCII_NUL;\<close>\<close>

definition name_unknown :: "u8 list \<Rightarrow> u8 list" where
  "name_unknown nm = nm[0 := 0x3F, 1 := 0]"

text \<open>\<^verbatim>\<open>pevent = OSEventFreeList; if (OSEventFreeList != 0) OSEventFreeList = OSEventFreeList->OSEventPtr;\<close>\<close>

definition event_get :: "os_state \<Rightarrow> ptr \<times> os_state" where
  "event_get s =
     (let pevent = OSEventFreeList s
      in if OSEventFreeList s \<noteq> NULL
         then (pevent, s\<lparr>OSEventFreeList := OSEventPtr (OSEventTbl s (event_of (OSEventFreeList s)))\<rparr>)
         else (pevent, s))"

text \<open>The end of every deletion: the control block goes back to the free list.\<close>

definition event_put :: "nat \<Rightarrow> os_state \<Rightarrow> os_state" where
  "event_put e s =
     (upd_event e (\<lambda>ev. ev\<lparr>OSEventName := name_unknown (OSEventName ev),
        OSEventType := OS_EVENT_TYPE_UNUSED, OSEventPtr := OSEventFreeList s, OSEventCnt := 0\<rparr>) s)
     \<lparr>OSEventFreeList := PEvent e\<rparr>"

text \<open>
  The body of the four \<^verbatim>\<open>PendAbort\<close> calls: \<^verbatim>\<open>opt\<close> chooses all waiters or the highest; the result is
  the error, the number of tasks readied and the state.
\<close>

definition pend_abort :: "nat \<Rightarrow> u8 \<Rightarrow> u8 \<Rightarrow> os_state \<Rightarrow> (os_err \<times> u8 \<times> os_state) option" where
  "pend_abort e opt msk s =
     (if Grp (wait_of s e) \<noteq> 0 then
        if opt = OS_PEND_OPT_BROADCAST then
          (case rdy_all 24 e NULL msk OS_STAT_PEND_ABORT s of
             None \<Rightarrow> None
           | Some (k, s1) \<Rightarrow> Some (OS_ERR_PEND_ABORT, of_nat k, OS_Sched s1))
        else Some (OS_ERR_PEND_ABORT, 1,
          OS_Sched (snd (OS_EventTaskRdy e NULL msk OS_STAT_PEND_ABORT s)))
      else Some (OS_ERR_NONE, 0, s))"

text \<open>
  Waking in \<^verbatim>\<open>OSMboxPostOpt\<close> and \<^verbatim>\<open>OSQPostOpt\<close>: every waiter gets the message of a broadcast,
  otherwise the highest-priority one.
\<close>

definition post_wake :: "nat \<Rightarrow> ptr \<Rightarrow> u8 \<Rightarrow> u8 \<Rightarrow> os_state \<Rightarrow> os_state option" where
  "post_wake e pmsg msk opt s =
     (if opt AND OS_POST_OPT_BROADCAST \<noteq> 0
      then map_option snd (rdy_all 24 e pmsg msk OS_STAT_PEND_OK s)
      else Some (snd (OS_EventTaskRdy e pmsg msk OS_STAT_PEND_OK s)))"

text \<open>
  The \<^verbatim>\<open>switch (OSTCBCur->OSTCBStatPend)\<close> of \<^verbatim>\<open>OSSemPend\<close> and \<^verbatim>\<open>OSMutexPend\<close>, with the clean-up.
\<close>

definition pend_finish :: "nat \<Rightarrow> os_state \<Rightarrow> os_err \<times> os_state" where
  "pend_finish e s =
     (let (err, s1) =
        (case OSTCBStatPend (cur_tcb s) of
           OS_STAT_PEND_OK \<Rightarrow> (OS_ERR_NONE, s)
         | OS_STAT_PEND_ABORT \<Rightarrow> (OS_ERR_PEND_ABORT, s)
         | OS_STAT_PEND_TO \<Rightarrow> (OS_ERR_TIMEOUT, OS_EventTaskRemove (tcb_of (OSTCBCur s)) e s))
      in (err, pend_clear s1))"

text \<open>The same for a mailbox or a queue, whose caller also gets \<^verbatim>\<open>OSTCBCur->OSTCBMsg\<close>.\<close>

definition pend_finish_msg :: "nat \<Rightarrow> os_state \<Rightarrow> ptr \<times> os_err \<times> os_state" where
  "pend_finish_msg e s =
     (let (pmsg, err, s1) =
        (case OSTCBStatPend (cur_tcb s) of
           OS_STAT_PEND_OK \<Rightarrow> (OSTCBMsg (cur_tcb s), OS_ERR_NONE, s)
         | OS_STAT_PEND_ABORT \<Rightarrow> (NULL, OS_ERR_PEND_ABORT, s)
         | OS_STAT_PEND_TO \<Rightarrow> (NULL, OS_ERR_TIMEOUT, OS_EventTaskRemove (tcb_of (OSTCBCur s)) e s))
      in (pmsg, err, upd_cur (\<lambda>t. t\<lparr>OSTCBMsg := NULL\<rparr>) (pend_clear s1)))"

section \<open>Waking the highest-priority waiter\<close>

lemma wait_empty_iff: "os_wf s \<Longrightarrow> Grp (wait_of s e) = 0 \<longleftrightarrow> wait_set s e = {}"
  using bm.some_iff [OF os_wf_bm(2)] by (auto simp: wait_set_def bm_some_def)

lemma finite_wait_set: "os_wf s \<Longrightarrow> finite (wait_set s e)"
  using bm.finite_els [OF os_wf_bm(2)] by (simp add: wait_set_def)

lemma highest_waiter:
  "os_wf s \<Longrightarrow> wait_set s e \<noteq> {} \<Longrightarrow> unat (bm_highest (wait_of s e)) = Min (wait_set s e)"
  using bm.hi_eq_Min [OF os_wf_bm(2)] wait_empty_iff by (simp add: wait_set_def bm_some_def)

lemma event_data_eq:
  assumes "event_data ev = event_data ev'"
  shows "OSEventType ev = OSEventType ev'" "OSEventPtr ev = OSEventPtr ev'"
    "OSEventCnt ev = OSEventCnt ev'" "OSEventName ev = OSEventName ev'"
  using assms by (simp_all add: event_data_def)

lemma os_wf_upd_event_data:
  assumes "\<And>ev. OSEventWait (f ev) = OSEventWait ev"
  shows "os_wf (upd_event e f s) = os_wf s" "wait_set (upd_event e f s) e' = wait_set s e'"
proof -
  show w: "wait_set (upd_event e f s) e' = wait_set s e'" for e'
    using assms by (simp add: wait_set_def)
  show "os_wf (upd_event e f s) = os_wf s"
  proof -
    have "wait_of (upd_event e f s) e' = wait_of s e'" for e'
      using assms by simp
    then show ?thesis
      unfolding os_wf_def w by simp
  qed
qed

lemma EventTaskRdy_sets:
  fixes e :: nat and pmsg :: ptr and msk :: u8 and pend :: pend_stat
  assumes wf: "os_wf s" and w: "wait_set s e \<noteq> {}"
  defines "p \<equiv> Min (wait_set s e)"
  defines "s' \<equiv> snd (OS_EventTaskRdy e pmsg msk pend s)"
  shows "os_wf s'" and "wait_set s' e' = wait_set s e' - {p}"
    and "rdy_set s' = rdy_set s \<union> released s {p} msk"
    and "event_data (OSEventTbl s' e') = event_data (OSEventTbl s e')"
    and "at_prio s' q j = at_prio s q j" and "os_frame s' = os_frame s"
    and "OSTCBMsg (task_at s' p) = pmsg" and "OSTCBStatPend (task_at s' p) = pend"
    and "OSTCBDly (task_at s' p) = 0"
    and "OSTCBStat (task_at s' p) = OSTCBStat (task_at s p) AND NOT msk"
    and "q \<noteq> p \<Longrightarrow> at_prio s q j \<Longrightarrow> task_at s' q = task_at s q"
proof -
  have ne: "Grp (wait_of s e) \<noteq> 0"
    using wait_empty_iff [OF wf] w by simp
  have hp: "unat (bm_highest (wait_of s e)) = p"
    using highest_waiter [OF wf w] by (simp add: p_def)
  have "p \<in> wait_set s e"
    using Min_in [OF finite_wait_set [OF wf] w] by (simp add: p_def)
  with wf obtain i where a: "at_prio s p i" by (rule os_wf_waitE)
  note c = EventTaskRdy_correct [OF wf ne, unfolded hp, OF a, where pmsg = pmsg and msk = msk and
      pend = pend, folded s'_def]
  show "os_wf s'" "wait_set s' e' = wait_set s e' - {p}"
    "event_data (OSEventTbl s' e') = event_data (OSEventTbl s e')" "at_prio s' q j = at_prio s q j"
    by (rule c)+
  show "os_frame s' = os_frame s" by (simp add: s'_def)
  show "rdy_set s' = rdy_set s \<union> released s {p} msk"
    using c(3) by (auto simp: released_def task_at_prio [OF a])
  have a': "at_prio s' p i" using a c(4) by simp
  show "OSTCBMsg (task_at s' p) = pmsg" "OSTCBStatPend (task_at s' p) = pend"
    "OSTCBDly (task_at s' p) = 0"
    "OSTCBStat (task_at s' p) = OSTCBStat (task_at s p) AND NOT msk"
    by (simp_all add: task_at_prio [OF a] task_at_prio [OF a'] c(6) rdy_write_def)
  assume q: "q \<noteq> p" "at_prio s q j"
  then have "j \<noteq> i" using a at_prio_same_tcb by blast
  moreover have "at_prio s' q j" using q(2) c(4) by simp
  ultimately show "task_at s' q = task_at s q"
    using q(2) c(7) by (simp add: task_at_prio)
qed

lemma running_on_wait: "running s p i \<Longrightarrow> p \<notin> wait_set s e"
  by (simp add: running_def)


lemma released_single:
  "(OSTCBStat (task_at s p) AND NOT msk) AND OS_STAT_SUSPEND = OS_STAT_RDY \<Longrightarrow> released s {p} msk = {p}"
  by (auto simp: released_def)

lemma os_frame_ok:
  assumes "os_frame s' = os_frame s"
  shows "cur_ok s' = cur_ok s" "can_sched s' = can_sched s"
  using os_frameD [OF assms] by (simp_all add: cur_ok_def can_sched_def)

text \<open>A broadcast serves every waiter.\<close>

lemma post_wake_broadcast:
  assumes wf: "os_wf s" and opt: "opt AND OS_POST_OPT_BROADCAST \<noteq> 0"
  obtains s' where "post_wake e pmsg msk opt s = Some s'" "os_wf s'" "wait_set s' e = {}"
    "rdy_set s' = rdy_set s \<union> released s (wait_set s e) msk"
    "\<And>e'. event_data (OSEventTbl s' e') = event_data (OSEventTbl s e')"
    "\<And>q. q \<in> wait_set s e \<Longrightarrow> OSTCBMsg (task_at s' q) = pmsg \<and> OSTCBStatPend (task_at s' q) = OS_STAT_PEND_OK"
proof -
  obtain s' where s': "rdy_all 24 e pmsg msk OS_STAT_PEND_OK s = Some (card (wait_set s e), s')"
    "os_wf s'" "\<And>e'. wait_set s' e' = wait_set s e' - wait_set s e"
    "rdy_set s' = rdy_set s \<union> released s (wait_set s e) msk"
    "\<And>e'. event_data (OSEventTbl s' e') = event_data (OSEventTbl s e')"
    "\<And>q. q \<in> wait_set s e \<Longrightarrow> OSTCBMsg (task_at s' q) = pmsg \<and> OSTCBStatPend (task_at s' q) = OS_STAT_PEND_OK"
    by (rule rdy_all_terminates [OF wf]) blast
  show thesis
    using s' opt by (intro that [of s']) (simp_all add: post_wake_def)
qed

lemma task_at_sched: "tcb_core (task_at (OS_Sched s) q) = tcb_core (task_at s q)"
  by (simp add: task_at_def)

section \<open>Blocking and finishing a wait\<close>

text \<open>Entering a wait and clearing its status bit again does not suspend a task.\<close>

lemma susp_masked:
  assumes "(w :: u8) AND OS_STAT_SUSPEND = OS_STAT_RDY"
  shows "((w OR m) AND NOT m) AND OS_STAT_SUSPEND = OS_STAT_RDY"
proof -
  have "((w OR m) AND NOT m) AND OS_STAT_SUSPEND = (w AND OS_STAT_SUSPEND) AND NOT m"
    by (rule bit_word_eqI) (auto simp: bit_and_iff bit_or_iff bit_not_iff)
  with assms show ?thesis by simp
qed

text \<open>
  A pend that has to wait: the caller leaves the ready list, joins the wait list of \<open>e\<close> with its
  time-out and its status bit, and the highest-priority task that is left runs.
\<close>

lemma pend_block_sched:
  fixes e :: nat and stat :: u8 and timeout :: u16
  assumes wf: "os_wf s" and run: "running s p i" and cs: "can_sched s"
    and left: "rdy_set s - {p} \<noteq> {}"
  defines "s' \<equiv> OS_Sched (pend_block e stat timeout s)"
  shows "os_wf s'" and "rdy_set s' = rdy_set s - {p}"
    and "wait_set s' e' = (if e' = e then insert p (wait_set s e) else wait_set s e')"
    and "tcb_core (OSTCBTbl s' i) = tcb_core ((OSTCBTbl s i)\<lparr>OSTCBStat := OSTCBStat (OSTCBTbl s i) OR stat,
      OSTCBStatPend := OS_STAT_PEND_OK, OSTCBDly := timeout, OSTCBEventPtr := PEvent e\<rparr>)"
    and "event_data (OSEventTbl s' e') = event_data (OSEventTbl s e')"
    and "unat (OSPrioCur s') = Min (rdy_set s - {p})"
    and "OSTCBCur s' = OSTCBPrioTbl s (Min (rdy_set s - {p}))"
    and "j \<noteq> i \<Longrightarrow> tcb_core (OSTCBTbl s' j) = tcb_core (OSTCBTbl s j)"
    and "at_prio s' q j = at_prio s q j" and "cur_ok s'" and "can_sched s'"
proof -
  note b = pend_block_correct [OF wf run, where e = e and stat = stat and timeout = timeout]
  let ?b = "pend_block e stat timeout s"
  have fr: "OSPrioCur ?b = OSPrioCur s" "OSTCBCur ?b = OSTCBCur s" "can_sched ?b" "cur_ok ?b"
    "OSTCBPrioTbl ?b = OSTCBPrioTbl s"
    using b(6) cs running_cur_ok [OF run] by (simp_all add: os_frame_def can_sched_def cur_ok_def)
  have ne: "rdy_set ?b \<noteq> {}" using left b(2) by simp
  note sch = OS_Sched_runs_highest [OF b(1) ne fr(4,3)]
  show "os_wf s'" "rdy_set s' = rdy_set s - {p}"
    "wait_set s' e' = (if e' = e then insert p (wait_set s e) else wait_set s e')"
    "event_data (OSEventTbl s' e') = event_data (OSEventTbl s e')"
    "at_prio s' q j = at_prio s q j"
    by (simp_all add: s'_def b)
  show "tcb_core (OSTCBTbl s' i) = tcb_core ((OSTCBTbl s i)\<lparr>OSTCBStat := OSTCBStat (OSTCBTbl s i) OR stat,
      OSTCBStatPend := OS_STAT_PEND_OK, OSTCBDly := timeout, OSTCBEventPtr := PEvent e\<rparr>)"
    "j \<noteq> i \<Longrightarrow> tcb_core (OSTCBTbl s' j) = tcb_core (OSTCBTbl s j)"
    by (simp_all add: s'_def b(4))
  show "unat (OSPrioCur s') = Min (rdy_set s - {p})"
    "OSTCBCur s' = OSTCBPrioTbl s (Min (rdy_set s - {p}))" "cur_ok s'"
    using sch b(2) fr(5) by (simp_all add: s'_def)
  show "can_sched s'" using fr(3) by (simp add: s'_def can_sched_def)
qed

text \<open>
  \<open>resumed s p i e\<close>: task \<open>i\<close> runs again after waiting for \<open>e\<close>.  It is ready; it is on no wait list
  unless its wait timed out, and then only on that of \<open>e\<close>.
\<close>

definition resumed :: "os_state \<Rightarrow> nat \<Rightarrow> nat \<Rightarrow> nat \<Rightarrow> bool" where
  "resumed s p i e \<longleftrightarrow> OSTCBCur s = PTcb i \<and> unat (OSPrioCur s) = p \<and> at_prio s p i \<and>
     p \<in> rdy_set s \<and> (\<forall>e'. p \<in> wait_set s e' \<longrightarrow> e' = e \<and> OSTCBStatPend (OSTCBTbl s i) = OS_STAT_PEND_TO)"

lemma pend_clear_correct:
  assumes wf: "os_wf s" and cur: "OSTCBCur s = PTcb i" and prio: "unat (OSPrioCur s) = p"
    and a: "at_prio s p i" and r: "p \<in> rdy_set s" and w: "\<And>e'. p \<notin> wait_set s e'"
  shows "os_wf (pend_clear s)" and "running (pend_clear s) p i"
    and "rdy_set (pend_clear s) = rdy_set s" and "wait_set (pend_clear s) e' = wait_set s e'"
    and "OSTCBStat (OSTCBTbl (pend_clear s) i) = OS_STAT_RDY"
proof -
  have k: "keeps_prio (\<lambda>t. t\<lparr>OSTCBStat := OS_STAT_RDY, OSTCBStatPend := OS_STAT_PEND_OK,
     OSTCBEventPtr := NULL, OSTCBEventMultiPtr := None\<rparr>)"
    by (simp add: keeps_prio_def)
  have "rdy_ok (OSTCBTbl s i)"
    using wf a r by (metis at_prio_unique os_wf_rdyE)
  then show "os_wf (pend_clear s)"
    unfolding pend_clear_def cur tcb_of.simps
    using w by (intro os_wf_upd_tcb_at [OF wf k a]) (auto simp: rdy_ok_def)
  show "running (pend_clear s) p i"
    using cur prio a r w k by (simp add: pend_clear_def running_def)
  show "rdy_set (pend_clear s) = rdy_set s" "wait_set (pend_clear s) e' = wait_set s e'"
    "OSTCBStat (OSTCBTbl (pend_clear s) i) = OS_STAT_RDY"
    by (simp_all add: pend_clear_def cur)
qed

lemma pend_finish_correct:
  assumes wf: "os_wf s" and res: "resumed s p i e"
  defines "s' \<equiv> snd (pend_finish e s)"
  shows "os_wf s'" and "running s' p i" and "rdy_set s' = rdy_set s"
    and "wait_set s' e' = wait_set s e' - {p}"
    and "fst (pend_finish e s) = (case OSTCBStatPend (OSTCBTbl s i) of OS_STAT_PEND_OK \<Rightarrow> OS_ERR_NONE
      | OS_STAT_PEND_ABORT \<Rightarrow> OS_ERR_PEND_ABORT | OS_STAT_PEND_TO \<Rightarrow> OS_ERR_TIMEOUT)"
proof -
  have cur: "OSTCBCur s = PTcb i" and a: "at_prio s p i" and prio: "unat (OSPrioCur s) = p"
    and r: "p \<in> rdy_set s"
    and w: "\<And>e'. p \<in> wait_set s e' \<Longrightarrow> e' = e \<and> OSTCBStatPend (OSTCBTbl s i) = OS_STAT_PEND_TO"
    using res by (auto simp: resumed_def)
  define s1 where "s1 = (if OSTCBStatPend (OSTCBTbl s i) = OS_STAT_PEND_TO
    then OS_EventTaskRemove i e s else s)"
  have s': "s' = pend_clear s1"
    and "fst (pend_finish e s) = (case OSTCBStatPend (OSTCBTbl s i) of OS_STAT_PEND_OK \<Rightarrow> OS_ERR_NONE
      | OS_STAT_PEND_ABORT \<Rightarrow> OS_ERR_PEND_ABORT | OS_STAT_PEND_TO \<Rightarrow> OS_ERR_TIMEOUT)"
    by (simp_all add: s'_def pend_finish_def cur s1_def split: pend_stat.split)
  then show "fst (pend_finish e s) = (case OSTCBStatPend (OSTCBTbl s i) of OS_STAT_PEND_OK \<Rightarrow> OS_ERR_NONE
      | OS_STAT_PEND_ABORT \<Rightarrow> OS_ERR_PEND_ABORT | OS_STAT_PEND_TO \<Rightarrow> OS_ERR_TIMEOUT)" by blast
  have wf1: "os_wf s1"
    using wf os_wf_EventTaskRemove [OF wf a] by (simp add: s1_def)
  have w1: "wait_set s1 e' = wait_set s e' - {p}" for e'
    using w wait_set_EventTaskRemove [OF wf a] by (auto simp: s1_def)
  have "OSTCBCur s1 = PTcb i" "unat (OSPrioCur s1) = p" "at_prio s1 p i" "p \<in> rdy_set s1"
    "\<And>e'. p \<notin> wait_set s1 e'"
    using cur a prio r w1 by (simp_all add: s1_def)
  note c = pend_clear_correct [OF wf1 this]
  show "os_wf s'" "running s' p i" "rdy_set s' = rdy_set s"
    "wait_set s' e' = wait_set s e' - {p}"
    using c w1 by (simp_all add: s') (simp add: s1_def)
qed

lemma pend_finish_msg_eq:
  assumes "OSTCBCur s = PTcb i"
  shows "pend_finish_msg e s =
    (if OSTCBStatPend (OSTCBTbl s i) = OS_STAT_PEND_OK then OSTCBMsg (OSTCBTbl s i) else NULL,
     fst (pend_finish e s),
     upd_tcb i (\<lambda>t. t\<lparr>OSTCBMsg := NULL\<rparr>) (snd (pend_finish e s)))"
  using assms
  by (simp add: pend_finish_msg_def pend_finish_def pend_clear_def split: pend_stat.split)

lemma os_wf_upd_msg [simp]:
  "os_wf (upd_tcb i (\<lambda>t. t\<lparr>OSTCBMsg := m\<rparr>) s) = os_wf s"
  "running (upd_tcb i (\<lambda>t. t\<lparr>OSTCBMsg := m\<rparr>) s) p j = running s p j"
proof -
  let ?u = "upd_tcb i (\<lambda>t. t\<lparr>OSTCBMsg := m\<rparr>) s"
  have k: "keeps_prio (\<lambda>t. t\<lparr>OSTCBMsg := m\<rparr>)" by (simp add: keeps_prio_def)
  have r: "rdy_ok (OSTCBTbl ?u j) = rdy_ok (OSTCBTbl s j)" for j by (simp add: rdy_ok_def)
  have w: "waits_on (OSTCBTbl ?u j) e = waits_on (OSTCBTbl s j) e" for j e
    by (simp add: waits_on_def split: option.split)
  show "os_wf ?u = os_wf s"
    unfolding os_wf_def r w using k by simp
  show "running ?u p j = running s p j"
    using k by (simp add: running_def)
qed

text \<open>
  Task \<open>i\<close> of priority \<open>p\<close> waits for event \<open>e\<close>, first of the tasks that do, and no ready task has a
  higher priority.
\<close>

definition top_waiter :: "os_state \<Rightarrow> nat \<Rightarrow> nat \<Rightarrow> nat \<Rightarrow> u8 \<Rightarrow> bool" where
  "top_waiter s p i e stat \<longleftrightarrow> os_wf s \<and> at_prio s p i \<and> p \<in> wait_set s e \<and>
     (\<forall>q \<in> wait_set s e. p \<le> q) \<and> (\<forall>q \<in> rdy_set s. p \<le> q) \<and>
     (OSTCBStat (OSTCBTbl s i) AND NOT stat) AND OS_STAT_SUSPEND = OS_STAT_RDY \<and> cur_ok s \<and> can_sched s"

text \<open>A post with such a waiting task: it runs at once.\<close>

lemma post_wakes:
  fixes e :: nat and stat :: u8 and pmsg :: ptr
  assumes tw: "top_waiter s p i e stat"
  defines "s2 \<equiv> OS_Sched (snd (OS_EventTaskRdy e pmsg stat OS_STAT_PEND_OK s))"
  shows "os_wf s2" and "resumed s2 p i e" and "wait_set s2 e' = wait_set s e' - {p}"
    and "OSTCBStatPend (OSTCBTbl s2 i) = OS_STAT_PEND_OK" and "OSTCBMsg (OSTCBTbl s2 i) = pmsg"
    and "event_data (OSEventTbl s2 e') = event_data (OSEventTbl s e')"
proof -
  have wf: "os_wf s" and w: "p \<in> wait_set s e" "\<forall>q \<in> wait_set s e. p \<le> q"
    and a: "at_prio s p i"
    and st: "(OSTCBStat (OSTCBTbl s i) AND NOT stat) AND OS_STAT_SUSPEND = OS_STAT_RDY"
    and top: "\<forall>q \<in> rdy_set s. p \<le> q" and cok: "cur_ok s" and cs: "can_sched s"
    using tw unfolding top_waiter_def by blast+
  have ne: "wait_set s e \<noteq> {}" using w by auto
  have min1: "Min (wait_set s e) = p"
    using w finite_wait_set [OF wf, of e] by (intro Min_eqI) auto
  define t where "t = snd (OS_EventTaskRdy e pmsg stat OS_STAT_PEND_OK s)"
  note r = EventTaskRdy_sets [OF wf ne, unfolded min1, where pmsg = pmsg and
      msk = stat and pend = OS_STAT_PEND_OK, folded t_def]
  have s2: "s2 = OS_Sched t" by (simp add: s2_def t_def)
  have "released s {p} stat = {p}"
    using st by (intro released_single) (simp only: task_at_prio [OF a])
  then have rt: "rdy_set t = insert p (rdy_set s)"
    using r(3) by simp
  then have min2: "Min (rdy_set t) = p"
    using top bm.finite_els [OF os_wf_bm(1) [OF wf]]
    by (intro Min_eqI) (auto simp: rdy_set_def)
  have cok2: "cur_ok t" "can_sched t"
    using os_frame_ok [OF r(6)] cok cs by simp_all
  have at: "at_prio t p i" using a r(5) by simp
  note sch = OS_Sched_runs_highest [OF r(1) _ cok2, folded s2, unfolded min2]
  have cur2: "OSTCBCur s2 = PTcb i" "unat (OSPrioCur s2) = p"
    using sch rt at by (auto simp: at_prio_def)
  show "os_wf s2" using r(1) by (simp add: s2)
  show w2: "wait_set s2 e' = wait_set s e' - {p}" for e'
    using r(2) by (auto simp: s2)
  show "resumed s2 p i e"
    using cur2 at rt by (simp add: resumed_def w2) (simp add: s2)
  show "OSTCBStatPend (OSTCBTbl s2 i) = OS_STAT_PEND_OK" "OSTCBMsg (OSTCBTbl s2 i) = pmsg"
    using r(7,8) tcb_core_fields(3,5) [OF tcb_core_sched [of t i]]
    by (simp_all add: s2 task_at_prio [OF at])
  show "event_data (OSEventTbl s2 e') = event_data (OSEventTbl s e')"
    using r(4) by (simp add: s2)
qed

lemma pend_block_top_waiter:
  assumes wf: "os_wf s" and run: "running s p i" and cs: "can_sched s"
    and top: "\<forall>q \<in> rdy_set s. p \<le> q" "\<forall>q \<in> wait_set s e. p < q" and left: "rdy_set s - {p} \<noteq> {}"
  shows "top_waiter (OS_Sched (pend_block e stat timeout s)) p i e stat"
proof -
  define s1 where "s1 = OS_Sched (pend_block e stat timeout s)"
  note b = pend_block_sched [OF wf run cs left, where e = e and stat = stat and
      timeout = timeout, folded s1_def]
  have a: "at_prio s p i" and pw: "\<And>e'. p \<notin> wait_set s e'"
    using run by (auto simp: running_def)
  have "OSTCBStat (OSTCBTbl s1 i) = OSTCBStat (OSTCBTbl s i) OR stat"
    using tcb_core_fields(2) [OF b(4)] by simp
  then have "(OSTCBStat (OSTCBTbl s1 i) AND NOT stat) AND OS_STAT_SUSPEND = OS_STAT_RDY"
    using running_rdy_ok [OF wf run] susp_masked by (simp only: rdy_ok_def)
  moreover have "p \<in> wait_set s1 e" "\<forall>q \<in> wait_set s1 e. p \<le> q" "\<forall>q \<in> rdy_set s1. p \<le> q"
    using top pw by (auto simp: b(2,3) less_imp_le)
  moreover have "at_prio s1 p i" using a b(9) by simp
  ultimately show ?thesis
    unfolding top_waiter_def s1_def [symmetric] using b(1,10,11) by blast
qed

text \<open>
  Handover: the highest-priority task blocks on \<open>e\<close>, where only lower-priority tasks wait, and is
  then readied with the message \<open>pmsg\<close>.  It runs again at once and can finish its call.
\<close>

lemma pend_post_handover:
  fixes e :: nat and stat :: u8 and timeout :: u16 and pmsg :: ptr
  assumes wf: "os_wf s" and run: "running s p i" and cs: "can_sched s"
    and top: "\<forall>q \<in> rdy_set s. p \<le> q" "\<forall>q \<in> wait_set s e. p < q" and left: "rdy_set s - {p} \<noteq> {}"
  defines "s1 \<equiv> OS_Sched (pend_block e stat timeout s)"
  defines "s2 \<equiv> OS_Sched (snd (OS_EventTaskRdy e pmsg stat OS_STAT_PEND_OK s1))"
  shows "wait_set s1 e = insert p (wait_set s e)" and "Grp (wait_of s1 e) \<noteq> 0"
    and "event_data (OSEventTbl s1 e') = event_data (OSEventTbl s e')"
    and "os_wf s2" and "resumed s2 p i e" and "wait_set s2 e' = wait_set s e'"
    and "OSTCBStatPend (OSTCBTbl s2 i) = OS_STAT_PEND_OK" and "OSTCBMsg (OSTCBTbl s2 i) = pmsg"
    and "event_data (OSEventTbl s2 e') = event_data (OSEventTbl s e')"
proof -
  note b = pend_block_sched [OF wf run cs left, where e = e and stat = stat and
      timeout = timeout, folded s1_def]
  have a: "at_prio s p i" and pw: "\<And>e'. p \<notin> wait_set s e'" and pr: "p \<in> rdy_set s"
    using run by (auto simp: running_def)
  show w1: "wait_set s1 e = insert p (wait_set s e)" by (simp add: b(3))
  then have ne1: "wait_set s1 e \<noteq> {}" by simp
  then show "Grp (wait_of s1 e) \<noteq> 0" using wait_empty_iff [OF b(1)] by simp
  show "event_data (OSEventTbl s1 e') = event_data (OSEventTbl s e')" by (rule b(5))
  note tw = pend_block_top_waiter [OF wf run cs top left, where stat = stat and timeout = timeout,
      folded s1_def]
  note k = post_wakes [OF tw, where pmsg = pmsg, folded s2_def]
  show "os_wf s2" by (rule k(1))
  show "resumed s2 p i e" by (rule k(2))
  show "OSTCBStatPend (OSTCBTbl s2 i) = OS_STAT_PEND_OK" by (rule k(4))
  show "OSTCBMsg (OSTCBTbl s2 i) = pmsg" by (rule k(5))
  show "wait_set s2 e' = wait_set s e'"
    using k(3) [of e'] pw by (auto simp: b(3) split: if_splits)
  show "event_data (OSEventTbl s2 e') = event_data (OSEventTbl s e')"
    using k(6) b(5) by simp
qed

text \<open>
  A wait that nothing ends but its time-out: the task becomes ready after exactly \<open>timeout\<close> ticks,
  with the time-out status, and can then finish its call.
\<close>

lemma or_masked: "(m :: u8) AND k \<noteq> 0 \<Longrightarrow> (w OR m) AND k \<noteq> 0"
  by (metis (no_types, lifting) bit.conj_disj_distrib2 or_eq_0_iff)

definition wait_state :: "u16 \<Rightarrow> nat \<Rightarrow> OS_TCB \<Rightarrow> bool" where
  "wait_state n k t \<longleftrightarrow>
     (if unat n \<le> k then OSTCBStatPend t = OS_STAT_PEND_TO
      else OSTCBStat t AND OS_STAT_PEND_ANY \<noteq> OS_STAT_RDY)"

lemma wait_state_tick:
  assumes "delayed n k t" "wait_state n k t"
  shows "wait_state n (Suc k) (tick_write t)"
proof -
  have z: "OSTCBDly t = 0 \<longleftrightarrow> unat n \<le> k"
    using assms(1) by (auto simp: delayed_def unat_eq_0 [symmetric])
  have o: "OSTCBDly t = 1 \<longleftrightarrow> unat n = Suc k"
  proof -
    have "OSTCBDly t = 1 \<longleftrightarrow> unat (OSTCBDly t) = 1"
      by (metis unat_1 word_unat_eq_iff)
    then show ?thesis using assms(1) by (auto simp: delayed_def)
  qed
  show ?thesis
    using assms(2) by (auto simp: wait_state_def tick_write_def expire_def z o)
qed

lemma pend_block_timeout:
  fixes e :: nat and stat :: u8 and timeout :: u16
  assumes wf: "os_wf s" and run: "running s p i" and cs: "can_sched s"
    and left: "rdy_set s - {p} \<noteq> {}" and m: "stat AND OS_STAT_PEND_ANY \<noteq> 0"
    and su: "stat AND OS_STAT_SUSPEND = 0"
    and tl: "task_list s js" "i \<in> set js" and on: "OSRunning s" "OSTickStepState s = OS_TICK_STEP_DIS"
    and n: "timeout > 0"
  defines "s1 \<equiv> OS_Sched (pend_block e stat timeout s)"
  shows "\<exists>s2. run_ticks k s1 = Some s2 \<and> os_wf s2 \<and> (p \<in> rdy_set s2 \<longleftrightarrow> unat timeout \<le> k) \<and>
    OSEventTbl s2 = OSEventTbl s1 \<and>
    (unat timeout \<le> k \<longrightarrow> (\<forall>q \<in> rdy_set s2. p \<le> q) \<longrightarrow> resumed (OS_Sched s2) p i e \<and>
       OSTCBStatPend (OSTCBTbl (OS_Sched s2) i) = OS_STAT_PEND_TO)"
proof -
  note b = pend_block_sched [OF wf run cs left, where e = e and stat = stat and
      timeout = timeout, folded s1_def]
  have a: "at_prio s p i" and off: "\<And>e'. p \<notin> wait_set s e'" using run by (auto simp: running_def)
  have same: "OSTCBPrio (OSTCBTbl s1 j) = OSTCBPrio (OSTCBTbl s j) \<and>
      OSTCBNext (OSTCBTbl s1 j) = OSTCBNext (OSTCBTbl s j)" for j
    using tcb_core_fields(1,8) [OF b(4)] tcb_core_fields(1,8) [OF b(8) [of j]] by (cases "j = i") auto
  have fr: "os_frame (pend_block e stat timeout s) = os_frame s"
    by (rule pend_block_correct(6) [OF wf run])
  have tl1: "task_list s1 js"
    by (rule task_list_core [OF tl(1) _ b(9) same]) (simp add: s1_def os_frameD(7) [OF fr])
  have on1: "OSRunning s1" "OSTickStepState s1 = OS_TICK_STEP_DIS"
    using on os_frameD(5) [OF fr]
    by (simp_all add: s1_def)
      (simp add: OS_Sched_def sched_switch_def Let_def OSCtxSw_def OS_SchedNew_eq pend_block_def
        OS_EventTaskWait_def rdy_remove_def)
  have st: "OSTCBStat (OSTCBTbl s1 i) = OSTCBStat (OSTCBTbl s i) OR stat"
    and dl: "OSTCBDly (OSTCBTbl s1 i) = timeout"
    using tcb_core_fields(2,4) [OF b(4)] by simp_all
  have "OSTCBStat (OSTCBTbl s i) AND OS_STAT_SUSPEND = 0"
    using running_rdy_ok [OF wf run] by (simp add: rdy_ok_def)
  then have "\<not> suspended (OSTCBTbl s1 i)"
    using su unfolding suspended_def st bit.conj_disj_distrib2 by simp
  then have d: "delayed timeout 0 (OSTCBTbl s1 i)"
    by (simp add: delayed_def dl)
  have pos: "0 < unat timeout" using n by (simp add: word_less_nat_alt)
  have w: "wait_state timeout 0 (OSTCBTbl s1 i)"
    using pos or_masked [OF m] by (simp add: wait_state_def st)
  have a1: "at_prio s1 p i" using a b(9) by simp
  have nr: "p \<notin> rdy_set s1" using b(2) by simp
  obtain s2 where s2: "run_ticks k s1 = Some s2" "os_wf s2" "\<forall>q j. at_prio s2 q j = at_prio s1 q j"
    "p \<in> rdy_set s2 \<longleftrightarrow> unat timeout \<le> k" "wait_state timeout k (OSTCBTbl s2 i)"
    "os_frame s2 = os_frame s1" "OSEventTbl s2 = OSEventTbl s1"
    using ticks_delayed [OF b(1) tl1 on1 tl(2) a1 nr d pos w wait_state_tick, of k] by blast
  have "resumed (OS_Sched s2) p i e \<and> OSTCBStatPend (OSTCBTbl (OS_Sched s2) i) = OS_STAT_PEND_TO"
    if k: "unat timeout \<le> k" and top: "\<forall>q \<in> rdy_set s2. p \<le> q"
  proof -
    have pr: "p \<in> rdy_set s2" using s2(4) k by simp
    have mi: "Min (rdy_set s2) = p"
      using top pr bm.finite_els [OF os_wf_bm(1) [OF s2(2)]] by (intro Min_eqI) (auto simp: rdy_set_def)
    have ok: "cur_ok s2" "can_sched s2"
      using os_frame_ok [OF s2(6)] b(10,11) by simp_all
    have a2: "at_prio s2 p i" using s2(3) a1 by simp
    note sch = OS_Sched_runs_highest [OF s2(2) _ ok, unfolded mi]
    have cur: "OSTCBCur (OS_Sched s2) = PTcb i" "unat (OSPrioCur (OS_Sched s2)) = p"
      using sch pr a2 by (auto simp: at_prio_def)
    have to: "OSTCBStatPend (OSTCBTbl (OS_Sched s2) i) = OS_STAT_PEND_TO"
      using s2(5) k tcb_core_fields(3) [OF tcb_core_sched [of s2 i]] by (simp add: wait_state_def)
    have "wait_set (OS_Sched s2) e' = wait_set s1 e'" for e'
      using s2(7) by (simp add: wait_set_def)
    then show ?thesis
      using cur to a2 pr off by (simp add: resumed_def b(3))
  qed
  then show ?thesis using s2 by blast
qed

section \<open>The free list of event control blocks\<close>

fun ev_chain :: "(nat \<Rightarrow> OS_EVENT) \<Rightarrow> ptr \<Rightarrow> nat list \<Rightarrow> bool" where
  "ev_chain tbl p [] \<longleftrightarrow> p = NULL"
| "ev_chain tbl p (e # es) \<longleftrightarrow> p = PEvent e \<and> OSEventType (tbl e) = OS_EVENT_TYPE_UNUSED \<and>
     ev_chain tbl (OSEventPtr (tbl e)) es"

definition free_events :: "os_state \<Rightarrow> nat list \<Rightarrow> bool" where
  "free_events s es \<longleftrightarrow> ev_chain (OSEventTbl s) (OSEventFreeList s) es \<and> distinct es \<and>
     (\<forall>e \<in> set es. wait_set s e = {})"

lemma ev_chain_upd: "e \<notin> set es \<Longrightarrow> ev_chain (tbl(e := v)) p es = ev_chain tbl p es"
  by (induction es arbitrary: p) auto

lemma event_get_free:
  "free_events s (e # es) \<Longrightarrow>
     event_get s = (PEvent e, s\<lparr>OSEventFreeList := OSEventPtr (OSEventTbl s e)\<rparr>)"
  "free_events s [] \<Longrightarrow> event_get s = (NULL, s)"
  by (simp_all add: free_events_def event_get_def)

lemma free_list_update_simps [simp]:
  "os_wf (s\<lparr>OSEventFreeList := x\<rparr>) = os_wf s" "rdy_set (s\<lparr>OSEventFreeList := x\<rparr>) = rdy_set s"
  "wait_set (s\<lparr>OSEventFreeList := x\<rparr>) e = wait_set s e"
  "at_prio (s\<lparr>OSEventFreeList := x\<rparr>) p i = at_prio s p i"
  by (simp_all add: os_wf_def rdy_set_def wait_set_def at_prio_def)

lemma event_put_sets [simp]:
  "os_wf (event_put e s) = os_wf s" "rdy_set (event_put e s) = rdy_set s"
  "wait_set (event_put e s) e' = wait_set s e'"
  by (simp_all add: event_put_def os_wf_upd_event_data)

lemma event_put_type [simp]: "OSEventType (OSEventTbl (event_put e s) e) = OS_EVENT_TYPE_UNUSED"
  "OSEventFreeList (event_put e s) = PEvent e"
  by (simp_all add: event_put_def)

lemma free_events_put:
  "free_events s es \<Longrightarrow> e \<notin> set es \<Longrightarrow> wait_set s e = {} \<Longrightarrow> free_events (event_put e s) (e # es)"
  by (simp add: free_events_def) (simp add: event_put_def ev_chain_upd)

text \<open>Giving a new event an empty wait list.\<close>

lemma OS_EventWaitListInit_sets:
  assumes "os_wf s" "wait_set s e = {}"
  shows "os_wf (OS_EventWaitListInit e s)" "wait_set (OS_EventWaitListInit e s) e' = wait_set s e'"
    and "rdy_set (OS_EventWaitListInit e s) = rdy_set s"
proof -
  show w: "wait_set (OS_EventWaitListInit e s) e' = wait_set s e'" for e'
    using assms(2) by (auto simp: OS_EventWaitListInit_def wait_set_upd_event bm_elems_init)
  show r: "rdy_set (OS_EventWaitListInit e s) = rdy_set s"
    by (simp add: OS_EventWaitListInit_def)
  show "os_wf (OS_EventWaitListInit e s)"
  proof (rule os_wfI)
    show "bm_wf (wait_of (OS_EventWaitListInit e s) e')" for e'
      using assms(1) by (simp add: OS_EventWaitListInit_def bm_wf_init os_wf_bm)
  next
    fix e' q assume "q \<in> wait_set (OS_EventWaitListInit e s) e'"
    then show "\<exists>i. at_prio (OS_EventWaitListInit e s) q i \<and>
        waits_on (OSTCBTbl (OS_EventWaitListInit e s) i) e'"
      using assms(1) w by (auto simp: OS_EventWaitListInit_def elim: os_wf_waitE)
  next
    fix q assume "q \<in> rdy_set (OS_EventWaitListInit e s)"
    then show "\<exists>i. at_prio (OS_EventWaitListInit e s) q i \<and>
        rdy_ok (OSTCBTbl (OS_EventWaitListInit e s) i)"
      using assms(1) r by (auto simp: OS_EventWaitListInit_def elim: os_wf_rdyE)
  qed (use assms(1) in \<open>simp add: OS_EventWaitListInit_def os_wf_bm\<close>)
qed

section \<open>The contract of a post\<close>

text \<open>
  \<open>ok\<close> is the invariant under which the object is used, \<open>avail\<close> counts what is stored in it (units
  of a semaphore, messages) and \<open>cap\<close> how much it can store.  A post serves the highest-priority
  waiter; with no waiter it stores one unit, and when the object is full it changes nothing.
\<close>

locale wait_object =
  fixes ok :: "'s \<Rightarrow> bool"
    and waiters :: "'s \<Rightarrow> nat set"
    and avail :: "'s \<Rightarrow> nat"
    and cap :: "'s \<Rightarrow> nat"
    and post :: "'s \<Rightarrow> 's"
  assumes ok_post: "ok s \<Longrightarrow> ok (post s)"
    and finite_waiters: "ok s \<Longrightarrow> finite (waiters s)"
    and cap_post: "ok s \<Longrightarrow> cap (post s) = cap s"
    and post_wait: "ok s \<Longrightarrow> waiters s \<noteq> {} \<Longrightarrow>
      waiters (post s) = waiters s - {Min (waiters s)} \<and> avail (post s) = avail s"
    and post_store: "ok s \<Longrightarrow> waiters s = {} \<Longrightarrow> avail s < cap s \<Longrightarrow>
      waiters (post s) = {} \<and> avail (post s) = Suc (avail s)"
    and post_full: "ok s \<Longrightarrow> waiters s = {} \<Longrightarrow> cap s \<le> avail s \<Longrightarrow>
      waiters (post s) = {} \<and> avail (post s) = avail s"
begin

lemma ok_posts: "ok s \<Longrightarrow> ok ((post ^^ n) s)"
  by (induction n) (auto simp: ok_post)

lemma cap_posts: "ok s \<Longrightarrow> cap ((post ^^ n) s) = cap s"
  by (induction n) (auto simp: cap_post ok_posts)

lemma waiters_post: "ok s \<Longrightarrow> waiters (post s) =
    (if waiters s = {} then {} else waiters s - {Min (waiters s)})"
  using post_wait post_store post_full by (cases "avail s < cap s") auto

text \<open>After \<open>n\<close> posts the \<open>n\<close> highest-priority waiters have been served.\<close>

lemma posts_waiters:
  assumes "ok s"
  shows "waiters ((post ^^ n) s) \<subseteq> waiters s \<and>
    card (waiters ((post ^^ n) s)) = card (waiters s) - n \<and>
    (\<forall>p \<in> waiters s - waiters ((post ^^ n) s). \<forall>q \<in> waiters ((post ^^ n) s). p < q)"
proof (induction n)
  case (Suc n)
  let ?t = "(post ^^ n) s"
  have ok: "ok ?t" and fin: "finite (waiters ?t)"
    using assms by (simp_all add: ok_posts finite_waiters)
  show ?case
  proof (cases "waiters ?t = {}")
    case True
    then have "card (waiters s) - Suc n = 0" using Suc by auto
    with True Suc show ?thesis by (simp add: waiters_post [OF ok])
  next
    case False
    then have "Min (waiters ?t) \<in> waiters ?t" using fin by simp
    moreover have "Min (waiters ?t) < q" if "q \<in> waiters ?t - {Min (waiters ?t)}" for q
      using that fin by (metis DiffE Min_le insertCI order_le_imp_less_or_eq)
    ultimately show ?thesis
      using Suc False fin by (auto simp: waiters_post [OF ok])
  qed
qed simp

text \<open>What no waiter took is stored, up to the capacity.\<close>

lemma posts_avail:
  assumes "ok s" "avail s \<le> cap s"
  shows "avail ((post ^^ n) s) = min (cap s) (avail s + (n - card (waiters s)))"
proof (induction n)
  case 0
  then show ?case using assms(2) by simp
next
  case (Suc n)
  let ?t = "(post ^^ n) s"
  have ok: "ok ?t" and fin: "finite (waiters ?t)" and cap: "cap ?t = cap s"
    using assms by (simp_all add: ok_posts finite_waiters cap_posts)
  have c: "card (waiters ?t) = card (waiters s) - n"
    using posts_waiters [OF assms(1)] by simp
  show ?case
  proof (cases "waiters ?t = {}")
    case True
    then have "card (waiters s) \<le> n" using c by simp
    then show ?thesis
      using Suc True post_store [OF ok] post_full [OF ok] cap
      by (cases "avail ?t < cap ?t") (auto simp: min_def split: if_splits)
  next
    case False
    then have "n < card (waiters s)"
      using c fin by (metis card_gt_0_iff zero_less_diff)
    then show ?thesis
      using Suc post_wait [OF ok False] by simp
  qed
qed

text \<open>Nothing is stored while a task waits for it.\<close>

lemma post_no_idle: "ok s \<Longrightarrow> avail s = 0 \<or> waiters s = {} \<Longrightarrow> avail (post s) = 0 \<or> waiters (post s) = {}"
  using post_wait post_store post_full by (cases "waiters s = {}"; cases "avail s < cap s") auto

end

end
