(* ===== verification/Os_Sem.thy ===== *)
theory Os_Sem
  imports Os_Event
begin

text \<open>
  os_sem.c: counting semaphores.  An error written through \<^verbatim>\<open>perr\<close> is \<open>Some err\<close>; \<open>None\<close> is the call
  that wrote nothing because \<^verbatim>\<open>perr\<close> is \<^verbatim>\<open>NULL\<close> (argument \<open>perr = False\<close>).
\<close>

section \<open>Operations\<close>

definition OSSemAccept :: "ptr \<Rightarrow> os_state \<Rightarrow> u16 \<times> os_state" where
  "OSSemAccept pevent s =
     (if pevent = NULL then (0, s)
      else
        let e = event_of pevent
        in if OSEventType (OSEventTbl s e) \<noteq> OS_EVENT_TYPE_SEM then (0, s)
           else
             let cnt = OSEventCnt (OSEventTbl s e)
             in (cnt, if cnt > 0 then upd_event e (\<lambda>ev. ev\<lparr>OSEventCnt := OSEventCnt ev - 1\<rparr>) s
                      else s))"

definition OSSemCreate :: "u16 \<Rightarrow> os_state \<Rightarrow> ptr \<times> os_state" where
  "OSSemCreate cnt s =
     (if OSIntNesting s > 0 then (NULL, s)
      else
        let (pevent, s1) = event_get s
        in if pevent \<noteq> NULL then
             let e = event_of pevent;
                 s2 = upd_event e (\<lambda>ev. ev\<lparr>OSEventType := OS_EVENT_TYPE_SEM, OSEventCnt := cnt,
                        OSEventPtr := NULL, OSEventName := name_unknown (OSEventName ev)\<rparr>) s1
             in (pevent, OS_EventWaitListInit e s2)
           else (pevent, s1))"

definition OSSemDel :: "ptr \<Rightarrow> u8 \<Rightarrow> bool \<Rightarrow> os_state \<Rightarrow> (ptr \<times> os_err option \<times> os_state) option" where
  "OSSemDel pevent opt perr s =
     (if \<not> perr then Some (pevent, None, s)
      else if pevent = NULL then Some (pevent, Some OS_ERR_PEVENT_NULL, s)
      else
        let e = event_of pevent
        in if OSEventType (OSEventTbl s e) \<noteq> OS_EVENT_TYPE_SEM
           then Some (pevent, Some OS_ERR_EVENT_TYPE, s)
           else if OSIntNesting s > 0 then Some (pevent, Some OS_ERR_DEL_ISR, s)
           else
             let tasks_waiting = Grp (wait_of s e) \<noteq> 0
             in if opt = OS_DEL_NO_PEND then
                  if \<not> tasks_waiting then Some (NULL, Some OS_ERR_NONE, event_put e s)
                  else Some (pevent, Some OS_ERR_TASK_WAITING, s)
                else if opt = OS_DEL_ALWAYS then
                  (case rdy_all 24 e NULL OS_STAT_SEM OS_STAT_PEND_OK s of
                     None \<Rightarrow> None
                   | Some (_, s1) \<Rightarrow>
                       let s2 = event_put e s1
                       in Some (NULL, Some OS_ERR_NONE, if tasks_waiting then OS_Sched s2 else s2))
                else Some (pevent, Some OS_ERR_INVALID_OPT, s))"

text \<open>\<^verbatim>\<open>OSSemPend\<close> up to its \<^verbatim>\<open>OS_Sched()\<close>, and from there on.\<close>

definition OSSemPend :: "ptr \<Rightarrow> u16 \<Rightarrow> bool \<Rightarrow> os_state \<Rightarrow> os_err option call \<times> os_state" where
  "OSSemPend pevent timeout perr s =
     (if \<not> perr then (Done None, s)
      else if pevent = NULL then (Done (Some OS_ERR_PEVENT_NULL), s)
      else
        let e = event_of pevent
        in if OSEventType (OSEventTbl s e) \<noteq> OS_EVENT_TYPE_SEM
           then (Done (Some OS_ERR_EVENT_TYPE), s)
           else if OSIntNesting s > 0 then (Done (Some OS_ERR_PEND_ISR), s)
           else if OSLockNesting s > 0 then (Done (Some OS_ERR_PEND_LOCKED), s)
           else if OSEventCnt (OSEventTbl s e) > 0 then
             (Done (Some OS_ERR_NONE),
              upd_event e (\<lambda>ev. ev\<lparr>OSEventCnt := OSEventCnt ev - 1\<rparr>) s)
           else (Wait, OS_Sched (pend_block e OS_STAT_SEM timeout s)))"

definition OSSemPend_resume :: "ptr \<Rightarrow> os_state \<Rightarrow> os_err \<times> os_state" where
  "OSSemPend_resume pevent s = pend_finish (event_of pevent) s"

definition OSSemPendAbort ::
  "ptr \<Rightarrow> u8 \<Rightarrow> bool \<Rightarrow> os_state \<Rightarrow> (u8 \<times> os_err option \<times> os_state) option" where
  "OSSemPendAbort pevent opt perr s =
     (if \<not> perr then Some (0, None, s)
      else if pevent = NULL then Some (0, Some OS_ERR_PEVENT_NULL, s)
      else
        let e = event_of pevent
        in if OSEventType (OSEventTbl s e) \<noteq> OS_EVENT_TYPE_SEM
           then Some (0, Some OS_ERR_EVENT_TYPE, s)
           else
             (case pend_abort e opt OS_STAT_SEM s of
                None \<Rightarrow> None
              | Some (err, nbr_tasks, s') \<Rightarrow> Some (nbr_tasks, Some err, s')))"

definition OSSemPost :: "ptr \<Rightarrow> os_state \<Rightarrow> os_err \<times> os_state" where
  "OSSemPost pevent s =
     (if pevent = NULL then (OS_ERR_PEVENT_NULL, s)
      else
        let e = event_of pevent
        in if OSEventType (OSEventTbl s e) \<noteq> OS_EVENT_TYPE_SEM then (OS_ERR_EVENT_TYPE, s)
           else if Grp (wait_of s e) \<noteq> 0 then
             (OS_ERR_NONE, OS_Sched (snd (OS_EventTaskRdy e NULL OS_STAT_SEM OS_STAT_PEND_OK s)))
           else if OSEventCnt (OSEventTbl s e) < 65535 then
             (OS_ERR_NONE, upd_event e (\<lambda>ev. ev\<lparr>OSEventCnt := OSEventCnt ev + 1\<rparr>) s)
           else (OS_ERR_SEM_OVF, s))"

record OS_SEM_DATA =
  SD_OSCnt :: u16
  SD_OSEventWait :: prio_map

text \<open>\<open>p_sem_data = False\<close> is the \<^verbatim>\<open>NULL\<close> pointer; \<open>Some d\<close> is what is written through it.\<close>

definition OSSemQuery :: "ptr \<Rightarrow> bool \<Rightarrow> os_state \<Rightarrow> os_err \<times> OS_SEM_DATA option" where
  "OSSemQuery pevent p_sem_data s =
     (if pevent = NULL then (OS_ERR_PEVENT_NULL, None)
      else if \<not> p_sem_data then (OS_ERR_PDATA_NULL, None)
      else
        let ev = OSEventTbl s (event_of pevent)
        in if OSEventType ev \<noteq> OS_EVENT_TYPE_SEM then (OS_ERR_EVENT_TYPE, None)
           else (OS_ERR_NONE, Some \<lparr>SD_OSCnt = OSEventCnt ev, SD_OSEventWait =
             \<lparr>Grp = Grp (OSEventWait ev), Tbl = take OS_EVENT_TBL_SIZE (Tbl (OSEventWait ev))\<rparr>\<rparr>))"

definition OSSemSet :: "ptr \<Rightarrow> u16 \<Rightarrow> bool \<Rightarrow> os_state \<Rightarrow> os_err option \<times> os_state" where
  "OSSemSet pevent cnt perr s =
     (if \<not> perr then (None, s)
      else if pevent = NULL then (Some OS_ERR_PEVENT_NULL, s)
      else
        let e = event_of pevent
        in if OSEventType (OSEventTbl s e) \<noteq> OS_EVENT_TYPE_SEM then (Some OS_ERR_EVENT_TYPE, s)
           else if OSEventCnt (OSEventTbl s e) > 0
           then (Some OS_ERR_NONE, upd_event e (\<lambda>ev. ev\<lparr>OSEventCnt := cnt\<rparr>) s)
           else if Grp (wait_of s e) = 0
           then (Some OS_ERR_NONE, upd_event e (\<lambda>ev. ev\<lparr>OSEventCnt := cnt\<rparr>) s)
           else (Some OS_ERR_TASK_WAITING, s))"

section \<open>Posting\<close>

definition sem_ok :: "nat \<Rightarrow> os_state \<Rightarrow> bool" where
  "sem_ok e s \<longleftrightarrow> os_wf s \<and> OSEventType (OSEventTbl s e) = OS_EVENT_TYPE_SEM"

definition sem_count :: "nat \<Rightarrow> os_state \<Rightarrow> nat" where
  "sem_count e s = unat (OSEventCnt (OSEventTbl s e))"

lemma OSSemPost_step:
  assumes ok: "sem_ok e s"
  defines "s' \<equiv> snd (OSSemPost (PEvent e) s)"
  shows "sem_ok e s'"
    and "wait_set s' e = (if wait_set s e = {} then {} else wait_set s e - {Min (wait_set s e)})"
    and "sem_count e s' = (if wait_set s e = {} \<and> sem_count e s < 65535
      then Suc (sem_count e s) else sem_count e s)"
    and "fst (OSSemPost (PEvent e) s) = (if wait_set s e \<noteq> {} then OS_ERR_NONE
      else if sem_count e s < 65535 then OS_ERR_NONE else OS_ERR_SEM_OVF)"
    and "rdy_set s' = rdy_set s \<union>
      (if wait_set s e = {} then {} else released s {Min (wait_set s e)} OS_STAT_SEM)"
proof -
  have wf: "os_wf s" and ty: "OSEventType (OSEventTbl s e) = OS_EVENT_TYPE_SEM"
    using ok by (auto simp: sem_ok_def)
  have cnt: "OSEventCnt (OSEventTbl s e) < 65535 \<longleftrightarrow> sem_count e s < 65535"
    by (simp add: sem_count_def word_less_nat_alt)
  note g = wait_empty_iff [OF wf]
  show "fst (OSSemPost (PEvent e) s) = (if wait_set s e \<noteq> {} then OS_ERR_NONE
      else if sem_count e s < 65535 then OS_ERR_NONE else OS_ERR_SEM_OVF)"
    by (simp add: OSSemPost_def ty g cnt)
  have "sem_ok e s' \<and>
    wait_set s' e = (if wait_set s e = {} then {} else wait_set s e - {Min (wait_set s e)}) \<and>
    sem_count e s' = (if wait_set s e = {} \<and> sem_count e s < 65535
      then Suc (sem_count e s) else sem_count e s) \<and>
    rdy_set s' = rdy_set s \<union>
      (if wait_set s e = {} then {} else released s {Min (wait_set s e)} OS_STAT_SEM)"
  proof (cases "wait_set s e = {}")
    case True
    then have s': "s' = (if sem_count e s < 65535
        then upd_event e (\<lambda>ev. ev\<lparr>OSEventCnt := OSEventCnt ev + 1\<rparr>) s else s)"
      by (simp add: s'_def OSSemPost_def ty g cnt)
    have "unat (OSEventCnt (OSEventTbl s e) + 1) = Suc (sem_count e s)" if "sem_count e s < 65535"
      using that by (simp add: sem_count_def unat_word_ariths)
    with True ok show ?thesis
      by (simp add: s' sem_ok_def os_wf_upd_event_data ty) (simp add: sem_count_def)
  next
    case False
    define s1 where "s1 = snd (OS_EventTaskRdy e NULL OS_STAT_SEM OS_STAT_PEND_OK s)"
    note r = EventTaskRdy_sets [OF wf False, where pmsg = NULL and msk = OS_STAT_SEM and
        pend = OS_STAT_PEND_OK, folded s1_def]
    have s': "s' = OS_Sched s1"
      using False by (simp add: s'_def OSSemPost_def ty g s1_def)
    with False r(1,2,3) event_data_eq [OF r(4)] ty show ?thesis
      by (simp add: s' sem_ok_def sem_count_def)
  qed
  then show "sem_ok e s'"
    and "wait_set s' e = (if wait_set s e = {} then {} else wait_set s e - {Min (wait_set s e)})"
    and "sem_count e s' = (if wait_set s e = {} \<and> sem_count e s < 65535
      then Suc (sem_count e s) else sem_count e s)"
    and "rdy_set s' = rdy_set s \<union>
      (if wait_set s e = {} then {} else released s {Min (wait_set s e)} OS_STAT_SEM)"
    by blast+
qed

text \<open>A semaphore keeps the contract of a post, with capacity 65535.\<close>

interpretation sem: wait_object "sem_ok e" "\<lambda>s. wait_set s e" "sem_count e" "\<lambda>_. 65535"
    "\<lambda>s. snd (OSSemPost (PEvent e) s)" for e
proof unfold_locales
  show "finite (wait_set s e)" if "sem_ok e s" for s
    using that by (simp add: sem_ok_def finite_wait_set)
qed (simp_all add: OSSemPost_step)


section \<open>Creation and deletion\<close>

lemma OSSemCreate_correct:
  fixes cnt :: u16
  assumes "os_wf s" "free_events s (e # es)" "OSIntNesting s = 0"
  defines "s' \<equiv> snd (OSSemCreate cnt s)"
  shows "fst (OSSemCreate cnt s) = PEvent e" "sem_ok e s'" "sem_count e s' = unat cnt"
    and "wait_set s' e = {}" "free_events s' es" "rdy_set s' = rdy_set s"
proof -
  define s2 where "s2 = upd_event e (\<lambda>ev. ev\<lparr>OSEventType := OS_EVENT_TYPE_SEM, OSEventCnt := cnt,
    OSEventPtr := NULL, OSEventName := name_unknown (OSEventName ev)\<rparr>)
    (s\<lparr>OSEventFreeList := OSEventPtr (OSEventTbl s e)\<rparr>)"
  have eq: "OSSemCreate cnt s = (PEvent e, OS_EventWaitListInit e s2)"
    by (simp add: OSSemCreate_def event_get_free(1) [OF assms(2)] assms(3) s2_def)
  have w: "wait_set s e = {}" and es: "e \<notin> set es" "distinct es" "\<forall>e \<in> set es. wait_set s e = {}"
    "ev_chain (OSEventTbl s) (OSEventPtr (OSEventTbl s e)) es"
    using assms(2) by (auto simp: free_events_def)
  have s2: "os_wf s2" "wait_set s2 e' = wait_set s e'" "rdy_set s2 = rdy_set s" for e'
    using assms(1) by (simp_all add: s2_def os_wf_upd_event_data)
  have w2: "wait_set s2 e = {}" by (simp add: s2 w)
  note i = OS_EventWaitListInit_sets [OF s2(1) w2]
  show "fst (OSSemCreate cnt s) = PEvent e" "wait_set s' e = {}" "rdy_set s' = rdy_set s"
    by (simp_all add: s'_def eq i s2 w)
  show "sem_ok e s'" "sem_count e s' = unat cnt"
    using i(1) by (simp_all add: s'_def eq sem_ok_def sem_count_def)
      (simp_all add: OS_EventWaitListInit_def s2_def)
  show "free_events s' es"
    using es i(2) by (simp add: s'_def eq free_events_def s2)
      (simp add: OS_EventWaitListInit_def s2_def ev_chain_upd)
qed

lemma OSSemDel_always:
  assumes ok: "sem_ok e s" and isr: "OSIntNesting s = 0"
  obtains s' where "OSSemDel (PEvent e) OS_DEL_ALWAYS True s = Some (NULL, Some OS_ERR_NONE, s')"
    "os_wf s'" "wait_set s' e = {}" "OSEventType (OSEventTbl s' e) = OS_EVENT_TYPE_UNUSED"
    "rdy_set s' = rdy_set s \<union> released s (wait_set s e) OS_STAT_SEM"
    "OSEventFreeList s' = PEvent e"
proof -
  have wf: "os_wf s" and ty: "OSEventType (OSEventTbl s e) = OS_EVENT_TYPE_SEM"
    using ok by (auto simp: sem_ok_def)
  obtain s1 where s1: "rdy_all 24 e NULL OS_STAT_SEM OS_STAT_PEND_OK s = Some (card (wait_set s e), s1)"
    "os_wf s1" "\<And>e'. wait_set s1 e' = wait_set s e' - wait_set s e"
    "rdy_set s1 = rdy_set s \<union> released s (wait_set s e) OS_STAT_SEM"
    using rdy_all_terminates [OF wf] by metis
  show thesis
  proof
    show "OSSemDel (PEvent e) OS_DEL_ALWAYS True s = Some (NULL, Some OS_ERR_NONE,
        if Grp (wait_of s e) \<noteq> 0 then OS_Sched (event_put e s1) else event_put e s1)"
      by (simp add: OSSemDel_def ty isr s1(1))
  qed (use s1 in simp_all)
qed

section \<open>Properties\<close>

text \<open>
  C6: Handover through a semaphore.  The highest-priority task pends on an empty semaphore and gives
  up the processor; a post then readies it and switches back to it at once; its pend call ends with
  \<^verbatim>\<open>OS_ERR_NONE\<close>, it runs again, and the count is still zero: the unit went to the waiter.
\<close>

theorem OSSem_handover:
  assumes wf: "os_wf s" and run: "running s p i" and cs: "can_sched s"
    and ty: "OSEventType (OSEventTbl s e) = OS_EVENT_TYPE_SEM" and cnt: "sem_count e s = 0"
    and top: "\<forall>q \<in> rdy_set s. p \<le> q" "\<forall>q \<in> wait_set s e. p < q" and left: "rdy_set s - {p} \<noteq> {}"
  shows "\<exists>s1 s2 s3. OSSemPend (PEvent e) timeout True s = (Wait, s1) \<and> p \<notin> rdy_set s1 \<and>
    p \<in> wait_set s1 e \<and> unat (OSPrioCur s1) = Min (rdy_set s - {p}) \<and>
    OSSemPost (PEvent e) s1 = (OS_ERR_NONE, s2) \<and> OSTCBCur s2 = PTcb i \<and>
    OSSemPend_resume (PEvent e) s2 = (OS_ERR_NONE, s3) \<and> running s3 p i \<and> os_wf s3 \<and>
    sem_count e s3 = 0 \<and> wait_set s3 e = wait_set s e"
proof -
  define s1 where "s1 = OS_Sched (pend_block e OS_STAT_SEM timeout s)"
  define s2 where "s2 = OS_Sched (snd (OS_EventTaskRdy e NULL OS_STAT_SEM OS_STAT_PEND_OK s1))"
  note b = pend_block_sched [OF wf run cs left, where e = e and stat = OS_STAT_SEM and
      timeout = timeout, folded s1_def]
  note h = pend_post_handover(1-3) [OF wf run cs top left, where stat = OS_STAT_SEM and
      timeout = timeout, folded s1_def]
    pend_post_handover(4-9) [OF wf run cs top left, where stat = OS_STAT_SEM and pmsg = NULL and
      timeout = timeout, folded s1_def, folded s2_def]
  have c0: "OSEventCnt (OSEventTbl s e) = 0"
    using cnt by (simp add: sem_count_def unat_eq_0)
  have pend: "OSSemPend (PEvent e) timeout True s = (Wait, s1)"
    using cs by (simp add: OSSemPend_def ty c0 s1_def can_sched_def)
  have post: "OSSemPost (PEvent e) s1 = (OS_ERR_NONE, s2)"
    using h(2) event_data_eq(1) [OF h(3)] ty by (simp add: OSSemPost_def s2_def)
  note f = pend_finish_correct [OF h(4,5)]
  have cur2: "OSTCBCur s2 = PTcb i" using h(5) by (simp add: resumed_def)
  have "OSEventTbl (snd (pend_finish e s2)) = OSEventTbl s2"
    using h(7) cur2 by (simp add: pend_finish_def pend_clear_def)
  then have "sem_count e (snd (pend_finish e s2)) = 0"
    using event_data_eq(3) [OF h(9), of e] cnt by (simp add: sem_count_def)
  moreover have "fst (pend_finish e s2) = OS_ERR_NONE" using f(5) h(7) by simp
  moreover have "wait_set (snd (pend_finish e s2)) e = wait_set s e"
    using f(4) h(6) run by (auto simp: running_def)
  ultimately show ?thesis
    using pend post cur2 f(1,2) b(2,3,6)
    by (intro exI [of _ s1] exI [of _ s2] exI [of _ "snd (pend_finish e s2)"])
      (simp add: OSSemPend_resume_def prod_eq_iff)
qed

lemma demo_sem4: "OSEventType (OSEventTbl demo 4) = OS_EVENT_TYPE_SEM" "sem_count 4 demo = 0"
  "rdy_set demo - {5} \<noteq> {}" "\<forall>q \<in> rdy_set demo. 5 \<le> q" "\<forall>q \<in> wait_set demo 4. 5 < q"
  by (simp_all add: rdy_set_demo wait_set_demo) (simp_all add: demo_def sem_count_def event_zero_def)

theorem OSSem_handover_witness:
  "\<exists>s1 s2 s3. OSSemPend (PEvent 4) 0 True demo = (Wait, s1) \<and> unat (OSPrioCur s1) = 12 \<and>
     OSSemPost (PEvent 4) s1 = (OS_ERR_NONE, s2) \<and> OSTCBCur s2 = PTcb 0 \<and>
     OSSemPend_resume (PEvent 4) s2 = (OS_ERR_NONE, s3) \<and> running s3 5 0"
proof -
  have "Min (rdy_set demo - {5}) = 12" by (simp add: rdy_set_demo)
  with OSSem_handover [OF os_wf_demo running_demo can_sched_demo demo_sem4(1,2,4,5,3), where
      timeout = 0]
  show ?thesis by metis
qed



text \<open>
  C33: \<open>n\<close> posts in a row serve the \<open>n\<close> highest-priority waiters, and only the posts that find no
  waiter are counted, up to 65535: none is lost and none is counted twice.
\<close>

theorem OSSemPost_many:
  assumes "os_wf s" "OSEventType (OSEventTbl s e) = OS_EVENT_TYPE_SEM"
  shows "let s' = ((\<lambda>s. snd (OSSemPost (PEvent e) s)) ^^ n) s in
    sem_count e s' = min 65535 (sem_count e s + (n - card (wait_set s e))) \<and>
    card (wait_set s' e) = card (wait_set s e) - n \<and> wait_set s' e \<subseteq> wait_set s e \<and>
    (\<forall>p \<in> wait_set s e - wait_set s' e. \<forall>q \<in> wait_set s' e. p < q) \<and> os_wf s'"
proof -
  have ok: "sem_ok e s" using assms by (simp add: sem_ok_def)
  have "sem_count e s < 65536"
    by (simp add: sem_count_def)
  then show ?thesis
    using sem.posts_avail [OF ok] sem.posts_waiters [OF ok, of n] sem.ok_posts [OF ok, of n]
    by (simp add: Let_def sem_ok_def)
qed

theorem OSSemPost_many_witness:
  "sem_count 0 (((\<lambda>s. snd (OSSemPost (PEvent 0) s)) ^^ 3) demo) = 2"
proof -
  have "OSEventType (OSEventTbl demo 0) = OS_EVENT_TYPE_SEM" "sem_count 0 demo = 0"
    by (simp_all add: demo_def event_zero_def sem_count_def)
  with OSSemPost_many [OF os_wf_demo, of 0 3] show ?thesis
    by (simp add: wait_set_demo Let_def)
qed

text \<open>
  Deleting a semaphore with \<^verbatim>\<open>OS_DEL_ALWAYS\<close> ends, readies every task that waits for it and is
  not suspended, and returns the control block to the free list.
\<close>

theorem OSSemDel_releases:
  assumes "os_wf s" "OSEventType (OSEventTbl s e) = OS_EVENT_TYPE_SEM" "OSIntNesting s = 0"
  shows "\<exists>s'. OSSemDel (PEvent e) OS_DEL_ALWAYS True s = Some (NULL, Some OS_ERR_NONE, s') \<and>
    os_wf s' \<and> wait_set s' e = {} \<and> OSEventType (OSEventTbl s' e) = OS_EVENT_TYPE_UNUSED \<and>
    OSEventFreeList s' = PEvent e \<and>
    rdy_set s' = rdy_set s \<union> released s (wait_set s e) OS_STAT_SEM"
proof -
  have ok: "sem_ok e s" using assms(1,2) by (simp add: sem_ok_def)
  from OSSemDel_always [OF ok assms(3)] show ?thesis by metis
qed

theorem OSSemDel_releases_witness:
  "\<exists>s'. OSSemDel (PEvent 0) OS_DEL_ALWAYS True demo = Some (NULL, Some OS_ERR_NONE, s') \<and>
     wait_set s' 0 = {}"
proof -
  have "OSEventType (OSEventTbl demo 0) = OS_EVENT_TYPE_SEM" "OSIntNesting demo = 0"
    by (simp_all add: demo_def event_zero_def)
  from OSSemDel_releases [OF os_wf_demo this] show ?thesis by blast
qed

text \<open>
  A semaphore never holds units while a task waits for it: acquiring, posting and setting the
  count keep this.
\<close>

theorem OSSem_no_idle:
  assumes wf: "os_wf s" and run: "running s p i" and ty: "OSEventType (OSEventTbl s e) = OS_EVENT_TYPE_SEM"
    and inv: "sem_count e s = 0 \<or> wait_set s e = {}"
  shows "(\<forall>s' \<in> {snd (OSSemPost (PEvent e) s), snd (OSSemAccept (PEvent e) s),
      snd (OSSemPend (PEvent e) timeout True s), snd (OSSemSet (PEvent e) cnt True s)}.
    sem_count e s' = 0 \<or> wait_set s' e = {})"
proof -
  have ok: "sem_ok e s" using wf ty by (simp add: sem_ok_def)
  have dec: "unat (x - 1) = unat x - 1" if "x > 0" for x :: u16
    using that by (simp add: unat_minus_one)
  have post: "sem_count e (snd (OSSemPost (PEvent e) s)) = 0 \<or>
      wait_set (snd (OSSemPost (PEvent e) s)) e = {}"
    using sem.post_no_idle [OF ok inv] .
  have acc: "sem_count e (snd (OSSemAccept (PEvent e) s)) = 0 \<or>
      wait_set (snd (OSSemAccept (PEvent e) s)) e = {}"
    using inv by (auto simp: OSSemAccept_def Let_def os_wf_upd_event_data sem_count_def word_gt_0 unat_eq_0)
  have set: "sem_count e (snd (OSSemSet (PEvent e) cnt True s)) = 0 \<or>
      wait_set (snd (OSSemSet (PEvent e) cnt True s)) e = {}"
    using inv wait_empty_iff [OF wf, of e]
    by (auto simp: OSSemSet_def Let_def os_wf_upd_event_data sem_count_def word_gt_0 unat_eq_0)
  have "sem_count e (OS_Sched (pend_block e OS_STAT_SEM timeout s)) = sem_count e s"
    using event_data_eq(3) [OF pend_block_correct(7) [OF wf run]] by (simp add: sem_count_def)
  then have pend: "sem_count e (snd (OSSemPend (PEvent e) timeout True s)) = 0 \<or>
      wait_set (snd (OSSemPend (PEvent e) timeout True s)) e = {}"
    using inv
    by (auto simp: OSSemPend_def Let_def os_wf_upd_event_data word_gt_0)
      (auto simp: sem_count_def unat_eq_0)
  from post acc set pend show ?thesis by simp
qed

theorem OSSem_no_idle_witness:
  "sem_count 0 (snd (OSSemSet (PEvent 0) 9 True demo)) = 0 \<or>
   wait_set (snd (OSSemSet (PEvent 0) 9 True demo)) 0 = {}"
proof -
  have "OSEventType (OSEventTbl demo 0) = OS_EVENT_TYPE_SEM" "sem_count 0 demo = 0"
    by (simp_all add: demo_def event_zero_def sem_count_def)
  with OSSem_no_idle [OF os_wf_demo running_demo] show ?thesis by blast
qed

end
