(* ===== verification/Os_Mbox.thy ===== *)
theory Os_Mbox
  imports Os_Event
begin

text \<open>
  os_mbox.c: message mailboxes.  A mailbox holds one message in \<^verbatim>\<open>OSEventPtr\<close>; \<^verbatim>\<open>NULL\<close> is the empty
  mailbox.
\<close>

section \<open>Operations\<close>

definition OSMboxAccept :: "ptr \<Rightarrow> os_state \<Rightarrow> ptr \<times> os_state" where
  "OSMboxAccept pevent s =
     (if pevent = NULL then (NULL, s)
      else
        let e = event_of pevent
        in if OSEventType (OSEventTbl s e) \<noteq> OS_EVENT_TYPE_MBOX then (NULL, s)
           else (OSEventPtr (OSEventTbl s e), upd_event e (\<lambda>ev. ev\<lparr>OSEventPtr := NULL\<rparr>) s))"

definition OSMboxCreate :: "ptr \<Rightarrow> os_state \<Rightarrow> ptr \<times> os_state" where
  "OSMboxCreate pmsg s =
     (if OSIntNesting s > 0 then (NULL, s)
      else
        let (pevent, s1) = event_get s
        in if pevent \<noteq> NULL then
             let e = event_of pevent;
                 s2 = upd_event e (\<lambda>ev. ev\<lparr>OSEventType := OS_EVENT_TYPE_MBOX, OSEventCnt := 0,
                        OSEventPtr := pmsg, OSEventName := name_unknown (OSEventName ev)\<rparr>) s1
             in (pevent, OS_EventWaitListInit e s2)
           else (pevent, s1))"

definition OSMboxDel :: "ptr \<Rightarrow> u8 \<Rightarrow> bool \<Rightarrow> os_state \<Rightarrow> (ptr \<times> os_err option \<times> os_state) option" where
  "OSMboxDel pevent opt perr s =
     (if \<not> perr then Some (pevent, None, s)
      else if pevent = NULL then Some (pevent, Some OS_ERR_PEVENT_NULL, s)
      else
        let e = event_of pevent
        in if OSEventType (OSEventTbl s e) \<noteq> OS_EVENT_TYPE_MBOX
           then Some (pevent, Some OS_ERR_EVENT_TYPE, s)
           else if OSIntNesting s > 0 then Some (pevent, Some OS_ERR_DEL_ISR, s)
           else
             let tasks_waiting = Grp (wait_of s e) \<noteq> 0
             in if opt = OS_DEL_NO_PEND then
                  if \<not> tasks_waiting then Some (NULL, Some OS_ERR_NONE, event_put e s)
                  else Some (pevent, Some OS_ERR_TASK_WAITING, s)
                else if opt = OS_DEL_ALWAYS then
                  (case rdy_all 24 e NULL OS_STAT_MBOX OS_STAT_PEND_OK s of
                     None \<Rightarrow> None
                   | Some (_, s1) \<Rightarrow>
                       let s2 = event_put e s1
                       in Some (NULL, Some OS_ERR_NONE, if tasks_waiting then OS_Sched s2 else s2))
                else Some (pevent, Some OS_ERR_INVALID_OPT, s))"

text \<open>\<^verbatim>\<open>OSMboxPend\<close> up to its \<^verbatim>\<open>OS_Sched()\<close>: the message and the error, or a wait.\<close>

definition OSMboxPend :: "ptr \<Rightarrow> u16 \<Rightarrow> bool \<Rightarrow> os_state \<Rightarrow> (ptr \<times> os_err option) call \<times> os_state" where
  "OSMboxPend pevent timeout perr s =
     (if \<not> perr then (Done (NULL, None), s)
      else if pevent = NULL then (Done (NULL, Some OS_ERR_PEVENT_NULL), s)
      else
        let e = event_of pevent
        in if OSEventType (OSEventTbl s e) \<noteq> OS_EVENT_TYPE_MBOX
           then (Done (NULL, Some OS_ERR_EVENT_TYPE), s)
           else if OSIntNesting s > 0 then (Done (NULL, Some OS_ERR_PEND_ISR), s)
           else if OSLockNesting s > 0 then (Done (NULL, Some OS_ERR_PEND_LOCKED), s)
           else
             let pmsg = OSEventPtr (OSEventTbl s e)
             in if pmsg \<noteq> NULL then
                  (Done (pmsg, Some OS_ERR_NONE), upd_event e (\<lambda>ev. ev\<lparr>OSEventPtr := NULL\<rparr>) s)
                else (Wait, OS_Sched (pend_block e OS_STAT_MBOX timeout s)))"

definition OSMboxPend_resume :: "ptr \<Rightarrow> os_state \<Rightarrow> ptr \<times> os_err \<times> os_state" where
  "OSMboxPend_resume pevent s = pend_finish_msg (event_of pevent) s"

definition OSMboxPendAbort ::
  "ptr \<Rightarrow> u8 \<Rightarrow> bool \<Rightarrow> os_state \<Rightarrow> (u8 \<times> os_err option \<times> os_state) option" where
  "OSMboxPendAbort pevent opt perr s =
     (if \<not> perr then Some (0, None, s)
      else if pevent = NULL then Some (0, Some OS_ERR_PEVENT_NULL, s)
      else
        let e = event_of pevent
        in if OSEventType (OSEventTbl s e) \<noteq> OS_EVENT_TYPE_MBOX
           then Some (0, Some OS_ERR_EVENT_TYPE, s)
           else
             (case pend_abort e opt OS_STAT_MBOX s of
                None \<Rightarrow> None
              | Some (err, nbr_tasks, s') \<Rightarrow> Some (nbr_tasks, Some err, s')))"

definition OSMboxPost :: "ptr \<Rightarrow> ptr \<Rightarrow> os_state \<Rightarrow> os_err \<times> os_state" where
  "OSMboxPost pevent pmsg s =
     (if pevent = NULL then (OS_ERR_PEVENT_NULL, s)
      else if pmsg = NULL then (OS_ERR_POST_NULL_PTR, s)
      else
        let e = event_of pevent
        in if OSEventType (OSEventTbl s e) \<noteq> OS_EVENT_TYPE_MBOX then (OS_ERR_EVENT_TYPE, s)
           else if Grp (wait_of s e) \<noteq> 0 then
             (OS_ERR_NONE, OS_Sched (snd (OS_EventTaskRdy e pmsg OS_STAT_MBOX OS_STAT_PEND_OK s)))
           else if OSEventPtr (OSEventTbl s e) \<noteq> NULL then (OS_ERR_MBOX_FULL, s)
           else (OS_ERR_NONE, upd_event e (\<lambda>ev. ev\<lparr>OSEventPtr := pmsg\<rparr>) s))"

definition OSMboxPostOpt :: "ptr \<Rightarrow> ptr \<Rightarrow> u8 \<Rightarrow> os_state \<Rightarrow> (os_err \<times> os_state) option" where
  "OSMboxPostOpt pevent pmsg opt s =
     (if pevent = NULL then Some (OS_ERR_PEVENT_NULL, s)
      else if pmsg = NULL then Some (OS_ERR_POST_NULL_PTR, s)
      else
        let e = event_of pevent
        in if OSEventType (OSEventTbl s e) \<noteq> OS_EVENT_TYPE_MBOX then Some (OS_ERR_EVENT_TYPE, s)
           else if Grp (wait_of s e) \<noteq> 0 then
             (case post_wake e pmsg OS_STAT_MBOX opt s of
                None \<Rightarrow> None
              | Some s1 \<Rightarrow> Some (OS_ERR_NONE,
                  if opt AND OS_POST_OPT_NO_SCHED = 0 then OS_Sched s1 else s1))
           else if OSEventPtr (OSEventTbl s e) \<noteq> NULL then Some (OS_ERR_MBOX_FULL, s)
           else Some (OS_ERR_NONE, upd_event e (\<lambda>ev. ev\<lparr>OSEventPtr := pmsg\<rparr>) s))"

record OS_MBOX_DATA =
  MD_OSMsg :: ptr
  MD_OSEventWait :: prio_map

definition OSMboxQuery :: "ptr \<Rightarrow> bool \<Rightarrow> os_state \<Rightarrow> os_err \<times> OS_MBOX_DATA option" where
  "OSMboxQuery pevent p_mbox_data s =
     (if pevent = NULL then (OS_ERR_PEVENT_NULL, None)
      else if \<not> p_mbox_data then (OS_ERR_PDATA_NULL, None)
      else
        let ev = OSEventTbl s (event_of pevent)
        in if OSEventType ev \<noteq> OS_EVENT_TYPE_MBOX then (OS_ERR_EVENT_TYPE, None)
           else (OS_ERR_NONE, Some \<lparr>MD_OSMsg = OSEventPtr ev, MD_OSEventWait =
             \<lparr>Grp = Grp (OSEventWait ev), Tbl = take OS_EVENT_TBL_SIZE (Tbl (OSEventWait ev))\<rparr>\<rparr>))"

section \<open>Posting\<close>

definition mbox_ok :: "nat \<Rightarrow> os_state \<Rightarrow> bool" where
  "mbox_ok e s \<longleftrightarrow> os_wf s \<and> OSEventType (OSEventTbl s e) = OS_EVENT_TYPE_MBOX"

definition mbox_count :: "nat \<Rightarrow> os_state \<Rightarrow> nat" where
  "mbox_count e s = (if OSEventPtr (OSEventTbl s e) = NULL then 0 else 1)"

lemma OSMboxPost_step:
  assumes ok: "mbox_ok e s" and msg: "pmsg \<noteq> NULL"
  defines "s' \<equiv> snd (OSMboxPost (PEvent e) pmsg s)"
  shows "mbox_ok e s'"
    and "wait_set s' e = (if wait_set s e = {} then {} else wait_set s e - {Min (wait_set s e)})"
    and "OSEventPtr (OSEventTbl s' e) = (if wait_set s e = {} \<and> OSEventPtr (OSEventTbl s e) = NULL
      then pmsg else OSEventPtr (OSEventTbl s e))"
    and "fst (OSMboxPost (PEvent e) pmsg s) = (if wait_set s e \<noteq> {} then OS_ERR_NONE
      else if OSEventPtr (OSEventTbl s e) = NULL then OS_ERR_NONE else OS_ERR_MBOX_FULL)"
proof -
  have wf: "os_wf s" and ty: "OSEventType (OSEventTbl s e) = OS_EVENT_TYPE_MBOX"
    using ok by (auto simp: mbox_ok_def)
  note g = wait_empty_iff [OF wf]
  show "fst (OSMboxPost (PEvent e) pmsg s) = (if wait_set s e \<noteq> {} then OS_ERR_NONE
      else if OSEventPtr (OSEventTbl s e) = NULL then OS_ERR_NONE else OS_ERR_MBOX_FULL)"
    using msg by (simp add: OSMboxPost_def ty g)
  have "mbox_ok e s' \<and>
    wait_set s' e = (if wait_set s e = {} then {} else wait_set s e - {Min (wait_set s e)}) \<and>
    OSEventPtr (OSEventTbl s' e) = (if wait_set s e = {} \<and> OSEventPtr (OSEventTbl s e) = NULL
      then pmsg else OSEventPtr (OSEventTbl s e))"
  proof (cases "wait_set s e = {}")
    case True
    then have s': "s' = (if OSEventPtr (OSEventTbl s e) = NULL
        then upd_event e (\<lambda>ev. ev\<lparr>OSEventPtr := pmsg\<rparr>) s else s)"
      using msg by (simp add: s'_def OSMboxPost_def ty g)
    with True ok show ?thesis
      by (simp add: s' mbox_ok_def os_wf_upd_event_data ty)
  next
    case False
    define s1 where "s1 = snd (OS_EventTaskRdy e pmsg OS_STAT_MBOX OS_STAT_PEND_OK s)"
    note r = EventTaskRdy_sets [OF wf False, where pmsg = pmsg and msk = OS_STAT_MBOX and
        pend = OS_STAT_PEND_OK, folded s1_def]
    have s': "s' = OS_Sched s1"
      using False msg by (simp add: s'_def OSMboxPost_def ty g s1_def)
    with False r(1,2) event_data_eq [OF r(4)] ty show ?thesis
      by (simp add: s' mbox_ok_def)
  qed
  then show "mbox_ok e s'"
    and "wait_set s' e = (if wait_set s e = {} then {} else wait_set s e - {Min (wait_set s e)})"
    and "OSEventPtr (OSEventTbl s' e) = (if wait_set s e = {} \<and> OSEventPtr (OSEventTbl s e) = NULL
      then pmsg else OSEventPtr (OSEventTbl s e))"
    by blast+
qed

text \<open>A mailbox keeps the contract of a post, with capacity 1, whatever non-null message is posted.\<close>

interpretation mbox: wait_object "mbox_ok e" "\<lambda>s. wait_set s e" "mbox_count e" "\<lambda>_. 1"
    "\<lambda>s. snd (OSMboxPost (PEvent e) (if m = NULL then PWord 2 else m) s)" for e m
proof unfold_locales
  show "finite (wait_set s e)" if "mbox_ok e s" for s
    using that by (simp add: mbox_ok_def finite_wait_set)
qed (simp_all add: OSMboxPost_step mbox_count_def split: if_splits)

section \<open>Properties\<close>

text \<open>
  Handover through a mailbox.  The highest-priority task pends on an empty mailbox, another task
  posts a message: the pend call returns exactly that message with \<^verbatim>\<open>OS_ERR_NONE\<close>, the receiver runs
  again at once and the mailbox stays empty.
\<close>

theorem OSMbox_handover:
  assumes wf: "os_wf s" and run: "running s p i" and cs: "can_sched s"
    and ty: "OSEventType (OSEventTbl s e) = OS_EVENT_TYPE_MBOX"
    and empty: "OSEventPtr (OSEventTbl s e) = NULL" and msg: "m \<noteq> NULL"
    and top: "\<forall>q \<in> rdy_set s. p \<le> q" "\<forall>q \<in> wait_set s e. p < q" and left: "rdy_set s - {p} \<noteq> {}"
  shows "\<exists>s1 s2 s3. OSMboxPend (PEvent e) timeout True s = (Wait, s1) \<and>
    OSMboxPost (PEvent e) m s1 = (OS_ERR_NONE, s2) \<and>
    OSMboxPend_resume (PEvent e) s2 = (m, OS_ERR_NONE, s3) \<and> running s3 p i \<and> os_wf s3 \<and>
    OSEventPtr (OSEventTbl s3 e) = NULL"
proof -
  define s1 where "s1 = OS_Sched (pend_block e OS_STAT_MBOX timeout s)"
  define s2 where "s2 = OS_Sched (snd (OS_EventTaskRdy e m OS_STAT_MBOX OS_STAT_PEND_OK s1))"
  note h = pend_post_handover(1-3) [OF wf run cs top left, where stat = OS_STAT_MBOX and
      timeout = timeout, folded s1_def]
    pend_post_handover(4-9) [OF wf run cs top left, where stat = OS_STAT_MBOX and pmsg = m and
      timeout = timeout, folded s1_def, folded s2_def]
  have pend: "OSMboxPend (PEvent e) timeout True s = (Wait, s1)"
    using cs by (simp add: OSMboxPend_def ty empty s1_def can_sched_def)
  have post: "OSMboxPost (PEvent e) m s1 = (OS_ERR_NONE, s2)"
    using h(2) event_data_eq(1) [OF h(3)] ty msg by (simp add: OSMboxPost_def s2_def)
  note f = pend_finish_correct [OF h(4,5)]
  have cur2: "OSTCBCur s2 = PTcb i" using h(5) by (simp add: resumed_def)
  define s3 where "s3 = upd_tcb i (\<lambda>t. t\<lparr>OSTCBMsg := NULL\<rparr>) (snd (pend_finish e s2))"
  have res: "OSMboxPend_resume (PEvent e) s2 = (m, OS_ERR_NONE, s3)"
    using f(5) h(7,8) by (simp add: OSMboxPend_resume_def pend_finish_msg_eq [OF cur2] s3_def)
  have "OSEventTbl s3 = OSEventTbl s2"
    using h(7) cur2 by (simp add: s3_def pend_finish_def pend_clear_def)
  then have "OSEventPtr (OSEventTbl s3 e) = NULL"
    using event_data_eq(2) [OF h(9), of e] empty by simp
  with pend post res f(1,2) show ?thesis by (simp add: s3_def)
qed

theorem OSMbox_handover_witness:
  "\<exists>s1 s2 s3. OSMboxPend (PEvent 2) 50 True demo = (Wait, s1) \<and>
    OSMboxPost (PEvent 2) (PWord 9) s1 = (OS_ERR_NONE, s2) \<and>
    OSMboxPend_resume (PEvent 2) s2 = (PWord 9, OS_ERR_NONE, s3) \<and> running s3 5 0"
proof -
  have d: "OSEventType (OSEventTbl demo 2) = OS_EVENT_TYPE_MBOX" "OSEventPtr (OSEventTbl demo 2) = NULL"
    "PWord 9 \<noteq> NULL" "\<forall>q \<in> rdy_set demo. 5 \<le> q" "\<forall>q \<in> wait_set demo 2. 5 < q"
    "rdy_set demo - {5} \<noteq> {}"
    by (simp_all add: rdy_set_demo wait_set_demo) (simp_all add: demo_def event_zero_def)
  from OSMbox_handover [OF os_wf_demo running_demo can_sched_demo d] show ?thesis
    by metis
qed


text \<open>
  A broadcast through \<^verbatim>\<open>OSMboxPostOpt\<close> ends and delivers the message to every waiting task: the wait
  list is empty afterwards, each former waiter holds the message with status \<^verbatim>\<open>OS_STAT_PEND_OK\<close>, and
  exactly those that are not suspended have become ready; the mailbox itself keeps nothing.
\<close>

theorem OSMboxPostOpt_broadcast:
  assumes wf: "os_wf s" and ty: "OSEventType (OSEventTbl s e) = OS_EVENT_TYPE_MBOX"
    and w: "wait_set s e \<noteq> {}" and m: "m \<noteq> NULL" and opt: "opt AND OS_POST_OPT_BROADCAST \<noteq> 0"
  shows "\<exists>s'. OSMboxPostOpt (PEvent e) m opt s = Some (OS_ERR_NONE, s') \<and> os_wf s' \<and>
    wait_set s' e = {} \<and> rdy_set s' = rdy_set s \<union> released s (wait_set s e) OS_STAT_MBOX \<and>
    (\<forall>q \<in> wait_set s e. OSTCBMsg (task_at s' q) = m \<and>
       OSTCBStatPend (task_at s' q) = OS_STAT_PEND_OK) \<and>
    OSEventPtr (OSEventTbl s' e) = OSEventPtr (OSEventTbl s e)"
proof -
  obtain s1 where s1: "post_wake e m OS_STAT_MBOX opt s = Some s1" "os_wf s1" "wait_set s1 e = {}"
    "rdy_set s1 = rdy_set s \<union> released s (wait_set s e) OS_STAT_MBOX"
    "\<And>e'. event_data (OSEventTbl s1 e') = event_data (OSEventTbl s e')"
    "\<And>q. q \<in> wait_set s e \<Longrightarrow> OSTCBMsg (task_at s1 q) = m \<and> OSTCBStatPend (task_at s1 q) = OS_STAT_PEND_OK"
    by (rule post_wake_broadcast [OF wf opt]) blast
  let ?s' = "if opt AND OS_POST_OPT_NO_SCHED = 0 then OS_Sched s1 else s1"
  have "OSMboxPostOpt (PEvent e) m opt s = Some (OS_ERR_NONE, ?s')"
    using wait_empty_iff [OF wf] w m s1(1) by (simp add: OSMboxPostOpt_def ty)
  moreover have "OSTCBMsg (task_at (OS_Sched s1) q) = OSTCBMsg (task_at s1 q)"
    "OSTCBStatPend (task_at (OS_Sched s1) q) = OSTCBStatPend (task_at s1 q)" for q
    using tcb_core_fields(3,5) [OF task_at_sched [of s1 q]] by simp_all
  ultimately show ?thesis
    using s1(2-4,6) event_data_eq(2) [OF s1(5), of e] by (intro exI [of _ ?s']) simp
qed

text \<open>The demo state after its running task has pended on the empty mailbox.\<close>

lemma demo_mbox_wait:
  defines "t \<equiv> OS_Sched (pend_block 2 OS_STAT_MBOX 0 demo)"
  shows "os_wf t" "OSEventType (OSEventTbl t 2) = OS_EVENT_TYPE_MBOX" "wait_set t 2 = {5}"
proof -
  have ne: "rdy_set demo - {5} \<noteq> {}" by (simp add: rdy_set_demo)
  note b = pend_block_sched [OF os_wf_demo running_demo can_sched_demo ne, where e = 2 and
      stat = OS_STAT_MBOX and timeout = 0, folded t_def]
  show "os_wf t" "wait_set t 2 = {5}" using b(1,3) by (simp_all add: wait_set_demo)
  show "OSEventType (OSEventTbl t 2) = OS_EVENT_TYPE_MBOX"
    using event_data_eq(1) [OF b(5), of 2] by (simp add: demo_def event_zero_def)
qed

theorem OSMboxPostOpt_broadcast_witness:
  "\<exists>s'. OSMboxPostOpt (PEvent 2) (PWord 9) OS_POST_OPT_BROADCAST
      (OS_Sched (pend_block 2 OS_STAT_MBOX 0 demo)) = Some (OS_ERR_NONE, s') \<and>
    OSTCBMsg (task_at s' 5) = PWord 9"
  using OSMboxPostOpt_broadcast [OF demo_mbox_wait(1,2), of "PWord 9" OS_POST_OPT_BROADCAST]
    demo_mbox_wait(3)
  by auto

end
