(* ===== verification/Os_Q.thy ===== *)
theory Os_Q
  imports Os_Event
begin

text \<open>
  os_q.c: message queues.  A queue stores its messages in a circular buffer, whose cells \<^verbatim>\<open>OSQStart\<close>
  to \<^verbatim>\<open>OSQEnd - 1\<close> live in \<open>OSQStore\<close>.  The buffer operations are functions on a control block and
  the store; they refine operations on lists, and the kernel calls use them.
\<close>

section \<open>The circular buffer\<close>

type_synonym ring = "OS_Q \<times> (nat \<Rightarrow> ptr)"

text \<open>\<^verbatim>\<open>*pq->OSQIn++ = pmsg; pq->OSQEntries++; if (pq->OSQIn == pq->OSQEnd) pq->OSQIn = pq->OSQStart;\<close>\<close>

definition ring_put :: "ptr \<Rightarrow> ring \<Rightarrow> ring" where
  "ring_put pmsg r =
     (let (q, st) = r;
          st1 = st(OSQIn q := pmsg);
          q1 = q\<lparr>OSQIn := OSQIn q + 1\<rparr>;
          q2 = q1\<lparr>OSQEntries := OSQEntries q1 + 1\<rparr>
      in (if OSQIn q2 = OSQEnd q2 then q2\<lparr>OSQIn := OSQStart q2\<rparr> else q2, st1))"

text \<open>\<^verbatim>\<open>if (OSQOut == OSQStart) OSQOut = OSQEnd; OSQOut--; *OSQOut = pmsg; OSQEntries++;\<close>\<close>

definition ring_put_front :: "ptr \<Rightarrow> ring \<Rightarrow> ring" where
  "ring_put_front pmsg r =
     (let (q, st) = r;
          q1 = (if OSQOut q = OSQStart q then q\<lparr>OSQOut := OSQEnd q\<rparr> else q);
          q2 = q1\<lparr>OSQOut := OSQOut q1 - 1\<rparr>;
          st1 = st(OSQOut q2 := pmsg)
      in (q2\<lparr>OSQEntries := OSQEntries q2 + 1\<rparr>, st1))"

text \<open>\<^verbatim>\<open>pmsg = *pq->OSQOut++; pq->OSQEntries--; if (OSQOut == OSQEnd) OSQOut = OSQStart;\<close>\<close>

definition ring_take :: "ring \<Rightarrow> ptr \<times> ring" where
  "ring_take r =
     (let (q, st) = r;
          pmsg = st (OSQOut q);
          q1 = q\<lparr>OSQOut := OSQOut q + 1\<rparr>;
          q2 = q1\<lparr>OSQEntries := OSQEntries q1 - 1\<rparr>
      in (pmsg, if OSQOut q2 = OSQEnd q2 then q2\<lparr>OSQOut := OSQStart q2\<rparr> else q2, st))"

text \<open>\<^verbatim>\<open>OSQIn = OSQStart; OSQOut = OSQStart; OSQEntries = 0;\<close>\<close>

definition ring_flush :: "ring \<Rightarrow> ring" where
  "ring_flush r =
     (let (q, st) = r in (q\<lparr>OSQIn := OSQStart q, OSQOut := OSQStart q, OSQEntries := 0\<rparr>, st))"

section \<open>The interface: a bounded queue that can also be filled at the front\<close>

locale bounded_queue =
  fixes inv :: "'s \<Rightarrow> bool"
    and abs :: "'s \<Rightarrow> 'a list"
    and cap :: "'s \<Rightarrow> nat"
    and put :: "'a \<Rightarrow> 's \<Rightarrow> 's"
    and put_front :: "'a \<Rightarrow> 's \<Rightarrow> 's"
    and take_out :: "'s \<Rightarrow> 'a \<times> 's"
    and flush :: "'s \<Rightarrow> 's"
  assumes put: "inv s \<Longrightarrow> length (abs s) < cap s \<Longrightarrow>
      inv (put x s) \<and> abs (put x s) = abs s @ [x] \<and> cap (put x s) = cap s"
    and put_front: "inv s \<Longrightarrow> length (abs s) < cap s \<Longrightarrow>
      inv (put_front x s) \<and> abs (put_front x s) = x # abs s \<and> cap (put_front x s) = cap s"
    and take_out: "inv s \<Longrightarrow> abs s = x # xs \<Longrightarrow>
      inv (snd (take_out s)) \<and> fst (take_out s) = x \<and> abs (snd (take_out s)) = xs \<and>
      cap (snd (take_out s)) = cap s"
    and flush: "inv s \<Longrightarrow> inv (flush s) \<and> abs (flush s) = [] \<and> cap (flush s) = cap s"
    and len: "inv s \<Longrightarrow> length (abs s) \<le> cap s"
begin

fun puts :: "'a list \<Rightarrow> 's \<Rightarrow> 's" where
  "puts [] s = s"
| "puts (x # xs) s = puts xs (put x s)"

fun takes :: "nat \<Rightarrow> 's \<Rightarrow> 'a list \<times> 's" where
  "takes 0 s = ([], s)"
| "takes (Suc n) s = (let (x, s1) = take_out s; (xs, s2) = takes n s1 in (x # xs, s2))"

lemma puts_append:
  "inv s \<Longrightarrow> length (abs s) + length xs \<le> cap s \<Longrightarrow>
     inv (puts xs s) \<and> abs (puts xs s) = abs s @ xs \<and> cap (puts xs s) = cap s"
proof (induction xs arbitrary: s)
  case (Cons x xs)
  with put [OF Cons.prems(1), of x] show ?case by simp
qed simp

lemma takes_prefix:
  "inv s \<Longrightarrow> abs s = xs @ ys \<Longrightarrow> fst (takes (length xs) s) = xs \<and> abs (snd (takes (length xs) s)) = ys \<and>
     inv (snd (takes (length xs) s))"
proof (induction xs arbitrary: s)
  case (Cons x xs)
  with take_out [OF Cons.prems(1), of x "xs @ ys"] Cons.IH [of "snd (take_out s)"]
  show ?case by (simp add: Let_def case_prod_unfold)
qed simp

text \<open>First in, first out: what was already there comes first, then the new elements in order.\<close>

lemma fifo:
  assumes "inv s" "length (abs s) + length xs \<le> cap s"
  shows "fst (takes (length (abs s @ xs)) (puts xs s)) = abs s @ xs"
  using puts_append [OF assms] takes_prefix [of "puts xs s" "abs s @ xs" "[]"] by simp

end

section \<open>The circular buffer is a bounded queue\<close>

definition ring_wf :: "ring \<Rightarrow> bool" where
  "ring_wf r = (let (q, st) = r in
     OSQEnd q = OSQStart q + unat (OSQSize q) \<and> OSQEntries q \<le> OSQSize q \<and>
     (if OSQSize q = 0 then OSQIn q = OSQStart q \<and> OSQOut q = OSQStart q
      else OSQStart q \<le> OSQOut q \<and> OSQOut q < OSQEnd q \<and>
        OSQIn q = OSQStart q + (OSQOut q - OSQStart q + unat (OSQEntries q)) mod unat (OSQSize q)))"

text \<open>The \<open>k\<close>-th cell from \<^verbatim>\<open>OSQOut\<close>, and the messages from there on.\<close>

definition ring_cell :: "OS_Q \<Rightarrow> nat \<Rightarrow> nat" where
  "ring_cell q k = OSQStart q + (OSQOut q - OSQStart q + k) mod unat (OSQSize q)"

definition ring_list :: "ring \<Rightarrow> ptr list" where
  "ring_list r = (let (q, st) = r in map (\<lambda>k. st (ring_cell q k)) [0..<unat (OSQEntries q)])"

definition ring_cap :: "ring \<Rightarrow> nat" where
  "ring_cap r = unat (OSQSize (fst r))"

lemma length_ring_list [simp]: "length (ring_list (q, st)) = unat (OSQEntries q)"
  by (simp add: ring_list_def)

text \<open>The three operations with their fields written once.\<close>

lemma ring_put_eq:
  "ring_put m (q, st) = (q\<lparr>OSQIn := (if Suc (OSQIn q) = OSQEnd q then OSQStart q else Suc (OSQIn q)),
     OSQEntries := OSQEntries q + 1\<rparr>, st(OSQIn q := m))"
  by (simp add: ring_put_def Let_def)

lemma ring_put_front_eq:
  "ring_put_front m (q, st) =
     (let o' = (if OSQOut q = OSQStart q then OSQEnd q else OSQOut q) - 1
      in (q\<lparr>OSQOut := o', OSQEntries := OSQEntries q + 1\<rparr>, st(o' := m)))"
  by (simp add: ring_put_front_def Let_def)

lemma ring_take_eq:
  "ring_take (q, st) = (st (OSQOut q),
     q\<lparr>OSQOut := (if Suc (OSQOut q) = OSQEnd q then OSQStart q else Suc (OSQOut q)),
       OSQEntries := OSQEntries q - 1\<rparr>, st)"
  by (simp add: ring_take_def Let_def)

text \<open>A non-empty buffer seen through the offset of \<^verbatim>\<open>OSQOut\<close>.\<close>

lemma ring_wf_offset:
  assumes "unat (OSQSize q) > 0"
  shows "ring_wf (q, st) \<longleftrightarrow> (\<exists>k. OSQEnd q = OSQStart q + unat (OSQSize q) \<and>
    unat (OSQEntries q) \<le> unat (OSQSize q) \<and> OSQOut q = OSQStart q + k \<and> k < unat (OSQSize q) \<and>
    OSQIn q = OSQStart q + (k + unat (OSQEntries q)) mod unat (OSQSize q))"
proof -
  have "OSQSize q \<noteq> 0" using assms by auto
  then show ?thesis
    by (auto simp: ring_wf_def word_le_nat_alt nat_le_iff_add)
qed

lemma next_offset: "i < n \<Longrightarrow> (if Suc i = n then 0 else Suc i) = Suc i mod (n :: nat)"
  by auto

lemma ring_cell_offset: "OSQOut q = OSQStart q + k \<Longrightarrow>
    ring_cell q j = OSQStart q + (k + j) mod unat (OSQSize q)"
  by (simp add: ring_cell_def)

lemma mod_offset_neq:
  assumes "j < i" "i < j + (n :: nat)"
  shows "(k + j) mod n \<noteq> (k + i) mod n"
proof
  assume "(k + j) mod n = (k + i) mod n"
  then have "n dvd (k + i) - (k + j)"
    using assms by (metis mod_eq_dvd_iff_nat add_le_cancel_left less_imp_le)
  then show False using assms by (auto dest: dvd_imp_le)
qed

lemma ring_put_law:
  assumes wf: "ring_wf (q, st)" and room: "unat (OSQEntries q) < unat (OSQSize q)"
  shows "ring_wf (ring_put m (q, st)) \<and> ring_list (ring_put m (q, st)) = ring_list (q, st) @ [m] \<and>
    ring_cap (ring_put m (q, st)) = ring_cap (q, st)"
proof -
  let ?n = "unat (OSQSize q)" and ?e = "unat (OSQEntries q)"
  have n: "?n > 0" using room by simp
  obtain k where k: "OSQEnd q = OSQStart q + ?n" "OSQOut q = OSQStart q + k" "k < ?n"
    "OSQIn q = OSQStart q + (k + ?e) mod ?n"
    using wf ring_wf_offset [OF n] by blast
  have ent: "unat (OSQEntries q + 1) = Suc ?e"
    using room unat_lt_65536 [of "OSQSize q"] by (simp add: unat_word_ariths del: unat_lt_65536)
  define q' where "q' = fst (ring_put m (q, st))"
  have q': "OSQStart q' = OSQStart q" "OSQEnd q' = OSQEnd q" "OSQSize q' = OSQSize q"
    "OSQOut q' = OSQOut q" "unat (OSQEntries q') = Suc ?e"
    "OSQIn q' = OSQStart q + Suc (k + ?e) mod ?n"
    using next_offset [of "(k + ?e) mod ?n" ?n] n
    by (simp_all add: q'_def ring_put_eq ent k mod_Suc_eq split: if_splits)
  have eq: "ring_put m (q, st) = (q', st(OSQIn q := m))"
    by (simp add: q'_def ring_put_eq)
  have "ring_wf (q', st(OSQIn q := m))"
    using ring_wf_offset [of q'] n q' k room by auto
  moreover have "ring_list (q', st(OSQIn q := m)) = ring_list (q, st) @ [m]"
  proof -
    have cell: "ring_cell q' j = ring_cell q j" for j
      using k(2) q' by (simp add: ring_cell_offset)
    have neq: "ring_cell q j \<noteq> OSQIn q" if "j < ?e" for j
      using mod_offset_neq [OF that, of ?n k] room k by (simp add: ring_cell_offset)
    have "map (\<lambda>j. (st(OSQIn q := m)) (ring_cell q j)) [0..<?e] =
        map (\<lambda>j. st (ring_cell q j)) [0..<?e]"
      by (rule map_cong) (use neq in auto)
    moreover have "(st(OSQIn q := m)) (ring_cell q ?e) = m"
      using k(4) by (simp add: ring_cell_offset [OF k(2)])
    ultimately show ?thesis
      unfolding ring_list_def Let_def prod.case cell q'(5) by (simp only: upt_Suc) simp
  qed
  ultimately show ?thesis
    by (simp add: eq ring_cap_def q')
qed

lemma map_shift: "map f [0..<Suc n] = f 0 # map (\<lambda>k. f (Suc k)) [0..<n]"
  by (simp add: upt_conv_Cons map_Suc_upt [symmetric] comp_def del: upt_Suc)

lemma ring_take_law:
  assumes wf: "ring_wf (q, st)" and l: "ring_list (q, st) = x # xs"
  shows "ring_wf (snd (ring_take (q, st))) \<and> fst (ring_take (q, st)) = x \<and>
    ring_list (snd (ring_take (q, st))) = xs \<and> ring_cap (snd (ring_take (q, st))) = ring_cap (q, st)"
proof -
  let ?n = "unat (OSQSize q)" and ?e = "unat (OSQEntries q)"
  have pos: "0 < ?e"
    using arg_cong [OF l, of length] by simp
  have le: "?e \<le> ?n" using wf by (simp add: ring_wf_def word_le_nat_alt)
  with pos have n: "?n > 0" by simp
  obtain k where k: "OSQEnd q = OSQStart q + ?n" "OSQOut q = OSQStart q + k" "k < ?n"
    "OSQIn q = OSQStart q + (k + ?e) mod ?n"
    using wf ring_wf_offset [OF n] by blast
  have ent: "unat (OSQEntries q - 1) = ?e - 1"
    using pos by (simp add: unat_minus_one unat_gt_0)
  define q' where "q' = fst (snd (ring_take (q, st)))"
  have q': "OSQStart q' = OSQStart q" "OSQEnd q' = OSQEnd q" "OSQSize q' = OSQSize q"
    "OSQIn q' = OSQIn q" "unat (OSQEntries q') = ?e - 1" "OSQOut q' = OSQStart q + Suc k mod ?n"
    using next_offset [of k ?n] k(3) by (simp_all add: q'_def ring_take_eq ent k split: if_splits)
  have eq: "ring_take (q, st) = (st (OSQOut q), q', st)"
    by (simp add: q'_def ring_take_eq)
  have "ring_wf (q', st)"
  proof -
    obtain e' where e': "?e = Suc e'" using pos gr0_implies_Suc by blast
    then have "(k + ?e) mod ?n = (Suc k mod ?n + e') mod ?n"
      by (simp add: mod_add_left_eq)
    then show ?thesis
      using ring_wf_offset [of q' st] n q' k le e' by auto
  qed
  moreover have "ring_list (q, st) = st (OSQOut q) # ring_list (q', st)"
  proof -
    have cells: "ring_cell q' j = ring_cell q (Suc j)" for j
      by (simp add: ring_cell_offset [OF k(2)] ring_cell_offset [OF q'(6) [folded q'(1)]] q'
          mod_add_left_eq)
    have "?e = Suc (?e - 1)" using pos by simp
    then have "ring_list (q, st) = map (\<lambda>k. st (ring_cell q k)) [0..<Suc (?e - 1)]"
      by (simp add: ring_list_def)
    also have "\<dots> = st (ring_cell q 0) # map (\<lambda>k. st (ring_cell q (Suc k))) [0..<?e - 1]"
      by (rule map_shift)
    finally show ?thesis
      using k(3) by (simp add: ring_list_def q' cells ring_cell_offset [OF k(2)] k(2))
  qed
  ultimately show ?thesis
    using l by (simp add: eq ring_cap_def q')
qed


lemma ring_put_front_law:
  assumes wf: "ring_wf (q, st)" and room: "unat (OSQEntries q) < unat (OSQSize q)"
  shows "ring_wf (ring_put_front m (q, st)) \<and>
    ring_list (ring_put_front m (q, st)) = m # ring_list (q, st) \<and>
    ring_cap (ring_put_front m (q, st)) = ring_cap (q, st)"
proof -
  let ?n = "unat (OSQSize q)" and ?e = "unat (OSQEntries q)"
  have n: "?n > 0" using room by simp
  obtain k where k: "OSQEnd q = OSQStart q + ?n" "OSQOut q = OSQStart q + k" "k < ?n"
    "OSQIn q = OSQStart q + (k + ?e) mod ?n"
    using wf ring_wf_offset [OF n] by blast
  have ent: "unat (OSQEntries q + 1) = Suc ?e"
    using room unat_lt_65536 [of "OSQSize q"] by (simp add: unat_word_ariths del: unat_lt_65536)
  obtain n' where n': "?n = Suc n'" using n gr0_implies_Suc by blast
  define k' where "k' = (k + n') mod ?n"
  have k'': "k' = (if k = 0 then n' else k - 1)"
    using k(3) mod_add_self2 [of "k - 1" "Suc n'"] by (cases k) (auto simp: k'_def n')
  have succ: "(k' + Suc j) mod ?n = (k + j) mod ?n" for j
  proof -
    have "(k' + Suc j) mod ?n = (k + n' + Suc j) mod ?n"
      unfolding k'_def by (rule mod_add_left_eq)
    also have "k + n' + Suc j = (k + j) + ?n" by (simp add: n')
    finally show ?thesis by simp
  qed
  define q' where "q' = q\<lparr>OSQOut := OSQStart q + k', OSQEntries := OSQEntries q + 1\<rparr>"
  have "(if OSQOut q = OSQStart q then OSQEnd q else OSQOut q) - 1 = OSQStart q + k'"
    using k by (simp add: k'' n')
  then have eq: "ring_put_front m (q, st) = (q', st(OSQStart q + k' := m))"
    by (simp add: ring_put_front_eq q'_def Let_def)
  have q': "OSQStart q' = OSQStart q" "OSQEnd q' = OSQEnd q" "OSQSize q' = OSQSize q"
    "OSQIn q' = OSQIn q" "unat (OSQEntries q') = Suc ?e" "OSQOut q' = OSQStart q + k'"
    by (simp_all add: q'_def ent)
  have k'lt: "k' < ?n" using n by (simp add: k'_def)
  have "ring_wf (q', st(OSQStart q + k' := m))"
    using ring_wf_offset [of q'] n q' k k'lt room succ by auto
  moreover have "ring_list (q', st(OSQStart q + k' := m)) = m # ring_list (q, st)"
  proof -
    have c0: "ring_cell q' 0 = OSQStart q + k'"
      using k'lt q' by (simp add: ring_cell_offset [of q' k'])
    have cS: "ring_cell q' (Suc j) = ring_cell q j" for j
      using q' k(2) succ by (simp add: ring_cell_offset [of q' k'] ring_cell_offset [of q k])
    have neq: "ring_cell q j \<noteq> OSQStart q + k'" if "j < ?e" for j
      using mod_offset_neq [of j n' ?n k] that room n' by (simp add: ring_cell_offset [OF k(2)] k'_def)
    have "map (\<lambda>j. (st(OSQStart q + k' := m)) (ring_cell q j)) [0..<?e] =
        map (\<lambda>j. st (ring_cell q j)) [0..<?e]"
      by (rule map_cong) (use neq in auto)
    then show ?thesis
      unfolding ring_list_def Let_def prod.case q'(5) map_shift c0 cS by simp
  qed
  ultimately show ?thesis
    by (simp add: eq ring_cap_def q')
qed

lemma ring_flush_law:
  "ring_wf (q, st) \<Longrightarrow> ring_wf (ring_flush (q, st)) \<and> ring_list (ring_flush (q, st)) = [] \<and>
     ring_cap (ring_flush (q, st)) = ring_cap (q, st)"
  by (auto simp: ring_wf_def ring_flush_def ring_list_def ring_cap_def word_le_nat_alt unat_gt_0
      split: if_splits)

lemma ring_len: "ring_wf r \<Longrightarrow> length (ring_list r) \<le> ring_cap r"
  by (cases r) (auto simp: ring_wf_def ring_cap_def word_le_nat_alt)

interpretation ring: bounded_queue ring_wf ring_list ring_cap ring_put ring_put_front ring_take ring_flush
proof
  fix r :: ring and x
  obtain q st where r: "r = (q, st)" by (cases r)
  show "ring_wf r \<Longrightarrow> length (ring_list r) < ring_cap r \<Longrightarrow>
      ring_wf (ring_put x r) \<and> ring_list (ring_put x r) = ring_list r @ [x] \<and>
      ring_cap (ring_put x r) = ring_cap r"
    unfolding r by (rule ring_put_law) (simp_all add: ring_cap_def)
  show "ring_wf r \<Longrightarrow> length (ring_list r) < ring_cap r \<Longrightarrow>
      ring_wf (ring_put_front x r) \<and> ring_list (ring_put_front x r) = x # ring_list r \<and>
      ring_cap (ring_put_front x r) = ring_cap r"
    unfolding r by (rule ring_put_front_law) (simp_all add: ring_cap_def)
  show "ring_wf r \<Longrightarrow> ring_wf (ring_flush r) \<and> ring_list (ring_flush r) = [] \<and>
      ring_cap (ring_flush r) = ring_cap r"
    unfolding r by (rule ring_flush_law)
next
  fix r :: ring and x xs
  obtain q st where r: "r = (q, st)" by (cases r)
  show "ring_wf r \<Longrightarrow> ring_list r = x # xs \<Longrightarrow>
      ring_wf (snd (ring_take r)) \<and> fst (ring_take r) = x \<and> ring_list (snd (ring_take r)) = xs \<and>
      ring_cap (snd (ring_take r)) = ring_cap r"
    unfolding r by (rule ring_take_law)
qed (rule ring_len)


section \<open>Operations\<close>

text \<open>The ring of queue \<open>q\<close> in the kernel state, and running a ring operation on it.\<close>

definition get_ring :: "nat \<Rightarrow> os_state \<Rightarrow> ring" where
  "get_ring q s = (OSQTbl s q, OSQStore s)"

definition set_ring :: "nat \<Rightarrow> ring \<Rightarrow> os_state \<Rightarrow> os_state" where
  "set_ring q r s = s\<lparr>OSQTbl := (OSQTbl s)(q := fst r), OSQStore := snd r\<rparr>"

text \<open>\<^verbatim>\<open>pq = (OS_Q *)pevent->OSEventPtr;\<close>\<close>

abbreviation ev_q :: "os_state \<Rightarrow> nat \<Rightarrow> nat" where
  "ev_q s e \<equiv> q_of (OSEventPtr (OSEventTbl s e))"

definition OSQAccept :: "ptr \<Rightarrow> bool \<Rightarrow> os_state \<Rightarrow> ptr \<times> os_err option \<times> os_state" where
  "OSQAccept pevent perr s =
     (if \<not> perr then (NULL, None, s)
      else if pevent = NULL then (NULL, Some OS_ERR_PEVENT_NULL, s)
      else
        let e = event_of pevent
        in if OSEventType (OSEventTbl s e) \<noteq> OS_EVENT_TYPE_Q then (NULL, Some OS_ERR_EVENT_TYPE, s)
           else
             let q = ev_q s e
             in if OSQEntries (OSQTbl s q) > 0 then
                  let (pmsg, r) = ring_take (get_ring q s)
                  in (pmsg, Some OS_ERR_NONE, set_ring q r s)
                else (NULL, Some OS_ERR_Q_EMPTY, s))"

definition OSQCreate :: "nat \<Rightarrow> u16 \<Rightarrow> os_state \<Rightarrow> ptr \<times> os_state" where
  "OSQCreate start qsize s =
     (if OSIntNesting s > 0 then (NULL, s)
      else
        let (pevent, s1) = event_get s
        in if pevent \<noteq> NULL then
             let e = event_of pevent; pq = OSQFreeList s1
             in if pq \<noteq> NULL then
                  let q = q_of pq;
                      s2 = s1\<lparr>OSQFreeList := OSQPtr (OSQTbl s1 (q_of (OSQFreeList s1)))\<rparr>;
                      s3 = upd_q q (\<lambda>r. r\<lparr>OSQStart := start, OSQEnd := start + unat qsize,
                             OSQIn := start, OSQOut := start, OSQSize := qsize, OSQEntries := 0\<rparr>) s2;
                      s4 = upd_event e (\<lambda>ev. ev\<lparr>OSEventType := OS_EVENT_TYPE_Q, OSEventCnt := 0,
                             OSEventPtr := pq, OSEventName := name_unknown (OSEventName ev)\<rparr>) s3
                  in (pevent, OS_EventWaitListInit e s4)
                else
                  (NULL, (upd_event e (\<lambda>ev. ev\<lparr>OSEventPtr := OSEventFreeList s1\<rparr>) s1)
                     \<lparr>OSEventFreeList := pevent\<rparr>)
           else (pevent, s1))"

text \<open>The end of a deletion: both control blocks go back to their free lists.\<close>

definition q_put_back :: "nat \<Rightarrow> os_state \<Rightarrow> os_state" where
  "q_put_back e s =
     (let pq = OSEventPtr (OSEventTbl s e);
          s1 = (upd_q (q_of pq) (\<lambda>r. r\<lparr>OSQPtr := OSQFreeList s\<rparr>) s)\<lparr>OSQFreeList := pq\<rparr>
      in event_put e s1)"

definition OSQDel :: "ptr \<Rightarrow> u8 \<Rightarrow> bool \<Rightarrow> os_state \<Rightarrow> (ptr \<times> os_err option \<times> os_state) option" where
  "OSQDel pevent opt perr s =
     (if \<not> perr then Some (pevent, None, s)
      else if pevent = NULL then Some (pevent, Some OS_ERR_PEVENT_NULL, s)
      else
        let e = event_of pevent
        in if OSEventType (OSEventTbl s e) \<noteq> OS_EVENT_TYPE_Q
           then Some (pevent, Some OS_ERR_EVENT_TYPE, s)
           else if OSIntNesting s > 0 then Some (pevent, Some OS_ERR_DEL_ISR, s)
           else
             let tasks_waiting = Grp (wait_of s e) \<noteq> 0
             in if opt = OS_DEL_NO_PEND then
                  if \<not> tasks_waiting then Some (NULL, Some OS_ERR_NONE, q_put_back e s)
                  else Some (pevent, Some OS_ERR_TASK_WAITING, s)
                else if opt = OS_DEL_ALWAYS then
                  (case rdy_all 24 e NULL OS_STAT_Q OS_STAT_PEND_OK s of
                     None \<Rightarrow> None
                   | Some (_, s1) \<Rightarrow>
                       let s2 = q_put_back e s1
                       in Some (NULL, Some OS_ERR_NONE, if tasks_waiting then OS_Sched s2 else s2))
                else Some (pevent, Some OS_ERR_INVALID_OPT, s))"

definition OSQFlush :: "ptr \<Rightarrow> os_state \<Rightarrow> os_err \<times> os_state" where
  "OSQFlush pevent s =
     (if pevent = NULL then (OS_ERR_PEVENT_NULL, s)
      else
        let e = event_of pevent
        in if OSEventType (OSEventTbl s e) \<noteq> OS_EVENT_TYPE_Q then (OS_ERR_EVENT_TYPE, s)
           else (OS_ERR_NONE, set_ring (ev_q s e) (ring_flush (get_ring (ev_q s e) s)) s))"

definition OSQPend :: "ptr \<Rightarrow> u16 \<Rightarrow> bool \<Rightarrow> os_state \<Rightarrow> (ptr \<times> os_err option) call \<times> os_state" where
  "OSQPend pevent timeout perr s =
     (if \<not> perr then (Done (NULL, None), s)
      else if pevent = NULL then (Done (NULL, Some OS_ERR_PEVENT_NULL), s)
      else
        let e = event_of pevent
        in if OSEventType (OSEventTbl s e) \<noteq> OS_EVENT_TYPE_Q
           then (Done (NULL, Some OS_ERR_EVENT_TYPE), s)
           else if OSIntNesting s > 0 then (Done (NULL, Some OS_ERR_PEND_ISR), s)
           else if OSLockNesting s > 0 then (Done (NULL, Some OS_ERR_PEND_LOCKED), s)
           else
             let q = ev_q s e
             in if OSQEntries (OSQTbl s q) > 0 then
                  let (pmsg, r) = ring_take (get_ring q s)
                  in (Done (pmsg, Some OS_ERR_NONE), set_ring q r s)
                else (Wait, OS_Sched (pend_block e OS_STAT_Q timeout s)))"

definition OSQPend_resume :: "ptr \<Rightarrow> os_state \<Rightarrow> ptr \<times> os_err \<times> os_state" where
  "OSQPend_resume pevent s = pend_finish_msg (event_of pevent) s"

definition OSQPendAbort ::
  "ptr \<Rightarrow> u8 \<Rightarrow> bool \<Rightarrow> os_state \<Rightarrow> (u8 \<times> os_err option \<times> os_state) option" where
  "OSQPendAbort pevent opt perr s =
     (if \<not> perr then Some (0, None, s)
      else if pevent = NULL then Some (0, Some OS_ERR_PEVENT_NULL, s)
      else
        let e = event_of pevent
        in if OSEventType (OSEventTbl s e) \<noteq> OS_EVENT_TYPE_Q
           then Some (0, Some OS_ERR_EVENT_TYPE, s)
           else
             (case pend_abort e opt OS_STAT_Q s of
                None \<Rightarrow> None
              | Some (err, nbr_tasks, s') \<Rightarrow> Some (nbr_tasks, Some err, s')))"

definition OSQPost :: "ptr \<Rightarrow> ptr \<Rightarrow> os_state \<Rightarrow> os_err \<times> os_state" where
  "OSQPost pevent pmsg s =
     (if pevent = NULL then (OS_ERR_PEVENT_NULL, s)
      else
        let e = event_of pevent
        in if OSEventType (OSEventTbl s e) \<noteq> OS_EVENT_TYPE_Q then (OS_ERR_EVENT_TYPE, s)
           else if Grp (wait_of s e) \<noteq> 0 then
             (OS_ERR_NONE, OS_Sched (snd (OS_EventTaskRdy e pmsg OS_STAT_Q OS_STAT_PEND_OK s)))
           else
             let q = ev_q s e
             in if OSQEntries (OSQTbl s q) \<ge> OSQSize (OSQTbl s q) then (OS_ERR_Q_FULL, s)
                else (OS_ERR_NONE, set_ring q (ring_put pmsg (get_ring q s)) s))"

definition OSQPostFront :: "ptr \<Rightarrow> ptr \<Rightarrow> os_state \<Rightarrow> os_err \<times> os_state" where
  "OSQPostFront pevent pmsg s =
     (if pevent = NULL then (OS_ERR_PEVENT_NULL, s)
      else
        let e = event_of pevent
        in if OSEventType (OSEventTbl s e) \<noteq> OS_EVENT_TYPE_Q then (OS_ERR_EVENT_TYPE, s)
           else if Grp (wait_of s e) \<noteq> 0 then
             (OS_ERR_NONE, OS_Sched (snd (OS_EventTaskRdy e pmsg OS_STAT_Q OS_STAT_PEND_OK s)))
           else
             let q = ev_q s e
             in if OSQEntries (OSQTbl s q) \<ge> OSQSize (OSQTbl s q) then (OS_ERR_Q_FULL, s)
                else (OS_ERR_NONE, set_ring q (ring_put_front pmsg (get_ring q s)) s))"

definition OSQPostOpt :: "ptr \<Rightarrow> ptr \<Rightarrow> u8 \<Rightarrow> os_state \<Rightarrow> (os_err \<times> os_state) option" where
  "OSQPostOpt pevent pmsg opt s =
     (if pevent = NULL then Some (OS_ERR_PEVENT_NULL, s)
      else
        let e = event_of pevent
        in if OSEventType (OSEventTbl s e) \<noteq> OS_EVENT_TYPE_Q then Some (OS_ERR_EVENT_TYPE, s)
           else if Grp (wait_of s e) \<noteq> 0 then
             (case post_wake e pmsg OS_STAT_Q opt s of
                None \<Rightarrow> None
              | Some s1 \<Rightarrow> Some (OS_ERR_NONE,
                  if opt AND OS_POST_OPT_NO_SCHED = 0 then OS_Sched s1 else s1))
           else
             let q = ev_q s e
             in if OSQEntries (OSQTbl s q) \<ge> OSQSize (OSQTbl s q) then Some (OS_ERR_Q_FULL, s)
                else if opt AND OS_POST_OPT_FRONT \<noteq> 0
                then Some (OS_ERR_NONE, set_ring q (ring_put_front pmsg (get_ring q s)) s)
                else Some (OS_ERR_NONE, set_ring q (ring_put pmsg (get_ring q s)) s))"

record OS_Q_DATA =
  QD_OSMsg :: ptr
  QD_OSNMsgs :: u16
  QD_OSQSize :: u16
  QD_OSEventWait :: prio_map

definition OSQQuery :: "ptr \<Rightarrow> bool \<Rightarrow> os_state \<Rightarrow> os_err \<times> OS_Q_DATA option" where
  "OSQQuery pevent p_q_data s =
     (if pevent = NULL then (OS_ERR_PEVENT_NULL, None)
      else if \<not> p_q_data then (OS_ERR_PDATA_NULL, None)
      else
        let e = event_of pevent; ev = OSEventTbl s e
        in if OSEventType ev \<noteq> OS_EVENT_TYPE_Q then (OS_ERR_EVENT_TYPE, None)
           else
             let pq = OSQTbl s (ev_q s e)
             in (OS_ERR_NONE, Some
                  \<lparr>QD_OSMsg = (if OSQEntries pq > 0 then OSQStore s (OSQOut pq) else NULL),
                   QD_OSNMsgs = OSQEntries pq, QD_OSQSize = OSQSize pq, QD_OSEventWait =
                     \<lparr>Grp = Grp (OSEventWait ev), Tbl = take OS_EVENT_TBL_SIZE (Tbl (OSEventWait ev))\<rparr>\<rparr>))"

text \<open>The loop that links \<^verbatim>\<open>OSQTbl[0]\<close> to \<^verbatim>\<open>OSQTbl[OS_MAX_QS - 1]\<close>, from index \<open>i\<close> on.\<close>

fun q_link :: "nat \<Rightarrow> nat \<Rightarrow> (nat \<Rightarrow> OS_Q) \<Rightarrow> nat \<Rightarrow> OS_Q" where
  "q_link 0 i tbl = tbl(i := (tbl i)\<lparr>OSQPtr := NULL\<rparr>)"
| "q_link (Suc n) i tbl = q_link n (i + 1) (tbl(i := (tbl i)\<lparr>OSQPtr := PQ (i + 1)\<rparr>))"

definition OS_QInit :: "os_state \<Rightarrow> os_state" where
  "OS_QInit s = s\<lparr>OSQTbl := q_link (OS_MAX_QS - 1) 0
     (\<lambda>i. if i < OS_MAX_QS then q_zero else OSQTbl s i), OSQFreeList := PQ 0\<rparr>"


section \<open>A queue in the kernel state is a bounded queue\<close>

definition queue_ok :: "nat \<Rightarrow> nat \<Rightarrow> os_state \<Rightarrow> bool" where
  "queue_ok e q s \<longleftrightarrow> os_wf s \<and> OSEventType (OSEventTbl s e) = OS_EVENT_TYPE_Q \<and>
     OSEventPtr (OSEventTbl s e) = PQ q \<and> ring_wf (get_ring q s)"

text \<open>The messages in queue \<open>q\<close>, oldest first, and how many it can hold.\<close>

definition q_msgs :: "nat \<Rightarrow> os_state \<Rightarrow> ptr list" where
  "q_msgs q s = ring_list (get_ring q s)"

definition q_cap :: "nat \<Rightarrow> os_state \<Rightarrow> nat" where
  "q_cap q s = ring_cap (get_ring q s)"

lemma set_ring_simps [simp]:
  "get_ring q (set_ring q r s) = r" "os_wf (set_ring q r s) = os_wf s"
  "rdy_set (set_ring q r s) = rdy_set s" "wait_set (set_ring q r s) e = wait_set s e"
  "OSEventTbl (set_ring q r s) = OSEventTbl s" "running (set_ring q r s) p i = running s p i"
  by (simp_all add: get_ring_def set_ring_def os_wf_def rdy_set_def wait_set_def at_prio_def running_def)

lemma can_sched_set_ring: "can_sched (set_ring q r s) = can_sched s"
  by (simp add: can_sched_def set_ring_def)

lemma queue_ok_set_ring: "queue_ok e q s \<Longrightarrow> ring_wf r \<Longrightarrow> queue_ok e q (set_ring q r s)"
  by (simp add: queue_ok_def)

lemma q_fields:
  "unat (OSQEntries (OSQTbl s q)) = length (q_msgs q s)" "unat (OSQSize (OSQTbl s q)) = q_cap q s"
  by (simp_all add: q_msgs_def q_cap_def ring_cap_def get_ring_def)

lemma q_entries_iff:
  "OSQEntries (OSQTbl s q) \<ge> OSQSize (OSQTbl s q) \<longleftrightarrow> length (q_msgs q s) \<ge> q_cap q s"
  "OSQEntries (OSQTbl s q) > 0 \<longleftrightarrow> q_msgs q s \<noteq> []"
  using q_fields [of s q] by (auto simp: word_le_nat_alt word_less_nat_alt)

lemma OSQPost_free:
  assumes "queue_ok e q s" "wait_set s e = {}"
  shows "OSQPost (PEvent e) m s = (if length (q_msgs q s) \<ge> q_cap q s then (OS_ERR_Q_FULL, s)
      else (OS_ERR_NONE, set_ring q (ring_put m (get_ring q s)) s))"
    and "OSQPostFront (PEvent e) m s = (if length (q_msgs q s) \<ge> q_cap q s then (OS_ERR_Q_FULL, s)
      else (OS_ERR_NONE, set_ring q (ring_put_front m (get_ring q s)) s))"
  using assms wait_empty_iff [of s e]
  by (simp_all add: OSQPost_def OSQPostFront_def queue_ok_def q_entries_iff)

lemma OSQ_take:
  assumes "queue_ok e q s"
  shows "OSQAccept (PEvent e) True s =
      (if q_msgs q s = [] then (NULL, Some OS_ERR_Q_EMPTY, s)
       else (fst (ring_take (get_ring q s)), Some OS_ERR_NONE,
         set_ring q (snd (ring_take (get_ring q s))) s))"
    and "can_sched s \<Longrightarrow> OSQPend (PEvent e) timeout True s =
      (if q_msgs q s = [] then (Wait, OS_Sched (pend_block e OS_STAT_Q timeout s))
       else (Done (fst (ring_take (get_ring q s)), Some OS_ERR_NONE),
         set_ring q (snd (ring_take (get_ring q s))) s))"
    and "OSQFlush (PEvent e) s = (OS_ERR_NONE, set_ring q (ring_flush (get_ring q s)) s)"
  using assms
  by (auto simp: OSQAccept_def OSQPend_def OSQFlush_def queue_ok_def q_entries_iff can_sched_def
      split: prod.split)

definition queue_idle :: "nat \<Rightarrow> nat \<Rightarrow> os_state \<Rightarrow> bool" where
  "queue_idle e q s \<longleftrightarrow> queue_ok e q s \<and> wait_set s e = {}"

definition accept_msg :: "nat \<Rightarrow> os_state \<Rightarrow> ptr \<times> os_state" where
  "accept_msg e s = (let (m, err, s') = OSQAccept (PEvent e) True s in (m, s'))"

text \<open>\<^verbatim>\<open>OSQPost\<close>, \<^verbatim>\<open>OSQPostFront\<close>, \<^verbatim>\<open>OSQAccept\<close> and \<^verbatim>\<open>OSQFlush\<close> keep the interface of the buffer.\<close>

interpretation osq: bounded_queue "queue_idle e q" "q_msgs q" "q_cap q"
    "\<lambda>m s. snd (OSQPost (PEvent e) m s)" "\<lambda>m s. snd (OSQPostFront (PEvent e) m s)"
    "accept_msg e" "\<lambda>s. snd (OSQFlush (PEvent e) s)" for e q
proof
  fix s m
  assume i: "queue_idle e q s" and room: "length (q_msgs q s) < q_cap q s"
  then have ok: "queue_ok e q s" and w: "wait_set s e = {}" and rw: "ring_wf (get_ring q s)"
    and rm: "length (ring_list (get_ring q s)) < ring_cap (get_ring q s)"
    by (simp_all add: queue_idle_def queue_ok_def q_msgs_def q_cap_def)
  show "queue_idle e q (snd (OSQPost (PEvent e) m s)) \<and>
      q_msgs q (snd (OSQPost (PEvent e) m s)) = q_msgs q s @ [m] \<and>
      q_cap q (snd (OSQPost (PEvent e) m s)) = q_cap q s"
    using ring.put [OF rw rm, of m] OSQPost_free(1) [OF ok w] room w queue_ok_set_ring [OF ok]
    by (simp add: queue_idle_def q_msgs_def q_cap_def)
  show "queue_idle e q (snd (OSQPostFront (PEvent e) m s)) \<and>
      q_msgs q (snd (OSQPostFront (PEvent e) m s)) = m # q_msgs q s \<and>
      q_cap q (snd (OSQPostFront (PEvent e) m s)) = q_cap q s"
    using ring.put_front [OF rw rm, of m] OSQPost_free(2) [OF ok w] room w queue_ok_set_ring [OF ok]
    by (simp add: queue_idle_def q_msgs_def q_cap_def)
next
  fix s x xs
  assume i: "queue_idle e q s" and l: "q_msgs q s = x # xs"
  then have ok: "queue_ok e q s" and w: "wait_set s e = {}" and rw: "ring_wf (get_ring q s)"
    and rl: "ring_list (get_ring q s) = x # xs"
    by (simp_all add: queue_idle_def queue_ok_def q_msgs_def)
  show "queue_idle e q (snd (accept_msg e s)) \<and> fst (accept_msg e s) = x \<and>
      q_msgs q (snd (accept_msg e s)) = xs \<and> q_cap q (snd (accept_msg e s)) = q_cap q s"
    using ring.take_out [OF rw rl] OSQ_take(1) [OF ok] l w queue_ok_set_ring [OF ok]
    by (simp add: queue_idle_def accept_msg_def q_msgs_def q_cap_def)
next
  fix s
  assume i: "queue_idle e q s"
  then have ok: "queue_ok e q s" and w: "wait_set s e = {}" and rw: "ring_wf (get_ring q s)"
    by (simp_all add: queue_idle_def queue_ok_def)
  show "queue_idle e q (snd (OSQFlush (PEvent e) s)) \<and> q_msgs q (snd (OSQFlush (PEvent e) s)) = [] \<and>
      q_cap q (snd (OSQFlush (PEvent e) s)) = q_cap q s"
    using ring.flush [OF rw] OSQ_take(3) [OF ok] w queue_ok_set_ring [OF ok]
    by (simp add: queue_idle_def q_msgs_def q_cap_def)
  show "length (q_msgs q s) \<le> q_cap q s"
    using ring.len [OF rw] by (simp add: q_msgs_def q_cap_def)
qed


text \<open>With waiters, \<^verbatim>\<open>OSQPost\<close> keeps the contract of a post too; the capacity is the queue's size.\<close>

lemma OSQPost_wait:
  fixes m :: ptr
  assumes ok: "queue_ok e q s" and ne: "wait_set s e \<noteq> {}"
  defines "s' \<equiv> snd (OSQPost (PEvent e) m s)"
  shows "queue_ok e q s'" "wait_set s' e = wait_set s e - {Min (wait_set s e)}"
    and "q_msgs q s' = q_msgs q s" "q_cap q s' = q_cap q s"
proof -
  have wf: "os_wf s" and ty: "OSEventType (OSEventTbl s e) = OS_EVENT_TYPE_Q"
    using ok by (auto simp: queue_ok_def)
  define s1 where "s1 = snd (OS_EventTaskRdy e m OS_STAT_Q OS_STAT_PEND_OK s)"
  note r = EventTaskRdy_sets [OF wf ne, where pmsg = m and msk = OS_STAT_Q and
      pend = OS_STAT_PEND_OK, folded s1_def]
  have s': "s' = OS_Sched s1"
    using ne wait_empty_iff [OF wf] by (simp add: s'_def OSQPost_def ty s1_def)
  have g: "get_ring q s' = get_ring q s"
    using r(6) by (simp add: s' get_ring_def os_frame_def)
  show "queue_ok e q s'"
    using r(1) event_data_eq(1,2) [OF r(4), of e] ok by (simp add: queue_ok_def g) (simp add: s')
  show "wait_set s' e = wait_set s e - {Min (wait_set s e)}"
    using r(2) by (simp add: s')
  show "q_msgs q s' = q_msgs q s" "q_cap q s' = q_cap q s"
    by (simp_all add: q_msgs_def q_cap_def g)
qed

interpretation queue: wait_object "queue_ok e q" "\<lambda>s. wait_set s e" "\<lambda>s. length (q_msgs q s)" "q_cap q"
    "\<lambda>s. snd (OSQPost (PEvent e) m s)" for e q m
proof unfold_locales
  fix s assume ok: "queue_ok e q s"
  let ?s' = "snd (OSQPost (PEvent e) m s)"
  show "finite (wait_set s e)"
    using ok by (simp add: queue_ok_def finite_wait_set)
  have full: "queue_ok e q ?s' \<and> wait_set ?s' e = {} \<and> length (q_msgs q ?s') = length (q_msgs q s) \<and>
      q_cap q ?s' = q_cap q s" if "wait_set s e = {}" "q_cap q s \<le> length (q_msgs q s)"
    using OSQPost_free(1) [OF ok that(1), of m] that ok by simp
  have room: "queue_ok e q ?s' \<and> wait_set ?s' e = {} \<and>
      length (q_msgs q ?s') = Suc (length (q_msgs q s)) \<and> q_cap q ?s' = q_cap q s"
    if "wait_set s e = {}" "length (q_msgs q s) < q_cap q s"
    using osq.put [of e q s m] that ok by (simp add: queue_idle_def)
  show "queue_ok e q ?s'" "q_cap q ?s' = q_cap q s"
    using full room OSQPost_wait [OF ok, of m] by (metis not_le)+
  show "wait_set s e \<noteq> {} \<Longrightarrow> wait_set ?s' e = wait_set s e - {Min (wait_set s e)} \<and>
      length (q_msgs q ?s') = length (q_msgs q s)"
    using OSQPost_wait [OF ok] by simp
  show "wait_set s e = {} \<Longrightarrow> length (q_msgs q s) < q_cap q s \<Longrightarrow>
      wait_set ?s' e = {} \<and> length (q_msgs q ?s') = Suc (length (q_msgs q s))"
    using room by simp
  show "wait_set s e = {} \<Longrightarrow> q_cap q s \<le> length (q_msgs q s) \<Longrightarrow>
      wait_set ?s' e = {} \<and> length (q_msgs q ?s') = length (q_msgs q s)"
    using full by simp
qed

section \<open>Properties\<close>

text \<open>
  C7: A message queue for which no task waits behaves as a bounded list of messages: a post appends,
  a post to the front prepends, both fail with \<^verbatim>\<open>OS_ERR_Q_FULL\<close> and change nothing when the list has
  the queue's size; accept and pend take the oldest message; accept fails with \<^verbatim>\<open>OS_ERR_Q_EMPTY\<close>; flush
  empties it.  The circular buffer's indices stay consistent.
\<close>

theorem OSQ_refines_list:
  assumes ok: "queue_ok e q s" and w: "wait_set s e = {}" and cs: "can_sched s"
  shows "(if length (q_msgs q s) < q_cap q s
      then (\<exists>s'. OSQPost (PEvent e) m s = (OS_ERR_NONE, s') \<and> queue_ok e q s' \<and>
              q_msgs q s' = q_msgs q s @ [m]) \<and>
           (\<exists>s'. OSQPostFront (PEvent e) m s = (OS_ERR_NONE, s') \<and> queue_ok e q s' \<and>
              q_msgs q s' = m # q_msgs q s)
      else OSQPost (PEvent e) m s = (OS_ERR_Q_FULL, s) \<and>
           OSQPostFront (PEvent e) m s = (OS_ERR_Q_FULL, s)) \<and>
    (case q_msgs q s of
       [] \<Rightarrow> OSQAccept (PEvent e) True s = (NULL, Some OS_ERR_Q_EMPTY, s) \<and>
             fst (OSQPend (PEvent e) timeout True s) = Wait
     | x # xs \<Rightarrow> \<exists>s'. OSQAccept (PEvent e) True s = (x, Some OS_ERR_NONE, s') \<and>
             OSQPend (PEvent e) timeout True s = (Done (x, Some OS_ERR_NONE), s') \<and>
             queue_ok e q s' \<and> q_msgs q s' = xs) \<and>
    (\<exists>s'. OSQFlush (PEvent e) s = (OS_ERR_NONE, s') \<and> queue_ok e q s' \<and> q_msgs q s' = [])"
proof -
  have i: "queue_idle e q s" using ok w by (simp add: queue_idle_def)
  have posts: "if length (q_msgs q s) < q_cap q s
      then (\<exists>s'. OSQPost (PEvent e) m s = (OS_ERR_NONE, s') \<and> queue_ok e q s' \<and>
              q_msgs q s' = q_msgs q s @ [m]) \<and>
           (\<exists>s'. OSQPostFront (PEvent e) m s = (OS_ERR_NONE, s') \<and> queue_ok e q s' \<and>
              q_msgs q s' = m # q_msgs q s)
      else OSQPost (PEvent e) m s = (OS_ERR_Q_FULL, s) \<and>
           OSQPostFront (PEvent e) m s = (OS_ERR_Q_FULL, s)"
    using osq.put [OF i, of m] osq.put_front [OF i, of m] OSQPost_free [OF ok w, of m]
    by (auto simp: queue_idle_def prod_eq_iff)
  have takes: "case q_msgs q s of
       [] \<Rightarrow> OSQAccept (PEvent e) True s = (NULL, Some OS_ERR_Q_EMPTY, s) \<and>
             fst (OSQPend (PEvent e) timeout True s) = Wait
     | x # xs \<Rightarrow> \<exists>s'. OSQAccept (PEvent e) True s = (x, Some OS_ERR_NONE, s') \<and>
             OSQPend (PEvent e) timeout True s = (Done (x, Some OS_ERR_NONE), s') \<and>
             queue_ok e q s' \<and> q_msgs q s' = xs"
  proof (cases "q_msgs q s")
    case Nil
    then show ?thesis using OSQ_take(1,2) [OF ok] cs by simp
  next
    case (Cons x xs)
    with osq.take_out [OF i Cons] OSQ_take(1,2) [OF ok] cs show ?thesis
      by (auto simp: queue_idle_def accept_msg_def)
  qed
  have "\<exists>s'. OSQFlush (PEvent e) s = (OS_ERR_NONE, s') \<and> queue_ok e q s' \<and> q_msgs q s' = []"
    using osq.flush [OF i] OSQ_take(3) [OF ok] by (auto simp: queue_idle_def)
  with posts takes show ?thesis by blast
qed

lemma queue_ok_demo: "queue_ok 3 0 demo" "wait_set demo 3 = {}" "q_msgs 0 demo = [PWord 77]"
  "q_cap 0 demo = 3"
  using os_wf_demo
  by (simp_all add: queue_ok_def wait_set_demo)
    (simp_all add: demo_def event_zero_def get_ring_def ring_wf_def q_msgs_def ring_list_def
      ring_cell_def q_cap_def ring_cap_def)

theorem OSQ_refines_list_witness:
  "\<exists>s' s''. OSQPost (PEvent 3) (PWord 5) demo = (OS_ERR_NONE, s') \<and> q_msgs 0 s' = [PWord 77, PWord 5] \<and>
     OSQAccept (PEvent 3) True demo = (PWord 77, Some OS_ERR_NONE, s'') \<and> q_msgs 0 s'' = []"
  using OSQ_refines_list [OF queue_ok_demo(1,2) can_sched_demo, of "PWord 5" 0] queue_ok_demo(3,4)
  by auto

text \<open>Posting a list of messages, and accepting \<open>n\<close> messages.\<close>

fun post_list :: "nat \<Rightarrow> ptr list \<Rightarrow> os_state \<Rightarrow> os_state" where
  "post_list e [] s = s"
| "post_list e (m # ms) s = post_list e ms (snd (OSQPost (PEvent e) m s))"

fun accept_list :: "nat \<Rightarrow> nat \<Rightarrow> os_state \<Rightarrow> ptr list \<times> os_state" where
  "accept_list e 0 s = ([], s)"
| "accept_list e (Suc n) s =
     (let (m, s1) = accept_msg e s; (ms, s2) = accept_list e n s1 in (m # ms, s2))"

lemma post_list_puts: "osq.puts e ms s = post_list e ms s"
  by (induction ms arbitrary: s) simp_all

lemma accept_list_takes: "osq.takes e n s = accept_list e n s"
  by (induction n arbitrary: s) (simp_all add: Let_def split: prod.split)

text \<open>
  C30: First in, first out.  Any list of messages that fits is received complete, in the order posted
  and after the messages that were in the queue before, whatever the position of the buffer's
  indices; afterwards the queue is empty.
\<close>

theorem OSQ_fifo:
  assumes "queue_ok e q s" "wait_set s e = {}" "length (q_msgs q s) + length ms \<le> q_cap q s"
  shows "fst (accept_list e (length (q_msgs q s @ ms)) (post_list e ms s)) = q_msgs q s @ ms \<and>
    q_msgs q (snd (accept_list e (length (q_msgs q s @ ms)) (post_list e ms s))) = []"
proof -
  have i: "queue_idle e q s" using assms by (simp add: queue_idle_def)
  have p: "queue_idle e q (post_list e ms s)" "q_msgs q (post_list e ms s) = (q_msgs q s @ ms) @ []"
    using osq.puts_append [OF i assms(3)] by (simp_all add: post_list_puts)
  show ?thesis
    using osq.takes_prefix [OF p] by (simp only: accept_list_takes)
qed

theorem OSQ_fifo_witness:
  "fst (accept_list 3 3 (post_list 3 [PWord 5, NULL] demo)) = [PWord 77, PWord 5, NULL]"
  using OSQ_fifo [OF queue_ok_demo(1,2), of "[PWord 5, NULL]"]
  by (simp add: queue_ok_demo(3,4) eval_nat_numeral del: accept_list.simps post_list.simps)

text \<open>
  Handover through a queue.  The highest-priority task pends on an empty queue and another task
  posts: the pend call returns that message with \<^verbatim>\<open>OS_ERR_NONE\<close>, even \<^verbatim>\<open>NULL\<close>, the receiver runs again at
  once and the queue's buffer is untouched.
\<close>

theorem OSQ_handover:
  assumes ok: "queue_ok e q s" and run: "running s p i" and cs: "can_sched s"
    and empty: "q_msgs q s = []"
    and top: "\<forall>q \<in> rdy_set s. p \<le> q" "\<forall>q \<in> wait_set s e. p < q" and left: "rdy_set s - {p} \<noteq> {}"
  shows "\<exists>s1 s2 s3. OSQPend (PEvent e) timeout True s = (Wait, s1) \<and>
    OSQPost (PEvent e) m s1 = (OS_ERR_NONE, s2) \<and>
    OSQPend_resume (PEvent e) s2 = (m, OS_ERR_NONE, s3) \<and> running s3 p i \<and> os_wf s3"
proof -
  have wf: "os_wf s" and ty: "OSEventType (OSEventTbl s e) = OS_EVENT_TYPE_Q"
    using ok by (auto simp: queue_ok_def)
  define s1 where "s1 = OS_Sched (pend_block e OS_STAT_Q timeout s)"
  define s2 where "s2 = OS_Sched (snd (OS_EventTaskRdy e m OS_STAT_Q OS_STAT_PEND_OK s1))"
  note h = pend_post_handover(1-3) [OF wf run cs top left, where stat = OS_STAT_Q and
      timeout = timeout, folded s1_def]
    pend_post_handover(4-9) [OF wf run cs top left, where stat = OS_STAT_Q and pmsg = m and
      timeout = timeout, folded s1_def, folded s2_def]
  have pend: "OSQPend (PEvent e) timeout True s = (Wait, s1)"
    using OSQ_take(2) [OF ok cs] empty by (simp add: s1_def)
  have post: "OSQPost (PEvent e) m s1 = (OS_ERR_NONE, s2)"
    using h(2) event_data_eq(1) [OF h(3)] ty by (simp add: OSQPost_def s2_def)
  note f = pend_finish_correct [OF h(4,5)]
  have cur2: "OSTCBCur s2 = PTcb i" using h(5) by (simp add: resumed_def)
  have "OSQPend_resume (PEvent e) s2 =
      (m, OS_ERR_NONE, upd_tcb i (\<lambda>t. t\<lparr>OSTCBMsg := NULL\<rparr>) (snd (pend_finish e s2)))"
    using f(5) h(7,8) by (simp add: OSQPend_resume_def pend_finish_msg_eq [OF cur2])
  with pend post f(1,2) show ?thesis by simp
qed

theorem OSQ_handover_witness:
  "\<exists>s1 s2 s3. OSQPend (PEvent 3) 0 True (snd (OSQFlush (PEvent 3) demo)) = (Wait, s1) \<and>
    OSQPost (PEvent 3) NULL s1 = (OS_ERR_NONE, s2) \<and>
    OSQPend_resume (PEvent 3) s2 = (NULL, OS_ERR_NONE, s3) \<and> running s3 5 0"
proof -
  let ?d = "snd (OSQFlush (PEvent 3) demo)"
  have i: "queue_idle 3 0 demo" using queue_ok_demo by (simp add: queue_idle_def)
  have d: "?d = set_ring 0 (ring_flush (get_ring 0 demo)) demo"
    using OSQ_take(3) [OF queue_ok_demo(1)] by simp
  have "queue_ok 3 0 ?d" "running ?d 5 0" "can_sched ?d" "q_msgs 0 ?d = []"
    "\<forall>q \<in> rdy_set ?d. 5 \<le> q" "\<forall>q \<in> wait_set ?d 3. 5 < q" "rdy_set ?d - {5} \<noteq> {}"
    using osq.flush [OF i] running_demo can_sched_demo
    by (simp_all add: queue_idle_def) (simp_all add: d rdy_set_demo wait_set_demo can_sched_set_ring)
  from OSQ_handover [OF this, where m = NULL and timeout = 0] show ?thesis by blast
qed

end
