(* ===== verification/Os_Mem.thy ===== *)
theory Os_Mem
  imports Os_Event
begin

text \<open>
  os_mem.c: memory partitions.  The free blocks of a partition form a list through the first word of
  each block; that word is a cell of \<open>OSMemHeap\<close> under the block's address.  Blocks are at least four
  bytes long, so the cells of different blocks do not overlap.
\<close>

section \<open>Operations\<close>

fun addr_of :: "ptr \<Rightarrow> u32" where
  "addr_of (PWord a) = a"
| "addr_of _ = 0"

definition upd_mem :: "nat \<Rightarrow> (OS_MEM \<Rightarrow> OS_MEM) \<Rightarrow> os_state \<Rightarrow> os_state" where
  "upd_mem i f s = s\<lparr>OSMemTbl := (OSMemTbl s)(i := f (OSMemTbl s i))\<rparr>"

text \<open>The loop that links \<open>n + 1\<close> blocks, with the two pointers of the source.\<close>

fun mem_link :: "nat \<Rightarrow> u32 \<Rightarrow> u32 \<Rightarrow> u32 \<Rightarrow> (u32 \<Rightarrow> ptr) \<Rightarrow> (u32 \<Rightarrow> ptr)" where
  "mem_link 0 blksize plink pblk h = h(plink := NULL)"
| "mem_link (Suc n) blksize plink pblk h =
     mem_link n blksize pblk (pblk + blksize) (h(plink := PWord pblk))"

definition OSMemCreate ::
  "u32 \<Rightarrow> u32 \<Rightarrow> u32 \<Rightarrow> bool \<Rightarrow> os_state \<Rightarrow> ptr \<times> os_err option \<times> os_state" where
  "OSMemCreate addr nblks blksize perr s =
     (if \<not> perr then (NULL, None, s)
      else if addr = 0 then (NULL, Some OS_ERR_MEM_INVALID_ADDR, s)
      else if addr AND 3 \<noteq> 0 then (NULL, Some OS_ERR_MEM_INVALID_ADDR, s)
      else if nblks < 2 then (NULL, Some OS_ERR_MEM_INVALID_BLKS, s)
      else if blksize < 4 then (NULL, Some OS_ERR_MEM_INVALID_SIZE, s)
      else
        let pmem = OSMemFreeList s;
            s1 = (if OSMemFreeList s \<noteq> NULL
                  then s\<lparr>OSMemFreeList := OSMemFreeLst (OSMemTbl s (mem_of (OSMemFreeList s)))\<rparr> else s)
        in if pmem = NULL then (NULL, Some OS_ERR_MEM_INVALID_PART, s1)
           else
             let s2 = s1\<lparr>OSMemHeap :=
                        mem_link (unat (nblks - 1)) blksize addr (addr + blksize) (OSMemHeap s1)\<rparr>;
                 s3 = upd_mem (mem_of pmem) (\<lambda>m. m\<lparr>OSMemAddr := PWord addr, OSMemFreeLst := PWord addr,
                        OSMemNFree := nblks, OSMemNBlks := nblks, OSMemBlkSize := blksize\<rparr>) s2
             in (pmem, Some OS_ERR_NONE, s3))"

definition OSMemGet :: "ptr \<Rightarrow> bool \<Rightarrow> os_state \<Rightarrow> ptr \<times> os_err option \<times> os_state" where
  "OSMemGet pmem perr s =
     (if \<not> perr then (NULL, None, s)
      else if pmem = NULL then (NULL, Some OS_ERR_MEM_INVALID_PMEM, s)
      else
        let i = mem_of pmem; m = OSMemTbl s i
        in if OSMemNFree m > 0 then
             let pblk = OSMemFreeLst m;
                 s1 = upd_mem i (\<lambda>m. m\<lparr>OSMemFreeLst := OSMemHeap s (addr_of pblk),
                        OSMemNFree := OSMemNFree m - 1\<rparr>) s
             in (pblk, Some OS_ERR_NONE, s1)
           else (NULL, Some OS_ERR_MEM_NO_FREE_BLKS, s))"

definition OSMemPut :: "ptr \<Rightarrow> ptr \<Rightarrow> os_state \<Rightarrow> os_err \<times> os_state" where
  "OSMemPut pmem pblk s =
     (if pmem = NULL then (OS_ERR_MEM_INVALID_PMEM, s)
      else if pblk = NULL then (OS_ERR_MEM_INVALID_PBLK, s)
      else
        let i = mem_of pmem; m = OSMemTbl s i
        in if OSMemNFree m \<ge> OSMemNBlks m then (OS_ERR_MEM_FULL, s)
           else
             let s1 = s\<lparr>OSMemHeap := (OSMemHeap s)(addr_of pblk := OSMemFreeLst m)\<rparr>;
                 s2 = upd_mem i (\<lambda>m. m\<lparr>OSMemFreeLst := pblk, OSMemNFree := OSMemNFree m + 1\<rparr>) s1
             in (OS_ERR_NONE, s2))"

record OS_MEM_DATA =
  PD_OSAddr :: ptr
  PD_OSFreeList :: ptr
  PD_OSBlkSize :: u32
  PD_OSNBlks :: u32
  PD_OSNFree :: u32
  PD_OSNUsed :: u32

definition OSMemQuery :: "ptr \<Rightarrow> bool \<Rightarrow> os_state \<Rightarrow> os_err \<times> OS_MEM_DATA option" where
  "OSMemQuery pmem p_mem_data s =
     (if pmem = NULL then (OS_ERR_MEM_INVALID_PMEM, None)
      else if \<not> p_mem_data then (OS_ERR_MEM_INVALID_PDATA, None)
      else
        let m = OSMemTbl s (mem_of pmem)
        in (OS_ERR_NONE, Some \<lparr>PD_OSAddr = OSMemAddr m, PD_OSFreeList = OSMemFreeLst m,
             PD_OSBlkSize = OSMemBlkSize m, PD_OSNBlks = OSMemNBlks m, PD_OSNFree = OSMemNFree m,
             PD_OSNUsed = OSMemNBlks m - OSMemNFree m\<rparr>))"

text \<open>The loop of \<^verbatim>\<open>OS_MemInit\<close> over \<^verbatim>\<open>OSMemTbl[i]\<close> to \<^verbatim>\<open>OSMemTbl[OS_MAX_MEM_PART - 1]\<close>.\<close>

fun mem_tbl_link :: "nat \<Rightarrow> nat \<Rightarrow> (nat \<Rightarrow> OS_MEM) \<Rightarrow> nat \<Rightarrow> OS_MEM" where
  "mem_tbl_link 0 i tbl =
     tbl(i := (tbl i)\<lparr>OSMemFreeLst := NULL, OSMemName := name_unknown (OSMemName (tbl i))\<rparr>)"
| "mem_tbl_link (Suc n) i tbl = mem_tbl_link n (i + 1)
     (tbl(i := (tbl i)\<lparr>OSMemFreeLst := PMem (i + 1), OSMemName := name_unknown (OSMemName (tbl i))\<rparr>))"

definition OS_MemInit :: "os_state \<Rightarrow> os_state" where
  "OS_MemInit s = s\<lparr>OSMemTbl := mem_tbl_link (OS_MAX_MEM_PART - 1) 0
     (\<lambda>i. if i < OS_MAX_MEM_PART then mem_zero else OSMemTbl s i), OSMemFreeList := PMem 0\<rparr>"

section \<open>The interface: a pool of blocks\<close>

text \<open>
  \<open>free\<close> is the list of free blocks, \<open>blocks\<close> the set of all blocks of the pool.
\<close>

locale pool =
  fixes inv :: "'s \<Rightarrow> bool"
    and free :: "'s \<Rightarrow> 'b list"
    and blocks :: "'s \<Rightarrow> 'b set"
    and get :: "'s \<Rightarrow> 'b option \<times> 's"
    and put :: "'b \<Rightarrow> 's \<Rightarrow> 's"
  assumes get_some: "inv s \<Longrightarrow> free s = b # bs \<Longrightarrow>
      fst (get s) = Some b \<and> inv (snd (get s)) \<and> free (snd (get s)) = bs \<and> blocks (snd (get s)) = blocks s"
    and get_none: "inv s \<Longrightarrow> free s = [] \<Longrightarrow> get s = (None, s)"
    and put_back: "inv s \<Longrightarrow> b \<in> blocks s \<Longrightarrow> b \<notin> set (free s) \<Longrightarrow>
      inv (put b s) \<and> free (put b s) = b # free s \<and> blocks (put b s) = blocks s"
    and free_ok: "inv s \<Longrightarrow> distinct (free s) \<and> set (free s) \<subseteq> blocks s"
begin

fun gets :: "nat \<Rightarrow> 's \<Rightarrow> 'b option list \<times> 's" where
  "gets 0 s = ([], s)"
| "gets (Suc n) s = (let (b, s1) = get s; (bs, s2) = gets n s1 in (b # bs, s2))"

lemma gets_free:
  "inv s \<Longrightarrow> inv (snd (gets n s)) \<and> free (snd (gets n s)) = drop n (free s) \<and>
     blocks (snd (gets n s)) = blocks s \<and>
     fst (gets n s) = map Some (take n (free s)) @ replicate (n - length (free s)) None"
proof (induction n arbitrary: s)
  case (Suc n)
  show ?case
  proof (cases "free s")
    case Nil
    with Suc get_none [OF Suc.prems Nil] show ?thesis by (simp add: Let_def case_prod_unfold)
  next
    case (Cons b bs)
    with Suc.IH [of "snd (get s)"] get_some [OF Suc.prems Cons] show ?thesis
      by (simp add: Let_def case_prod_unfold)
  qed
qed simp

text \<open>No block is handed out twice, and every block handed out belongs to the pool.\<close>

lemma gets_distinct:
  assumes "inv s" "n \<le> length (free s)"
  shows "\<exists>bs. fst (gets n s) = map Some bs \<and> length bs = n \<and> distinct bs \<and> set bs \<subseteq> blocks s \<and>
    set bs \<inter> set (free (snd (gets n s))) = {}"
proof (intro exI conjI)
  show "fst (gets n s) = map Some (take n (free s))" "length (take n (free s)) = n"
    using gets_free [OF assms(1), of n] assms(2) by simp_all
  show "distinct (take n (free s))" "set (take n (free s)) \<subseteq> blocks s"
    using free_ok [OF assms(1)] set_take_subset [of n "free s"] by auto
  show "set (take n (free s)) \<inter> set (free (snd (gets n s))) = {}"
    using gets_free [OF assms(1), of n] free_ok [OF assms(1)]
    by (simp add: set_take_disj_set_drop_if_distinct)
qed

lemma get_put:
  assumes "inv s" "free s = b # bs"
  shows "free (put b (snd (get s))) = free s \<and> inv (put b (snd (get s)))"
  using get_some [OF assms] put_back [of "snd (get s)" b] free_ok [OF assms(1)] assms(2) by auto

end


section \<open>A partition is a pool\<close>

definition mem_blocks :: "OS_MEM \<Rightarrow> u32 set" where
  "mem_blocks m = (\<lambda>k. addr_of (OSMemAddr m) + of_nat k * OSMemBlkSize m) ` {..<unat (OSMemNBlks m)}"

fun mem_chain :: "(u32 \<Rightarrow> ptr) \<Rightarrow> ptr \<Rightarrow> u32 list \<Rightarrow> bool" where
  "mem_chain h p [] \<longleftrightarrow> p = NULL"
| "mem_chain h p (a # as) \<longleftrightarrow> p = PWord a \<and> mem_chain h (h a) as"

text \<open>The first \<open>n\<close> blocks of the free list.\<close>

fun mem_walk :: "nat \<Rightarrow> (u32 \<Rightarrow> ptr) \<Rightarrow> ptr \<Rightarrow> u32 list" where
  "mem_walk 0 h p = []"
| "mem_walk (Suc n) h p =
     (case p of PWord a \<Rightarrow> if a = 0 then [] else a # mem_walk n h (h a) | _ \<Rightarrow> [])"

definition mem_free :: "nat \<Rightarrow> os_state \<Rightarrow> u32 list" where
  "mem_free i s = mem_walk (unat (OSMemNFree (OSMemTbl s i))) (OSMemHeap s) (OSMemFreeLst (OSMemTbl s i))"

definition part_ok :: "nat \<Rightarrow> os_state \<Rightarrow> bool" where
  "part_ok i s \<longleftrightarrow> (let m = OSMemTbl s i in
     mem_chain (OSMemHeap s) (OSMemFreeLst m) (mem_free i s) \<and>
     length (mem_free i s) = unat (OSMemNFree m) \<and> distinct (mem_free i s) \<and>
     set (mem_free i s) \<subseteq> mem_blocks m \<and> card (mem_blocks m) = unat (OSMemNBlks m) \<and> 0 \<notin> mem_blocks m)"

lemma walk_chain: "mem_chain h p as \<Longrightarrow> 0 \<notin> set as \<Longrightarrow> mem_walk (length as) h p = as"
  by (induction as arbitrary: p) auto

lemma mem_chain_upd: "a \<notin> set as \<Longrightarrow> mem_chain (h(a := v)) p as = mem_chain h p as"
  by (induction as arbitrary: p) auto

lemma finite_mem_blocks [simp]: "finite (mem_blocks m)"
  by (simp add: mem_blocks_def)

definition get_block :: "nat \<Rightarrow> os_state \<Rightarrow> u32 option \<times> os_state" where
  "get_block i s = (let (p, err, s') = OSMemGet (PMem i) True s
     in (if err = Some OS_ERR_NONE then Some (addr_of p) else None, s'))"

lemma OSMemGet_free:
  assumes ok: "part_ok i s" and f: "mem_free i s = a # as"
  defines "s' \<equiv> snd (snd (OSMemGet (PMem i) True s))"
  shows "OSMemGet (PMem i) True s = (PWord a, Some OS_ERR_NONE, s')" "part_ok i s'"
    "mem_free i s' = as" "mem_blocks (OSMemTbl s' i) = mem_blocks (OSMemTbl s i)"
proof -
  let ?m = "OSMemTbl s i"
  have n: "unat (OSMemNFree ?m) = Suc (length as)"
    using ok f by (simp add: part_ok_def Let_def)
  then have pos: "OSMemNFree ?m > 0" by (simp add: word_less_nat_alt)
  have ch: "OSMemFreeLst ?m = PWord a" "mem_chain (OSMemHeap s) (OSMemHeap s a) as"
    using ok f by (auto simp: part_ok_def Let_def)
  have nz: "0 \<notin> set as" using ok f by (auto simp: part_ok_def Let_def)
  show "OSMemGet (PMem i) True s = (PWord a, Some OS_ERR_NONE, s')"
    using pos ch by (simp add: OSMemGet_def s'_def Let_def)
  have m': "OSMemTbl s' i = ?m\<lparr>OSMemFreeLst := OSMemHeap s a, OSMemNFree := OSMemNFree ?m - 1\<rparr>"
    and h': "OSMemHeap s' = OSMemHeap s"
    using pos ch by (simp_all add: s'_def OSMemGet_def Let_def upd_mem_def)
  have dec: "unat (OSMemNFree ?m - 1) = length as" using n pos by (simp add: unat_minus_one)
  show f': "mem_free i s' = as"
    using walk_chain [OF ch(2) nz] by (simp add: mem_free_def m' h' dec)
  show b': "mem_blocks (OSMemTbl s' i) = mem_blocks ?m"
    by (simp add: m' mem_blocks_def)
  show "part_ok i s'"
    using ok f ch(2) unfolding part_ok_def Let_def b' by (simp add: f' m' h' dec)
qed

lemma OSMemGet_none:
  assumes ok: "part_ok i s" and f: "mem_free i s = []"
  shows "OSMemGet (PMem i) True s = (NULL, Some OS_ERR_MEM_NO_FREE_BLKS, s)"
proof -
  have "OSMemNFree (OSMemTbl s i) = 0"
    using ok f by (simp add: part_ok_def Let_def unat_eq_0 [symmetric])
  then show ?thesis by (simp add: OSMemGet_def)
qed

lemma OSMemPut_free:
  assumes ok: "part_ok i s" and b: "b \<in> mem_blocks (OSMemTbl s i)" "b \<notin> set (mem_free i s)"
  defines "s' \<equiv> snd (OSMemPut (PMem i) (PWord b) s)"
  shows "fst (OSMemPut (PMem i) (PWord b) s) = OS_ERR_NONE" "part_ok i s'"
    "mem_free i s' = b # mem_free i s" "mem_blocks (OSMemTbl s' i) = mem_blocks (OSMemTbl s i)"
proof -
  let ?m = "OSMemTbl s i" and ?as = "mem_free i s"
  have o: "mem_chain (OSMemHeap s) (OSMemFreeLst ?m) ?as" "length ?as = unat (OSMemNFree ?m)"
    "distinct ?as" "set ?as \<subseteq> mem_blocks ?m" "card (mem_blocks ?m) = unat (OSMemNBlks ?m)"
    "0 \<notin> mem_blocks ?m"
    using ok by (auto simp: part_ok_def Let_def)
  have "set ?as \<subset> mem_blocks ?m" using o(4) b by blast
  then have "card (set ?as) < unat (OSMemNBlks ?m)"
    using psubset_card_mono [of "mem_blocks ?m"] o(5) by simp
  then have room: "unat (OSMemNFree ?m) < unat (OSMemNBlks ?m)"
    using o(2,3) distinct_card by force
  then have "\<not> OSMemNFree ?m \<ge> OSMemNBlks ?m" by (simp add: word_le_nat_alt)
  moreover have "b \<noteq> 0" using b(1) o(6) by blast
  ultimately have eq: "OSMemPut (PMem i) (PWord b) s = (OS_ERR_NONE, s')"
    by (simp add: OSMemPut_def s'_def Let_def)
  then show "fst (OSMemPut (PMem i) (PWord b) s) = OS_ERR_NONE" by simp
  have m': "OSMemTbl s' i = ?m\<lparr>OSMemFreeLst := PWord b, OSMemNFree := OSMemNFree ?m + 1\<rparr>"
    and h': "OSMemHeap s' = (OSMemHeap s)(b := OSMemFreeLst ?m)"
    using \<open>\<not> OSMemNFree ?m \<ge> OSMemNBlks ?m\<close> \<open>b \<noteq> 0\<close>
    by (simp_all add: s'_def OSMemPut_def Let_def upd_mem_def)
  have inc: "unat (OSMemNFree ?m + 1) = Suc (length ?as)"
  proof -
    have "unat (OSMemNBlks ?m) < 2 ^ 32" using unsigned_less [of "OSMemNBlks ?m"] by simp
    then show ?thesis using room o(2) by (simp add: unat_word_ariths)
  qed
  have ch: "mem_chain (OSMemHeap s') (PWord b) (b # ?as)"
    using o(1) b(2) by (simp add: h' mem_chain_upd)
  have nz: "0 \<notin> set (b # ?as)" using o(4,6) b(1) by auto
  show f': "mem_free i s' = b # ?as"
    using walk_chain [OF ch nz] by (simp add: mem_free_def m' inc)
  show b': "mem_blocks (OSMemTbl s' i) = mem_blocks ?m"
    by (simp add: m' mem_blocks_def)
  show "part_ok i s'"
    using ch o b unfolding part_ok_def Let_def b' f' by (simp add: m' inc)
qed

interpretation mem: pool "part_ok i" "mem_free i" "\<lambda>s. mem_blocks (OSMemTbl s i)" "get_block i"
    "\<lambda>b s. snd (OSMemPut (PMem i) (PWord b) s)" for i
proof
  fix s b bs
  assume "part_ok i s" "mem_free i s = b # bs"
  note g = OSMemGet_free [OF this]
  have "get_block i s = (Some b, snd (snd (OSMemGet (PMem i) True s)))"
    using arg_cong [OF g(1), of fst] arg_cong [OF g(1), of "\<lambda>x. fst (snd x)"]
    by (simp add: get_block_def case_prod_unfold)
  then show "fst (get_block i s) = Some b \<and> part_ok i (snd (get_block i s)) \<and>
      mem_free i (snd (get_block i s)) = bs \<and>
      mem_blocks (OSMemTbl (snd (get_block i s)) i) = mem_blocks (OSMemTbl s i)"
    using g(2-4) by simp
next
  fix s assume "part_ok i s" "mem_free i s = []"
  then show "get_block i s = (None, s)" by (simp add: get_block_def OSMemGet_none)
next
  fix s b
  assume "part_ok i s" "b \<in> mem_blocks (OSMemTbl s i)" "b \<notin> set (mem_free i s)"
  note p = OSMemPut_free [OF this]
  show "part_ok i (snd (OSMemPut (PMem i) (PWord b) s)) \<and>
      mem_free i (snd (OSMemPut (PMem i) (PWord b) s)) = b # mem_free i s \<and>
      mem_blocks (OSMemTbl (snd (OSMemPut (PMem i) (PWord b) s)) i) = mem_blocks (OSMemTbl s i)"
    using p by simp
next
  fix s assume "part_ok i s"
  then show "distinct (mem_free i s) \<and> set (mem_free i s) \<subseteq> mem_blocks (OSMemTbl s i)"
    by (simp add: part_ok_def Let_def)
qed


section \<open>Creating a partition\<close>

definition blk_addr :: "u32 \<Rightarrow> u32 \<Rightarrow> nat \<Rightarrow> u32" where
  "blk_addr addr blksize k = addr + of_nat k * blksize"

lemma unat_blk_addr:
  assumes "unat addr + n * unat blksize \<le> 2 ^ 32" "k < n" "unat blksize > 0"
  shows "unat (blk_addr addr blksize k) = unat addr + k * unat blksize"
proof -
  have "k * unat blksize + unat blksize \<le> n * unat blksize"
    using assms(2) by (metis Suc_leI add.commute mult_Suc mult_le_mono1)
  then have lt: "unat addr + k * unat blksize < 2 ^ 32"
    using assms(1,3) by linarith
  have eq: "blk_addr addr blksize k = of_nat (unat addr + k * unat blksize)"
    by (simp add: blk_addr_def)
  show ?thesis
    unfolding eq unat_of_nat using lt by simp
qed

lemma mem_link_other:
  "x \<notin> (\<lambda>k. blk_addr a b k) ` {..n} \<Longrightarrow> mem_link n b a (a + b) h x = h x"
proof (induction n arbitrary: a h)
  case 0
  then show ?case by (simp add: blk_addr_def)
next
  case (Suc n)
  have "x \<noteq> a" using Suc.prems by (force simp: blk_addr_def)
  moreover have "blk_addr (a + b) b k = blk_addr a b (Suc k)" for k
    by (simp add: blk_addr_def algebra_simps)
  then have "x \<notin> (\<lambda>k. blk_addr (a + b) b k) ` {..n}"
    using Suc.prems by force
  then have "mem_link n b (a + b) (a + b + b) (h(a := PWord (a + b))) x = (h(a := PWord (a + b))) x"
    by (rule Suc.IH)
  ultimately show ?case
    by (simp only: mem_link.simps fun_upd_apply if_False)
qed

lemma mem_link_chain:
  "inj_on (blk_addr a b) {..n} \<Longrightarrow>
     mem_chain (mem_link n b a (a + b) h) (PWord a) (map (blk_addr a b) [0..<Suc n])"
proof (induction n arbitrary: a h)
  case 0
  then show ?case by (simp add: blk_addr_def)
next
  case (Suc n)
  have sh: "blk_addr (a + b) b k = blk_addr a b (Suc k)" for k
    by (simp add: blk_addr_def algebra_simps)
  have inj: "inj_on (blk_addr (a + b) b) {..n}"
    using Suc.prems by (auto simp: inj_on_def sh)
  have a0: "a = blk_addr a b 0" by (simp add: blk_addr_def)
  have "a \<notin> (\<lambda>k. blk_addr (a + b) b k) ` {..n}"
  proof
    assume "a \<in> (\<lambda>k. blk_addr (a + b) b k) ` {..n}"
    then obtain k where k: "k \<le> n" "blk_addr a b 0 = blk_addr a b (Suc k)"
      using a0 by (auto simp: sh)
    then show False
      using Suc.prems inj_onD [of "blk_addr a b" "{..Suc n}" 0 "Suc k"] by simp
  qed
  then have at: "mem_link n b (a + b) (a + b + b) (h(a := PWord (a + b))) a = PWord (a + b)"
    using mem_link_other [of a "a + b" b n] by simp
  have l: "map (blk_addr a b) [0..<Suc (Suc n)] = a # map (blk_addr (a + b) b) [0..<Suc n]"
    using a0 by (simp add: sh upt_conv_Cons map_Suc_upt [symmetric] comp_def del: upt_Suc)
  show ?case
    unfolding l mem_link.simps mem_chain.simps at
    using Suc.IH [OF inj, of "h(a := PWord (a + b))"] by blast
qed

section \<open>Properties\<close>

text \<open>
  A partition created over memory that does not wrap around the address space is completely free:
  its free list holds its \<open>nblks\<close> blocks in address order, each exactly once, and the partition
  invariant holds.
\<close>

theorem OSMemCreate_partition:
  assumes "OSMemFreeList s = PMem i" "addr AND 3 = 0" "addr \<noteq> 0" "unat nblks \<ge> 2" "unat blksize \<ge> 4"
    and fits: "unat addr + unat nblks * unat blksize \<le> 2 ^ 32"
  shows "\<exists>s'. OSMemCreate addr nblks blksize True s = (PMem i, Some OS_ERR_NONE, s') \<and> part_ok i s' \<and>
    mem_free i s' = map (blk_addr addr blksize) [0..<unat nblks] \<and>
    mem_blocks (OSMemTbl s' i) = set (map (blk_addr addr blksize) [0..<unat nblks])"
proof -
  define n where "n = unat (nblks - 1)"
  have "nblks \<noteq> 0" using assms(4) by auto
  then have n: "unat nblks = Suc n" using assms(4) by (simp add: n_def unat_minus_one)
  have lt: "\<not> nblks < 2" "\<not> blksize < 4" using assms(4,5) by (simp_all add: word_less_nat_alt)
  define s' where "s' = snd (snd (OSMemCreate addr nblks blksize True s))"
  let ?m = "(OSMemTbl s i)\<lparr>OSMemAddr := PWord addr, OSMemFreeLst := PWord addr,
    OSMemNFree := nblks, OSMemNBlks := nblks, OSMemBlkSize := blksize\<rparr>"
  have eq: "OSMemCreate addr nblks blksize True s = (PMem i, Some OS_ERR_NONE, s')"
    using assms(1-3) lt by (simp add: OSMemCreate_def s'_def Let_def)
  have m': "OSMemTbl s' i = ?m"
    and h': "OSMemHeap s' = mem_link n blksize addr (addr + blksize) (OSMemHeap s)"
    using assms(1-3) lt by (simp_all add: s'_def OSMemCreate_def Let_def upd_mem_def n_def)
  let ?as = "map (blk_addr addr blksize) [0..<unat nblks]"
  have ua: "unat (blk_addr addr blksize k) = unat addr + k * unat blksize" if "k < unat nblks" for k
    by (rule unat_blk_addr [OF fits that]) (use assms(5) in simp)
  have inj: "inj_on (blk_addr addr blksize) {..<unat nblks}"
  proof (rule inj_onI)
    fix j k assume "j \<in> {..<unat nblks}" "k \<in> {..<unat nblks}"
      "blk_addr addr blksize j = blk_addr addr blksize k"
    then have "j * unat blksize = k * unat blksize"
      using ua [of j] ua [of k] by auto
    then show "j = k" using assms(5) by auto
  qed
  have ch: "mem_chain (OSMemHeap s') (PWord addr) ?as"
    using mem_link_chain [of addr blksize n "OSMemHeap s"] inj
    by (simp add: h' n lessThan_Suc_atMost)
  have bl: "mem_blocks (OSMemTbl s' i) = set ?as"
    by (auto simp: mem_blocks_def m' blk_addr_def)
  have nz: "0 \<notin> set ?as"
  proof
    assume "0 \<in> set ?as"
    then obtain k where "k < unat nblks" "blk_addr addr blksize k = 0" by auto
    then have "unat addr = 0" using ua [of k] by simp
    then show False using assms(3) by (simp add: unat_eq_0)
  qed
  have len: "length ?as = unat nblks" by simp
  have dist: "distinct ?as"
    using inj by (simp add: distinct_map atLeast0LessThan)
  have fr: "mem_free i s' = ?as"
    using walk_chain [OF ch nz] by (simp add: mem_free_def m')
  have "card (set ?as) = unat nblks"
    using distinct_card [OF dist] by simp
  then have "part_ok i s'"
    using ch dist nz unfolding part_ok_def Let_def bl fr by (simp add: m')
  with eq fr bl show ?thesis by blast
qed

lemma demo_mem: "OSMemFreeList demo = PMem 0"
  by (simp add: demo_def)

theorem OSMemCreate_partition_witness:
  "\<exists>s'. OSMemCreate 0x1000 3 16 True demo = (PMem 0, Some OS_ERR_NONE, s') \<and> part_ok 0 s' \<and>
    mem_free 0 s' = [0x1000, 0x1010, 0x1020]"
  using OSMemCreate_partition [OF demo_mem, of "0x1000" 3 16]
  by (auto simp add: blk_addr_def upt_rec)

text \<open>Taking \<open>n\<close> blocks one after the other.\<close>

fun get_list :: "nat \<Rightarrow> nat \<Rightarrow> os_state \<Rightarrow> u32 option list \<times> os_state" where
  "get_list i 0 s = ([], s)"
| "get_list i (Suc n) s =
     (let (b, s1) = get_block i s; (bs, s2) = get_list i n s1 in (b # bs, s2))"

lemma get_list_gets: "mem.gets i n s = get_list i n s"
  by (induction n arbitrary: s) (simp_all add: Let_def split: prod.split)

text \<open>
  C31: Allocation.  As long as the partition has \<open>n\<close> free blocks, \<open>n\<close> calls of \<^verbatim>\<open>OSMemGet\<close> return \<open>n\<close>
  different blocks of the partition, none of which is still on its free list; the next call on an
  exhausted partition returns \<^verbatim>\<open>NULL\<close> with \<^verbatim>\<open>OS_ERR_MEM_NO_FREE_BLKS\<close> and changes nothing.
\<close>

theorem OSMemGet_distinct:
  assumes "part_ok i s" "n \<le> length (mem_free i s)"
  shows "\<exists>bs s'. get_list i n s = (map Some bs, s') \<and> length bs = n \<and> distinct bs \<and>
    set bs \<subseteq> mem_blocks (OSMemTbl s i) \<and> set bs \<inter> set (mem_free i s') = {} \<and> part_ok i s' \<and>
    (n = length (mem_free i s) \<longrightarrow>
      OSMemGet (PMem i) True s' = (NULL, Some OS_ERR_MEM_NO_FREE_BLKS, s'))"
proof -
  define s' where "s' = snd (get_list i n s)"
  obtain bs where bs: "fst (get_list i n s) = map Some bs" "length bs = n" "distinct bs"
    "set bs \<subseteq> mem_blocks (OSMemTbl s i)" "set bs \<inter> set (mem_free i s') = {}"
    using mem.gets_distinct [OF assms] unfolding get_list_gets s'_def by blast
  have g: "part_ok i s'" "mem_free i s' = drop n (mem_free i s)"
    using mem.gets_free [OF assms(1), of n] unfolding get_list_gets s'_def by auto
  have "get_list i n s = (map Some bs, s')"
    using bs(1) by (simp add: s'_def prod_eq_iff)
  moreover have "n = length (mem_free i s) \<longrightarrow>
      OSMemGet (PMem i) True s' = (NULL, Some OS_ERR_MEM_NO_FREE_BLKS, s')"
    using OSMemGet_none [OF g(1)] g(2) by simp
  ultimately show ?thesis using bs g(1) by blast
qed

lemma demo_part: "part_ok 5 demo" "mem_free 5 demo = []"
  by (simp_all add: part_ok_def mem_free_def demo_def mem_zero_def mem_blocks_def Let_def)

theorem OSMemGet_distinct_witness:
  "OSMemGet (PMem 5) True demo = (NULL, Some OS_ERR_MEM_NO_FREE_BLKS, demo)"
  using OSMemGet_distinct [OF demo_part(1), of 0] by (simp add: demo_part(2))

text \<open>
  Giving back.  \<^verbatim>\<open>OSMemPut\<close> of a block in use puts it at the head of the free list with the
  invariant kept, and the next \<^verbatim>\<open>OSMemGet\<close> returns that block; on a partition whose blocks are all free
  it fails with \<^verbatim>\<open>OS_ERR_MEM_FULL\<close> and changes nothing.
\<close>

theorem OSMemPut_roundtrip:
  assumes ok: "part_ok i s"
  shows "(\<forall>b \<in> mem_blocks (OSMemTbl s i) - set (mem_free i s).
      \<exists>s' s''. OSMemPut (PMem i) (PWord b) s = (OS_ERR_NONE, s') \<and> part_ok i s' \<and>
        mem_free i s' = b # mem_free i s \<and>
        OSMemGet (PMem i) True s' = (PWord b, Some OS_ERR_NONE, s'') \<and> mem_free i s'' = mem_free i s) \<and>
    (set (mem_free i s) = mem_blocks (OSMemTbl s i) \<longrightarrow>
      (\<forall>b. b \<noteq> 0 \<longrightarrow> OSMemPut (PMem i) (PWord b) s = (OS_ERR_MEM_FULL, s)))"
proof (intro conjI ballI impI allI)
  fix b assume b: "b \<in> mem_blocks (OSMemTbl s i) - set (mem_free i s)"
  then have b': "b \<in> mem_blocks (OSMemTbl s i)" "b \<notin> set (mem_free i s)" by auto
  define s' where "s' = snd (OSMemPut (PMem i) (PWord b) s)"
  note p = OSMemPut_free [OF ok b', folded s'_def]
  note g = OSMemGet_free [OF p(2,3)]
  have "OSMemPut (PMem i) (PWord b) s = (OS_ERR_NONE, s')"
    using p(1) by (simp add: s'_def prod_eq_iff)
  with p g(1,3) show "\<exists>s' s''. OSMemPut (PMem i) (PWord b) s = (OS_ERR_NONE, s') \<and> part_ok i s' \<and>
      mem_free i s' = b # mem_free i s \<and>
      OSMemGet (PMem i) True s' = (PWord b, Some OS_ERR_NONE, s'') \<and> mem_free i s'' = mem_free i s"
    by blast
next
  fix b :: u32 assume full: "set (mem_free i s) = mem_blocks (OSMemTbl s i)" and b: "b \<noteq> 0"
  have "unat (OSMemNFree (OSMemTbl s i)) = unat (OSMemNBlks (OSMemTbl s i))"
    using ok full distinct_card [of "mem_free i s"] by (simp add: part_ok_def Let_def)
  then show "OSMemPut (PMem i) (PWord b) s = (OS_ERR_MEM_FULL, s)"
    using b by (simp add: OSMemPut_def word_le_nat_alt)
qed

theorem OSMemPut_roundtrip_witness:
  "OSMemPut (PMem 5) (PWord 8) demo = (OS_ERR_MEM_FULL, demo)"
proof -
  have "set (mem_free 5 demo) = mem_blocks (OSMemTbl demo 5)"
    by (simp add: demo_part(2)) (simp add: mem_blocks_def demo_def mem_zero_def)
  with OSMemPut_roundtrip [OF demo_part(1)] show ?thesis by simp
qed

end
