(* ===== verification/Os_Name.thy ===== *)
theory Os_Name
  imports Os_Event
begin

text \<open>
  The names of events, tasks and memory partitions (os_core.c, os_task.c, os_mem.c).  A C string is
  the list of the bytes of its array; reading or writing past the end of an array is undefined and
  has the value \<open>None\<close>.
\<close>

section \<open>String routines\<close>

fun OS_StrLen :: "u8 list \<Rightarrow> u8 option" where
  "OS_StrLen [] = None"
| "OS_StrLen (c # psrc) = (if c \<noteq> 0 then map_option (\<lambda>len. len + 1) (OS_StrLen psrc) else Some 0)"

fun OS_StrCopy :: "u8 list \<Rightarrow> u8 list \<Rightarrow> (u8 \<times> u8 list) option" where
  "OS_StrCopy pdest [] = None"
| "OS_StrCopy [] (c # psrc) = None"
| "OS_StrCopy (d # pdest) (c # psrc) =
     (if c \<noteq> 0 then map_option (\<lambda>(len, ds). (len + 1, c # ds)) (OS_StrCopy pdest psrc)
      else Some (0, 0 # pdest))"

text \<open>The array that holds the string \<open>xs\<close>, with arbitrary bytes after the terminator.\<close>

definition c_string :: "u8 list \<Rightarrow> u8 list \<Rightarrow> bool" where
  "c_string xs arr \<longleftrightarrow> 0 \<notin> set xs \<and> (\<exists>rest. arr = xs @ 0 # rest)"

lemma OS_StrLen_string: "c_string xs arr \<Longrightarrow> OS_StrLen arr = Some (of_nat (length xs))"
proof -
  have "0 \<notin> set xs \<Longrightarrow> OS_StrLen (xs @ 0 # rest) = Some (of_nat (length xs))" for rest
    by (induction xs) (auto simp: algebra_simps)
  then show "c_string xs arr \<Longrightarrow> OS_StrLen arr = Some (of_nat (length xs))"
    by (auto simp: c_string_def)
qed

lemma OS_StrCopy_string:
  assumes "c_string xs arr" "length xs < length pdest"
  shows "OS_StrCopy pdest arr = Some (of_nat (length xs), xs @ 0 # drop (Suc (length xs)) pdest)"
proof -
  have "0 \<notin> set xs \<Longrightarrow> length xs < length ds \<Longrightarrow>
      OS_StrCopy ds (xs @ 0 # rest) = Some (of_nat (length xs), xs @ 0 # drop (Suc (length xs)) ds)"
    for ds rest
  proof (induction xs arbitrary: ds)
    case Nil
    then show ?case by (cases ds) auto
  next
    case (Cons x xs)
    then show ?case by (cases ds) (auto simp: algebra_simps)
  qed
  then show ?thesis using assms by (auto simp: c_string_def)
qed

lemma OS_StrCopy_overflow:
  assumes "c_string xs arr" "length pdest \<le> length xs"
  shows "OS_StrCopy pdest arr = None"
proof -
  have "0 \<notin> set xs \<Longrightarrow> length ds \<le> length xs \<Longrightarrow> OS_StrCopy ds (xs @ 0 # rest) = None" for ds rest
  proof (induction xs arbitrary: ds)
    case (Cons x xs)
    then show ?case by (cases ds) auto
  qed simp
  then show ?thesis using assms by (auto simp: c_string_def)
qed

text \<open>\<^verbatim>\<open>len = OS_StrLen(pname); if (len > SIZE - 1) too long; OS_StrCopy(name, pname);\<close>\<close>

definition set_name :: "nat \<Rightarrow> u8 list \<Rightarrow> u8 list \<Rightarrow> (bool \<times> u8 list) option" where
  "set_name max_size pname name =
     (case OS_StrLen pname of
        None \<Rightarrow> None
      | Some len \<Rightarrow>
          if len > of_nat (max_size - 1) then Some (False, name)
          else map_option (\<lambda>(len, name'). (True, name')) (OS_StrCopy name pname))"

section \<open>Event names\<close>

text \<open>\<open>pname = None\<close> is the \<^verbatim>\<open>NULL\<close> pointer.  The results of \<^verbatim>\<open>Get\<close>: length, error and the caller's array.\<close>

definition named_event :: "event_type \<Rightarrow> bool" where
  "named_event ty \<longleftrightarrow> ty = OS_EVENT_TYPE_SEM \<or> ty = OS_EVENT_TYPE_MUTEX \<or> ty = OS_EVENT_TYPE_MBOX \<or>
     ty = OS_EVENT_TYPE_Q"

definition OSEventNameGet ::
  "ptr \<Rightarrow> u8 list option \<Rightarrow> bool \<Rightarrow> os_state \<Rightarrow> (u8 \<times> os_err option \<times> u8 list option) option" where
  "OSEventNameGet pevent pname perr s =
     (if \<not> perr then Some (0, None, pname)
      else if pevent = NULL then Some (0, Some OS_ERR_PEVENT_NULL, pname)
      else case pname of
          None \<Rightarrow> Some (0, Some OS_ERR_PNAME_NULL, pname)
        | Some buf \<Rightarrow>
            if OSIntNesting s > 0 then Some (0, Some OS_ERR_NAME_GET_ISR, pname)
            else
              let ev = OSEventTbl s (event_of pevent)
              in if \<not> named_event (OSEventType ev) then Some (0, Some OS_ERR_EVENT_TYPE, pname)
                 else map_option (\<lambda>(len, buf'). (len, Some OS_ERR_NONE, Some buf'))
                        (OS_StrCopy buf (OSEventName ev)))"

definition OSEventNameSet ::
  "ptr \<Rightarrow> u8 list option \<Rightarrow> bool \<Rightarrow> os_state \<Rightarrow> (os_err option \<times> os_state) option" where
  "OSEventNameSet pevent pname perr s =
     (if \<not> perr then Some (None, s)
      else if pevent = NULL then Some (Some OS_ERR_PEVENT_NULL, s)
      else case pname of
          None \<Rightarrow> Some (Some OS_ERR_PNAME_NULL, s)
        | Some nm \<Rightarrow>
            if OSIntNesting s > 0 then Some (Some OS_ERR_NAME_SET_ISR, s)
            else
              let e = event_of pevent; ev = OSEventTbl s e
              in if \<not> named_event (OSEventType ev) then Some (Some OS_ERR_EVENT_TYPE, s)
                 else map_option (\<lambda>(ok, name').
                        if ok then (Some OS_ERR_NONE, upd_event e (\<lambda>ev. ev\<lparr>OSEventName := name'\<rparr>) s)
                        else (Some OS_ERR_EVENT_NAME_TOO_LONG, s))
                        (set_name OS_EVENT_NAME_SIZE nm (OSEventName ev)))"

section \<open>Task names\<close>

text \<open>\<^verbatim>\<open>if (prio == OS_PRIO_SELF) prio = OSTCBCur->OSTCBPrio; ptcb = OSTCBPrioTbl[prio];\<close>\<close>

definition task_of_prio :: "u8 \<Rightarrow> os_state \<Rightarrow> ptr" where
  "task_of_prio prio s =
     OSTCBPrioTbl s (unat (if prio = OS_PRIO_SELF then OSTCBPrio (cur_tcb s) else prio))"

definition OSTaskNameGet ::
  "u8 \<Rightarrow> u8 list option \<Rightarrow> bool \<Rightarrow> os_state \<Rightarrow> (u8 \<times> os_err option \<times> u8 list option) option" where
  "OSTaskNameGet prio pname perr s =
     (if \<not> perr then Some (0, None, pname)
      else if prio > OS_LOWEST_PRIO \<and> prio \<noteq> OS_PRIO_SELF then Some (0, Some OS_ERR_PRIO_INVALID, pname)
      else case pname of
          None \<Rightarrow> Some (0, Some OS_ERR_PNAME_NULL, pname)
        | Some buf \<Rightarrow>
            if OSIntNesting s > 0 then Some (0, Some OS_ERR_NAME_GET_ISR, pname)
            else
              let ptcb = task_of_prio prio s
              in if ptcb = NULL then Some (0, Some OS_ERR_TASK_NOT_EXIST, pname)
                 else if ptcb = OS_TCB_RESERVED then Some (0, Some OS_ERR_TASK_NOT_EXIST, pname)
                 else map_option (\<lambda>(len, buf'). (len, Some OS_ERR_NONE, Some buf'))
                        (OS_StrCopy buf (OSTCBTaskName (OSTCBTbl s (tcb_of ptcb)))))"

definition OSTaskNameSet ::
  "u8 \<Rightarrow> u8 list option \<Rightarrow> bool \<Rightarrow> os_state \<Rightarrow> (os_err option \<times> os_state) option" where
  "OSTaskNameSet prio pname perr s =
     (if \<not> perr then Some (None, s)
      else if prio > OS_LOWEST_PRIO \<and> prio \<noteq> OS_PRIO_SELF then Some (Some OS_ERR_PRIO_INVALID, s)
      else case pname of
          None \<Rightarrow> Some (Some OS_ERR_PNAME_NULL, s)
        | Some nm \<Rightarrow>
            if OSIntNesting s > 0 then Some (Some OS_ERR_NAME_SET_ISR, s)
            else
              let ptcb = task_of_prio prio s
              in if ptcb = NULL then Some (Some OS_ERR_TASK_NOT_EXIST, s)
                 else if ptcb = OS_TCB_RESERVED then Some (Some OS_ERR_TASK_NOT_EXIST, s)
                 else map_option (\<lambda>(ok, name').
                        if ok then (Some OS_ERR_NONE,
                          upd_tcb (tcb_of ptcb) (\<lambda>t. t\<lparr>OSTCBTaskName := name'\<rparr>) s)
                        else (Some OS_ERR_TASK_NAME_TOO_LONG, s))
                        (set_name OS_TASK_NAME_SIZE nm (OSTCBTaskName (OSTCBTbl s (tcb_of ptcb)))))"

section \<open>Partition names\<close>

definition OSMemNameGet ::
  "ptr \<Rightarrow> u8 list option \<Rightarrow> bool \<Rightarrow> os_state \<Rightarrow> (u8 \<times> os_err option \<times> u8 list option) option" where
  "OSMemNameGet pmem pname perr s =
     (if \<not> perr then Some (0, None, pname)
      else if pmem = NULL then Some (0, Some OS_ERR_MEM_INVALID_PMEM, pname)
      else case pname of
          None \<Rightarrow> Some (0, Some OS_ERR_PNAME_NULL, pname)
        | Some buf \<Rightarrow>
            if OSIntNesting s > 0 then Some (0, Some OS_ERR_NAME_GET_ISR, pname)
            else map_option (\<lambda>(len, buf'). (len, Some OS_ERR_NONE, Some buf'))
                   (OS_StrCopy buf (OSMemName (OSMemTbl s (mem_of pmem)))))"

definition OSMemNameSet ::
  "ptr \<Rightarrow> u8 list option \<Rightarrow> bool \<Rightarrow> os_state \<Rightarrow> (os_err option \<times> os_state) option" where
  "OSMemNameSet pmem pname perr s =
     (if \<not> perr then Some (None, s)
      else if pmem = NULL then Some (Some OS_ERR_MEM_INVALID_PMEM, s)
      else case pname of
          None \<Rightarrow> Some (Some OS_ERR_PNAME_NULL, s)
        | Some nm \<Rightarrow>
            if OSIntNesting s > 0 then Some (Some OS_ERR_NAME_SET_ISR, s)
            else
              let i = mem_of pmem
              in map_option (\<lambda>(ok, name').
                   if ok then (Some OS_ERR_NONE,
                     s\<lparr>OSMemTbl := (OSMemTbl s)(i := (OSMemTbl s i)\<lparr>OSMemName := name'\<rparr>)\<rparr>)
                   else (Some OS_ERR_MEM_NAME_TOO_LONG, s))
                   (set_name OS_MEM_NAME_SIZE nm (OSMemName (OSMemTbl s i))))"

section \<open>Setting and getting a name\<close>

lemma set_name_fits:
  assumes "c_string xs arr" "length xs \<le> 31" "length name = 32"
  shows "set_name 32 arr name = Some (True, xs @ 0 # drop (Suc (length xs)) name)"
proof -
  have "unat (of_nat (length xs) :: u8) = length xs"
    using assms(2) by (simp add: unat_of_nat)
  then have "\<not> (of_nat (length xs) :: u8) > 31"
    using assms(2) by (simp add: word_less_nat_alt)
  then show ?thesis
    using assms by (simp add: set_name_def OS_StrLen_string OS_StrCopy_string)
qed

lemma set_name_too_long:
  assumes "c_string xs arr" "31 < length xs" "length xs \<le> 255"
  shows "set_name 32 arr name = Some (False, name)"
proof -
  have "unat (of_nat (length xs) :: u8) = length xs"
    using assms(3) by (simp add: unat_of_nat)
  then have "(of_nat (length xs) :: u8) > 31"
    using assms(2) by (simp add: word_less_nat_alt)
  then show ?thesis
    using assms by (simp add: set_name_def OS_StrLen_string)
qed

text \<open>
  The 8-bit length of a string of 256 to 287 characters is at most 31: the check passes and the copy
  runs over the end of the 32-byte array.
\<close>

lemma set_name_wraps:
  assumes "c_string xs arr" "256 \<le> length xs" "length xs \<le> 287" "length name = 32"
  shows "set_name 32 arr name = None"
proof -
  have "unat (of_nat (length xs) :: u8) = length xs - 256"
    using assms(2,3) by (simp add: unat_of_nat mod_if)
  then have "\<not> (of_nat (length xs) :: u8) > 31"
    using assms(3) by (simp add: word_less_nat_alt)
  then show ?thesis
    using assms by (simp add: set_name_def OS_StrLen_string OS_StrCopy_overflow)
qed

text \<open>
  Event names.  A name of at most 31 characters is stored, and reading it back gives the same
  characters and their number; a name of 32 to 255 characters is refused and nothing changes.
\<close>

theorem OSEventName_roundtrip:
  assumes "named_event (OSEventType (OSEventTbl s e))" "OSIntNesting s = 0"
    and "length (OSEventName (OSEventTbl s e)) = 32" "c_string xs arr" "length xs \<le> 255"
    and "length xs < length buf"
  shows "if length xs \<le> 31
    then \<exists>s'. OSEventNameSet (PEvent e) (Some arr) True s = Some (Some OS_ERR_NONE, s') \<and>
      (\<exists>buf'. OSEventNameGet (PEvent e) (Some buf) True s' =
         Some (of_nat (length xs), Some OS_ERR_NONE, Some buf') \<and> c_string xs buf')
    else OSEventNameSet (PEvent e) (Some arr) True s = Some (Some OS_ERR_EVENT_NAME_TOO_LONG, s)"
proof (cases "length xs \<le> 31")
  case True
  let ?n = "xs @ 0 # drop (Suc (length xs)) (OSEventName (OSEventTbl s e))"
  define s' where "s' = upd_event e (\<lambda>ev. ev\<lparr>OSEventName := ?n\<rparr>) s"
  have set: "OSEventNameSet (PEvent e) (Some arr) True s = Some (Some OS_ERR_NONE, s')"
    using assms True by (simp add: OSEventNameSet_def set_name_fits s'_def)
  have str: "c_string xs ?n" using assms(4) by (auto simp: c_string_def)
  have "OSEventNameGet (PEvent e) (Some buf) True s' = Some (of_nat (length xs), Some OS_ERR_NONE,
      Some (xs @ 0 # drop (Suc (length xs)) buf))"
    using assms OS_StrCopy_string [OF str assms(6)] by (simp add: OSEventNameGet_def s'_def)
  moreover have "c_string xs (xs @ 0 # drop (Suc (length xs)) buf)"
    using assms(4) by (auto simp: c_string_def)
  ultimately show ?thesis using set True by auto
next
  case False
  with assms show ?thesis
    by (simp add: OSEventNameSet_def set_name_too_long)
qed

theorem OSEventName_roundtrip_witness:
  "\<exists>s'. OSEventNameSet (PEvent 1) (Some [0x41, 0x42, 0]) True demo = Some (Some OS_ERR_NONE, s') \<and>
    (\<exists>buf'. OSEventNameGet (PEvent 1) (Some (replicate 40 0)) True s' =
       Some (2, Some OS_ERR_NONE, Some buf') \<and> c_string [0x41, 0x42] buf')"
proof -
  have "named_event (OSEventType (OSEventTbl demo 1))" "OSIntNesting demo = 0"
    "length (OSEventName (OSEventTbl demo 1)) = 32"
    by (simp_all add: demo_def event_zero_def named_event_def)
  moreover have "c_string [0x41, 0x42] [0x41, 0x42, 0]" by (simp add: c_string_def)
  ultimately show ?thesis
    using OSEventName_roundtrip [of demo 1 "[0x41, 0x42]" "[0x41, 0x42, 0]" "replicate 40 0"] by simp
qed

text \<open>A name of 256 characters overruns the array.\<close>

lemma OSEventNameSet_overruns:
  assumes "named_event (OSEventType (OSEventTbl s e))" "OSIntNesting s = 0"
    and "length (OSEventName (OSEventTbl s e)) = 32" "c_string xs arr" "length xs = 256"
  shows "OSEventNameSet (PEvent e) (Some arr) True s = None"
  using assms by (simp add: OSEventNameSet_def set_name_wraps)

end
