(* ===== verification/Os_Flag.thy ===== *)
theory Os_Flag
  imports
    Os_Name
begin

text \<open>
  os_flag.c: event flag groups.  A waiting task is a node of a doubly linked list that starts at
  \<^verbatim>\<open>OSFlagWaitList\<close>; a post walks the list and readies every task whose condition the new flags meet.
\<close>

section \<open>Conditions on flags\<close>

text \<open>
  The four cases of \<^verbatim>\<open>switch (wait_type)\<close> that every operation repeats: the flags that are ready and
  whether they satisfy the wait; \<open>None\<close> is the \<^verbatim>\<open>default\<close> case.
\<close>

definition flag_test :: "u8 \<Rightarrow> u16 \<Rightarrow> u16 \<Rightarrow> (u16 \<times> bool) option" where
  "flag_test wait_type grp_flags flags =
     (if wait_type = OS_FLAG_WAIT_SET_ALL then
        let flags_rdy = grp_flags AND flags in Some (flags_rdy, flags_rdy = flags)
      else if wait_type = OS_FLAG_WAIT_SET_ANY then
        let flags_rdy = grp_flags AND flags in Some (flags_rdy, flags_rdy \<noteq> 0)
      else if wait_type = OS_FLAG_WAIT_CLR_ALL then
        let flags_rdy = NOT grp_flags AND flags in Some (flags_rdy, flags_rdy = flags)
      else if wait_type = OS_FLAG_WAIT_CLR_ANY then
        let flags_rdy = NOT grp_flags AND flags in Some (flags_rdy, flags_rdy \<noteq> 0)
      else None)"

text \<open>Consuming: \<^verbatim>\<open>OSFlagFlags &= ~flags_rdy\<close> when waiting for set flags, \<^verbatim>\<open>|=\<close> for cleared ones.\<close>

definition flag_consume :: "u8 \<Rightarrow> u16 \<Rightarrow> u16 \<Rightarrow> u16" where
  "flag_consume wait_type flags_rdy grp_flags =
     (if wait_type = OS_FLAG_WAIT_SET_ALL \<or> wait_type = OS_FLAG_WAIT_SET_ANY
      then grp_flags AND NOT flags_rdy else grp_flags OR flags_rdy)"

text \<open>\<^verbatim>\<open>wait_type & OS_FLAG_CONSUME\<close> and \<^verbatim>\<open>wait_type &= ~OS_FLAG_CONSUME\<close>.\<close>

definition flag_consumes :: "u8 \<Rightarrow> bool" where
  "flag_consumes wait_type \<longleftrightarrow> wait_type AND OS_FLAG_CONSUME \<noteq> 0"

definition flag_wait_type :: "u8 \<Rightarrow> u8" where
  "flag_wait_type wait_type =
     (if flag_consumes wait_type then wait_type AND NOT OS_FLAG_CONSUME else wait_type)"

text \<open>Consumption of the ready flags in group \<open>g\<close>, when asked for.\<close>

definition consume_if :: "u8 \<Rightarrow> u16 \<Rightarrow> nat \<Rightarrow> os_state \<Rightarrow> os_state" where
  "consume_if wait_type flags_rdy g s =
     (if flag_consumes wait_type
      then upd_flag g (\<lambda>gr. gr\<lparr>OSFlagFlags :=
             flag_consume (flag_wait_type wait_type) flags_rdy (OSFlagFlags gr)\<rparr>) s
      else s)"

section \<open>Operations\<close>

definition OSFlagAccept ::
  "ptr \<Rightarrow> u16 \<Rightarrow> u8 \<Rightarrow> bool \<Rightarrow> os_state \<Rightarrow> u16 \<times> os_err option \<times> os_state" where
  "OSFlagAccept pgrp flags wait_type perr s =
     (if \<not> perr then (0, None, s)
      else if pgrp = NULL then (0, Some OS_ERR_FLAG_INVALID_PGRP, s)
      else
        let g = flag_of pgrp
        in if OSFlagType (OSFlagTbl s g) \<noteq> OS_EVENT_TYPE_FLAG then (0, Some OS_ERR_EVENT_TYPE, s)
           else case flag_test (flag_wait_type wait_type) (OSFlagFlags (OSFlagTbl s g)) flags of
               None \<Rightarrow> (0, Some OS_ERR_FLAG_WAIT_TYPE, s)
             | Some (flags_rdy, sat) \<Rightarrow>
                 if sat then (flags_rdy, Some OS_ERR_NONE, consume_if wait_type flags_rdy g s)
                 else (flags_rdy, Some OS_ERR_FLAG_NOT_RDY, s))"

definition OSFlagCreate :: "u16 \<Rightarrow> bool \<Rightarrow> os_state \<Rightarrow> ptr \<times> os_err option \<times> os_state" where
  "OSFlagCreate flags perr s =
     (if \<not> perr then (NULL, None, s)
      else if OSIntNesting s > 0 then (NULL, Some OS_ERR_CREATE_ISR, s)
      else
        let pgrp = OSFlagFreeList s
        in if pgrp \<noteq> NULL then
             let s1 = s\<lparr>OSFlagFreeList := OSFlagWaitList (OSFlagTbl s (flag_of (OSFlagFreeList s)))\<rparr>
             in (pgrp, Some OS_ERR_NONE,
                 upd_flag (flag_of pgrp) (\<lambda>gr. gr\<lparr>OSFlagType := OS_EVENT_TYPE_FLAG,
                   OSFlagFlags := flags, OSFlagWaitList := NULL,
                   OSFlagName := name_unknown (OSFlagName gr)\<rparr>) s1)
           else (pgrp, Some OS_ERR_FLAG_GRP_DEPLETED, s))"

definition OS_FlagUnlink :: "nat \<Rightarrow> os_state \<Rightarrow> os_state" where
  "OS_FlagUnlink pnode s =
     (let nd = OSFlagNodes s pnode;
          pnode_prev = OSFlagNodePrev nd;
          pnode_next = OSFlagNodeNext nd;
          s1 = (if pnode_prev = NULL then
                  let s' = upd_flag (flag_of (OSFlagNodeFlagGrp nd))
                             (\<lambda>gr. gr\<lparr>OSFlagWaitList := pnode_next\<rparr>) s
                  in if pnode_next \<noteq> NULL
                     then upd_node (node_of pnode_next) (\<lambda>n. n\<lparr>OSFlagNodePrev := NULL\<rparr>) s' else s'
                else
                  let s' = upd_node (node_of pnode_prev) (\<lambda>n. n\<lparr>OSFlagNodeNext := pnode_next\<rparr>) s
                  in if pnode_next \<noteq> NULL
                     then upd_node (node_of pnode_next) (\<lambda>n. n\<lparr>OSFlagNodePrev := pnode_prev\<rparr>) s'
                     else s')
      in upd_tcb (tcb_of (OSFlagNodeTCB (OSFlagNodes s1 pnode))) (\<lambda>t. t\<lparr>OSTCBFlagNode := NULL\<rparr>) s1)"

definition OS_FlagTaskRdy :: "nat \<Rightarrow> u16 \<Rightarrow> os_state \<Rightarrow> bool \<times> os_state" where
  "OS_FlagTaskRdy pnode flags_rdy s =
     (let ptcb = tcb_of (OSFlagNodeTCB (OSFlagNodes s pnode));
          s1 = upd_tcb ptcb (\<lambda>t. t\<lparr>OSTCBDly := 0, OSTCBFlagsRdy := flags_rdy,
                 OSTCBStat := OSTCBStat t AND NOT OS_STAT_FLAG,
                 OSTCBStatPend := OS_STAT_PEND_OK\<rparr>) s;
          sched = (OSTCBStat (OSTCBTbl s1 ptcb) = OS_STAT_RDY);
          s2 = (if sched then rdy_insert ptcb (OSTCBY (OSTCBTbl s1 ptcb)) s1 else s1)
      in (sched, OS_FlagUnlink pnode s2))"

text \<open>The loop of a deletion; a group has at most one node per task, 13 rounds of fuel are enough.\<close>

fun flag_del_loop :: "nat \<Rightarrow> ptr \<Rightarrow> os_state \<Rightarrow> os_state option" where
  "flag_del_loop 0 pnode s = (if pnode = NULL then Some s else None)"
| "flag_del_loop (Suc n) pnode s =
     (if pnode = NULL then Some s
      else
        let s1 = snd (OS_FlagTaskRdy (node_of pnode) 0 s)
        in flag_del_loop n (OSFlagNodeNext (OSFlagNodes s1 (node_of pnode))) s1)"

definition flag_put :: "nat \<Rightarrow> os_state \<Rightarrow> os_state" where
  "flag_put g s =
     (upd_flag g (\<lambda>gr. gr\<lparr>OSFlagName := name_unknown (OSFlagName gr),
        OSFlagType := OS_EVENT_TYPE_UNUSED, OSFlagWaitList := OSFlagFreeList s, OSFlagFlags := 0\<rparr>) s)
     \<lparr>OSFlagFreeList := PFlagGrp g\<rparr>"

definition OSFlagDel :: "ptr \<Rightarrow> u8 \<Rightarrow> bool \<Rightarrow> os_state \<Rightarrow> (ptr \<times> os_err option \<times> os_state) option" where
  "OSFlagDel pgrp opt perr s =
     (if \<not> perr then Some (pgrp, None, s)
      else if pgrp = NULL then Some (pgrp, Some OS_ERR_FLAG_INVALID_PGRP, s)
      else if OSIntNesting s > 0 then Some (pgrp, Some OS_ERR_DEL_ISR, s)
      else
        let g = flag_of pgrp
        in if OSFlagType (OSFlagTbl s g) \<noteq> OS_EVENT_TYPE_FLAG
           then Some (pgrp, Some OS_ERR_EVENT_TYPE, s)
           else
             let tasks_waiting = OSFlagWaitList (OSFlagTbl s g) \<noteq> NULL
             in if opt = OS_DEL_NO_PEND then
                  if \<not> tasks_waiting then Some (NULL, Some OS_ERR_NONE, flag_put g s)
                  else Some (pgrp, Some OS_ERR_TASK_WAITING, s)
                else if opt = OS_DEL_ALWAYS then
                  (case flag_del_loop 13 (OSFlagWaitList (OSFlagTbl s g)) s of
                     None \<Rightarrow> None
                   | Some s1 \<Rightarrow>
                       let s2 = flag_put g s1
                       in Some (NULL, Some OS_ERR_NONE, if tasks_waiting then OS_Sched s2 else s2))
                else Some (pgrp, Some OS_ERR_INVALID_OPT, s))"

definition OSFlagNameGet ::
  "ptr \<Rightarrow> u8 list option \<Rightarrow> bool \<Rightarrow> os_state \<Rightarrow> (u8 \<times> os_err option \<times> u8 list option) option" where
  "OSFlagNameGet pgrp pname perr s =
     (if \<not> perr then Some (0, None, pname)
      else if pgrp = NULL then Some (0, Some OS_ERR_FLAG_INVALID_PGRP, pname)
      else case pname of
          None \<Rightarrow> Some (0, Some OS_ERR_PNAME_NULL, pname)
        | Some buf \<Rightarrow>
            if OSIntNesting s > 0 then Some (0, Some OS_ERR_NAME_GET_ISR, pname)
            else
              let gr = OSFlagTbl s (flag_of pgrp)
              in if OSFlagType gr \<noteq> OS_EVENT_TYPE_FLAG then Some (0, Some OS_ERR_EVENT_TYPE, pname)
                 else map_option (\<lambda>(len, buf'). (len, Some OS_ERR_NONE, Some buf'))
                        (OS_StrCopy buf (OSFlagName gr)))"

definition OSFlagNameSet ::
  "ptr \<Rightarrow> u8 list option \<Rightarrow> bool \<Rightarrow> os_state \<Rightarrow> (os_err option \<times> os_state) option" where
  "OSFlagNameSet pgrp pname perr s =
     (if \<not> perr then Some (None, s)
      else if pgrp = NULL then Some (Some OS_ERR_FLAG_INVALID_PGRP, s)
      else case pname of
          None \<Rightarrow> Some (Some OS_ERR_PNAME_NULL, s)
        | Some nm \<Rightarrow>
            if OSIntNesting s > 0 then Some (Some OS_ERR_NAME_SET_ISR, s)
            else
              let g = flag_of pgrp; gr = OSFlagTbl s g
              in if OSFlagType gr \<noteq> OS_EVENT_TYPE_FLAG then Some (Some OS_ERR_EVENT_TYPE, s)
                 else map_option (\<lambda>(ok, name').
                        if ok then (Some OS_ERR_NONE, upd_flag g (\<lambda>gr. gr\<lparr>OSFlagName := name'\<rparr>) s)
                        else (Some OS_ERR_FLAG_NAME_TOO_LONG, s))
                        (set_name OS_FLAG_NAME_SIZE nm (OSFlagName gr)))"

text \<open>The node is the local variable of \<^verbatim>\<open>OSFlagPend\<close> in the frame of the running task.\<close>

definition OS_FlagBlock :: "nat \<Rightarrow> nat \<Rightarrow> u16 \<Rightarrow> u8 \<Rightarrow> u16 \<Rightarrow> os_state \<Rightarrow> os_state" where
  "OS_FlagBlock g pnode flags wait_type timeout s =
     (let s1 = upd_cur (\<lambda>t. t\<lparr>OSTCBStat := OSTCBStat t OR OS_STAT_FLAG,
                 OSTCBStatPend := OS_STAT_PEND_OK, OSTCBDly := timeout,
                 OSTCBFlagNode := PFlagNode pnode\<rparr>) s;
          pnode_next = OSFlagWaitList (OSFlagTbl s1 g);
          s2 = upd_node pnode (\<lambda>n. n\<lparr>OSFlagNodeFlags := flags, OSFlagNodeWaitType := wait_type,
                 OSFlagNodeTCB := OSTCBCur s1, OSFlagNodeNext := pnode_next,
                 OSFlagNodePrev := NULL, OSFlagNodeFlagGrp := PFlagGrp g\<rparr>) s1;
          s3 = (if pnode_next \<noteq> NULL
                then upd_node (node_of pnode_next) (\<lambda>n. n\<lparr>OSFlagNodePrev := PFlagNode pnode\<rparr>) s2
                else s2);
          s4 = upd_flag g (\<lambda>gr. gr\<lparr>OSFlagWaitList := PFlagNode pnode\<rparr>) s3
      in rdy_remove (tcb_of (OSTCBCur s4)) s4)"

text \<open>\<^verbatim>\<open>OSFlagPend\<close> up to its call of \<^verbatim>\<open>OS_Sched\<close>, and what it does when the task runs again.\<close>

definition OSFlagPend ::
  "ptr \<Rightarrow> u16 \<Rightarrow> u8 \<Rightarrow> u16 \<Rightarrow> bool \<Rightarrow> os_state \<Rightarrow> (u16 \<times> os_err option) call \<times> os_state" where
  "OSFlagPend pgrp flags wait_type timeout perr s =
     (if \<not> perr then (Done (0, None), s)
      else if pgrp = NULL then (Done (0, Some OS_ERR_FLAG_INVALID_PGRP), s)
      else if OSIntNesting s > 0 then (Done (0, Some OS_ERR_PEND_ISR), s)
      else if OSLockNesting s > 0 then (Done (0, Some OS_ERR_PEND_LOCKED), s)
      else
        let g = flag_of pgrp
        in if OSFlagType (OSFlagTbl s g) \<noteq> OS_EVENT_TYPE_FLAG
           then (Done (0, Some OS_ERR_EVENT_TYPE), s)
           else case flag_test (flag_wait_type wait_type) (OSFlagFlags (OSFlagTbl s g)) flags of
               None \<Rightarrow> (Done (0, Some OS_ERR_FLAG_WAIT_TYPE), s)
             | Some (flags_rdy, sat) \<Rightarrow>
                 if sat then
                   (Done (flags_rdy, Some OS_ERR_NONE),
                    upd_cur (\<lambda>t. t\<lparr>OSTCBFlagsRdy := flags_rdy\<rparr>) (consume_if wait_type flags_rdy g s))
                 else
                   (Wait, OS_Sched (OS_FlagBlock g (tcb_of (OSTCBCur s)) flags
                      (flag_wait_type wait_type) timeout s)))"

definition OSFlagPend_resume :: "ptr \<Rightarrow> u8 \<Rightarrow> os_state \<Rightarrow> u16 \<times> os_err \<times> os_state" where
  "OSFlagPend_resume pgrp wait_type s =
     (if OSTCBStatPend (cur_tcb s) \<noteq> OS_STAT_PEND_OK then
        let pend_stat = OSTCBStatPend (cur_tcb s);
            s1 = upd_cur (\<lambda>t. t\<lparr>OSTCBStatPend := OS_STAT_PEND_OK\<rparr>) s;
            s2 = OS_FlagUnlink (tcb_of (OSTCBCur s)) s1;
            s3 = upd_cur (\<lambda>t. t\<lparr>OSTCBStat := OS_STAT_RDY\<rparr>) s2
        in (0, if pend_stat = OS_STAT_PEND_ABORT then OS_ERR_PEND_ABORT else OS_ERR_TIMEOUT, s3)
      else
        let flags_rdy = OSTCBFlagsRdy (cur_tcb s)
        in if flag_consumes wait_type \<and> flag_wait_type wait_type > OS_FLAG_WAIT_SET_ANY
           then (0, OS_ERR_FLAG_WAIT_TYPE, s)
           else (flags_rdy, OS_ERR_NONE, consume_if wait_type flags_rdy (flag_of pgrp) s))"

definition OSFlagPendGetFlagsRdy :: "os_state \<Rightarrow> u16" where
  "OSFlagPendGetFlagsRdy s = OSTCBFlagsRdy (cur_tcb s)"

text \<open>
  The loop of \<^verbatim>\<open>OSFlagPost\<close> with its local \<^verbatim>\<open>sched\<close>; the inner \<open>None\<close> is the return from the loop at a
  node of unknown wait type.
\<close>

fun flag_post_loop :: "nat \<Rightarrow> nat \<Rightarrow> ptr \<Rightarrow> bool \<Rightarrow> os_state \<Rightarrow> (bool option \<times> os_state) option" where
  "flag_post_loop 0 g pnode sched s = (if pnode = NULL then Some (Some sched, s) else None)"
| "flag_post_loop (Suc n) g pnode sched s =
     (if pnode = NULL then Some (Some sched, s)
      else
        let i = node_of pnode; nd = OSFlagNodes s i
        in case flag_test (OSFlagNodeWaitType nd) (OSFlagFlags (OSFlagTbl s g)) (OSFlagNodeFlags nd) of
             None \<Rightarrow> Some (None, s)
           | Some (flags_rdy, sat) \<Rightarrow>
               let (rdy, s1) = (if sat then OS_FlagTaskRdy i flags_rdy s else (False, s))
               in flag_post_loop n g (OSFlagNodeNext (OSFlagNodes s1 i)) (sched \<or> rdy) s1)"

text \<open>
  The flags a post returns are read after \<^verbatim>\<open>OS_Sched\<close>: \<open>Wait\<close> is a post that gave other tasks the
  chance to run, whose last step is \<open>OSFlagPost_resume\<close>.
\<close>

definition OSFlagPost_resume :: "ptr \<Rightarrow> os_state \<Rightarrow> u16 \<times> os_err" where
  "OSFlagPost_resume pgrp s = (OSFlagFlags (OSFlagTbl s (flag_of pgrp)), OS_ERR_NONE)"

definition OSFlagPost ::
  "ptr \<Rightarrow> u16 \<Rightarrow> u8 \<Rightarrow> bool \<Rightarrow> os_state \<Rightarrow> ((u16 \<times> os_err option) call \<times> os_state) option" where
  "OSFlagPost pgrp flags opt perr s =
     (if \<not> perr then Some (Done (0, None), s)
      else if pgrp = NULL then Some (Done (0, Some OS_ERR_FLAG_INVALID_PGRP), s)
      else
        let g = flag_of pgrp
        in if OSFlagType (OSFlagTbl s g) \<noteq> OS_EVENT_TYPE_FLAG
           then Some (Done (0, Some OS_ERR_EVENT_TYPE), s)
           else if opt \<noteq> OS_FLAG_CLR \<and> opt \<noteq> OS_FLAG_SET
           then Some (Done (0, Some OS_ERR_FLAG_INVALID_OPT), s)
           else
             let s1 = upd_flag g (\<lambda>gr. gr\<lparr>OSFlagFlags :=
                        (if opt = OS_FLAG_CLR then OSFlagFlags gr AND NOT flags
                         else OSFlagFlags gr OR flags)\<rparr>) s
             in case flag_post_loop 13 g (OSFlagWaitList (OSFlagTbl s1 g)) False s1 of
                  None \<Rightarrow> None
                | Some (None, s2) \<Rightarrow> Some (Done (0, Some OS_ERR_FLAG_WAIT_TYPE), s2)
                | Some (Some sched, s2) \<Rightarrow>
                    if sched then Some (Wait, OS_Sched s2)
                    else Some (Done (OSFlagFlags (OSFlagTbl s2 g), Some OS_ERR_NONE), s2))"

definition OSFlagQuery :: "ptr \<Rightarrow> bool \<Rightarrow> os_state \<Rightarrow> u16 \<times> os_err option" where
  "OSFlagQuery pgrp perr s =
     (if \<not> perr then (0, None)
      else if pgrp = NULL then (0, Some OS_ERR_FLAG_INVALID_PGRP)
      else if OSFlagType (OSFlagTbl s (flag_of pgrp)) \<noteq> OS_EVENT_TYPE_FLAG
      then (0, Some OS_ERR_EVENT_TYPE)
      else (OSFlagFlags (OSFlagTbl s (flag_of pgrp)), Some OS_ERR_NONE))"

text \<open>The loop of \<^verbatim>\<open>OS_FlagInit\<close>, with the write to the last group in its base case.\<close>

fun flag_link :: "nat \<Rightarrow> nat \<Rightarrow> (nat \<Rightarrow> OS_FLAG_GRP) \<Rightarrow> nat \<Rightarrow> OS_FLAG_GRP" where
  "flag_link 0 i tbl = tbl(i := (tbl i)\<lparr>OSFlagType := OS_EVENT_TYPE_UNUSED,
     OSFlagWaitList := NULL, OSFlagName := name_unknown (OSFlagName (tbl i))\<rparr>)"
| "flag_link (Suc n) i tbl = flag_link n (i + 1) (tbl(i := (tbl i)\<lparr>OSFlagType := OS_EVENT_TYPE_UNUSED,
     OSFlagWaitList := PFlagGrp (i + 1), OSFlagName := name_unknown (OSFlagName (tbl i))\<rparr>))"

definition OS_FlagInit :: "os_state \<Rightarrow> os_state" where
  "OS_FlagInit s = s\<lparr>OSFlagTbl := flag_link (OS_MAX_FLAGS - 1) 0
     (\<lambda>g. if g < OS_MAX_FLAGS then flag_zero else OSFlagTbl s g), OSFlagFreeList := PFlagGrp 0\<rparr>"

section \<open>The wait list of a group\<close>

lemma upd_flag_fields [simp]:
  "OSRdy (upd_flag g f s) = OSRdy s" "OSEventTbl (upd_flag g f s) = OSEventTbl s"
  "OSTCBTbl (upd_flag g f s) = OSTCBTbl s" "OSTCBPrioTbl (upd_flag g f s) = OSTCBPrioTbl s"
  "OSFlagNodes (upd_flag g f s) = OSFlagNodes s" "OSTCBCur (upd_flag g f s) = OSTCBCur s"
  "OSFlagTbl (upd_flag g f s) = (OSFlagTbl s)(g := f (OSFlagTbl s g))"
  "os_frame (upd_flag g f s) = os_frame s"
  by (simp_all add: upd_flag_def os_frame_def)

lemma upd_node_fields [simp]:
  "OSRdy (upd_node n f s) = OSRdy s" "OSEventTbl (upd_node n f s) = OSEventTbl s"
  "OSTCBTbl (upd_node n f s) = OSTCBTbl s" "OSTCBPrioTbl (upd_node n f s) = OSTCBPrioTbl s"
  "OSFlagTbl (upd_node n f s) = OSFlagTbl s" "OSTCBCur (upd_node n f s) = OSTCBCur s"
  "OSFlagNodes (upd_node n f s) = (OSFlagNodes s)(n := f (OSFlagNodes s n))"
  "os_frame (upd_node n f s) = os_frame s"
  by (simp_all add: upd_node_def os_frame_def)

lemma flag_fields_other [simp]:
  "OSFlagTbl (upd_tcb i h s) = OSFlagTbl s" "OSFlagNodes (upd_tcb i h s) = OSFlagNodes s"
  "OSFlagTbl (rdy_insert i y s) = OSFlagTbl s" "OSFlagNodes (rdy_insert i y s) = OSFlagNodes s"
  "OSFlagTbl (rdy_remove i s) = OSFlagTbl s" "OSFlagNodes (rdy_remove i s) = OSFlagNodes s"
  "OSFlagTbl (OS_Sched s) = OSFlagTbl s" "OSFlagNodes (OS_Sched s) = OSFlagNodes s"
  by (simp_all add: upd_tcb_def rdy_insert_def rdy_remove_def Let_def OS_Sched_def sched_switch_def
      OSCtxSw_def OS_SchedNew_eq)

text \<open>Nothing the invariant is about lies in the flag tables.\<close>

lemma flag_tables_sets [simp]:
  "rdy_set (upd_flag g f s) = rdy_set s" "wait_set (upd_flag g f s) e = wait_set s e"
  "at_prio (upd_flag g f s) p i = at_prio s p i" "os_wf (upd_flag g f s) = os_wf s"
  "rdy_set (upd_node n h s) = rdy_set s" "wait_set (upd_node n h s) e = wait_set s e"
  "at_prio (upd_node n h s) p i = at_prio s p i" "os_wf (upd_node n h s) = os_wf s"
  by (simp_all add: rdy_set_def wait_set_def at_prio_def os_wf_def)

text \<open>The nodes \<open>is\<close>, linked in both directions, from \<open>p\<close> whose predecessor is \<open>prev\<close>.\<close>

fun dll :: "(nat \<Rightarrow> OS_FLAG_NODE) \<Rightarrow> ptr \<Rightarrow> ptr \<Rightarrow> nat list \<Rightarrow> bool" where
  "dll nd prev p [] \<longleftrightarrow> p = NULL"
| "dll nd prev p (i # js) \<longleftrightarrow> p = PFlagNode i \<and> OSFlagNodePrev (nd i) = prev \<and>
     dll nd (PFlagNode i) (OSFlagNodeNext (nd i)) js"

lemma dll_cong:
  assumes "\<And>i. i \<in> set js \<Longrightarrow> OSFlagNodePrev (nd' i) = OSFlagNodePrev (nd i) \<and>
    OSFlagNodeNext (nd' i) = OSFlagNodeNext (nd i)"
  shows "dll nd' prev p js = dll nd prev p js"
  using assms by (induction js arbitrary: prev p) auto

text \<open>Taking node \<open>i\<close> out of the middle or the end of a list, and out of its front.\<close>

definition nodes_without :: "nat \<Rightarrow> (nat \<Rightarrow> OS_FLAG_NODE) \<Rightarrow> nat \<Rightarrow> OS_FLAG_NODE" where
  "nodes_without i nd =
     (let p = OSFlagNodePrev (nd i); n = OSFlagNodeNext (nd i);
          nd1 = (if p = NULL then nd else nd(node_of p := (nd (node_of p))\<lparr>OSFlagNodeNext := n\<rparr>))
      in if n = NULL then nd1 else nd1(node_of n := (nd1 (node_of n))\<lparr>OSFlagNodePrev := p\<rparr>))"

lemma dll_neighbours:
  assumes "dll nd prev p (xs @ i # ys)"
  shows "OSFlagNodePrev (nd i) = (if xs = [] then prev else PFlagNode (last xs))"
    and "OSFlagNodeNext (nd i) = (if ys = [] then NULL else PFlagNode (hd ys))"
proof -
  show "OSFlagNodePrev (nd i) = (if xs = [] then prev else PFlagNode (last xs))"
    using assms by (induction xs arbitrary: prev p) auto
  show "OSFlagNodeNext (nd i) = (if ys = [] then NULL else PFlagNode (hd ys))"
    using assms by (induction xs arbitrary: prev p) (cases ys; simp)+
qed

lemma nodes_without_at:
  "OSFlagNodeNext (nodes_without i nd x) =
     (if OSFlagNodePrev (nd i) \<noteq> NULL \<and> x = node_of (OSFlagNodePrev (nd i))
      then OSFlagNodeNext (nd i) else OSFlagNodeNext (nd x))"
  "OSFlagNodePrev (nodes_without i nd x) =
     (if OSFlagNodeNext (nd i) \<noteq> NULL \<and> x = node_of (OSFlagNodeNext (nd i))
      then OSFlagNodePrev (nd i) else OSFlagNodePrev (nd x))"
  by (simp_all add: nodes_without_def Let_def)

lemma dll_without:
  assumes "dll nd prev p (xs @ i # ys)" "distinct (xs @ i # ys)"
    and "prev = NULL \<or> (\<exists>k. prev = PFlagNode k \<and> k \<notin> set (xs @ i # ys))"
  shows "dll (nodes_without i nd) prev (if xs = [] then OSFlagNodeNext (nd i) else p) (xs @ ys)"
  using assms
proof (induction xs arbitrary: prev p)
  case Nil
  show ?case
  proof (cases ys)
    case Nil
    then show ?thesis using Nil.prems by simp
  next
    case (Cons j zs)
    note prems = Nil.prems
    have nb: "OSFlagNodePrev (nd i) = prev" "OSFlagNodeNext (nd i) = PFlagNode j"
      using dll_neighbours [OF prems(1)] Cons by simp_all
    have pj: "OSFlagNodePrev (nodes_without i nd j) = prev"
      by (simp add: nodes_without_at nb)
    have rest: "OSFlagNodePrev (nodes_without i nd x) = OSFlagNodePrev (nd x)" if "x \<in> set zs" for x
      using that prems(2) Cons by (auto simp: nodes_without_at nb)
    have nexts: "OSFlagNodeNext (nodes_without i nd x) = OSFlagNodeNext (nd x)" if "x \<in> set ys" for x
      using that prems(3) by (auto simp: nodes_without_at nb)
    have "dll (nodes_without i nd) (PFlagNode j) (OSFlagNodeNext (nd j)) zs =
        dll nd (PFlagNode j) (OSFlagNodeNext (nd j)) zs"
      by (rule dll_cong) (use rest nexts Cons in auto)
    then show ?thesis
      using prems(1) Cons pj nexts by simp
  qed
next
  case (Cons x xs)
  have p: "p = PFlagNode x" "OSFlagNodePrev (nd x) = prev"
    and d: "dll nd (PFlagNode x) (OSFlagNodeNext (nd x)) (xs @ i # ys)"
    using Cons.prems(1) by auto
  have "dll (nodes_without i nd) (PFlagNode x)
      (if xs = [] then OSFlagNodeNext (nd i) else OSFlagNodeNext (nd x)) (xs @ ys)"
    by (rule Cons.IH [OF d]) (use Cons.prems(2) in auto)
  moreover have "OSFlagNodePrev (nodes_without i nd x) = prev"
  proof -
    have "ys = [] \<or> x \<noteq> hd ys" using Cons.prems(2) by (cases ys) auto
    then show ?thesis using dll_neighbours(2) [OF d] p(2) by (auto simp: nodes_without_at(2))
  qed
  moreover have "OSFlagNodeNext (nodes_without i nd x) =
      (if xs = [] then OSFlagNodeNext (nd i) else OSFlagNodeNext (nd x))"
  proof (cases "xs = []")
    case True
    then show ?thesis using dll_neighbours(1) [OF d] by (simp add: nodes_without_at(1))
  next
    case False
    then have "last xs \<noteq> x" using Cons.prems(2) last_in_set by fastforce
    then show ?thesis using False dll_neighbours(1) [OF d] by (simp add: nodes_without_at(1))
  qed
  ultimately show ?case by (simp add: p)
qed

lemma nodes_without_data [simp]:
  "OSFlagNodeTCB (nodes_without i nd x) = OSFlagNodeTCB (nd x)"
  "OSFlagNodeFlagGrp (nodes_without i nd x) = OSFlagNodeFlagGrp (nd x)"
  "OSFlagNodeFlags (nodes_without i nd x) = OSFlagNodeFlags (nd x)"
  "OSFlagNodeWaitType (nodes_without i nd x) = OSFlagNodeWaitType (nd x)"
  by (simp_all add: nodes_without_def Let_def)

text \<open>The tasks that wait for group \<open>g\<close>, in the order of its list.\<close>

definition flag_waiter :: "os_state \<Rightarrow> nat \<Rightarrow> nat \<Rightarrow> bool" where
  "flag_waiter s g i \<longleftrightarrow> OSFlagNodeFlagGrp (OSFlagNodes s i) = PFlagGrp g \<and>
     OSFlagNodeTCB (OSFlagNodes s i) = PTcb i \<and>
     OSFlagNodeWaitType (OSFlagNodes s i) \<le> OS_FLAG_WAIT_SET_ANY \<and> (\<exists>p. at_prio s p i)"

definition flag_list :: "os_state \<Rightarrow> nat \<Rightarrow> nat list \<Rightarrow> bool" where
  "flag_list s g js \<longleftrightarrow> dll (OSFlagNodes s) NULL (OSFlagWaitList (OSFlagTbl s g)) js \<and>
     distinct js \<and> set js \<subseteq> {..<OS_MAX_TASKS + OS_N_SYS_TASKS} \<and> (\<forall>i \<in> set js. flag_waiter s g i)"

text \<open>\<^verbatim>\<open>OS_FlagUnlink\<close> takes a node out of the list of its group, wherever it stands.\<close>

lemma FlagUnlink_unfold:
  assumes l: "flag_list s g (xs @ i # ys)"
  shows "OSFlagNodes (OS_FlagUnlink i s) = nodes_without i (OSFlagNodes s)"
    and "OSFlagTbl (OS_FlagUnlink i s) = (OSFlagTbl s)(g := (OSFlagTbl s g)\<lparr>OSFlagWaitList :=
      (if xs = [] then OSFlagNodeNext (OSFlagNodes s i) else OSFlagWaitList (OSFlagTbl s g))\<rparr>)"
    and "OSTCBTbl (OS_FlagUnlink i s) =
      (OSTCBTbl s)(i := (OSTCBTbl s i)\<lparr>OSTCBFlagNode := NULL\<rparr>)"
    and "os_frame (OS_FlagUnlink i s) = os_frame s" "OSRdy (OS_FlagUnlink i s) = OSRdy s"
    and "OSEventTbl (OS_FlagUnlink i s) = OSEventTbl s"
proof -
  have d: "dll (OSFlagNodes s) NULL (OSFlagWaitList (OSFlagTbl s g)) (xs @ i # ys)"
    and w: "OSFlagNodeFlagGrp (OSFlagNodes s i) = PFlagGrp g" "OSFlagNodeTCB (OSFlagNodes s i) = PTcb i"
    using l by (auto simp: flag_list_def flag_waiter_def)
  have nb: "(OSFlagNodePrev (OSFlagNodes s i) = NULL) = (xs = [])"
    using dll_neighbours(1) [OF d] by simp
  note defs = OS_FlagUnlink_def Let_def nb w
  show "OSFlagNodes (OS_FlagUnlink i s) = nodes_without i (OSFlagNodes s)"
    using nb by (auto simp: OS_FlagUnlink_def Let_def nodes_without_def)
  show "OSFlagTbl (OS_FlagUnlink i s) = (OSFlagTbl s)(g := (OSFlagTbl s g)\<lparr>OSFlagWaitList :=
      (if xs = [] then OSFlagNodeNext (OSFlagNodes s i) else OSFlagWaitList (OSFlagTbl s g))\<rparr>)"
    by (simp add: defs)
  show "OSTCBTbl (OS_FlagUnlink i s) = (OSTCBTbl s)(i := (OSTCBTbl s i)\<lparr>OSTCBFlagNode := NULL\<rparr>)"
    by (simp add: defs)
  show "os_frame (OS_FlagUnlink i s) = os_frame s" "OSRdy (OS_FlagUnlink i s) = OSRdy s"
    "OSEventTbl (OS_FlagUnlink i s) = OSEventTbl s"
    by (simp_all add: defs)
qed

text \<open>What a satisfied waiter gets.\<close>

definition flag_write :: "u16 \<Rightarrow> OS_TCB \<Rightarrow> OS_TCB" where
  "flag_write flags_rdy t = t\<lparr>OSTCBDly := 0, OSTCBFlagsRdy := flags_rdy,
     OSTCBStat := OSTCBStat t AND NOT OS_STAT_FLAG, OSTCBStatPend := OS_STAT_PEND_OK\<rparr>"

lemma keeps_prio_flag_write [simp]: "keeps_prio (flag_write fr)"
  "keeps_prio (\<lambda>t. t\<lparr>OSTCBFlagNode := n\<rparr>)"
  by (simp_all add: keeps_prio_def flag_write_def)

lemma flag_write_preds:
  "rdy_ok t \<Longrightarrow> rdy_ok (flag_write fr t)" "waits_on (flag_write fr t) e = waits_on t e"
  by (simp_all add: rdy_ok_def flag_write_def waits_on_def and.assoc and.left_commute split: option.split)

lemma rdy_ok_stat_0: "OSTCBDly t = 0 \<Longrightarrow> OSTCBStat t = 0 \<Longrightarrow> rdy_ok t"
  by (simp add: rdy_ok_def)

lemma FlagTaskRdy_unfold:
  fixes fr :: u16
  assumes l: "flag_list s g (xs @ i # ys)"
  defines "s1 \<equiv> upd_tcb i (flag_write fr) s"
  defines "b \<equiv> OSTCBStat (OSTCBTbl s i) AND NOT OS_STAT_FLAG = 0"
  defines "s2 \<equiv> (if b then rdy_insert i (OSTCBY (OSTCBTbl s1 i)) s1 else s1)"
  shows "OS_FlagTaskRdy i fr s = (b, OS_FlagUnlink i s2)"
    and "flag_list s2 g (xs @ i # ys)"
proof -
  have w: "OSFlagNodeTCB (OSFlagNodes s i) = PTcb i"
    using l by (simp add: flag_list_def flag_waiter_def)
  show "OS_FlagTaskRdy i fr s = (b, OS_FlagUnlink i s2)"
    by (simp add: OS_FlagTaskRdy_def Let_def w s2_def s1_def b_def flag_write_def [abs_def])
  show "flag_list s2 g (xs @ i # ys)"
    using l by (simp add: flag_list_def flag_waiter_def s2_def s1_def)
qed

lemma flag_list_prioE:
  assumes "flag_list s g (xs @ i # ys)"
  obtains p where "at_prio s p i"
  using assms by (auto simp: flag_list_def flag_waiter_def)

lemma FlagTaskRdy_correct:
  assumes wf: "os_wf s" and l: "flag_list s g (xs @ i # ys)" and a: "at_prio s p i"
    and r: "OS_FlagTaskRdy i fr s = (b, s')"
  shows "os_wf s'" and "flag_list s' g (xs @ ys)"
    and "b \<longleftrightarrow> OSTCBStat (OSTCBTbl s i) AND NOT OS_STAT_FLAG = 0"
    and "rdy_set s' = rdy_set s \<union> (if b then {p} else {})"
    and "OSTCBTbl s' = (OSTCBTbl s)(i := (flag_write fr (OSTCBTbl s i))\<lparr>OSTCBFlagNode := NULL\<rparr>)"
    and "OSFlagNodes s' = nodes_without i (OSFlagNodes s)"
    and "OSFlagFlags (OSFlagTbl s' g) = OSFlagFlags (OSFlagTbl s g)"
    and "h \<noteq> g \<Longrightarrow> OSFlagTbl s' h = OSFlagTbl s h"
    and "wait_set s' e = wait_set s e" and "at_prio s' q j = at_prio s q j"
    and "os_frame s' = os_frame s"
proof -
  define s1 where "s1 = upd_tcb i (flag_write fr) s"
  define s2 where "s2 = (if b then rdy_insert i (OSTCBY (OSTCBTbl s1 i)) s1 else s1)"
  note U = FlagTaskRdy_unfold [OF l, of fr]
  have b: "b \<longleftrightarrow> OSTCBStat (OSTCBTbl s i) AND NOT OS_STAT_FLAG = 0"
    using U(1) r by simp
  then show "b \<longleftrightarrow> OSTCBStat (OSTCBTbl s i) AND NOT OS_STAT_FLAG = 0" .
  have s': "s' = OS_FlagUnlink i s2"
    using U(1) r by (auto simp: s2_def s1_def)
  have l2: "flag_list s2 g (xs @ i # ys)"
    using U(2) unfolding s2_def s1_def b .
  have wf1: "os_wf s1" unfolding s1_def
    by (rule os_wf_upd_tcb_same [OF wf]) (simp_all add: flag_write_preds)
  have a1: "at_prio s1 q j = at_prio s q j" for q j by (simp add: s1_def)
  have ok1: "rdy_ok (OSTCBTbl s1 i)" if b
    by (rule rdy_ok_stat_0) (use that b in \<open>simp_all add: s1_def flag_write_def\<close>)
  have wf2: "os_wf s2"
    using wf1 os_wf_rdy_insert [OF wf1] a a1 ok1 by (auto simp: s2_def)
  have r2: "rdy_set s2 = rdy_set s \<union> (if b then {p} else {})"
    using rdy_set_insert [OF wf1, of p i] a a1 by (simp add: s2_def) (simp add: s1_def)
  have t2: "OSTCBTbl s2 = (OSTCBTbl s)(i := flag_write fr (OSTCBTbl s i))"
    by (simp add: s2_def s1_def)
  have o2: "OSFlagNodes s2 = OSFlagNodes s" "OSFlagTbl s2 = OSFlagTbl s" "os_frame s2 = os_frame s"
    "OSEventTbl s2 = OSEventTbl s" "at_prio s2 q j = at_prio s q j" for q j
    by (simp_all add: s2_def s1_def)
  note F = FlagUnlink_unfold [OF l2, folded s']
  show t: "OSTCBTbl s' = (OSTCBTbl s)(i := (flag_write fr (OSTCBTbl s i))\<lparr>OSTCBFlagNode := NULL\<rparr>)"
    using F(3) t2 by simp
  show n: "OSFlagNodes s' = nodes_without i (OSFlagNodes s)" using F(1) o2 by simp
  show fr: "os_frame s' = os_frame s" using F(4) o2 by simp
  show "OSFlagFlags (OSFlagTbl s' g) = OSFlagFlags (OSFlagTbl s g)" using F(2) o2 by simp
  show "h \<noteq> g \<Longrightarrow> OSFlagTbl s' h = OSFlagTbl s h" using F(2) o2 by simp
  have ev: "OSEventTbl s' = OSEventTbl s" "OSRdy s' = OSRdy s2" using F(5,6) o2 by simp_all
  then show "wait_set s' e = wait_set s e" by (simp add: wait_set_def)
  show ap: "at_prio s' q j = at_prio s q j" for q j
    by (rule at_prio_cong) (use fr in \<open>auto simp: t os_frame_def flag_write_def tcb_pos_ok_def\<close>)
  show "rdy_set s' = rdy_set s \<union> (if b then {p} else {})"
    using r2 ev by (simp add: rdy_set_def)
  have upd: "os_wf s' = os_wf (upd_tcb i (\<lambda>t. t\<lparr>OSTCBFlagNode := NULL\<rparr>) s2)"
    using ap o2 by (simp add: os_wf_def rdy_set_def wait_set_def ev t t2 fun_upd_def)
  show "os_wf s'" unfolding upd
    by (rule os_wf_upd_tcb_same [OF wf2]) (simp_all add: rdy_ok_def waits_on_def split: option.split)
  show "flag_list s' g (xs @ ys)"
  proof -
    have d: "dll (OSFlagNodes s) NULL (OSFlagWaitList (OSFlagTbl s g)) (xs @ i # ys)"
      "distinct (xs @ i # ys)" and in12: "set (xs @ i # ys) \<subseteq> {..<12}"
      and fw: "\<forall>j \<in> set (xs @ i # ys). flag_waiter s g j"
      using l by (auto simp: flag_list_def)
    have "dll (OSFlagNodes s') NULL (OSFlagWaitList (OSFlagTbl s' g)) (xs @ ys)"
      using dll_without [OF d] by (simp add: n F(2) o2 split: if_splits)
    moreover have "flag_waiter s' g j = flag_waiter s g j" for j
      by (simp add: flag_waiter_def n ap)
    ultimately show ?thesis
      using d(2) in12 fw by (auto simp: flag_list_def)
  qed
qed

text \<open>Whether the condition of waiter \<open>i\<close> holds when the flags of its group are \<open>fl\<close>.\<close>

definition flag_sat :: "u16 \<Rightarrow> OS_FLAG_NODE \<Rightarrow> bool" where
  "flag_sat fl nd \<longleftrightarrow>
     (case flag_test (OSFlagNodeWaitType nd) fl (OSFlagNodeFlags nd) of
        None \<Rightarrow> False | Some (flags_rdy, sat) \<Rightarrow> sat)"

text \<open>The flags it is given then.\<close>

definition flag_got :: "u16 \<Rightarrow> OS_FLAG_NODE \<Rightarrow> u16" where
  "flag_got fl nd =
     (if OSFlagNodeWaitType nd = OS_FLAG_WAIT_SET_ALL \<or> OSFlagNodeWaitType nd = OS_FLAG_WAIT_SET_ANY
      then fl AND OSFlagNodeFlags nd else NOT fl AND OSFlagNodeFlags nd)"

lemma flag_test_Some:
  assumes "OSFlagNodeWaitType nd \<le> OS_FLAG_WAIT_SET_ANY"
  shows "flag_test (OSFlagNodeWaitType nd) fl (OSFlagNodeFlags nd) = Some (flag_got fl nd, flag_sat fl nd)"
proof -
  have "OSFlagNodeWaitType nd \<in> {0, 1, 2, 3}"
  proof -
    have "unat (OSFlagNodeWaitType nd) \<le> 3" using assms by (simp add: word_le_nat_alt)
    then have "unat (OSFlagNodeWaitType nd) \<in> {0, 1, 2, 3}" by auto
    then show ?thesis by (auto simp: word_unat_eq_iff)
  qed
  then show ?thesis
    by (auto simp: flag_test_def flag_sat_def flag_got_def Let_def)
qed

text \<open>A task is readied unless it is suspended.\<close>

definition flag_ready :: "os_state \<Rightarrow> nat \<Rightarrow> bool" where
  "flag_ready s i \<longleftrightarrow> OSTCBStat (OSTCBTbl s i) AND NOT OS_STAT_FLAG = 0"

text \<open>The priorities of the tasks in \<open>A\<close>.\<close>

definition prios_of :: "os_state \<Rightarrow> nat set \<Rightarrow> nat set" where
  "prios_of s A = {p. \<exists>i \<in> A. at_prio s p i}"

lemma prios_of_single: "at_prio s p i \<Longrightarrow> prios_of s {i} = {p}"
  by (auto simp: prios_of_def dest: at_prio_same_tcb)

lemma prios_of_Un: "prios_of s (A \<union> B) = prios_of s A \<union> prios_of s B"
  by (auto simp: prios_of_def)

lemma prios_of_empty [simp]: "prios_of s {} = {}"
  by (simp add: prios_of_def)


text \<open>
  What the loop does to the waiters: \<open>S\<close> are the ones with a true condition.
\<close>

definition flag_woken ::
  "os_state \<Rightarrow> nat \<Rightarrow> (nat \<Rightarrow> u16) \<Rightarrow> nat set \<Rightarrow> os_state \<Rightarrow> bool" where
  "flag_woken s g fr S s' \<longleftrightarrow> os_wf s' \<and>
     rdy_set s' = rdy_set s \<union> prios_of s {i \<in> S. flag_ready s i} \<and>
     (\<forall>i. OSTCBTbl s' i = (if i \<in> S then (flag_write (fr i) (OSTCBTbl s i))\<lparr>OSTCBFlagNode := NULL\<rparr>
        else OSTCBTbl s i)) \<and>
     OSFlagFlags (OSFlagTbl s' g) = OSFlagFlags (OSFlagTbl s g) \<and>
     (\<forall>h. h \<noteq> g \<longrightarrow> OSFlagTbl s' h = OSFlagTbl s h) \<and>
     (\<forall>i. OSFlagNodeFlags (OSFlagNodes s' i) = OSFlagNodeFlags (OSFlagNodes s i) \<and>
        OSFlagNodeWaitType (OSFlagNodes s' i) = OSFlagNodeWaitType (OSFlagNodes s i)) \<and>
     (\<forall>e. wait_set s' e = wait_set s e) \<and> (\<forall>q j. at_prio s' q j = at_prio s q j) \<and>
     os_frame s' = os_frame s"

lemma flag_woken_refl: "os_wf s \<Longrightarrow> flag_woken s g fr {} s"
  by (simp add: flag_woken_def)

lemma flag_woken_step:
  assumes wf: "os_wf s" and l: "flag_list s g (xs @ i # ys)"
    and r: "OS_FlagTaskRdy i (fr i) s = (b, s1)"
    and w: "flag_woken s1 g fr S s'" and i: "i \<notin> S"
  shows "flag_woken s g fr (insert i S) s'"
proof -
  obtain p where p: "at_prio s p i" using flag_list_prioE [OF l] .
  note C = FlagTaskRdy_correct [OF wf l p r]
  have rdy: "flag_ready s1 j = flag_ready s j" if "j \<in> S" for j
    using that i by (auto simp: flag_ready_def C(5))
  have pr: "prios_of s1 A = prios_of s A" for A by (simp add: prios_of_def C(10))
  have split: "{j \<in> insert i S. flag_ready s j} = {j \<in> S. flag_ready s j} \<union> (if b then {i} else {})"
    using C(3) by (auto simp: flag_ready_def)
  have S: "{j \<in> S. flag_ready s1 j} = {j \<in> S. flag_ready s j}" using rdy by auto
  have "rdy_set s' = rdy_set s \<union> prios_of s {j \<in> insert i S. flag_ready s j}"
    using w unfolding flag_woken_def split prios_of_Un S pr C(4)
    by (auto simp: prios_of_single [OF p])
  moreover have "OSTCBTbl s' j = (if j \<in> insert i S then (flag_write (fr j) (OSTCBTbl s j))\<lparr>OSTCBFlagNode := NULL\<rparr>
        else OSTCBTbl s j)" for j
    using w i by (auto simp: flag_woken_def C(5))
  ultimately show ?thesis
    using w C(6-11) by (simp add: flag_woken_def)
qed

text \<open>The loop of \<^verbatim>\<open>OSFlagPost\<close> walks over the rest \<open>ys\<close> of the list; \<open>xs\<close> is what it has kept.\<close>

lemma flag_post_loop_correct:
  assumes "os_wf s" "flag_list s g (xs @ ys)" "length ys \<le> n"
    and "pnode = (if ys = [] then NULL else PFlagNode (hd ys))"
    and "fl = OSFlagFlags (OSFlagTbl s g)"
  shows "\<exists>s'. flag_post_loop n g pnode sched s =
      Some (Some (sched \<or> (\<exists>i \<in> set ys. flag_sat fl (OSFlagNodes s i) \<and> flag_ready s i)), s') \<and>
    flag_list s' g (xs @ filter (\<lambda>i. \<not> flag_sat fl (OSFlagNodes s i)) ys) \<and>
    flag_woken s g (\<lambda>i. flag_got fl (OSFlagNodes s i)) {i \<in> set ys. flag_sat fl (OSFlagNodes s i)} s'"
  using assms
proof (induction ys arbitrary: xs n pnode sched s)
  case Nil
  then show ?case by (cases n) (simp_all add: flag_woken_refl)
next
  case (Cons i ys)
  note l = Cons.prems(2) and wf = Cons.prems(1)
  obtain m where n: "n = Suc m" "length ys \<le> m" using Cons.prems(3) by (cases n) auto
  have pn: "pnode = PFlagNode i" using Cons.prems(4) by simp
  have d: "dll (OSFlagNodes s) NULL (OSFlagWaitList (OSFlagTbl s g)) (xs @ i # ys)"
    "distinct (xs @ i # ys)" and fw: "flag_waiter s g i"
    using l by (auto simp: flag_list_def)
  have nb: "OSFlagNodeNext (OSFlagNodes s i) = (if ys = [] then NULL else PFlagNode (hd ys))"
    by (rule dll_neighbours(2) [OF d(1)])
  have t: "flag_test (OSFlagNodeWaitType (OSFlagNodes s i)) (OSFlagFlags (OSFlagTbl s g))
      (OSFlagNodeFlags (OSFlagNodes s i)) = Some (flag_got fl (OSFlagNodes s i), flag_sat fl (OSFlagNodes s i))"
    using flag_test_Some fw Cons.prems(5) by (simp add: flag_waiter_def)
  show ?case
  proof (cases "flag_sat fl (OSFlagNodes s i)")
    case False
    have "\<exists>s'. flag_post_loop m g (OSFlagNodeNext (OSFlagNodes s i)) sched s =
        Some (Some (sched \<or> (\<exists>i \<in> set ys. flag_sat fl (OSFlagNodes s i) \<and> flag_ready s i)), s') \<and>
      flag_list s' g ((xs @ [i]) @ filter (\<lambda>i. \<not> flag_sat fl (OSFlagNodes s i)) ys) \<and>
      flag_woken s g (\<lambda>i. flag_got fl (OSFlagNodes s i)) {i \<in> set ys. flag_sat fl (OSFlagNodes s i)} s'"
      by (rule Cons.IH [OF wf _ n(2) nb Cons.prems(5)]) (use l in simp)
    moreover have "{j \<in> set (i # ys). flag_sat fl (OSFlagNodes s j)} = {j \<in> set ys. flag_sat fl (OSFlagNodes s j)}"
      using False by auto
    ultimately show ?thesis using False t by (simp add: n pn)
  next
    case True
    obtain p where p: "at_prio s p i" using flag_list_prioE [OF l] .
    obtain b s1 where r: "OS_FlagTaskRdy i (flag_got fl (OSFlagNodes s i)) s = (b, s1)"
      by (metis surj_pair)
    note C = FlagTaskRdy_correct [OF wf l p r]
    have nx: "OSFlagNodeNext (OSFlagNodes s1 i) = (if ys = [] then NULL else PFlagNode (hd ys))"
      using nb dll_neighbours(1) [OF d(1)] d(2) last_in_set [of xs]
      by (auto simp: C(6) nodes_without_at(1))
    have dat: "flag_sat fl (OSFlagNodes s1 j) = flag_sat fl (OSFlagNodes s j)"
      "flag_got fl (OSFlagNodes s1 j) = flag_got fl (OSFlagNodes s j)" for j
      by (simp_all add: flag_sat_def flag_got_def C(6))
    have rd: "flag_ready s1 j = flag_ready s j" if "j \<in> set ys" for j
      using that d(2) by (auto simp: flag_ready_def C(5))
    have fl: "fl = OSFlagFlags (OSFlagTbl s1 g)" using C(7) Cons.prems(5) by simp
    obtain s' where s': "flag_post_loop m g (OSFlagNodeNext (OSFlagNodes s1 i)) (sched \<or> b) s1 =
        Some (Some ((sched \<or> b) \<or> (\<exists>i \<in> set ys. flag_sat fl (OSFlagNodes s i) \<and> flag_ready s1 i)), s')"
      and l': "flag_list s' g (xs @ filter (\<lambda>i. \<not> flag_sat fl (OSFlagNodes s i)) ys)"
      and w': "flag_woken s1 g (\<lambda>i. flag_got fl (OSFlagNodes s i))
        {i \<in> set ys. flag_sat fl (OSFlagNodes s i)} s'"
      using Cons.IH [OF C(1,2) n(2) nx fl, of "sched \<or> b"] unfolding dat by blast
    have "b = flag_ready s i" using C(3) by (simp add: flag_ready_def)
    then have sched: "((sched \<or> b) \<or> (\<exists>i \<in> set ys. flag_sat fl (OSFlagNodes s i) \<and> flag_ready s1 i)) =
        (sched \<or> (\<exists>i \<in> set (i # ys). flag_sat fl (OSFlagNodes s i) \<and> flag_ready s i))"
      using True rd by auto
    have S: "{j \<in> set (i # ys). flag_sat fl (OSFlagNodes s j)} =
        insert i {j \<in> set ys. flag_sat fl (OSFlagNodes s j)}"
      using True by auto
    have "flag_woken s g (\<lambda>i. flag_got fl (OSFlagNodes s i))
        {j \<in> set (i # ys). flag_sat fl (OSFlagNodes s j)} s'"
      unfolding S by (rule flag_woken_step [OF wf l _ w']) (use r d(2) in auto)
    moreover have "flag_post_loop n g pnode sched s = Some (Some (sched \<or>
        (\<exists>i \<in> set (i # ys). flag_sat fl (OSFlagNodes s i) \<and> flag_ready s i)), s')"
      using t True s' sched by (simp add: n pn r)
    ultimately show ?thesis using l' True by auto
  qed
qed

section \<open>Posting flags\<close>

lemma sched_flag_fields [simp]:
  "OSTCBFlagsRdy (OSTCBTbl (OS_Sched s) i) = OSTCBFlagsRdy (OSTCBTbl s i)"
  "OSTCBFlagNode (OSTCBTbl (OS_Sched s) i) = OSTCBFlagNode (OSTCBTbl s i)"
  by (simp_all add: OS_Sched_def sched_switch_def OSCtxSw_def Let_def OS_SchedNew_eq)

lemma flag_waiter_sched [simp]: "flag_waiter (OS_Sched s) g i = flag_waiter s g i"
  "flag_list (OS_Sched s) g js = flag_list s g js"
  by (simp_all add: flag_waiter_def flag_list_def)

lemma flag_list_upd_flags:
  "(\<And>gr. OSFlagWaitList (f gr) = OSFlagWaitList gr) \<Longrightarrow> flag_list (upd_flag g f s) g js = flag_list s g js"
  by (simp add: flag_list_def flag_waiter_def)

lemma flag_list_length: "flag_list s g js \<Longrightarrow> length js \<le> 12"
  using card_mono [of "{..<12 :: nat}" "set js"] by (auto simp: flag_list_def distinct_card)

lemma flag_woken_upd_flag:
  assumes "flag_woken (upd_flag g f s) g fr S s'"
  shows "os_wf s'" "rdy_set s' = rdy_set s \<union> prios_of s {i \<in> S. flag_ready s i}"
    "OSTCBTbl s' i = (if i \<in> S then (flag_write (fr i) (OSTCBTbl s i))\<lparr>OSTCBFlagNode := NULL\<rparr>
        else OSTCBTbl s i)"
    "OSFlagFlags (OSFlagTbl s' g) = OSFlagFlags (f (OSFlagTbl s g))" "os_frame s' = os_frame s"
    "at_prio s' q j = at_prio s q j"
  using assms by (simp_all add: flag_woken_def flag_ready_def prios_of_def)

lemma OSFlagPost_effect:
  assumes wf: "os_wf s" and l: "flag_list s g js"
    and ty: "OSFlagType (OSFlagTbl s g) = OS_EVENT_TYPE_FLAG"
    and opt: "opt \<in> {OS_FLAG_CLR, OS_FLAG_SET}"
    and fl: "fl = (if opt = OS_FLAG_CLR then OSFlagFlags (OSFlagTbl s g) AND NOT flags
           else OSFlagFlags (OSFlagTbl s g) OR flags)"
    and S: "S = {i \<in> set js. flag_sat fl (OSFlagNodes s i)}"
  shows "\<exists>s'. OSFlagPost (PFlagGrp g) flags opt True s = Some (if \<exists>i \<in> S. flag_ready s i then Wait
        else Done (fl, Some OS_ERR_NONE), s') \<and> os_wf s' \<and>
      OSFlagFlags (OSFlagTbl s' g) = fl \<and>
      flag_list s' g (filter (\<lambda>i. \<not> flag_sat fl (OSFlagNodes s i)) js) \<and>
      rdy_set s' = rdy_set s \<union> {p. \<exists>i \<in> S. flag_ready s i \<and> at_prio s p i} \<and>
      (\<forall>i \<in> S. OSTCBFlagsRdy (OSTCBTbl s' i) = flag_got fl (OSFlagNodes s i) \<and>
         OSTCBStatPend (OSTCBTbl s' i) = OS_STAT_PEND_OK \<and> OSTCBFlagNode (OSTCBTbl s' i) = NULL \<and>
         OSTCBStat (OSTCBTbl s' i) = OSTCBStat (OSTCBTbl s i) AND NOT OS_STAT_FLAG) \<and>
      (\<forall>q j. at_prio s' q j = at_prio s q j) \<and>
      (\<forall>i. i \<notin> S \<longrightarrow> tcb_core (OSTCBTbl s' i) = tcb_core (OSTCBTbl s i)) \<and>
      ((\<exists>i \<in> S. flag_ready s i) \<and> cur_ok s \<and> can_sched s \<longrightarrow>
         unat (OSPrioCur s') = Min (rdy_set s') \<and> cur_ok s')"
proof -
  define F where "F = (\<lambda>gr :: OS_FLAG_GRP. gr\<lparr>OSFlagFlags := (if opt = OS_FLAG_CLR then OSFlagFlags gr AND NOT flags
    else OSFlagFlags gr OR flags)\<rparr>)"
  define s1 where "s1 = upd_flag g F s"
  have s1: "os_wf s1" "flag_list s1 g js" "OSFlagNodes s1 = OSFlagNodes s"
    "fl = OSFlagFlags (OSFlagTbl s1 g)"
    using wf l by (simp_all add: s1_def F_def fl flag_list_upd_flags)
  have hd: "OSFlagWaitList (OSFlagTbl s1 g) = (if js = [] then NULL else PFlagNode (hd js))"
    using s1(2) by (cases js) (auto simp: flag_list_def)
  have rd1: "flag_ready s1 i = flag_ready s i" for i by (simp add: s1_def flag_ready_def)
  have ex: "(\<exists>i \<in> set js. flag_sat fl (OSFlagNodes s i) \<and> flag_ready s1 i) = (\<exists>i \<in> S. flag_ready s i)"
    by (auto simp: S rd1)
  have "\<exists>s2. flag_post_loop 13 g (OSFlagWaitList (OSFlagTbl s1 g)) False s1 =
      Some (Some (False \<or> (\<exists>i \<in> set js. flag_sat fl (OSFlagNodes s1 i) \<and> flag_ready s1 i)), s2) \<and>
    flag_list s2 g ([] @ filter (\<lambda>i. \<not> flag_sat fl (OSFlagNodes s1 i)) js) \<and>
    flag_woken s1 g (\<lambda>i. flag_got fl (OSFlagNodes s1 i)) {i \<in> set js. flag_sat fl (OSFlagNodes s1 i)} s2"
    by (rule flag_post_loop_correct [OF s1(1) _ _ hd s1(4)]) (use s1(2) flag_list_length [OF l] in simp_all)
  then obtain s2 where
    s2: "flag_post_loop 13 g (OSFlagWaitList (OSFlagTbl s1 g)) False s1 =
      Some (Some (\<exists>i \<in> S. flag_ready s i), s2)"
    and l2: "flag_list s2 g (filter (\<lambda>i. \<not> flag_sat fl (OSFlagNodes s i)) js)"
    and w2: "flag_woken s1 g (\<lambda>i. flag_got fl (OSFlagNodes s i)) S s2"
    unfolding s1(3) ex S [symmetric] by auto
  note W = flag_woken_upd_flag [OF w2 [unfolded s1_def]]
  have fl2: "OSFlagFlags (OSFlagTbl s2 g) = fl" using W(4) by (simp add: F_def fl)
  define s' where "s' = (if \<exists>i \<in> S. flag_ready s i then OS_Sched s2 else s2)"
  have core: "tcb_core (OSTCBTbl s' i) = tcb_core (OSTCBTbl s2 i)" for i by (simp add: s'_def)
  have post: "OSFlagPost (PFlagGrp g) flags opt True s =
      Some (if \<exists>i \<in> S. flag_ready s i then Wait else Done (fl, Some OS_ERR_NONE), s')"
    using ty opt s2 fl2 by (auto simp: OSFlagPost_def Let_def s1_def F_def s'_def)
  have pick: "unat (OSPrioCur s') = Min (rdy_set s') \<and> cur_ok s'"
    if i: "\<exists>i \<in> S. flag_ready s i" and c: "cur_ok s" "can_sched s"
  proof -
    obtain i where i': "i \<in> S" "flag_ready s i" using i by blast
    then obtain p where p: "at_prio s p i" using l by (auto simp: S flag_list_def flag_waiter_def)
    then have ne: "rdy_set s2 \<noteq> {}" using W(2) i' by (auto simp: prios_of_def)
    have "cur_ok s2" "can_sched s2"
      using c W(5) by (simp_all add: cur_ok_def can_sched_def os_frame_def)
    then show ?thesis
      using OS_Sched_runs_highest(1,3) [OF W(1) ne] i by (simp add: s'_def)
  qed
  have "os_wf s'" "OSFlagFlags (OSFlagTbl s' g) = fl"
    "flag_list s' g (filter (\<lambda>i. \<not> flag_sat fl (OSFlagNodes s i)) js)"
    using W(1) fl2 l2 by (simp_all add: s'_def)
  moreover have "rdy_set s' = rdy_set s \<union> {p. \<exists>i \<in> S. flag_ready s i \<and> at_prio s p i}"
    using W(2) by (auto simp: s'_def prios_of_def)
  moreover have "OSTCBFlagsRdy (OSTCBTbl s' i) = flag_got fl (OSFlagNodes s i) \<and>
      OSTCBStatPend (OSTCBTbl s' i) = OS_STAT_PEND_OK \<and> OSTCBFlagNode (OSTCBTbl s' i) = NULL \<and>
      OSTCBStat (OSTCBTbl s' i) = OSTCBStat (OSTCBTbl s i) AND NOT OS_STAT_FLAG"
    if "i \<in> S" for i
    using that tcb_core_fields(2,3) [OF core, of i] by (simp add: W(3) flag_write_def) (simp add: s'_def W(3) flag_write_def)
  moreover have "tcb_core (OSTCBTbl s' i) = tcb_core (OSTCBTbl s i)" if "i \<notin> S" for i
    using that by (simp add: core W(3))
  moreover have "at_prio s' q j = at_prio s q j" for q j
    using W(6) by (simp add: s'_def)
  ultimately show ?thesis
    using post pick by (intro exI [of _ s']) simp
qed

section \<open>Waiting for flags\<close>

lemma os_wf_fields:
  assumes "OSRdy s' = OSRdy s" "OSEventTbl s' = OSEventTbl s" "OSTCBTbl s' = OSTCBTbl s"
    and "OSTCBPrioTbl s' = OSTCBPrioTbl s"
  shows "os_wf s' = os_wf s" "rdy_set s' = rdy_set s" "wait_set s' e = wait_set s e"
    "at_prio s' p i = at_prio s p i"
  using assms by (simp_all add: os_wf_def rdy_set_def wait_set_def at_prio_def)

text \<open>What the block writes into the caller's TCB.\<close>

definition flag_wait_write :: "u16 \<Rightarrow> nat \<Rightarrow> OS_TCB \<Rightarrow> OS_TCB" where
  "flag_wait_write timeout i t = t\<lparr>OSTCBStat := OSTCBStat t OR OS_STAT_FLAG,
     OSTCBStatPend := OS_STAT_PEND_OK, OSTCBDly := timeout, OSTCBFlagNode := PFlagNode i\<rparr>"

lemma FlagBlock_correct:
  fixes flags :: u16 and wt :: u8 and timeout :: u16
  assumes wf: "os_wf s" and run: "running s p i" and l: "flag_list s g js" and i: "i \<notin> set js" "i < 12"
    and wt: "wt \<le> OS_FLAG_WAIT_SET_ANY"
  defines "s' \<equiv> OS_FlagBlock g i flags wt timeout s"
  shows "os_wf s'" and "rdy_set s' = rdy_set s - {p}" and "flag_list s' g (i # js)"
    and "OSTCBTbl s' = (OSTCBTbl s)(i := flag_wait_write timeout i (OSTCBTbl s i))"
    and "OSFlagFlags (OSFlagTbl s' g) = OSFlagFlags (OSFlagTbl s g)"
    and "OSFlagType (OSFlagTbl s' g) = OSFlagType (OSFlagTbl s g)"
    and "OSFlagNodeFlags (OSFlagNodes s' i) = flags" "OSFlagNodeWaitType (OSFlagNodes s' i) = wt"
    and "wait_set s' e = wait_set s e" and "at_prio s' q j = at_prio s q j"
    and "os_frame s' = os_frame s"
proof -
  have cur: "OSTCBCur s = PTcb i" and a: "at_prio s p i" and w: "\<And>e. p \<notin> wait_set s e"
    using run by (auto simp: running_def)
  let ?n = "OSFlagWaitList (OSFlagTbl s g)"
  note D = s'_def OS_FlagBlock_def Let_def cur
  have kp: "keeps_prio (flag_wait_write timeout i)" by (simp add: keeps_prio_def flag_wait_write_def)
  show tbl: "OSTCBTbl s' = (OSTCBTbl s)(i := flag_wait_write timeout i (OSTCBTbl s i))"
    by (simp add: D flag_wait_write_def)
  show fr: "os_frame s' = os_frame s" by (simp add: D)
  define s0 where "s0 = upd_tcb i (flag_wait_write timeout i) (rdy_remove i s)"
  have wf0: "os_wf (rdy_remove i s)" and r0: "rdy_set (rdy_remove i s) = rdy_set s - {p}"
    using os_wf_rdy_remove [OF wf a] rdy_set_remove [OF wf a] by auto
  have "os_wf s0" unfolding s0_def
    by (rule os_wf_upd_tcb_at [OF wf0 kp, of p]) (use a r0 w in auto)
  moreover have rdy: "OSRdy s' = OSRdy s0"
    by (simp add: D s0_def rdy_remove_def)
  have same: "OSEventTbl s' = OSEventTbl s0" "OSTCBTbl s' = OSTCBTbl s0"
    "OSTCBPrioTbl s' = OSTCBPrioTbl s0"
    using fr by (simp_all add: tbl s0_def os_frame_def) (simp add: D)
  note F = os_wf_fields [OF rdy same]
  ultimately show "os_wf s'" by (simp add: F)
  show "rdy_set s' = rdy_set s - {p}" using r0 by (simp add: F) (simp add: s0_def)
  show "wait_set s' e = wait_set s e" by (simp add: F) (simp add: s0_def)
  show ap: "at_prio s' q j = at_prio s q j" for q j
    using kp by (simp add: F s0_def)
  show "OSFlagFlags (OSFlagTbl s' g) = OSFlagFlags (OSFlagTbl s g)"
    "OSFlagType (OSFlagTbl s' g) = OSFlagType (OSFlagTbl s g)" by (simp_all add: D)
  have nd: "OSFlagNodes s' = (\<lambda>j. if ?n \<noteq> NULL \<and> j = node_of ?n
      then ((OSFlagNodes s)(i := \<lparr>OSFlagNodeNext = ?n, OSFlagNodePrev = NULL, OSFlagNodeTCB = PTcb i,
        OSFlagNodeFlagGrp = PFlagGrp g, OSFlagNodeFlags = flags, OSFlagNodeWaitType = wt\<rparr>)) j
        \<lparr>OSFlagNodePrev := PFlagNode i\<rparr>
      else ((OSFlagNodes s)(i := \<lparr>OSFlagNodeNext = ?n, OSFlagNodePrev = NULL, OSFlagNodeTCB = PTcb i,
        OSFlagNodeFlagGrp = PFlagGrp g, OSFlagNodeFlags = flags, OSFlagNodeWaitType = wt\<rparr>)) j)"
    by (auto simp: D fun_eq_iff)
  show "OSFlagNodeFlags (OSFlagNodes s' i) = flags" "OSFlagNodeWaitType (OSFlagNodes s' i) = wt"
    by (simp_all add: nd)
  have d: "dll (OSFlagNodes s) NULL ?n js" "distinct js" "set js \<subseteq> {..<12}"
    and fw: "\<And>j. j \<in> set js \<Longrightarrow> flag_waiter s g j"
    using l by (auto simp: flag_list_def)
  have hd: "?n = (if js = [] then NULL else PFlagNode (hd js))"
    using d(1) by (cases js) auto
  have dl: "dll (OSFlagNodes s') (PFlagNode i) ?n js"
  proof (cases js)
    case (Cons j ks)
    have "dll (OSFlagNodes s') (PFlagNode j) (OSFlagNodeNext (OSFlagNodes s j)) ks =
        dll (OSFlagNodes s) (PFlagNode j) (OSFlagNodeNext (OSFlagNodes s j)) ks"
      by (rule dll_cong) (use Cons d(2) i in \<open>auto simp: nd hd\<close>)
    then show ?thesis using d(1) Cons i by (auto simp: nd)
  qed (simp add: hd)
  have wl: "OSFlagWaitList (OSFlagTbl s' g) = PFlagNode i" by (simp add: D)
  have ni: "OSFlagNodePrev (OSFlagNodes s' i) = NULL" "OSFlagNodeNext (OSFlagNodes s' i) = ?n"
    using i by (auto simp: nd hd split: if_splits)
  have "flag_waiter s' g j" if "j \<in> set (i # js)" for j
    using that fw [of j] a wt by (auto simp: flag_waiter_def ap nd)
  then show "flag_list s' g (i # js)"
    using dl d i by (simp add: flag_list_def wl ni)
qed

lemma OSFlagPend_blocks:
  fixes flags timeout :: u16 and wait_type :: u8
  assumes wf: "os_wf s" and run: "running s p i" and cs: "can_sched s" and left: "rdy_set s - {p} \<noteq> {}"
    and l: "flag_list s g js" and i: "i \<notin> set js" "i < 12"
    and ty: "OSFlagType (OSFlagTbl s g) = OS_EVENT_TYPE_FLAG"
    and no: "flag_test (flag_wait_type wait_type) (OSFlagFlags (OSFlagTbl s g)) flags = Some (x, False)"
  defines "s1 \<equiv> OS_Sched (OS_FlagBlock g i flags (flag_wait_type wait_type) timeout s)"
  shows "OSFlagPend (PFlagGrp g) flags wait_type timeout True s = (Wait, s1)"
    and "os_wf s1" "rdy_set s1 = rdy_set s - {p}" "flag_list s1 g (i # js)"
    and "tcb_core (OSTCBTbl s1 i) = tcb_core (flag_wait_write timeout i (OSTCBTbl s i))"
    and "OSFlagFlags (OSFlagTbl s1 g) = OSFlagFlags (OSFlagTbl s g)"
    and "OSFlagType (OSFlagTbl s1 g) = OS_EVENT_TYPE_FLAG"
    and "OSFlagNodeFlags (OSFlagNodes s1 i) = flags"
    and "OSFlagNodeWaitType (OSFlagNodes s1 i) = flag_wait_type wait_type"
    and "wait_set s1 e = wait_set s e" and "at_prio s1 q j = at_prio s q j"
    and "unat (OSPrioCur s1) = Min (rdy_set s - {p})" and "cur_ok s1" "can_sched s1"
proof -
  have cur: "OSTCBCur s = PTcb i" using run by (simp add: running_def)
  have le: "flag_wait_type wait_type \<le> OS_FLAG_WAIT_SET_ANY"
    using no by (auto simp: flag_test_def split: if_splits)
  note B = FlagBlock_correct [OF wf run l i le, where flags = flags and timeout = timeout]
  let ?b = "OS_FlagBlock g i flags (flag_wait_type wait_type) timeout s"
  show "OSFlagPend (PFlagGrp g) flags wait_type timeout True s = (Wait, s1)"
    using cs no ty by (simp add: OSFlagPend_def can_sched_def cur s1_def)
  show "os_wf s1" "rdy_set s1 = rdy_set s - {p}" "flag_list s1 g (i # js)"
    using B(1-3) by (simp_all add: s1_def)
  show "tcb_core (OSTCBTbl s1 i) = tcb_core (flag_wait_write timeout i (OSTCBTbl s i))"
    using B(4) by (simp add: s1_def)
  show "OSFlagFlags (OSFlagTbl s1 g) = OSFlagFlags (OSFlagTbl s g)"
    "OSFlagType (OSFlagTbl s1 g) = OS_EVENT_TYPE_FLAG"
    using B(5,6) ty by (simp_all add: s1_def)
  show "OSFlagNodeFlags (OSFlagNodes s1 i) = flags"
    "OSFlagNodeWaitType (OSFlagNodes s1 i) = flag_wait_type wait_type"
    using B(7,8) by (simp_all add: s1_def)
  show "wait_set s1 e = wait_set s e" "at_prio s1 q j = at_prio s q j"
    using B(9,10) by (simp_all add: s1_def)
  have c: "cur_ok ?b" "can_sched ?b"
    using running_cur_ok [OF run] cs B(11) by (simp_all add: cur_ok_def can_sched_def os_frame_def)
  have ne: "rdy_set ?b \<noteq> {}" using B(2) left by simp
  show "unat (OSPrioCur s1) = Min (rdy_set s - {p})" "cur_ok s1" "can_sched s1"
    using OS_Sched_runs_highest [OF B(1) ne c] B(2) c(2) by (simp_all add: s1_def can_sched_def)
qed

lemma demo_flag: "flag_list demo 0 []" "OSFlagType (OSFlagTbl demo 0) = OS_EVENT_TYPE_FLAG"
  "OSFlagFlags (OSFlagTbl demo 0) = 0" "OSTCBStat (OSTCBTbl demo 0) = OS_STAT_RDY"
  "rdy_set demo - {5} \<noteq> {}"
  by (simp_all add: rdy_set_demo)
    (simp_all add: flag_list_def demo_def flag_zero_def demo_tcb_def tcb_zero_def)

section \<open>Properties\<close>

text \<open>
  C10: Posting to an event flag group.  The flags are set or cleared as asked; every waiting task
  whose condition the new flags meet, whatever its place in the list, leaves the wait list with the
  flags that satisfied it, and is made ready unless it is suspended; the other tasks keep waiting, in
  the same order.  The highest-priority ready task runs when the post has readied one.
\<close>

theorem OSFlagPost_correct:
  assumes wf: "os_wf s" and l: "flag_list s g js"
    and ty: "OSFlagType (OSFlagTbl s g) = OS_EVENT_TYPE_FLAG"
    and opt: "opt \<in> {OS_FLAG_CLR, OS_FLAG_SET}"
  shows "let fl = (if opt = OS_FLAG_CLR then OSFlagFlags (OSFlagTbl s g) AND NOT flags
           else OSFlagFlags (OSFlagTbl s g) OR flags);
         S = {i \<in> set js. flag_sat fl (OSFlagNodes s i)}
    in \<exists>s'. OSFlagPost (PFlagGrp g) flags opt True s = Some (if \<exists>i \<in> S. flag_ready s i then Wait
        else Done (fl, Some OS_ERR_NONE), s') \<and> os_wf s' \<and>
      OSFlagFlags (OSFlagTbl s' g) = fl \<and>
      flag_list s' g (filter (\<lambda>i. \<not> flag_sat fl (OSFlagNodes s i)) js) \<and>
      rdy_set s' = rdy_set s \<union> {p. \<exists>i \<in> S. flag_ready s i \<and> at_prio s p i} \<and>
      (\<forall>i \<in> S. OSTCBFlagsRdy (OSTCBTbl s' i) = flag_got fl (OSFlagNodes s i) \<and>
         OSTCBStatPend (OSTCBTbl s' i) = OS_STAT_PEND_OK \<and> OSTCBFlagNode (OSTCBTbl s' i) = NULL \<and>
         OSTCBStat (OSTCBTbl s' i) = OSTCBStat (OSTCBTbl s i) AND NOT OS_STAT_FLAG) \<and>
      (\<forall>q j. at_prio s' q j = at_prio s q j) \<and>
      (\<forall>i. i \<notin> S \<longrightarrow> tcb_core (OSTCBTbl s' i) = tcb_core (OSTCBTbl s i)) \<and>
      ((\<exists>i \<in> S. flag_ready s i) \<and> cur_ok s \<and> can_sched s \<longrightarrow>
         unat (OSPrioCur s') = Min (rdy_set s') \<and> cur_ok s')"
  unfolding Let_def by (rule OSFlagPost_effect [OF assms refl refl])

theorem OSFlagPost_correct_witness:
  "\<exists>s1 s2. OSFlagPend (PFlagGrp 0) 3 OS_FLAG_WAIT_SET_ANY 0 True demo = (Wait, s1) \<and>
     OSFlagPost (PFlagGrp 0) 1 OS_FLAG_SET True s1 = Some (Wait, s2) \<and> flag_list s2 0 [] \<and>
     5 \<in> rdy_set s2 \<and> OSTCBFlagsRdy (OSTCBTbl s2 0) = 1"
proof -
  have no: "flag_test (flag_wait_type OS_FLAG_WAIT_SET_ANY) (OSFlagFlags (OSFlagTbl demo 0)) 3 =
      Some (0, False)" and wt: "flag_wait_type OS_FLAG_WAIT_SET_ANY = OS_FLAG_WAIT_SET_ANY"
    by (simp_all add: flag_test_def flag_wait_type_def flag_consumes_def demo_flag)
  define s1 where "s1 = OS_Sched (OS_FlagBlock 0 0 3 (flag_wait_type OS_FLAG_WAIT_SET_ANY) 0 demo)"
  note B = OSFlagPend_blocks [OF os_wf_demo running_demo can_sched_demo demo_flag(5,1) _ _ demo_flag(2)
      no, where timeout = 0, folded s1_def]
  have l1: "flag_list s1 0 [0]" and ty: "OSFlagType (OSFlagTbl s1 0) = OS_EVENT_TYPE_FLAG"
    and fl: "OSFlagFlags (OSFlagTbl s1 0) = 0" and wf1: "os_wf s1"
    using B(2,4,6,7) by (simp_all add: demo_flag)
  have sat: "flag_sat 1 (OSFlagNodes s1 0)" "flag_got 1 (OSFlagNodes s1 0) = 1"
    using B(8,9) by (simp_all add: flag_sat_def flag_got_def flag_test_def Let_def wt)
  have rd: "flag_ready s1 0"
    using tcb_core_fields(2) [OF B(5)] by (simp add: flag_ready_def flag_wait_write_def demo_flag)
  have a: "at_prio s1 5 0" using B(11) [of 5 0] at_prio_demo(1) by simp
  have "\<exists>s2. OSFlagPost (PFlagGrp 0) 1 OS_FLAG_SET True s1 = Some (Wait, s2) \<and> flag_list s2 0 [] \<and>
     5 \<in> rdy_set s2 \<and> OSTCBFlagsRdy (OSTCBTbl s2 0) = 1"
    using OSFlagPost_correct [OF wf1 l1 ty, of OS_FLAG_SET 1] sat rd a
    by (auto simp: Let_def fl)
  with B(1) show ?thesis by auto
qed

text \<open>
  Handover of flags.  The highest-priority task waits for flags that are not there and gives up
  the processor; a post that sets the missing flags readies it and switches back to it; its pend call
  ends with \<^verbatim>\<open>OS_ERR_NONE\<close> and the flags that met its condition, and with \<^verbatim>\<open>OS_FLAG_CONSUME\<close> exactly
  these flags are taken out of the group.
\<close>

theorem OSFlag_handover:
  fixes flags bits timeout :: u16 and wait_type :: u8
  assumes wf: "os_wf s" and run: "running s p i" and cs: "can_sched s" and left: "rdy_set s - {p} \<noteq> {}"
    and l: "flag_list s g js" and i: "i \<notin> set js" "i < 12"
    and ty: "OSFlagType (OSFlagTbl s g) = OS_EVENT_TYPE_FLAG"
    and no: "flag_test (flag_wait_type wait_type) (OSFlagFlags (OSFlagTbl s g)) flags = Some (x, False)"
    and yes: "flag_test (flag_wait_type wait_type) (OSFlagFlags (OSFlagTbl s g) OR bits) flags =
      Some (got, True)"
    and stat: "OSTCBStat (OSTCBTbl s i) = OS_STAT_RDY"
    and top: "\<forall>q \<in> rdy_set s. p \<le> q" "\<forall>j \<in> set js. \<forall>q. at_prio s q j \<longrightarrow> p \<le> q"
  shows "\<exists>s1 s2 s3. OSFlagPend (PFlagGrp g) flags wait_type timeout True s = (Wait, s1) \<and>
    p \<notin> rdy_set s1 \<and> flag_list s1 g (i # js) \<and> unat (OSPrioCur s1) = Min (rdy_set s - {p}) \<and>
    OSFlagPost (PFlagGrp g) bits OS_FLAG_SET True s1 = Some (Wait, s2) \<and> OSTCBCur s2 = PTcb i \<and>
    OSFlagPend_resume (PFlagGrp g) wait_type s2 = (got, OS_ERR_NONE, s3) \<and>
    os_wf s3 \<and> p \<in> rdy_set s3 \<and> OSTCBStat (OSTCBTbl s3 i) = OS_STAT_RDY \<and>
    OSFlagFlags (OSFlagTbl s3 g) = (if flag_consumes wait_type
      then flag_consume (flag_wait_type wait_type) got (OSFlagFlags (OSFlagTbl s g) OR bits)
      else OSFlagFlags (OSFlagTbl s g) OR bits)"
proof -
  let ?wt = "flag_wait_type wait_type" and ?fl = "OSFlagFlags (OSFlagTbl s g) OR bits"
  define s1 where "s1 = OS_Sched (OS_FlagBlock g i flags ?wt timeout s)"
  note B = OSFlagPend_blocks [OF wf run cs left l i ty no, where timeout = timeout, folded s1_def]
  have a: "at_prio s p i" using run by (simp add: running_def)
  have le: "?wt \<le> OS_FLAG_WAIT_SET_ANY"
    using no by (auto simp: flag_test_def split: if_splits)
  have nd: "flag_sat ?fl (OSFlagNodes s1 i)" "flag_got ?fl (OSFlagNodes s1 i) = got"
    using flag_test_Some [of "OSFlagNodes s1 i" ?fl] yes B(8,9) le by simp_all
  have st1: "OSTCBStat (OSTCBTbl s1 i) = OS_STAT_FLAG"
    using tcb_core_fields(2) [OF B(5)] by (simp add: flag_wait_write_def stat)
  then have rd: "flag_ready s1 i" by (simp add: flag_ready_def)
  let ?S = "{j \<in> set (i # js). flag_sat ?fl (OSFlagNodes s1 j)}"
  have iS: "i \<in> ?S" using nd by simp
  obtain s2 where s2: "OSFlagPost (PFlagGrp g) bits OS_FLAG_SET True s1 = Some (Wait, s2)"
    "os_wf s2" "OSFlagFlags (OSFlagTbl s2 g) = ?fl"
    "rdy_set s2 = rdy_set s1 \<union> {q. \<exists>j \<in> ?S. flag_ready s1 j \<and> at_prio s1 q j}"
    "OSTCBFlagsRdy (OSTCBTbl s2 i) = got" "OSTCBStatPend (OSTCBTbl s2 i) = OS_STAT_PEND_OK"
    "OSTCBStat (OSTCBTbl s2 i) = OSTCBStat (OSTCBTbl s1 i) AND NOT OS_STAT_FLAG"
    "at_prio s2 p i" "unat (OSPrioCur s2) = Min (rdy_set s2)" "cur_ok s2"
  proof -
    have ex: "\<exists>j \<in> ?S. flag_ready s1 j" using iS rd by blast
    have fl1: "?fl = (if OS_FLAG_SET = OS_FLAG_CLR then OSFlagFlags (OSFlagTbl s1 g) AND NOT bits
        else OSFlagFlags (OSFlagTbl s1 g) OR bits)" by (simp add: B(6))
    obtain s2 where E: "OSFlagPost (PFlagGrp g) bits OS_FLAG_SET True s1 = Some (Wait, s2)"
      "os_wf s2" "OSFlagFlags (OSFlagTbl s2 g) = ?fl"
      "rdy_set s2 = rdy_set s1 \<union> {q. \<exists>j \<in> ?S. flag_ready s1 j \<and> at_prio s1 q j}"
      "\<forall>i \<in> ?S. OSTCBFlagsRdy (OSTCBTbl s2 i) = flag_got ?fl (OSFlagNodes s1 i) \<and>
         OSTCBStatPend (OSTCBTbl s2 i) = OS_STAT_PEND_OK \<and> OSTCBFlagNode (OSTCBTbl s2 i) = NULL \<and>
         OSTCBStat (OSTCBTbl s2 i) = OSTCBStat (OSTCBTbl s1 i) AND NOT OS_STAT_FLAG"
      "\<forall>q j. at_prio s2 q j = at_prio s1 q j"
      "unat (OSPrioCur s2) = Min (rdy_set s2)" "cur_ok s2"
      using OSFlagPost_effect [OF B(2,4,7) _ fl1 refl] ex B(13,14) by auto
    from bspec [OF E(5) iS] E(1-4,6-8) show ?thesis
      by (intro that [of s2]) (simp_all add: nd(2) B(11) a)
  qed
  have p2: "p \<in> rdy_set s2" using s2(4) iS rd a B(11) by blast
  have "p \<le> q" if q: "q \<in> rdy_set s2" for q
  proof -
    consider "q \<in> rdy_set s" | "at_prio s q i" | j where "j \<in> set js" "at_prio s q j"
      using q unfolding s2(4) B(3) by (auto simp: B(11))
    then show ?thesis using top a by cases (auto dest: at_prio_same_tcb)
  qed
  then have "Min (rdy_set s2) = p"
    using p2 bm.finite_els [OF os_wf_bm(1) [OF s2(2)]] by (intro Min_eqI) (auto simp: rdy_set_def)
  then have cur2: "OSTCBCur s2 = PTcb i"
    using s2(9,10) at_prio_tbl [OF s2(8)] by (simp add: cur_ok_def)
  let ?s3 = "consume_if wait_type got g s2"
  have type: "\<not> ?wt > OS_FLAG_WAIT_SET_ANY" using le by simp
  have "OSFlagPend_resume (PFlagGrp g) wait_type s2 = (got, OS_ERR_NONE, ?s3)"
    using s2(5,6) type by (simp add: OSFlagPend_resume_def cur2)
  moreover have "os_wf ?s3" "p \<in> rdy_set ?s3" "OSTCBTbl ?s3 = OSTCBTbl s2"
    using s2(2) p2 by (simp_all add: consume_if_def)
  moreover have "OSFlagFlags (OSFlagTbl ?s3 g) =
      (if flag_consumes wait_type then flag_consume ?wt got ?fl else ?fl)"
    using s2(3) by (simp add: consume_if_def)
  moreover have "OSTCBStat (OSTCBTbl s2 i) = OS_STAT_RDY" using s2(7) st1 by simp
  ultimately show ?thesis
    using B(1,3,4,12) s2(1) cur2
    by (intro exI [of _ s1] exI [of _ s2] exI [of _ ?s3]) simp
qed

theorem OSFlag_handover_witness:
  "\<exists>s1 s2 s3. OSFlagPend (PFlagGrp 0) 3 (OS_FLAG_WAIT_SET_ALL OR OS_FLAG_CONSUME) 0 True demo = (Wait, s1) \<and>
    OSFlagPost (PFlagGrp 0) 7 OS_FLAG_SET True s1 = Some (Wait, s2) \<and>
    OSFlagPend_resume (PFlagGrp 0) (OS_FLAG_WAIT_SET_ALL OR OS_FLAG_CONSUME) s2 = (3, OS_ERR_NONE, s3) \<and>
    OSFlagFlags (OSFlagTbl s3 0) = 4"
proof -
  let ?w = "OS_FLAG_WAIT_SET_ALL OR OS_FLAG_CONSUME"
  have t: "flag_test (flag_wait_type ?w) (OSFlagFlags (OSFlagTbl demo 0)) 3 = Some (0, False)"
    "flag_test (flag_wait_type ?w) (OSFlagFlags (OSFlagTbl demo 0) OR 7) 3 = Some (3, True)"
    by (simp_all add: flag_test_def flag_wait_type_def flag_consumes_def demo_flag)
  have "\<forall>q \<in> rdy_set demo. 5 \<le> q" by (simp add: rdy_set_demo)
  with OSFlag_handover [OF os_wf_demo running_demo can_sched_demo demo_flag(5,1) _ _ demo_flag(2) t
      demo_flag(4), where timeout = 0]
  show ?thesis
    by (auto simp: flag_consumes_def flag_wait_type_def flag_consume_def demo_flag)
qed

end
