(* ===== verification/Os_Mutex.thy ===== *)
theory Os_Mutex
  imports Os_Event
begin

text \<open>
  os_mutex.c: mutual exclusion semaphores with priority inheritance.  \<^verbatim>\<open>OSEventCnt\<close> holds the
  inheritance priority (PIP) in its upper byte and the owner's priority in its lower byte, 0xFF when
  the mutex is available; \<^verbatim>\<open>OSEventPtr\<close> is the owner.
\<close>

section \<open>Operations\<close>

abbreviation (input) OS_MUTEX_KEEP_LOWER_8 :: u16 where "OS_MUTEX_KEEP_LOWER_8 \<equiv> 0x00FF"
abbreviation (input) OS_MUTEX_KEEP_UPPER_8 :: u16 where "OS_MUTEX_KEEP_UPPER_8 \<equiv> 0xFF00"
abbreviation (input) OS_MUTEX_AVAILABLE :: u16 where "OS_MUTEX_AVAILABLE \<equiv> 0x00FF"

text \<open>\<^verbatim>\<open>pip = (INT8U)(pevent->OSEventCnt >> 8)\<close> and the owner's priority.\<close>

definition mutex_pip :: "u16 \<Rightarrow> u8" where
  "mutex_pip cnt = ucast (drop_bit 8 cnt)"

definition mutex_prio :: "u16 \<Rightarrow> u8" where
  "mutex_prio cnt = ucast (cnt AND OS_MUTEX_KEEP_LOWER_8)"

text \<open>The current task takes an available mutex: the code shared by accept and pend.\<close>

definition mutex_take :: "nat \<Rightarrow> os_state \<Rightarrow> os_err \<times> os_state" where
  "mutex_take e s =
     (let pip = mutex_pip (OSEventCnt (OSEventTbl s e));
          s1 = upd_event e (\<lambda>ev. ev\<lparr>OSEventCnt := (OSEventCnt ev AND OS_MUTEX_KEEP_UPPER_8) OR
                 ucast (OSTCBPrio (cur_tcb s)), OSEventPtr := OSTCBCur s\<rparr>) s
      in (if OSTCBPrio (cur_tcb s) \<le> pip then OS_ERR_PIP_LOWER else OS_ERR_NONE, s1))"

definition OSMutexAccept :: "ptr \<Rightarrow> bool \<Rightarrow> os_state \<Rightarrow> bool \<times> os_err option \<times> os_state" where
  "OSMutexAccept pevent perr s =
     (if \<not> perr then (False, None, s)
      else if pevent = NULL then (False, Some OS_ERR_PEVENT_NULL, s)
      else
        let e = event_of pevent
        in if OSEventType (OSEventTbl s e) \<noteq> OS_EVENT_TYPE_MUTEX
           then (False, Some OS_ERR_EVENT_TYPE, s)
           else if OSIntNesting s > 0 then (False, Some OS_ERR_PEND_ISR, s)
           else if OSEventCnt (OSEventTbl s e) AND OS_MUTEX_KEEP_LOWER_8 = OS_MUTEX_AVAILABLE then
             let (err, s1) = mutex_take e s in (True, Some err, s1)
           else (False, Some OS_ERR_NONE, s))"

definition set_prio_tbl :: "u8 \<Rightarrow> ptr \<Rightarrow> os_state \<Rightarrow> os_state" where
  "set_prio_tbl p t s = s\<lparr>OSTCBPrioTbl := (OSTCBPrioTbl s)(unat p := t)\<rparr>"

definition OSMutexCreate :: "u8 \<Rightarrow> bool \<Rightarrow> os_state \<Rightarrow> ptr \<times> os_err option \<times> os_state" where
  "OSMutexCreate prio perr s =
     (if \<not> perr then (NULL, None, s)
      else if prio \<ge> OS_LOWEST_PRIO then (NULL, Some OS_ERR_PRIO_INVALID, s)
      else if OSIntNesting s > 0 then (NULL, Some OS_ERR_CREATE_ISR, s)
      else if OSTCBPrioTbl s (unat prio) \<noteq> NULL then (NULL, Some OS_ERR_PRIO_EXIST, s)
      else
        let s1 = set_prio_tbl prio OS_TCB_RESERVED s;
            pevent = OSEventFreeList s1
        in if pevent = NULL then (NULL, Some OS_ERR_PEVENT_NULL, set_prio_tbl prio NULL s1)
           else
             let e = event_of pevent;
                 s2 = s1\<lparr>OSEventFreeList := OSEventPtr (OSEventTbl s1 (event_of (OSEventFreeList s1)))\<rparr>;
                 s3 = upd_event e (\<lambda>ev. ev\<lparr>OSEventType := OS_EVENT_TYPE_MUTEX,
                        OSEventCnt := push_bit 8 (ucast prio) OR OS_MUTEX_AVAILABLE,
                        OSEventPtr := NULL, OSEventName := name_unknown (OSEventName ev)\<rparr>) s2
             in (pevent, Some OS_ERR_NONE, OS_EventWaitListInit e s3))"

text \<open>Giving a TCB a new priority with the position fields that go with it.\<close>

definition tcb_set_prio :: "u8 \<Rightarrow> u8 \<Rightarrow> OS_TCB \<Rightarrow> OS_TCB" where
  "tcb_set_prio prio y t = t\<lparr>OSTCBPrio := prio, OSTCBY := y, OSTCBX := prio AND 7,
     OSTCBBitY := prio_bit y, OSTCBBitX := prio_bit (prio AND 7)\<rparr>"

definition OSMutex_RdyAtPrio :: "nat \<Rightarrow> u8 \<Rightarrow> os_state \<Rightarrow> os_state" where
  "OSMutex_RdyAtPrio ptcb prio s =
     (let s1 = rdy_remove ptcb s;
          s2 = upd_tcb ptcb (tcb_set_prio prio (drop_bit 3 prio AND 7)) s1;
          s3 = rdy_insert ptcb (OSTCBY (OSTCBTbl s2 ptcb)) s2
      in set_prio_tbl prio (PTcb ptcb) s3)"

text \<open>The end of a deletion: \<^verbatim>\<open>OSTCBPrioTbl[pip] = 0\<close> and the control block goes back.\<close>

definition mutex_put_back :: "nat \<Rightarrow> os_state \<Rightarrow> os_state" where
  "mutex_put_back e s =
     event_put e (set_prio_tbl (mutex_pip (OSEventCnt (OSEventTbl s e))) NULL s)"

definition OSMutexDel :: "ptr \<Rightarrow> u8 \<Rightarrow> bool \<Rightarrow> os_state \<Rightarrow> (ptr \<times> os_err option \<times> os_state) option" where
  "OSMutexDel pevent opt perr s =
     (if \<not> perr then Some (pevent, None, s)
      else if pevent = NULL then Some (pevent, Some OS_ERR_PEVENT_NULL, s)
      else
        let e = event_of pevent
        in if OSEventType (OSEventTbl s e) \<noteq> OS_EVENT_TYPE_MUTEX
           then Some (pevent, Some OS_ERR_EVENT_TYPE, s)
           else if OSIntNesting s > 0 then Some (pevent, Some OS_ERR_DEL_ISR, s)
           else
             let tasks_waiting = Grp (wait_of s e) \<noteq> 0
             in if opt = OS_DEL_NO_PEND then
                  if \<not> tasks_waiting then Some (NULL, Some OS_ERR_NONE, mutex_put_back e s)
                  else Some (pevent, Some OS_ERR_TASK_WAITING, s)
                else if opt = OS_DEL_ALWAYS then
                  (let cnt = OSEventCnt (OSEventTbl s e); ptcb = OSEventPtr (OSEventTbl s e);
                       s1 = (if ptcb \<noteq> NULL then
                               if OSTCBPrio (OSTCBTbl s (tcb_of ptcb)) = mutex_pip cnt
                               then OSMutex_RdyAtPrio (tcb_of ptcb) (mutex_prio cnt) s else s
                             else s)
                   in case rdy_all 24 e NULL OS_STAT_MUTEX OS_STAT_PEND_OK s1 of
                        None \<Rightarrow> None
                      | Some (_, s2) \<Rightarrow>
                          let s3 = mutex_put_back e s2
                          in Some (NULL, Some OS_ERR_NONE,
                               if tasks_waiting then OS_Sched s3 else s3))
                else Some (pevent, Some OS_ERR_INVALID_OPT, s))"

text \<open>
  Raising the owner to the PIP: on the ready list when it is ready, otherwise on the wait list its
  \<^verbatim>\<open>OSTCBEventPtr\<close> names, if any.
\<close>

definition mutex_raise :: "nat \<Rightarrow> u8 \<Rightarrow> os_state \<Rightarrow> os_state" where
  "mutex_raise ptcb pip s =
     (let t = OSTCBTbl s ptcb;
          rdy = bm_test (OSTCBY t) (OSTCBBitX t) (OSRdy s);
          s1 = (if rdy then rdy_remove ptcb s
                else if OSTCBEventPtr t \<noteq> NULL
                then OS_EventTaskRemove ptcb (event_of (OSTCBEventPtr t)) s else s);
          s2 = upd_tcb ptcb (tcb_set_prio pip (drop_bit 3 pip)) s1;
          t2 = OSTCBTbl s2 ptcb;
          s3 = (if rdy then rdy_insert ptcb (OSTCBY t2) s2
                else if OSTCBEventPtr t2 \<noteq> NULL
                then upd_event (event_of (OSTCBEventPtr t2)) (\<lambda>ev. ev\<lparr>OSEventWait :=
                       bm_set (OSTCBY t2) (OSTCBBitX t2) (OSTCBBitY t2) (OSEventWait ev)\<rparr>) s2
                else s2)
      in set_prio_tbl pip (PTcb ptcb) s3)"

definition OSMutexPend :: "ptr \<Rightarrow> u16 \<Rightarrow> bool \<Rightarrow> os_state \<Rightarrow> os_err option call \<times> os_state" where
  "OSMutexPend pevent timeout perr s =
     (if \<not> perr then (Done None, s)
      else if pevent = NULL then (Done (Some OS_ERR_PEVENT_NULL), s)
      else
        let e = event_of pevent
        in if OSEventType (OSEventTbl s e) \<noteq> OS_EVENT_TYPE_MUTEX
           then (Done (Some OS_ERR_EVENT_TYPE), s)
           else if OSIntNesting s > 0 then (Done (Some OS_ERR_PEND_ISR), s)
           else if OSLockNesting s > 0 then (Done (Some OS_ERR_PEND_LOCKED), s)
           else
             let cnt = OSEventCnt (OSEventTbl s e); pip = mutex_pip cnt
             in if mutex_prio cnt = 0xFF then
                  let (err, s1) = mutex_take e s in (Done (Some err), s1)
                else
                  let mprio = mutex_prio cnt;
                      ptcb = tcb_of (OSEventPtr (OSEventTbl s e));
                      s1 = (if OSTCBPrio (OSTCBTbl s ptcb) > pip then
                              if mprio > OSTCBPrio (cur_tcb s) then mutex_raise ptcb pip s else s
                            else s)
                  in (Wait, OS_Sched (pend_block e OS_STAT_MUTEX timeout s1)))"

definition OSMutexPend_resume :: "ptr \<Rightarrow> os_state \<Rightarrow> os_err \<times> os_state" where
  "OSMutexPend_resume pevent s = pend_finish (event_of pevent) s"

definition OSMutexPost :: "ptr \<Rightarrow> os_state \<Rightarrow> os_err \<times> os_state" where
  "OSMutexPost pevent s =
     (if OSIntNesting s > 0 then (OS_ERR_POST_ISR, s)
      else if pevent = NULL then (OS_ERR_PEVENT_NULL, s)
      else
        let e = event_of pevent
        in if OSEventType (OSEventTbl s e) \<noteq> OS_EVENT_TYPE_MUTEX then (OS_ERR_EVENT_TYPE, s)
           else
             let cnt = OSEventCnt (OSEventTbl s e); pip = mutex_pip cnt
             in if OSTCBCur s \<noteq> OSEventPtr (OSEventTbl s e) then (OS_ERR_NOT_MUTEX_OWNER, s)
                else
                  let s1 = (if OSTCBPrio (cur_tcb s) = pip
                            then OSMutex_RdyAtPrio (tcb_of (OSTCBCur s)) (mutex_prio cnt) s else s);
                      s2 = set_prio_tbl pip OS_TCB_RESERVED s1
                  in if Grp (wait_of s2 e) \<noteq> 0 then
                       let (prio, s3) = OS_EventTaskRdy e NULL OS_STAT_MUTEX OS_STAT_PEND_OK s2;
                           s4 = upd_event e (\<lambda>ev. ev\<lparr>OSEventCnt :=
                                  (OSEventCnt ev AND OS_MUTEX_KEEP_UPPER_8) OR ucast prio,
                                  OSEventPtr := OSTCBPrioTbl s3 (unat prio)\<rparr>) s3
                       in (if prio \<le> pip then OS_ERR_PIP_LOWER else OS_ERR_NONE, OS_Sched s4)
                     else
                       (OS_ERR_NONE, upd_event e (\<lambda>ev. ev\<lparr>OSEventCnt :=
                          OSEventCnt ev OR OS_MUTEX_AVAILABLE, OSEventPtr := NULL\<rparr>) s2))"

record OS_MUTEX_DATA =
  XD_OSMutexPIP :: u8
  XD_OSOwnerPrio :: u8
  XD_OSValue :: bool
  XD_OSEventWait :: prio_map

definition OSMutexQuery :: "ptr \<Rightarrow> bool \<Rightarrow> os_state \<Rightarrow> os_err \<times> OS_MUTEX_DATA option" where
  "OSMutexQuery pevent p_mutex_data s =
     (if OSIntNesting s > 0 then (OS_ERR_QUERY_ISR, None)
      else if pevent = NULL then (OS_ERR_PEVENT_NULL, None)
      else if \<not> p_mutex_data then (OS_ERR_PDATA_NULL, None)
      else
        let ev = OSEventTbl s (event_of pevent)
        in if OSEventType ev \<noteq> OS_EVENT_TYPE_MUTEX then (OS_ERR_EVENT_TYPE, None)
           else
             let owner = mutex_prio (OSEventCnt ev)
             in (OS_ERR_NONE, Some \<lparr>XD_OSMutexPIP = mutex_pip (OSEventCnt ev),
                  XD_OSOwnerPrio = owner, XD_OSValue = (owner = 0xFF), XD_OSEventWait =
                    \<lparr>Grp = Grp (OSEventWait ev),
                     Tbl = take OS_EVENT_TBL_SIZE (Tbl (OSEventWait ev))\<rparr>\<rparr>))"


section \<open>Changing the priority of a task\<close>

text \<open>
  What a state looks like in which task \<open>i\<close> has moved from priority \<open>m\<close> to the free priority \<open>n\<close>
  on every list.
\<close>

definition moved :: "nat \<Rightarrow> nat \<Rightarrow> nat set \<Rightarrow> nat set" where
  "moved m n A = (if m \<in> A then insert n (A - {m}) else A)"

lemma reprio:
  assumes wf: "os_wf s" and a: "at_prio s m i" and free: "\<And>k. \<not> at_prio s n k" and n: "n \<le> 20"
    and t: "OSTCBTbl s' = (OSTCBTbl s)(i := t')" "unat (OSTCBPrio t') = n" "tcb_pos_ok t'"
    and tbl: "OSTCBPrioTbl s' = (OSTCBPrioTbl s)(n := PTcb i)"
    and bm: "bm_wf (OSRdy s')" "\<And>e. bm_wf (wait_of s' e)"
    and r: "rdy_set s' \<subseteq> insert n (rdy_set s - {m})"
    and w: "\<And>e. wait_set s' e \<subseteq> insert n (wait_set s e - {m})"
    and rn: "n \<in> rdy_set s' \<Longrightarrow> rdy_ok t'" and wn: "\<And>e. n \<in> wait_set s' e \<Longrightarrow> waits_on t' e"
  shows "os_wf s'" and "at_prio s' q k \<longleftrightarrow> (if k = i then q = n else at_prio s q k)"
proof -
  show ap: "at_prio s' q k \<longleftrightarrow> (if k = i then q = n else at_prio s q k)" for q k
  proof (cases "k = i")
    case True
    then show ?thesis
      using t n by (auto simp: at_prio_def tbl)
  next
    case False
    have "q \<noteq> n" if "at_prio s q k" using that free by blast
    moreover have "\<not> at_prio s' n k" using False by (simp add: at_prio_def tbl)
    ultimately show ?thesis
      using False by (cases "q = n") (auto simp: at_prio_def t(1) tbl)
  qed
  have old: "k \<noteq> i" if "at_prio s q k" "q \<noteq> m" for q k
    using that a at_prio_same_tcb by blast
  have nr: "n \<notin> rdy_set s" and nw: "n \<notin> wait_set s e" for e
    using wf free by (metis os_wf_rdyE, metis os_wf_waitE)
  show "os_wf s'"
  proof (rule os_wfI [OF bm])
    fix q assume q: "q \<in> rdy_set s'"
    show "\<exists>k. at_prio s' q k \<and> rdy_ok (OSTCBTbl s' k)"
    proof (cases "q = n")
      case True
      with q rn show ?thesis by (intro exI [of _ i]) (simp add: ap t(1))
    next
      case False
      with q r have q': "q \<in> rdy_set s" "q \<noteq> m" by auto
      then obtain k where k: "at_prio s q k" "rdy_ok (OSTCBTbl s k)"
        using wf by (auto elim: os_wf_rdyE)
      with old [OF k(1) q'(2)] show ?thesis by (intro exI [of _ k]) (simp add: ap t(1))
    qed
  next
    fix e q assume q: "q \<in> wait_set s' e"
    show "\<exists>k. at_prio s' q k \<and> waits_on (OSTCBTbl s' k) e"
    proof (cases "q = n")
      case True
      with q wn show ?thesis by (intro exI [of _ i]) (simp add: ap t(1))
    next
      case False
      with q w have q': "q \<in> wait_set s e" "q \<noteq> m" by auto
      then obtain k where k: "at_prio s q k" "waits_on (OSTCBTbl s k) e"
        using wf by (auto elim: os_wf_waitE)
      with old [OF k(1) q'(2)] show ?thesis by (intro exI [of _ k]) (simp add: ap t(1))
    qed
  qed
qed

lemma tcb_set_prio_pos:
  assumes "unat np < 64"
  shows "tcb_pos_ok (tcb_set_prio np (drop_bit 3 np) t)"
    and "drop_bit 3 np AND 7 = drop_bit 3 np"
proof -
  show "tcb_pos_ok (tcb_set_prio np (drop_bit 3 np) t)"
    by (simp add: tcb_pos_ok_def tcb_set_prio_def prio_y_def prio_x_def)
  show "drop_bit 3 np AND 7 = drop_bit 3 np"
    using assms by (simp add: word_unat_eq_iff unat_and7 unat_drop3)
qed

lemma tcb_set_prio_fields [simp]:
  "OSTCBPrio (tcb_set_prio np y t) = np" "OSTCBY (tcb_set_prio np y t) = y"
  "rdy_ok (tcb_set_prio np y t) = rdy_ok t" "waits_on (tcb_set_prio np y t) e = waits_on t e"
  "OSTCBEventPtr (tcb_set_prio np y t) = OSTCBEventPtr t"
  "OSTCBStat (tcb_set_prio np y t) = OSTCBStat t"
  "OSTCBEventMultiPtr (tcb_set_prio np y t) = OSTCBEventMultiPtr t"
  by (simp_all add: tcb_set_prio_def rdy_ok_def waits_on_def split: option.split)

lemma set_prio_tbl_fields [simp]:
  "OSRdy (set_prio_tbl p t s) = OSRdy s" "OSTCBTbl (set_prio_tbl p t s) = OSTCBTbl s"
  "OSEventTbl (set_prio_tbl p t s) = OSEventTbl s"
  "OSTCBPrioTbl (set_prio_tbl p t s) = (OSTCBPrioTbl s)(unat p := t)"
  "OSTCBCur (set_prio_tbl p t s) = OSTCBCur s" "OSPrioCur (set_prio_tbl p t s) = OSPrioCur s"
  "OSIntNesting (set_prio_tbl p t s) = OSIntNesting s"
  "OSLockNesting (set_prio_tbl p t s) = OSLockNesting s"
  "rdy_set (set_prio_tbl p t s) = rdy_set s" "wait_set (set_prio_tbl p t s) e = wait_set s e"
  "can_sched (set_prio_tbl p t s) = can_sched s" "OSRunning (set_prio_tbl p t s) = OSRunning s"
  by (simp_all add: set_prio_tbl_def rdy_set_def wait_set_def can_sched_def)

text \<open>Moving a ready task that waits for nothing, as both routines of the mutex do.\<close>

lemma ready_move:
  fixes np :: u8
  assumes wf: "os_wf s" and a: "at_prio s m i" and free: "\<And>k. \<not> at_prio s (unat np) k"
    and np: "unat np \<le> 20" and r: "m \<in> rdy_set s" and w: "\<And>e. m \<notin> wait_set s e"
  defines "s' \<equiv> set_prio_tbl np (PTcb i) (rdy_insert i (drop_bit 3 np)
    (upd_tcb i (tcb_set_prio np (drop_bit 3 np)) (rdy_remove i s)))"
  shows "os_wf s'" and "at_prio s' q k \<longleftrightarrow> (if k = i then q = unat np else at_prio s q k)"
    and "rdy_set s' = insert (unat np) (rdy_set s - {m})" and "wait_set s' e = wait_set s e"
proof -
  let ?t' = "tcb_set_prio np (drop_bit 3 np) (OSTCBTbl s i)"
  have wf0: "os_wf (rdy_remove i s)" and r0: "rdy_set (rdy_remove i s) = rdy_set s - {m}"
    using os_wf_rdy_remove [OF wf a] rdy_set_remove [OF wf a] by auto
  have pos: "tcb_pos_ok ?t'" by (rule tcb_set_prio_pos) (use np in simp)
  have lt: "unat np < 24" using np by simp
  have rdy: "OSRdy s' = bm_ins np (OSRdy (rdy_remove i s))"
    using bm_set_pos [OF pos] by (simp add: s'_def rdy_insert_def Let_def)
  show rs: "rdy_set s' = insert (unat np) (rdy_set s - {m})"
    using bm.els_ins [OF os_wf_bm(1) [OF wf0] lt] r0 by (simp add: rdy_set_def rdy)
  show ws: "wait_set s' e = wait_set s e" for e by (simp add: s'_def)
  have bmr: "bm_wf (OSRdy s')"
    using bm.inv_ins [OF os_wf_bm(1) [OF wf0] lt] by (simp add: rdy)
  have bmw: "bm_wf (wait_of s' e)" for e using os_wf_bm(2) [OF wf] by (simp add: s'_def)
  have nw: "unat np \<notin> wait_set s e" for e
    using wf free by (metis os_wf_waitE)
  have ok: "rdy_ok (OSTCBTbl s i)"
    using wf a r by (metis at_prio_unique os_wf_rdyE)
  have tbl: "OSTCBTbl s' = (OSTCBTbl s)(i := ?t')" "OSTCBPrioTbl s' = (OSTCBPrioTbl s)(unat np := PTcb i)"
    by (simp_all add: s'_def)
  note R = reprio [OF wf a free np tbl(1) _ pos tbl(2) bmr bmw]
  show "os_wf s'"
    by (rule R) (use rs ws nw ok w in auto)
  show "at_prio s' q k \<longleftrightarrow> (if k = i then q = unat np else at_prio s q k)"
    by (rule R) (use rs ws nw ok w in auto)
qed


text \<open>
  Reserving or freeing a priority on no list.
\<close>

lemma os_wf_set_prio_tbl:
  assumes wf: "os_wf s" and nr: "unat p \<notin> rdy_set s" and nw: "\<And>e. unat p \<notin> wait_set s e"
  shows "os_wf (set_prio_tbl p t s)"
    and "q \<noteq> unat p \<Longrightarrow> at_prio (set_prio_tbl p t s) q i = at_prio s q i"
proof -
  show ap: "at_prio (set_prio_tbl p t s) q i = at_prio s q i" if "q \<noteq> unat p" for q i
    using that by (simp add: at_prio_def)
  show "os_wf (set_prio_tbl p t s)"
  proof (rule os_wfI)
    fix q assume q: "q \<in> rdy_set (set_prio_tbl p t s)"
    then have "q \<noteq> unat p" using nr by auto
    with q wf show "\<exists>i. at_prio (set_prio_tbl p t s) q i \<and> rdy_ok (OSTCBTbl (set_prio_tbl p t s) i)"
      by (auto simp: ap elim: os_wf_rdyE)
  next
    fix e q assume q: "q \<in> wait_set (set_prio_tbl p t s) e"
    then have "q \<noteq> unat p" using nw by auto
    with q wf show "\<exists>i. at_prio (set_prio_tbl p t s) q i \<and> waits_on (OSTCBTbl (set_prio_tbl p t s) i) e"
      by (auto simp: ap elim: os_wf_waitE)
  qed (use wf in \<open>simp_all add: os_wf_bm\<close>)
qed

text \<open>
  The scheduler after the running task has changed its priority: \<^verbatim>\<open>OSPrioCur\<close> is not ready any more.
\<close>

lemma OS_Sched_after_reprio:
  assumes wf: "os_wf s" and ne: "rdy_set s \<noteq> {}" and cs: "can_sched s"
    and off: "unat (OSPrioCur s) \<notin> rdy_set s"
  shows "unat (OSPrioCur (OS_Sched s)) = Min (rdy_set s)"
    and "OSTCBCur (OS_Sched s) = OSTCBPrioTbl s (Min (rdy_set s))"
proof -
  have hi: "unat (bm_highest (OSRdy s)) = Min (rdy_set s)"
    using bm.hi_eq_Min [OF os_wf_bm(1) [OF wf]] bm.some_iff [OF os_wf_bm(1) [OF wf]] ne
    by (simp add: rdy_set_def)
  have "Min (rdy_set s) \<in> rdy_set s"
    using Min_in [OF bm.finite_els [OF os_wf_bm(1) [OF wf]]] ne by (simp add: rdy_set_def)
  then have "bm_highest (OSRdy s) \<noteq> OSPrioCur s" using off hi by auto
  then show "unat (OSPrioCur (OS_Sched s)) = Min (rdy_set s)"
    "OSTCBCur (OS_Sched s) = OSTCBPrioTbl s (Min (rdy_set s))"
    using cs hi
    by (simp_all add: OS_Sched_def can_sched_def sched_switch_def Let_def OS_SchedNew_eq OSCtxSw_def)
qed

lemma mutex_cnt:
  fixes cnt :: u16 and p :: u8
  shows "mutex_pip ((cnt AND OS_MUTEX_KEEP_UPPER_8) OR ucast p) = mutex_pip cnt"
    and "mutex_prio ((cnt AND OS_MUTEX_KEEP_UPPER_8) OR ucast p) = p"
    and "mutex_pip (cnt OR OS_MUTEX_AVAILABLE) = mutex_pip cnt"
    and "mutex_prio (cnt OR OS_MUTEX_AVAILABLE) = 0xFF"
    and "mutex_pip (push_bit 8 (ucast p) OR OS_MUTEX_AVAILABLE) = p"
    and "mutex_prio (push_bit 8 (ucast p) OR OS_MUTEX_AVAILABLE) = 0xFF"
proof -
  have K: "(OS_MUTEX_KEEP_UPPER_8 :: u16) = push_bit 8 (mask 8)" "(OS_MUTEX_KEEP_LOWER_8 :: u16) = mask 8"
    "(0xFF :: u8) = mask 8"
    by (simp_all add: mask_eq_exp_minus_1 push_bit_eq_mult)
  note b = bit_ucast_iff bit_drop_bit_eq bit_or_iff bit_and_iff bit_push_bit_iff bit_mask_iff
  show "mutex_pip ((cnt AND OS_MUTEX_KEEP_UPPER_8) OR ucast p) = mutex_pip cnt"
    unfolding mutex_pip_def mutex_prio_def K
    by (rule bit_word_eqI) (auto simp: b dest: bit_imp_le_length)
  show "mutex_prio ((cnt AND OS_MUTEX_KEEP_UPPER_8) OR ucast p) = p"
    unfolding mutex_pip_def mutex_prio_def K
    by (rule bit_word_eqI) (auto simp: b dest: bit_imp_le_length)
  show "mutex_pip (cnt OR OS_MUTEX_AVAILABLE) = mutex_pip cnt"
    unfolding mutex_pip_def mutex_prio_def K
    by (rule bit_word_eqI) (auto simp: b dest: bit_imp_le_length)
  show "mutex_prio (cnt OR OS_MUTEX_AVAILABLE) = 0xFF"
    unfolding mutex_pip_def mutex_prio_def K
    by (rule bit_word_eqI) (auto simp: b dest: bit_imp_le_length)
  show "mutex_pip (push_bit 8 (ucast p) OR OS_MUTEX_AVAILABLE) = p"
    unfolding mutex_pip_def mutex_prio_def K
    by (rule bit_word_eqI) (auto simp: b dest: bit_imp_le_length)
  show "mutex_prio (push_bit 8 (ucast p) OR OS_MUTEX_AVAILABLE) = 0xFF"
    unfolding mutex_pip_def mutex_prio_def K
    by (rule bit_word_eqI) (auto simp: b dest: bit_imp_le_length)
qed

section \<open>Owned mutexes\<close>

text \<open>Mutex \<open>e\<close> with PIP \<open>pip\<close> is held by task \<open>j\<close>, whose own priority is \<open>m\<close>.\<close>

definition mutex_owned :: "os_state \<Rightarrow> nat \<Rightarrow> nat \<Rightarrow> u8 \<Rightarrow> u8 \<Rightarrow> bool" where
  "mutex_owned s e j m pip \<longleftrightarrow> OSEventType (OSEventTbl s e) = OS_EVENT_TYPE_MUTEX \<and>
     mutex_prio (OSEventCnt (OSEventTbl s e)) = m \<and> mutex_pip (OSEventCnt (OSEventTbl s e)) = pip \<and>
     OSEventPtr (OSEventTbl s e) = PTcb j \<and> m \<noteq> 0xFF \<and> unat pip \<le> 20 \<and> unat m \<le> 20"

lemma free_prio: "OSTCBPrioTbl s n = OS_TCB_RESERVED \<Longrightarrow> \<not> at_prio s n k"
  by (simp add: at_prio_def)

lemma at_prio_word: "at_prio s (unat m) j \<Longrightarrow> OSTCBPrio (OSTCBTbl s j) = m"
  by (simp add: at_prio_def word_unat_eq_iff)

lemma mutex_raise_ready:
  assumes wf: "os_wf s" and a: "at_prio s m j" and r: "m \<in> rdy_set s"
  shows "mutex_raise j pip s = set_prio_tbl pip (PTcb j) (rdy_insert j (drop_bit 3 pip)
    (upd_tcb j (tcb_set_prio pip (drop_bit 3 pip)) (rdy_remove j s)))"
proof -
  have "bm_test (OSTCBY (OSTCBTbl s j)) (OSTCBBitX (OSTCBTbl s j)) (OSRdy s)"
    using bm_test_pos [OF at_prio_pos [OF a] os_wf_bm(1) [OF wf]] at_prio_lt_24 [OF a] r
      at_prio_unat [OF a] by (simp add: rdy_set_def)
  then show ?thesis by (simp add: mutex_raise_def Let_def)
qed

section \<open>Properties\<close>

text \<open>
  C8: Priority inheritance.  When a task of priority \<open>p\<close> pends on a mutex held by a ready task of lower
  priority, the owner is moved to the mutex's PIP on the ready list and runs at once, before any other
  task; the caller waits.  So no task of a priority between the owner's and the caller's can delay the
  release.
\<close>

theorem OSMutexPend_inherits:
  assumes wf: "os_wf s" and run: "running s p i" and cs: "can_sched s"
    and own: "mutex_owned s e j m pip" and a: "at_prio s (unat m) j"
    and res: "OSTCBPrioTbl s (unat pip) = OS_TCB_RESERVED"
    and r: "unat m \<in> rdy_set s" and w: "\<forall>e. unat m \<notin> wait_set s e"
    and order: "unat pip < p" "p < unat m" and top: "\<forall>q \<in> rdy_set s. p \<le> q"
  shows "\<exists>s1. OSMutexPend (PEvent e) timeout True s = (Wait, s1) \<and> os_wf s1 \<and>
    OSTCBCur s1 = PTcb j \<and> unat (OSPrioCur s1) = unat pip \<and> at_prio s1 (unat pip) j \<and>
    rdy_set s1 = insert (unat pip) (rdy_set s - {p, unat m}) \<and>
    wait_set s1 e = insert p (wait_set s e) \<and> mutex_owned s1 e j m pip"
proof -
  have ty: "OSEventType (OSEventTbl s e) = OS_EVENT_TYPE_MUTEX"
    and pr: "mutex_prio (OSEventCnt (OSEventTbl s e)) = m" and pp: "mutex_pip (OSEventCnt (OSEventTbl s e)) = pip"
    and ptr: "OSEventPtr (OSEventTbl s e) = PTcb j" and mff: "m \<noteq> 0xFF" and pip: "unat pip \<le> 20"
    using own by (auto simp: mutex_owned_def)
  have cur: "OSTCBCur s = PTcb i" and ai: "at_prio s p i" using run by (auto simp: running_def)
  have ij: "i \<noteq> j" using ai a order(2) at_prio_same_tcb by blast
  define t where "t = mutex_raise j pip s"
  note mv = ready_move [OF wf a free_prio [OF res] pip r, folded mutex_raise_ready [OF wf a r] t_def]
  have tq: "OSTCBTbl t k = (if k = j then tcb_set_prio pip (drop_bit 3 pip) (OSTCBTbl s j)
      else OSTCBTbl s k)" for k
    by (simp add: t_def mutex_raise_ready [OF wf a r])
  have tf: "OSTCBCur t = OSTCBCur s" "OSPrioCur t = OSPrioCur s" "OSEventTbl t = OSEventTbl s"
    "can_sched t"
    using cs by (simp_all add: t_def mutex_raise_ready [OF wf a r] can_sched_def)
  have w': "unat m \<notin> wait_set s e" for e using w by blast
  have runt: "running t p i"
    using run ij order mv(2) [OF w', of p i] mv(3,4) [OF w'] by (auto simp: running_def tf tq)
  have gt: "OSTCBPrio (OSTCBTbl s j) > pip" "m > OSTCBPrio (OSTCBTbl s i)"
    using order at_prio_unat [OF a] at_prio_unat [OF ai] by (simp_all add: word_less_nat_alt)
  have pend: "OSMutexPend (PEvent e) timeout True s = (Wait, OS_Sched (pend_block e OS_STAT_MUTEX timeout t))"
    using cs gt mff by (simp add: OSMutexPend_def can_sched_def ty pr pp ptr cur Let_def t_def)
  have left: "rdy_set t - {p} \<noteq> {}" using mv(3) [OF w'] order by auto
  note b = pend_block_sched [OF mv(1) [OF w'] runt tf(4) left, where e = e and stat = OS_STAT_MUTEX and
      timeout = timeout]
  have rest: "rdy_set t - {p} = insert (unat pip) (rdy_set s - {p, unat m})"
    using mv(3) [OF w'] order by auto
  have mn: "Min (rdy_set t - {p}) = unat pip"
    using top order bm.finite_els [OF os_wf_bm(1) [OF wf]] unfolding rest
    by (intro Min_eqI) (auto simp: rdy_set_def)
  have tbl: "OSTCBPrioTbl t (unat pip) = PTcb j"
    by (simp add: t_def mutex_raise_ready [OF wf a r])
  have "mutex_owned (OS_Sched (pend_block e OS_STAT_MUTEX timeout t)) e j m pip"
    using own event_data_eq [OF b(5) [of e]] tf(3) by (simp add: mutex_owned_def)
  moreover have "at_prio (OS_Sched (pend_block e OS_STAT_MUTEX timeout t)) (unat pip) j"
    using b(9) mv(2) [OF w'] by simp
  ultimately show ?thesis
    using pend b(1,2,3,6,7) rest mn tbl mv(4) [OF w'] by simp
qed


text \<open>The demo state with event 5 a mutex of PIP 2 that task 3 (priority 12) holds.\<close>

definition demo_mutex :: os_state where
  "demo_mutex = set_prio_tbl 2 OS_TCB_RESERVED
     (upd_event 5 (\<lambda>ev. ev\<lparr>OSEventType := OS_EVENT_TYPE_MUTEX, OSEventCnt := 0x020C,
        OSEventPtr := PTcb 3\<rparr>) demo)"

lemma demo_mutex_facts:
  "os_wf demo_mutex" "running demo_mutex 5 0" "can_sched demo_mutex"
  "mutex_owned demo_mutex 5 3 12 2" "at_prio demo_mutex 12 3" "at_prio demo_mutex 5 0"
  "rdy_set demo_mutex = {5, 12, 20}" "wait_set demo_mutex e = wait_set demo e"
  "OSTCBPrioTbl demo_mutex 2 = OS_TCB_RESERVED"
proof -
  let ?u = "upd_event 5 (\<lambda>ev. ev\<lparr>OSEventType := OS_EVENT_TYPE_MUTEX, OSEventCnt := 0x020C,
        OSEventPtr := PTcb 3\<rparr>) demo"
  have u: "os_wf ?u" "wait_set ?u e = wait_set demo e" "rdy_set ?u = {5, 12, 20}" for e
    using os_wf_demo by (simp_all add: os_wf_upd_event_data rdy_set_demo)
  have n: "unat (2 :: u8) \<notin> rdy_set ?u" "\<And>e. unat (2 :: u8) \<notin> wait_set ?u e"
    by (simp_all add: u wait_set_demo rdy_set_demo)
  show "os_wf demo_mutex"
    unfolding demo_mutex_def by (rule os_wf_set_prio_tbl [OF u(1) n])
  have ap: "at_prio demo_mutex q i = at_prio demo q i" if "q \<noteq> 2" for q i
    using os_wf_set_prio_tbl(2) [OF u(1) n, of q] that by (simp add: demo_mutex_def)
  show "at_prio demo_mutex 12 3" "at_prio demo_mutex 5 0"
    using at_prio_demo ap by simp_all
  show r: "rdy_set demo_mutex = {5, 12, 20}" and w: "wait_set demo_mutex e = wait_set demo e" for e
    using u(2,3) by (simp_all add: demo_mutex_def)
  show "running demo_mutex 5 0"
    using running_demo ap [of 5] r w by (simp add: running_def) (simp add: demo_mutex_def)
  show "can_sched demo_mutex" using can_sched_demo by (simp add: demo_mutex_def can_sched_def)
  have "mutex_prio 0x020C = 12" "mutex_pip 0x020C = 2" by code_simp+
  then show "mutex_owned demo_mutex 5 3 12 2"
    by (simp add: mutex_owned_def demo_mutex_def)
  show "OSTCBPrioTbl demo_mutex 2 = OS_TCB_RESERVED" by (simp add: demo_mutex_def)
qed

theorem OSMutexPend_inherits_witness:
  "\<exists>s1. OSMutexPend (PEvent 5) 0 True demo_mutex = (Wait, s1) \<and> OSTCBCur s1 = PTcb 3 \<and>
    unat (OSPrioCur s1) = 2 \<and> rdy_set s1 = {2, 20}"
proof -
  have u: "unat (12 :: u8) = 12" "unat (2 :: u8) = 2" by simp_all
  note f = demo_mutex_facts
  have "OSTCBPrioTbl demo_mutex (unat (2 :: u8)) = OS_TCB_RESERVED"
    "unat (12 :: u8) \<in> rdy_set demo_mutex" "\<forall>e. unat (12 :: u8) \<notin> wait_set demo_mutex e"
    "unat (2 :: u8) < 5" "5 < unat (12 :: u8)" "\<forall>q \<in> rdy_set demo_mutex. 5 \<le> q"
    by (simp_all add: f wait_set_demo)
  with OSMutexPend_inherits [OF f(1-4), of 0] f(5) have "\<exists>s1. OSMutexPend (PEvent 5) 0 True demo_mutex =
      (Wait, s1) \<and> OSTCBCur s1 = PTcb 3 \<and> unat (OSPrioCur s1) = unat (2 :: u8) \<and>
      rdy_set s1 = insert (unat (2 :: u8)) (rdy_set demo_mutex - {5, unat (12 :: u8)})"
    unfolding u by blast
  moreover have "{5, 12, 20} - {5, 12 :: nat} = {20}" by auto
  ultimately show ?thesis by (simp only: u f(7)) 
qed

text \<open>
  C9: Release.  When the owner that runs at the PIP posts the mutex, it goes back to its own priority
  on the ready list, the PIP is reserved again, the highest-priority waiter becomes the owner with its
  priority recorded, is readied and leaves the wait list, and the highest-priority ready task runs.
\<close>

theorem OSMutexPost_restores:
  assumes wf: "os_wf s" and run: "running s (unat pip) j" and cs: "can_sched s"
    and own: "mutex_owned s e j m pip" and free: "\<forall>k. \<not> at_prio s (unat m) k"
    and ne: "wait_set s e \<noteq> {}"
  shows "let w = Min (wait_set s e) in \<exists>s'.
    OSMutexPost (PEvent e) s = (if w \<le> unat pip then OS_ERR_PIP_LOWER else OS_ERR_NONE, s') \<and>
    os_wf s' \<and> at_prio s' (unat m) j \<and> OSTCBPrioTbl s' (unat pip) = OS_TCB_RESERVED \<and>
    wait_set s' e = wait_set s e - {w} \<and>
    rdy_set s' = insert (unat m) (rdy_set s - {unat pip}) \<union> released s {w} OS_STAT_MUTEX \<and>
    OSEventPtr (OSEventTbl s' e) = OSTCBPrioTbl s w \<and>
    unat (mutex_prio (OSEventCnt (OSEventTbl s' e))) = w \<and>
    mutex_pip (OSEventCnt (OSEventTbl s' e)) = pip \<and>
    unat (OSPrioCur s') = Min (rdy_set s')"
proof -
  define w where "w = Min (wait_set s e)"
  let ?cnt = "OSEventCnt (OSEventTbl s e)"
  have ty: "OSEventType (OSEventTbl s e) = OS_EVENT_TYPE_MUTEX"
    and pr: "mutex_prio ?cnt = m" and pp: "mutex_pip ?cnt = pip"
    and ptr: "OSEventPtr (OSEventTbl s e) = PTcb j" and pip: "unat pip \<le> 20" and m: "unat m \<le> 20"
    using own by (auto simp: mutex_owned_def)
  have cur: "OSTCBCur s = PTcb j" and a: "at_prio s (unat pip) j" and rp: "unat pip \<in> rdy_set s"
    and wp: "\<And>e. unat pip \<notin> wait_set s e" and pc: "OSPrioCur s = pip"
    using run by (auto simp: running_def word_unat_eq_iff)
  have mp: "unat m \<noteq> unat pip" using a free by metis
  define s1 where "s1 = OSMutex_RdyAtPrio j m s"
  have s1: "s1 = set_prio_tbl m (PTcb j) (rdy_insert j (drop_bit 3 m)
      (upd_tcb j (tcb_set_prio m (drop_bit 3 m)) (rdy_remove j s)))"
    using m tcb_set_prio_pos(2) [of m] by (simp add: s1_def OSMutex_RdyAtPrio_def)
  have fr: "\<And>k. \<not> at_prio s (unat m) k" using free by blast
  note mv = ready_move [OF wf a fr m rp wp, folded s1]
  have nr1: "unat pip \<notin> rdy_set s1" and nw1: "unat pip \<notin> wait_set s1 e'" for e'
    using mv(3,4) mp wp by auto
  define s2 where "s2 = set_prio_tbl pip OS_TCB_RESERVED s1"
  note p2 = os_wf_set_prio_tbl [OF mv(1) nr1 nw1, where t = OS_TCB_RESERVED, folded s2_def]
  have w2: "wait_set s2 e' = wait_set s e'" "rdy_set s2 = rdy_set s1" for e'
    by (simp_all add: s2_def mv(4))
  have ne2: "wait_set s2 e \<noteq> {}" using ne by (simp add: w2)
  define s3 where "s3 = snd (OS_EventTaskRdy e NULL OS_STAT_MUTEX OS_STAT_PEND_OK s2)"
  note r = EventTaskRdy_sets [OF p2(1) ne2, unfolded w2 w_def [symmetric], where pmsg = NULL and
      msk = OS_STAT_MUTEX and pend = OS_STAT_PEND_OK, folded s3_def]
  have g2: "Grp (wait_of s2 e) \<noteq> 0" using wait_empty_iff [OF p2(1)] ne2 by simp
  then have g1: "Grp (wait_of s1 e) \<noteq> 0" by (simp add: s2_def)
  define prio where "prio = bm_highest (wait_of s2 e)"
  have pw: "unat prio = w" using highest_waiter [OF p2(1) ne2] by (simp add: prio_def w2 w_def)
  have rdy: "OS_EventTaskRdy e NULL OS_STAT_MUTEX OS_STAT_PEND_OK s2 = (prio, s3)"
    by (simp add: s3_def prio_def OS_EventTaskRdy_def Let_def bm_highest_def prod_eq_iff)
  define s4 where "s4 = upd_event e (\<lambda>ev. ev\<lparr>OSEventCnt := (OSEventCnt ev AND OS_MUTEX_KEEP_UPPER_8) OR ucast prio,
      OSEventPtr := OSTCBPrioTbl s3 (unat prio)\<rparr>) s3"
  have evs: "OSEventTbl s2 = OSEventTbl s" by (simp add: s2_def s1)
  have cur2: "OSTCBPrio (cur_tcb s) = pip" using at_prio_word [OF a] by (simp add: cur)
  have post: "OSMutexPost (PEvent e) s =
      (if w \<le> unat pip then OS_ERR_PIP_LOWER else OS_ERR_NONE, OS_Sched s4)"
    using cs g1 g2 cur2
    by (simp add: OSMutexPost_def can_sched_def ty pr pp ptr cur Let_def s1_def [symmetric]
        s2_def [symmetric] rdy s4_def word_le_nat_alt pw)
  have in_w: "w \<in> wait_set s e" using Min_in [OF finite_wait_set [OF wf] ne] by (simp add: w_def)
  then have wne: "w \<noteq> unat pip" "w \<noteq> unat m" using wp wf free by (auto elim: os_wf_waitE)
  obtain k where k: "at_prio s w k" using in_w wf by (auto elim: os_wf_waitE)
  have kj: "k \<noteq> j" using k a wne at_prio_same_tcb by blast
  have tk: "task_at s2 w = task_at s w"
    using k kj wne by (simp add: task_at_def at_prio_def s2_def s1)
  have rel: "released s2 {w} OS_STAT_MUTEX = released s {w} OS_STAT_MUTEX"
    by (auto simp: released_def tk)
  have wf4: "os_wf s4" and w4: "wait_set s4 e' = wait_set s e' - {w}" and r4: "rdy_set s4 = rdy_set s3" for e'
    using r(1,2) by (simp_all add: s4_def os_wf_upd_event_data)
  have r3: "rdy_set s3 = insert (unat m) (rdy_set s - {unat pip}) \<union> released s {w} OS_STAT_MUTEX"
    using r(3) rel mv(3) w2 by simp
  have np: "unat pip \<notin> rdy_set s4"
    using r3 r4 mp wne by (auto simp: released_def)
  have f3: "OSTCBCur s3 = OSTCBCur s" "OSPrioCur s3 = pip" "can_sched s3"
    "OSTCBPrioTbl s3 = (OSTCBPrioTbl s)(unat m := PTcb j, unat pip := OS_TCB_RESERVED)"
    using os_frameD [OF r(6)] os_frame_ok [OF r(6)] cs pc
    by (simp_all add: s2_def s1 can_sched_def)
  have c4: "can_sched s4" "unat (OSPrioCur s4) \<notin> rdy_set s4"
    using f3 np by (simp_all add: s4_def can_sched_def)
  have ne4: "rdy_set s4 \<noteq> {}" using r4 r3 by simp
  note sch = OS_Sched_after_reprio [OF wf4 ne4 c4]
  have a4: "at_prio s4 (unat m) j"
    using mv(2) [of "unat m" j] p2(2) [OF mp] r(5) by (simp add: s4_def)
  have cnt3: "OSEventCnt (OSEventTbl s3 e) = ?cnt"
    using event_data_eq(3) [OF r(4), of e] evs by simp
  have ev4: "OSEventPtr (OSEventTbl s4 e) = OSTCBPrioTbl s w"
    "unat (mutex_prio (OSEventCnt (OSEventTbl s4 e))) = w"
    "mutex_pip (OSEventCnt (OSEventTbl s4 e)) = pip"
    using f3(4) wne pp by (simp_all add: s4_def pw mutex_cnt cnt3)
  show ?thesis
    unfolding Let_def w_def [symmetric]
    using post wf4 a4 f3(4) mp w4 r3 r4 ev4 sch(1)
    by (intro exI [of _ "OS_Sched s4"]) (simp add: s4_def)
qed


text \<open>The demo state with event 0 a mutex of PIP 5 that task 0 holds, its own priority being 15.\<close>

definition demo_held :: os_state where
  "demo_held = upd_event 0 (\<lambda>ev. ev\<lparr>OSEventType := OS_EVENT_TYPE_MUTEX, OSEventCnt := 0x050F,
     OSEventPtr := PTcb 0\<rparr>) demo"

lemma demo_held_facts:
  "os_wf demo_held" "running demo_held (unat (5 :: u8)) 0" "can_sched demo_held"
  "mutex_owned demo_held 0 0 15 5" "\<forall>k. \<not> at_prio demo_held (unat (15 :: u8)) k"
  "wait_set demo_held e = wait_set demo e"
proof -
  show "os_wf demo_held" "wait_set demo_held e = wait_set demo e" for e
    using os_wf_demo by (simp_all add: demo_held_def os_wf_upd_event_data)
  then show "running demo_held (unat (5 :: u8)) 0"
    using running_demo by (simp add: running_def) (simp add: demo_held_def)
  show "can_sched demo_held" using can_sched_demo by (simp add: demo_held_def can_sched_def)
  have "mutex_prio 0x050F = 15" "mutex_pip 0x050F = 5" by code_simp+
  then show "mutex_owned demo_held 0 0 15 5"
    by (simp add: mutex_owned_def demo_held_def)
  show "\<forall>k. \<not> at_prio demo_held (unat (15 :: u8)) k"
    by (simp add: at_prio_def demo_held_def) (simp add: demo_def)
qed

theorem OSMutexPost_restores_witness:
  "\<exists>s'. OSMutexPost (PEvent 0) demo_held = (OS_ERR_PIP_LOWER, s') \<and> at_prio s' 15 0 \<and>
    wait_set s' 0 = {} \<and> OSEventPtr (OSEventTbl s' 0) = PTcb 1"
proof -
  have w: "wait_set demo_held 0 = {3}" by (simp add: demo_held_facts wait_set_demo)
  then have ne: "wait_set demo_held 0 \<noteq> {}" by simp
  have p: "OSTCBPrioTbl demo_held 3 = PTcb 1" by (simp add: demo_held_def) (simp add: demo_def)
  show ?thesis
    using OSMutexPost_restores [OF demo_held_facts(1-5) ne] p by (auto simp: w Let_def)
qed

text \<open>
  Mutual exclusion.  Only an available mutex can be taken by accept or pend, and taking it makes
  the caller its owner; a task that does not own the mutex cannot release it, and a mutex without
  waiters becomes available again when its owner releases it.
\<close>

theorem OSMutex_exclusive:
  assumes ty: "OSEventType (OSEventTbl s e) = OS_EVENT_TYPE_MUTEX" and cs: "can_sched s"
    and cur: "OSTCBCur s = PTcb i" and lt: "OSTCBPrio (OSTCBTbl s i) \<noteq> 0xFF"
  shows "((\<exists>s' err. OSMutexAccept (PEvent e) True s = (True, Some err, s')) \<longleftrightarrow>
      mutex_prio (OSEventCnt (OSEventTbl s e)) = 0xFF) \<and>
    (mutex_prio (OSEventCnt (OSEventTbl s e)) = 0xFF \<longrightarrow>
      (\<exists>s' err. OSMutexAccept (PEvent e) True s = (True, Some err, s') \<and>
        OSMutexPend (PEvent e) timeout True s = (Done (Some err), s') \<and>
        OSEventPtr (OSEventTbl s' e) = PTcb i \<and>
        mutex_prio (OSEventCnt (OSEventTbl s' e)) = OSTCBPrio (OSTCBTbl s i) \<and>
        fst (OSMutexAccept (PEvent e) True s') = False \<and>
        fst (OSMutexPend (PEvent e) timeout True s') = Wait)) \<and>
    (OSEventPtr (OSEventTbl s e) \<noteq> PTcb i \<longrightarrow> OSMutexPost (PEvent e) s = (OS_ERR_NOT_MUTEX_OWNER, s)) \<and>
    (OSEventPtr (OSEventTbl s e) = PTcb i \<and> Grp (wait_of s e) = 0 \<longrightarrow>
      (\<exists>s'. OSMutexPost (PEvent e) s = (OS_ERR_NONE, s') \<and>
        mutex_prio (OSEventCnt (OSEventTbl s' e)) = 0xFF \<and> OSEventPtr (OSEventTbl s' e) = NULL))"
proof -
  let ?cnt = "OSEventCnt (OSEventTbl s e)"
  have av: "c AND OS_MUTEX_KEEP_LOWER_8 = OS_MUTEX_AVAILABLE \<longleftrightarrow> mutex_prio c = 0xFF" for c
  proof -
    have "unat (mutex_prio c) = unat (c AND OS_MUTEX_KEEP_LOWER_8)"
    proof -
      have "c AND OS_MUTEX_KEEP_LOWER_8 = take_bit 8 c"
        by (simp add: take_bit_eq_mask mask_eq_exp_minus_1)
      then show ?thesis
        by (simp add: mutex_prio_def unsigned_ucast_eq unsigned_take_bit_eq)
    qed
    then show ?thesis by (auto simp: word_unat_eq_iff)
  qed
  define s1 where "s1 = snd (mutex_take e s)"
  have tk: "OSEventType (OSEventTbl s1 e) = OS_EVENT_TYPE_MUTEX" "OSEventPtr (OSEventTbl s1 e) = PTcb i"
    "mutex_prio (OSEventCnt (OSEventTbl s1 e)) = OSTCBPrio (OSTCBTbl s i)"
    "OSIntNesting s1 = 0" "OSLockNesting s1 = 0"
    using cs by (simp_all add: s1_def mutex_take_def Let_def cur ty mutex_cnt can_sched_def)
  have take: "mutex_prio ?cnt = 0xFF \<longrightarrow>
      (\<exists>s' err. OSMutexAccept (PEvent e) True s = (True, Some err, s') \<and>
        OSMutexPend (PEvent e) timeout True s = (Done (Some err), s') \<and>
        OSEventPtr (OSEventTbl s' e) = PTcb i \<and>
        mutex_prio (OSEventCnt (OSEventTbl s' e)) = OSTCBPrio (OSTCBTbl s i) \<and>
        fst (OSMutexAccept (PEvent e) True s') = False \<and>
        fst (OSMutexPend (PEvent e) timeout True s') = Wait)"
  proof (intro impI exI conjI)
    assume f: "mutex_prio ?cnt = 0xFF"
    show "OSMutexAccept (PEvent e) True s = (True, Some (fst (mutex_take e s)), s1)"
      using cs f by (simp add: OSMutexAccept_def ty can_sched_def av s1_def split: prod.split)
    show "OSMutexPend (PEvent e) timeout True s = (Done (Some (fst (mutex_take e s))), s1)"
      using cs f by (simp add: OSMutexPend_def ty can_sched_def s1_def Let_def split: prod.split)
    show "OSEventPtr (OSEventTbl s1 e) = PTcb i"
      "mutex_prio (OSEventCnt (OSEventTbl s1 e)) = OSTCBPrio (OSTCBTbl s i)" using tk by auto
    show "fst (OSMutexAccept (PEvent e) True s1) = False"
      using tk lt by (simp add: OSMutexAccept_def av)
    show "fst (OSMutexPend (PEvent e) timeout True s1) = Wait"
      using tk lt by (simp add: OSMutexPend_def Let_def)
  qed
  have only: "(\<exists>s' err. OSMutexAccept (PEvent e) True s = (True, Some err, s')) \<longleftrightarrow> mutex_prio ?cnt = 0xFF"
    using take by (cases "mutex_prio ?cnt = 0xFF")
      (auto simp: OSMutexAccept_def ty av Let_def)
  have "OSEventPtr (OSEventTbl s e) \<noteq> PTcb i \<longrightarrow> OSMutexPost (PEvent e) s = (OS_ERR_NOT_MUTEX_OWNER, s)"
    using cs by (auto simp: OSMutexPost_def can_sched_def ty cur Let_def)
  moreover have "OSEventPtr (OSEventTbl s e) = PTcb i \<and> Grp (wait_of s e) = 0 \<longrightarrow>
      (\<exists>s'. OSMutexPost (PEvent e) s = (OS_ERR_NONE, s') \<and>
        mutex_prio (OSEventCnt (OSEventTbl s' e)) = 0xFF \<and> OSEventPtr (OSEventTbl s' e) = NULL)"
    using cs by (auto simp: OSMutexPost_def can_sched_def ty cur Let_def mutex_cnt OSMutex_RdyAtPrio_def)
  ultimately show ?thesis using take only by blast
qed


theorem OSMutex_exclusive_witness:
  "OSMutexPost (PEvent 5) demo_mutex = (OS_ERR_NOT_MUTEX_OWNER, demo_mutex)"
proof -
  have c: "OSTCBCur demo_mutex = PTcb 0"
    using demo_mutex_facts(2) by (simp add: running_def)
  have "OSTCBPrio (OSTCBTbl demo_mutex 0) \<noteq> 0xFF"
    using demo_mutex_facts(6) by (auto simp: at_prio_def)
  moreover have "OSEventType (OSEventTbl demo_mutex 5) = OS_EVENT_TYPE_MUTEX"
    "OSEventPtr (OSEventTbl demo_mutex 5) \<noteq> PTcb 0"
    using demo_mutex_facts(4) by (auto simp: mutex_owned_def)
  ultimately show ?thesis
    using OSMutex_exclusive [OF _ demo_mutex_facts(3) c] by blast
qed

section \<open>A flaw of the deletion\<close>

text \<open>
  \<^verbatim>\<open>OSMutexDel\<close> with \<^verbatim>\<open>OS_DEL_NO_PEND\<close> does not look at the owner.  An owner that still runs at the PIP
  (its waiters have timed out) keeps that priority while \<^verbatim>\<open>OSTCBPrioTbl[pip]\<close> becomes \<^verbatim>\<open>NULL\<close>: a ready
  priority without a task, which the scheduler would load as a null TCB.
\<close>

lemma OSMutexDel_boosted_owner:
  assumes run: "running s (unat pip) j" and own: "mutex_owned s e j m pip"
    and w: "Grp (wait_of s e) = 0" and isr: "OSIntNesting s = 0"
  shows "\<exists>s'. OSMutexDel (PEvent e) OS_DEL_NO_PEND True s = Some (NULL, Some OS_ERR_NONE, s') \<and>
    unat pip \<in> rdy_set s' \<and> OSTCBPrioTbl s' (unat pip) = NULL \<and> \<not> os_wf s'"
proof -
  let ?s' = "mutex_put_back e s"
  have del: "OSMutexDel (PEvent e) OS_DEL_NO_PEND True s = Some (NULL, Some OS_ERR_NONE, ?s')"
    using own w isr by (simp add: OSMutexDel_def mutex_owned_def)
  have r: "unat pip \<in> rdy_set ?s'"
    using run by (simp add: mutex_put_back_def running_def)
  have n: "OSTCBPrioTbl ?s' (unat pip) = NULL"
    using own by (simp add: mutex_put_back_def mutex_owned_def event_put_def)
  then have "\<not> os_wf ?s'"
    using r by (auto simp: at_prio_def elim: os_wf_rdyE)
  with del r n show ?thesis by blast
qed

end
