(* ===== verification/Os_Task.thy ===== *)
theory Os_Task
  imports
    Os_Flag
    Os_Mutex
begin

text \<open>
  os_task.c: creating, deleting, suspending, resuming and re-prioritising tasks, and the stack
  checker; with \<^verbatim>\<open>OS_TCBInit\<close> (os_core.c) and \<^verbatim>\<open>OSTaskStkInit\<close> (os_cpu_c.c).  Stacks are words of
  \<open>OSStkMem\<close>, addressed by bytes; the stack grows downwards.
\<close>

section \<open>The initial stack frame\<close>

text \<open>
  What the frame takes from newlib and from the assembler part: the size and the initial contents of
  \<^verbatim>\<open>struct _reent\<close>, and the address of \<^verbatim>\<open>OSStartTsk\<close>.
\<close>

record port =
  reent_size :: u32
  REENT_INIT_PTR :: "u32 \<Rightarrow> (u32 \<Rightarrow> u32) \<Rightarrow> u32 \<Rightarrow> u32"
  OSStartTsk :: u32

definition OSTaskStkInit :: "port \<Rightarrow> u32 \<Rightarrow> u32 \<Rightarrow> u32 \<Rightarrow> u16 \<Rightarrow> os_state \<Rightarrow> u32 \<times> os_state" where
  "OSTaskStkInit prt task pdata pstk opt s =
     (let local_impure_ptr = (pstk AND NOT 3) - reent_size prt;
          m1 = REENT_INIT_PTR prt local_impure_ptr (OSStkMem s);
          frame_pointer = local_impure_ptr;
          stk = frame_pointer - 4 * 13;
          m2 = m1(stk + 4 * 12 := task, stk + 4 * 11 := pdata, stk + 4 * 10 := local_impure_ptr,
                  stk := OSStartTsk prt + 4)
      in (stk, s\<lparr>OSStkMem := m2\<rparr>))"

section \<open>Creating a task\<close>

definition tcb_init ::
  "u8 \<Rightarrow> u32 \<Rightarrow> u32 \<Rightarrow> u16 \<Rightarrow> u32 \<Rightarrow> ptr \<Rightarrow> u16 \<Rightarrow> OS_TCB \<Rightarrow> OS_TCB" where
  "tcb_init prio ptos pbos tid stk_size pext opt t = t\<lparr>OSTCBStkPtr := ptos, OSTCBPrio := prio,
     OSTCBStat := OS_STAT_RDY, OSTCBStatPend := OS_STAT_PEND_OK, OSTCBDly := 0,
     OSTCBExtPtr := pext, OSTCBStkSize := stk_size, OSTCBStkBottom := pbos, OSTCBOpt := opt,
     OSTCBId := tid, OSTCBDelReq := OS_ERR_NONE,
     OSTCBY := drop_bit 3 prio, OSTCBX := prio AND 7,
     OSTCBBitY := prio_bit (drop_bit 3 prio), OSTCBBitX := prio_bit (prio AND 7),
     OSTCBEventPtr := NULL, OSTCBEventMultiPtr := None, OSTCBFlagNode := NULL, OSTCBMsg := NULL,
     OSTCBCtxSwCtr := 0, OSTCBCyclesStart := 0, OSTCBCyclesTot := 0, OSTCBStkBase := 0,
     OSTCBStkUsed := 0, OSTCBTaskName := name_unknown (OSTCBTaskName t)\<rparr>"

definition OS_TCBInit ::
  "u8 \<Rightarrow> u32 \<Rightarrow> u32 \<Rightarrow> u16 \<Rightarrow> u32 \<Rightarrow> ptr \<Rightarrow> u16 \<Rightarrow> os_state \<Rightarrow> os_err \<times> os_state" where
  "OS_TCBInit prio ptos pbos tid stk_size pext opt s =
     (if OSTCBFreeList s \<noteq> NULL then
        let ptcb = OSTCBFreeList s; i = tcb_of ptcb;
            s1 = s\<lparr>OSTCBFreeList := OSTCBNext (OSTCBTbl s i)\<rparr>;
            s2 = upd_tcb i (tcb_init prio ptos pbos tid stk_size pext opt) s1;
            s3 = set_prio_tbl prio ptcb s2;
            s4 = upd_tcb i (\<lambda>t. t\<lparr>OSTCBNext := OSTCBList s3, OSTCBPrev := NULL\<rparr>) s3;
            s5 = (if OSTCBList s4 \<noteq> NULL
                  then upd_tcb (tcb_of (OSTCBList s4)) (\<lambda>t. t\<lparr>OSTCBPrev := ptcb\<rparr>) s4 else s4);
            s6 = s5\<lparr>OSTCBList := ptcb\<rparr>;
            s7 = rdy_insert i (OSTCBY (OSTCBTbl s6 i)) s6
        in (OS_ERR_NONE, s7\<lparr>OSTaskCtr := OSTaskCtr s7 + 1\<rparr>)
      else (OS_ERR_TASK_NO_MORE_TCB, s))"

text \<open>The end of both creation calls: schedule, or give the priority back.\<close>

definition create_end :: "u8 \<Rightarrow> os_err \<times> os_state \<Rightarrow> os_err \<times> os_state" where
  "create_end prio r =
     (let (err, s) = r
      in if err = OS_ERR_NONE then (err, if OSRunning s then OS_Sched s else s)
         else (err, set_prio_tbl prio NULL s))"

definition OSTaskCreate :: "port \<Rightarrow> u32 \<Rightarrow> u32 \<Rightarrow> u32 \<Rightarrow> u8 \<Rightarrow> os_state \<Rightarrow> os_err \<times> os_state" where
  "OSTaskCreate prt task p_arg ptos prio s =
     (if prio > OS_LOWEST_PRIO then (OS_ERR_PRIO_INVALID, s)
      else if OSIntNesting s > 0 then (OS_ERR_TASK_CREATE_ISR, s)
      else if OSTCBPrioTbl s (unat prio) = NULL then
        let s1 = set_prio_tbl prio OS_TCB_RESERVED s;
            (psp, s2) = OSTaskStkInit prt task p_arg ptos 0 s1
        in create_end prio (OS_TCBInit prio psp 0 0 0 NULL 0 s2)
      else (OS_ERR_PRIO_EXIST, s))"

text \<open>\<^verbatim>\<open>while (size > 0) { size--; *pbos++ = 0; }\<close>\<close>

fun stk_clr :: "nat \<Rightarrow> u32 \<Rightarrow> (u32 \<Rightarrow> u32) \<Rightarrow> u32 \<Rightarrow> u32" where
  "stk_clr 0 pbos m = m"
| "stk_clr (Suc n) pbos m = stk_clr n (pbos + 4) (m(pbos := 0))"

definition OS_TaskStkClr :: "u32 \<Rightarrow> u32 \<Rightarrow> u16 \<Rightarrow> os_state \<Rightarrow> os_state" where
  "OS_TaskStkClr pbos stk_size opt s =
     (if opt AND OS_TASK_OPT_STK_CHK \<noteq> 0 then
        if opt AND OS_TASK_OPT_STK_CLR \<noteq> 0
        then s\<lparr>OSStkMem := stk_clr (unat stk_size) pbos (OSStkMem s)\<rparr> else s
      else s)"

definition OSTaskCreateExt ::
  "port \<Rightarrow> u32 \<Rightarrow> u32 \<Rightarrow> u32 \<Rightarrow> u8 \<Rightarrow> u16 \<Rightarrow> u32 \<Rightarrow> u32 \<Rightarrow> ptr \<Rightarrow> u16 \<Rightarrow> os_state \<Rightarrow> os_err \<times> os_state"
  where
  "OSTaskCreateExt prt task p_arg ptos prio tid pbos stk_size pext opt s =
     (if prio > OS_LOWEST_PRIO then (OS_ERR_PRIO_INVALID, s)
      else if OSIntNesting s > 0 then (OS_ERR_TASK_CREATE_ISR, s)
      else if OSTCBPrioTbl s (unat prio) = NULL then
        let s1 = set_prio_tbl prio OS_TCB_RESERVED s;
            s2 = OS_TaskStkClr pbos stk_size opt s1;
            (psp, s3) = OSTaskStkInit prt task p_arg ptos opt s2
        in create_end prio (OS_TCBInit prio psp pbos tid stk_size pext opt s3)
      else (OS_ERR_PRIO_EXIST, s))"

section \<open>Changing a priority\<close>

text \<open>Moving a task's bit on the wait list of one event.\<close>

definition wait_move :: "OS_TCB \<Rightarrow> u8 \<Rightarrow> nat \<Rightarrow> os_state \<Rightarrow> os_state" where
  "wait_move t newprio pevent s = upd_event pevent (\<lambda>ev. ev\<lparr>OSEventWait :=
     bm_set (drop_bit 3 newprio) (prio_bit (newprio AND 7)) (prio_bit (drop_bit 3 newprio))
       (bm_clr (OSTCBY t) (OSTCBBitX t) (OSTCBBitY t) (OSEventWait ev))\<rparr>) s"

fun wait_move_multi :: "OS_TCB \<Rightarrow> u8 \<Rightarrow> nat list \<Rightarrow> os_state \<Rightarrow> os_state" where
  "wait_move_multi t newprio [] s = s"
| "wait_move_multi t newprio (pevent # pevents) s =
     wait_move_multi t newprio pevents (wait_move t newprio pevent s)"

definition OSTaskChangePrio :: "u8 \<Rightarrow> u8 \<Rightarrow> os_state \<Rightarrow> os_err \<times> os_state" where
  "OSTaskChangePrio oldprio newprio s =
     (if oldprio \<ge> OS_LOWEST_PRIO \<and> oldprio \<noteq> OS_PRIO_SELF then (OS_ERR_PRIO_INVALID, s)
      else if newprio \<ge> OS_LOWEST_PRIO then (OS_ERR_PRIO_INVALID, s)
      else if OSTCBPrioTbl s (unat newprio) \<noteq> NULL then (OS_ERR_PRIO_EXIST, s)
      else
        let oldprio' = (if oldprio = OS_PRIO_SELF then OSTCBPrio (cur_tcb s) else oldprio);
            ptcb = OSTCBPrioTbl s (unat oldprio')
        in if ptcb = NULL then (OS_ERR_PRIO, s)
           else if ptcb = OS_TCB_RESERVED then (OS_ERR_TASK_NOT_EXIST, s)
           else
             let i = tcb_of ptcb; t = OSTCBTbl s i;
                 s1 = set_prio_tbl newprio ptcb (set_prio_tbl oldprio' NULL s);
                 s2 = (if bm_test (OSTCBY t) (OSTCBBitX t) (OSRdy s1) then
                         s1\<lparr>OSRdy := bm_set (drop_bit 3 newprio) (prio_bit (newprio AND 7))
                              (prio_bit (drop_bit 3 newprio))
                              (bm_clr (OSTCBY t) (OSTCBBitX t) (OSTCBBitY t) (OSRdy s1))\<rparr>
                       else s1);
                 s3 = (if OSTCBEventPtr t \<noteq> NULL
                       then wait_move t newprio (event_of (OSTCBEventPtr t)) s2 else s2);
                 s4 = (case OSTCBEventMultiPtr t of
                         None \<Rightarrow> s3 | Some es \<Rightarrow> wait_move_multi t newprio es s3);
                 s5 = upd_tcb i (tcb_set_prio newprio (drop_bit 3 newprio)) s4
             in (OS_ERR_NONE, if OSRunning s5 then OS_Sched s5 else s5))"

section \<open>Deleting a task\<close>

text \<open>The first critical section: the task leaves the ready list and every wait list.\<close>

definition task_unlist :: "nat \<Rightarrow> os_state \<Rightarrow> os_state" where
  "task_unlist i s =
     (let s1 = rdy_remove i s;
          s2 = (if OSTCBEventPtr (OSTCBTbl s1 i) \<noteq> NULL
                then OS_EventTaskRemove i (event_of (OSTCBEventPtr (OSTCBTbl s1 i))) s1 else s1);
          s3 = (case OSTCBEventMultiPtr (OSTCBTbl s2 i) of
                  None \<Rightarrow> s2 | Some es \<Rightarrow> OS_EventTaskRemoveMulti i es s2);
          pnode = OSTCBFlagNode (OSTCBTbl s3 i);
          s4 = (if pnode \<noteq> NULL then OS_FlagUnlink (node_of pnode) s3 else s3);
          s5 = upd_tcb i (\<lambda>t. t\<lparr>OSTCBDly := 0, OSTCBStat := OS_STAT_RDY,
                 OSTCBStatPend := OS_STAT_PEND_OK\<rparr>) s4
      in if OSLockNesting s5 < 255 then s5\<lparr>OSLockNesting := OSLockNesting s5 + 1\<rparr> else s5)"

text \<open>The second: its TCB leaves the task list for the free list.\<close>

definition task_free :: "u8 \<Rightarrow> nat \<Rightarrow> os_state \<Rightarrow> os_state" where
  "task_free prio i s =
     (let s1 = (if OSLockNesting s > 0 then s\<lparr>OSLockNesting := OSLockNesting s - 1\<rparr> else s);
          s2 = s1\<lparr>OSTaskCtr := OSTaskCtr s1 - 1\<rparr>;
          s3 = set_prio_tbl prio NULL s2;
          t = OSTCBTbl s3 i;
          s4 = (if OSTCBPrev t = NULL then
                  (upd_tcb (tcb_of (OSTCBNext t)) (\<lambda>n. n\<lparr>OSTCBPrev := NULL\<rparr>) s3)
                  \<lparr>OSTCBList := OSTCBNext t\<rparr>
                else upd_tcb (tcb_of (OSTCBNext t)) (\<lambda>n. n\<lparr>OSTCBPrev := OSTCBPrev t\<rparr>)
                       (upd_tcb (tcb_of (OSTCBPrev t)) (\<lambda>p. p\<lparr>OSTCBNext := OSTCBNext t\<rparr>) s3));
          s5 = upd_tcb i (\<lambda>t. t\<lparr>OSTCBNext := OSTCBFreeList s4,
                 OSTCBTaskName := name_unknown (OSTCBTaskName t)\<rparr>) s4
      in s5\<lparr>OSTCBFreeList := PTcb i\<rparr>)"

text \<open>
  Between the two the scheduler is locked and interrupts are enabled for a moment (\<^verbatim>\<open>OS_Dummy\<close>);
  \<open>isrs\<close> is what the interrupts taken there do.
\<close>

definition OSTaskDel :: "(os_state \<Rightarrow> os_state) \<Rightarrow> u8 \<Rightarrow> os_state \<Rightarrow> os_err \<times> os_state" where
  "OSTaskDel isrs prio s =
     (if OSIntNesting s > 0 then (OS_ERR_TASK_DEL_ISR, s)
      else if prio = OS_TASK_IDLE_PRIO then (OS_ERR_TASK_DEL_IDLE, s)
      else if prio \<ge> OS_LOWEST_PRIO \<and> prio \<noteq> OS_PRIO_SELF then (OS_ERR_PRIO_INVALID, s)
      else
        let prio' = (if prio = OS_PRIO_SELF then OSTCBPrio (cur_tcb s) else prio);
            ptcb = OSTCBPrioTbl s (unat prio')
        in if ptcb = NULL then (OS_ERR_TASK_NOT_EXIST, s)
           else if ptcb = OS_TCB_RESERVED then (OS_ERR_TASK_DEL, s)
           else
             let s1 = task_unlist (tcb_of ptcb) s;
                 s2 = task_free prio' (tcb_of ptcb) (isrs s1)
             in (OS_ERR_NONE, if OSRunning s2 then OS_Sched s2 else s2))"

definition OSTaskDelReq :: "u8 \<Rightarrow> os_state \<Rightarrow> os_err \<times> os_state" where
  "OSTaskDelReq prio s =
     (if prio = OS_TASK_IDLE_PRIO then (OS_ERR_TASK_DEL_IDLE, s)
      else if prio \<ge> OS_LOWEST_PRIO \<and> prio \<noteq> OS_PRIO_SELF then (OS_ERR_PRIO_INVALID, s)
      else if prio = OS_PRIO_SELF then (OSTCBDelReq (cur_tcb s), s)
      else
        let ptcb = OSTCBPrioTbl s (unat prio)
        in if ptcb = NULL then (OS_ERR_TASK_NOT_EXIST, s)
           else if ptcb = OS_TCB_RESERVED then (OS_ERR_TASK_DEL, s)
           else (OS_ERR_NONE,
                 upd_tcb (tcb_of ptcb) (\<lambda>t. t\<lparr>OSTCBDelReq := OS_ERR_TASK_DEL_REQ\<rparr>) s))"

section \<open>Suspending and resuming\<close>

definition OSTaskSuspend :: "u8 \<Rightarrow> os_state \<Rightarrow> os_err \<times> os_state" where
  "OSTaskSuspend prio s =
     (if prio = OS_TASK_IDLE_PRIO then (OS_ERR_TASK_SUSPEND_IDLE, s)
      else if prio \<ge> OS_LOWEST_PRIO \<and> prio \<noteq> OS_PRIO_SELF then (OS_ERR_PRIO_INVALID, s)
      else
        let (prio', self) =
              (if prio = OS_PRIO_SELF then (OSTCBPrio (cur_tcb s), True)
               else if prio = OSTCBPrio (cur_tcb s) then (prio, True) else (prio, False));
            ptcb = OSTCBPrioTbl s (unat prio')
        in if ptcb = NULL then (OS_ERR_TASK_SUSPEND_PRIO, s)
           else if ptcb = OS_TCB_RESERVED then (OS_ERR_TASK_NOT_EXIST, s)
           else
             let s1 = rdy_remove (tcb_of ptcb) s;
                 s2 = upd_tcb (tcb_of ptcb) (\<lambda>t. t\<lparr>OSTCBStat := OSTCBStat t OR OS_STAT_SUSPEND\<rparr>) s1
             in (OS_ERR_NONE, if self then OS_Sched s2 else s2))"

definition OSTaskResume :: "u8 \<Rightarrow> os_state \<Rightarrow> os_err \<times> os_state" where
  "OSTaskResume prio s =
     (if prio \<ge> OS_LOWEST_PRIO then (OS_ERR_PRIO_INVALID, s)
      else
        let ptcb = OSTCBPrioTbl s (unat prio)
        in if ptcb = NULL then (OS_ERR_TASK_RESUME_PRIO, s)
           else if ptcb = OS_TCB_RESERVED then (OS_ERR_TASK_NOT_EXIST, s)
           else
             let i = tcb_of ptcb
             in if OSTCBStat (OSTCBTbl s i) AND OS_STAT_SUSPEND \<noteq> OS_STAT_RDY then
                  let s1 = upd_tcb i (\<lambda>t. t\<lparr>OSTCBStat := OSTCBStat t AND NOT OS_STAT_SUSPEND\<rparr>) s
                  in if OSTCBStat (OSTCBTbl s1 i) = OS_STAT_RDY then
                       if OSTCBDly (OSTCBTbl s1 i) = 0 then
                         let s2 = rdy_insert i (OSTCBY (OSTCBTbl s1 i)) s1
                         in (OS_ERR_NONE, if OSRunning s2 then OS_Sched s2 else s2)
                       else (OS_ERR_NONE, s1)
                     else (OS_ERR_NONE, s1)
                else (OS_ERR_TASK_NOT_SUSPENDED, s))"

section \<open>Queries and the stack checker\<close>

text \<open>\<^verbatim>\<open>OS_MemCopy\<close> copies the whole control block.\<close>

definition OSTaskQuery :: "u8 \<Rightarrow> bool \<Rightarrow> os_state \<Rightarrow> os_err \<times> OS_TCB option" where
  "OSTaskQuery prio p_task_data s =
     (if prio > OS_LOWEST_PRIO \<and> prio \<noteq> OS_PRIO_SELF then (OS_ERR_PRIO_INVALID, None)
      else if \<not> p_task_data then (OS_ERR_PDATA_NULL, None)
      else
        let ptcb = task_of_prio prio s
        in if ptcb = NULL then (OS_ERR_PRIO, None)
           else if ptcb = OS_TCB_RESERVED then (OS_ERR_TASK_NOT_EXIST, None)
           else (OS_ERR_NONE, Some (OSTCBTbl s (tcb_of ptcb))))"

text \<open>\<^verbatim>\<open>while (*pchk++ == 0) nfree++;\<close> does not look at the size of the stack.\<close>

partial_function (option) stk_free :: "(u32 \<Rightarrow> u32) \<Rightarrow> u32 \<Rightarrow> u32 \<Rightarrow> u32 option" where
  "stk_free m pchk nfree =
     (if m pchk = 0 then stk_free m (pchk + 4) (nfree + 1) else Some nfree)"

text \<open>The result: the error, and the contents of \<^verbatim>\<open>OS_STK_DATA\<close> when it is written.\<close>

definition OSTaskStkChk ::
  "u8 \<Rightarrow> bool \<Rightarrow> os_state \<Rightarrow> (os_err \<times> (u32 \<times> u32) option) option" where
  "OSTaskStkChk prio p_stk_data s =
     (if prio > OS_LOWEST_PRIO \<and> prio \<noteq> OS_PRIO_SELF then Some (OS_ERR_PRIO_INVALID, None)
      else if \<not> p_stk_data then Some (OS_ERR_PDATA_NULL, None)
      else
        let ptcb = task_of_prio prio s
        in if ptcb = NULL then Some (OS_ERR_TASK_NOT_EXIST, Some (0, 0))
           else if ptcb = OS_TCB_RESERVED then Some (OS_ERR_TASK_NOT_EXIST, Some (0, 0))
           else
             let t = OSTCBTbl s (tcb_of ptcb)
             in if OSTCBOpt t AND OS_TASK_OPT_STK_CHK = 0 then Some (OS_ERR_TASK_OPT, Some (0, 0))
                else map_option (\<lambda>nfree. (OS_ERR_NONE, Some (nfree * 4, (OSTCBStkSize t - nfree) * 4)))
                       (stk_free (OSStkMem s) (OSTCBStkBottom t) 0))"

section \<open>Suspension\<close>

definition suspend_write :: "OS_TCB \<Rightarrow> OS_TCB" where
  "suspend_write t = t\<lparr>OSTCBStat := OSTCBStat t OR OS_STAT_SUSPEND\<rparr>"

lemma keeps_prio_suspend_write [simp]: "keeps_prio suspend_write"
  "keeps_prio (\<lambda>t. t\<lparr>OSTCBStat := f t\<rparr>)"
  by (simp_all add: keeps_prio_def suspend_write_def)

lemma waits_on_stat [simp]: "waits_on (suspend_write t) e = waits_on t e"
  "waits_on (t\<lparr>OSTCBStat := x\<rparr>) e = waits_on t e"
  by (simp_all add: waits_on_def suspend_write_def split: option.split)

lemma at_prio_20: "at_prio s (unat p) j \<Longrightarrow> p < OS_LOWEST_PRIO \<Longrightarrow> OSTCBPrioTbl s (unat p) = PTcb j"
  by (simp add: at_prio_def)

lemma OSTaskSuspend_correct:
  fixes prio :: u8
  assumes wf: "os_wf s" and a: "at_prio s (unat prio) j" and lo: "prio < OS_LOWEST_PRIO"
    and other: "prio \<noteq> OSTCBPrio (cur_tcb s)"
  defines "s' \<equiv> upd_tcb j suspend_write (rdy_remove j s)"
  shows "OSTaskSuspend prio s = (OS_ERR_NONE, s')" and "os_wf s'"
    and "rdy_set s' = rdy_set s - {unat prio}" and "wait_set s' e = wait_set s e"
    and "at_prio s' q i = at_prio s q i" and "os_frame s' = os_frame s"
    and "OSTickStepState s' = OSTickStepState s"
proof -
  have p: "prio \<noteq> OS_TASK_IDLE_PRIO" "\<not> prio \<ge> OS_LOWEST_PRIO" "prio \<noteq> OS_PRIO_SELF"
    using lo by auto
  show "OSTaskSuspend prio s = (OS_ERR_NONE, s')"
    using p other at_prio_tbl [OF a]
    by (simp add: OSTaskSuspend_def Let_def s'_def suspend_write_def [abs_def])
  have r: "rdy_set (rdy_remove j s) = rdy_set s - {unat prio}" by (rule rdy_set_remove [OF wf a])
  show "os_wf s'" unfolding s'_def
    by (rule os_wf_upd_tcb_at [OF os_wf_rdy_remove [OF wf a], of _ "unat prio"])
      (use a r in \<open>auto dest: at_prio_waits_on [OF wf]\<close>)
  show "rdy_set s' = rdy_set s - {unat prio}" "wait_set s' e = wait_set s e"
    "at_prio s' q i = at_prio s q i" "os_frame s' = os_frame s"
    "OSTickStepState s' = OSTickStepState s"
    using r by (simp_all add: s'_def) (simp add: rdy_remove_def Let_def)
qed

lemma OSTaskResume_correct:
  fixes prio :: u8
  assumes wf: "os_wf s" and a: "at_prio s (unat prio) j" and lo: "prio < OS_LOWEST_PRIO"
    and st: "OSTCBStat (OSTCBTbl s j) = OS_STAT_SUSPEND"
  shows "\<exists>s'. OSTaskResume prio s = (OS_ERR_NONE, s') \<and> os_wf s' \<and>
    rdy_set s' = rdy_set s \<union> (if OSTCBDly (OSTCBTbl s j) = 0 then {unat prio} else {}) \<and>
    (\<forall>e. wait_set s' e = wait_set s e) \<and>
    (\<forall>i. tcb_core (OSTCBTbl s' i) = tcb_core (if i = j then (OSTCBTbl s j)\<lparr>OSTCBStat := OS_STAT_RDY\<rparr>
       else OSTCBTbl s i))"
proof -
  define s1 where "s1 = upd_tcb j (\<lambda>t. t\<lparr>OSTCBStat := OSTCBStat t AND NOT OS_STAT_SUSPEND\<rparr>) s"
  have nr: "unat prio \<notin> rdy_set s"
    using at_prio_rdy_ok [OF wf a] st by (auto simp: rdy_ok_def)
  have wf1: "os_wf s1" unfolding s1_def
    by (rule os_wf_upd_tcb_at [OF wf _ a]) (use nr at_prio_waits_on [OF wf a] in auto)
  have a1: "at_prio s1 (unat prio) j" using a by (simp add: s1_def)
  have t1: "OSTCBTbl s1 = (OSTCBTbl s)(j := (OSTCBTbl s j)\<lparr>OSTCBStat := OS_STAT_RDY\<rparr>)"
    by (simp add: s1_def st)
  define s2 where "s2 = rdy_insert j (OSTCBY (OSTCBTbl s1 j)) s1"
  define s' where "s' = (if OSTCBDly (OSTCBTbl s j) = 0
    then (if OSRunning s2 then OS_Sched s2 else s2) else s1)"
  have "OSTaskResume prio s = (OS_ERR_NONE, s')"
    using lo at_prio_tbl [OF a] st
    by (simp add: OSTaskResume_def Let_def s'_def s2_def s1_def)
  moreover have "os_wf s'"
  proof -
    have "os_wf s2" if "OSTCBDly (OSTCBTbl s j) = 0" unfolding s2_def
      by (rule os_wf_rdy_insert [OF wf1 a1]) (use that in \<open>simp add: rdy_ok_def t1\<close>)
    then show ?thesis using wf1 by (simp add: s'_def)
  qed
  moreover have "rdy_set s' = rdy_set s \<union> (if OSTCBDly (OSTCBTbl s j) = 0 then {unat prio} else {})"
    using rdy_set_insert [OF wf1 a1] by (simp add: s'_def s2_def) (simp add: s1_def)
  moreover have "wait_set s' e = wait_set s e" for e
    by (simp add: s'_def s2_def s1_def)
  moreover have "tcb_core (OSTCBTbl s' i) = tcb_core (if i = j then (OSTCBTbl s j)\<lparr>OSTCBStat := OS_STAT_RDY\<rparr>
       else OSTCBTbl s i)" for i
    by (simp add: s'_def s2_def t1)
  ultimately show ?thesis by auto
qed

text \<open>A suspended task under ticks: its delay runs on, and it stays off the ready list.\<close>

lemma ticks_suspended:
  assumes "os_wf s" "task_list s js" "OSRunning s" "OSTickStepState s = OS_TICK_STEP_DIS" "j \<in> set js"
    and "OSTCBStat (OSTCBTbl s j) = OS_STAT_SUSPEND"
  shows "\<exists>t. run_ticks k s = Some t \<and> os_wf t \<and> task_list t js \<and> OSRunning t \<and>
    OSTickStepState t = OS_TICK_STEP_DIS \<and> OSTCBStat (OSTCBTbl t j) = OS_STAT_SUSPEND \<and>
    unat (OSTCBDly (OSTCBTbl t j)) = unat (OSTCBDly (OSTCBTbl s j)) - k \<and>
    (\<forall>p i. at_prio t p i = at_prio s p i) \<and> os_frame t = os_frame s"
proof (induction k)
  case 0
  then show ?case using assms by simp
next
  case (Suc k)
  then obtain t where t: "run_ticks k s = Some t" "os_wf t" "task_list t js" "OSRunning t"
    "OSTickStepState t = OS_TICK_STEP_DIS" "OSTCBStat (OSTCBTbl t j) = OS_STAT_SUSPEND"
    "unat (OSTCBDly (OSTCBTbl t j)) = unat (OSTCBDly (OSTCBTbl s j)) - k"
    "\<forall>p i. at_prio t p i = at_prio s p i" "os_frame t = os_frame s"
    by blast
  let ?u = "t\<lparr>OSTime := OSTime t + 1\<rparr>"
  have tl: "task_list ?u js" "os_wf ?u" using t(2,3) by simp_all
  then have d: "distinct js" "\<forall>j \<in> set js. \<exists>p. at_prio ?u p j" by (auto simp: task_list_def)
  have tick: "OSTimeTick t = Some (tick_all js ?u)" by (rule OSTimeTick_tick_all [OF t(3-5)])
  have w: "OSTCBTbl (tick_all js ?u) j = tick_write (OSTCBTbl t j)"
    using assms(5) by (simp add: tick_all_tbl [OF d(1)])
  have dly: "unat (OSTCBDly (tick_write x)) = unat (OSTCBDly x) - 1" for x
    by (auto simp: tick_write_def expire_def unat_minus_one)
  have "OSTCBStat (tick_write (OSTCBTbl t j)) = OS_STAT_SUSPEND"
    using t(6) by (simp add: tick_write_def expire_def)
  moreover have "unat (OSTCBDly (tick_write (OSTCBTbl t j))) = unat (OSTCBDly (OSTCBTbl s j)) - Suc k"
    using t(7) by (simp add: dly)
  moreover have "os_wf (tick_all js ?u)" using tick_all_sets [OF tl(2) d] by simp
  moreover have "OSRunning (tick_all js ?u)" using os_frameD(5) [of "tick_all js ?u" t] t(4) by simp
  ultimately show ?case
    using t(1,5,8,9) task_list_tick_all [OF tl(1)] by (simp add: tick w)
qed

text \<open>
  Suspending and resuming another task that waits for nothing but possibly a delay.  From its
  suspension on it is not ready, however many ticks pass and even when its delay runs out meanwhile;
  resumed after \<open>k\<close> ticks, it is ready exactly when the delay it had left was at most \<open>k\<close> ticks.
\<close>

theorem OSTask_suspend_resume:
  fixes prio :: u8
  assumes wf: "os_wf s" and tl: "task_list s js" and on: "OSRunning s" "OSTickStepState s = OS_TICK_STEP_DIS"
    and a: "at_prio s (unat prio) j" and j: "j \<in> set js" and lo: "prio < OS_LOWEST_PRIO"
    and other: "prio \<noteq> OSTCBPrio (cur_tcb s)" and st: "OSTCBStat (OSTCBTbl s j) = OS_STAT_RDY"
  shows "\<exists>s1 s2 s3. OSTaskSuspend prio s = (OS_ERR_NONE, s1) \<and> unat prio \<notin> rdy_set s1 \<and>
    run_ticks k s1 = Some s2 \<and> unat prio \<notin> rdy_set s2 \<and>
    OSTaskResume prio s2 = (OS_ERR_NONE, s3) \<and> os_wf s3 \<and>
    OSTCBStat (OSTCBTbl s3 j) = OS_STAT_RDY \<and>
    (unat prio \<in> rdy_set s3 \<longleftrightarrow> unat (OSTCBDly (OSTCBTbl s j)) \<le> k)"
proof -
  define s1 where "s1 = upd_tcb j suspend_write (rdy_remove j s)"
  note S = OSTaskSuspend_correct [OF wf a lo other, folded s1_def]
  have t1: "OSTCBTbl s1 = (OSTCBTbl s)(j := (OSTCBTbl s j)\<lparr>OSTCBStat := OS_STAT_SUSPEND\<rparr>)"
    by (simp add: s1_def suspend_write_def st)
  have tl1: "task_list s1 js"
    by (rule task_list_core [OF tl]) (use S(5,6) in \<open>auto simp: t1 os_frame_def\<close>)
  have on1: "OSRunning s1" using os_frameD(5) [OF S(6)] on by simp
  obtain s2 where s2: "run_ticks k s1 = Some s2" "os_wf s2"
    "OSTCBStat (OSTCBTbl s2 j) = OS_STAT_SUSPEND"
    "unat (OSTCBDly (OSTCBTbl s2 j)) = unat (OSTCBDly (OSTCBTbl s j)) - k"
    "\<forall>p i. at_prio s2 p i = at_prio s p i"
    using ticks_suspended [OF S(2) tl1 on1 _ j, of k] S(5,7) on(2) by (auto simp: t1)
  have a2: "at_prio s2 (unat prio) j" using s2(5) a by simp
  have nr: "unat prio \<notin> rdy_set s2"
    using at_prio_rdy_ok [OF s2(2) a2] s2(3) by (auto simp: rdy_ok_def)
  obtain s3 where s3: "OSTaskResume prio s2 = (OS_ERR_NONE, s3)" "os_wf s3"
    "rdy_set s3 = rdy_set s2 \<union> (if OSTCBDly (OSTCBTbl s2 j) = 0 then {unat prio} else {})"
    "tcb_core (OSTCBTbl s3 j) = tcb_core ((OSTCBTbl s2 j)\<lparr>OSTCBStat := OS_STAT_RDY\<rparr>)"
    using OSTaskResume_correct [OF s2(2) a2 lo s2(3)] by auto
  have "OSTCBDly (OSTCBTbl s2 j) = 0 \<longleftrightarrow> unat (OSTCBDly (OSTCBTbl s j)) \<le> k"
    using s2(4) by (simp add: unat_eq_0 [symmetric])
  then show ?thesis
    using S(1,3) s2(1) s3 nr tcb_core_fields(2) [OF s3(4)] by auto
qed

theorem OSTask_suspend_resume_witness:
  "\<exists>s1 s2 s3. OSTaskSuspend 12 demo = (OS_ERR_NONE, s1) \<and> run_ticks 4 s1 = Some s2 \<and>
    12 \<notin> rdy_set s2 \<and> OSTaskResume 12 s2 = (OS_ERR_NONE, s3) \<and> 12 \<in> rdy_set s3"
proof -
  have "at_prio demo (unat (12 :: u8)) 3" using at_prio_demo by simp
  moreover have "OSTCBPrio (cur_tcb demo) \<noteq> 12" "OSTCBStat (OSTCBTbl demo 3) = 0"
    "OSTCBDly (OSTCBTbl demo 3) = 0"
    by (simp_all add: demo_def demo_tcb_def tcb_zero_def)
  ultimately show ?thesis
    using OSTask_suspend_resume [OF os_wf_demo task_list_demo demo_running, of 12 3 4] by auto
qed

section \<open>A new priority\<close>

lemma wait_move_fields [simp]:
  "OSTCBTbl (wait_move t n e s) = OSTCBTbl s" "OSRdy (wait_move t n e s) = OSRdy s"
  "os_frame (wait_move t n e s) = os_frame s"
  by (simp_all add: wait_move_def)

lemma wait_move_multi_fields [simp]:
  "OSTCBTbl (wait_move_multi t n es s) = OSTCBTbl s" "OSRdy (wait_move_multi t n es s) = OSRdy s"
  "os_frame (wait_move_multi t n es s) = os_frame s"
  by (induction es arbitrary: s) simp_all

lemma bm_move:
  assumes "bm_wf m" "tcb_pos_ok t" "unat (OSTCBPrio t) < 24" "unat n < 24"
  shows "bm_wf (bm_set (drop_bit 3 n) (prio_bit (n AND 7)) (prio_bit (drop_bit 3 n))
      (bm_clr (OSTCBY t) (OSTCBBitX t) (OSTCBBitY t) m))"
    and "bm_elems (bm_set (drop_bit 3 n) (prio_bit (n AND 7)) (prio_bit (drop_bit 3 n))
      (bm_clr (OSTCBY t) (OSTCBBitX t) (OSTCBBitY t) m)) =
      insert (unat n) (bm_elems m - {unat (OSTCBPrio t)})"
proof -
  have "bm_set (drop_bit 3 n) (prio_bit (n AND 7)) (prio_bit (drop_bit 3 n)) = bm_ins n"
    by (simp add: bm_ins_def prio_y_def prio_x_def)
  then show "bm_wf (bm_set (drop_bit 3 n) (prio_bit (n AND 7)) (prio_bit (drop_bit 3 n))
      (bm_clr (OSTCBY t) (OSTCBBitX t) (OSTCBBitY t) m))"
    "bm_elems (bm_set (drop_bit 3 n) (prio_bit (n AND 7)) (prio_bit (drop_bit 3 n))
      (bm_clr (OSTCBY t) (OSTCBBitX t) (OSTCBBitY t) m)) =
      insert (unat n) (bm_elems m - {unat (OSTCBPrio t)})"
    using assms bm_clr_pos [OF assms(2)]
    by (simp_all add: bm.inv_ins bm.inv_del bm.els_ins bm.els_del)
qed

lemma wait_move_multi_sets:
  assumes "\<forall>e. bm_wf (wait_of s e)" "tcb_pos_ok t" "unat (OSTCBPrio t) < 24" "unat n < 24"
  shows "bm_wf (wait_of (wait_move_multi t n es s) e) \<and>
    wait_set (wait_move_multi t n es s) e =
      (if e \<in> set es then insert (unat n) (wait_set s e - {unat (OSTCBPrio t)}) else wait_set s e)"
  using assms(1)
proof (induction es arbitrary: s)
  case (Cons e0 es)
  note M = bm_move [OF _ assms(2-4)]
  have wf: "\<forall>e. bm_wf (wait_of (wait_move t n e0 s) e)"
    using Cons.prems M(1) by (simp add: wait_move_def)
  have "wait_set (wait_move t n e0 s) e =
      (if e = e0 then insert (unat n) (wait_set s e - {unat (OSTCBPrio t)}) else wait_set s e)"
    using Cons.prems M(2) by (simp add: wait_move_def wait_set_def)
  then show ?case using Cons.IH [OF wf] by auto
qed simp

text \<open>
  A task whose TCB names exactly the wait lists it is on.  A task that a post has readied but that has
  not run yet does not: its \<^verbatim>\<open>OSTCBEventPtr\<close> is cleared only when its pend call goes on.
\<close>

definition settled :: "os_state \<Rightarrow> nat \<Rightarrow> nat \<Rightarrow> bool" where
  "settled s m i \<longleftrightarrow> at_prio s m i \<and> (\<forall>e. waits_on (OSTCBTbl s i) e \<longrightarrow> m \<in> wait_set s e) \<and>
     (OSTCBEventPtr (OSTCBTbl s i) = NULL \<or>
        (\<exists>e. OSTCBEventPtr (OSTCBTbl s i) = PEvent e) \<and> OSTCBEventMultiPtr (OSTCBTbl s i) = None)"

text \<open>The kernel state after the moves of \<^verbatim>\<open>OSTaskChangePrio\<close>, before it calls the scheduler.\<close>

definition change_prio :: "u8 \<Rightarrow> u8 \<Rightarrow> nat \<Rightarrow> os_state \<Rightarrow> os_state" where
  "change_prio m n i s =
     (let t = OSTCBTbl s i;
          s1 = set_prio_tbl n (PTcb i) (set_prio_tbl m NULL s);
          s2 = (if bm_test (OSTCBY t) (OSTCBBitX t) (OSRdy s1) then
                  s1\<lparr>OSRdy := bm_set (drop_bit 3 n) (prio_bit (n AND 7)) (prio_bit (drop_bit 3 n))
                       (bm_clr (OSTCBY t) (OSTCBBitX t) (OSTCBBitY t) (OSRdy s1))\<rparr>
                else s1);
          s3 = (if OSTCBEventPtr t \<noteq> NULL then wait_move t n (event_of (OSTCBEventPtr t)) s2 else s2);
          s4 = (case OSTCBEventMultiPtr t of None \<Rightarrow> s3 | Some es \<Rightarrow> wait_move_multi t n es s3)
      in upd_tcb i (tcb_set_prio n (drop_bit 3 n)) s4)"

lemma OSTaskChangePrio_eq:
  assumes a: "at_prio s (unat m) i" and lo: "m < OS_LOWEST_PRIO" "n < OS_LOWEST_PRIO"
    and free: "OSTCBPrioTbl s (unat n) = NULL"
  shows "OSTaskChangePrio m n s = (OS_ERR_NONE,
    if OSRunning (change_prio m n i s) then OS_Sched (change_prio m n i s) else change_prio m n i s)"
    and "m = OSTCBPrio (cur_tcb s) \<Longrightarrow> OSTaskChangePrio OS_PRIO_SELF n s = OSTaskChangePrio m n s"
proof -
  have p: "\<not> m \<ge> OS_LOWEST_PRIO" "m \<noteq> OS_PRIO_SELF" "\<not> n \<ge> OS_LOWEST_PRIO" using lo by auto
  show "OSTaskChangePrio m n s = (OS_ERR_NONE,
    if OSRunning (change_prio m n i s) then OS_Sched (change_prio m n i s) else change_prio m n i s)"
    using p free at_prio_tbl [OF a] by (simp add: OSTaskChangePrio_def change_prio_def Let_def)
  show "m = OSTCBPrio (cur_tcb s) \<Longrightarrow> OSTaskChangePrio OS_PRIO_SELF n s = OSTaskChangePrio m n s"
    using p by (simp add: OSTaskChangePrio_def Let_def)
qed

lemma change_prio_sets:
  assumes wf: "os_wf s" and st: "settled s (unat m) i" and lo: "m < OS_LOWEST_PRIO" "n < OS_LOWEST_PRIO"
  shows "bm_wf (OSRdy (change_prio m n i s))" "bm_wf (wait_of (change_prio m n i s) e)"
    "rdy_set (change_prio m n i s) = moved (unat m) (unat n) (rdy_set s)"
    "wait_set (change_prio m n i s) e = moved (unat m) (unat n) (wait_set s e)"
    "OSTCBTbl (change_prio m n i s) = (OSTCBTbl s)(i := tcb_set_prio n (drop_bit 3 n) (OSTCBTbl s i))"
    "OSTCBPrioTbl (change_prio m n i s) = (OSTCBPrioTbl s)(unat m := NULL, unat n := PTcb i)"
    "OSTCBCur (change_prio m n i s) = OSTCBCur s" "OSPrioCur (change_prio m n i s) = OSPrioCur s"
    "can_sched (change_prio m n i s) = can_sched s" "OSRunning (change_prio m n i s) = OSRunning s"
proof -
  let ?t = "OSTCBTbl s i"
  have a: "at_prio s (unat m) i" using st by (simp add: settled_def)
  note pos = at_prio_pos [OF a] and lt = at_prio_lt_24 [OF a] and mm = at_prio_unat [OF a]
  have n24: "unat n < 24" using lo by (simp add: word_less_nat_alt)
  note M = bm_move [OF _ pos lt n24]
  define s1 where "s1 = set_prio_tbl n (PTcb i) (set_prio_tbl m NULL s)"
  define s2 where "s2 = (if bm_test (OSTCBY ?t) (OSTCBBitX ?t) (OSRdy s1) then
      s1\<lparr>OSRdy := bm_set (drop_bit 3 n) (prio_bit (n AND 7)) (prio_bit (drop_bit 3 n))
        (bm_clr (OSTCBY ?t) (OSTCBBitX ?t) (OSTCBBitY ?t) (OSRdy s1))\<rparr> else s1)"
  define s3 where "s3 = (if OSTCBEventPtr ?t \<noteq> NULL
      then wait_move ?t n (event_of (OSTCBEventPtr ?t)) s2 else s2)"
  define s4 where "s4 = (case OSTCBEventMultiPtr ?t of
      None \<Rightarrow> s3 | Some es \<Rightarrow> wait_move_multi ?t n es s3)"
  have c: "change_prio m n i s = upd_tcb i (tcb_set_prio n (drop_bit 3 n)) s4"
    unfolding change_prio_def Let_def s4_def s3_def s2_def s1_def by (rule refl)
  have r: "OSRdy s4 = OSRdy s2" by (simp add: s4_def s3_def split: option.split)
  have test: "bm_test (OSTCBY ?t) (OSTCBBitX ?t) (OSRdy s1) \<longleftrightarrow> unat m \<in> rdy_set s"
    using bm_test_pos [OF pos os_wf_bm(1) [OF wf] lt] mm by (simp add: s1_def rdy_set_def)
  show "bm_wf (OSRdy (change_prio m n i s))"
    using M(1) [OF os_wf_bm(1) [OF wf]] os_wf_bm(1) [OF wf] by (simp add: c r s2_def s1_def)
  show "rdy_set (change_prio m n i s) = moved (unat m) (unat n) (rdy_set s)"
    using M(2) [OF os_wf_bm(1) [OF wf]] mm test
    by (simp add: c rdy_set_def r s2_def moved_def) (simp add: s1_def)
  have ev2: "OSEventTbl s2 = OSEventTbl s" by (simp add: s2_def s1_def)
  have b2: "\<forall>e. bm_wf (wait_of s2 e)" using os_wf_bm(2) [OF wf] by (simp add: ev2)
  have w2: "wait_set s2 e = wait_set s e" for e by (simp add: wait_set_def ev2)
  have on: "unat m \<in> wait_set s e \<longleftrightarrow> waits_on ?t e" for e
    using st at_prio_waits_on [OF wf a] by (auto simp: settled_def)
  have W: "bm_wf (wait_of s4 e) \<and> wait_set s4 e = moved (unat m) (unat n) (wait_set s e)" for e
  proof (cases "OSTCBEventMultiPtr ?t")
    case None
    have s3: "s3 = wait_move_multi ?t n (if OSTCBEventPtr ?t = NULL then [] else [event_of (OSTCBEventPtr ?t)]) s2"
      by (simp add: s3_def)
    have "e \<in> set (if OSTCBEventPtr ?t = NULL then [] else [event_of (OSTCBEventPtr ?t)]) \<longleftrightarrow> waits_on ?t e"
      using st None by (auto simp: settled_def waits_on_def)
    with wait_move_multi_sets [OF b2 pos lt n24, of "if OSTCBEventPtr ?t = NULL then [] else [event_of (OSTCBEventPtr ?t)]" e]
    show ?thesis using None on [of e] mm by (simp add: s4_def s3 w2 moved_def)
  next
    case (Some es)
    have "s3 = s2" using st Some by (auto simp: settled_def s3_def)
    with wait_move_multi_sets [OF b2 pos lt n24, of es e] show ?thesis
      using Some on [of e] mm by (simp add: s4_def w2 moved_def waits_on_def)
  qed
  then show "bm_wf (wait_of (change_prio m n i s) e)"
    "wait_set (change_prio m n i s) e = moved (unat m) (unat n) (wait_set s e)" by (simp_all add: c)
  have "OSTCBTbl s4 = OSTCBTbl s" by (simp add: s4_def s3_def s2_def s1_def split: option.split)
  then show "OSTCBTbl (change_prio m n i s) = (OSTCBTbl s)(i := tcb_set_prio n (drop_bit 3 n) ?t)"
    by (simp add: c)
  have "os_frame s4 = os_frame s2" by (simp add: s4_def s3_def split: option.split)
  note fr = os_frameD [OF this]
  show "OSTCBPrioTbl (change_prio m n i s) = (OSTCBPrioTbl s)(unat m := NULL, unat n := PTcb i)"
    "OSTCBCur (change_prio m n i s) = OSTCBCur s" "OSPrioCur (change_prio m n i s) = OSPrioCur s"
    "can_sched (change_prio m n i s) = can_sched s" "OSRunning (change_prio m n i s) = OSRunning s"
    by (simp_all add: c fr can_sched_def) (simp_all add: s2_def s1_def set_prio_tbl_def)
qed

lemma change_prio_wf:
  assumes wf: "os_wf s" and st: "settled s (unat m) i" and lo: "m < OS_LOWEST_PRIO" "n < OS_LOWEST_PRIO"
    and free: "OSTCBPrioTbl s (unat n) = NULL"
  shows "os_wf (change_prio m n i s)"
    and "at_prio (change_prio m n i s) q k \<longleftrightarrow> (if k = i then q = unat n else at_prio s q k)"
proof -
  let ?s' = "change_prio m n i s"
  note C = change_prio_sets [OF wf st lo]
  have a: "at_prio s (unat m) i" using st by (simp add: settled_def)
  have fr: "\<not> at_prio s (unat n) k" for k using free by (simp add: at_prio_def)
  have mn: "unat m \<noteq> unat n" using a fr by metis
  have n20: "unat n \<le> 20" using lo by (simp add: word_less_nat_alt)
  have nr: "unat n \<notin> rdy_set s" "unat n \<notin> wait_set s e" for e
    using wf fr by (metis os_wf_rdyE, metis os_wf_waitE)
  define sX where "sX = ?s'\<lparr>OSTCBPrioTbl := (OSTCBPrioTbl s)(unat n := PTcb i)\<rparr>"
  have X: "OSTCBTbl sX = OSTCBTbl ?s'" "OSRdy sX = OSRdy ?s'" "OSEventTbl sX = OSEventTbl ?s'"
    "OSTCBPrioTbl sX = (OSTCBPrioTbl s)(unat n := PTcb i)" by (simp_all add: sX_def)
  have sets: "rdy_set sX = rdy_set ?s'" "wait_set sX e = wait_set ?s' e" for e
    by (simp_all add: rdy_set_def wait_set_def X)
  have bm: "bm_wf (OSRdy sX)" "bm_wf (wait_of sX e)" for e using C(1,2) by (simp_all add: X)
  have s': "?s' = set_prio_tbl m NULL sX"
    using C(6) mn by (simp add: set_prio_tbl_def sX_def fun_upd_twist)
  let ?t' = "tcb_set_prio n (drop_bit 3 n) (OSTCBTbl s i)"
  have pos: "tcb_pos_ok ?t'" by (rule tcb_set_prio_pos) (use n20 in simp)
  have rok: "unat n \<in> rdy_set sX \<Longrightarrow> rdy_ok ?t'"
    using at_prio_rdy_ok [OF wf a] nr(1) by (auto simp: sets C(3) moved_def split: if_splits)
  have wok: "unat n \<in> wait_set sX e \<Longrightarrow> waits_on ?t' e" for e
    using at_prio_waits_on [OF wf a] nr(2) by (auto simp: sets C(4) moved_def split: if_splits)
  have tbl: "OSTCBTbl sX = (OSTCBTbl s)(i := ?t')" by (simp add: X C(5))
  have sub: "rdy_set sX \<subseteq> insert (unat n) (rdy_set s - {unat m})"
    "wait_set sX e \<subseteq> insert (unat n) (wait_set s e - {unat m})" for e
    by (auto simp: sets C(3,4) moved_def)
  have wfX: "os_wf sX"
    by (rule reprio(1) [OF wf a fr n20 tbl _ pos X(4) bm sub rok wok]) simp
  have apX: "at_prio sX q k \<longleftrightarrow> (if k = i then q = unat n else at_prio s q k)" for q k
    by (rule reprio(2) [OF wf a fr n20 tbl _ pos X(4) bm sub rok wok]) simp
  have off: "unat m \<notin> rdy_set sX" "unat m \<notin> wait_set sX e" for e
    using sub mn by blast+
  show "os_wf ?s'" unfolding s' by (rule os_wf_set_prio_tbl(1) [OF wfX off])
  show "at_prio ?s' q k \<longleftrightarrow> (if k = i then q = unat n else at_prio s q k)"
  proof (cases "q = unat m")
    case True
    have "\<not> at_prio ?s' q k" using C(6) mn True by (simp add: at_prio_def)
    moreover have "k \<noteq> i \<Longrightarrow> \<not> at_prio s q k" using a True at_prio_unique by blast
    ultimately show ?thesis using mn True by auto
  next
    case False
    then show ?thesis
      unfolding s' by (simp add: os_wf_set_prio_tbl(2) [OF wfX off] apX)
  qed
qed



end
