(* ===== verification/Os_Multi.thy ===== *)
theory Os_Multi
  imports Os_Sem Os_Mbox Os_Q Os_Task
begin

text \<open>
  \<^verbatim>\<open>OSEventPendMulti\<close> (os_core.c): a task waits for any of several semaphores, mailboxes and queues.
  The caller's arrays of events and of messages are returned as lists; \<open>None\<close> for the array of events
  means that it has not been written.
\<close>

section \<open>The call\<close>

type_synonym multi_result = "u16 \<times> os_err option \<times> nat list option \<times> ptr list"

definition multi_type :: "event_type \<Rightarrow> bool" where
  "multi_type ty \<longleftrightarrow> ty = OS_EVENT_TYPE_SEM \<or> ty = OS_EVENT_TYPE_MBOX \<or> ty = OS_EVENT_TYPE_Q"

text \<open>
  The loop that takes what is available: whether it has come to the end of the array, the events
  taken, their messages, the status bits of the others, and the new state.
\<close>

fun multi_scan :: "nat list \<Rightarrow> u8 \<Rightarrow> os_state \<Rightarrow> bool \<times> nat list \<times> ptr list \<times> u8 \<times> os_state" where
  "multi_scan [] stat s = (True, [], [], stat, s)"
| "multi_scan (e # es) stat s =
     (let ev = OSEventTbl s e
      in if OSEventType ev = OS_EVENT_TYPE_SEM then
           if OSEventCnt ev > 0 then
             let (ok, evs, msgs, stat', s') =
                   multi_scan es stat (upd_event e (\<lambda>ev. ev\<lparr>OSEventCnt := OSEventCnt ev - 1\<rparr>) s)
             in (ok, e # evs, NULL # msgs, stat', s')
           else multi_scan es (stat OR OS_STAT_SEM) s
         else if OSEventType ev = OS_EVENT_TYPE_MBOX then
           if OSEventPtr ev \<noteq> NULL then
             let (ok, evs, msgs, stat', s') =
                   multi_scan es stat (upd_event e (\<lambda>ev. ev\<lparr>OSEventPtr := NULL\<rparr>) s)
             in (ok, e # evs, OSEventPtr ev # msgs, stat', s')
           else multi_scan es (stat OR OS_STAT_MBOX) s
         else if OSEventType ev = OS_EVENT_TYPE_Q then
           if OSQEntries (OSQTbl s (ev_q s e)) > 0 then
             let (pmsg, r) = ring_take (get_ring (ev_q s e) s);
                 (ok, evs, msgs, stat', s') = multi_scan es stat (set_ring (ev_q s e) r s)
             in (ok, e # evs, pmsg # msgs, stat', s')
           else multi_scan es (stat OR OS_STAT_Q) s
         else (False, [], [], stat, s))"

definition multi_block :: "nat list \<Rightarrow> u8 \<Rightarrow> u16 \<Rightarrow> os_state \<Rightarrow> os_state" where
  "multi_block pevents stat timeout s =
     OS_EventTaskWaitMulti pevents (upd_cur (\<lambda>t. t\<lparr>OSTCBStat := OSTCBStat t OR (stat OR OS_STAT_MULTI),
       OSTCBStatPend := OS_STAT_PEND_OK, OSTCBDly := timeout\<rparr>) s)"

definition OSEventPendMulti ::
  "nat list option \<Rightarrow> bool \<Rightarrow> bool \<Rightarrow> u16 \<Rightarrow> bool \<Rightarrow> os_state \<Rightarrow> multi_result call \<times> os_state" where
  "OSEventPendMulti pevents_pend pevents_rdy pmsgs_rdy timeout perr s =
     (if \<not> perr then (Done (0, None, None, []), s)
      else case pevents_pend of
          None \<Rightarrow> (Done (0, Some OS_ERR_PEVENT_NULL, None, []), s)
        | Some es \<Rightarrow>
            if \<not> pevents_rdy then (Done (0, Some OS_ERR_PEVENT_NULL, None, []), s)
            else if \<not> pmsgs_rdy then (Done (0, Some OS_ERR_PEVENT_NULL, None, []), s)
            else if \<exists>e \<in> set es. \<not> multi_type (OSEventType (OSEventTbl s e))
            then (Done (0, Some OS_ERR_EVENT_TYPE, Some [], []), s)
            else if OSIntNesting s > 0 then (Done (0, Some OS_ERR_PEND_ISR, Some [], []), s)
            else if OSLockNesting s > 0 then (Done (0, Some OS_ERR_PEND_LOCKED, Some [], []), s)
            else
              let (ok, evs, msgs, stat, s1) = multi_scan es OS_STAT_RDY s
              in if \<not> ok then
                   (Done (of_nat (length evs), Some OS_ERR_EVENT_TYPE, Some evs, msgs), s1)
                 else if evs \<noteq> [] then
                   (Done (of_nat (length evs), Some OS_ERR_NONE, Some evs, msgs), s1)
                 else (Wait, OS_Sched (multi_block es stat timeout s1)))"

text \<open>
  The second half, when the caller runs again.  An event that has meanwhile been deleted or reused for
  another kind of object leaves the status of the task as it is.
\<close>

definition multi_end :: "os_state \<Rightarrow> os_state" where
  "multi_end s = upd_cur (\<lambda>t. t\<lparr>OSTCBMsg := NULL\<rparr>) (pend_clear s)"

definition OSEventPendMulti_resume :: "nat list \<Rightarrow> os_state \<Rightarrow> multi_result \<times> os_state" where
  "OSEventPendMulti_resume pevents_pend s =
     (let t = cur_tcb s; cur = tcb_of (OSTCBCur s); pevent = OSTCBEventPtr t;
          (evs, s1) =
            (if OSTCBStatPend t = OS_STAT_PEND_OK \<or> OSTCBStatPend t = OS_STAT_PEND_ABORT then
               if pevent \<noteq> NULL then ([event_of pevent], s)
               else ([], OS_EventTaskRemoveMulti cur pevents_pend
                           (upd_cur (\<lambda>t. t\<lparr>OSTCBStatPend := OS_STAT_PEND_TO\<rparr>) s))
             else ([], OS_EventTaskRemoveMulti cur pevents_pend s));
          n = of_nat (length evs)
      in case OSTCBStatPend (cur_tcb s1) of
           OS_STAT_PEND_OK \<Rightarrow>
             let ty = OSEventType (OSEventTbl s1 (event_of pevent))
             in if ty = OS_EVENT_TYPE_SEM then ((n, Some OS_ERR_NONE, Some evs, [NULL]), multi_end s1)
                else if ty = OS_EVENT_TYPE_MBOX \<or> ty = OS_EVENT_TYPE_Q
                then ((n, Some OS_ERR_NONE, Some evs, [OSTCBMsg (cur_tcb s1)]), multi_end s1)
                else ((n, Some OS_ERR_EVENT_TYPE, Some evs, []), s1)
         | OS_STAT_PEND_ABORT \<Rightarrow> ((n, Some OS_ERR_PEND_ABORT, Some evs, [NULL]), multi_end s1)
         | OS_STAT_PEND_TO \<Rightarrow> ((n, Some OS_ERR_TIMEOUT, Some evs, [NULL]), multi_end s1))"

section \<open>Taking what is available\<close>

text \<open>Event \<open>e\<close> has nothing to take.\<close>

definition nothing_at :: "os_state \<Rightarrow> nat \<Rightarrow> bool" where
  "nothing_at s e \<longleftrightarrow> (let ev = OSEventTbl s e in
     OSEventType ev = OS_EVENT_TYPE_SEM \<and> OSEventCnt ev = 0 \<or>
     OSEventType ev = OS_EVENT_TYPE_MBOX \<and> OSEventPtr ev = NULL \<or>
     OSEventType ev = OS_EVENT_TYPE_Q \<and> OSQEntries (OSQTbl s (ev_q s e)) = 0)"

lemma multi_scan_nothing:
  assumes "\<forall>e \<in> set es. nothing_at s e" "stat AND OS_STAT_SUSPEND = 0"
  shows "\<exists>stat'. multi_scan es stat s = (True, [], [], stat', s) \<and> stat' AND OS_STAT_SUSPEND = 0"
  using assms
proof (induction es arbitrary: stat)
  case (Cons e es)
  have b: "(stat OR m) AND OS_STAT_SUSPEND = 0" if "m AND OS_STAT_SUSPEND = 0" for m
    using Cons.prems(2) that by (simp add: bit.conj_disj_distrib2)
  from Cons.prems(1) have "nothing_at s e" by simp
  then consider "OSEventType (OSEventTbl s e) = OS_EVENT_TYPE_SEM" "OSEventCnt (OSEventTbl s e) = 0"
    | "OSEventType (OSEventTbl s e) = OS_EVENT_TYPE_MBOX" "OSEventPtr (OSEventTbl s e) = NULL"
    | "OSEventType (OSEventTbl s e) = OS_EVENT_TYPE_Q" "OSQEntries (OSQTbl s (ev_q s e)) = 0"
    by (auto simp: nothing_at_def Let_def)
  then show ?case
  proof cases
    case 1
    then show ?thesis using Cons.IH [OF _ b [of OS_STAT_SEM]] Cons.prems(1) by simp
  next
    case 2
    then show ?thesis using Cons.IH [OF _ b [of OS_STAT_MBOX]] Cons.prems(1) by simp
  next
    case 3
    then show ?thesis using Cons.IH [OF _ b [of OS_STAT_Q]] Cons.prems(1) by simp
  qed
qed simp

lemma nothing_at_type: "nothing_at s e \<Longrightarrow> multi_type (OSEventType (OSEventTbl s e))"
  by (auto simp: nothing_at_def multi_type_def Let_def)

section \<open>Waiting for several events\<close>

lemma wait_multi_loop_fields [simp]:
  "OSTCBTbl (wait_multi_loop es s) = OSTCBTbl s" "OSRdy (wait_multi_loop es s) = OSRdy s"
  "os_frame (wait_multi_loop es s) = os_frame s" "OSTCBCur (wait_multi_loop es s) = OSTCBCur s"
  "event_data (OSEventTbl (wait_multi_loop es s) e) = event_data (OSEventTbl s e)"
  by (induction es arbitrary: s) (simp_all add: event_data_def)

lemma wait_multi_loop_sets:
  assumes "\<forall>e. bm_wf (wait_of s e)" "tcb_pos_ok (cur_tcb s)" "unat (OSTCBPrio (cur_tcb s)) < 24"
  shows "bm_wf (wait_of (wait_multi_loop es s) e) \<and>
    wait_set (wait_multi_loop es s) e =
      (if e \<in> set es then insert (unat (OSTCBPrio (cur_tcb s))) (wait_set s e) else wait_set s e)"
  using assms
proof (induction es arbitrary: s)
  case (Cons e0 es)
  let ?s = "upd_event e0 (\<lambda>ev. ev\<lparr>OSEventWait :=
    bm_set (OSTCBY (cur_tcb s)) (OSTCBBitX (cur_tcb s)) (OSTCBBitY (cur_tcb s)) (OSEventWait ev)\<rparr>) s"
  have c: "cur_tcb ?s = cur_tcb s" by simp
  have bm: "\<forall>e. bm_wf (wait_of ?s e)"
    using Cons.prems by (simp add: bm_set_pos bm.inv_ins)
  have "wait_set ?s e = (if e = e0 then insert (unat (OSTCBPrio (cur_tcb s))) (wait_set s e) else wait_set s e)"
    using Cons.prems by (simp add: wait_set_def bm_set_pos bm.els_ins)
  then show ?case
    using Cons.IH [OF bm] Cons.prems(2,3) by (auto simp: c)
qed simp

lemma multi_block_correct:
  fixes es :: "nat list" and stat :: u8 and timeout :: u16
  assumes wf: "os_wf s" and run: "running s p i"
  defines "s' \<equiv> multi_block es stat timeout s"
  shows "os_wf s'" and "rdy_set s' = rdy_set s - {p}"
    and "wait_set s' e = (if e \<in> set es then insert p (wait_set s e) else wait_set s e)"
    and "OSTCBTbl s' = (OSTCBTbl s)(i := (OSTCBTbl s i)\<lparr>OSTCBStat := OSTCBStat (OSTCBTbl s i) OR (stat OR OS_STAT_MULTI),
      OSTCBStatPend := OS_STAT_PEND_OK, OSTCBDly := timeout, OSTCBEventPtr := NULL,
      OSTCBEventMultiPtr := Some es\<rparr>)"
    and "at_prio s' q j = at_prio s q j" and "os_frame s' = os_frame s"
    and "event_data (OSEventTbl s' e) = event_data (OSEventTbl s e)"
proof -
  let ?t = "OSTCBTbl s i"
  let ?t' = "?t\<lparr>OSTCBStat := OSTCBStat ?t OR (stat OR OS_STAT_MULTI), OSTCBStatPend := OS_STAT_PEND_OK,
    OSTCBDly := timeout, OSTCBEventPtr := NULL, OSTCBEventMultiPtr := Some es\<rparr>"
  have cur: "OSTCBCur s = PTcb i" and a: "at_prio s p i" and off: "\<And>e. p \<notin> wait_set s e"
    using run by (auto simp: running_def)
  define s1 where "s1 = upd_tcb i (\<lambda>_. ?t') s"
  define s2 where "s2 = wait_multi_loop es s1"
  have s': "s' = rdy_remove i s2"
    by (simp add: s'_def multi_block_def OS_EventTaskWaitMulti_def Let_def cur s2_def s1_def upd_tcb_def)
  have pos: "tcb_pos_ok ?t" "tcb_pos_ok ?t'" using at_prio_pos [OF a] by (simp_all add: tcb_pos_ok_def)
  have a1: "at_prio s1 q j = at_prio s q j" for q j
    by (rule at_prio_cong) (auto simp: s1_def tcb_pos_ok_def)
  have W: "bm_wf (wait_of s2 e) \<and> wait_set s2 e = (if e \<in> set es then insert p (wait_set s e) else wait_set s e)" for e
    using wait_multi_loop_sets [of s1 es e] os_wf_bm(2) [OF wf] pos at_prio_lt_24 [OF a] at_prio_unat [OF a] cur
    by (simp add: s2_def) (simp add: s1_def)
  have t2: "OSTCBTbl s2 = (OSTCBTbl s)(i := ?t')" "OSRdy s2 = OSRdy s"
    by (simp_all add: s2_def s1_def)
  show tbl: "OSTCBTbl s' = (OSTCBTbl s)(i := ?t')" by (simp add: s' t2)
  show fr: "os_frame s' = os_frame s" by (simp add: s' s2_def s1_def)
  show ap: "at_prio s' q j = at_prio s q j" for q j
    by (rule at_prio_cong) (use os_frameD(6) [OF fr] in \<open>auto simp: tbl tcb_pos_ok_def\<close>)
  show "event_data (OSEventTbl s' e) = event_data (OSEventTbl s e)"
    by (simp add: s' s2_def) (simp add: s1_def)
  have rdy: "OSRdy s' = bm_del (OSTCBPrio ?t) (OSRdy s)"
    using pos(1) by (simp add: s' rdy_remove_def Let_def t2 bm_clr_pos)
  show rs: "rdy_set s' = rdy_set s - {p}"
    using at_prio_lt_24 [OF a] at_prio_unat [OF a] wf by (simp add: rdy_set_def rdy bm.els_del os_wf_bm)
  have ws: "wait_set s' e = (if e \<in> set es then insert p (wait_set s e) else wait_set s e)" for e
    using W by (simp add: s')
  then show "wait_set s' e = (if e \<in> set es then insert p (wait_set s e) else wait_set s e)" .
  show "os_wf s'"
  proof (rule os_wfI)
    show "bm_wf (OSRdy s')" using at_prio_lt_24 [OF a] wf by (simp add: rdy bm.inv_del os_wf_bm)
    show "bm_wf (wait_of s' e)" for e using W by (simp add: s')
  next
    fix q assume "q \<in> rdy_set s'"
    then obtain j where j: "at_prio s q j" "rdy_ok (OSTCBTbl s j)" "q \<noteq> p"
      using rs wf by (auto elim: os_wf_rdyE)
    then have "j \<noteq> i" using a at_prio_same_tcb by blast
    with j show "\<exists>j. at_prio s' q j \<and> rdy_ok (OSTCBTbl s' j)" using ap tbl by auto
  next
    fix e q assume q: "q \<in> wait_set s' e"
    show "\<exists>j. at_prio s' q j \<and> waits_on (OSTCBTbl s' j) e"
    proof (cases "q = p")
      case True
      then have "e \<in> set es" using q ws off by (auto split: if_splits)
      with True a ap show ?thesis by (intro exI [of _ i]) (auto simp: tbl waits_on_def)
    next
      case False
      then have "q \<in> wait_set s e" using q ws by (auto split: if_splits)
      then obtain j where j: "at_prio s q j" "waits_on (OSTCBTbl s j) e" using wf by (auto elim: os_wf_waitE)
      then have "j \<noteq> i" using a False at_prio_same_tcb by blast
      with j show ?thesis using ap tbl by auto
    qed
  qed
qed

text \<open>The caller waits for all of the events, and the most urgent task that is left runs.\<close>

lemma multi_block_top_waiter:
  fixes stat :: u8 and timeout :: u16
  assumes wf: "os_wf s" and run: "running s p i" and cs: "can_sched s" and e: "e \<in> set es"
    and top: "\<forall>q \<in> rdy_set s. p \<le> q" "\<forall>q \<in> wait_set s e. p < q" and left: "rdy_set s - {p} \<noteq> {}"
    and st: "stat AND OS_STAT_SUSPEND = 0"
  defines "s1 \<equiv> OS_Sched (multi_block es stat timeout s)"
  shows "top_waiter s1 p i e msk"
    and "wait_set s1 e' = (if e' \<in> set es then insert p (wait_set s e') else wait_set s e')"
    and "event_data (OSEventTbl s1 e') = event_data (OSEventTbl s e')"
    and "OSTCBEventMultiPtr (OSTCBTbl s1 i) = Some es"
proof -
  note M = multi_block_correct [OF wf run, where es = es and stat = stat and timeout = timeout]
  let ?b = "multi_block es stat timeout s"
  have c: "cur_ok ?b" "can_sched ?b" using os_frame_ok [OF M(6)] running_cur_ok [OF run] cs by simp_all
  have ne: "rdy_set ?b \<noteq> {}" using left M(2) by simp
  show w: "wait_set s1 e' = (if e' \<in> set es then insert p (wait_set s e') else wait_set s e')" for e'
    by (simp add: s1_def M(3))
  show "event_data (OSEventTbl s1 e') = event_data (OSEventTbl s e')" by (simp add: s1_def M(7))
  have core: "tcb_core (OSTCBTbl s1 i) = tcb_core (OSTCBTbl ?b i)" by (simp add: s1_def)
  show "OSTCBEventMultiPtr (OSTCBTbl s1 i) = Some es" using tcb_core_fields(7) [OF core] by (simp add: M(4))
  have "OSTCBStat (OSTCBTbl s1 i) = OSTCBStat (OSTCBTbl s i) OR (stat OR OS_STAT_MULTI)"
    using tcb_core_fields(2) [OF core] by (simp add: M(4))
  then have "OSTCBStat (OSTCBTbl s1 i) AND OS_STAT_SUSPEND = 0"
    using running_rdy_ok [OF wf run] st by (simp add: rdy_ok_def bit.conj_disj_distrib2)
  moreover have "(x AND NOT msk) AND OS_STAT_SUSPEND = (x AND OS_STAT_SUSPEND) AND NOT msk" for x
    by (rule bit_word_eqI) (auto simp: bit_and_iff)
  ultimately have "(OSTCBStat (OSTCBTbl s1 i) AND NOT msk) AND OS_STAT_SUSPEND = OS_STAT_RDY" by simp
  moreover have "at_prio s1 p i" using run by (simp add: s1_def M(5) running_def)
  moreover have "\<forall>q \<in> rdy_set s1. p \<le> q" using top(1) by (simp add: s1_def M(2))
  moreover have "cur_ok s1" unfolding s1_def by (rule OS_Sched_runs_highest [OF M(1) ne c])
  moreover have "can_sched s1" "os_wf s1" using c(2) M(1) by (simp_all add: s1_def can_sched_def)
  ultimately show "top_waiter s1 p i e msk"
    using e top(2) unfolding top_waiter_def by (auto simp: w less_imp_le)
qed

text \<open>The post call for the type of an event, with the message a semaphore does not have.\<close>

definition multi_post :: "nat \<Rightarrow> ptr \<Rightarrow> os_state \<Rightarrow> os_err \<times> os_state" where
  "multi_post e pmsg s =
     (if OSEventType (OSEventTbl s e) = OS_EVENT_TYPE_SEM then OSSemPost (PEvent e) s
      else if OSEventType (OSEventTbl s e) = OS_EVENT_TYPE_MBOX then OSMboxPost (PEvent e) pmsg s
      else OSQPost (PEvent e) pmsg s)"

definition multi_msg :: "event_type \<Rightarrow> ptr \<Rightarrow> ptr" where
  "multi_msg ty pmsg = (if ty = OS_EVENT_TYPE_SEM then NULL else pmsg)"

lemma multi_post_eq:
  assumes "multi_type (OSEventType (OSEventTbl s e))" "Grp (wait_of s e) \<noteq> 0" "pmsg \<noteq> NULL"
  obtains msk where "multi_post e pmsg s = (OS_ERR_NONE, OS_Sched (snd (OS_EventTaskRdy e
    (multi_msg (OSEventType (OSEventTbl s e)) pmsg) msk OS_STAT_PEND_OK s)))"
  using assms
  by (auto simp: multi_type_def multi_post_def multi_msg_def OSSemPost_def OSMboxPost_def OSQPost_def Let_def)

text \<open>
  C12: Waiting for several events.  The most urgent task waits for any of the events \<open>es\<close>, none of
  which has anything to give; then one of them, \<open>e\<close>, is posted.  The task runs at once, gets exactly
  that event with its message and \<^verbatim>\<open>OS_ERR_NONE\<close>, and stands on no wait list any more.
\<close>

theorem OSEventPendMulti_handover:
  fixes timeout :: u16
  assumes wf: "os_wf s" and run: "running s p i" and cs: "can_sched s" and e: "e \<in> set es"
    and none: "\<forall>e \<in> set es. nothing_at s e"
    and top: "\<forall>q \<in> rdy_set s. p \<le> q" "\<forall>q \<in> wait_set s e. p < q" and left: "rdy_set s - {p} \<noteq> {}"
    and msg: "pmsg \<noteq> NULL"
  shows "\<exists>s1 s2 s3. OSEventPendMulti (Some es) True True timeout True s = (Wait, s1) \<and>
    (\<forall>e' \<in> set es. p \<in> wait_set s1 e') \<and> multi_post e pmsg s1 = (OS_ERR_NONE, s2) \<and>
    OSEventPendMulti_resume es s2 = ((1, Some OS_ERR_NONE, Some [e],
      [multi_msg (OSEventType (OSEventTbl s e)) pmsg]), s3) \<and>
    os_wf s3 \<and> running s3 p i \<and> (\<forall>e'. wait_set s3 e' = wait_set s e')"
proof -
  obtain stat where sc: "multi_scan es OS_STAT_RDY s = (True, [], [], stat, s)" "stat AND OS_STAT_SUSPEND = 0"
    using multi_scan_nothing [OF none, of OS_STAT_RDY] by auto
  define s1 where "s1 = OS_Sched (multi_block es stat timeout s)"
  note M = multi_block_top_waiter [OF wf run cs e top left sc(2), where timeout = timeout, folded s1_def]
  have "\<not> (\<exists>e \<in> set es. \<not> multi_type (OSEventType (OSEventTbl s e)))" using none nothing_at_type by blast
  then have pend: "OSEventPendMulti (Some es) True True timeout True s = (Wait, s1)"
    using cs by (simp add: OSEventPendMulti_def can_sched_def sc s1_def)
  have wf1: "os_wf s1" and a1: "at_prio s1 p i" using M(1) by (auto simp: top_waiter_def)
  have off: "p \<notin> wait_set s e'" for e' using run by (simp add: running_def)
  have ty1: "OSEventType (OSEventTbl s1 e') = OSEventType (OSEventTbl s e')" for e'
    using M(3) [of e'] by (simp add: event_data_def)
  have ty: "multi_type (OSEventType (OSEventTbl s1 e))" using none e nothing_at_type ty1 by simp
  have grp: "Grp (wait_of s1 e) \<noteq> 0" using wait_empty_iff [OF wf1, of e] M(2) [of e] e by auto
  let ?m = "multi_msg (OSEventType (OSEventTbl s e)) pmsg"
  obtain msk where post: "multi_post e pmsg s1 = (OS_ERR_NONE,
      OS_Sched (snd (OS_EventTaskRdy e ?m msk OS_STAT_PEND_OK s1)))"
    using multi_post_eq [OF ty grp msg] by (auto simp: ty1)
  define t where "t = snd (OS_EventTaskRdy e ?m msk OS_STAT_PEND_OK s1)"
  define s2 where "s2 = OS_Sched t"
  note P = post_wakes [OF M(1) [of msk], where pmsg = ?m, folded t_def, folded s2_def]
  have hp: "unat (bm_highest (wait_of s1 e)) = p"
  proof -
    have "wait_set s1 e \<noteq> {}" using M(2) [of e] e by simp
    moreover have "Min (wait_set s1 e) = p"
      using M(1) finite_wait_set [OF wf1, of e] by (intro Min_eqI) (auto simp: top_waiter_def)
    ultimately show ?thesis using highest_waiter [OF wf1, of e] by simp
  qed
  have "OSTCBEventPtr (OSTCBTbl t i) = PEvent e"
    using EventTaskRdy_correct(6) [OF wf1 grp, of i ?m msk OS_STAT_PEND_OK, unfolded hp, OF a1] M(4)
    by (simp add: t_def)
  then have ep: "OSTCBEventPtr (OSTCBTbl s2 i) = PEvent e"
    using tcb_core_fields(6) [OF tcb_core_sched [of t i]] by (simp add: s2_def)
  have cur: "OSTCBCur s2 = PTcb i" "unat (OSPrioCur s2) = p" "at_prio s2 p i" "p \<in> rdy_set s2"
    and w2: "p \<notin> wait_set s2 e'" for e'
    using P(2,4) by (auto simp: resumed_def)
  have ty2: "OSEventType (OSEventTbl s2 e) = OSEventType (OSEventTbl s e)"
    using P(6) [of e] ty1 by (simp add: event_data_def)
  have res: "OSEventPendMulti_resume es s2 = ((1, Some OS_ERR_NONE, Some [e], [?m]), multi_end s2)"
    using ty P(4,5) ty1
    by (auto simp: OSEventPendMulti_resume_def Let_def cur(1) ep ty2 multi_type_def multi_msg_def)
  note C = pend_clear_correct [OF P(1) cur w2]
  have me: "multi_end s2 = upd_tcb i (\<lambda>t. t\<lparr>OSTCBMsg := NULL\<rparr>) (pend_clear s2)"
    by (simp add: multi_end_def pend_clear_def cur(1))
  have "wait_set (multi_end s2) e' = wait_set s e'" for e'
    using off [of e'] by (simp add: me C(4) P(3) M(2))
  moreover have "os_wf (multi_end s2)" "running (multi_end s2) p i" using C(1,2) by (simp_all add: me)
  moreover have "\<forall>e' \<in> set es. p \<in> wait_set s1 e'" using M(2) by simp
  ultimately show ?thesis using pend post res unfolding t_def s2_def by blast
qed

text \<open>A task waits for the semaphore 4 and the mailbox 2; the mailbox gets a message.\<close>

theorem OSEventPendMulti_handover_witness:
  "\<exists>s1 s2 s3. OSEventPendMulti (Some [4, 2]) True True 0 True demo = (Wait, s1) \<and>
     OSMboxPost (PEvent 2) (PWord 99) s1 = (OS_ERR_NONE, s2) \<and>
     OSEventPendMulti_resume [4, 2] s2 = ((1, Some OS_ERR_NONE, Some [2], [PWord 99]), s3) \<and> running s3 5 0"
proof -
  have none: "\<forall>e \<in> set [4, 2 :: nat]. nothing_at demo e"
    by (simp add: nothing_at_def Let_def demo_def event_zero_def)
  have ty: "OSEventType (OSEventTbl demo 2) = OS_EVENT_TYPE_MBOX" by (simp add: demo_def event_zero_def)
  obtain s1 s2 s3 where s: "OSEventPendMulti (Some [4, 2]) True True 0 True demo = (Wait, s1)"
    "multi_post 2 (PWord 99) s1 = (OS_ERR_NONE, s2)"
    "OSEventPendMulti_resume [4, 2] s2 = ((1, Some OS_ERR_NONE, Some [2], [PWord 99]), s3)" "running s3 5 0"
    using OSEventPendMulti_handover [OF os_wf_demo running_demo can_sched_demo _ none, of 2 "PWord 99" 0]
    by (auto simp: rdy_set_demo wait_set_demo ty multi_msg_def)
  obtain st where "s1 = OS_Sched (multi_block [4, 2] st 0 demo)"
    using s(1) multi_scan_nothing [OF none, of OS_STAT_RDY] none nothing_at_type
    by (auto simp: OSEventPendMulti_def split: if_splits)
  then have "OSEventType (OSEventTbl s1 2) = OS_EVENT_TYPE_MBOX"
    using multi_block_correct(7) [OF os_wf_demo running_demo, of "[4, 2]" st 0 2] ty
    by (simp add: event_data_def)
  with s show ?thesis by (auto simp: multi_post_def)
qed

section \<open>A wait for several events and suspension\<close>

text \<open>
  A task that waits for a semaphore or a mailbox and is suspended meanwhile is lost when the
  semaphore is posted: the post takes it off all wait lists but leaves the status bits of the other
  kind and of the multiple wait in \<^verbatim>\<open>OSTCBStat\<close>, and \<^verbatim>\<open>OSTaskResume\<close> readies a task only when no bit is
  left.  The resumption reports success, but afterwards the task is not ready, stands on no wait list,
  and has no delay that could run out.
\<close>

theorem OSTaskResume_loses_multi:
  fixes prio :: u8
  assumes wf: "os_wf s" and a: "at_prio s (unat prio) j" and lo: "prio < OS_LOWEST_PRIO"
    and w: "unat prio \<in> wait_set s e" "\<forall>q \<in> wait_set s e. unat prio \<le> q"
    and ty: "OSEventType (OSEventTbl s e) = OS_EVENT_TYPE_SEM"
    and st: "OSTCBStat (OSTCBTbl s j) = OS_STAT_SEM OR OS_STAT_MBOX OR OS_STAT_SUSPEND OR OS_STAT_MULTI"
  shows "\<exists>s1 s2. OSSemPost (PEvent e) s = (OS_ERR_NONE, s1) \<and> OSTaskResume prio s1 = (OS_ERR_NONE, s2) \<and>
    unat prio \<notin> rdy_set s2 \<and> (\<forall>e'. unat prio \<notin> wait_set s2 e') \<and> OSTCBDly (OSTCBTbl s2 j) = 0"
proof -
  have ne: "wait_set s e \<noteq> {}" using w(1) by auto
  then have grp: "Grp (wait_of s e) \<noteq> 0" using wait_empty_iff [OF wf] by simp
  have "Min (wait_set s e) = unat prio" using w finite_wait_set [OF wf, of e] by (intro Min_eqI) auto
  then have hp: "unat (bm_highest (wait_of s e)) = unat prio" using highest_waiter [OF wf ne] by simp
  define t where "t = snd (OS_EventTaskRdy e NULL OS_STAT_SEM OS_STAT_PEND_OK s)"
  note E = EventTaskRdy_correct [OF wf grp, unfolded hp, OF a, where pmsg = NULL and msk = OS_STAT_SEM and
      pend = OS_STAT_PEND_OK, folded t_def]
  have nr: "unat prio \<notin> rdy_set s" using at_prio_rdy_ok [OF wf a] st by (auto simp: rdy_ok_def)
  define s1 where "s1 = OS_Sched t"
  have post: "OSSemPost (PEvent e) s = (OS_ERR_NONE, s1)"
    using ty grp by (simp add: OSSemPost_def Let_def s1_def t_def)
  note core = tcb_core_fields [OF tcb_core_sched [of t j], folded s1_def]
  have st1: "OSTCBStat (OSTCBTbl s1 j) = OS_STAT_MBOX OR OS_STAT_SUSPEND OR OS_STAT_MULTI"
    and d1: "OSTCBDly (OSTCBTbl s1 j) = 0"
    using core(2,4) E(6) st by (simp_all add: rdy_write_def)
  have a1: "at_prio s1 (unat prio) j" using a E(4) by (simp add: s1_def)
  define s2 where "s2 = upd_tcb j (\<lambda>t. t\<lparr>OSTCBStat := OSTCBStat t AND NOT OS_STAT_SUSPEND\<rparr>) s1"
  have "\<not> OS_LOWEST_PRIO \<le> prio" using lo by simp
  then have "OSTaskResume prio s1 = (OS_ERR_NONE, s2)"
    using at_prio_tbl [OF a1] st1 by (simp add: OSTaskResume_def Let_def s2_def)
  moreover have "unat prio \<notin> rdy_set s2" using nr st E(3) by (simp add: s2_def s1_def)
  moreover have "unat prio \<notin> wait_set s2 e'" for e' using E(2) by (simp add: s2_def s1_def)
  moreover have "OSTCBDly (OSTCBTbl s2 j) = 0" using d1 by (simp add: s2_def)
  ultimately show ?thesis using post by blast
qed

text \<open>The demo state with task 1 suspended while it waits for semaphore 0 and mailbox 2.\<close>

definition demo_multi :: os_state where
  "demo_multi = upd_event 2 (\<lambda>ev. ev\<lparr>OSEventWait := bm_ins 3 bm_init\<rparr>)
     (upd_tcb 1 (\<lambda>t. t\<lparr>OSTCBStat := OS_STAT_SEM OR OS_STAT_MBOX OR OS_STAT_SUSPEND OR OS_STAT_MULTI,
        OSTCBEventPtr := NULL, OSTCBEventMultiPtr := Some [0, 2]\<rparr>) demo)"

theorem OSTaskResume_loses_multi_witness:
  "\<exists>s1 s2. OSSemPost (PEvent 0) demo_multi = (OS_ERR_NONE, s1) \<and>
     OSTaskResume 3 s1 = (OS_ERR_NONE, s2) \<and> 3 \<notin> rdy_set s2 \<and> (\<forall>e. 3 \<notin> wait_set s2 e)"
proof -
  have ap: "at_prio demo_multi q k = at_prio demo q k" for q k
    by (simp add: demo_multi_def keeps_prio_def)
  have w: "wait_set demo_multi e = (if e = 0 \<or> e = 2 then {3} else {})" for e
    by (simp add: demo_multi_def wait_set_upd_event wait_set_demo bm.els_ins bm_wf_init bm_elems_init)
  have r: "rdy_set demo_multi = {5, 12, 20}" by (simp add: demo_multi_def rdy_set_demo)
  have wf: "os_wf demo_multi"
  proof (rule os_wfI)
    show "bm_wf (OSRdy demo_multi)" "bm_wf (wait_of demo_multi e)" for e
      by (simp_all add: demo_multi_def bm_wf_demo bm.inv_ins bm_wf_init)
  next
    fix p assume "p \<in> rdy_set demo_multi"
    then have p: "p \<in> rdy_set demo" "p \<noteq> 3" by (auto simp: r rdy_set_demo)
    then obtain i where i: "at_prio demo p i" "rdy_ok (OSTCBTbl demo i)"
      using os_wf_rdyE [OF os_wf_demo] by blast
    with p have "i \<noteq> 1" using at_prio_demo(2) at_prio_same_tcb by blast
    with i show "\<exists>i. at_prio demo_multi p i \<and> rdy_ok (OSTCBTbl demo_multi i)"
      by (intro exI [of _ i]) (simp add: ap, simp add: demo_multi_def)
  next
    fix e p assume "p \<in> wait_set demo_multi e"
    then have "p = 3" "e = 0 \<or> e = 2" by (auto simp: w split: if_splits)
    then show "\<exists>i. at_prio demo_multi p i \<and> waits_on (OSTCBTbl demo_multi i) e"
      using at_prio_demo(2) by (intro exI [of _ 1]) (simp add: ap, auto simp: demo_multi_def waits_on_def)
  qed
  have a: "at_prio demo_multi (unat (3 :: u8)) 1" using at_prio_demo by (simp add: ap)
  have w0: "unat (3 :: u8) \<in> wait_set demo_multi 0" "\<forall>q \<in> wait_set demo_multi 0. unat (3 :: u8) \<le> q"
    by (simp_all add: w)
  have ty: "OSEventType (OSEventTbl demo_multi 0) = OS_EVENT_TYPE_SEM"
    by (simp add: demo_multi_def) (simp add: demo_def event_zero_def)
  have st: "OSTCBStat (OSTCBTbl demo_multi 1) = OS_STAT_SEM OR OS_STAT_MBOX OR OS_STAT_SUSPEND OR OS_STAT_MULTI"
    by (simp add: demo_multi_def)
  show ?thesis using OSTaskResume_loses_multi [OF wf a _ w0 ty st] by auto
qed

end
