(* ===== verification/Os_Tcbs.thy ===== *)
theory Os_Tcbs
  imports Os_Task
begin

text \<open>
  Where the task control blocks are: the doubly linked list of the created tasks, the singly linked
  list of the free blocks and the priority table (os_core.c, os_task.c).  The invariant \<open>tcbs_ok\<close>
  says that these share out the 12 blocks; creating and deleting tasks keep it.
\<close>

section \<open>Linked control blocks\<close>

text \<open>From \<open>p\<close>, \<^verbatim>\<open>OSTCBNext\<close> leads through \<open>js\<close> to \<open>q\<close>, and \<^verbatim>\<open>OSTCBPrev\<close> leads back to \<open>prev\<close>.\<close>

fun tcb_seg :: "(nat \<Rightarrow> OS_TCB) \<Rightarrow> ptr \<Rightarrow> ptr \<Rightarrow> nat list \<Rightarrow> ptr \<Rightarrow> bool" where
  "tcb_seg tbl prev p [] q \<longleftrightarrow> p = q"
| "tcb_seg tbl prev p (j # js) q \<longleftrightarrow> p = PTcb j \<and> OSTCBPrev (tbl j) = prev \<and>
     tcb_seg tbl (PTcb j) (OSTCBNext (tbl j)) js q"

fun tcb_free :: "(nat \<Rightarrow> OS_TCB) \<Rightarrow> ptr \<Rightarrow> nat list \<Rightarrow> bool" where
  "tcb_free tbl p [] \<longleftrightarrow> p = NULL"
| "tcb_free tbl p (j # js) \<longleftrightarrow> p = PTcb j \<and> tcb_free tbl (OSTCBNext (tbl j)) js"

definition seg_end :: "ptr \<Rightarrow> nat list \<Rightarrow> ptr" where
  "seg_end prev xs = (if xs = [] then prev else PTcb (last xs))"

lemma tcb_seg_append:
  "tcb_seg tbl prev p (xs @ ys) q \<longleftrightarrow>
     (\<exists>r. tcb_seg tbl prev p xs r \<and> tcb_seg tbl (seg_end prev xs) r ys q)"
proof (induction xs arbitrary: prev p)
  case (Cons x xs)
  have "seg_end prev (x # xs) = seg_end (PTcb x) xs" by (simp add: seg_end_def)
  with Cons.IH show ?case by auto
qed (simp add: seg_end_def)

lemma tcb_seg_cong:
  assumes "\<And>j. j \<in> set js \<Longrightarrow> OSTCBPrev (tbl' j) = OSTCBPrev (tbl j) \<and> OSTCBNext (tbl' j) = OSTCBNext (tbl j)"
  shows "tcb_seg tbl' prev p js q = tcb_seg tbl prev p js q"
  using assms by (induction js arbitrary: prev p) auto

lemma tcb_free_cong:
  assumes "\<And>j. j \<in> set js \<Longrightarrow> OSTCBNext (tbl' j) = OSTCBNext (tbl j)"
  shows "tcb_free tbl' p js = tcb_free tbl p js"
  using assms by (induction js arbitrary: p) auto

lemma tcb_free_hd: "tcb_free tbl p fs \<Longrightarrow> p = (case fs of [] \<Rightarrow> NULL | i # _ \<Rightarrow> PTcb i)"
  by (cases fs) auto

lemma tcb_seg_hd: "tcb_seg tbl prev p js NULL \<Longrightarrow> p = (case js of [] \<Rightarrow> NULL | i # _ \<Rightarrow> PTcb i)"
  by (cases js) auto

text \<open>A block is put in front of the list.\<close>

definition link_tcb :: "nat \<Rightarrow> nat list \<Rightarrow> (nat \<Rightarrow> OS_TCB) \<Rightarrow> nat \<Rightarrow> OS_TCB" where
  "link_tcb i js tbl = (case js of [] \<Rightarrow> tbl(i := (tbl i)\<lparr>OSTCBNext := NULL, OSTCBPrev := NULL\<rparr>)
     | j # _ \<Rightarrow> tbl(i := (tbl i)\<lparr>OSTCBNext := PTcb j, OSTCBPrev := NULL\<rparr>,
                   j := (tbl j)\<lparr>OSTCBPrev := PTcb i\<rparr>))"

lemma tcb_seg_link:
  assumes "tcb_seg tbl NULL p js NULL" "distinct (i # js)"
  shows "tcb_seg (link_tcb i js tbl) NULL (PTcb i) (i # js) NULL"
proof (cases js)
  case (Cons j ks)
  have "tcb_seg (link_tcb i js tbl) (PTcb j) (OSTCBNext (tbl j)) ks NULL =
      tcb_seg tbl (PTcb j) (OSTCBNext (tbl j)) ks NULL"
    by (rule tcb_seg_cong) (use assms(2) Cons in \<open>auto simp: link_tcb_def\<close>)
  then show ?thesis using assms Cons by (auto simp: link_tcb_def)
qed (simp add: link_tcb_def)

text \<open>A block that is not the last one is taken out.\<close>

definition unlink_tcb :: "nat \<Rightarrow> (nat \<Rightarrow> OS_TCB) \<Rightarrow> nat \<Rightarrow> OS_TCB" where
  "unlink_tcb i tbl =
     (if OSTCBPrev (tbl i) = NULL then
        tbl(tcb_of (OSTCBNext (tbl i)) := (tbl (tcb_of (OSTCBNext (tbl i))))\<lparr>OSTCBPrev := NULL\<rparr>)
      else
        let tbl1 = tbl(tcb_of (OSTCBPrev (tbl i)) :=
              (tbl (tcb_of (OSTCBPrev (tbl i))))\<lparr>OSTCBNext := OSTCBNext (tbl i)\<rparr>)
        in tbl1(tcb_of (OSTCBNext (tbl i)) :=
              (tbl1 (tcb_of (OSTCBNext (tbl i))))\<lparr>OSTCBPrev := OSTCBPrev (tbl i)\<rparr>))"

lemma tcb_seg_unlink:
  assumes l: "tcb_seg tbl NULL p (xs @ i # y # ys) NULL" and d: "distinct (xs @ i # y # ys)"
  shows "tcb_seg (unlink_tcb i tbl) NULL (if OSTCBPrev (tbl i) = NULL then OSTCBNext (tbl i) else p)
      (xs @ y # ys) NULL"
    and "OSTCBPrev (tbl i) = seg_end NULL xs" "OSTCBNext (tbl i) = PTcb y"
proof -
  obtain r where r: "tcb_seg tbl NULL p xs r" "tcb_seg tbl (seg_end NULL xs) r (i # y # ys) NULL"
    using l unfolding tcb_seg_append by blast
  then have i: "r = PTcb i" and pi: "OSTCBPrev (tbl i) = seg_end NULL xs" and ni: "OSTCBNext (tbl i) = PTcb y"
    and t: "tcb_seg tbl (PTcb y) (OSTCBNext (tbl y)) ys NULL" by auto
  show "OSTCBPrev (tbl i) = seg_end NULL xs" "OSTCBNext (tbl i) = PTcb y" by (fact pi ni)+
  have t': "tcb_seg (unlink_tcb i tbl) (PTcb y) (OSTCBNext (tbl y)) ys NULL" if "last xs \<notin> set ys \<or> xs = []"
    using t that d
    by (subst tcb_seg_cong [of _ _ tbl]) (auto simp: unlink_tcb_def Let_def pi ni seg_end_def)
  show "tcb_seg (unlink_tcb i tbl) NULL (if OSTCBPrev (tbl i) = NULL then OSTCBNext (tbl i) else p)
      (xs @ y # ys) NULL"
  proof (cases xs rule: rev_cases)
    case Nil
    then show ?thesis using t' by (simp add: pi ni seg_end_def unlink_tcb_def)
  next
    case (snoc zs x)
    obtain q where q: "tcb_seg tbl NULL p zs q" "q = PTcb x" "OSTCBPrev (tbl x) = seg_end NULL zs"
      using r(1) unfolding snoc tcb_seg_append by auto
    have "tcb_seg (unlink_tcb i tbl) NULL p zs (PTcb x)"
      using q d snoc by (subst tcb_seg_cong [of _ _ tbl]) (auto simp: unlink_tcb_def Let_def pi ni seg_end_def)
    moreover have "OSTCBPrev (unlink_tcb i tbl x) = seg_end NULL zs" "OSTCBNext (unlink_tcb i tbl x) = PTcb y"
      "OSTCBPrev (unlink_tcb i tbl y) = PTcb x" "OSTCBNext (unlink_tcb i tbl y) = OSTCBNext (tbl y)"
      using q(3) d snoc by (auto simp: unlink_tcb_def Let_def pi ni seg_end_def)
    moreover have "seg_end NULL (zs @ [x]) = PTcb x" by (simp add: seg_end_def)
    moreover have "last xs \<notin> set ys" using d snoc by auto
    ultimately show ?thesis
      using t' by (auto simp: snoc tcb_seg_append pi seg_end_def)
  qed
qed

section \<open>The invariant\<close>

definition tcbs_ok :: "os_state \<Rightarrow> nat list \<Rightarrow> nat list \<Rightarrow> bool" where
  "tcbs_ok s js fs \<longleftrightarrow> tcb_seg (OSTCBTbl s) NULL (OSTCBList s) js NULL \<and>
     tcb_free (OSTCBTbl s) (OSTCBFreeList s) fs \<and> distinct (js @ fs) \<and>
     set (js @ fs) = {..<OS_MAX_TASKS + OS_N_SYS_TASKS} \<and> (\<forall>j \<in> set js. \<exists>p. at_prio s p j) \<and>
     (\<forall>p \<le> 20. \<forall>j. OSTCBPrioTbl s p = PTcb j \<longrightarrow> j \<in> set js \<and> at_prio s p j) \<and>
     unat (OSTaskCtr s) = length js"

lemma tcbs_okD:
  assumes "tcbs_ok s js fs"
  shows "tcb_seg (OSTCBTbl s) NULL (OSTCBList s) js NULL" "tcb_free (OSTCBTbl s) (OSTCBFreeList s) fs"
    and "distinct js" "distinct fs" "set js \<inter> set fs = {}" "set js \<union> set fs = {..<12}"
    and "\<forall>j \<in> set js. \<exists>p. at_prio s p j"
    and "\<forall>p \<le> 20. \<forall>j. OSTCBPrioTbl s p = PTcb j \<longrightarrow> j \<in> set js \<and> at_prio s p j"
    and "unat (OSTaskCtr s) = length js"
  using assms by (simp_all only: tcbs_ok_def) simp_all

lemma tcbs_ok_cong:
  assumes "tcbs_ok s js fs" "\<And>p j. at_prio s' p j = at_prio s p j"
    and "\<And>j. OSTCBPrev (OSTCBTbl s' j) = OSTCBPrev (OSTCBTbl s j) \<and>
      OSTCBNext (OSTCBTbl s' j) = OSTCBNext (OSTCBTbl s j)"
    and "OSTCBList s' = OSTCBList s" "OSTCBFreeList s' = OSTCBFreeList s"
    and "OSTCBPrioTbl s' = OSTCBPrioTbl s" "OSTaskCtr s' = OSTaskCtr s"
  shows "tcbs_ok s' js fs"
  using assms tcb_seg_cong [of js "OSTCBTbl s'" "OSTCBTbl s"] tcb_free_cong [of fs "OSTCBTbl s'" "OSTCBTbl s"]
  by (simp add: tcbs_ok_def)

lemma tcbs_ok_listed: "tcbs_ok s js fs \<Longrightarrow> at_prio s p j \<Longrightarrow> j \<in> set js"
  unfolding tcbs_ok_def at_prio_def by blast

lemma tcbs_ok_OS_Sched: "tcbs_ok s js fs \<Longrightarrow> tcbs_ok (OS_Sched s) js fs"
  by (erule tcbs_ok_cong)
    (simp_all add: OS_Sched_def sched_switch_def OSCtxSw_def Let_def OS_SchedNew_eq, simp add: at_prio_def tcb_pos_ok_def)

text \<open>
  The kernel's invariant only looks at the TCBs that the priority table lists.
\<close>

lemma os_wf_listed:
  assumes "os_wf s" "OSRdy s' = OSRdy s" "OSEventTbl s' = OSEventTbl s"
    and "\<And>p j. at_prio s p j \<Longrightarrow> p \<in> rdy_set s \<or> (\<exists>e. p \<in> wait_set s e) \<Longrightarrow> at_prio s' p j \<and>
      rdy_ok (OSTCBTbl s' j) = rdy_ok (OSTCBTbl s j) \<and>
      waits_on (OSTCBTbl s' j) = waits_on (OSTCBTbl s j)"
  shows "os_wf s'"
proof (rule os_wfI)
  have sets: "rdy_set s' = rdy_set s" "wait_set s' e = wait_set s e" for e
    using assms(2,3) by (simp_all add: rdy_set_def wait_set_def)
  show "\<exists>i. at_prio s' p i \<and> rdy_ok (OSTCBTbl s' i)" if p: "p \<in> rdy_set s'" for p
  proof -
    obtain i where i: "at_prio s p i" "rdy_ok (OSTCBTbl s i)"
      using assms(1) p sets by (auto elim: os_wf_rdyE)
    have "p \<in> rdy_set s \<or> (\<exists>e. p \<in> wait_set s e)" using p sets by auto
    from assms(4) [OF i(1) this] i(2) show ?thesis by auto
  qed
  show "\<exists>i. at_prio s' p i \<and> waits_on (OSTCBTbl s' i) e" if p: "p \<in> wait_set s' e" for p e
  proof -
    obtain i where i: "at_prio s p i" "waits_on (OSTCBTbl s i) e"
      using assms(1) p sets by (auto elim: os_wf_waitE)
    have "p \<in> rdy_set s \<or> (\<exists>e. p \<in> wait_set s e)" using p sets by auto
    from assms(4) [OF i(1) this] i(2) show ?thesis by (metis (full_types))
  qed
qed (use assms in \<open>simp_all add: os_wf_bm\<close>)

text \<open>
  The scheduler runs the highest-priority ready task, also when its caller has lost its priority.
\<close>

definition highest_runs :: "os_state \<Rightarrow> bool" where
  "highest_runs s \<longleftrightarrow> unat (OSPrioCur s) = Min (rdy_set s) \<and>
     (\<exists>k. OSTCBCur s = PTcb k \<and> at_prio s (Min (rdy_set s)) k)"

lemma OS_Sched_highest:
  assumes wf: "os_wf s" and ne: "rdy_set s \<noteq> {}" and cs: "can_sched s"
    and cur: "cur_ok s \<or> unat (OSPrioCur s) \<notin> rdy_set s"
  shows "highest_runs (OS_Sched s)"
proof -
  have S: "unat (OSPrioCur (OS_Sched s)) = Min (rdy_set s)"
    "OSTCBCur (OS_Sched s) = OSTCBPrioTbl s (Min (rdy_set s))"
    using cur OS_Sched_runs_highest(1,2) [OF wf ne _ cs] OS_Sched_after_reprio [OF wf ne cs] by blast+
  have "Min (rdy_set s) \<in> rdy_set s"
    using Min_in [OF bm.finite_els [OF os_wf_bm(1) [OF wf]]] ne by (simp add: rdy_set_def)
  then obtain k where "at_prio s (Min (rdy_set s)) k" using wf by (auto elim: os_wf_rdyE)
  then show ?thesis using S by (auto simp: highest_runs_def at_prio_tbl)
qed

section \<open>Creating a task\<close>

lemma OSTaskStkInit_eq: "\<exists>psp m. OSTaskStkInit prt task p_arg ptos opt s = (psp, s\<lparr>OSStkMem := m\<rparr>)"
  unfolding OSTaskStkInit_def Let_def by blast

lemma tcb_init_fields [simp]:
  "OSTCBPrio (tcb_init prio ptos pbos tid sz pext opt t) = prio"
  "OSTCBDly (tcb_init prio ptos pbos tid sz pext opt t) = 0"
  "OSTCBStat (tcb_init prio ptos pbos tid sz pext opt t) = OS_STAT_RDY"
  "OSTCBEventPtr (tcb_init prio ptos pbos tid sz pext opt t) = NULL"
  "OSTCBEventMultiPtr (tcb_init prio ptos pbos tid sz pext opt t) = None"
  "OSTCBFlagNode (tcb_init prio ptos pbos tid sz pext opt t) = NULL"
  "OSTCBNext (tcb_init prio ptos pbos tid sz pext opt t) = OSTCBNext t"
  "tcb_pos_ok (tcb_init prio ptos pbos tid sz pext opt t)"
  by (simp_all add: tcb_init_def tcb_pos_ok_def prio_y_def prio_x_def)

lemma OS_TaskStkClr_eq: "\<exists>m. OS_TaskStkClr pbos stk_size opt s = s\<lparr>OSStkMem := m\<rparr>"
proof -
  have "s = s\<lparr>OSStkMem := OSStkMem s\<rparr>" by simp
  then show ?thesis unfolding OS_TaskStkClr_def by metis
qed

text \<open>
  \<^verbatim>\<open>OS_TCBInit\<close> at a priority the table has reserved: the first free block joins the task list and
  the ready list.
\<close>

lemma TCBInit_correct:
  fixes s0 :: os_state and prio :: u8 and m :: "u32 \<Rightarrow> u32" and ptos pbos sz :: u32
    and tid opt :: u16 and pext :: ptr
  assumes wf: "os_wf s0" and ok: "tcbs_ok s0 js (i # fs)" and lo: "prio \<le> OS_LOWEST_PRIO"
    and free: "OSTCBPrioTbl s0 (unat prio) = NULL"
  defines "s \<equiv> (set_prio_tbl prio OS_TCB_RESERVED s0)\<lparr>OSStkMem := m\<rparr>"
  defines "s' \<equiv> snd (OS_TCBInit prio ptos pbos tid sz pext opt s)"
  shows "fst (OS_TCBInit prio ptos pbos tid sz pext opt s) = OS_ERR_NONE" "os_wf s'" "tcbs_ok s' (i # js) fs"
    and "rdy_set s' = insert (unat prio) (rdy_set s0)" "wait_set s' e = wait_set s0 e"
    and "at_prio s' q k \<longleftrightarrow> (if k = i then q = unat prio else at_prio s0 q k)"
    and "OSTCBPrioTbl s' = (OSTCBPrioTbl s0)(unat prio := PTcb i)"
    and "OSTCBCur s' = OSTCBCur s0" "OSPrioCur s' = OSPrioCur s0" "OSRunning s' = OSRunning s0"
    and "can_sched s' = can_sched s0"
proof -
  let ?init = "tcb_init prio ptos pbos tid sz pext opt"
  have l: "tcb_seg (OSTCBTbl s0) NULL (OSTCBList s0) js NULL" and d: "distinct (i # js)" "i \<notin> set fs"
      "set fs \<inter> set js = {}" "distinct fs"
    and f: "OSTCBFreeList s0 = PTcb i" "tcb_free (OSTCBTbl s0) (OSTCBNext (OSTCBTbl s0 i)) fs"
    and u: "set (js @ i # fs) = {..<12}" and c: "unat (OSTaskCtr s0) = length js"
    and ap: "\<forall>j \<in> set js. \<exists>p. at_prio s0 p j"
    and pt: "\<forall>p \<le> 20. \<forall>j. OSTCBPrioTbl s0 p = PTcb j \<longrightarrow> j \<in> set js \<and> at_prio s0 p j"
    using ok by (auto simp: tcbs_ok_def)
  define tbl where "tbl = link_tcb i js ((OSTCBTbl s0)(i := ?init (OSTCBTbl s0 i)))"
  define s6 where "s6 = s\<lparr>OSTCBFreeList := OSTCBNext (OSTCBTbl s0 i),
    OSTCBPrioTbl := (OSTCBPrioTbl s0)(unat prio := PTcb i), OSTCBTbl := tbl, OSTCBList := PTcb i\<rparr>"
  have hd: "OSTCBList s0 = (case js of [] \<Rightarrow> NULL | j # _ \<Rightarrow> PTcb j)" by (rule tcb_seg_hd [OF l])
  have eq: "OS_TCBInit prio ptos pbos tid sz pext opt s = (OS_ERR_NONE,
      let s7 = rdy_insert i (OSTCBY (OSTCBTbl s6 i)) s6 in s7\<lparr>OSTaskCtr := OSTaskCtr s7 + 1\<rparr>)"
    using d(1) hd
    by (cases js) (auto simp: OS_TCBInit_def Let_def s_def f(1) s6_def tbl_def link_tcb_def upd_tcb_def
        set_prio_tbl_def fun_upd_twist)
  show "fst (OS_TCBInit prio ptos pbos tid sz pext opt s) = OS_ERR_NONE" by (simp add: eq)
  have s': "s' = (rdy_insert i (OSTCBY (OSTCBTbl s6 i)) s6)\<lparr>OSTaskCtr := OSTaskCtr s0 + 1\<rparr>"
    by (simp add: s'_def eq Let_def) (simp add: rdy_insert_def Let_def s6_def s_def set_prio_tbl_def)
  have s6: "OSTCBTbl s6 = tbl" "OSRdy s6 = OSRdy s0" "OSEventTbl s6 = OSEventTbl s0"
    "OSTCBPrioTbl s6 = (OSTCBPrioTbl s0)(unat prio := PTcb i)" "OSTCBList s6 = PTcb i"
    "OSTCBFreeList s6 = OSTCBNext (OSTCBTbl s0 i)"
    by (simp_all add: s6_def s_def set_prio_tbl_def)
  have p20: "unat prio \<le> 20" using lo by (simp add: word_le_nat_alt)
  have ti: "tbl i = (?init (OSTCBTbl s0 i))\<lparr>OSTCBNext := OSTCBNext (tbl i), OSTCBPrev := NULL\<rparr>"
    using d(1) by (cases js) (auto simp: tbl_def link_tcb_def)
  have tj: "tbl j = (OSTCBTbl s0 j)\<lparr>OSTCBPrev := OSTCBPrev (tbl j)\<rparr>" if "j \<noteq> i" for j
    using d(1) that by (cases js) (auto simp: tbl_def link_tcb_def)
  have ti': "OSTCBPrio (tbl i) = prio" "tcb_pos_ok (tbl i)" "rdy_ok (tbl i)"
    by (subst ti, simp add: rdy_ok_def tcb_pos_ok_def tcb_init_def prio_y_def prio_x_def)+
  have tj': "OSTCBPrio (tbl j) = OSTCBPrio (OSTCBTbl s0 j)" "tcb_pos_ok (tbl j) = tcb_pos_ok (OSTCBTbl s0 j)"
    "rdy_ok (tbl j) = rdy_ok (OSTCBTbl s0 j)" "waits_on (tbl j) = waits_on (OSTCBTbl s0 j)"
    "OSTCBNext (tbl j) = OSTCBNext (OSTCBTbl s0 j)" if "j \<noteq> i" for j
    by (subst tj [OF that], simp add: tcb_pos_ok_def rdy_ok_def waits_on_def fun_eq_iff split: option.split)+
  have ni: "\<not> at_prio s0 q i" for q using pt d(1) by (auto simp: at_prio_def)
  have ap6: "at_prio s6 q k \<longleftrightarrow> (if k = i then q = unat prio else at_prio s0 q k)" for q k
    using ti' tj' [of k] ni [of q] pt d(1) p20 free by (auto simp: at_prio_def s6)
  have wf6: "os_wf s6"
  proof (rule os_wf_listed [OF wf s6(2,3)])
    fix p j assume "at_prio s0 p j"
    then show "at_prio s6 p j \<and> rdy_ok (OSTCBTbl s6 j) = rdy_ok (OSTCBTbl s0 j) \<and>
        waits_on (OSTCBTbl s6 j) = waits_on (OSTCBTbl s0 j)"
      using ni ap6 tj' [of j] by (cases "j = i") (auto simp: s6)
  qed
  have a: "at_prio s6 (unat prio) i" by (simp add: ap6)
  have r: "rdy_ok (OSTCBTbl s6 i)" using ti' by (simp add: s6)
  note fld = os_wf_fields [of "rdy_insert i (OSTCBY (OSTCBTbl s6 i)) s6 \<lparr>OSTaskCtr := OSTaskCtr s0 + 1\<rparr>"
      "rdy_insert i (OSTCBY (OSTCBTbl s6 i)) s6", simplified]
  show "os_wf s'" using os_wf_rdy_insert [OF wf6 a r] fld(1) by (simp add: s')
  show "rdy_set s' = insert (unat prio) (rdy_set s0)"
    using rdy_set_insert [OF wf6 a] fld(2) by (simp add: s') (simp add: rdy_set_def s6)
  show "wait_set s' e = wait_set s0 e" using fld(3) by (simp add: s') (simp add: wait_set_def s6)
  have ap': "at_prio s' q k \<longleftrightarrow> (if k = i then q = unat prio else at_prio s0 q k)" for q k
    using fld(4) ap6 by (simp add: s')
  then show "at_prio s' q k \<longleftrightarrow> (if k = i then q = unat prio else at_prio s0 q k)" .
  have g: "OSTCBTbl s' = tbl" "OSTCBPrioTbl s' = (OSTCBPrioTbl s0)(unat prio := PTcb i)"
    "OSTCBList s' = PTcb i" "OSTCBFreeList s' = OSTCBNext (OSTCBTbl s0 i)" "OSTaskCtr s' = OSTaskCtr s0 + 1"
    by (simp_all add: s' s6) (simp_all add: rdy_insert_def Let_def s6)
  show "OSTCBPrioTbl s' = (OSTCBPrioTbl s0)(unat prio := PTcb i)" by (rule g)
  show "OSTCBCur s' = OSTCBCur s0" "OSPrioCur s' = OSPrioCur s0" "OSRunning s' = OSRunning s0"
    "can_sched s' = can_sched s0"
    by (simp_all add: s' rdy_insert_def Let_def s6_def s_def set_prio_tbl_def can_sched_def)
  have "tcb_seg tbl NULL (PTcb i) (i # js) NULL"
    unfolding tbl_def
    by (rule tcb_seg_link [OF _ d(1)], subst tcb_seg_cong [of _ _ "OSTCBTbl s0"]) (use l d in auto)
  moreover have "tcb_free tbl (OSTCBNext (OSTCBTbl s0 i)) fs"
    using f(2) by (subst tcb_free_cong [of _ _ "OSTCBTbl s0"]) (metis d(2) tj'(5), assumption)
  moreover have "unat (OSTaskCtr s0 + 1) = Suc (length js)"
  proof -
    have "length js \<le> 12" using card_mono [of "{..<12 :: nat}" "set js"] distinct_card [of js] u d by auto
    then show ?thesis using c by (subst unat_add_lem [THEN iffD1]) auto
  qed
  moreover have "\<forall>j \<in> set (i # js). \<exists>p. at_prio s' p j" using ap d(1) by (auto simp: ap')
  moreover have "j \<in> set (i # js) \<and> at_prio s' p j" if "p \<le> 20" "OSTCBPrioTbl s' p = PTcb j" for p j
    using that pt d(1) by (auto simp: ap' g split: if_splits)
  moreover have "set ((i # js) @ fs) = {..<12}" "distinct ((i # js) @ fs)" using u d by auto
  ultimately show "tcbs_ok s' (i # js) fs" by (simp add: tcbs_ok_def g)
qed

text \<open>Task \<open>i\<close> has been added at priority \<open>p\<close>, ready, and nothing else has changed place.\<close>

definition task_added :: "nat \<Rightarrow> nat \<Rightarrow> os_state \<Rightarrow> os_state \<Rightarrow> bool" where
  "task_added p i s s' \<longleftrightarrow> rdy_set s' = insert p (rdy_set s) \<and> (\<forall>e. wait_set s' e = wait_set s e) \<and>
     (\<forall>q k. at_prio s' q k \<longleftrightarrow> (if k = i then q = p else at_prio s q k)) \<and>
     OSTCBPrioTbl s' = (OSTCBPrioTbl s)(p := PTcb i)"

lemma create_end_correct:
  fixes s0 :: os_state and prio :: u8 and m :: "u32 \<Rightarrow> u32" and ptos pbos sz :: u32
    and tid opt :: u16 and pext :: ptr
  assumes wf: "os_wf s0" and ok: "tcbs_ok s0 js fs" and lo: "prio \<le> OS_LOWEST_PRIO"
    and free: "OSTCBPrioTbl s0 (unat prio) = NULL"
  defines "r \<equiv> create_end prio (OS_TCBInit prio ptos pbos tid sz pext opt
    ((set_prio_tbl prio OS_TCB_RESERVED s0)\<lparr>OSStkMem := m\<rparr>))"
  shows "fs = [] \<Longrightarrow> r = (OS_ERR_TASK_NO_MORE_TCB, s0\<lparr>OSStkMem := m\<rparr>)"
    and "fs = i # fs' \<Longrightarrow> fst r = OS_ERR_NONE \<and> os_wf (snd r) \<and> tcbs_ok (snd r) (i # js) fs' \<and>
      task_added (unat prio) i s0 (snd r) \<and> OSRunning (snd r) = OSRunning s0 \<and>
      can_sched (snd r) = can_sched s0 \<and>
      (OSRunning s0 \<and> can_sched s0 \<and> running s0 p c \<longrightarrow> highest_runs (snd r))"
proof -
  assume "fs = []"
  then have "OSTCBFreeList s0 = NULL" using ok by (simp add: tcbs_ok_def)
  moreover have "(OSTCBPrioTbl s0)(unat prio := NULL) = OSTCBPrioTbl s0" using free by (simp add: fun_upd_idem)
  ultimately show "r = (OS_ERR_TASK_NO_MORE_TCB, s0\<lparr>OSStkMem := m\<rparr>)"
    by (simp add: r_def create_end_def OS_TCBInit_def Let_def set_prio_tbl_def)
next
  let ?s = "(set_prio_tbl prio OS_TCB_RESERVED s0)\<lparr>OSStkMem := m\<rparr>"
  let ?u = "snd (OS_TCBInit prio ptos pbos tid sz pext opt ?s)"
  assume fs: "fs = i # fs'"
  note T = TCBInit_correct [OF wf ok [unfolded fs] lo free, of ptos pbos tid sz pext opt m]
  have r: "r = (OS_ERR_NONE, if OSRunning s0 then OS_Sched ?u else ?u)"
    using T(1,10) by (simp add: r_def create_end_def split_beta)
  have run: "highest_runs (OS_Sched ?u)" if cs: "can_sched s0" and run: "running s0 p c"
  proof -
    have "p \<noteq> unat prio" using run free by (auto simp: running_def at_prio_def)
    then have "cur_ok ?u" using running_cur_ok [OF run] run by (simp add: cur_ok_def running_def T(7-9))
    moreover have "rdy_set ?u \<noteq> {}" "can_sched ?u" using cs by (simp_all add: T(4,11))
    ultimately show ?thesis using OS_Sched_highest [OF T(2)] by blast
  qed
  have "task_added (unat prio) i s0 ?u" using T(4-7) by (simp add: task_added_def)
  then have "task_added (unat prio) i s0 (snd r)" by (simp add: r task_added_def)
  moreover have "can_sched (snd r) = can_sched s0" using T(11) by (simp add: r can_sched_def)
  ultimately show "fst r = OS_ERR_NONE \<and> os_wf (snd r) \<and> tcbs_ok (snd r) (i # js) fs' \<and>
      task_added (unat prio) i s0 (snd r) \<and> OSRunning (snd r) = OSRunning s0 \<and>
      can_sched (snd r) = can_sched s0 \<and>
      (OSRunning s0 \<and> can_sched s0 \<and> running s0 p c \<longrightarrow> highest_runs (snd r))"
    using T(2,3,10) run tcbs_ok_OS_Sched [OF T(3)] by (auto simp: r)
qed

text \<open>Both creation calls, once their checks have passed, are this end on another stack memory.\<close>

lemma OSTaskCreate_eq:
  assumes "prio \<le> OS_LOWEST_PRIO" "OSIntNesting s = 0" "OSTCBPrioTbl s (unat prio) = NULL"
  obtains psp m where "OSTaskCreate prt task p_arg ptos prio s = create_end prio
    (OS_TCBInit prio psp 0 0 0 NULL 0 ((set_prio_tbl prio OS_TCB_RESERVED s)\<lparr>OSStkMem := m\<rparr>))"
proof -
  obtain psp m where "OSTaskStkInit prt task p_arg ptos 0 (set_prio_tbl prio OS_TCB_RESERVED s) =
      (psp, (set_prio_tbl prio OS_TCB_RESERVED s)\<lparr>OSStkMem := m\<rparr>)"
    using OSTaskStkInit_eq by blast
  then show thesis using assms that by (simp add: OSTaskCreate_def Let_def linorder_not_le [symmetric])
qed

lemma OSTaskCreateExt_eq:
  assumes "prio \<le> OS_LOWEST_PRIO" "OSIntNesting s = 0" "OSTCBPrioTbl s (unat prio) = NULL"
  obtains psp m where "OSTaskCreateExt prt task p_arg ptos prio tid pbos stk_size pext opt s =
    create_end prio (OS_TCBInit prio psp pbos tid stk_size pext opt
      ((set_prio_tbl prio OS_TCB_RESERVED s)\<lparr>OSStkMem := m\<rparr>))"
proof -
  obtain m1 where c: "OS_TaskStkClr pbos stk_size opt (set_prio_tbl prio OS_TCB_RESERVED s) =
      (set_prio_tbl prio OS_TCB_RESERVED s)\<lparr>OSStkMem := m1\<rparr>"
    using OS_TaskStkClr_eq by blast
  obtain psp m where "OSTaskStkInit prt task p_arg ptos opt
        ((set_prio_tbl prio OS_TCB_RESERVED s)\<lparr>OSStkMem := m1\<rparr>) =
      (psp, (set_prio_tbl prio OS_TCB_RESERVED s)\<lparr>OSStkMem := m\<rparr>)"
    using OSTaskStkInit_eq [of prt task p_arg ptos opt
        "(set_prio_tbl prio OS_TCB_RESERVED s)\<lparr>OSStkMem := m1\<rparr>"] by auto
  then show thesis using assms c that by (simp add: OSTaskCreateExt_def Let_def linorder_not_le [symmetric])
qed

section \<open>Deleting a task\<close>

text \<open>What the first half of \<^verbatim>\<open>OSTaskDel\<close> leaves in a TCB.\<close>

definition same_place :: "os_state \<Rightarrow> os_state \<Rightarrow> bool" where
  "same_place s s' \<longleftrightarrow> (\<forall>q k. at_prio s' q k = at_prio s q k) \<and>
     (\<forall>k. OSTCBPrev (OSTCBTbl s' k) = OSTCBPrev (OSTCBTbl s k) \<and>
        OSTCBNext (OSTCBTbl s' k) = OSTCBNext (OSTCBTbl s k)) \<and>
     OSTCBList s' = OSTCBList s \<and> OSTCBFreeList s' = OSTCBFreeList s \<and>
     OSTCBPrioTbl s' = OSTCBPrioTbl s \<and> OSTaskCtr s' = OSTaskCtr s \<and> OSTCBCur s' = OSTCBCur s \<and>
     OSPrioCur s' = OSPrioCur s \<and> OSRunning s' = OSRunning s \<and> OSIntNesting s' = OSIntNesting s"

lemma same_place_trans: "same_place s t \<Longrightarrow> same_place t u \<Longrightarrow> same_place s u"
  by (simp add: same_place_def)

lemma same_place_tcbs_ok: "tcbs_ok s js fs \<Longrightarrow> same_place s s' \<Longrightarrow> tcbs_ok s' js fs"
  by (erule tcbs_ok_cong) (simp_all add: same_place_def)

lemma same_placeI:
  assumes "os_frame s' = os_frame s" "OSTCBFreeList s' = OSTCBFreeList s" "OSTaskCtr s' = OSTaskCtr s"
    and "\<And>k. OSTCBPrio (OSTCBTbl s' k) = OSTCBPrio (OSTCBTbl s k) \<and>
      tcb_pos_ok (OSTCBTbl s' k) = tcb_pos_ok (OSTCBTbl s k) \<and>
      OSTCBPrev (OSTCBTbl s' k) = OSTCBPrev (OSTCBTbl s k) \<and> OSTCBNext (OSTCBTbl s' k) = OSTCBNext (OSTCBTbl s k)"
  shows "same_place s s'"
proof -
  note fr = os_frameD [OF assms(1)]
  have "at_prio s' q k = at_prio s q k" for q k
    by (rule at_prio_cong) (use assms(4) in \<open>auto simp: fr\<close>)
  then show ?thesis using assms(2-4) fr by (auto simp: same_place_def)
qed

text \<open>\<^verbatim>\<open>OS_FlagUnlink\<close> writes nothing but the links of the flag group and one \<^verbatim>\<open>OSTCBFlagNode\<close>.\<close>

lemma FlagUnlink_same:
  "\<exists>k. OSTCBTbl (OS_FlagUnlink n s) = (OSTCBTbl s)(k := (OSTCBTbl s k)\<lparr>OSTCBFlagNode := NULL\<rparr>)"
  "os_frame (OS_FlagUnlink n s) = os_frame s" "OSRdy (OS_FlagUnlink n s) = OSRdy s"
  "OSEventTbl (OS_FlagUnlink n s) = OSEventTbl s"
  "OSTCBFreeList (OS_FlagUnlink n s) = OSTCBFreeList s" "OSTaskCtr (OS_FlagUnlink n s) = OSTaskCtr s"
  by (auto simp: OS_FlagUnlink_def Let_def upd_flag_def upd_node_def upd_tcb_def os_frame_def)

lemma FlagUnlink_wf:
  assumes "os_wf s"
  shows "os_wf (OS_FlagUnlink n s)" "same_place s (OS_FlagUnlink n s)"
proof -
  obtain k where k: "OSTCBTbl (OS_FlagUnlink n s) = (OSTCBTbl s)(k := (OSTCBTbl s k)\<lparr>OSTCBFlagNode := NULL\<rparr>)"
    using FlagUnlink_same(1) by blast
  show sp: "same_place s (OS_FlagUnlink n s)"
    by (rule same_placeI [OF FlagUnlink_same(2,5,6)]) (simp add: k tcb_pos_ok_def)
  show "os_wf (OS_FlagUnlink n s)"
    by (rule os_wf_listed [OF assms FlagUnlink_same(3,4)])
      (use sp k in \<open>auto simp: same_place_def rdy_ok_def waits_on_def fun_eq_iff split: option.split\<close>)
qed

lemma EventTaskRemove_free [simp]:
  "OSTCBFreeList (OS_EventTaskRemove i e s) = OSTCBFreeList s"
  "OSTaskCtr (OS_EventTaskRemove i e s) = OSTaskCtr s"
  by (simp_all add: OS_EventTaskRemove_def Let_def)

lemma EventTaskRemoveMulti_free [simp]:
  "OSTCBFreeList (OS_EventTaskRemoveMulti i es s) = OSTCBFreeList s"
  "OSTaskCtr (OS_EventTaskRemoveMulti i es s) = OSTaskCtr s"
  by (induction es arbitrary: s) simp_all

text \<open>The deleted task leaves the ready list and every wait list, and nobody else moves.\<close>

lemma task_unlist_correct:
  assumes wf: "os_wf s" and a: "at_prio s p i"
  defines "s' \<equiv> task_unlist i s"
  shows "os_wf s'" "same_place s s'" "rdy_set s' = rdy_set s - {p}" "wait_set s' e = wait_set s e - {p}"
    and "OSLockNesting s' = (if OSLockNesting s < 255 then OSLockNesting s + 1 else OSLockNesting s)"
proof -
  define s1 where "s1 = rdy_remove i s"
  define s2 where "s2 = (if OSTCBEventPtr (OSTCBTbl s i) \<noteq> NULL
    then OS_EventTaskRemove i (event_of (OSTCBEventPtr (OSTCBTbl s i))) s1 else s1)"
  define s3 where "s3 = (case OSTCBEventMultiPtr (OSTCBTbl s i) of
    None \<Rightarrow> s2 | Some es \<Rightarrow> OS_EventTaskRemoveMulti i es s2)"
  define s4 where "s4 = (if OSTCBFlagNode (OSTCBTbl s i) \<noteq> NULL
    then OS_FlagUnlink (node_of (OSTCBFlagNode (OSTCBTbl s i))) s3 else s3)"
  let ?f = "\<lambda>t. t\<lparr>OSTCBDly := 0, OSTCBStat := OS_STAT_RDY, OSTCBStatPend := OS_STAT_PEND_OK\<rparr>"
  define s5 where "s5 = upd_tcb i ?f s4"
  have t: "OSTCBTbl s1 = OSTCBTbl s" "OSTCBTbl s2 = OSTCBTbl s" "OSTCBTbl s3 = OSTCBTbl s"
    by (simp_all add: s3_def s2_def s1_def split: option.split)
  have s': "s' = (if OSLockNesting s5 < 255 then s5\<lparr>OSLockNesting := OSLockNesting s5 + 1\<rparr> else s5)"
    by (simp add: s'_def task_unlist_def Let_def s5_def s4_def s3_def s2_def s1_def split: option.split)
  have wf1: "os_wf s1" and r1: "rdy_set s1 = rdy_set s - {p}" and w1: "wait_set s1 e = wait_set s e" for e
    unfolding s1_def using os_wf_rdy_remove [OF wf a] rdy_set_remove [OF wf a] by simp_all
  have a1: "at_prio s1 p i" using a by (simp add: s1_def)
  have wf2: "os_wf s2" and a2: "at_prio s2 p i" and r2: "rdy_set s2 = rdy_set s1"
    using wf1 a1 os_wf_EventTaskRemove [OF wf1 a1] by (simp_all add: s2_def)
  have w2: "wait_set s2 e = (if OSTCBEventPtr (OSTCBTbl s i) \<noteq> NULL \<and>
      e = event_of (OSTCBEventPtr (OSTCBTbl s i)) then wait_set s e - {p} else wait_set s e)" for e
    by (simp add: s2_def wait_set_EventTaskRemove [OF wf1 a1] w1)
  have wf3: "os_wf s3" and r3: "rdy_set s3 = rdy_set s1"
    using wf2 EventTaskRemoveMulti_sets [OF wf2 a2] r2 by (simp_all add: s3_def split: option.split)
  have w3: "wait_set s3 e = wait_set s e - {p}" for e
  proof (cases "p \<in> wait_set s e")
    case True
    then have "waits_on (OSTCBTbl s i) e" by (rule at_prio_waits_on [OF wf a])
    then show ?thesis
      using EventTaskRemoveMulti_sets [OF wf2 a2] w2 [of e]
      by (auto simp: s3_def waits_on_def split: option.splits)
  next
    case False
    then show ?thesis
      using EventTaskRemoveMulti_sets [OF wf2 a2] w2 [of e] by (auto simp: s3_def split: option.splits)
  qed
  have sp3: "same_place s s3"
    by (rule same_placeI) (simp_all add: s3_def s2_def s1_def rdy_remove_def Let_def split: option.split,
        simp add: os_frame_def)
  have wf4: "os_wf s4" and sp4: "same_place s s4"
    using wf3 FlagUnlink_wf [OF wf3] same_place_trans [OF sp3] sp3 by (simp_all add: s4_def)
  have r4: "rdy_set s4 = rdy_set s - {p}" and w4: "wait_set s4 e = wait_set s e - {p}" for e
    using r3 r1 w3 FlagUnlink_same(3,4) by (simp_all add: s4_def rdy_set_def wait_set_def)
  have a4: "at_prio s4 p i" using a sp4 by (simp add: same_place_def)
  have kp: "keeps_prio ?f" by (simp add: keeps_prio_def)
  have wf5: "os_wf s5" unfolding s5_def
    by (rule os_wf_upd_tcb_at [OF wf4 kp a4]) (use r4 w4 in auto)
  have "same_place s4 s5" unfolding s5_def by (rule same_placeI) (simp_all add: tcb_pos_ok_def)
  then have sp5: "same_place s s5" by (rule same_place_trans [OF sp4])
  have c: "os_wf s' = os_wf s5" "rdy_set s' = rdy_set s5" "wait_set s' e = wait_set s5 e"
    "at_prio s' q k = at_prio s5 q k" for e q k
    by (rule os_wf_fields; simp add: s')+
  show "os_wf s'" using wf5 c by simp
  show "same_place s s'" using sp5 by (simp add: same_place_def c) (simp add: s')
  show "rdy_set s' = rdy_set s - {p}" "wait_set s' e = wait_set s e - {p}"
    using r4 w4 by (simp_all add: c s5_def)
  have "os_frame s3 = os_frame s" by (simp add: s3_def s2_def s1_def split: option.split)
  then have "os_frame s5 = os_frame s" using FlagUnlink_same(2) by (simp add: s5_def s4_def)
  then have "OSLockNesting s5 = OSLockNesting s" by (rule os_frameD)
  then show "OSLockNesting s' = (if OSLockNesting s < 255 then OSLockNesting s + 1 else OSLockNesting s)"
    by (simp add: s')
qed

text \<open>The idle task, created first, is the last one of the list.\<close>

definition idle_last :: "os_state \<Rightarrow> nat list \<Rightarrow> bool" where
  "idle_last s js \<longleftrightarrow> js \<noteq> [] \<and> at_prio s 20 (last js)"

lemma split_before_last:
  assumes "i \<in> set js" "i \<noteq> last js" "distinct js"
  obtains xs y ys where "js = xs @ i # y # ys"
proof -
  obtain xs zs where z: "js = xs @ i # zs" using split_list [OF assms(1)] by blast
  with assms(2) have "zs \<noteq> []" by auto
  then show thesis using z that by (cases zs) auto
qed

text \<open>The list the clock tick walks.\<close>

lemma tcbs_ok_task_list:
  assumes ok: "tcbs_ok s js fs" and idle: "idle_last s js"
  shows "task_list s (butlast js)"
proof -
  have l: "tcb_seg (OSTCBTbl s) NULL (OSTCBList s) js NULL" and d: "distinct js"
    and u: "set js \<subseteq> {..<12}" and ap: "\<forall>j \<in> set js. \<exists>p. at_prio s p j"
    using ok by (auto simp: tcbs_ok_def)
  have js: "js = butlast js @ [last js]" and la: "at_prio s 20 (last js)"
    using idle by (simp_all add: idle_last_def)
  have ni: "OSTCBPrio (OSTCBTbl s j) \<noteq> 20" if "j \<in> set (butlast js)" for j
  proof
    assume e: "OSTCBPrio (OSTCBTbl s j) = 20"
    obtain q where "at_prio s q j" using ap in_set_butlastD [OF \<open>j \<in> set (butlast js)\<close>] by blast
    moreover from this e have "q = 20" by (auto simp: at_prio_def)
    ultimately have "j = last js" using la at_prio_unique by blast
    then show False using that d js by (metis distinct_butlast not_distinct_conv_prefix)
  qed
  have "chain (OSTCBTbl s) p (butlast js)"
    if "tcb_seg (OSTCBTbl s) prev p (butlast js @ [last js]) NULL" for prev p
  proof -
    have "chain (OSTCBTbl s) p ks"
      if "tcb_seg (OSTCBTbl s) prev p (ks @ [last js]) NULL" "set ks \<subseteq> set (butlast js)" for ks prev p
      using that
    proof (induction ks arbitrary: prev p)
      case Nil
      then show ?case using la by (auto simp: at_prio_def word_unat_eq_iff)
    qed (use ni in auto)
    then show ?thesis using that by blast
  qed
  then show ?thesis
    using l js d u ap by (auto simp: task_list_def distinct_butlast dest: in_set_butlastD)
qed

lemma task_free_correct:
  fixes prio :: u8
  assumes wf: "os_wf t" and ok: "tcbs_ok t js fs" and idle: "idle_last t js"
    and a: "at_prio t (unat prio) i" and lo: "prio < OS_LOWEST_PRIO"
    and nr: "unat prio \<notin> rdy_set t" and nw: "\<And>e. unat prio \<notin> wait_set t e"
  defines "s' \<equiv> task_free prio i t"
  shows "os_wf s'" "tcbs_ok s' (remove1 i js) (i # fs)" "idle_last s' (remove1 i js)"
    and "rdy_set s' = rdy_set t" "wait_set s' e = wait_set t e"
    and "at_prio s' q k \<longleftrightarrow> q \<noteq> unat prio \<and> at_prio t q k"
    and "OSTCBPrioTbl s' = (OSTCBPrioTbl t)(unat prio := NULL)"
    and "OSTCBCur s' = OSTCBCur t" "OSPrioCur s' = OSPrioCur t" "OSRunning s' = OSRunning t"
    and "OSIntNesting s' = OSIntNesting t"
    and "OSLockNesting s' = (if OSLockNesting t > 0 then OSLockNesting t - 1 else OSLockNesting t)"
proof -
  note D = tcbs_okD [OF ok]
  have "unat prio < 20" using lo by (simp add: word_less_nat_alt)
  then have "i \<noteq> last js" using idle at_prio_same_tcb [OF a, of 20] by (auto simp: idle_last_def)
  moreover have ij: "i \<in> set js" using ok a by (rule tcbs_ok_listed)
  ultimately obtain xs y ys where js: "js = xs @ i # y # ys" using split_before_last D(3) by metis
  note L = tcb_seg_unlink [OF D(1) [unfolded js] D(3) [unfolded js]]
  have rm: "remove1 i js = xs @ y # ys" using D(3) js by (simp add: remove1_append)
  define tbl where "tbl = (unlink_tcb i (OSTCBTbl t))(i := (unlink_tcb i (OSTCBTbl t) i)
    \<lparr>OSTCBNext := OSTCBFreeList t, OSTCBTaskName := name_unknown (OSTCBTaskName (OSTCBTbl t i))\<rparr>)"
  have yi: "y \<noteq> i" using D(3) js by auto
  have s': "s' = t\<lparr>OSLockNesting := (if OSLockNesting t > 0 then OSLockNesting t - 1 else OSLockNesting t),
      OSTaskCtr := OSTaskCtr t - 1, OSTCBPrioTbl := (OSTCBPrioTbl t)(unat prio := NULL),
      OSTCBTbl := tbl, OSTCBList := (if OSTCBPrev (OSTCBTbl t i) = NULL then OSTCBNext (OSTCBTbl t i)
        else OSTCBList t), OSTCBFreeList := PTcb i\<rparr>"
  proof (cases xs rule: rev_cases)
    case Nil
    then have "OSTCBPrev (OSTCBTbl t i) = NULL" using L(2) by (simp add: seg_end_def)
    then show ?thesis using yi L(3)
      by (simp add: s'_def task_free_def Let_def upd_tcb_def set_prio_tbl_def tbl_def unlink_tcb_def)
  next
    case (snoc zs x)
    then have "OSTCBPrev (OSTCBTbl t i) = PTcb x" "x \<noteq> i" using L(2) D(3) js by (auto simp: seg_end_def)
    then show ?thesis using yi L(3)
      by (simp add: s'_def task_free_def Let_def upd_tcb_def set_prio_tbl_def tbl_def unlink_tcb_def)
  qed
  have tbl_j: "tbl j = (OSTCBTbl t j)\<lparr>OSTCBNext := OSTCBNext (tbl j), OSTCBPrev := OSTCBPrev (tbl j),
      OSTCBTaskName := OSTCBTaskName (tbl j)\<rparr>" for j
    by (simp add: tbl_def unlink_tcb_def Let_def)
  have G: "OSTCBTbl s' = tbl" "OSRdy s' = OSRdy t" "OSEventTbl s' = OSEventTbl t"
    "OSTCBPrioTbl s' = (OSTCBPrioTbl t)(unat prio := NULL)" "OSTCBFreeList s' = PTcb i"
    "OSTCBList s' = (if OSTCBPrev (OSTCBTbl t i) = NULL then OSTCBNext (OSTCBTbl t i) else OSTCBList t)"
    "OSTaskCtr s' = OSTaskCtr t - 1"
    by (simp_all add: s')
  have same: "OSTCBPrio (tbl j) = OSTCBPrio (OSTCBTbl t j)" "tcb_pos_ok (tbl j) = tcb_pos_ok (OSTCBTbl t j)"
    "rdy_ok (tbl j) = rdy_ok (OSTCBTbl t j)" "waits_on (tbl j) = waits_on (OSTCBTbl t j)" for j
    by (subst tbl_j, simp add: tcb_pos_ok_def rdy_ok_def waits_on_def fun_eq_iff split: option.split)+
  have ap': "at_prio s' q k \<longleftrightarrow> q \<noteq> unat prio \<and> at_prio t q k" for q k
    by (simp add: at_prio_def G same)
  then show "at_prio s' q k \<longleftrightarrow> q \<noteq> unat prio \<and> at_prio t q k" .
  show "os_wf s'"
    by (rule os_wf_listed [OF wf G(2,3)]) (use nr nw ap' in \<open>auto simp: G same\<close>)
  show "rdy_set s' = rdy_set t" "wait_set s' e = wait_set t e"
    by (simp_all add: rdy_set_def wait_set_def G)
  show "OSTCBPrioTbl s' = (OSTCBPrioTbl t)(unat prio := NULL)" by (rule G)
  show "OSTCBCur s' = OSTCBCur t" "OSPrioCur s' = OSPrioCur t" "OSRunning s' = OSRunning t"
    "OSIntNesting s' = OSIntNesting t"
    "OSLockNesting s' = (if OSLockNesting t > 0 then OSLockNesting t - 1 else OSLockNesting t)"
    by (simp_all add: s')
  have "last js = last (remove1 i js)" unfolding rm by (simp add: js)
  then show "idle_last s' (remove1 i js)"
    using idle \<open>unat prio < 20\<close> by (auto simp: idle_last_def ap' rm)
  have "tcb_seg tbl NULL (OSTCBList s') (remove1 i js) NULL"
    unfolding rm G(6) by (subst tcb_seg_cong [of _ _ "unlink_tcb i (OSTCBTbl t)"])
      (use L(1) D(3) js in \<open>auto simp: tbl_def\<close>)
  moreover have "tcb_free tbl (OSTCBFreeList t) fs"
  proof -
    have "OSTCBNext (tbl k) = OSTCBNext (OSTCBTbl t k)" if k: "k \<in> set fs" for k
    proof -
      have "k \<notin> set js" using k D(5) by blast
      then have "k \<noteq> i" "k \<noteq> y" "xs = [] \<or> k \<noteq> last xs" using js last_in_set [of xs] by auto
      then show ?thesis
        by (auto simp: tbl_def unlink_tcb_def Let_def L(2,3) seg_end_def)
    qed
    then show ?thesis using D(2) by (subst tcb_free_cong [of _ _ "OSTCBTbl t"])
  qed
  moreover have "OSTCBNext (tbl i) = OSTCBFreeList t" by (simp add: tbl_def)
  moreover have "distinct (remove1 i js @ i # fs)" "set (remove1 i js @ i # fs) = {..<12}"
    using D(3-6) js by (auto simp: rm)
  moreover have "\<exists>p. at_prio s' p j" if j: "j \<in> set (remove1 i js)" for j
  proof -
    have "j \<noteq> i" using j D(3) by simp
    obtain p where p: "at_prio t p j" using j D(3,7) by auto
    with \<open>j \<noteq> i\<close> have "p \<noteq> unat prio" using at_prio_unique [OF a] by blast
    with p show ?thesis by (auto simp: ap')
  qed
  moreover have "j \<in> set (remove1 i js) \<and> at_prio s' p j" if "p \<le> 20" "OSTCBPrioTbl s' p = PTcb j" for p j
    using that D(3,8) a by (auto simp: ap' G dest: at_prio_same_tcb split: if_splits)
  moreover have "unat (OSTaskCtr t - 1) = length (remove1 i js)"
  proof -
    have "OSTaskCtr t \<noteq> 0" using D(9) js by auto
    then show ?thesis using D(9) unfolding rm by (simp add: js unat_minus_one)
  qed
  ultimately show "tcbs_ok s' (remove1 i js) (i # fs)" by (simp add: tcbs_ok_def G)
qed

section \<open>The two calls\<close>

text \<open>
  C13: Creating a task.  As long as a control block is free, the new task gets it: it joins the task
  list and is ready at its priority, no other task is moved, and if it is the most urgent one it runs
  at once.  When none is free the call fails and gives the priority it had reserved back: nothing
  but stack memory has changed.
\<close>

theorem OSTaskCreateExt_correct:
  fixes prio :: u8
  assumes wf: "os_wf s" and ok: "tcbs_ok s js fs" and lo: "prio \<le> OS_LOWEST_PRIO"
    and free: "OSTCBPrioTbl s (unat prio) = NULL"
    and run: "running s p c" and cs: "can_sched s" and on: "OSRunning s"
  shows "\<exists>s'. case fs of
      [] \<Rightarrow> OSTaskCreateExt prt task p_arg ptos prio tid pbos stk_size pext opt s =
             (OS_ERR_TASK_NO_MORE_TCB, s') \<and> s' = s\<lparr>OSStkMem := OSStkMem s'\<rparr>
    | i # fs' \<Rightarrow> OSTaskCreateExt prt task p_arg ptos prio tid pbos stk_size pext opt s =
             (OS_ERR_NONE, s') \<and> os_wf s' \<and> tcbs_ok s' (i # js) fs' \<and>
             task_added (unat prio) i s s' \<and> highest_runs s'"
proof -
  have "OSIntNesting s = 0" using cs by (simp add: can_sched_def)
  then obtain psp m where c: "OSTaskCreateExt prt task p_arg ptos prio tid pbos stk_size pext opt s =
      create_end prio (OS_TCBInit prio psp pbos tid stk_size pext opt
        ((set_prio_tbl prio OS_TCB_RESERVED s)\<lparr>OSStkMem := m\<rparr>))" (is "_ = ?r")
    using OSTaskCreateExt_eq [OF lo _ free] by blast
  note C = create_end_correct [OF wf ok lo free, where ptos = psp and pbos = pbos and tid = tid and
      sz = stk_size and pext = pext and opt = opt and m = m]
  show ?thesis
  proof (cases fs)
    case Nil
    then show ?thesis using C(1) c by (intro exI [of _ "snd ?r"]) simp
  next
    case (Cons i fs')
    then show ?thesis
      using C(2) [OF Cons, where p = p and c = c] run cs on by (intro exI [of _ "snd ?r"]) (simp add: c prod_eq_iff)
  qed
qed

text \<open>
  What the interrupts taken between the two halves of \<^verbatim>\<open>OSTaskDel\<close> may do: ready tasks and
  anything else that keeps the kernel's tables, but not ready or enlist the task that is being
  deleted (its delay and its status are cleared), and not create or delete tasks.
\<close>

definition del_window :: "nat \<Rightarrow> os_state \<Rightarrow> os_state \<Rightarrow> bool" where
  "del_window p s s' \<longleftrightarrow> os_wf s' \<and> same_place s s' \<and> p \<notin> rdy_set s' \<and> (\<forall>e. p \<notin> wait_set s' e) \<and>
     rdy_set s \<subseteq> rdy_set s' \<and> OSLockNesting s' = OSLockNesting s"


section \<open>A concrete task table\<close>

text \<open>The state of Os_Demo with all links set: four tasks and eight free control blocks.\<close>

definition demo_tcbs :: os_state where
  "demo_tcbs = demo\<lparr>OSTCBTbl := (\<lambda>i. (OSTCBTbl demo i)\<lparr>
     OSTCBNext := if i < 4 then OSTCBNext (OSTCBTbl demo i) else if i < 11 then PTcb (i + 1) else NULL,
     OSTCBPrev := ((\<lambda>_. NULL)(1 := PTcb 3, 0 := PTcb 1, 2 := PTcb 0)) i\<rparr>)\<rparr>"

lemma demo_tcbs_fields [simp]:
  "OSRdy demo_tcbs = OSRdy demo" "OSEventTbl demo_tcbs = OSEventTbl demo"
  "OSTCBPrioTbl demo_tcbs = OSTCBPrioTbl demo" "rdy_set demo_tcbs = {5, 12, 20}"
  "wait_set demo_tcbs e = wait_set demo e" "at_prio demo_tcbs q k = at_prio demo q k"
  "rdy_ok (OSTCBTbl demo_tcbs j) = rdy_ok (OSTCBTbl demo j)"
  "waits_on (OSTCBTbl demo_tcbs j) = waits_on (OSTCBTbl demo j)"
  using rdy_set_demo
  by (simp_all add: demo_tcbs_def rdy_set_def wait_set_def at_prio_def tcb_pos_ok_def rdy_ok_def
      waits_on_def fun_eq_iff split: option.split)

lemma os_wf_demo_tcbs: "os_wf demo_tcbs"
  by (rule os_wf_listed [OF os_wf_demo]) simp_all

lemma running_demo_tcbs: "running demo_tcbs 5 0" "can_sched demo_tcbs" "OSRunning demo_tcbs"
  "idle_last demo_tcbs [3, 1, 0, 2]"
  using running_demo can_sched_demo at_prio_demo
  by (simp_all add: running_def can_sched_def idle_last_def) (simp_all add: demo_tcbs_def, simp add: demo_def)

lemma upt_4_12: "[4..<12] = [4, 5, 6, 7, 8, 9, 10, 11 :: nat]"
  by (simp add: upt_rec)

lemma tcbs_ok_demo_tcbs: "tcbs_ok demo_tcbs [3, 1, 0, 2] [4..<12]"
proof -
  have seg: "tcb_seg (OSTCBTbl demo_tcbs) NULL (OSTCBList demo_tcbs) [3, 1, 0, 2] NULL"
    "tcb_free (OSTCBTbl demo_tcbs) (OSTCBFreeList demo_tcbs) [4..<12]"
    "unat (OSTaskCtr demo_tcbs) = 4"
    by (simp_all add: demo_tcbs_def demo_def demo_tcb_def tcb_zero_def upt_4_12)
  have pt: "j \<in> {3, 1, 0, 2} \<and> at_prio demo p j" if "OSTCBPrioTbl demo p = PTcb j" for p j
  proof -
    have "p \<in> {5, 3, 12, 20}" using that by (auto simp: demo_def split: if_splits)
    then show ?thesis using that at_prio_demo by (auto simp: at_prio_def)
  qed
  have "\<exists>p. at_prio demo p j" if "j \<in> {3, 1, 0, 2}" for j using that at_prio_demo by auto
  moreover have "{3, Suc 0, 0, 2, 4, 5, 6, 7, 8, 9, 10, 11} = {..<12 :: nat}"
    by (auto simp: lessThan_nat_numeral lessThan_Suc numeral_eq_Suc)
  ultimately show ?thesis using seg pt by (simp add: tcbs_ok_def)
qed

definition demo_port :: port where
  "demo_port = \<lparr>reent_size = 1024, REENT_INIT_PTR = \<lambda>p m. m(p := 0), OSStartTsk = 2048\<rparr>"

theorem OSTaskCreateExt_correct_witness:
  "\<exists>s'. OSTaskCreateExt demo_port 4096 0 8192 2 2 4096 1024 NULL 0 demo_tcbs = (OS_ERR_NONE, s') \<and>
     rdy_set s' = {2, 5, 12, 20} \<and> unat (OSPrioCur s') = 2 \<and> OSTCBCur s' = PTcb 4"
proof -
  have "OSTCBPrioTbl demo_tcbs (unat (2 :: u8)) = NULL" by (simp add: demo_def)
  from OSTaskCreateExt_correct [OF os_wf_demo_tcbs tcbs_ok_demo_tcbs _ this running_demo_tcbs(1-3),
      of demo_port 4096 0 8192 2 4096 1024 NULL 0]
  obtain s' where s': "OSTaskCreateExt demo_port 4096 0 8192 2 2 4096 1024 NULL 0 demo_tcbs = (OS_ERR_NONE, s')"
    "task_added 2 4 demo_tcbs s'" "highest_runs s'"
    by (auto simp: upt_4_12)
  have r: "rdy_set s' = {2, 5, 12, 20}" and a: "at_prio s' 2 4"
    using s'(2) by (auto simp: task_added_def)
  then show ?thesis using s'(1,3) at_prio_tbl [OF a] by (auto simp: highest_runs_def at_prio_def)
qed


end
