(* ===== verification/Os_Init.thy ===== *)
theory Os_Init
  imports Os_Tcbs Os_Q Os_Mem
begin

text \<open>
  os_core.c: the start of the kernel (\<^verbatim>\<open>OSInit\<close> and the initialisation of every table) and its two
  own tasks, the idle task and the statistics task.  The addresses that the linker gives the task
  functions and the stacks are parameters (\<open>kernel_image\<close>).
\<close>

section \<open>Initialisation\<close>

record kernel_image =
  OS_TaskIdle_addr :: u32
  OS_TaskStat_addr :: u32
  OSTaskIdleStk :: u32
  OSTaskStatStk :: u32

abbreviation (input) OS_TASK_IDLE_STK_SIZE :: u32 where "OS_TASK_IDLE_STK_SIZE \<equiv> 512"
abbreviation (input) OS_TASK_STAT_STK_SIZE :: u32 where "OS_TASK_STAT_STK_SIZE \<equiv> 512"
abbreviation (input) OS_TASK_IDLE_ID :: u16 where "OS_TASK_IDLE_ID \<equiv> 65535"
abbreviation (input) OS_TASK_STAT_ID :: u16 where "OS_TASK_STAT_ID \<equiv> 65534"

definition OS_InitMisc :: "os_state \<Rightarrow> os_state" where
  "OS_InitMisc s = s\<lparr>OSTime := 0, OSIntNesting := 0, OSLockNesting := 0, OSTaskCtr := 0,
     OSRunning := False, OSCtxSwCtr := 0, OSIdleCtr := 0, OSIdleCtrRun := 0, OSIdleCtrMax := 0,
     OSStatRdy := False\<rparr>"

definition OS_InitRdyList :: "os_state \<Rightarrow> os_state" where
  "OS_InitRdyList s = s\<lparr>OSRdy := bm_init, OSPrioCur := 0, OSPrioHighRdy := 0,
     OSTCBHighRdy := NULL, OSTCBCur := NULL\<rparr>"

text \<open>
  The loops that chain a table: \<open>tcb_link n i\<close> links element \<open>i\<close> and the \<open>n\<close> after it, the last one to
  \<^verbatim>\<open>NULL\<close>.
\<close>

fun tcb_link :: "nat \<Rightarrow> nat \<Rightarrow> (nat \<Rightarrow> OS_TCB) \<Rightarrow> nat \<Rightarrow> OS_TCB" where
  "tcb_link 0 i tbl = tbl(i := (tbl i)\<lparr>OSTCBNext := NULL, OSTCBTaskName := name_unknown (OSTCBTaskName (tbl i))\<rparr>)"
| "tcb_link (Suc n) i tbl = tcb_link n (i + 1)
     (tbl(i := (tbl i)\<lparr>OSTCBNext := PTcb (i + 1), OSTCBTaskName := name_unknown (OSTCBTaskName (tbl i))\<rparr>))"

definition OS_InitTCBList :: "os_state \<Rightarrow> os_state" where
  "OS_InitTCBList s = s\<lparr>
     OSTCBTbl := tcb_link (OS_MAX_TASKS + OS_N_SYS_TASKS - 1) 0
       (\<lambda>i. if i < OS_MAX_TASKS + OS_N_SYS_TASKS then tcb_zero else OSTCBTbl s i),
     OSTCBPrioTbl := (\<lambda>p. if p \<le> unat OS_LOWEST_PRIO then NULL else OSTCBPrioTbl s p),
     OSTCBList := NULL, OSTCBFreeList := PTcb 0\<rparr>"

fun event_link :: "nat \<Rightarrow> nat \<Rightarrow> (nat \<Rightarrow> OS_EVENT) \<Rightarrow> nat \<Rightarrow> OS_EVENT" where
  "event_link 0 i tbl = tbl(i := (tbl i)\<lparr>OSEventType := OS_EVENT_TYPE_UNUSED, OSEventPtr := NULL,
     OSEventName := name_unknown (OSEventName (tbl i))\<rparr>)"
| "event_link (Suc n) i tbl = event_link n (i + 1)
     (tbl(i := (tbl i)\<lparr>OSEventType := OS_EVENT_TYPE_UNUSED, OSEventPtr := PEvent (i + 1),
        OSEventName := name_unknown (OSEventName (tbl i))\<rparr>))"

definition OS_InitEventList :: "os_state \<Rightarrow> os_state" where
  "OS_InitEventList s = s\<lparr>OSEventTbl := event_link (OS_MAX_EVENTS - 1) 0
     (\<lambda>e. if e < OS_MAX_EVENTS then event_zero else OSEventTbl s e), OSEventFreeList := PEvent 0\<rparr>"

text \<open>The two names as C strings.\<close>

definition c_str :: "string \<Rightarrow> u8 list" where
  "c_str xs = map of_char xs @ [0]"

text \<open>\<open>None\<close> would be a name outside its array.\<close>

definition OS_InitTaskIdle :: "port \<Rightarrow> kernel_image \<Rightarrow> os_state \<Rightarrow> os_state option" where
  "OS_InitTaskIdle prt img s =
     (let (err, s1) = OSTaskCreateExt prt (OS_TaskIdle_addr img) 0
            (OSTaskIdleStk img + 4 * (OS_TASK_IDLE_STK_SIZE - 1)) OS_TASK_IDLE_PRIO OS_TASK_IDLE_ID
            (OSTaskIdleStk img) OS_TASK_IDLE_STK_SIZE NULL (OS_TASK_OPT_STK_CHK OR OS_TASK_OPT_STK_CLR) s
      in map_option snd (OSTaskNameSet OS_TASK_IDLE_PRIO (Some (c_str ''uC/OS-II Idle'')) True s1))"

definition OS_InitTaskStat :: "port \<Rightarrow> kernel_image \<Rightarrow> os_state \<Rightarrow> os_state option" where
  "OS_InitTaskStat prt img s =
     (let (err, s1) = OSTaskCreateExt prt (OS_TaskStat_addr img) 0
            (OSTaskStatStk img + 4 * (OS_TASK_STAT_STK_SIZE - 1)) OS_TASK_STAT_PRIO OS_TASK_STAT_ID
            (OSTaskStatStk img) OS_TASK_STAT_STK_SIZE NULL (OS_TASK_OPT_STK_CHK OR OS_TASK_OPT_STK_CLR) s
      in map_option snd (OSTaskNameSet OS_TASK_STAT_PRIO (Some (c_str ''uC/OS-II Stat'')) True s1))"

definition init_tables :: "os_state \<Rightarrow> os_state" where
  "init_tables s =
     (let s1 = OS_InitMisc s;
          s2 = OS_InitRdyList s1;
          s3 = OS_InitTCBList s2;
          s4 = OS_InitEventList s3;
          s5 = OS_FlagInit s4;
          s6 = OS_MemInit s5
      in OS_QInit s6)"

definition OSInit :: "port \<Rightarrow> kernel_image \<Rightarrow> os_state \<Rightarrow> os_state option" where
  "OSInit prt img s =
     (case OS_InitTaskIdle prt img (init_tables s) of
        None \<Rightarrow> None
      | Some s1 \<Rightarrow> OS_InitTaskStat prt img s1)"

section \<open>The kernel's own tasks\<close>

text \<open>One round of the idle task.\<close>

definition OS_TaskIdle :: "os_state \<Rightarrow> os_state" where
  "OS_TaskIdle s = s\<lparr>OSIdleCtr := OSIdleCtr s + 1\<rparr>"

text \<open>
  \<open>others\<close> is what the other tasks and the interrupts do while the caller is delayed or suspended.
\<close>

definition OSStatInit :: "(os_state \<Rightarrow> os_state) \<Rightarrow> os_state \<Rightarrow> os_state" where
  "OSStatInit others s =
     (let s1 = others (OSTimeDly 2 s);
          s2 = s1\<lparr>OSIdleCtr := 0\<rparr>;
          s3 = others (OSTimeDly (ucast (OS_TICKS_PER_SEC div 10)) s2)
      in s3\<lparr>OSIdleCtrMax := OSIdleCtr s3, OSStatRdy := True\<rparr>)"

text \<open>The walk of the stack checker over the priorities; \<open>None\<close> when a stack has no non-zero word.\<close>

fun stat_stk_chk :: "nat list \<Rightarrow> os_state \<Rightarrow> os_state option" where
  "stat_stk_chk [] s = Some s"
| "stat_stk_chk (prio # prios) s =
     (case OSTaskStkChk (of_nat prio) True s of
        None \<Rightarrow> None
      | Some (err, stk_data) \<Rightarrow>
          let ptcb = OSTCBPrioTbl s prio
          in stat_stk_chk prios
               (if err = OS_ERR_NONE \<and> ptcb \<noteq> NULL \<and> ptcb \<noteq> OS_TCB_RESERVED then
                  upd_tcb (tcb_of ptcb) (\<lambda>t. t\<lparr>OSTCBStkBase := OSTCBStkBottom t + 4 * OSTCBStkSize t,
                    OSTCBStkUsed := (case stk_data of None \<Rightarrow> 0 | Some (free, used) \<Rightarrow> used)\<rparr>) s
                else s))"

definition OS_TaskStatStkChk :: "os_state \<Rightarrow> os_state option" where
  "OS_TaskStatStkChk s = stat_stk_chk [0..<unat OS_TASK_IDLE_PRIO + 1] s"

text \<open>The wait for \<^verbatim>\<open>OSStatInit\<close> at the start of the statistics task.\<close>

partial_function (option) stat_wait :: "(os_state \<Rightarrow> os_state) \<Rightarrow> os_state \<Rightarrow> os_state option" where
  "stat_wait others s =
     (if \<not> OSStatRdy s
      then stat_wait others (others (OSTimeDly (ucast (2 * OS_TICKS_PER_SEC div 10)) s))
      else Some s)"

definition OS_TaskStat_start :: "(os_state \<Rightarrow> os_state) \<Rightarrow> os_state \<Rightarrow> os_state option" where
  "OS_TaskStat_start others s =
     (case stat_wait others s of
        None \<Rightarrow> None
      | Some s1 \<Rightarrow>
          let s2 = s1\<lparr>OSIdleCtrMax := OSIdleCtrMax s1 div 100\<rparr>
          in Some (if OSIdleCtrMax s2 = 0
                   then others (snd (OSTaskSuspend OS_PRIO_SELF (s2\<lparr>OSCPUUsage := 0\<rparr>)))
                   else s2))"

text \<open>One round of its loop; the division by an \<^verbatim>\<open>OSIdleCtrMax\<close> of 0 is undefined.\<close>

definition OS_TaskStat :: "(os_state \<Rightarrow> os_state) \<Rightarrow> os_state \<Rightarrow> os_state option" where
  "OS_TaskStat others s =
     (let s1 = s\<lparr>OSIdleCtrRun := OSIdleCtr s, OSIdleCtr := 0\<rparr>
      in if OSIdleCtrMax s1 = 0 then None
         else
           case OS_TaskStatStkChk
                  (s1\<lparr>OSCPUUsage := ucast (100 - OSIdleCtrRun s1 div OSIdleCtrMax s1)\<rparr>) of
             None \<Rightarrow> None
           | Some s2 \<Rightarrow> Some (others (OSTimeDly (ucast (OS_TICKS_PER_SEC div 10)) s2)))"

section \<open>The tables after initialisation\<close>

text \<open>
  The elements outside the tables, which exist in the model only, are no events: no bit of a wait list
  there is set.
\<close>

definition tables_only :: "os_state \<Rightarrow> bool" where
  "tables_only s \<longleftrightarrow> (\<forall>e \<ge> OS_MAX_EVENTS. OSEventWait (OSEventTbl s e) = bm_init \<and>
     OSEventType (OSEventTbl s e) = OS_EVENT_TYPE_UNUSED)"

lemma tcb_link_at:
  "tcb_link n i tbl j =
     (if i \<le> j \<and> j \<le> i + n then (tbl j)\<lparr>OSTCBNext := if j = i + n then NULL else PTcb (j + 1),
        OSTCBTaskName := name_unknown (OSTCBTaskName (tbl j))\<rparr> else tbl j)"
  by (induction n arbitrary: i tbl) auto

lemma event_link_at:
  "event_link n i tbl j =
     (if i \<le> j \<and> j \<le> i + n then (tbl j)\<lparr>OSEventType := OS_EVENT_TYPE_UNUSED,
        OSEventPtr := if j = i + n then NULL else PEvent (j + 1),
        OSEventName := name_unknown (OSEventName (tbl j))\<rparr> else tbl j)"
  by (induction n arbitrary: i tbl) auto

lemma tcb_free_link:
  assumes "\<And>j. i \<le> j \<Longrightarrow> j < i + n \<Longrightarrow> OSTCBNext (tbl j) = PTcb (j + 1)" "OSTCBNext (tbl (i + n)) = NULL"
  shows "tcb_free tbl (PTcb i) [i..<i + n + 1]"
  using assms
proof (induction n arbitrary: i)
  case (Suc n)
  have "tcb_free tbl (PTcb (i + 1)) [i + 1..<i + 1 + n + 1]"
    by (rule Suc.IH) (use Suc.prems in auto)
  then show ?case using Suc.prems(1) [of i] by (simp add: upt_rec)
qed simp

lemma ev_chain_link:
  assumes "\<And>j. i \<le> j \<Longrightarrow> j < i + n \<Longrightarrow> OSEventPtr (tbl j) = PEvent (j + 1)" "OSEventPtr (tbl (i + n)) = NULL"
    and "\<And>j. i \<le> j \<Longrightarrow> j \<le> i + n \<Longrightarrow> OSEventType (tbl j) = OS_EVENT_TYPE_UNUSED"
  shows "ev_chain tbl (PEvent i) [i..<i + n + 1]"
  using assms
proof (induction n arbitrary: i)
  case (Suc n)
  have "ev_chain tbl (PEvent (i + 1)) [i + 1..<i + 1 + n + 1]"
    by (rule Suc.IH) (use Suc.prems in auto)
  then show ?case using Suc.prems(1) [of i] Suc.prems(3) [of i] by (simp add: upt_rec)
qed simp

lemma init_tables_fields [simp]:
  "OSRdy (init_tables s) = bm_init" "OSTCBList (init_tables s) = NULL"
  "OSTCBFreeList (init_tables s) = PTcb 0" "OSTaskCtr (init_tables s) = 0"
  "OSRunning (init_tables s) = False" "OSIntNesting (init_tables s) = 0"
  "OSLockNesting (init_tables s) = 0" "OSEventFreeList (init_tables s) = PEvent 0"
  "OSQFreeList (init_tables s) = PQ 0"
  "OSTickStepState (init_tables s) = OSTickStepState s"
  "OSTCBPrioTbl (init_tables s) = (\<lambda>p. if p \<le> 20 then NULL else OSTCBPrioTbl s p)"
  by (simp_all add: init_tables_def Let_def OS_InitMisc_def OS_InitRdyList_def OS_InitTCBList_def
      OS_InitEventList_def OS_FlagInit_def OS_MemInit_def OS_QInit_def cong: if_cong)

lemma init_tables_tcb:
  "OSTCBTbl (init_tables s) j = (if j \<le> 11 then tcb_zero\<lparr>OSTCBNext := if j = 11 then NULL else PTcb (j + 1),
     OSTCBTaskName := name_unknown (OSTCBTaskName tcb_zero)\<rparr> else OSTCBTbl s j)"
  by (simp add: init_tables_def Let_def OS_InitMisc_def OS_InitRdyList_def OS_InitTCBList_def
      OS_InitEventList_def OS_FlagInit_def OS_MemInit_def OS_QInit_def tcb_link_at cong: if_cong)

lemma init_tables_event:
  "OSEventTbl (init_tables s) e = (if e \<le> 59 then event_zero\<lparr>OSEventType := OS_EVENT_TYPE_UNUSED,
     OSEventPtr := if e = 59 then NULL else PEvent (e + 1),
     OSEventName := name_unknown (OSEventName event_zero)\<rparr> else OSEventTbl s e)"
  by (simp add: init_tables_def Let_def OS_InitMisc_def OS_InitRdyList_def OS_InitTCBList_def
      OS_InitEventList_def OS_FlagInit_def OS_MemInit_def OS_QInit_def event_link_at cong: if_cong)

lemma init_tables_sets:
  assumes "tables_only s"
  shows "os_wf (init_tables s)" "rdy_set (init_tables s) = {}" "wait_set (init_tables s) e = {}"
proof -
  have w: "wait_of (init_tables s) e = bm_init" for e
    using assms by (simp add: init_tables_event tables_only_def event_zero_def)
  show r: "rdy_set (init_tables s) = {}" "wait_set (init_tables s) e = {}" for e
    by (simp_all add: rdy_set_def wait_set_def w bm_elems_init)
  show "os_wf (init_tables s)"
    by (rule os_wfI) (simp_all add: w r bm_wf_init)
qed

lemma init_tables_tcbs: "tcbs_ok (init_tables s) [] [0..<12]"
proof -
  have "tcb_free (OSTCBTbl (init_tables s)) (PTcb 0) [0..<0 + 11 + 1]"
    by (rule tcb_free_link) (simp_all add: init_tables_tcb)
  then show ?thesis by (simp add: tcbs_ok_def atLeast0LessThan)
qed

lemma init_tables_events:
  assumes "tables_only s"
  shows "free_events (init_tables s) [0..<60]"
proof -
  have "ev_chain (OSEventTbl (init_tables s)) (PEvent 0) [0..<0 + 59 + 1]"
    by (rule ev_chain_link) (simp_all add: init_tables_event)
  then show ?thesis using init_tables_sets(3) [OF assms] by (simp add: free_events_def)
qed

section \<open>Creating a task before the kernel runs\<close>

text \<open>What the creation of a task has no business with.\<close>

definition boot_frame :: "os_state \<Rightarrow> os_state \<Rightarrow> bool" where
  "boot_frame s s' \<longleftrightarrow> OSEventTbl s' = OSEventTbl s \<and> OSEventFreeList s' = OSEventFreeList s \<and>
     OSQFreeList s' = OSQFreeList s \<and> OSQTbl s' = OSQTbl s \<and> OSQStore s' = OSQStore s \<and>
     OSIntNesting s' = OSIntNesting s \<and> OSLockNesting s' = OSLockNesting s \<and>
     OSRunning s' = OSRunning s \<and> OSTickStepState s' = OSTickStepState s \<and>
     (\<forall>k. OSTCBEventMultiPtr (OSTCBTbl s k) = None \<longrightarrow> OSTCBEventMultiPtr (OSTCBTbl s' k) = None) \<and>
     (\<forall>k. length (OSTCBTaskName (OSTCBTbl s' k)) = length (OSTCBTaskName (OSTCBTbl s k)))"

lemma boot_frame_refl [simp]: "boot_frame s s"
  by (simp add: boot_frame_def)

lemma boot_frame_trans: "boot_frame s t \<Longrightarrow> boot_frame t u \<Longrightarrow> boot_frame s u"
  by (simp add: boot_frame_def)

lemma length_name_unknown [simp]: "length (name_unknown nm) = length nm"
  by (simp add: name_unknown_def)

lemma boot_frame_updates [simp]:
  "boot_frame s (set_prio_tbl p t u) = boot_frame s u" "boot_frame s (u\<lparr>OSStkMem := m\<rparr>) = boot_frame s u"
  "boot_frame s (u\<lparr>OSTCBFreeList := f\<rparr>) = boot_frame s u" "boot_frame s (u\<lparr>OSTCBList := l\<rparr>) = boot_frame s u"
  "boot_frame s (rdy_insert i y u) = boot_frame s u" "boot_frame s (u\<lparr>OSTaskCtr := c\<rparr>) = boot_frame s u"
  by (simp_all add: boot_frame_def set_prio_tbl_def rdy_insert_def Let_def)

lemma boot_frame_upd_tcb:
  "(\<And>t. length (OSTCBTaskName (f t)) = length (OSTCBTaskName t)) \<Longrightarrow>
     (\<And>t. OSTCBEventMultiPtr t = None \<Longrightarrow> OSTCBEventMultiPtr (f t) = None) \<Longrightarrow> boot_frame s u \<Longrightarrow>
     boot_frame s (upd_tcb i f u)"
  by (simp add: boot_frame_def upd_tcb_def)

lemma CreateExt_boot_frame:
  assumes "\<not> OSRunning s" "prio \<le> OS_LOWEST_PRIO" "OSIntNesting s = 0" "OSTCBPrioTbl s (unat prio) = NULL"
  shows "boot_frame s (snd (OSTaskCreateExt prt task p_arg ptos prio tid pbos stk_size pext opt s))"
proof -
  obtain psp m where c: "OSTaskCreateExt prt task p_arg ptos prio tid pbos stk_size pext opt s =
      create_end prio (OS_TCBInit prio psp pbos tid stk_size pext opt
        ((set_prio_tbl prio OS_TCB_RESERVED s)\<lparr>OSStkMem := m\<rparr>))" (is "_ = create_end prio (OS_TCBInit _ _ _ _ _ _ _ ?s)")
    using OSTaskCreateExt_eq [OF assms(2-4)] by blast
  have i: "boot_frame s (snd (OS_TCBInit prio psp pbos tid stk_size pext opt ?s))"
    by (auto simp: OS_TCBInit_def Let_def tcb_init_def intro!: boot_frame_upd_tcb)
  then have "\<not> OSRunning (snd (OS_TCBInit prio psp pbos tid stk_size pext opt ?s))"
    using assms(1) by (simp add: boot_frame_def)
  with i show ?thesis by (simp add: c create_end_def split_beta)
qed

text \<open>A name that fits its array is stored.\<close>

lemma OSTaskNameSet_ok:
  assumes a: "at_prio s (unat prio) i" and p: "prio \<le> OS_LOWEST_PRIO" and nest: "OSIntNesting s = 0"
    and nm: "length xs \<le> 31" "\<forall>c \<in> set xs. of_char c \<noteq> (0 :: u8)"
    and len: "length (OSTCBTaskName (OSTCBTbl s i)) = 32"
  obtains f where "OSTaskNameSet prio (Some (c_str xs)) True s = Some (Some OS_ERR_NONE, upd_tcb i f s)"
    "\<And>t. f t = t\<lparr>OSTCBTaskName := OSTCBTaskName (f t)\<rparr>" "\<And>t. length (OSTCBTaskName (f t)) = 32"
proof -
  let ?b = "map of_char xs :: u8 list"
  have cs: "c_string ?b (c_str xs)" using nm(2) by (force simp: c_string_def c_str_def)
  have p255: "prio \<noteq> OS_PRIO_SELF" "\<not> prio > OS_LOWEST_PRIO" using p by auto
  have "\<not> (of_nat (length xs) :: u8) > of_nat 31"
    using nm(1) by (simp add: word_less_nat_alt unat_of_nat)
  then have sn: "set_name OS_TASK_NAME_SIZE (c_str xs) (OSTCBTaskName (OSTCBTbl s i)) =
      Some (True, ?b @ 0 # drop (Suc (length xs)) (OSTCBTaskName (OSTCBTbl s i)))"
    using OS_StrLen_string [OF cs] OS_StrCopy_string [OF cs, of "OSTCBTaskName (OSTCBTbl s i)"] nm(1) len
    by (simp add: set_name_def)
  show thesis
  proof (rule that)
    show "OSTaskNameSet prio (Some (c_str xs)) True s = Some (Some OS_ERR_NONE, upd_tcb i
        (\<lambda>t. t\<lparr>OSTCBTaskName := ?b @ 0 # drop (Suc (length xs)) (OSTCBTaskName (OSTCBTbl s i))\<rparr>) s)"
      using p255 nest sn at_prio_tbl [OF a] by (simp add: OSTaskNameSet_def task_of_prio_def Let_def)
  qed (use nm(1) len in simp_all)
qed

lemma boot_task:
  assumes wf: "os_wf s" and ok: "tcbs_ok s js (i # fs)" and lo: "prio \<le> OS_LOWEST_PRIO"
    and free: "OSTCBPrioTbl s (unat prio) = NULL" and off: "\<not> OSRunning s" and nest: "OSIntNesting s = 0"
  shows "\<exists>s'. OSTaskCreateExt prt task p_arg ptos prio tid pbos stk_size pext opt s = (OS_ERR_NONE, s') \<and>
    os_wf s' \<and> tcbs_ok s' (i # js) fs \<and> task_added (unat prio) i s s' \<and> boot_frame s s'"
proof -
  obtain psp m where c: "OSTaskCreateExt prt task p_arg ptos prio tid pbos stk_size pext opt s =
      create_end prio (OS_TCBInit prio psp pbos tid stk_size pext opt
        ((set_prio_tbl prio OS_TCB_RESERVED s)\<lparr>OSStkMem := m\<rparr>))"
    using OSTaskCreateExt_eq [OF lo nest free] by blast
  show ?thesis
    using create_end_correct(2) [OF wf ok lo free refl, of psp pbos tid stk_size pext opt m]
      CreateExt_boot_frame [OF off lo nest free, of prt task p_arg ptos tid pbos stk_size pext opt]
    by (intro exI [of _ "snd (OSTaskCreateExt prt task p_arg ptos prio tid pbos stk_size pext opt s)"])
      (auto simp: c prod_eq_iff)
qed

lemma boot_named_task:
  assumes wf: "os_wf s" and ok: "tcbs_ok s js (i # fs)" and lo: "prio \<le> OS_LOWEST_PRIO"
    and free: "OSTCBPrioTbl s (unat prio) = NULL" and off: "\<not> OSRunning s" and nest: "OSIntNesting s = 0"
    and len: "length (OSTCBTaskName (OSTCBTbl s i)) = 32"
    and nm: "length xs \<le> 31" "\<forall>c \<in> set xs. of_char c \<noteq> (0 :: u8)"
  shows "\<exists>s'. (let (err, s1) = OSTaskCreateExt prt task p_arg ptos prio tid pbos stk_size pext opt s
      in map_option snd (OSTaskNameSet prio (Some (c_str xs)) True s1)) = Some s' \<and>
    os_wf s' \<and> tcbs_ok s' (i # js) fs \<and> task_added (unat prio) i s s' \<and> boot_frame s s'"
proof -
  obtain s1 where s1: "OSTaskCreateExt prt task p_arg ptos prio tid pbos stk_size pext opt s = (OS_ERR_NONE, s1)"
    "os_wf s1" "tcbs_ok s1 (i # js) fs" "task_added (unat prio) i s s1" "boot_frame s s1"
    using boot_task [OF wf ok lo free off nest] by blast
  have a: "at_prio s1 (unat prio) i" using s1(4) by (simp add: task_added_def)
  have n: "OSIntNesting s1 = 0" "length (OSTCBTaskName (OSTCBTbl s1 i)) = 32"
    using s1(5) nest len by (simp_all add: boot_frame_def)
  obtain f where f: "OSTaskNameSet prio (Some (c_str xs)) True s1 = Some (Some OS_ERR_NONE, upd_tcb i f s1)"
    "\<And>t. f t = t\<lparr>OSTCBTaskName := OSTCBTaskName (f t)\<rparr>" "\<And>t. length (OSTCBTaskName (f t)) = 32"
    using OSTaskNameSet_ok [OF a lo n(1) nm n(2)] by blast
  have same: "OSTCBPrio (f t) = OSTCBPrio t" "tcb_pos_ok (f t) = tcb_pos_ok t" "rdy_ok (f t) = rdy_ok t"
    "waits_on (f t) = waits_on t" "OSTCBPrev (f t) = OSTCBPrev t" "OSTCBEventMultiPtr (f t) = OSTCBEventMultiPtr t"
    "OSTCBNext (f t) = OSTCBNext t" for t
    by (subst f(2), simp add: tcb_pos_ok_def rdy_ok_def waits_on_def fun_eq_iff split: option.split)+
  have ap: "at_prio (upd_tcb i f s1) q k = at_prio s1 q k" for q k
    by (auto simp: at_prio_def same)
  have "os_wf (upd_tcb i f s1)"
    by (rule os_wf_listed [OF s1(2)]) (simp_all add: ap same)
  moreover have "tcbs_ok (upd_tcb i f s1) (i # js) fs"
    by (rule tcbs_ok_cong [OF s1(3)]) (simp_all add: ap same)
  moreover have "task_added (unat prio) i s (upd_tcb i f s1)"
    using s1(4) by (simp add: task_added_def ap)
  moreover have "boot_frame s (upd_tcb i f s1)"
    using s1(5) n(2) f(3) same(6) by (simp add: boot_frame_def upd_tcb_def)
  ultimately show ?thesis using s1(1) f(1) by auto
qed

section \<open>The state the kernel starts in\<close>

text \<open>
  After initialisation and before the scheduler is started: the tasks \<open>js\<close> exist, exactly the
  priorities \<open>P\<close> are ready, nobody waits for one or several events, and the event control blocks \<open>es\<close>
  are free.
\<close>

definition booted :: "os_state \<Rightarrow> nat list \<Rightarrow> nat list \<Rightarrow> nat set \<Rightarrow> nat list \<Rightarrow> bool" where
  "booted s js fs P es \<longleftrightarrow> os_wf s \<and> tcbs_ok s js fs \<and> idle_last s js \<and> rdy_set s = P \<and>
     (\<forall>e. wait_set s e = {}) \<and> free_events s es \<and> \<not> OSRunning s \<and> can_sched s \<and>
     (\<forall>k < 12. OSTCBEventMultiPtr (OSTCBTbl s k) = None) \<and>
     (\<forall>e \<ge> 60. OSEventType (OSEventTbl s e) = OS_EVENT_TYPE_UNUSED) \<and>
     (\<forall>p \<le> 20. OSTCBPrioTbl s p = NULL \<or> (\<exists>i. at_prio s p i))"

text \<open>Creating a task in such a state.\<close>

lemma booted_task:
  fixes prio :: u8
  assumes b: "booted s js (i # fs) P es" and lo: "prio \<le> OS_LOWEST_PRIO"
    and free: "OSTCBPrioTbl s (unat prio) = NULL"
  shows "\<exists>s'. OSTaskCreateExt prt task p_arg ptos prio tid pbos stk_size pext opt s = (OS_ERR_NONE, s') \<and>
    booted s' (i # js) fs (insert (unat prio) P) es \<and> at_prio s' (unat prio) i \<and>
    OSTCBPrioTbl s' = (OSTCBPrioTbl s)(unat prio := PTcb i) \<and> boot_frame s s' \<and>
    (\<forall>q k. at_prio s q k \<longrightarrow> at_prio s' q k)"
proof -
  note B = b [unfolded booted_def]
  have b0: "os_wf s" "tcbs_ok s js (i # fs)" "\<not> OSRunning s" "OSIntNesting s = 0"
    using B by (simp_all add: can_sched_def)
  obtain s' where s': "OSTaskCreateExt prt task p_arg ptos prio tid pbos stk_size pext opt s = (OS_ERR_NONE, s')"
    "os_wf s'" "tcbs_ok s' (i # js) fs" "task_added (unat prio) i s s'" "boot_frame s s'"
    using boot_task [OF b0(1,2) lo free b0(3,4)] by blast
  have "js \<noteq> []" "last js \<noteq> i" "at_prio s 20 (last js)"
    using B tcbs_okD(5) [of s js "i # fs"] by (auto simp: idle_last_def dest: last_in_set)
  then have "idle_last s' (i # js)" using s'(4) by (simp add: idle_last_def task_added_def)
  note last = this
  have new: "k \<noteq> i" if "at_prio s q k" for q k
    using that B tcbs_ok_listed [of s js "i # fs" q k] tcbs_okD(5) [of s js "i # fs"] by auto
  have keep: "at_prio s' q k" if "at_prio s q k" for q k
    using that new [OF that] s'(4) by (simp add: task_added_def)
  have tab: "OSTCBPrioTbl s' p = NULL \<or> (\<exists>k. at_prio s' p k)" if "p \<le> 20" for p
  proof (cases "p = unat prio")
    case True
    then show ?thesis using s'(4) by (auto simp: task_added_def)
  next
    case False
    then have "OSTCBPrioTbl s' p = OSTCBPrioTbl s p" using s'(4) by (simp add: task_added_def)
    moreover have "OSTCBPrioTbl s p = NULL \<or> (\<exists>k. at_prio s p k)" using B that by blast
    ultimately show ?thesis using keep by metis
  qed
  have "booted s' (i # js) fs (insert (unat prio) P) es"
    using s' B last tab by (auto simp: booted_def task_added_def boot_frame_def free_events_def can_sched_def)
  moreover note keep
  moreover have "at_prio s' (unat prio) i \<and> OSTCBPrioTbl s' = (OSTCBPrioTbl s)(unat prio := PTcb i)"
    using s'(4) by (simp add: task_added_def)
  ultimately show ?thesis using s'(1,5) by blast
qed

lemma OSInit_boots:
  assumes "tables_only s"
  shows "\<exists>s'. OSInit prt img s = Some s' \<and> booted s' [1, 0] [2..<12] {19, 20} [0..<60] \<and>
    at_prio s' 20 0 \<and> at_prio s' 19 1 \<and> (\<forall>p < 19. OSTCBPrioTbl s' p = NULL) \<and> OSQFreeList s' = PQ 0 \<and>
    OSTickStepState s' = OSTickStepState s \<and>
    (\<forall>k < 12. length (OSTCBTaskName (OSTCBTbl s' k)) = OS_TASK_NAME_SIZE) \<and>
    (\<forall>e < 60. length (OSEventName (OSEventTbl s' e)) = OS_EVENT_NAME_SIZE)"
proof -
  let ?u = "init_tables s"
  have up: "[0..<12] = 0 # 1 # [2..<12 :: nat]" by (simp add: upt_rec)
  have "\<exists>s1. OS_InitTaskIdle prt img ?u = Some s1 \<and> os_wf s1 \<and> tcbs_ok s1 [0] (1 # [2..<12]) \<and>
      task_added (unat (20 :: u8)) 0 ?u s1 \<and> boot_frame ?u s1"
    unfolding OS_InitTaskIdle_def
    by (rule boot_named_task [OF init_tables_sets(1) [OF assms] init_tables_tcbs [unfolded up]])
      (simp_all add: init_tables_tcb tcb_zero_def)
  then obtain s1 where s1: "OS_InitTaskIdle prt img ?u = Some s1" "os_wf s1" "tcbs_ok s1 [0] (1 # [2..<12])"
    "task_added 20 0 ?u s1" "boot_frame ?u s1" by auto
  have "\<exists>s2. OS_InitTaskStat prt img s1 = Some s2 \<and> os_wf s2 \<and> tcbs_ok s2 [1, 0] [2..<12] \<and>
      task_added (unat (19 :: u8)) 1 s1 s2 \<and> boot_frame s1 s2"
    unfolding OS_InitTaskStat_def
    by (rule boot_named_task [OF s1(2,3)])
      (use s1(4,5) in \<open>simp_all add: task_added_def boot_frame_def init_tables_tcb tcb_zero_def\<close>)
  then obtain s2 where s2: "OS_InitTaskStat prt img s1 = Some s2" "os_wf s2" "tcbs_ok s2 [1, 0] [2..<12]"
    "task_added 19 1 s1 s2" "boot_frame s1 s2" by auto
  have bf: "boot_frame ?u s2" by (rule boot_frame_trans [OF s1(5) s2(5)])
  have r: "rdy_set s2 = {19, 20}" and w: "wait_set s2 e = {}" for e
    using s1(4) s2(4) init_tables_sets [OF assms] by (simp_all add: task_added_def)
  have a: "at_prio s2 20 0" "at_prio s2 19 1" using s1(4) s2(4) by (simp_all add: task_added_def)
  have "free_events s2 [0..<60]"
    using init_tables_events [OF assms] bf w by (simp add: free_events_def boot_frame_def)
  moreover have "\<forall>k < 12. OSTCBEventMultiPtr (OSTCBTbl s2 k) = None"
    "\<forall>e \<ge> 60. OSEventType (OSEventTbl s2 e) = OS_EVENT_TYPE_UNUSED"
    using bf assms by (simp_all add: boot_frame_def init_tables_tcb init_tables_event tcb_zero_def tables_only_def)
  moreover have "OSTCBPrioTbl s2 p = NULL \<or> (\<exists>i. at_prio s2 p i)" if "p \<le> 20" for p
    using that s1(4) s2(4) a by (cases "p = 19 \<or> p = 20") (auto simp: task_added_def)
  ultimately have "booted s2 [1, 0] [2..<12] {19, 20} [0..<60]"
    using s2(2,3) r w a bf by (simp add: booted_def idle_last_def can_sched_def boot_frame_def)
  moreover have "\<forall>p < 19. OSTCBPrioTbl s2 p = NULL"
    using s1(4) s2(4) by (simp add: task_added_def)
  moreover have "OSQFreeList s2 = PQ 0" "OSTickStepState s2 = OSTickStepState s"
    using bf by (simp_all add: boot_frame_def)
  moreover have "\<forall>k < 12. length (OSTCBTaskName (OSTCBTbl s2 k)) = OS_TASK_NAME_SIZE"
    "\<forall>e < 60. length (OSEventName (OSEventTbl s2 e)) = OS_EVENT_NAME_SIZE"
    using bf by (simp_all add: boot_frame_def init_tables_tcb init_tables_event tcb_zero_def event_zero_def)
  ultimately show ?thesis using s1(1) s2(1) a by (auto simp: OSInit_def)
qed

text \<open>Writing an event control block on which nobody waits.\<close>

lemma booted_event:
  assumes b: "booted s js fs P es" and fr: "free_events s' es'"
    and ev: "OSEventTbl s' = (OSEventTbl s)(e := ev)" "bm_elems (OSEventWait ev) = {}"
      "bm_wf (OSEventWait ev)" "e < 60"
    and same: "OSRdy s' = OSRdy s" "OSTCBTbl s' = OSTCBTbl s" "OSTCBPrioTbl s' = OSTCBPrioTbl s"
      "OSTCBList s' = OSTCBList s" "OSTCBFreeList s' = OSTCBFreeList s" "OSTaskCtr s' = OSTaskCtr s"
      "OSRunning s' = OSRunning s" "OSIntNesting s' = OSIntNesting s" "OSLockNesting s' = OSLockNesting s"
  shows "booted s' js fs P es'"
proof -
  note B = b [unfolded booted_def]
  have sets: "rdy_set s' = P" "wait_set s' e' = {}" for e'
    using B ev(2) by (auto simp: rdy_set_def wait_set_def same(1) ev(1))
  have ap: "at_prio s' p k = at_prio s p k" for p k by (simp add: same at_prio_def)
  have "os_wf s'"
  proof (rule os_wfI)
    show "bm_wf (OSRdy s')" "bm_wf (wait_of s' e')" for e'
      using B os_wf_bm [of s] ev by (simp_all add: same)
    fix p assume "p \<in> rdy_set s'"
    then have "p \<in> rdy_set s" using B by (simp add: sets)
    then obtain i where "at_prio s p i" "rdy_ok (OSTCBTbl s i)" using B os_wf_rdyE by blast
    then show "\<exists>i. at_prio s' p i \<and> rdy_ok (OSTCBTbl s' i)"
      by (intro exI [of _ i]) (simp only: ap same)
  qed (simp add: sets)
  moreover have "tcbs_ok s' js fs" by (rule tcbs_ok_cong [of s]) (use B in \<open>simp_all add: ap same\<close>)
  moreover have "idle_last s' js" using B by (simp add: idle_last_def ap)
  moreover have "\<not> OSRunning s'" "can_sched s'" using B by (simp_all add: same can_sched_def)
  moreover have "\<forall>k < 12. OSTCBEventMultiPtr (OSTCBTbl s' k) = None"
    "\<forall>e \<ge> 60. OSEventType (OSEventTbl s' e) = OS_EVENT_TYPE_UNUSED" using B ev(1,4) by (simp_all add: same)
  moreover have "\<forall>p \<le> 20. OSTCBPrioTbl s' p = NULL \<or> (\<exists>i. at_prio s' p i)"
    using B by (simp add: ap) (simp add: same)
  ultimately show ?thesis using sets fr by (simp add: booted_def)
qed

text \<open>Creating a message queue: the first free event and queue control blocks are used.\<close>

lemma booted_queue:
  assumes b: "booted s js fs P (e # es)" and q: "OSQFreeList s = PQ q" and n: "0 < qsize"
    and e: "e < 60"
  shows "\<exists>s'. OSQCreate start qsize s = (PEvent e, s') \<and> booted s' js fs P es \<and> queue_ok e q s' \<and>
    q_msgs q s' = [] \<and> OSTCBPrioTbl s' = OSTCBPrioTbl s \<and> OSTCBTbl s' = OSTCBTbl s \<and>
    OSTickStepState s' = OSTickStepState s"
proof -
  note B = b [unfolded booted_def]
  let ?ev = "\<lambda>ev. ev\<lparr>OSEventType := OS_EVENT_TYPE_Q, OSEventCnt := 0, OSEventPtr := PQ q,
    OSEventName := name_unknown (OSEventName ev), OSEventWait := bm_init\<rparr>"
  let ?q = "(OSQTbl s q)\<lparr>OSQStart := start, OSQEnd := start + unat qsize, OSQIn := start,
    OSQOut := start, OSQSize := qsize, OSQEntries := 0\<rparr>"
  define s' where "s' = s\<lparr>OSEventFreeList := OSEventPtr (OSEventTbl s e),
    OSQFreeList := OSQPtr (OSQTbl s q), OSQTbl := (OSQTbl s)(q := ?q),
    OSEventTbl := (OSEventTbl s)(e := ?ev (OSEventTbl s e))\<rparr>"
  have fr: "free_events s (e # es)" and nest: "OSIntNesting s = 0" using B by (simp_all add: can_sched_def)
  have eq: "OSQCreate start qsize s = (PEvent e, s')"
    using event_get_free(1) [OF fr] nest q
    by (simp add: OSQCreate_def Let_def s'_def OS_EventWaitListInit_def upd_event_def upd_q_def)
  have "wait_set s' e' = {}" for e'
    using B by (simp add: s'_def wait_set_def bm_elems_init)
  then have "free_events s' es"
    using fr by (auto simp: free_events_def) (simp add: s'_def ev_chain_upd)
  then have bs: "booted s' js fs P es"
    by (rule booted_event [OF b, of _ _ _ "?ev (OSEventTbl s e)"]) (use e in \<open>simp_all add: s'_def bm_elems_init bm_wf_init\<close>)
  then have wf: "os_wf s'" by (simp add: booted_def)
  note bs
  moreover have "ring_wf (?q, OSQStore s)" "ring_list (?q, OSQStore s) = []"
    using n by (auto simp: ring_wf_def ring_list_def word_less_nat_alt)
  then have "queue_ok e q s'" "q_msgs q s' = []"
    using wf by (simp_all add: queue_ok_def q_msgs_def get_ring_def) (simp_all add: s'_def)
  ultimately show ?thesis using eq by (auto simp: s'_def)
qed

text \<open>The start of the scheduler: the most urgent task runs.\<close>

lemma OSStart_booted:
  assumes b: "booted s js fs P es" and ne: "P \<noteq> {}"
  shows "os_wf (OSStart s)" "tcbs_ok (OSStart s) js fs" "idle_last (OSStart s) js"
    and "rdy_set (OSStart s) = P" "wait_set (OSStart s) e = {}" "OSRunning (OSStart s)"
    and "can_sched (OSStart s)" "highest_runs (OSStart s)"
    and "at_prio (OSStart s) p i = at_prio s p i" "OSQTbl (OSStart s) = OSQTbl s"
    and "OSQStore (OSStart s) = OSQStore s" "OSEventTbl (OSStart s) = OSEventTbl s"
    and "OSTCBTbl (OSStart s) = OSTCBTbl s" "OSTickStepState (OSStart s) = OSTickStepState s"
proof -
  note B = b [unfolded booted_def]
  have s': "OSStart s = s\<lparr>OSPrioHighRdy := bm_highest (OSRdy s), OSPrioCur := bm_highest (OSRdy s),
      OSTCBHighRdy := OSTCBPrioTbl s (unat (bm_highest (OSRdy s))),
      OSTCBCur := OSTCBPrioTbl s (unat (bm_highest (OSRdy s))), OSRunning := True\<rparr>"
    using B by (simp add: OSStart_def Let_def OS_SchedNew_eq)
  show f: "OSQTbl (OSStart s) = OSQTbl s" "OSQStore (OSStart s) = OSQStore s"
    "OSEventTbl (OSStart s) = OSEventTbl s" "OSTCBTbl (OSStart s) = OSTCBTbl s"
    "OSTickStepState (OSStart s) = OSTickStepState s" "OSRunning (OSStart s)" "can_sched (OSStart s)"
    using B by (simp_all add: s' can_sched_def)
  note W = os_wf_fields [of "OSStart s" s]
  have eqs: "OSRdy (OSStart s) = OSRdy s" "OSTCBTbl (OSStart s) = OSTCBTbl s"
    "OSTCBPrioTbl (OSStart s) = OSTCBPrioTbl s" by (simp_all add: s')
  show sets: "os_wf (OSStart s)" "rdy_set (OSStart s) = P" "wait_set (OSStart s) e = {}"
    "at_prio (OSStart s) p i = at_prio s p i" for e p i
    using B W [OF eqs(1) f(3) eqs(2,3)] by simp_all
  show "tcbs_ok (OSStart s) js fs"
    by (rule tcbs_ok_cong [of s]) (use B sets in simp_all, simp_all add: s')
  show "idle_last (OSStart s) js" using B by (simp add: idle_last_def sets)
  have hi: "unat (bm_highest (OSRdy s)) = Min P"
    using bm.hi_eq_Min [of "OSRdy s"] bm.some_iff [of "OSRdy s"] B ne os_wf_bm(1) [of s] by (auto simp: rdy_set_def)
  have "Min P \<in> P" using Min_in [OF bm.finite_els [of "OSRdy s"]] B ne os_wf_bm(1) [of s] by (auto simp: rdy_set_def)
  then obtain k where k: "at_prio s (Min P) k" using B by (auto elim: os_wf_rdyE)
  then show "highest_runs (OSStart s)"
    by (simp add: highest_runs_def sets) (simp add: s' hi at_prio_tbl)
qed

text \<open>
  The kernel's initialisation succeeds on any memory contents.  It leaves all tables consistent:
  the idle task at the lowest and the statistics task at the next priority are the only tasks, both
  ready, and hold the first two control blocks; the other ten and all 60 event control blocks are
  free; nobody waits; and the scheduler is neither running nor locked.
\<close>

theorem OSInit_correct:
  assumes "tables_only s"
  shows "\<exists>s'. OSInit prt img s = Some s' \<and> os_wf s' \<and> tcbs_ok s' [1, 0] [2..<12] \<and>
    rdy_set s' = {19, 20} \<and> at_prio s' 20 0 \<and> at_prio s' 19 1 \<and> (\<forall>p < 19. OSTCBPrioTbl s' p = NULL) \<and>
    (\<forall>e. wait_set s' e = {}) \<and> free_events s' [0..<60] \<and> \<not> OSRunning s' \<and> can_sched s'"
  using OSInit_boots [OF assms, of prt img] by (auto simp: booted_def)

definition demo_image :: kernel_image where
  "demo_image = \<lparr>OS_TaskIdle_addr = 4096, OS_TaskStat_addr = 4608, OSTaskIdleStk = 8192,
     OSTaskStatStk = 16384\<rparr>"

lemma tables_only_demo: "tables_only demo"
  by (simp add: tables_only_def demo_def event_zero_def)

theorem OSInit_correct_witness:
  "\<exists>s'. OSInit demo_port demo_image demo = Some s' \<and> rdy_set s' = {19, 20} \<and>
     OSTCBPrioTbl s' 20 = PTcb 0 \<and> OSTCBPrioTbl s' 5 = NULL"
  using OSInit_correct [OF tables_only_demo, of demo_port demo_image]
  by (auto simp: booted_def at_prio_tbl)

section \<open>CPU usage\<close>

text \<open>
  The usage the statistics task stores is the percentage as long as the idle counter has not grown
  past its calibrated maximum by more than one percent; beyond, it wraps around.
\<close>

lemma cpu_usage:
  fixes run mx :: u32
  shows "unat run div unat mx \<le> 100 \<Longrightarrow> unat (ucast (100 - run div mx) :: u8) = 100 - unat run div unat mx"
    and "unat run div unat mx = 101 \<Longrightarrow> unat (ucast (100 - run div mx) :: u8) = 255"
proof -
  have d: "unat (run div mx) = unat run div unat mx" by (simp add: unat_div)
  show "unat run div unat mx \<le> 100 \<Longrightarrow> unat (ucast (100 - run div mx) :: u8) = 100 - unat run div unat mx"
    using d by (simp add: unsigned_ucast_eq unat_sub_if' take_bit_nat_eq_self)
  assume "unat run div unat mx = 101"
  with d have "unat (run div mx) = unat (101 :: u32)" by simp
  then have "run div mx = 101" by (rule unsigned_word_eqI)
  moreover have "(100 - 101 :: u32) = - 1" "ucast (- 1 :: u32) = (- 1 :: u8)"
    by simp (rule bit_word_eqI, auto simp: bit_simps)
  ultimately show "unat (ucast (100 - run div mx) :: u8) = 255"
    by (simp add: unsigned_minus_1_eq_mask mask_eq_exp_minus_1)
qed

text \<open>
  The statistics task waits for \<^verbatim>\<open>OSStatRdy\<close>, which only \<^verbatim>\<open>OSStatInit\<close> sets: while nobody calls it, the
  task goes on delaying itself and never comes to its loop.
\<close>

lemma stat_wait_forever:
  assumes "\<not> OSStatRdy s" "\<And>t. \<not> OSStatRdy t \<Longrightarrow> \<not> OSStatRdy (others t)"
  shows "stat_wait others s = None"
proof -
  have dly: "OSStatRdy (OSTimeDly d t) = OSStatRdy t" for d t
    by (simp add: OSTimeDly_def Let_def rdy_remove_def OS_Sched_def sched_switch_def OSCtxSw_def
        OS_SchedNew_eq upd_tcb_def)
  have "others' = others \<longrightarrow> OSStatRdy t" if "stat_wait others' t = Some u" for others' t u
  proof (rule stat_wait.raw_induct [OF _ that, where P = "\<lambda>others' t u. others' = others \<longrightarrow> OSStatRdy t"],
      goal_cases)
    case (1 f others' t u)
    then show ?case using assms(2) dly by (metis option.distinct(1))
  qed
  then show ?thesis using assms(1) by (cases "stat_wait others s") auto
qed

end
