(* ===== verification/Links.thy ===== *)
theory Links
  imports Prelude
begin

text \<open>
  What the timers of os_tmr.c and the alarms of the HAL share: doubly linked lists, and the interface
  of a countdown.  In a list (the spokes of the timer wheel, the HAL's \<^verbatim>\<open>alt_llist\<close>) \<open>nx\<close> and \<open>pv\<close> give the
  next and the previous node of each node.  A list starts and ends at its head \<open>h\<close>; for a list that
  ends with \<^verbatim>\<open>NULL\<close>, the head is \<^verbatim>\<open>NULL\<close> itself and its next node the list's first.
\<close>

section \<open>Linked nodes\<close>

fun links :: "('a \<Rightarrow> 'a) \<Rightarrow> ('a \<Rightarrow> 'a) \<Rightarrow> 'a \<Rightarrow> 'a list \<Rightarrow> 'a \<Rightarrow> bool" where
  "links nx pv a [] b \<longleftrightarrow> nx a = b \<and> pv b = a"
| "links nx pv a (x # xs) b \<longleftrightarrow> nx a = x \<and> pv x = a \<and> links nx pv x xs b"

definition ring :: "('a \<Rightarrow> 'a) \<Rightarrow> ('a \<Rightarrow> 'a) \<Rightarrow> 'a \<Rightarrow> 'a list \<Rightarrow> bool" where
  "ring nx pv h xs \<longleftrightarrow> links nx pv h xs h \<and> distinct (h # xs)"

lemma links_append:
  "links nx pv a (xs @ y # ys) b \<longleftrightarrow> links nx pv a xs y \<and> links nx pv y ys b"
  by (induction xs arbitrary: a) auto

lemma links_cong:
  assumes "\<And>x. x \<in> set (a # xs) \<Longrightarrow> nx' x = nx x" "\<And>x. x \<in> set (b # xs) \<Longrightarrow> pv' x = pv x"
  shows "links nx' pv' a xs b = links nx pv a xs b"
  using assms by (induction xs arbitrary: a) auto

lemma links_ends:
  assumes "links nx pv a xs b"
  shows "nx a = (if xs = [] then b else hd xs)" "pv b = (if xs = [] then a else last xs)"
proof -
  show "nx a = (if xs = [] then b else hd xs)" using assms by (cases xs) auto
  show "pv b = (if xs = [] then a else last xs)" using assms by (induction xs arbitrary: a) auto
qed

lemma ring_first: "ring nx pv h xs \<Longrightarrow> nx h = (if xs = [] then h else hd xs)"
  using links_ends(1) by (fastforce simp: ring_def)

lemma ring_next:
  "ring nx pv h (xs @ e # ys) \<Longrightarrow> nx e = (if ys = [] then h else hd ys)"
  "ring nx pv h (xs @ e # ys) \<Longrightarrow> pv e = (if xs = [] then h else last xs)"
  using links_ends by (fastforce simp: ring_def links_append)+

lemma ring_cong:
  assumes "\<And>x. x \<in> set (h # xs) \<Longrightarrow> nx' x = nx x" "\<And>x. x \<in> set (h # xs) \<Longrightarrow> pv' x = pv x"
  shows "ring nx' pv' h xs = ring nx pv h xs"
  using links_cong [of h xs nx' nx h pv' pv] assms by (simp add: ring_def)

section \<open>Insertion at the front and removal\<close>

lemma ring_insert:
  assumes r: "ring nx pv h xs" and e: "e \<notin> set (h # xs)"
  shows "ring (nx(e := nx h, h := e)) (pv(e := h, nx h := e)) h (e # xs)"
proof (cases xs)
  case Nil
  then show ?thesis using r e by (auto simp: ring_def)
next
  case (Cons x ys)
  have "links (nx(e := nx h, h := e)) (pv(e := h, nx h := e)) x ys h = links nx pv x ys h"
    by (rule links_cong) (use r e Cons in \<open>auto simp: ring_def\<close>)
  then show ?thesis using r e Cons by (auto simp: ring_def)
qed

lemma links_remove:
  assumes "links nx pv a (xs @ e # ys) b" "distinct (a # xs @ e # ys)" "b \<notin> set (xs @ e # ys)"
  shows "links (nx(pv e := nx e)) (pv(nx e := pv e)) a (xs @ ys) b"
proof -
  have l: "links nx pv a xs e" "links nx pv e ys b"
    using assms(1) by (simp_all add: links_append)
  note ends = links_ends [OF l(1)] links_ends [OF l(2)]
  have pe: "pv e \<in> set (a # xs)" and ne: "nx e \<in> set (b # ys)"
    using ends by simp_all
  have out: "x \<noteq> pv e" if "x \<in> set ys" for x using pe that assms(2) by auto
  have inn: "x \<noteq> nx e" if "x \<in> set xs" for x using ne that assms(2,3) by auto
  have right: "links (nx(pv e := nx e)) (pv(nx e := pv e)) (pv e) ys b"
  proof (cases ys)
    case Nil
    then show ?thesis using ends by simp
  next
    case (Cons y zs)
    have "links (nx(pv e := nx e)) (pv(nx e := pv e)) y zs b = links nx pv y zs b"
      by (rule links_cong) (use ends(3) out assms(2,3) Cons in auto)
    then show ?thesis using l(2) ends(3) Cons by simp
  qed
  show ?thesis
  proof (cases "xs = []")
    case True
    then show ?thesis using right ends by simp
  next
    case False
    then obtain zs z where z: "xs = zs @ [z]" by (metis append_butlast_last_id)
    have z': "pv e = z" using ends(2) z by simp
    have "links (nx(pv e := nx e)) (pv(nx e := pv e)) a zs z = links nx pv a zs z"
      by (rule links_cong) (use inn assms(2) z z' in auto)
    then show ?thesis using right l(1) z z' by (simp add: links_append)
  qed
qed

lemma ring_remove:
  assumes "ring nx pv h (xs @ e # ys)"
  shows "ring (nx(pv e := nx e)) (pv(nx e := pv e)) h (xs @ ys)"
  using links_remove [of nx pv h xs e ys h] assms by (auto simp: ring_def)

text \<open>The removed node may be written freely.\<close>

lemma ring_upd:
  assumes "ring nx pv h xs" "e \<notin> set (h # xs)"
  shows "ring (nx(e := a)) (pv(e := b)) h xs"
proof -
  have "ring (nx(e := a)) (pv(e := b)) h xs = ring nx pv h xs"
    by (rule ring_cong) (use assms(2) in auto)
  then show ?thesis using assms(1) by simp
qed

section \<open>Counting down\<close>

text \<open>\<open>n\<close> ticks of a clock that may fail.\<close>

fun ticks :: "nat \<Rightarrow> ('s \<Rightarrow> 's option) \<Rightarrow> 's \<Rightarrow> 's option" where
  "ticks 0 tick s = Some s"
| "ticks (Suc n) tick s = (case ticks n tick s of None \<Rightarrow> None | Some s' \<Rightarrow> tick s')"

text \<open>
  The contract of a timer service: a tick ends, and the time \<open>left\<close> of a running timer goes down by
  one.  The timer wheel of os_tmr.c and the alarms of alt_tick.c provide it.
\<close>

locale countdown =
  fixes tick :: "'s \<Rightarrow> 's option" and ok :: "'s \<Rightarrow> bool" and left :: "'s \<Rightarrow> nat option"
  assumes tick_ok: "ok s \<Longrightarrow> \<exists>s'. tick s = Some s' \<and> ok s'"
    and tick_left: "ok s \<Longrightarrow> tick s = Some s' \<Longrightarrow> left s = Some (Suc (Suc n)) \<Longrightarrow> left s' = Some (Suc n)"
begin

lemma ticks_ok: "ok s \<Longrightarrow> \<exists>s'. ticks m tick s = Some s' \<and> ok s'"
proof (induction m)
  case (Suc m)
  then obtain s1 where "ticks m tick s = Some s1" "ok s1" by auto
  then show ?case using tick_ok by simp
qed simp

lemma ticks_left:
  assumes "ok s" "left s = Some n" "m < n"
  shows "\<exists>s'. ticks m tick s = Some s' \<and> ok s' \<and> left s' = Some (n - m)"
  using assms(3)
proof (induction m)
  case 0
  then show ?case using assms by simp
next
  case (Suc m)
  then obtain s1 where s1: "ticks m tick s = Some s1" "ok s1" "left s1 = Some (n - m)" by auto
  obtain s2 where s2: "tick s1 = Some s2" "ok s2" using tick_ok [OF s1(2)] by blast
  have "n - m = Suc (Suc (n - Suc (Suc m)))" "n - Suc m = Suc (n - Suc (Suc m))" using Suc.prems by auto
  then show ?case using tick_left [OF s1(2) s2(1)] s1 s2 by auto
qed

text \<open>In the tick in which the timer has one tick left.\<close>

lemma last_tick:
  assumes "ok s" "left s = Some (Suc n)"
  obtains s1 where "ticks n tick s = Some s1" "ok s1" "left s1 = Some 1" "ticks (Suc n) tick s = tick s1"
  using ticks_left [OF assms, of n] by fastforce

end

end
