(* ===== verification/Os_Tmr.thy ===== *)
theory Os_Tmr
  imports Os_Sem Os_Name Os_Task Links
begin

text \<open>
  os_tmr.c: software timers, in the configuration of system.h (16 timers, a wheel of 2 spokes, names of
  16 bytes).  The program is built with \<^verbatim>\<open>OS_TMR_EN\<close> 0; the theory models the file as it would be
  compiled with 1.  A running timer is in the doubly linked list of the spoke \<^verbatim>\<open>OSTmrMatch % 2\<close>; the timer
  task, signalled once per timer tick, fires the timers of one spoke whose \<^verbatim>\<open>OSTmrMatch\<close> has come.

  A timer pointer is \<open>Some i\<close> for element \<open>i\<close> of \<open>OSTmrTbl\<close> and \<open>None\<close> for \<^verbatim>\<open>NULL\<close>; writing through \<^verbatim>\<open>NULL\<close>
  or past an array is \<open>None\<close>.  A callback is application code: the function \<open>cb\<close> of the callback's address,
  the timer and the argument changes the kernel's state.  It runs while the timer lock is held, so it
  cannot reach the timers through the functions of this file without waiting for itself.
\<close>

section \<open>Timers and the wheel\<close>

abbreviation (input) OS_TMR_TYPE :: u8 where "OS_TMR_TYPE \<equiv> 100"
abbreviation (input) OS_TMR_OPT_NONE :: u8 where "OS_TMR_OPT_NONE \<equiv> 0"
abbreviation (input) OS_TMR_OPT_ONE_SHOT :: u8 where "OS_TMR_OPT_ONE_SHOT \<equiv> 1"
abbreviation (input) OS_TMR_OPT_PERIODIC :: u8 where "OS_TMR_OPT_PERIODIC \<equiv> 2"
abbreviation (input) OS_TMR_OPT_CALLBACK :: u8 where "OS_TMR_OPT_CALLBACK \<equiv> 3"
abbreviation (input) OS_TMR_OPT_CALLBACK_ARG :: u8 where "OS_TMR_OPT_CALLBACK_ARG \<equiv> 4"
abbreviation (input) OS_TMR_STATE_UNUSED :: u8 where "OS_TMR_STATE_UNUSED \<equiv> 0"
abbreviation (input) OS_TMR_STATE_STOPPED :: u8 where "OS_TMR_STATE_STOPPED \<equiv> 1"
abbreviation (input) OS_TMR_STATE_COMPLETED :: u8 where "OS_TMR_STATE_COMPLETED \<equiv> 2"
abbreviation (input) OS_TMR_STATE_RUNNING :: u8 where "OS_TMR_STATE_RUNNING \<equiv> 3"
abbreviation (input) OS_TMR_LINK_DLY :: u8 where "OS_TMR_LINK_DLY \<equiv> 0"
abbreviation (input) OS_TMR_LINK_PERIODIC :: u8 where "OS_TMR_LINK_PERIODIC \<equiv> 1"
abbreviation (input) OS_TMR_CFG_MAX :: nat where "OS_TMR_CFG_MAX \<equiv> 16"
abbreviation (input) OS_TMR_CFG_NAME_SIZE :: nat where "OS_TMR_CFG_NAME_SIZE \<equiv> 16"
abbreviation (input) OS_TMR_CFG_WHEEL_SIZE :: u32 where "OS_TMR_CFG_WHEEL_SIZE \<equiv> 2"

record OS_TMR =
  OSTmrType :: u8
  OSTmrCallback :: ptr
  OSTmrCallbackArg :: ptr
  OSTmrNext :: "nat option"
  OSTmrPrev :: "nat option"
  OSTmrMatch :: u32
  OSTmrDly :: u32
  OSTmrPeriod :: u32
  OSTmrName :: "u8 list"
  OSTmrOpt :: u8
  OSTmrState :: u8

record OS_TMR_WHEEL =
  OSTmrFirst :: "nat option"
  OSTmrEntries :: u16

text \<open>The timers' variables of ucos_ii.h, and the kernel's.\<close>

record tmr_state =
  OSTmrFree :: u16
  OSTmrUsed :: u16
  OSTmrTime :: u32
  OSTmrSem :: ptr
  OSTmrSemSignal :: ptr
  OSTmrTbl :: "nat \<Rightarrow> OS_TMR"
  OSTmrFreeList :: "nat option"
  OSTmrWheelTbl :: "nat \<Rightarrow> OS_TMR_WHEEL"
  kern :: os_state

type_synonym tmr_callback = "ptr \<Rightarrow> nat \<Rightarrow> ptr \<Rightarrow> os_state \<Rightarrow> os_state"

definition upd_tmr :: "nat \<Rightarrow> (OS_TMR \<Rightarrow> OS_TMR) \<Rightarrow> tmr_state \<Rightarrow> tmr_state" where
  "upd_tmr i f st = st\<lparr>OSTmrTbl := (OSTmrTbl st)(i := f (OSTmrTbl st i))\<rparr>"

definition upd_spoke :: "nat \<Rightarrow> (OS_TMR_WHEEL \<Rightarrow> OS_TMR_WHEEL) \<Rightarrow> tmr_state \<Rightarrow> tmr_state" where
  "upd_spoke k f st = st\<lparr>OSTmrWheelTbl := (OSTmrWheelTbl st)(k := f (OSTmrWheelTbl st k))\<rparr>"

definition spoke_of :: "u32 \<Rightarrow> nat" where
  "spoke_of t = unat (ucast (t mod OS_TMR_CFG_WHEEL_SIZE) :: u16)"

section \<open>Allocating and linking\<close>

definition OSTmr_Alloc :: "tmr_state \<Rightarrow> nat option \<times> tmr_state" where
  "OSTmr_Alloc st =
     (case OSTmrFreeList st of
        None \<Rightarrow> (None, st)
      | Some i \<Rightarrow>
          let st1 = st\<lparr>OSTmrFreeList := OSTmrNext (OSTmrTbl st i)\<rparr>;
              st2 = upd_tmr i (\<lambda>t. t\<lparr>OSTmrNext := None, OSTmrPrev := None\<rparr>) st1
          in (Some i, st2\<lparr>OSTmrUsed := OSTmrUsed st2 + 1, OSTmrFree := OSTmrFree st2 - 1\<rparr>))"

definition OSTmr_Free :: "nat \<Rightarrow> tmr_state \<Rightarrow> tmr_state" where
  "OSTmr_Free i st =
     (let st1 = upd_tmr i (\<lambda>t. t\<lparr>OSTmrState := OS_TMR_STATE_UNUSED, OSTmrOpt := OS_TMR_OPT_NONE,
            OSTmrPeriod := 0, OSTmrMatch := 0, OSTmrCallback := NULL, OSTmrCallbackArg := NULL,
            OSTmrName := name_unknown (OSTmrName t), OSTmrPrev := None,
            OSTmrNext := OSTmrFreeList st\<rparr>) st
      in st1\<lparr>OSTmrFreeList := Some i, OSTmrUsed := OSTmrUsed st1 - 1, OSTmrFree := OSTmrFree st1 + 1\<rparr>)"

definition OSTmr_Link :: "nat \<Rightarrow> u8 \<Rightarrow> tmr_state \<Rightarrow> tmr_state" where
  "OSTmr_Link i type st =
     (let st1 = upd_tmr i (\<lambda>t. t\<lparr>OSTmrState := OS_TMR_STATE_RUNNING, OSTmrMatch :=
            (if type = OS_TMR_LINK_PERIODIC then OSTmrPeriod t + OSTmrTime st
             else if OSTmrDly t = 0 then OSTmrPeriod t + OSTmrTime st
             else OSTmrDly t + OSTmrTime st)\<rparr>) st;
          spoke = spoke_of (OSTmrMatch (OSTmrTbl st1 i));
          st2 = (case OSTmrFirst (OSTmrWheelTbl st1 spoke) of
              None \<Rightarrow>
                upd_tmr i (\<lambda>t. t\<lparr>OSTmrNext := None\<rparr>)
                  (upd_spoke spoke (\<lambda>w. w\<lparr>OSTmrFirst := Some i, OSTmrEntries := 1\<rparr>) st1)
            | Some j \<Rightarrow>
                upd_tmr j (\<lambda>t. t\<lparr>OSTmrPrev := Some i\<rparr>)
                  (upd_tmr i (\<lambda>t. t\<lparr>OSTmrNext := Some j\<rparr>)
                    (upd_spoke spoke (\<lambda>w. w\<lparr>OSTmrFirst := Some i,
                       OSTmrEntries := OSTmrEntries w + 1\<rparr>) st1)))
      in upd_tmr i (\<lambda>t. t\<lparr>OSTmrPrev := None\<rparr>) st2)"

definition OSTmr_Unlink :: "nat \<Rightarrow> tmr_state \<Rightarrow> tmr_state option" where
  "OSTmr_Unlink i st =
     (let t = OSTmrTbl st i;
          spoke = spoke_of (OSTmrMatch t);
          r = (if OSTmrFirst (OSTmrWheelTbl st spoke) = Some i then
                 let st1 = upd_spoke spoke (\<lambda>w. w\<lparr>OSTmrFirst := OSTmrNext t\<rparr>) st
                 in Some (case OSTmrNext t of
                      None \<Rightarrow> st1
                    | Some j \<Rightarrow> upd_tmr j (\<lambda>t. t\<lparr>OSTmrPrev := None\<rparr>) st1)
               else
                 (case OSTmrPrev t of
                    None \<Rightarrow> None
                  | Some j1 \<Rightarrow>
                      let st1 = upd_tmr j1 (\<lambda>t1. t1\<lparr>OSTmrNext := OSTmrNext t\<rparr>) st
                      in Some (case OSTmrNext t of
                           None \<Rightarrow> st1
                         | Some j2 \<Rightarrow> upd_tmr j2 (\<lambda>t2. t2\<lparr>OSTmrPrev := Some j1\<rparr>) st1)))
      in map_option (\<lambda>st2.
           upd_spoke spoke (\<lambda>w. w\<lparr>OSTmrEntries := OSTmrEntries w - 1\<rparr>)
             (upd_tmr i (\<lambda>t. t\<lparr>OSTmrState := OS_TMR_STATE_STOPPED, OSTmrNext := None,
                OSTmrPrev := None\<rparr>) st2)) r)"

section \<open>The lock\<close>

definition OSTmr_Lock :: "tmr_state \<Rightarrow> unit call \<times> tmr_state" where
  "OSTmr_Lock st =
     (case OSSemPend (OSTmrSem st) 0 True (kern st) of
        (Done _, s) \<Rightarrow> (Done (), st\<lparr>kern := s\<rparr>)
      | (Wait, s) \<Rightarrow> (Wait, st\<lparr>kern := s\<rparr>))"

definition OSTmr_Unlock :: "tmr_state \<Rightarrow> tmr_state" where
  "OSTmr_Unlock st = st\<lparr>kern := snd (OSSemPost (OSTmrSem st) (kern st))\<rparr>"

text \<open>
  Every operation is \<^verbatim>\<open>OSTmr_Lock(); ...; OSTmr_Unlock();\<close> after its argument checks: up to a wait for the
  lock, and from the end of that wait on.
\<close>

definition tmr_locked ::
  "(tmr_state \<Rightarrow> ('a \<times> tmr_state) option) \<Rightarrow> tmr_state \<Rightarrow> ('a call \<times> tmr_state) option" where
  "tmr_locked body st =
     (case OSTmr_Lock st of
        (Wait, st1) \<Rightarrow> Some (Wait, st1)
      | (Done _, st1) \<Rightarrow> map_option (\<lambda>(r, st2). (Done r, OSTmr_Unlock st2)) (body st1))"

definition tmr_locked_resume ::
  "(tmr_state \<Rightarrow> ('a \<times> tmr_state) option) \<Rightarrow> tmr_state \<Rightarrow> ('a \<times> tmr_state) option" where
  "tmr_locked_resume body st =
     map_option (\<lambda>(r, st2). (r, OSTmr_Unlock st2))
       (body (st\<lparr>kern := snd (OSSemPend_resume (OSTmrSem st) (kern st))\<rparr>))"

section \<open>The operations\<close>

text \<open>The part of \<^verbatim>\<open>OSTmrCreate\<close> between lock and unlock.\<close>

definition tmr_create ::
  "u32 \<Rightarrow> u32 \<Rightarrow> u8 \<Rightarrow> ptr \<Rightarrow> ptr \<Rightarrow> u8 list option \<Rightarrow> tmr_state \<Rightarrow>
     ((nat option \<times> os_err option) \<times> tmr_state) option" where
  "tmr_create dly period opt callback callback_arg pname st =
     (case OSTmr_Alloc st of
        (None, st1) \<Rightarrow> Some ((None, Some OS_ERR_TMR_NON_AVAIL), st1)
      | (Some i, st1) \<Rightarrow>
          let st2 = upd_tmr i (\<lambda>t. t\<lparr>OSTmrState := OS_TMR_STATE_STOPPED, OSTmrDly := dly,
                OSTmrPeriod := period, OSTmrOpt := opt, OSTmrCallback := callback,
                OSTmrCallbackArg := callback_arg\<rparr>) st1
          in case pname of
               None \<Rightarrow> Some ((Some i, Some OS_ERR_NONE), st2)
             | Some nm \<Rightarrow>
                 (case OS_StrLen nm of
                    None \<Rightarrow> None
                  | Some len \<Rightarrow>
                      if len < of_nat OS_TMR_CFG_NAME_SIZE then
                        map_option (\<lambda>(_, name'). ((Some i, Some OS_ERR_NONE),
                            upd_tmr i (\<lambda>t. t\<lparr>OSTmrName := name'\<rparr>) st2))
                          (OS_StrCopy (OSTmrName (OSTmrTbl st2 i)) nm)
                      else Some ((Some i, Some OS_ERR_TMR_NAME_TOO_LONG),
                        upd_tmr i (\<lambda>t. t\<lparr>OSTmrName := (OSTmrName t)[0 := 0x23, 1 := 0]\<rparr>) st2)))"

definition OSTmrCreate ::
  "u32 \<Rightarrow> u32 \<Rightarrow> u8 \<Rightarrow> ptr \<Rightarrow> ptr \<Rightarrow> u8 list option \<Rightarrow> bool \<Rightarrow> tmr_state \<Rightarrow>
     ((nat option \<times> os_err option) call \<times> tmr_state) option" where
  "OSTmrCreate dly period opt callback callback_arg pname perr st =
     (if \<not> perr then Some (Done (None, None), st)
      else if opt = OS_TMR_OPT_PERIODIC \<and> period = 0
        then Some (Done (None, Some OS_ERR_TMR_INVALID_PERIOD), st)
      else if opt = OS_TMR_OPT_ONE_SHOT \<and> dly = 0
        then Some (Done (None, Some OS_ERR_TMR_INVALID_DLY), st)
      else if opt \<noteq> OS_TMR_OPT_PERIODIC \<and> opt \<noteq> OS_TMR_OPT_ONE_SHOT
        then Some (Done (None, Some OS_ERR_TMR_INVALID_OPT), st)
      else if OSIntNesting (kern st) > 0 then Some (Done (None, Some OS_ERR_TMR_ISR), st)
      else tmr_locked (tmr_create dly period opt callback callback_arg pname) st)"

text \<open>The checks that start the other operations: \<open>bad\<close> is the value returned with an error.\<close>

definition tmr_checked ::
  "'a \<Rightarrow> nat option \<Rightarrow> bool \<Rightarrow> os_err \<Rightarrow> (nat \<Rightarrow> tmr_state \<Rightarrow> (('a \<times> os_err option) \<times> tmr_state) option) \<Rightarrow>
     tmr_state \<Rightarrow> (('a \<times> os_err option) call \<times> tmr_state) option" where
  "tmr_checked bad ptmr perr isr body st =
     (if \<not> perr then Some (Done (bad, None), st)
      else case ptmr of
          None \<Rightarrow> Some (Done (bad, Some OS_ERR_TMR_INVALID), st)
        | Some i \<Rightarrow>
            if OSTmrType (OSTmrTbl st i) \<noteq> OS_TMR_TYPE
            then Some (Done (bad, Some OS_ERR_TMR_INVALID_TYPE), st)
            else if OSIntNesting (kern st) > 0 then Some (Done (bad, Some isr), st)
            else tmr_locked (body i) st)"

definition tmr_del :: "nat \<Rightarrow> tmr_state \<Rightarrow> ((bool \<times> os_err option) \<times> tmr_state) option" where
  "tmr_del i st =
     (let state = OSTmrState (OSTmrTbl st i)
      in if state = OS_TMR_STATE_RUNNING then
           map_option (\<lambda>st1. ((True, Some OS_ERR_NONE), OSTmr_Free i st1)) (OSTmr_Unlink i st)
         else if state = OS_TMR_STATE_STOPPED \<or> state = OS_TMR_STATE_COMPLETED
         then Some ((True, Some OS_ERR_NONE), OSTmr_Free i st)
         else if state = OS_TMR_STATE_UNUSED then Some ((False, Some OS_ERR_TMR_INACTIVE), st)
         else Some ((False, Some OS_ERR_TMR_INVALID_STATE), st))"

definition OSTmrDel ::
  "nat option \<Rightarrow> bool \<Rightarrow> tmr_state \<Rightarrow> ((bool \<times> os_err option) call \<times> tmr_state) option" where
  "OSTmrDel ptmr perr = tmr_checked False ptmr perr OS_ERR_TMR_ISR tmr_del"

text \<open>\<^verbatim>\<open>OSTmrNameGet\<close>: the results are the length, the error and the caller's array.\<close>

definition tmr_name_get ::
  "u8 list \<Rightarrow> nat \<Rightarrow> tmr_state \<Rightarrow> (((u8 \<times> u8 list) \<times> os_err option) \<times> tmr_state) option" where
  "tmr_name_get pdest i st =
     (let state = OSTmrState (OSTmrTbl st i)
      in if state = OS_TMR_STATE_RUNNING \<or> state = OS_TMR_STATE_STOPPED \<or> state = OS_TMR_STATE_COMPLETED
         then map_option (\<lambda>r. ((r, Some OS_ERR_NONE), st)) (OS_StrCopy pdest (OSTmrName (OSTmrTbl st i)))
         else if state = OS_TMR_STATE_UNUSED then Some (((0, pdest), Some OS_ERR_TMR_INACTIVE), st)
         else Some (((0, pdest), Some OS_ERR_TMR_INVALID_STATE), st))"

definition OSTmrNameGet ::
  "nat option \<Rightarrow> u8 list option \<Rightarrow> bool \<Rightarrow> tmr_state \<Rightarrow>
     (((u8 \<times> u8 list) \<times> os_err option) call \<times> tmr_state) option" where
  "OSTmrNameGet ptmr pdest perr st =
     (if \<not> perr then Some (Done ((0, []), None), st)
      else case pdest of
          None \<Rightarrow> Some (Done ((0, []), Some OS_ERR_TMR_INVALID_DEST), st)
        | Some buf \<Rightarrow> tmr_checked (0, buf) ptmr perr OS_ERR_NAME_GET_ISR (tmr_name_get buf) st)"

definition tmr_remain :: "nat \<Rightarrow> tmr_state \<Rightarrow> ((u32 \<times> os_err option) \<times> tmr_state) option" where
  "tmr_remain i st =
     (let t = OSTmrTbl st i; state = OSTmrState t
      in if state = OS_TMR_STATE_RUNNING
         then Some ((OSTmrMatch t - OSTmrTime st, Some OS_ERR_NONE), st)
         else if state = OS_TMR_STATE_STOPPED then
           Some ((if OSTmrOpt t = OS_TMR_OPT_PERIODIC
                  then if OSTmrDly t = 0 then OSTmrPeriod t else OSTmrDly t
                  else OSTmrDly t, Some OS_ERR_NONE), st)
         else if state = OS_TMR_STATE_COMPLETED then Some ((0, Some OS_ERR_NONE), st)
         else if state = OS_TMR_STATE_UNUSED then Some ((0, Some OS_ERR_TMR_INACTIVE), st)
         else Some ((0, Some OS_ERR_TMR_INVALID_STATE), st))"

definition OSTmrRemainGet ::
  "nat option \<Rightarrow> bool \<Rightarrow> tmr_state \<Rightarrow> ((u32 \<times> os_err option) call \<times> tmr_state) option" where
  "OSTmrRemainGet ptmr perr = tmr_checked 0 ptmr perr OS_ERR_TMR_ISR tmr_remain"

definition tmr_state_get :: "nat \<Rightarrow> tmr_state \<Rightarrow> ((u8 \<times> os_err option) \<times> tmr_state) option" where
  "tmr_state_get i st =
     (let state = OSTmrState (OSTmrTbl st i)
      in Some ((state, Some (if state = OS_TMR_STATE_UNUSED \<or> state = OS_TMR_STATE_STOPPED \<or>
             state = OS_TMR_STATE_COMPLETED \<or> state = OS_TMR_STATE_RUNNING
           then OS_ERR_NONE else OS_ERR_TMR_INVALID_STATE)), st))"

definition OSTmrStateGet ::
  "nat option \<Rightarrow> bool \<Rightarrow> tmr_state \<Rightarrow> ((u8 \<times> os_err option) call \<times> tmr_state) option" where
  "OSTmrStateGet ptmr perr = tmr_checked 0 ptmr perr OS_ERR_TMR_ISR tmr_state_get"

definition tmr_start :: "nat \<Rightarrow> tmr_state \<Rightarrow> ((bool \<times> os_err option) \<times> tmr_state) option" where
  "tmr_start i st =
     (let state = OSTmrState (OSTmrTbl st i)
      in if state = OS_TMR_STATE_RUNNING then
           map_option (\<lambda>st1. ((True, Some OS_ERR_NONE), OSTmr_Link i OS_TMR_LINK_DLY st1))
             (OSTmr_Unlink i st)
         else if state = OS_TMR_STATE_STOPPED \<or> state = OS_TMR_STATE_COMPLETED
         then Some ((True, Some OS_ERR_NONE), OSTmr_Link i OS_TMR_LINK_DLY st)
         else if state = OS_TMR_STATE_UNUSED then Some ((False, Some OS_ERR_TMR_INACTIVE), st)
         else Some ((False, Some OS_ERR_TMR_INVALID_STATE), st))"

definition OSTmrStart ::
  "nat option \<Rightarrow> bool \<Rightarrow> tmr_state \<Rightarrow> ((bool \<times> os_err option) call \<times> tmr_state) option" where
  "OSTmrStart ptmr perr = tmr_checked False ptmr perr OS_ERR_TMR_ISR tmr_start"

text \<open>Calling the callback of timer \<open>i\<close>, when it has one.\<close>

definition call_back :: "tmr_callback \<Rightarrow> nat \<Rightarrow> ptr \<Rightarrow> tmr_state \<Rightarrow> tmr_state" where
  "call_back cb i arg st =
     (let pfnct = OSTmrCallback (OSTmrTbl st i)
      in if pfnct \<noteq> NULL then st\<lparr>kern := cb pfnct i arg (kern st)\<rparr> else st)"

definition tmr_stop ::
  "tmr_callback \<Rightarrow> u8 \<Rightarrow> ptr \<Rightarrow> nat \<Rightarrow> tmr_state \<Rightarrow> ((bool \<times> os_err option) \<times> tmr_state) option" where
  "tmr_stop cb opt callback_arg i st =
     (let state = OSTmrState (OSTmrTbl st i)
      in if state = OS_TMR_STATE_RUNNING then
           map_option (\<lambda>st1.
               let t = OSTmrTbl st1 i;
                   err = (if OSTmrCallback t \<noteq> NULL then OS_ERR_NONE else OS_ERR_TMR_NO_CALLBACK)
               in if opt = OS_TMR_OPT_CALLBACK
                  then ((True, Some err), call_back cb i (OSTmrCallbackArg t) st1)
                  else if opt = OS_TMR_OPT_CALLBACK_ARG
                  then ((True, Some err), call_back cb i callback_arg st1)
                  else if opt = OS_TMR_OPT_NONE then ((True, Some OS_ERR_NONE), st1)
                  else ((True, Some OS_ERR_TMR_INVALID_OPT), st1))
             (OSTmr_Unlink i st)
         else if state = OS_TMR_STATE_COMPLETED \<or> state = OS_TMR_STATE_STOPPED
         then Some ((True, Some OS_ERR_TMR_STOPPED), st)
         else if state = OS_TMR_STATE_UNUSED then Some ((False, Some OS_ERR_TMR_INACTIVE), st)
         else Some ((False, Some OS_ERR_TMR_INVALID_STATE), st))"

definition OSTmrStop ::
  "tmr_callback \<Rightarrow> nat option \<Rightarrow> u8 \<Rightarrow> ptr \<Rightarrow> bool \<Rightarrow> tmr_state \<Rightarrow>
     ((bool \<times> os_err option) call \<times> tmr_state) option" where
  "OSTmrStop cb ptmr opt callback_arg perr =
     tmr_checked False ptmr perr OS_ERR_TMR_ISR (tmr_stop cb opt callback_arg)"

definition OSTmrSignal :: "tmr_state \<Rightarrow> os_err \<times> tmr_state" where
  "OSTmrSignal st =
     (let (err, s) = OSSemPost (OSTmrSemSignal st) (kern st) in (err, st\<lparr>kern := s\<rparr>))"

section \<open>The timer task\<close>

text \<open>The walk over one spoke.  Fuel 17, one more than there are timers.\<close>

fun tmr_walk :: "nat \<Rightarrow> tmr_callback \<Rightarrow> nat option \<Rightarrow> tmr_state \<Rightarrow> tmr_state option" where
  "tmr_walk n cb None st = Some st"
| "tmr_walk 0 cb (Some i) st = None"
| "tmr_walk (Suc n) cb (Some i) st =
     (let t = OSTmrTbl st i; ptmr_next = OSTmrNext t
      in if OSTmrTime st = OSTmrMatch t then
           (case OSTmr_Unlink i (call_back cb i (OSTmrCallbackArg t) st) of
              None \<Rightarrow> None
            | Some st1 \<Rightarrow>
                tmr_walk n cb ptmr_next
                  (if OSTmrOpt (OSTmrTbl st1 i) = OS_TMR_OPT_PERIODIC
                   then OSTmr_Link i OS_TMR_LINK_PERIODIC st1
                   else upd_tmr i (\<lambda>t. t\<lparr>OSTmrState := OS_TMR_STATE_COMPLETED\<rparr>) st1))
         else tmr_walk n cb ptmr_next st)"

definition tmr_round :: "tmr_callback \<Rightarrow> tmr_state \<Rightarrow> (unit \<times> tmr_state) option" where
  "tmr_round cb st =
     (let st1 = st\<lparr>OSTmrTime := OSTmrTime st + 1\<rparr>;
          spoke = spoke_of (OSTmrTime st1)
      in map_option (Pair ()) (tmr_walk (OS_TMR_CFG_MAX + 1) cb (OSTmrFirst (OSTmrWheelTbl st1 spoke)) st1))"

text \<open>One iteration of \<^verbatim>\<open>OSTmr_Task\<close>, up to a wait for the signal or the lock, and after the signal came.\<close>

definition OSTmr_Task :: "tmr_callback \<Rightarrow> tmr_state \<Rightarrow> (unit call \<times> tmr_state) option" where
  "OSTmr_Task cb st =
     (case OSSemPend (OSTmrSemSignal st) 0 True (kern st) of
        (Wait, s) \<Rightarrow> Some (Wait, st\<lparr>kern := s\<rparr>)
      | (Done _, s) \<Rightarrow> tmr_locked (tmr_round cb) (st\<lparr>kern := s\<rparr>))"

definition OSTmr_Task_resume :: "tmr_callback \<Rightarrow> tmr_state \<Rightarrow> (unit call \<times> tmr_state) option" where
  "OSTmr_Task_resume cb st =
     tmr_locked (tmr_round cb)
       (st\<lparr>kern := snd (OSSemPend_resume (OSTmrSemSignal st) (kern st))\<rparr>)"

section \<open>The lists of the timers\<close>

text \<open>The links of a spoke as a ring through \<^verbatim>\<open>NULL\<close>, whose next node is the spoke's first timer.\<close>

definition tmr_nx :: "(nat \<Rightarrow> OS_TMR) \<Rightarrow> nat option \<Rightarrow> nat option \<Rightarrow> nat option" where
  "tmr_nx tbl first p = (case p of None \<Rightarrow> first | Some i \<Rightarrow> OSTmrNext (tbl i))"

definition tmr_pv :: "(nat \<Rightarrow> OS_TMR) \<Rightarrow> nat option \<Rightarrow> nat option \<Rightarrow> nat option" where
  "tmr_pv tbl lst p = (case p of None \<Rightarrow> lst | Some i \<Rightarrow> OSTmrPrev (tbl i))"

definition spoke_list :: "tmr_state \<Rightarrow> nat \<Rightarrow> nat list \<Rightarrow> bool" where
  "spoke_list st k xs \<longleftrightarrow>
     (\<exists>lst. ring (tmr_nx (OSTmrTbl st) (OSTmrFirst (OSTmrWheelTbl st k))) (tmr_pv (OSTmrTbl st) lst)
        None (map Some xs)) \<and>
     OSTmrEntries (OSTmrWheelTbl st k) = of_nat (length xs)"

fun tmr_chain :: "(nat \<Rightarrow> OS_TMR) \<Rightarrow> nat option \<Rightarrow> nat list \<Rightarrow> bool" where
  "tmr_chain tbl p [] \<longleftrightarrow> p = None"
| "tmr_chain tbl p (i # js) \<longleftrightarrow> p = Some i \<and> tmr_chain tbl (OSTmrNext (tbl i)) js"

definition in_state :: "u8 \<Rightarrow> tmr_state \<Rightarrow> nat set" where
  "in_state x st = {i. i < OS_TMR_CFG_MAX \<and> OSTmrState (OSTmrTbl st i) = x}"

text \<open>\<open>fs\<close> is the free list, \<open>w k\<close> the list of spoke \<open>k\<close>.\<close>

definition tmr_lists :: "tmr_state \<Rightarrow> nat list \<Rightarrow> (nat \<Rightarrow> nat list) \<Rightarrow> bool" where
  "tmr_lists st fs w \<longleftrightarrow>
     tmr_chain (OSTmrTbl st) (OSTmrFreeList st) fs \<and> distinct fs \<and>
     set fs = in_state OS_TMR_STATE_UNUSED st \<and>
     OSTmrFree st = of_nat (length fs) \<and> OSTmrUsed st = of_nat OS_TMR_CFG_MAX - of_nat (length fs) \<and>
     (\<forall>k < 2. spoke_list st k (w k) \<and>
        set (w k) = {i \<in> in_state OS_TMR_STATE_RUNNING st. spoke_of (OSTmrMatch (OSTmrTbl st i)) = k})"

text \<open>What a timer holds besides its links, and what holds of it.\<close>

definition tmr_data :: "OS_TMR \<Rightarrow> OS_TMR" where
  "tmr_data t = t\<lparr>OSTmrNext := None, OSTmrPrev := None\<rparr>"

definition tmr_typed :: "OS_TMR \<Rightarrow> bool" where
  "tmr_typed t \<longleftrightarrow> OSTmrType t = OS_TMR_TYPE \<and> length (OSTmrName t) = OS_TMR_CFG_NAME_SIZE \<and>
     0 \<in> set (OSTmrName t) \<and> OSTmrState t \<le> OS_TMR_STATE_RUNNING \<and>
     (OSTmrState t \<noteq> OS_TMR_STATE_UNUSED \<longrightarrow>
        OSTmrOpt t = OS_TMR_OPT_PERIODIC \<and> OSTmrPeriod t \<noteq> 0 \<or>
        OSTmrOpt t = OS_TMR_OPT_ONE_SHOT \<and> OSTmrDly t \<noteq> 0)"

definition tmr_wf :: "tmr_state \<Rightarrow> bool" where
  "tmr_wf st \<longleftrightarrow> (\<exists>fs w. tmr_lists st fs w) \<and>
     (\<forall>i < OS_TMR_CFG_MAX. tmr_typed (OSTmrTbl st i)) \<and>
     (\<forall>i \<in> in_state OS_TMR_STATE_RUNNING st. OSTmrMatch (OSTmrTbl st i) \<noteq> OSTmrTime st)"

lemma spoke_of_less: "spoke_of t < 2"
proof -
  have "unat (t mod 2) = unat t mod 2" by (simp add: unat_mod)
  then show ?thesis
    by (simp add: spoke_of_def unsigned_ucast_eq take_bit_nat_eq_self order_less_trans)
qed

lemma upd_tmr_sel [simp]:
  "OSTmrTbl (upd_tmr i f st) = (OSTmrTbl st)(i := f (OSTmrTbl st i))"
  "OSTmrFree (upd_tmr i f st) = OSTmrFree st" "OSTmrUsed (upd_tmr i f st) = OSTmrUsed st"
  "OSTmrTime (upd_tmr i f st) = OSTmrTime st" "OSTmrSem (upd_tmr i f st) = OSTmrSem st"
  "OSTmrSemSignal (upd_tmr i f st) = OSTmrSemSignal st" "kern (upd_tmr i f st) = kern st"
  "OSTmrFreeList (upd_tmr i f st) = OSTmrFreeList st"
  "OSTmrWheelTbl (upd_tmr i f st) = OSTmrWheelTbl st"
  by (simp_all add: upd_tmr_def)

lemma upd_spoke_sel [simp]:
  "OSTmrWheelTbl (upd_spoke k g st) = (OSTmrWheelTbl st)(k := g (OSTmrWheelTbl st k))"
  "OSTmrFree (upd_spoke k g st) = OSTmrFree st" "OSTmrUsed (upd_spoke k g st) = OSTmrUsed st"
  "OSTmrTime (upd_spoke k g st) = OSTmrTime st" "OSTmrSem (upd_spoke k g st) = OSTmrSem st"
  "OSTmrSemSignal (upd_spoke k g st) = OSTmrSemSignal st" "kern (upd_spoke k g st) = kern st"
  "OSTmrFreeList (upd_spoke k g st) = OSTmrFreeList st" "OSTmrTbl (upd_spoke k g st) = OSTmrTbl st"
  by (simp_all add: upd_spoke_def)

lemma tmr_data_eq:
  assumes "tmr_data t = tmr_data t'"
  shows "OSTmrState t = OSTmrState t'" "OSTmrMatch t = OSTmrMatch t'" "OSTmrOpt t = OSTmrOpt t'"
    "OSTmrPeriod t = OSTmrPeriod t'" "OSTmrDly t = OSTmrDly t'" "OSTmrCallback t = OSTmrCallback t'"
    "OSTmrCallbackArg t = OSTmrCallbackArg t'" "OSTmrType t = OSTmrType t'"
    "OSTmrName t = OSTmrName t'"
  using assms by (cases t; cases t'; simp add: tmr_data_def)+

lemma tmr_typed_data: "tmr_data t = tmr_data t' \<Longrightarrow> tmr_typed t = tmr_typed t'"
  unfolding tmr_typed_def using tmr_data_eq by (metis (no_types))

lemma tmr_chain_cong:
  assumes "\<And>i. i \<in> set js \<Longrightarrow> OSTmrNext (tbl' i) = OSTmrNext (tbl i)"
  shows "tmr_chain tbl' p js = tmr_chain tbl p js"
  using assms by (induction js arbitrary: p) auto

lemma spoke_list_cong:
  assumes "\<And>i. i \<in> set xs \<Longrightarrow> OSTmrNext (OSTmrTbl st' i) = OSTmrNext (OSTmrTbl st i) \<and>
      OSTmrPrev (OSTmrTbl st' i) = OSTmrPrev (OSTmrTbl st i)"
    and "OSTmrWheelTbl st' k = OSTmrWheelTbl st k"
  shows "spoke_list st' k xs = spoke_list st k xs"
proof -
  have "ring (tmr_nx (OSTmrTbl st') (OSTmrFirst (OSTmrWheelTbl st' k))) (tmr_pv (OSTmrTbl st') lst)
        None (map Some xs) =
      ring (tmr_nx (OSTmrTbl st) (OSTmrFirst (OSTmrWheelTbl st k))) (tmr_pv (OSTmrTbl st) lst)
        None (map Some xs)" for lst
    by (rule ring_cong) (use assms in \<open>auto simp: tmr_nx_def tmr_pv_def\<close>)
  then show ?thesis using assms(2) by (simp add: spoke_list_def)
qed

section \<open>Linking and unlinking\<close>

lemma spoke_ends:
  assumes "spoke_list st k (xs @ i # ys)"
  shows "OSTmrFirst (OSTmrWheelTbl st k) = Some (if xs = [] then i else hd xs)"
    and "OSTmrNext (OSTmrTbl st i) = (if ys = [] then None else Some (hd ys))"
    and "xs \<noteq> [] \<Longrightarrow> OSTmrPrev (OSTmrTbl st i) = Some (last xs)"
    and "distinct (xs @ i # ys)"
proof -
  obtain lst where r: "ring (tmr_nx (OSTmrTbl st) (OSTmrFirst (OSTmrWheelTbl st k)))
      (tmr_pv (OSTmrTbl st) lst) None (map Some xs @ Some i # map Some ys)"
    using assms by (auto simp: spoke_list_def)
  show "OSTmrFirst (OSTmrWheelTbl st k) = Some (if xs = [] then i else hd xs)"
    using ring_first [OF r] by (auto simp: tmr_nx_def hd_append hd_map)
  show "OSTmrNext (OSTmrTbl st i) = (if ys = [] then None else Some (hd ys))"
    using ring_next(1) [OF r] by (auto simp: tmr_nx_def hd_map)
  show "OSTmrPrev (OSTmrTbl st i) = Some (last xs)" if "xs \<noteq> []"
    using ring_next(2) [OF r] that by (auto simp: tmr_pv_def last_map)
  show "distinct (xs @ i # ys)"
    using r by (auto simp: ring_def distinct_map)
qed

text \<open>What unlinking and linking leave alone.\<close>

definition tmr_frame :: "nat \<Rightarrow> tmr_state \<Rightarrow> tmr_state \<Rightarrow> bool" where
  "tmr_frame i st st' \<longleftrightarrow>
     (\<forall>j. j \<noteq> i \<longrightarrow> tmr_data (OSTmrTbl st' j) = tmr_data (OSTmrTbl st j)) \<and>
     OSTmrTime st' = OSTmrTime st \<and> kern st' = kern st \<and> OSTmrSem st' = OSTmrSem st \<and>
     OSTmrSemSignal st' = OSTmrSemSignal st \<and> OSTmrFree st' = OSTmrFree st \<and>
     OSTmrUsed st' = OSTmrUsed st \<and> OSTmrFreeList st' = OSTmrFreeList st"

lemma unlink_spoke:
  assumes sp: "spoke_list st k (xs @ i # ys)" and k: "spoke_of (OSTmrMatch (OSTmrTbl st i)) = k"
  obtains st' where "OSTmr_Unlink i st = Some st'" "spoke_list st' k (xs @ ys)"
    "tmr_data (OSTmrTbl st' i) = (tmr_data (OSTmrTbl st i))\<lparr>OSTmrState := OS_TMR_STATE_STOPPED\<rparr>"
    "tmr_frame i st st'" "\<And>m. m \<noteq> k \<Longrightarrow> OSTmrWheelTbl st' m = OSTmrWheelTbl st m"
    "\<And>j. j \<notin> set (xs @ i # ys) \<Longrightarrow> OSTmrTbl st' j = OSTmrTbl st j"
proof -
  note ends = spoke_ends [OF sp]
  define st' where "st' = the (OSTmr_Unlink i st)"
  let ?nx = "\<lambda>st. tmr_nx (OSTmrTbl st) (OSTmrFirst (OSTmrWheelTbl st k))"
  obtain lst where r: "ring (?nx st) (tmr_pv (OSTmrTbl st) lst) None (map Some xs @ Some i # map Some ys)"
    using sp by (auto simp: spoke_list_def)
  have hi: "hd xs \<noteq> i" "last xs \<noteq> i" if "xs \<noteq> []" using ends(4) that by (auto dest: hd_in_set last_in_set)
  have hy: "hd ys \<noteq> i" if "ys \<noteq> []" using ends(4) that by (auto dest: hd_in_set)
  have st': "OSTmr_Unlink i st = Some st'"
    by (cases "xs = []"; cases "ys = []") (use ends(1-3) hi in \<open>simp_all add: st'_def OSTmr_Unlink_def Let_def k\<close>)
  let ?p = "tmr_pv (OSTmrTbl st) lst (Some i)" and ?n = "?nx st (Some i)"
  have pv_i: "?p = (if xs = [] then None else Some (last xs))"
    using ring_next(2) [OF r] by (simp add: last_map)
  have nx_i: "?n = (if ys = [] then None else Some (hd ys))"
    using ring_next(1) [OF r] by (simp add: hd_map)
  have nx': "?nx st' = ((?nx st)(?p := ?n))(Some i := None)"
  proof
    fix p
    show "?nx st' p = (((?nx st)(?p := ?n))(Some i := None)) p"
      unfolding pv_i nx_i
      by (cases "xs = []"; cases "ys = []"; cases p)
        (use st' ends(1-3) hi hy in \<open>auto simp: OSTmr_Unlink_def Let_def k tmr_nx_def split: if_splits\<close>)
  qed
  have pv': "tmr_pv (OSTmrTbl st') (if ys = [] then ?p else lst) =
      ((tmr_pv (OSTmrTbl st) lst)(?n := ?p))(Some i := None)"
  proof
    fix p
    show "tmr_pv (OSTmrTbl st') (if ys = [] then ?p else lst) p =
        (((tmr_pv (OSTmrTbl st) lst)(?n := ?p))(Some i := None)) p"
      unfolding pv_i nx_i
      by (cases "xs = []"; cases "ys = []"; cases p)
        (use st' ends(1-3) hi hy in \<open>auto simp: OSTmr_Unlink_def Let_def k tmr_pv_def split: if_splits\<close>)
  qed
  have "ring (?nx st') (tmr_pv (OSTmrTbl st') (if ys = [] then ?p else lst)) None (map Some (xs @ ys))"
    unfolding nx' pv'
    by (rule ring_upd) (use ring_remove [OF r] ends(4) in auto)
  moreover have "OSTmrEntries (OSTmrWheelTbl st' k) = of_nat (length (xs @ ys))"
    using st' ends(1-3) sp by (auto simp: spoke_list_def OSTmr_Unlink_def Let_def k split: if_splits option.splits)
  ultimately have "spoke_list st' k (xs @ ys)"
    unfolding spoke_list_def by blast
  moreover have "tmr_data (OSTmrTbl st' i) = (tmr_data (OSTmrTbl st i))\<lparr>OSTmrState := OS_TMR_STATE_STOPPED\<rparr>"
    using st' ends hi hy by (auto simp: OSTmr_Unlink_def Let_def k tmr_data_def split: if_splits)
  moreover have "tmr_frame i st st'"
    using st' ends(1-3) by (auto simp: OSTmr_Unlink_def Let_def k tmr_data_def tmr_frame_def split: if_splits)
  moreover have "OSTmrWheelTbl st' m = OSTmrWheelTbl st m" if "m \<noteq> k" for m
    using st' ends(1-3) that by (auto simp: OSTmr_Unlink_def Let_def k split: if_splits)
  moreover have "OSTmrTbl st' j = OSTmrTbl st j" if "j \<notin> set (xs @ i # ys)" for j
    using st' ends(1-3) that by (auto simp: OSTmr_Unlink_def Let_def k split: if_splits)
  ultimately show ?thesis using st' that by blast
qed

lemma link_spoke:
  assumes sp: "spoke_list st k xs" and i: "i \<notin> set xs"
    and m: "m = (if type = OS_TMR_LINK_PERIODIC \<or> OSTmrDly (OSTmrTbl st i) = 0
      then OSTmrPeriod (OSTmrTbl st i) else OSTmrDly (OSTmrTbl st i)) + OSTmrTime st"
    and k: "spoke_of m = k"
  defines "st' \<equiv> OSTmr_Link i type st"
  shows "spoke_list st' k (i # xs)"
    and "tmr_data (OSTmrTbl st' i) =
      (tmr_data (OSTmrTbl st i))\<lparr>OSTmrState := OS_TMR_STATE_RUNNING, OSTmrMatch := m\<rparr>"
    and "tmr_frame i st st'" and "\<And>l. l \<noteq> k \<Longrightarrow> OSTmrWheelTbl st' l = OSTmrWheelTbl st l"
    and "\<And>j. j \<notin> set (i # xs) \<Longrightarrow> OSTmrTbl st' j = OSTmrTbl st j"
proof -
  let ?nx = "\<lambda>st. tmr_nx (OSTmrTbl st) (OSTmrFirst (OSTmrWheelTbl st k))"
  obtain lst where r: "ring (?nx st) (tmr_pv (OSTmrTbl st) lst) None (map Some xs)"
    using sp by (auto simp: spoke_list_def)
  have f: "OSTmrFirst (OSTmrWheelTbl st k) = (if xs = [] then None else Some (hd xs))"
    using ring_first [OF r] by (simp add: tmr_nx_def hd_map)
  have hi: "hd xs \<noteq> i" if "xs \<noteq> []" using i that by (auto dest: hd_in_set)
  have m': "(if type = OS_TMR_LINK_PERIODIC then OSTmrPeriod (OSTmrTbl st i) + OSTmrTime st
             else if OSTmrDly (OSTmrTbl st i) = 0 then OSTmrPeriod (OSTmrTbl st i) + OSTmrTime st
             else OSTmrDly (OSTmrTbl st i) + OSTmrTime st) = m"
    by (simp add: m)
  have st': "st' = upd_tmr i (\<lambda>t. t\<lparr>OSTmrPrev := None\<rparr>)
     (let st1 = upd_tmr i (\<lambda>t. t\<lparr>OSTmrState := OS_TMR_STATE_RUNNING, OSTmrMatch := m\<rparr>) st
      in if xs = [] then upd_tmr i (\<lambda>t. t\<lparr>OSTmrNext := None\<rparr>)
                  (upd_spoke k (\<lambda>w. w\<lparr>OSTmrFirst := Some i, OSTmrEntries := 1\<rparr>) st1)
         else upd_tmr (hd xs) (\<lambda>t. t\<lparr>OSTmrPrev := Some i\<rparr>)
                  (upd_tmr i (\<lambda>t. t\<lparr>OSTmrNext := Some (hd xs)\<rparr>)
                    (upd_spoke k (\<lambda>w. w\<lparr>OSTmrFirst := Some i,
                       OSTmrEntries := OSTmrEntries w + 1\<rparr>) st1)))"
    using f k m' by (auto simp: st'_def OSTmr_Link_def Let_def upd_tmr_def)
  have n: "?nx st None = (if xs = [] then None else Some (hd xs))" using f by (simp add: tmr_nx_def)
  have nx': "?nx st' = (?nx st)(Some i := ?nx st None, None := Some i)"
    unfolding n
    by (rule ext) (use hi in \<open>auto simp: st' Let_def tmr_nx_def split: option.splits\<close>)
  have pv': "tmr_pv (OSTmrTbl st') (if xs = [] then Some i else lst) =
      (tmr_pv (OSTmrTbl st) lst)(Some i := None, ?nx st None := Some i)"
    unfolding n
    by (rule ext) (use hi in \<open>auto simp: st' Let_def tmr_pv_def split: option.splits\<close>)
  have "ring (?nx st') (tmr_pv (OSTmrTbl st') (if xs = [] then Some i else lst)) None (map Some (i # xs))"
    unfolding nx' pv' list.map by (rule ring_insert [OF r]) (use i in auto)
  moreover have "OSTmrEntries (OSTmrWheelTbl st' k) = of_nat (length (i # xs))"
    using sp by (auto simp: st' Let_def spoke_list_def)
  ultimately show "spoke_list st' k (i # xs)"
    unfolding spoke_list_def by blast
  show "tmr_data (OSTmrTbl st' i) =
      (tmr_data (OSTmrTbl st i))\<lparr>OSTmrState := OS_TMR_STATE_RUNNING, OSTmrMatch := m\<rparr>"
    using hi by (auto simp: st' Let_def tmr_data_def)
  show "tmr_frame i st st'"
    by (auto simp: st' Let_def tmr_data_def tmr_frame_def)
  show "OSTmrWheelTbl st' l = OSTmrWheelTbl st l" if "l \<noteq> k" for l
    using that by (auto simp: st' Let_def)
  show "OSTmrTbl st' j = OSTmrTbl st j" if "j \<notin> set (i # xs)" for j
    using that by (auto simp: st' Let_def)
qed

lemma tmr_frame_state:
  assumes "tmr_frame i st st'" "j \<noteq> i"
  shows "OSTmrState (OSTmrTbl st' j) = OSTmrState (OSTmrTbl st j)"
    "OSTmrMatch (OSTmrTbl st' j) = OSTmrMatch (OSTmrTbl st j)"
    "tmr_typed (OSTmrTbl st' j) = tmr_typed (OSTmrTbl st j)"
proof -
  have "tmr_data (OSTmrTbl st' j) = tmr_data (OSTmrTbl st j)"
    using assms by (simp add: tmr_frame_def)
  then show "OSTmrState (OSTmrTbl st' j) = OSTmrState (OSTmrTbl st j)"
    "OSTmrMatch (OSTmrTbl st' j) = OSTmrMatch (OSTmrTbl st j)"
    "tmr_typed (OSTmrTbl st' j) = tmr_typed (OSTmrTbl st j)"
    by (rule tmr_data_eq tmr_typed_data)+
qed

lemma tmr_data_sel [simp]:
  "OSTmrState (tmr_data t) = OSTmrState t" "OSTmrMatch (tmr_data t) = OSTmrMatch t"
  "OSTmrOpt (tmr_data t) = OSTmrOpt t" "OSTmrPeriod (tmr_data t) = OSTmrPeriod t"
  "OSTmrDly (tmr_data t) = OSTmrDly t" "OSTmrCallback (tmr_data t) = OSTmrCallback t"
  "OSTmrCallbackArg (tmr_data t) = OSTmrCallbackArg t" "OSTmrType (tmr_data t) = OSTmrType t"
  "OSTmrName (tmr_data t) = OSTmrName t" "tmr_data (tmr_data t) = tmr_data t"
  by (simp_all add: tmr_data_def)

lemma tmr_data_state: "tmr_data (t\<lparr>OSTmrState := x\<rparr>) = (tmr_data t)\<lparr>OSTmrState := x\<rparr>"
  by (cases t) (simp add: tmr_data_def)

lemma in_spoke:
  "tmr_lists st fs w \<Longrightarrow> k < 2 \<Longrightarrow> i \<in> set (w k) \<longleftrightarrow> i < OS_TMR_CFG_MAX \<and>
     OSTmrState (OSTmrTbl st i) = OS_TMR_STATE_RUNNING \<and> spoke_of (OSTmrMatch (OSTmrTbl st i)) = k"
  by (auto simp: tmr_lists_def in_state_def)

lemma in_free:
  "tmr_lists st fs w \<Longrightarrow> i \<in> set fs \<longleftrightarrow> i < OS_TMR_CFG_MAX \<and>
     OSTmrState (OSTmrTbl st i) = OS_TMR_STATE_UNUSED"
  by (auto simp: tmr_lists_def in_state_def)

lemma spoke_lists: "tmr_lists st fs w \<Longrightarrow> k < 2 \<Longrightarrow> w k = xs \<Longrightarrow> spoke_list st k xs"
  by (auto simp: tmr_lists_def)

text \<open>A change of the links of one spoke, of its timers and of the state of timer \<open>i\<close> only.\<close>

lemma tmr_lists_change:
  assumes l: "tmr_lists st fs w" and fr: "tmr_frame i st st'" and k: "k < 2"
    and wh: "\<And>m. m \<noteq> k \<Longrightarrow> OSTmrWheelTbl st' m = OSTmrWheelTbl st m"
    and out: "\<And>j. j \<notin> set (i # w k) \<Longrightarrow> OSTmrTbl st' j = OSTmrTbl st j"
    and sp: "spoke_list st' k zs"
    and i: "i < OS_TMR_CFG_MAX" "OSTmrState (OSTmrTbl st i) \<noteq> OS_TMR_STATE_UNUSED"
      "OSTmrState (OSTmrTbl st i) = OS_TMR_STATE_RUNNING \<Longrightarrow> spoke_of (OSTmrMatch (OSTmrTbl st i)) = k"
    and i': "OSTmrState (OSTmrTbl st' i) \<noteq> OS_TMR_STATE_UNUSED"
      "OSTmrState (OSTmrTbl st' i) = OS_TMR_STATE_RUNNING \<Longrightarrow> spoke_of (OSTmrMatch (OSTmrTbl st' i)) = k"
    and zs: "set zs = (set (w k) - {i}) \<union>
      (if OSTmrState (OSTmrTbl st' i) = OS_TMR_STATE_RUNNING then {i} else {})"
  shows "tmr_lists st' fs (w(k := zs))"
proof -
  note same = tmr_frame_state [OF fr]
  have state0: "OSTmrState (OSTmrTbl st' j) = OS_TMR_STATE_UNUSED \<longleftrightarrow>
      OSTmrState (OSTmrTbl st j) = OS_TMR_STATE_UNUSED" for j
    using i(2) i'(1) same(1) by (cases "j = i") auto
  have free: "OSTmrTbl st' j = OSTmrTbl st j" if "j \<in> set fs" for j
    using that in_free [OF l] in_spoke [OF l k] i(2) by (intro out) auto
  have "tmr_chain (OSTmrTbl st') (OSTmrFreeList st') fs"
    using l fr tmr_chain_cong [of fs "OSTmrTbl st'" "OSTmrTbl st"] free
    by (simp add: tmr_lists_def tmr_frame_def)
  moreover have "set fs = in_state OS_TMR_STATE_UNUSED st'"
    using in_free [OF l] state0 by (auto simp: in_state_def)
  moreover have "spoke_list st' m ((w(k := zs)) m)" if m: "m < 2" for m
  proof (cases "m = k")
    case False
    have "OSTmrTbl st' j = OSTmrTbl st j" if "j \<in> set (w m)" for j
      using that in_spoke [OF l m] in_spoke [OF l k] i(3) False by (intro out) auto
    then show ?thesis
      using l m False wh [OF False] spoke_list_cong [of "w m" st' st m] by (simp add: tmr_lists_def)
  qed (use sp in simp)
  moreover have "set ((w(k := zs)) m) =
      {j \<in> in_state OS_TMR_STATE_RUNNING st'. spoke_of (OSTmrMatch (OSTmrTbl st' j)) = m}" if m: "m < 2" for m
  proof (intro set_eqI)
    fix j
    show "j \<in> set ((w(k := zs)) m) \<longleftrightarrow>
      j \<in> {j \<in> in_state OS_TMR_STATE_RUNNING st'. spoke_of (OSTmrMatch (OSTmrTbl st' j)) = m}"
    proof (cases "j = i")
      case True
      then show ?thesis
        using in_spoke [OF l m, of i] zs i i' by (auto simp: in_state_def)
    next
      case False
      then show ?thesis
        using in_spoke [OF l m, of j] zs same(1,2) [OF False] by (auto simp: in_state_def)
    qed
  qed
  moreover have "distinct fs" "OSTmrFree st' = of_nat (length fs)"
    "OSTmrUsed st' = of_nat OS_TMR_CFG_MAX - of_nat (length fs)"
    using l fr by (simp_all add: tmr_lists_def tmr_frame_def)
  ultimately show ?thesis
    unfolding tmr_lists_def by blast
qed

lemma OSTmr_Unlink_lists:
  assumes l: "tmr_lists st fs w" and i: "i < OS_TMR_CFG_MAX"
    and r: "OSTmrState (OSTmrTbl st i) = OS_TMR_STATE_RUNNING"
    and k: "spoke_of (OSTmrMatch (OSTmrTbl st i)) = k" and w: "w k = xs @ i # ys"
  obtains st' where "OSTmr_Unlink i st = Some st'" "tmr_lists st' fs (w(k := xs @ ys))"
    "tmr_frame i st st'"
    "tmr_data (OSTmrTbl st' i) = (tmr_data (OSTmrTbl st i))\<lparr>OSTmrState := OS_TMR_STATE_STOPPED\<rparr>"
proof -
  have k2: "k < 2" using spoke_of_less k by blast
  have sp: "spoke_list st k (xs @ i # ys)" by (rule spoke_lists [OF l k2 w])
  obtain st' where u: "OSTmr_Unlink i st = Some st'" "spoke_list st' k (xs @ ys)"
    "tmr_data (OSTmrTbl st' i) = (tmr_data (OSTmrTbl st i))\<lparr>OSTmrState := OS_TMR_STATE_STOPPED\<rparr>"
    "tmr_frame i st st'" "\<And>m. m \<noteq> k \<Longrightarrow> OSTmrWheelTbl st' m = OSTmrWheelTbl st m"
    "\<And>j. j \<notin> set (xs @ i # ys) \<Longrightarrow> OSTmrTbl st' j = OSTmrTbl st j"
    using unlink_spoke [OF sp k] by metis
  have s: "OSTmrState (OSTmrTbl st' i) = OS_TMR_STATE_STOPPED"
    using arg_cong [OF u(3), of OSTmrState] by simp
  have "tmr_lists st' fs (w(k := xs @ ys))"
    by (rule tmr_lists_change [OF l u(4) k2 u(5) _ u(2) i])
      (use r k s w u(6) spoke_ends(4) [OF sp] in auto)
  then show ?thesis using that u by blast
qed

lemma OSTmr_Link_lists:
  assumes l: "tmr_lists st fs w" and i: "i < OS_TMR_CFG_MAX"
    and r: "OSTmrState (OSTmrTbl st i) \<noteq> OS_TMR_STATE_RUNNING"
      "OSTmrState (OSTmrTbl st i) \<noteq> OS_TMR_STATE_UNUSED"
    and m: "m = (if type = OS_TMR_LINK_PERIODIC \<or> OSTmrDly (OSTmrTbl st i) = 0
      then OSTmrPeriod (OSTmrTbl st i) else OSTmrDly (OSTmrTbl st i)) + OSTmrTime st"
    and k: "spoke_of m = k"
  defines "st' \<equiv> OSTmr_Link i type st"
  shows "tmr_lists st' fs (w(k := i # w k))" and "tmr_frame i st st'"
    and "tmr_data (OSTmrTbl st' i) =
      (tmr_data (OSTmrTbl st i))\<lparr>OSTmrState := OS_TMR_STATE_RUNNING, OSTmrMatch := m\<rparr>"
proof -
  have k2: "k < 2" using spoke_of_less k by blast
  have iw: "i \<notin> set (w k)" using in_spoke [OF l k2] r(1) by simp
  have sp: "spoke_list st k (w k)" by (rule spoke_lists [OF l k2 refl])
  note u = link_spoke [OF sp iw m k, folded st'_def]
  have s: "OSTmrState (OSTmrTbl st' i) = OS_TMR_STATE_RUNNING" "OSTmrMatch (OSTmrTbl st' i) = m"
    using arg_cong [OF u(2), of OSTmrState] arg_cong [OF u(2), of OSTmrMatch] by simp_all
  show "tmr_lists st' fs (w(k := i # w k))"
    by (rule tmr_lists_change [OF l u(3) k2 u(4) _ u(1) i]) (use r k s iw u(5) in auto)
  show "tmr_frame i st st'" "tmr_data (OSTmrTbl st' i) =
      (tmr_data (OSTmrTbl st i))\<lparr>OSTmrState := OS_TMR_STATE_RUNNING, OSTmrMatch := m\<rparr>"
    by (rule u)+
qed

section \<open>A round of the timer task\<close>

text \<open>What happens to a timer whose time has come, and to the kernel.\<close>

definition tmr_fire :: "u32 \<Rightarrow> OS_TMR \<Rightarrow> OS_TMR" where
  "tmr_fire now t =
     (if OSTmrOpt t = OS_TMR_OPT_PERIODIC
      then t\<lparr>OSTmrState := OS_TMR_STATE_RUNNING, OSTmrMatch := OSTmrPeriod t + now\<rparr>
      else t\<lparr>OSTmrState := OS_TMR_STATE_COMPLETED\<rparr>)"

definition run_callback :: "tmr_callback \<Rightarrow> OS_TMR \<Rightarrow> nat \<Rightarrow> os_state \<Rightarrow> os_state" where
  "run_callback cb t i s =
     (if OSTmrCallback t \<noteq> NULL then cb (OSTmrCallback t) i (OSTmrCallbackArg t) s else s)"

lemma run_callback_data: "run_callback cb (tmr_data t) = run_callback cb t"
  by (simp add: run_callback_def fun_eq_iff)

lemma call_back_eq:
  "call_back cb i (OSTmrCallbackArg (OSTmrTbl st i)) st =
     st\<lparr>kern := run_callback cb (OSTmrTbl st i) i (kern st)\<rparr>"
  by (simp add: call_back_def run_callback_def Let_def)

lemma tmr_lists_kern [simp]: "tmr_lists (st\<lparr>kern := s\<rparr>) fs w = tmr_lists st fs w"
  by (simp add: tmr_lists_def spoke_list_def in_state_def)

lemma tmr_lists_time [simp]: "tmr_lists (st\<lparr>OSTmrTime := t\<rparr>) fs w = tmr_lists st fs w"
  by (simp add: tmr_lists_def spoke_list_def in_state_def)

lemma OSTmr_fire_lists:
  assumes l: "tmr_lists st fs w" and w: "w k = ys @ i # xs" "k < 2"
    and due: "OSTmrMatch (OSTmrTbl st i) = OSTmrTime st"
  obtains st1 st2 zs v where "OSTmr_Unlink i st = Some st1"
    "st2 = (if OSTmrOpt (OSTmrTbl st1 i) = OS_TMR_OPT_PERIODIC
       then OSTmr_Link i OS_TMR_LINK_PERIODIC st1
       else upd_tmr i (\<lambda>t. t\<lparr>OSTmrState := OS_TMR_STATE_COMPLETED\<rparr>) st1)"
    "tmr_lists st2 fs v" "v k = zs @ xs" "tmr_frame i st st2"
    "tmr_data (OSTmrTbl st2 i) = tmr_fire (OSTmrTime st) (tmr_data (OSTmrTbl st i))"
proof -
  have i: "i < OS_TMR_CFG_MAX" "OSTmrState (OSTmrTbl st i) = OS_TMR_STATE_RUNNING"
    "spoke_of (OSTmrMatch (OSTmrTbl st i)) = k"
    using in_spoke [OF l w(2), of i] w(1) by auto
  obtain st1 where u: "OSTmr_Unlink i st = Some st1" "tmr_lists st1 fs (w(k := ys @ xs))"
    "tmr_frame i st st1"
    "tmr_data (OSTmrTbl st1 i) = (tmr_data (OSTmrTbl st i))\<lparr>OSTmrState := OS_TMR_STATE_STOPPED\<rparr>"
    using OSTmr_Unlink_lists [OF l i w(1)] by blast
  have d1: "OSTmrState (OSTmrTbl st1 i) = OS_TMR_STATE_STOPPED"
    "OSTmrOpt (OSTmrTbl st1 i) = OSTmrOpt (OSTmrTbl st i)"
    "OSTmrPeriod (OSTmrTbl st1 i) = OSTmrPeriod (OSTmrTbl st i)"
    using arg_cong [OF u(4), of OSTmrState] arg_cong [OF u(4), of OSTmrOpt]
      arg_cong [OF u(4), of OSTmrPeriod] by simp_all
  have t1: "OSTmrTime st1 = OSTmrTime st" using u(3) by (simp add: tmr_frame_def)
  define st2 where "st2 = (if OSTmrOpt (OSTmrTbl st1 i) = OS_TMR_OPT_PERIODIC
       then OSTmr_Link i OS_TMR_LINK_PERIODIC st1
       else upd_tmr i (\<lambda>t. t\<lparr>OSTmrState := OS_TMR_STATE_COMPLETED\<rparr>) st1)"
  show ?thesis
  proof (cases "OSTmrOpt (OSTmrTbl st i) = OS_TMR_OPT_PERIODIC")
    case True
    define m where "m = OSTmrPeriod (OSTmrTbl st i) + OSTmrTime st"
    have s2: "st2 = OSTmr_Link i OS_TMR_LINK_PERIODIC st1" using True d1 by (simp add: st2_def)
    note v = OSTmr_Link_lists [OF u(2) i(1), of m OS_TMR_LINK_PERIODIC, OF _ _ _ refl, folded s2]
    let ?v = "(w(k := ys @ xs))(spoke_of m := i # (w(k := ys @ xs)) (spoke_of m))"
    have "tmr_lists st2 fs ?v"
      by (rule v(1)) (simp_all add: d1 m_def t1)
    moreover have "?v k = (if spoke_of m = k then i # ys else ys) @ xs" by simp
    moreover have "tmr_frame i st1 st2" by (rule v(2)) (simp_all add: d1 m_def t1)
    then have "tmr_frame i st st2" using u(3) by (auto simp: tmr_frame_def)
    moreover have "tmr_data (OSTmrTbl st2 i) =
        (tmr_data (OSTmrTbl st1 i))\<lparr>OSTmrState := OS_TMR_STATE_RUNNING, OSTmrMatch := m\<rparr>"
      by (rule v(3)) (simp_all add: d1 m_def t1)
    then have "tmr_data (OSTmrTbl st2 i) = tmr_fire (OSTmrTime st) (tmr_data (OSTmrTbl st i))"
      using True by (simp add: u(4) tmr_fire_def m_def)
    ultimately show ?thesis using that u(1) st2_def by blast
  next
    case False
    have s2: "st2 = upd_tmr i (\<lambda>t. t\<lparr>OSTmrState := OS_TMR_STATE_COMPLETED\<rparr>) st1"
      using False d1 by (simp add: st2_def)
    have fr: "tmr_frame i st1 st2" by (simp add: s2 tmr_frame_def)
    have same: "OSTmrNext (OSTmrTbl st2 j) = OSTmrNext (OSTmrTbl st1 j)"
      "OSTmrPrev (OSTmrTbl st2 j) = OSTmrPrev (OSTmrTbl st1 j)" for j by (simp_all add: s2)
    have "spoke_list st2 k ((w(k := ys @ xs)) k)"
      using spoke_lists [OF u(2) w(2)] spoke_list_cong [of "ys @ xs" st2 st1 k] same by (simp add: s2)
    then have "tmr_lists st2 fs ((w(k := ys @ xs))(k := (w(k := ys @ xs)) k))"
      by (intro tmr_lists_change [OF u(2) fr w(2)])
        (use d1 i in_spoke [OF u(2) w(2), of i] in \<open>auto simp: s2\<close>)
    moreover have "tmr_frame i st st2" using u(3) fr by (auto simp: tmr_frame_def)
    moreover have "tmr_data (OSTmrTbl st2 i) = tmr_fire (OSTmrTime st) (tmr_data (OSTmrTbl st i))"
      using False by (simp add: s2 tmr_fire_def tmr_data_state u(4))
    ultimately show ?thesis using that [OF u(1) st2_def] by simp
  qed
qed

text \<open>The walk from the first of the timers \<open>xs\<close> at the end of spoke \<open>k\<close>.\<close>

lemma tmr_walk_ok:
  assumes "tmr_lists st fs w" "w k = ys @ xs" "k < 2" "length xs \<le> n"
  shows "\<exists>st' v. tmr_walk n cb (if xs = [] then None else Some (hd xs)) st = Some st' \<and>
    tmr_lists st' fs v \<and>
    (\<forall>j. tmr_data (OSTmrTbl st' j) =
       (if j \<in> set xs \<and> OSTmrMatch (OSTmrTbl st j) = OSTmrTime st
        then tmr_fire (OSTmrTime st) (tmr_data (OSTmrTbl st j)) else tmr_data (OSTmrTbl st j))) \<and>
    kern st' = fold (\<lambda>i. run_callback cb (tmr_data (OSTmrTbl st i)) i)
       (filter (\<lambda>i. OSTmrMatch (OSTmrTbl st i) = OSTmrTime st) xs) (kern st) \<and>
    OSTmrTime st' = OSTmrTime st \<and> OSTmrSem st' = OSTmrSem st \<and> OSTmrSemSignal st' = OSTmrSemSignal st"
  using assms
proof (induction xs arbitrary: n st w ys)
  case Nil
  then show ?case by auto
next
  case (Cons i xs)
  obtain n' where n: "n = Suc n'" "length xs \<le> n'" using Cons.prems(4) by (cases n) auto
  have sp: "spoke_list st k (ys @ i # xs)" by (rule spoke_lists [OF Cons.prems(1,3,2)])
  note e = spoke_ends(2,4) [OF sp]
  show ?case
  proof (cases "OSTmrMatch (OSTmrTbl st i) = OSTmrTime st")
    case False
    have w: "tmr_walk n cb (Some i) st = tmr_walk n' cb (if xs = [] then None else Some (hd xs)) st"
      using False by (simp add: n e(1))
    have due: "j \<in> set (i # xs) \<and> OSTmrMatch (OSTmrTbl st j) = OSTmrTime st \<longleftrightarrow>
        j \<in> set xs \<and> OSTmrMatch (OSTmrTbl st j) = OSTmrTime st" for j
      using False by auto
    have f: "filter (\<lambda>i. OSTmrMatch (OSTmrTbl st i) = OSTmrTime st) (i # xs) =
        filter (\<lambda>i. OSTmrMatch (OSTmrTbl st i) = OSTmrTime st) xs"
      using False by simp
    have "w k = (ys @ [i]) @ xs" using Cons.prems(2) by simp
    from Cons.IH [OF Cons.prems(1) this Cons.prems(3) n(2)] show ?thesis
      unfolding due f using w by simp
  next
    case due: True
    let ?s = "run_callback cb (OSTmrTbl st i) i (kern st)"
    define st0 where "st0 = st\<lparr>kern := ?s\<rparr>"
    have l0: "tmr_lists st0 fs w" using Cons.prems(1) by (simp add: st0_def)
    have due0: "OSTmrMatch (OSTmrTbl st0 i) = OSTmrTime st0" using due by (simp add: st0_def)
    obtain st1 st2 zs v where f: "OSTmr_Unlink i st0 = Some st1"
      "st2 = (if OSTmrOpt (OSTmrTbl st1 i) = OS_TMR_OPT_PERIODIC
         then OSTmr_Link i OS_TMR_LINK_PERIODIC st1
         else upd_tmr i (\<lambda>t. t\<lparr>OSTmrState := OS_TMR_STATE_COMPLETED\<rparr>) st1)"
      "tmr_lists st2 fs v" "v k = zs @ xs" "tmr_frame i st0 st2"
      "tmr_data (OSTmrTbl st2 i) = tmr_fire (OSTmrTime st0) (tmr_data (OSTmrTbl st0 i))"
      using OSTmr_fire_lists [OF l0 Cons.prems(2,3) due0] by metis
    have w: "tmr_walk n cb (Some i) st = tmr_walk n' cb (if xs = [] then None else Some (hd xs)) st2"
      by (simp add: n Let_def due call_back_eq f(1) f(2) e(1) flip: st0_def)
    have same: "tmr_data (OSTmrTbl st2 j) = tmr_data (OSTmrTbl st j)"
      "OSTmrMatch (OSTmrTbl st2 j) = OSTmrMatch (OSTmrTbl st j)" if "j \<noteq> i" for j
      using f(5) tmr_frame_state(2) [OF f(5) that] that by (simp_all add: tmr_frame_def st0_def)
    have fr: "OSTmrTime st2 = OSTmrTime st" "kern st2 = ?s" "OSTmrSem st2 = OSTmrSem st"
      "OSTmrSemSignal st2 = OSTmrSemSignal st"
      using f(5) by (simp_all add: tmr_frame_def st0_def)
    have ni: "i \<notin> set xs" using e(2) by simp
    have same': "tmr_data (OSTmrTbl st2 j) = tmr_data (OSTmrTbl st j)"
      "OSTmrMatch (OSTmrTbl st2 j) = OSTmrMatch (OSTmrTbl st j)" if "j \<in> set xs" for j
      using same [of j] that ni by blast+
    obtain st' v' where st': "tmr_walk n' cb (if xs = [] then None else Some (hd xs)) st2 = Some st'"
      "tmr_lists st' fs v'"
      "\<And>j. tmr_data (OSTmrTbl st' j) =
         (if j \<in> set xs \<and> OSTmrMatch (OSTmrTbl st2 j) = OSTmrTime st2
          then tmr_fire (OSTmrTime st2) (tmr_data (OSTmrTbl st2 j)) else tmr_data (OSTmrTbl st2 j))"
      "kern st' = fold (\<lambda>i. run_callback cb (tmr_data (OSTmrTbl st2 i)) i)
         (filter (\<lambda>i. OSTmrMatch (OSTmrTbl st2 i) = OSTmrTime st2) xs) (kern st2)"
      "OSTmrTime st' = OSTmrTime st2" "OSTmrSem st' = OSTmrSem st2"
      "OSTmrSemSignal st' = OSTmrSemSignal st2"
      using Cons.IH [OF f(3,4) Cons.prems(3) n(2)] by blast
    have "kern st' = fold (\<lambda>i. run_callback cb (tmr_data (OSTmrTbl st i)) i)
        (filter (\<lambda>i. OSTmrMatch (OSTmrTbl st i) = OSTmrTime st) xs) ?s"
    proof -
      have "filter (\<lambda>i. OSTmrMatch (OSTmrTbl st2 i) = OSTmrTime st2) xs =
          filter (\<lambda>i. OSTmrMatch (OSTmrTbl st i) = OSTmrTime st) xs"
        by (rule filter_cong) (simp_all add: same' fr)
      then show ?thesis
        unfolding st'(4) fr(2) by (intro fold_cong) (simp_all add: same')
    qed
    then have "kern st' = fold (\<lambda>i. run_callback cb (tmr_data (OSTmrTbl st i)) i)
        (filter (\<lambda>i. OSTmrMatch (OSTmrTbl st i) = OSTmrTime st) (i # xs)) (kern st)"
      by (simp add: due run_callback_def)
    moreover have "tmr_data (OSTmrTbl st' j) =
       (if j \<in> set (i # xs) \<and> OSTmrMatch (OSTmrTbl st j) = OSTmrTime st
        then tmr_fire (OSTmrTime st) (tmr_data (OSTmrTbl st j)) else tmr_data (OSTmrTbl st j))" for j
      using st'(3) [of j] same [of j] ni f(6) due by (cases "j = i") (simp_all add: fr st0_def)
    ultimately show ?thesis
      using st'(1,2,5-7) fr w by auto
  qed
qed

text \<open>The ticks left until timer \<open>i\<close> fires.\<close>

definition tmr_left :: "tmr_state \<Rightarrow> nat \<Rightarrow> nat option" where
  "tmr_left st i =
     (if OSTmrState (OSTmrTbl st i) = OS_TMR_STATE_RUNNING
      then Some (unat (OSTmrMatch (OSTmrTbl st i) - OSTmrTime st)) else None)"

lemma tmr_left_one:
  "tmr_left st i = Some (Suc 0) \<longleftrightarrow> OSTmrState (OSTmrTbl st i) = OS_TMR_STATE_RUNNING \<and>
     OSTmrMatch (OSTmrTbl st i) = OSTmrTime st + 1"
proof -
  have "unat (m - t) = Suc 0 \<longleftrightarrow> m = t + 1" for m t :: u32
    by (metis One_nat_def add.commute diff_add_cancel add_diff_cancel_left' unat_1 unsigned_word_eqI)
  then show ?thesis by (simp add: tmr_left_def)
qed

lemma spoke_length:
  assumes l: "tmr_lists st fs w" and k: "k < 2"
  shows "length (w k) \<le> OS_TMR_CFG_MAX" "distinct (w k)"
proof -
  have "distinct (map Some (w k))"
    using spoke_lists [OF l k refl] by (auto simp: spoke_list_def ring_def)
  then show d: "distinct (w k)" by (simp add: distinct_map)
  have "set (w k) \<subseteq> {..<OS_TMR_CFG_MAX}" using in_spoke [OF l k] by auto
  then have "card (set (w k)) \<le> OS_TMR_CFG_MAX"
    using card_mono [of "{..<OS_TMR_CFG_MAX}"] by fastforce
  then show "length (w k) \<le> OS_TMR_CFG_MAX" using d by (simp add: distinct_card)
qed

lemma tmr_typed_fire: "tmr_typed t \<Longrightarrow> OSTmrState t = OS_TMR_STATE_RUNNING \<Longrightarrow> tmr_typed (tmr_fire now t)"
  by (auto simp: tmr_typed_def tmr_fire_def)

lemma tmr_typed_of_data: "tmr_typed (tmr_data t) = tmr_typed t"
  by (rule tmr_typed_data) simp

lemma tmr_round_ok:
  assumes wf: "tmr_wf st"
  obtains st' due where "tmr_round cb st = Some ((), st')" "tmr_wf st'" "distinct due"
    "set due = {i. i < OS_TMR_CFG_MAX \<and> tmr_left st i = Some 1}"
    "kern st' = fold (\<lambda>i. run_callback cb (tmr_data (OSTmrTbl st i)) i) due (kern st)"
    "OSTmrTime st' = OSTmrTime st + 1" "OSTmrSem st' = OSTmrSem st"
    "OSTmrSemSignal st' = OSTmrSemSignal st"
    "\<forall>i. tmr_data (OSTmrTbl st' i) = (if i \<in> set due then tmr_fire (OSTmrTime st + 1)
       (tmr_data (OSTmrTbl st i)) else tmr_data (OSTmrTbl st i))"
proof -
  obtain fs w where l: "tmr_lists st fs w"
    and ty: "\<And>i. i < OS_TMR_CFG_MAX \<Longrightarrow> tmr_typed (OSTmrTbl st i)"
    and nt: "\<And>i. i \<in> in_state OS_TMR_STATE_RUNNING st \<Longrightarrow> OSTmrMatch (OSTmrTbl st i) \<noteq> OSTmrTime st"
    using wf by (auto simp: tmr_wf_def)
  define st1 where "st1 = st\<lparr>OSTmrTime := OSTmrTime st + 1\<rparr>"
  define k where "k = spoke_of (OSTmrTime st + 1)"
  have k: "k < 2" using spoke_of_less by (simp add: k_def)
  have l1: "tmr_lists st1 fs w" using l by (simp add: st1_def)
  have f: "OSTmrFirst (OSTmrWheelTbl st1 k) = (if w k = [] then None else Some (hd (w k)))"
  proof -
    obtain lst where "ring (tmr_nx (OSTmrTbl st1) (OSTmrFirst (OSTmrWheelTbl st1 k)))
        (tmr_pv (OSTmrTbl st1) lst) None (map Some (w k))"
      using spoke_lists [OF l1 k refl] by (auto simp: spoke_list_def)
    from ring_first [OF this] show ?thesis by (simp add: tmr_nx_def hd_map)
  qed
  define due where "due = filter (\<lambda>i. OSTmrMatch (OSTmrTbl st1 i) = OSTmrTime st1) (w k)"
  have len: "length (w k) \<le> OS_TMR_CFG_MAX + 1" using spoke_length(1) [OF l1 k] by simp
  have "w k = [] @ w k" by simp
  from tmr_walk_ok [OF l1 this k len, of cb] obtain st' v where
    wk: "tmr_walk (OS_TMR_CFG_MAX + 1) cb (if w k = [] then None else Some (hd (w k))) st1 = Some st'"
    and l': "tmr_lists st' fs v"
    and dat: "\<And>j. tmr_data (OSTmrTbl st' j) =
       (if j \<in> set (w k) \<and> OSTmrMatch (OSTmrTbl st1 j) = OSTmrTime st1
        then tmr_fire (OSTmrTime st1) (tmr_data (OSTmrTbl st1 j)) else tmr_data (OSTmrTbl st1 j))"
    and kern: "kern st' = fold (\<lambda>i. run_callback cb (tmr_data (OSTmrTbl st1 i)) i) due (kern st1)"
    and rest: "OSTmrTime st' = OSTmrTime st1" "OSTmrSem st' = OSTmrSem st1"
      "OSTmrSemSignal st' = OSTmrSemSignal st1"
    unfolding due_def by blast
  have r: "tmr_round cb st = Some ((), st')"
    using wk f by (simp add: tmr_round_def Let_def flip: st1_def k_def) (simp add: st1_def k_def)
  have due: "set due = {i. i < OS_TMR_CFG_MAX \<and> tmr_left st i = Some 1}"
  proof (intro set_eqI)
    fix i
    show "i \<in> set due \<longleftrightarrow> i \<in> {i. i < OS_TMR_CFG_MAX \<and> tmr_left st i = Some 1}"
      using in_spoke [OF l k, of i] tmr_left_one [of st i]
      by (cases "OSTmrMatch (OSTmrTbl st i) = OSTmrTime st + 1") (simp_all add: due_def k_def st1_def)
  qed
  have dat': "tmr_data (OSTmrTbl st' i) = (if i \<in> set due then tmr_fire (OSTmrTime st + 1)
       (tmr_data (OSTmrTbl st i)) else tmr_data (OSTmrTbl st i))" for i
    using dat [of i] by (auto simp: due_def st1_def)
  have run: "OSTmrState (OSTmrTbl st i) = OS_TMR_STATE_RUNNING" if "i \<in> set due" for i
    using that due tmr_left_one by auto
  have "tmr_typed (OSTmrTbl st' i)" if i: "i < OS_TMR_CFG_MAX" for i
    using dat' [of i] ty [OF i] tmr_typed_fire [of "tmr_data (OSTmrTbl st i)"] run [of i]
      tmr_typed_of_data [of "OSTmrTbl st' i"] tmr_typed_of_data [of "OSTmrTbl st i"]
    by (auto split: if_splits)
  moreover have "OSTmrMatch (OSTmrTbl st' i) \<noteq> OSTmrTime st'"
    if i: "i \<in> in_state OS_TMR_STATE_RUNNING st'" for i
  proof (cases "i \<in> set due")
    case True
    then have d: "tmr_data (OSTmrTbl st' i) = tmr_fire (OSTmrTime st + 1) (tmr_data (OSTmrTbl st i))"
      using dat' by simp
    have i16: "i < OS_TMR_CFG_MAX" using i by (simp add: in_state_def)
    have p: "OSTmrOpt (OSTmrTbl st i) = OS_TMR_OPT_PERIODIC"
      using arg_cong [OF d, of OSTmrState] i by (auto simp: tmr_fire_def in_state_def split: if_splits)
    have "OSTmrPeriod (OSTmrTbl st i) \<noteq> 0"
      using ty [OF i16] run [OF True] p by (auto simp: tmr_typed_def)
    then show ?thesis
      using arg_cong [OF d, of OSTmrMatch] p rest(1) by (simp add: tmr_fire_def st1_def)
  next
    case False
    then have "tmr_data (OSTmrTbl st' i) = tmr_data (OSTmrTbl st i)" using dat' by simp
    note same = tmr_data_eq(1,2) [OF this]
    have i16: "i < OS_TMR_CFG_MAX" "OSTmrState (OSTmrTbl st i) = OS_TMR_STATE_RUNNING"
      using i same(1) by (simp_all add: in_state_def)
    then have "OSTmrMatch (OSTmrTbl st i) \<noteq> OSTmrTime st + 1"
      using False by (simp add: due tmr_left_one)
    then show ?thesis using same(2) rest(1) by (simp add: st1_def)
  qed
  ultimately have "tmr_wf st'" using l' unfolding tmr_wf_def by blast
  moreover have "distinct due" using spoke_length(2) [OF l1 k] by (simp add: due_def)
  ultimately show ?thesis
    by (intro that [OF r _ _ due]) (simp_all add: kern rest st1_def dat')
qed

section \<open>Timers count down\<close>

lemma unat_diff_next: "(m :: u32) \<noteq> t \<Longrightarrow> unat (m - (t + 1)) = unat (m - t) - 1"
  using unat_minus_one [of "m - t"] by (simp add: algebra_simps)

section \<open>The operations keep the lists\<close>

lemma tmr_wfI:
  assumes "tmr_wf st" "tmr_lists st' fs w" "tmr_frame i st st'" "tmr_typed (OSTmrTbl st' i)"
    "OSTmrState (OSTmrTbl st' i) = OS_TMR_STATE_RUNNING \<Longrightarrow> OSTmrMatch (OSTmrTbl st' i) \<noteq> OSTmrTime st"
  shows "tmr_wf st'"
proof -
  have "tmr_typed (OSTmrTbl st' j)" if "j < OS_TMR_CFG_MAX" for j
    using assms(1,4) that tmr_frame_state(3) [OF assms(3), of j] by (cases "j = i") (auto simp: tmr_wf_def)
  moreover have "OSTmrMatch (OSTmrTbl st' j) \<noteq> OSTmrTime st'" if "j \<in> in_state OS_TMR_STATE_RUNNING st'" for j
  proof (cases "j = i")
    case True
    then show ?thesis using assms(3,5) that by (simp add: in_state_def tmr_frame_def)
  next
    case False
    then show ?thesis
      using assms(1,3) that tmr_frame_state(1,2) [OF assms(3) False]
      by (auto simp: tmr_wf_def in_state_def tmr_frame_def)
  qed
  ultimately show ?thesis using assms(2) by (auto simp: tmr_wf_def)
qed

lemma OSTmr_Unlink_wf:
  assumes wf: "tmr_wf st" and i: "i < OS_TMR_CFG_MAX"
    and r: "OSTmrState (OSTmrTbl st i) = OS_TMR_STATE_RUNNING"
  obtains st' where "OSTmr_Unlink i st = Some st'" "tmr_wf st'" "tmr_frame i st st'"
    "tmr_data (OSTmrTbl st' i) = (tmr_data (OSTmrTbl st i))\<lparr>OSTmrState := OS_TMR_STATE_STOPPED\<rparr>"
proof -
  obtain fs w where l: "tmr_lists st fs w" using wf by (auto simp: tmr_wf_def)
  let ?k = "spoke_of (OSTmrMatch (OSTmrTbl st i))"
  have "i \<in> set (w ?k)" using in_spoke [OF l spoke_of_less] i r by simp
  then obtain xs ys where "w ?k = xs @ i # ys" by (auto simp: in_set_conv_decomp)
  then obtain st' where u: "OSTmr_Unlink i st = Some st'" "tmr_lists st' fs (w(?k := xs @ ys))"
    "tmr_frame i st st'"
    "tmr_data (OSTmrTbl st' i) = (tmr_data (OSTmrTbl st i))\<lparr>OSTmrState := OS_TMR_STATE_STOPPED\<rparr>"
    using OSTmr_Unlink_lists [OF l i r refl] by blast
  have "tmr_typed (OSTmrTbl st i)" using wf i by (simp add: tmr_wf_def)
  then have "tmr_typed ((tmr_data (OSTmrTbl st i))\<lparr>OSTmrState := OS_TMR_STATE_STOPPED\<rparr>)"
    using r by (simp add: tmr_typed_def)
  then have "tmr_typed (OSTmrTbl st' i)" using u(4) tmr_typed_of_data [of "OSTmrTbl st' i"] by simp
  moreover have "OSTmrState (OSTmrTbl st' i) \<noteq> OS_TMR_STATE_RUNNING"
    using arg_cong [OF u(4), of OSTmrState] by simp
  ultimately have "tmr_wf st'" using tmr_wfI [OF wf u(2,3)] by blast
  then show ?thesis using that u by blast
qed

lemma OSTmr_Link_wf:
  assumes wf: "tmr_wf st" and i: "i < OS_TMR_CFG_MAX"
    and r: "OSTmrState (OSTmrTbl st i) \<noteq> OS_TMR_STATE_RUNNING"
      "OSTmrState (OSTmrTbl st i) \<noteq> OS_TMR_STATE_UNUSED"
  defines "st' \<equiv> OSTmr_Link i OS_TMR_LINK_DLY st"
  shows "tmr_wf st'" "tmr_frame i st st'"
    "tmr_left st' i = Some (unat (if OSTmrDly (OSTmrTbl st i) = 0 then OSTmrPeriod (OSTmrTbl st i)
       else OSTmrDly (OSTmrTbl st i)))"
    "OSTmrOpt (OSTmrTbl st' i) = OSTmrOpt (OSTmrTbl st i)"
    "OSTmrPeriod (OSTmrTbl st' i) = OSTmrPeriod (OSTmrTbl st i)"
proof -
  obtain fs w where l: "tmr_lists st fs w" using wf by (auto simp: tmr_wf_def)
  let ?d = "if OSTmrDly (OSTmrTbl st i) = 0 then OSTmrPeriod (OSTmrTbl st i) else OSTmrDly (OSTmrTbl st i)"
  let ?m = "?d + OSTmrTime st"
  note v = OSTmr_Link_lists [OF l i r, of ?m OS_TMR_LINK_DLY, OF _ refl, folded st'_def]
  have d: "tmr_data (OSTmrTbl st' i) =
      (tmr_data (OSTmrTbl st i))\<lparr>OSTmrState := OS_TMR_STATE_RUNNING, OSTmrMatch := ?m\<rparr>"
    by (rule v(3)) simp
  show fr: "tmr_frame i st st'" by (rule v(2)) simp
  have ty: "tmr_typed (OSTmrTbl st i)" using wf i by (simp add: tmr_wf_def)
  then have "tmr_typed ((tmr_data (OSTmrTbl st i))\<lparr>OSTmrState := OS_TMR_STATE_RUNNING, OSTmrMatch := ?m\<rparr>)"
    using r(2) by (simp add: tmr_typed_def)
  then have "tmr_typed (OSTmrTbl st' i)" using d tmr_typed_of_data [of "OSTmrTbl st' i"] by simp
  moreover have "OSTmrMatch (OSTmrTbl st' i) = ?m" using arg_cong [OF d, of OSTmrMatch] by simp
  moreover have "?d \<noteq> 0" using ty r(2) by (auto simp: tmr_typed_def)
  ultimately show "tmr_wf st'" by (intro tmr_wfI [OF wf v(1) fr]) simp_all
  show "tmr_left st' i = Some (unat ?d)"
    using arg_cong [OF d, of OSTmrMatch] arg_cong [OF d, of OSTmrState] fr
    by (simp add: tmr_left_def tmr_frame_def)
  show "OSTmrOpt (OSTmrTbl st' i) = OSTmrOpt (OSTmrTbl st i)"
    "OSTmrPeriod (OSTmrTbl st' i) = OSTmrPeriod (OSTmrTbl st i)"
    using arg_cong [OF d, of OSTmrOpt] arg_cong [OF d, of OSTmrPeriod] by simp_all
qed

end
