(* ===== verification/Os_Timers.thy ===== *)
theory Os_Timers
  imports Os_Tmr Os_Init
begin

text \<open>
  The timers of os_tmr.c as a component: initialisation, what the operations keep of the consistency
  of the lists, the time at which a started timer fires, and the lock.
\<close>

section \<open>Initialisation\<close>

abbreviation (input) OS_TASK_TMR_PRIO :: u8 where "OS_TASK_TMR_PRIO \<equiv> 0"
abbreviation (input) OS_TASK_TMR_ID :: u16 where "OS_TASK_TMR_ID \<equiv> 65533"
abbreviation (input) OS_TASK_TMR_STK_SIZE :: u32 where "OS_TASK_TMR_STK_SIZE \<equiv> 512"

text \<open>Addresses the linker gives.\<close>

record timer_image =
  OSTmr_Task_addr :: u32
  OSTmrTaskStk :: u32

definition tmr_zero :: OS_TMR where
  "tmr_zero = \<lparr>OSTmrType = 0, OSTmrCallback = NULL, OSTmrCallbackArg = NULL, OSTmrNext = None,
     OSTmrPrev = None, OSTmrMatch = 0, OSTmrDly = 0, OSTmrPeriod = 0,
     OSTmrName = replicate OS_TMR_CFG_NAME_SIZE 0, OSTmrOpt = 0, OSTmrState = 0\<rparr>"

text \<open>The loop that chains the table, as for the other tables.\<close>

fun tmr_link :: "nat \<Rightarrow> nat \<Rightarrow> (nat \<Rightarrow> OS_TMR) \<Rightarrow> nat \<Rightarrow> OS_TMR" where
  "tmr_link 0 i tbl = tbl(i := (tbl i)\<lparr>OSTmrType := OS_TMR_TYPE, OSTmrState := OS_TMR_STATE_UNUSED,
     OSTmrNext := None, OSTmrName := name_unknown (OSTmrName (tbl i))\<rparr>)"
| "tmr_link (Suc n) i tbl = tmr_link n (i + 1)
     (tbl(i := (tbl i)\<lparr>OSTmrType := OS_TMR_TYPE, OSTmrState := OS_TMR_STATE_UNUSED,
        OSTmrNext := Some (i + 1), OSTmrName := name_unknown (OSTmrName (tbl i))\<rparr>))"

definition tmr_tables :: "tmr_state \<Rightarrow> tmr_state" where
  "tmr_tables st = st\<lparr>
     OSTmrTbl := tmr_link (OS_TMR_CFG_MAX - 1) 0
       (\<lambda>i. if i < OS_TMR_CFG_MAX then tmr_zero else OSTmrTbl st i),
     OSTmrWheelTbl := (\<lambda>k. if k < unat OS_TMR_CFG_WHEEL_SIZE then \<lparr>OSTmrFirst = None, OSTmrEntries = 0\<rparr>
       else OSTmrWheelTbl st k),
     OSTmrTime := 0, OSTmrUsed := 0, OSTmrFree := of_nat OS_TMR_CFG_MAX, OSTmrFreeList := Some 0\<rparr>"

definition OSTmr_InitTask :: "port \<Rightarrow> timer_image \<Rightarrow> tmr_state \<Rightarrow> tmr_state option" where
  "OSTmr_InitTask prt img st =
     (let (err, s1) = OSTaskCreateExt prt (OSTmr_Task_addr img) 0
            (OSTmrTaskStk img + 4 * (OS_TASK_TMR_STK_SIZE - 1)) OS_TASK_TMR_PRIO OS_TASK_TMR_ID
            (OSTmrTaskStk img) OS_TASK_TMR_STK_SIZE NULL (OS_TASK_OPT_STK_CHK OR OS_TASK_OPT_STK_CLR)
            (kern st)
      in map_option (\<lambda>(_, s2). st\<lparr>kern := s2\<rparr>)
           (OSTaskNameSet OS_TASK_TMR_PRIO (Some (c_str ''uC/OS-II Tmr'')) True s1))"

definition OSTmr_Init :: "port \<Rightarrow> timer_image \<Rightarrow> tmr_state \<Rightarrow> tmr_state option" where
  "OSTmr_Init prt img st =
     (let (sem, s1) = OSSemCreate 1 (kern st);
          (sig, s2) = OSSemCreate 0 s1
      in case OSEventNameSet sem (Some (c_str ''uC/OS-II TmrLock'')) True s2 of
           None \<Rightarrow> None
         | Some (_, s3) \<Rightarrow>
             (case OSEventNameSet sig (Some (c_str ''uC/OS-II TmrSignal'')) True s3 of
                None \<Rightarrow> None
              | Some (_, s4) \<Rightarrow>
                  OSTmr_InitTask prt img ((tmr_tables st)\<lparr>OSTmrSem := sem, OSTmrSemSignal := sig,
                    kern := s4\<rparr>)))"

section \<open>Timers fire on time\<close>

text \<open>
  C28: A round of the timer task ends and calls the callbacks of exactly the timers with one tick left,
  each once.  Every running timer counts down by one; a timer that fires starts again with its period
  if it is periodic and is completed otherwise.  The wheel and its lists stay consistent.\<close>

theorem tmr_round_correct:
  assumes wf: "tmr_wf st"
  shows "\<exists>st' due. tmr_round cb st = Some ((), st') \<and> tmr_wf st' \<and> distinct due \<and>
    set due = {i. i < OS_TMR_CFG_MAX \<and> tmr_left st i = Some 1} \<and>
    kern st' = fold (\<lambda>i. run_callback cb (OSTmrTbl st i) i) due (kern st) \<and>
    (\<forall>i < OS_TMR_CFG_MAX. tmr_left st' i = (case tmr_left st i of
         None \<Rightarrow> None
       | Some n \<Rightarrow>
           if n = 1 then if OSTmrOpt (OSTmrTbl st i) = OS_TMR_OPT_PERIODIC
             then Some (unat (OSTmrPeriod (OSTmrTbl st i))) else None
           else Some (n - 1)) \<and>
       (OSTmrState (OSTmrTbl st' i) = OS_TMR_STATE_COMPLETED \<longleftrightarrow>
         OSTmrState (OSTmrTbl st i) = OS_TMR_STATE_COMPLETED \<or>
         tmr_left st i = Some 1 \<and> OSTmrOpt (OSTmrTbl st i) \<noteq> OS_TMR_OPT_PERIODIC))"
proof -
  obtain st' due where r: "tmr_round cb st = Some ((), st')" "tmr_wf st'" "distinct due"
    "set due = {i. i < OS_TMR_CFG_MAX \<and> tmr_left st i = Some 1}"
    "kern st' = fold (\<lambda>i. run_callback cb (tmr_data (OSTmrTbl st i)) i) due (kern st)"
    "OSTmrTime st' = OSTmrTime st + 1" "OSTmrSem st' = OSTmrSem st"
    "OSTmrSemSignal st' = OSTmrSemSignal st"
    "\<forall>i. tmr_data (OSTmrTbl st' i) = (if i \<in> set due then tmr_fire (OSTmrTime st + 1)
       (tmr_data (OSTmrTbl st i)) else tmr_data (OSTmrTbl st i))"
    by (rule tmr_round_ok [OF wf, of cb])
  have "tmr_left st' i = (case tmr_left st i of None \<Rightarrow> None
       | Some n \<Rightarrow> if n = 1 then if OSTmrOpt (OSTmrTbl st i) = OS_TMR_OPT_PERIODIC
             then Some (unat (OSTmrPeriod (OSTmrTbl st i))) else None
           else Some (n - 1)) \<and>
       (OSTmrState (OSTmrTbl st' i) = OS_TMR_STATE_COMPLETED \<longleftrightarrow>
         OSTmrState (OSTmrTbl st i) = OS_TMR_STATE_COMPLETED \<or>
         tmr_left st i = Some 1 \<and> OSTmrOpt (OSTmrTbl st i) \<noteq> OS_TMR_OPT_PERIODIC)"
    if i: "i < OS_TMR_CFG_MAX" for i
  proof (cases "tmr_left st i = Some 1")
    case True
    then have "tmr_data (OSTmrTbl st' i) = tmr_fire (OSTmrTime st + 1) (tmr_data (OSTmrTbl st i))"
      using r(4,9) i by simp
    from arg_cong [OF this, of OSTmrState] arg_cong [OF this, of OSTmrMatch]
    have d: "OSTmrState (OSTmrTbl st' i) = (if OSTmrOpt (OSTmrTbl st i) = OS_TMR_OPT_PERIODIC
        then OS_TMR_STATE_RUNNING else OS_TMR_STATE_COMPLETED)"
      "OSTmrOpt (OSTmrTbl st i) = OS_TMR_OPT_PERIODIC \<Longrightarrow>
        OSTmrMatch (OSTmrTbl st' i) = OSTmrPeriod (OSTmrTbl st i) + (OSTmrTime st + 1)"
      by (simp_all add: tmr_fire_def)
    have "OSTmrState (OSTmrTbl st i) \<noteq> OS_TMR_STATE_COMPLETED"
      using True by (auto simp: tmr_left_def split: if_splits)
    then show ?thesis using True d by (auto simp: tmr_left_def [of st'] r(6))
  next
    case False
    then have "tmr_data (OSTmrTbl st' i) = tmr_data (OSTmrTbl st i)" using r(4,9) i by simp
    note same = tmr_data_eq(1,2) [OF this]
    have "OSTmrMatch (OSTmrTbl st i) \<noteq> OSTmrTime st" if "OSTmrState (OSTmrTbl st i) = OS_TMR_STATE_RUNNING"
      using wf i that by (auto simp: tmr_wf_def in_state_def)
    then show ?thesis
      using False by (auto simp: tmr_left_def same r(6) unat_diff_next)
  qed
  moreover have "kern st' = fold (\<lambda>i. run_callback cb (OSTmrTbl st i) i) due (kern st)"
    using r(5) by (simp add: run_callback_data)
  ultimately show ?thesis using r(1-4) by blast
qed

lemma tmr_round_left:
  assumes wf: "tmr_wf st" and i: "i < OS_TMR_CFG_MAX"
  shows "\<exists>st'. tmr_round cb st = Some ((), st') \<and> tmr_wf st' \<and>
    OSTmrOpt (OSTmrTbl st' i) = OSTmrOpt (OSTmrTbl st i) \<and>
    OSTmrPeriod (OSTmrTbl st' i) = OSTmrPeriod (OSTmrTbl st i) \<and>
    (\<forall>n. tmr_left st i = Some (Suc (Suc n)) \<longrightarrow> tmr_left st' i = Some (Suc n)) \<and>
    (tmr_left st i = Some 1 \<longrightarrow> tmr_left st' i = (if OSTmrOpt (OSTmrTbl st i) = OS_TMR_OPT_PERIODIC
       then Some (unat (OSTmrPeriod (OSTmrTbl st i))) else None))"
proof -
  obtain st' due where r: "tmr_round cb st = Some ((), st')" "tmr_wf st'" "distinct due"
    "set due = {i. i < OS_TMR_CFG_MAX \<and> tmr_left st i = Some 1}"
    "kern st' = fold (\<lambda>i. run_callback cb (tmr_data (OSTmrTbl st i)) i) due (kern st)"
    "OSTmrTime st' = OSTmrTime st + 1" "OSTmrSem st' = OSTmrSem st"
    "OSTmrSemSignal st' = OSTmrSemSignal st"
    "\<forall>i. tmr_data (OSTmrTbl st' i) = (if i \<in> set due then tmr_fire (OSTmrTime st + 1)
       (tmr_data (OSTmrTbl st i)) else tmr_data (OSTmrTbl st i))"
    by (rule tmr_round_ok [OF wf, of cb])
  show ?thesis
  proof (cases "tmr_left st i = Some 1")
    case True
    then have d: "tmr_data (OSTmrTbl st' i) = tmr_fire (OSTmrTime st + 1) (tmr_data (OSTmrTbl st i))"
      using r(4,9) i by simp
    have "OSTmrState (OSTmrTbl st' i) = (if OSTmrOpt (OSTmrTbl st i) = OS_TMR_OPT_PERIODIC
        then OS_TMR_STATE_RUNNING else OS_TMR_STATE_COMPLETED)"
      "OSTmrOpt (OSTmrTbl st i) = OS_TMR_OPT_PERIODIC \<Longrightarrow>
        OSTmrMatch (OSTmrTbl st' i) = OSTmrPeriod (OSTmrTbl st i) + (OSTmrTime st + 1)"
      "OSTmrOpt (OSTmrTbl st' i) = OSTmrOpt (OSTmrTbl st i)"
      "OSTmrPeriod (OSTmrTbl st' i) = OSTmrPeriod (OSTmrTbl st i)"
      using arg_cong [OF d, of OSTmrState] arg_cong [OF d, of OSTmrMatch]
        arg_cong [OF d, of OSTmrOpt] arg_cong [OF d, of OSTmrPeriod] by (auto simp: tmr_fire_def)
    then show ?thesis using True r(1,2) by (simp add: tmr_left_def [of st'] r(6))
  next
    case False
    then have "tmr_data (OSTmrTbl st' i) = tmr_data (OSTmrTbl st i)" using r(4,9) i by simp
    note same = tmr_data_eq [OF this]
    have "OSTmrMatch (OSTmrTbl st i) \<noteq> OSTmrTime st" if "OSTmrState (OSTmrTbl st i) = OS_TMR_STATE_RUNNING"
      using wf i that by (auto simp: tmr_wf_def in_state_def)
    then show ?thesis
      using False r(1,2) by (auto simp: tmr_left_def same r(6) unat_diff_next)
  qed
qed

text \<open>Rounds of the timer task.\<close>

definition tmr_rounds :: "nat \<Rightarrow> tmr_callback \<Rightarrow> tmr_state \<Rightarrow> tmr_state option" where
  "tmr_rounds n cb st = ticks n (\<lambda>st. map_option snd (tmr_round cb st)) st"

text \<open>A timer of the table with option \<open>opt\<close> and period \<open>per\<close>.\<close>

definition tmr_at :: "nat \<Rightarrow> u8 \<Rightarrow> u32 \<Rightarrow> tmr_state \<Rightarrow> bool" where
  "tmr_at i opt per st \<longleftrightarrow> tmr_wf st \<and> i < OS_TMR_CFG_MAX \<and> OSTmrOpt (OSTmrTbl st i) = opt \<and>
     OSTmrPeriod (OSTmrTbl st i) = per"

interpretation rounds: countdown "\<lambda>st. map_option snd (tmr_round cb st)" "tmr_at i opt per" "\<lambda>st. tmr_left st i"
  for cb i opt per
proof
  fix st assume "tmr_at i opt per st"
  then show "\<exists>s'. map_option snd (tmr_round cb st) = Some s' \<and> tmr_at i opt per s'"
    using tmr_round_left [of st i cb] by (fastforce simp: tmr_at_def)
next
  fix st st' n assume "tmr_at i opt per st" "map_option snd (tmr_round cb st) = Some st'"
    "tmr_left st i = Some (Suc (Suc n))"
  then show "tmr_left st' i = Some (Suc n)"
    using tmr_round_left [of st i cb] by (fastforce simp: tmr_at_def)
qed

lemma tmr_state_cases:
  assumes "tmr_typed t"
  shows "OSTmrState t = OS_TMR_STATE_UNUSED \<or> OSTmrState t = OS_TMR_STATE_STOPPED \<or>
    OSTmrState t = OS_TMR_STATE_COMPLETED \<or> OSTmrState t = OS_TMR_STATE_RUNNING"
proof -
  define n where "n = unat (OSTmrState t)"
  have x: "OSTmrState t = of_nat n" by (simp add: n_def)
  have "n \<le> 3" using assms by (simp add: tmr_typed_def word_le_nat_alt n_def)
  then have "n = 0 \<or> n = 1 \<or> n = 2 \<or> n = 3" by arith
  then show ?thesis by (elim disjE) (simp_all add: x)
qed

lemma tmr_start_ok:
  assumes wf: "tmr_wf st" and i: "i < OS_TMR_CFG_MAX"
    and c: "OSTmrState (OSTmrTbl st i) \<noteq> OS_TMR_STATE_UNUSED"
  obtains st' where "tmr_start i st = Some ((True, Some OS_ERR_NONE), st')" "tmr_wf st'"
    "tmr_left st' i = Some (unat (if OSTmrDly (OSTmrTbl st i) = 0 then OSTmrPeriod (OSTmrTbl st i)
       else OSTmrDly (OSTmrTbl st i)))"
    "OSTmrOpt (OSTmrTbl st' i) = OSTmrOpt (OSTmrTbl st i)"
    "OSTmrPeriod (OSTmrTbl st' i) = OSTmrPeriod (OSTmrTbl st i)"
    "kern st' = kern st" "OSTmrSem st' = OSTmrSem st"
proof (cases "OSTmrState (OSTmrTbl st i) = OS_TMR_STATE_RUNNING")
  case True
  obtain st1 where u: "OSTmr_Unlink i st = Some st1" "tmr_wf st1" "tmr_frame i st st1"
    "tmr_data (OSTmrTbl st1 i) = (tmr_data (OSTmrTbl st i))\<lparr>OSTmrState := OS_TMR_STATE_STOPPED\<rparr>"
    using OSTmr_Unlink_wf [OF wf i True] by blast
  have d: "OSTmrState (OSTmrTbl st1 i) = OS_TMR_STATE_STOPPED"
    "OSTmrDly (OSTmrTbl st1 i) = OSTmrDly (OSTmrTbl st i)"
    "OSTmrPeriod (OSTmrTbl st1 i) = OSTmrPeriod (OSTmrTbl st i)"
    "OSTmrOpt (OSTmrTbl st1 i) = OSTmrOpt (OSTmrTbl st i)"
    using arg_cong [OF u(4), of OSTmrState] arg_cong [OF u(4), of OSTmrDly]
      arg_cong [OF u(4), of OSTmrPeriod] arg_cong [OF u(4), of OSTmrOpt] by simp_all
  show ?thesis
    using OSTmr_Link_wf [OF u(2) i] True u(1,3) d
    by (intro that [of "OSTmr_Link i OS_TMR_LINK_DLY st1"]) (simp_all add: tmr_start_def tmr_frame_def)
next
  case False
  have "OSTmrState (OSTmrTbl st i) = OS_TMR_STATE_STOPPED \<or> OSTmrState (OSTmrTbl st i) = OS_TMR_STATE_COMPLETED"
    using wf i tmr_state_cases [of "OSTmrTbl st i"] False c by (auto simp: tmr_wf_def)
  then show ?thesis
    using OSTmr_Link_wf [OF wf i False c] by (intro that [of "OSTmr_Link i OS_TMR_LINK_DLY st"]) (auto simp: tmr_start_def tmr_frame_def)
qed

text \<open>
  C29: Once it is started, a timer fires in the round of the timer task that its delay says (its period,
  when the delay is 0), not earlier and not later, for any delay up to 2^32 - 1 and wherever the timer
  clock stands, wrap-around included.  A periodic timer then has its period to go, a one-shot timer
  does not run any more.\<close>

theorem OSTmrStart_on_time:
  assumes wf: "tmr_wf st" and i: "i < OS_TMR_CFG_MAX"
    and c: "OSTmrState (OSTmrTbl st i) \<noteq> OS_TMR_STATE_UNUSED"
    and n: "n = unat (if OSTmrDly (OSTmrTbl st i) = 0 then OSTmrPeriod (OSTmrTbl st i)
       else OSTmrDly (OSTmrTbl st i))"
  shows "\<exists>st0. tmr_start i st = Some ((True, Some OS_ERR_NONE), st0) \<and>
    (\<forall>m < n. \<exists>st'. tmr_rounds m cb st0 = Some st' \<and> tmr_left st' i = Some (n - m)) \<and>
    (\<exists>st'. tmr_rounds n cb st0 = Some st' \<and>
       tmr_left st' i = (if OSTmrOpt (OSTmrTbl st i) = OS_TMR_OPT_PERIODIC
         then Some (unat (OSTmrPeriod (OSTmrTbl st i))) else None))"
proof -
  obtain st0 where s0: "tmr_start i st = Some ((True, Some OS_ERR_NONE), st0)" "tmr_wf st0"
    "tmr_left st0 i = Some n" "OSTmrOpt (OSTmrTbl st0 i) = OSTmrOpt (OSTmrTbl st i)"
    "OSTmrPeriod (OSTmrTbl st0 i) = OSTmrPeriod (OSTmrTbl st i)"
    using tmr_start_ok [OF wf i c] n by metis
  have "tmr_typed (OSTmrTbl st i)" using wf i by (simp add: tmr_wf_def)
  then have "0 < n" using c by (auto simp: tmr_typed_def n unat_gt_0)
  then obtain k where k: "n = Suc k" by (cases n) auto
  have at: "tmr_at i (OSTmrOpt (OSTmrTbl st i)) (OSTmrPeriod (OSTmrTbl st i)) st0"
    using s0(2,4,5) i by (simp add: tmr_at_def)
  obtain st1 where s1: "tmr_at i (OSTmrOpt (OSTmrTbl st i)) (OSTmrPeriod (OSTmrTbl st i)) st1"
    "tmr_left st1 i = Some 1" "tmr_rounds n cb st0 = map_option snd (tmr_round cb st1)"
    using rounds.last_tick [OF at, of k cb] s0(3) k unfolding tmr_rounds_def by blast
  have "\<exists>st'. tmr_rounds n cb st0 = Some st' \<and>
       tmr_left st' i = (if OSTmrOpt (OSTmrTbl st i) = OS_TMR_OPT_PERIODIC
         then Some (unat (OSTmrPeriod (OSTmrTbl st i))) else None)"
    using tmr_round_left [of st1 i cb] s1 by (auto simp: tmr_at_def)
  then show ?thesis
    using s0(1) rounds.ticks_left [OF at s0(3)] unfolding tmr_rounds_def by blast
qed

section \<open>Allocation\<close>

text \<open>A change of the free list, of the counts and of a timer that is not running.\<close>

lemma tmr_lists_free:
  assumes l: "tmr_lists st fs w"
    and same: "\<And>j. j \<noteq> i \<Longrightarrow> OSTmrTbl st' j = OSTmrTbl st j" "OSTmrWheelTbl st' = OSTmrWheelTbl st"
    and i: "OSTmrState (OSTmrTbl st i) \<noteq> OS_TMR_STATE_RUNNING" "OSTmrState (OSTmrTbl st' i) \<noteq> OS_TMR_STATE_RUNNING"
    and fs': "tmr_chain (OSTmrTbl st') (OSTmrFreeList st') fs'" "distinct fs'"
      "set fs' = in_state OS_TMR_STATE_UNUSED st'"
      "OSTmrFree st' = of_nat (length fs')" "OSTmrUsed st' = of_nat OS_TMR_CFG_MAX - of_nat (length fs')"
  shows "tmr_lists st' fs' w"
proof -
  have "spoke_list st' k (w k)" if k: "k < 2" for k
  proof -
    have "OSTmrTbl st' j = OSTmrTbl st j" if "j \<in> set (w k)" for j
      using that in_spoke [OF l k, of j] i(1) by (intro same) auto
    then show ?thesis
      using spoke_lists [OF l k refl] spoke_list_cong [of "w k" st' st k] same(2) by simp
  qed
  moreover have "set (w k) = {j \<in> in_state OS_TMR_STATE_RUNNING st'. spoke_of (OSTmrMatch (OSTmrTbl st' j)) = k}"
    if k: "k < 2" for k
  proof (intro set_eqI)
    fix j
    show "j \<in> set (w k) \<longleftrightarrow>
        j \<in> {j \<in> in_state OS_TMR_STATE_RUNNING st'. spoke_of (OSTmrMatch (OSTmrTbl st' j)) = k}"
      using in_spoke [OF l k, of j] i same(1) [of j] by (cases "j = i") (auto simp: in_state_def)
  qed
  ultimately show ?thesis using fs' by (simp add: tmr_lists_def)
qed

lemma tmr_wf_other:
  assumes wf: "tmr_wf st" and l: "tmr_lists st' fs w"
    and same: "\<And>j. j \<noteq> i \<Longrightarrow> OSTmrTbl st' j = OSTmrTbl st j" "OSTmrTime st' = OSTmrTime st"
    and i: "tmr_typed (OSTmrTbl st' i)" "OSTmrState (OSTmrTbl st' i) \<noteq> OS_TMR_STATE_RUNNING"
  shows "tmr_wf st'"
proof -
  have "tmr_typed (OSTmrTbl st' j)" if "j < OS_TMR_CFG_MAX" for j
    using wf i(1) same(1) [of j] that by (cases "j = i") (auto simp: tmr_wf_def)
  moreover have "OSTmrMatch (OSTmrTbl st' j) \<noteq> OSTmrTime st'" if "j \<in> in_state OS_TMR_STATE_RUNNING st'" for j
    using wf i(2) same(1) [of j] same(2) that by (cases "j = i") (auto simp: tmr_wf_def in_state_def)
  ultimately show ?thesis using l by (auto simp: tmr_wf_def)
qed

lemma OSTmr_Free_wf:
  assumes wf: "tmr_wf st" and i: "i < OS_TMR_CFG_MAX"
    and c: "OSTmrState (OSTmrTbl st i) \<noteq> OS_TMR_STATE_UNUSED" "OSTmrState (OSTmrTbl st i) \<noteq> OS_TMR_STATE_RUNNING"
  shows "tmr_wf (OSTmr_Free i st)"
proof -
  obtain fs w where l: "tmr_lists st fs w" using wf by (auto simp: tmr_wf_def)
  let ?st = "OSTmr_Free i st"
  have o: "OSTmrTbl ?st j = OSTmrTbl st j" if "j \<noteq> i" for j
    using that by (simp add: OSTmr_Free_def Let_def)
  have n: "OSTmrState (OSTmrTbl ?st i) = OS_TMR_STATE_UNUSED" "OSTmrNext (OSTmrTbl ?st i) = OSTmrFreeList st"
    "OSTmrFreeList ?st = Some i" "OSTmrWheelTbl ?st = OSTmrWheelTbl st" "OSTmrTime ?st = OSTmrTime st"
    "OSTmrFree ?st = OSTmrFree st + 1" "OSTmrUsed ?st = OSTmrUsed st - 1"
    by (simp_all add: OSTmr_Free_def Let_def)
  have ifs: "i \<notin> set fs" using in_free [OF l] c(1) by simp
  have "tmr_chain (OSTmrTbl ?st) (OSTmrFreeList st) fs = tmr_chain (OSTmrTbl st) (OSTmrFreeList st) fs"
    by (rule tmr_chain_cong) (use ifs o in metis)
  then have "tmr_chain (OSTmrTbl ?st) (Some i) (i # fs)"
    using l n(2) by (simp add: tmr_lists_def)
  moreover have "set (i # fs) = in_state OS_TMR_STATE_UNUSED ?st"
  proof (intro set_eqI)
    fix j
    show "j \<in> set (i # fs) \<longleftrightarrow> j \<in> in_state OS_TMR_STATE_UNUSED ?st"
      using in_free [OF l, of j] o [of j] n(1) i by (cases "j = i") (simp_all add: in_state_def)
  qed
  ultimately have "tmr_lists ?st (i # fs) w"
    using l ifs c(2) n by (intro tmr_lists_free [OF l o]) (auto simp: tmr_lists_def)
  moreover have "tmr_typed (OSTmrTbl ?st i)"
    using wf i by (auto simp: OSTmr_Free_def Let_def tmr_wf_def tmr_typed_def name_unknown_def set_update_memI)
  ultimately show ?thesis
    using tmr_wf_other [OF wf _ o, of "i # fs" w] n(1,5) by simp
qed

lemma tmr_free_head:
  assumes wf: "tmr_wf st" and f: "OSTmrFreeList st = Some i"
  shows "i < OS_TMR_CFG_MAX" "OSTmrState (OSTmrTbl st i) = OS_TMR_STATE_UNUSED"
proof -
  obtain fs w where l: "tmr_lists st fs w" using wf by (auto simp: tmr_wf_def)
  then have "i \<in> set fs" using f by (cases fs) (auto simp: tmr_lists_def)
  then show "i < OS_TMR_CFG_MAX" "OSTmrState (OSTmrTbl st i) = OS_TMR_STATE_UNUSED"
    using in_free [OF l] by auto
qed

lemma tmr_alloc_wf:
  assumes wf: "tmr_wf st" and f: "OSTmrFreeList st = Some i"
    and t: "tmr_typed t" "OSTmrState t = OS_TMR_STATE_STOPPED"
    and st': "OSTmrTbl st' = (OSTmrTbl st)(i := t)" "OSTmrFreeList st' = OSTmrNext (OSTmrTbl st i)"
      "OSTmrUsed st' = OSTmrUsed st + 1" "OSTmrFree st' = OSTmrFree st - 1"
      "OSTmrTime st' = OSTmrTime st" "OSTmrWheelTbl st' = OSTmrWheelTbl st"
  shows "tmr_wf st'"
proof -
  obtain fs w where l: "tmr_lists st fs w" using wf by (auto simp: tmr_wf_def)
  then obtain js where fs: "fs = i # js" using f by (cases fs) (auto simp: tmr_lists_def)
  have o: "OSTmrTbl st' j = OSTmrTbl st j" if "j \<noteq> i" for j using that st'(1) by simp
  have d: "distinct (i # js)" using l by (simp add: tmr_lists_def fs)
  have "tmr_chain (OSTmrTbl st') (OSTmrNext (OSTmrTbl st i)) js =
      tmr_chain (OSTmrTbl st) (OSTmrNext (OSTmrTbl st i)) js"
    by (rule tmr_chain_cong) (use o d in \<open>metis distinct.simps(2)\<close>)
  then have ch: "tmr_chain (OSTmrTbl st') (OSTmrFreeList st') js"
    using l by (simp add: tmr_lists_def fs st'(2))
  have set: "set js = in_state OS_TMR_STATE_UNUSED st'"
  proof (intro set_eqI)
    fix j
    show "j \<in> set js \<longleftrightarrow> j \<in> in_state OS_TMR_STATE_UNUSED st'"
      using in_free [OF l, of j] o [of j] t(2) d st'(1) by (cases "j = i") (simp_all add: in_state_def fs)
  qed
  have len: "OSTmrFree st' = of_nat (length js)"
    "OSTmrUsed st' = of_nat OS_TMR_CFG_MAX - of_nat (length js)"
    using l by (simp_all add: tmr_lists_def fs st'(3,4))
  have "tmr_lists st' js w"
    using tmr_lists_free [OF l o st'(6)] tmr_free_head(2) [OF wf f] ch set len d t(2) st'(1) by simp
  then show ?thesis
    using tmr_wf_other [OF wf _ o st'(5), of js w] t st'(1) by simp
qed

text \<open>A name the program may pass: a terminated string shorter than 256 characters.\<close>

definition name_arg :: "u8 list option \<Rightarrow> bool" where
  "name_arg pname \<longleftrightarrow> (\<forall>nm. pname = Some nm \<longrightarrow> (\<exists>xs. c_string xs nm \<and> length xs < 256))"

definition timer_args :: "u32 \<Rightarrow> u32 \<Rightarrow> u8 \<Rightarrow> bool" where
  "timer_args dly period opt \<longleftrightarrow>
     opt = OS_TMR_OPT_PERIODIC \<and> period \<noteq> 0 \<or> opt = OS_TMR_OPT_ONE_SHOT \<and> dly \<noteq> 0"

lemma tmr_create_ok:
  assumes wf: "tmr_wf st" and a: "timer_args dly period opt" and nm: "name_arg pname"
  shows "\<exists>r st'. tmr_create dly period opt f arg pname st = Some (r, st') \<and> tmr_wf st' \<and>
    (case OSTmrFreeList st of
       None \<Rightarrow> r = (None, Some OS_ERR_TMR_NON_AVAIL) \<and> st' = st
     | Some i \<Rightarrow> fst r = Some i \<and> OSTmrState (OSTmrTbl st i) = OS_TMR_STATE_UNUSED \<and>
         OSTmrState (OSTmrTbl st' i) = OS_TMR_STATE_STOPPED \<and> OSTmrDly (OSTmrTbl st' i) = dly \<and>
         OSTmrPeriod (OSTmrTbl st' i) = period \<and> OSTmrOpt (OSTmrTbl st' i) = opt)"
proof (cases "OSTmrFreeList st")
  case None
  then show ?thesis using wf by (simp add: tmr_create_def OSTmr_Alloc_def)
next
  case (Some i)
  note fh = tmr_free_head [OF wf Some]
  have ty: "tmr_typed (OSTmrTbl st i)" using wf fh(1) by (simp add: tmr_wf_def)
  define mk where "mk nm' = st\<lparr>OSTmrFreeList := OSTmrNext (OSTmrTbl st i),
    OSTmrTbl := (OSTmrTbl st)(i := (OSTmrTbl st i)\<lparr>OSTmrNext := None, OSTmrPrev := None,
      OSTmrState := OS_TMR_STATE_STOPPED, OSTmrDly := dly, OSTmrPeriod := period, OSTmrOpt := opt,
      OSTmrCallback := f, OSTmrCallbackArg := arg, OSTmrName := nm'\<rparr>),
    OSTmrUsed := OSTmrUsed st + 1, OSTmrFree := OSTmrFree st - 1\<rparr>" for nm'
  have wf': "tmr_wf (mk nm')" if "length nm' = 16 \<and> 0 \<in> set nm'" for nm'
    by (rule tmr_alloc_wf [OF wf Some, where t = "OSTmrTbl (mk nm') i"])
      (use that ty a in \<open>simp_all add: mk_def tmr_typed_def timer_args_def\<close>)
  let ?nm = "OSTmrName (OSTmrTbl st i)"
  have l16: "length ?nm = 16" "0 \<in> set ?nm" using ty by (simp_all add: tmr_typed_def)
  have z: "0 \<in> set (?nm[0 := 0x23, 1 := 0])" using l16(1) by (simp add: set_update_memI)
  have "\<exists>e nm'. tmr_create dly period opt f arg pname st = Some ((Some i, e), mk nm') \<and>
      length nm' = 16 \<and> 0 \<in> set nm'"
  proof (cases pname)
    case None
    have "tmr_create dly period opt f arg pname st = Some ((Some i, Some OS_ERR_NONE), mk ?nm)"
      by (simp add: tmr_create_def OSTmr_Alloc_def Some Let_def mk_def None)
    then show ?thesis using l16 by blast
  next
    case nam: (Some nam)
    then obtain xs where xs: "c_string xs nam" "length xs < 256" using nm by (auto simp: name_arg_def)
    note len = OS_StrLen_string [OF xs(1)]
    have lt: "(of_nat (length xs) :: u8) < 16 \<longleftrightarrow> length xs < 16"
      using xs(2) by (simp add: word_less_nat_alt unat_of_nat)
    show ?thesis
    proof (cases "length xs < 16")
      case True
      then have cp: "OS_StrCopy ?nm nam = Some (of_nat (length xs), xs @ 0 # drop (Suc (length xs)) ?nm)"
        using OS_StrCopy_string [OF xs(1), of ?nm] l16(1) by simp
      have "tmr_create dly period opt f arg pname st =
          Some ((Some i, Some OS_ERR_NONE), mk (xs @ 0 # drop (Suc (length xs)) ?nm))"
        using True lt by (simp add: tmr_create_def OSTmr_Alloc_def Some Let_def nam len cp)
          (simp add: upd_tmr_def mk_def)
      then show ?thesis
        using True l16 by (intro exI [of _ "Some OS_ERR_NONE"] exI [of _ "xs @ 0 # drop (Suc (length xs)) ?nm"]) simp
    next
      case False
      have "tmr_create dly period opt f arg pname st =
          Some ((Some i, Some OS_ERR_TMR_NAME_TOO_LONG), mk (?nm[0 := 0x23, 1 := 0]))"
        using False lt by (simp add: tmr_create_def OSTmr_Alloc_def Some Let_def nam len)
          (simp add: upd_tmr_def mk_def)
      then show ?thesis
        using l16(1) z by (intro exI [of _ "Some OS_ERR_TMR_NAME_TOO_LONG"] exI [of _ "?nm[0 := 0x23, 1 := 0]"]) simp
    qed
  qed
  then obtain e nm' where "tmr_create dly period opt f arg pname st = Some ((Some i, e), mk nm')"
    "length nm' = 16 \<and> 0 \<in> set nm'" by blast
  then show ?thesis using wf' fh Some by (simp add: mk_def)
qed

section \<open>The timers in use\<close>

text \<open>A body never writes through \<^verbatim>\<open>NULL\<close> or past an array and keeps the timers consistent.\<close>

definition safe_body :: "(tmr_state \<Rightarrow> ('a \<times> tmr_state) option) \<Rightarrow> bool" where
  "safe_body body \<longleftrightarrow> (\<forall>st. tmr_wf st \<longrightarrow> (\<exists>r st'. body st = Some (r, st') \<and> tmr_wf st'))"

lemma safe_bodyI:
  "(\<And>st. tmr_wf st \<Longrightarrow> \<exists>r st'. body st = Some (r, st') \<and> tmr_wf st') \<Longrightarrow> safe_body body"
  by (simp add: safe_body_def)

lemma tmr_wf_kern [simp]: "tmr_wf (st\<lparr>kern := s\<rparr>) = tmr_wf st"
  by (simp add: tmr_wf_def in_state_def)

lemma tmr_wf_Unlock [simp]: "tmr_wf (OSTmr_Unlock st) = tmr_wf st"
  by (simp add: OSTmr_Unlock_def)

lemma OSTmr_Lock_split:
  obtains s where "OSTmr_Lock st = (Done (), st\<lparr>kern := s\<rparr>)" | s where "OSTmr_Lock st = (Wait, st\<lparr>kern := s\<rparr>)"
  by (cases "OSSemPend (OSTmrSem st) 0 True (kern st)"; cases "fst (OSSemPend (OSTmrSem st) 0 True (kern st))")
    (auto simp: OSTmr_Lock_def)

lemma safe_locked:
  assumes "safe_body body"
  shows "safe_body (tmr_locked body)" "safe_body (tmr_locked_resume body)"
proof -
  show "safe_body (tmr_locked body)"
  proof (rule safe_bodyI)
    fix st assume wf: "tmr_wf st"
    show "\<exists>r st'. tmr_locked body st = Some (r, st') \<and> tmr_wf st'"
    proof (cases rule: OSTmr_Lock_split [of st])
      case (1 s)
      then have "tmr_wf (st\<lparr>kern := s\<rparr>)" using wf by simp
      then obtain r st1 where "body (st\<lparr>kern := s\<rparr>) = Some (r, st1)" "tmr_wf st1"
        using assms unfolding safe_body_def by blast
      then show ?thesis using 1 by (simp add: tmr_locked_def)
    next
      case (2 s)
      then show ?thesis using wf by (simp add: tmr_locked_def)
    qed
  qed
  show "safe_body (tmr_locked_resume body)"
  proof (rule safe_bodyI)
    fix st assume "tmr_wf st"
    then have "tmr_wf (st\<lparr>kern := snd (OSSemPend_resume (OSTmrSem st) (kern st))\<rparr>)" by simp
    then obtain r st1 where "body (st\<lparr>kern := snd (OSSemPend_resume (OSTmrSem st) (kern st))\<rparr>) = Some (r, st1)"
      "tmr_wf st1" using assms unfolding safe_body_def by blast
    then show "\<exists>r st'. tmr_locked_resume body st = Some (r, st') \<and> tmr_wf st'"
      by (simp add: tmr_locked_resume_def)
  qed
qed

lemma safe_checked:
  assumes "\<And>i. ptmr = Some i \<Longrightarrow> safe_body (body i)"
  shows "safe_body (tmr_checked bad ptmr perr isr body)"
proof (rule safe_bodyI)
  fix st assume wf: "tmr_wf st"
  show "\<exists>r st'. tmr_checked bad ptmr perr isr body st = Some (r, st') \<and> tmr_wf st'"
  proof (cases ptmr)
    case (Some i)
    then have "safe_body (tmr_locked (body i))" using assms safe_locked(1) by blast
    then have "\<exists>r st'. tmr_locked (body i) st = Some (r, st') \<and> tmr_wf st'"
      using wf by (simp add: safe_body_def)
    then show ?thesis using wf Some by (simp add: tmr_checked_def)
  qed (use wf in \<open>simp add: tmr_checked_def\<close>)
qed

lemma safe_create: "timer_args dly period opt \<Longrightarrow> name_arg pname \<Longrightarrow>
    safe_body (tmr_create dly period opt f arg pname)"
  using tmr_create_ok by (intro safe_bodyI) blast

lemma safe_create_call: "name_arg pname \<Longrightarrow> safe_body (OSTmrCreate dly period opt f arg pname perr)"
proof (rule safe_bodyI)
  fix st assume nm: "name_arg pname" and wf: "tmr_wf st"
  consider "timer_args dly period opt" | "\<not> timer_args dly period opt" by blast
  then show "\<exists>r st'. OSTmrCreate dly period opt f arg pname perr st = Some (r, st') \<and> tmr_wf st'"
  proof cases
    case 1
    then show ?thesis
      using wf safe_locked(1) [OF safe_create [OF 1 nm, of f arg]]
      by (auto simp: OSTmrCreate_def safe_body_def timer_args_def)
  next
    case 2
    then show ?thesis using wf by (auto simp: OSTmrCreate_def timer_args_def)
  qed
qed

lemma safe_del: "i < OS_TMR_CFG_MAX \<Longrightarrow> safe_body (tmr_del i)"
proof (rule safe_bodyI)
  fix st assume i: "i < OS_TMR_CFG_MAX" and wf: "tmr_wf st"
  show "\<exists>r st'. tmr_del i st = Some (r, st') \<and> tmr_wf st'"
  proof (cases "OSTmrState (OSTmrTbl st i) = OS_TMR_STATE_RUNNING")
    case True
    obtain st1 where u: "OSTmr_Unlink i st = Some st1" "tmr_wf st1"
      "tmr_data (OSTmrTbl st1 i) = (tmr_data (OSTmrTbl st i))\<lparr>OSTmrState := OS_TMR_STATE_STOPPED\<rparr>"
      using OSTmr_Unlink_wf [OF wf i True] by blast
    have "OSTmrState (OSTmrTbl st1 i) = OS_TMR_STATE_STOPPED" using arg_cong [OF u(3), of OSTmrState] by simp
    then show ?thesis using OSTmr_Free_wf [OF u(2) i] u(1) True by (auto simp: tmr_del_def)
  next
    case False
    then show ?thesis
      using OSTmr_Free_wf [OF wf i _ False] wf by (auto simp: tmr_del_def Let_def)
  qed
qed

lemma safe_start: "i < OS_TMR_CFG_MAX \<Longrightarrow> safe_body (tmr_start i)"
proof (rule safe_bodyI)
  fix st assume i: "i < OS_TMR_CFG_MAX" and wf: "tmr_wf st"
  show "\<exists>r st'. tmr_start i st = Some (r, st') \<and> tmr_wf st'"
  proof (cases "OSTmrState (OSTmrTbl st i) = OS_TMR_STATE_UNUSED")
    case False
    from tmr_start_ok [OF wf i this] show ?thesis by blast
  qed (use wf in \<open>auto simp: tmr_start_def\<close>)
qed

lemma safe_stop: "i < OS_TMR_CFG_MAX \<Longrightarrow> safe_body (tmr_stop cb opt arg i)"
proof (rule safe_bodyI)
  fix st assume i: "i < OS_TMR_CFG_MAX" and wf: "tmr_wf st"
  have cb: "tmr_wf (call_back cb i a st1) = tmr_wf st1" for a st1
    by (simp add: call_back_def Let_def)
  show "\<exists>r st'. tmr_stop cb opt arg i st = Some (r, st') \<and> tmr_wf st'"
  proof (cases "OSTmrState (OSTmrTbl st i) = OS_TMR_STATE_RUNNING")
    case True
    obtain st1 where "OSTmr_Unlink i st = Some st1" "tmr_wf st1"
      using OSTmr_Unlink_wf [OF wf i True] by blast
    then show ?thesis using True cb by (auto simp: tmr_stop_def Let_def)
  next
    case False
    then show ?thesis using wf by (auto simp: tmr_stop_def Let_def)
  qed
qed

lemma safe_get: "safe_body (tmr_remain i)" "safe_body (tmr_state_get i)"
  by (rule safe_bodyI, auto simp: tmr_remain_def tmr_state_get_def Let_def)+

lemma safe_round: "safe_body (tmr_round cb)"
proof (rule safe_bodyI)
  fix st assume "tmr_wf st"
  from tmr_round_left [OF this, of 0 cb] show "\<exists>r st'. tmr_round cb st = Some (r, st') \<and> tmr_wf st'" by auto
qed

lemma safe_task: "safe_body (OSTmr_Task cb)" "safe_body (OSTmr_Task_resume cb)"
proof -
  have lk: "\<exists>r st'. tmr_locked (tmr_round cb) st = Some (r, st') \<and> tmr_wf st'" if "tmr_wf st" for st
    using safe_locked(1) [OF safe_round, of cb] that by (simp add: safe_body_def)
  show "safe_body (OSTmr_Task cb)"
  proof (rule safe_bodyI)
    fix st assume wf: "tmr_wf st"
    obtain a s where p: "OSSemPend (OSTmrSemSignal st) 0 True (kern st) = (a, s)" by fastforce
    have "\<exists>r st'. tmr_locked (tmr_round cb) (st\<lparr>kern := s\<rparr>) = Some (r, st') \<and> tmr_wf st'"
      by (rule lk) (simp add: wf)
    then show "\<exists>r st'. OSTmr_Task cb st = Some (r, st') \<and> tmr_wf st'"
      using wf by (cases a) (simp_all add: OSTmr_Task_def p)
  qed
  show "safe_body (OSTmr_Task_resume cb)"
    by (rule safe_bodyI) (simp add: OSTmr_Task_resume_def lk)
qed

lemma safe_name_get:
  assumes i: "i < OS_TMR_CFG_MAX" and buf: "OS_TMR_CFG_NAME_SIZE \<le> length buf"
  shows "safe_body (tmr_name_get buf i)"
proof (rule safe_bodyI)
  fix st assume wf: "tmr_wf st"
  let ?nm = "OSTmrName (OSTmrTbl st i)"
  have "length ?nm = 16" "0 \<in> set ?nm" using wf i by (simp_all add: tmr_wf_def tmr_typed_def)
  moreover from this(2) obtain xs ys where "?nm = xs @ 0 # ys" "0 \<notin> set xs" by (auto dest: split_list_first)
  ultimately have "c_string xs ?nm" "length xs < length buf" using buf by (auto simp: c_string_def)
  from OS_StrCopy_string [OF this] show "\<exists>r st'. tmr_name_get buf i st = Some (r, st') \<and> tmr_wf st'"
    using wf by (auto simp: tmr_name_get_def Let_def)
qed

text \<open>
  The timers in use: any calls of the operations on timers of the table, completed or waiting for the
  lock, the end of such waits, the timer task, and any step of the rest of the system, which changes the
  kernel's state only.
\<close>

inductive tmr_step :: "tmr_callback \<Rightarrow> tmr_state \<Rightarrow> tmr_state \<Rightarrow> bool" for cb where
  create: "OSTmrCreate d p opt f a nm perr st = Some (r, st') \<Longrightarrow> name_arg nm \<Longrightarrow> tmr_step cb st st'"
| create_resume: "tmr_locked_resume (tmr_create d p opt f a nm) st = Some (r, st') \<Longrightarrow>
    timer_args d p opt \<Longrightarrow> name_arg nm \<Longrightarrow> tmr_step cb st st'"
| del: "OSTmrDel (Some i) perr st = Some (r, st') \<Longrightarrow> i < OS_TMR_CFG_MAX \<Longrightarrow> tmr_step cb st st'"
| del_resume: "tmr_locked_resume (tmr_del i) st = Some (r, st') \<Longrightarrow> i < OS_TMR_CFG_MAX \<Longrightarrow> tmr_step cb st st'"
| start: "OSTmrStart (Some i) perr st = Some (r, st') \<Longrightarrow> i < OS_TMR_CFG_MAX \<Longrightarrow> tmr_step cb st st'"
| start_resume: "tmr_locked_resume (tmr_start i) st = Some (r, st') \<Longrightarrow> i < OS_TMR_CFG_MAX \<Longrightarrow>
    tmr_step cb st st'"
| stop: "OSTmrStop cb (Some i) opt a perr st = Some (r, st') \<Longrightarrow> i < OS_TMR_CFG_MAX \<Longrightarrow> tmr_step cb st st'"
| stop_resume: "tmr_locked_resume (tmr_stop cb opt a i) st = Some (r, st') \<Longrightarrow> i < OS_TMR_CFG_MAX \<Longrightarrow>
    tmr_step cb st st'"
| task: "OSTmr_Task cb st = Some (r, st') \<Longrightarrow> tmr_step cb st st'"
| task_resume: "OSTmr_Task_resume cb st = Some (r, st') \<Longrightarrow> tmr_step cb st st'"
| round_resume: "tmr_locked_resume (tmr_round cb) st = Some (r, st') \<Longrightarrow> tmr_step cb st st'"
| other: "tmr_step cb st (st\<lparr>kern := s\<rparr>)"

lemma safe_calls:
  assumes "i < OS_TMR_CFG_MAX"
  shows "safe_body (OSTmrDel (Some i) perr)" "safe_body (OSTmrStart (Some i) perr)"
    "safe_body (OSTmrStop cb (Some i) opt a perr)" "safe_body (OSTmrRemainGet (Some i) perr)"
    "safe_body (OSTmrStateGet (Some i) perr)"
    "OS_TMR_CFG_NAME_SIZE \<le> length buf \<Longrightarrow> safe_body (OSTmrNameGet (Some i) (Some buf) perr)"
proof -
  show "safe_body (OSTmrDel (Some i) perr)" "safe_body (OSTmrStart (Some i) perr)"
    "safe_body (OSTmrStop cb (Some i) opt a perr)" "safe_body (OSTmrRemainGet (Some i) perr)"
    "safe_body (OSTmrStateGet (Some i) perr)"
    unfolding OSTmrDel_def OSTmrStart_def OSTmrStop_def OSTmrRemainGet_def OSTmrStateGet_def
    using assms by (auto intro!: safe_checked safe_del safe_start safe_stop safe_get)
  assume buf: "OS_TMR_CFG_NAME_SIZE \<le> length buf"
  have "safe_body (tmr_checked (0, buf) (Some i) perr OS_ERR_NAME_GET_ISR (tmr_name_get buf))"
    by (rule safe_checked) (use safe_name_get [OF _ buf] assms in auto)
  then show "safe_body (OSTmrNameGet (Some i) (Some buf) perr)"
    by (auto simp: OSTmrNameGet_def safe_body_def)
qed

lemma safe_body_result: "safe_body body \<Longrightarrow> body st = Some (r, st') \<Longrightarrow> tmr_wf st \<Longrightarrow> tmr_wf st'"
  by (fastforce simp: safe_body_def)

lemma tmr_step_wf: "tmr_step cb st st' \<Longrightarrow> tmr_wf st \<Longrightarrow> tmr_wf st'"
  by (induction rule: tmr_step.induct)
    (auto intro: safe_body_result [rotated] safe_calls safe_create_call safe_create safe_del safe_start
      safe_stop safe_round safe_task safe_locked)

lemma tmr_steps_wf: "(tmr_step cb)\<^sup>*\<^sup>* st st' \<Longrightarrow> tmr_wf st \<Longrightarrow> tmr_wf st'"
  by (induction rule: rtranclp_induct) (auto dest: tmr_step_wf)

section \<open>The state after initialisation\<close>

lemma tmr_link_other: "j < i \<or> j > i + n \<Longrightarrow> tmr_link n i tbl j = tbl j"
  by (induction n arbitrary: i tbl) auto

lemma tmr_link_at:
  "i \<le> j \<Longrightarrow> j \<le> i + n \<Longrightarrow> tmr_link n i tbl j = (tbl j)\<lparr>OSTmrType := OS_TMR_TYPE,
     OSTmrState := OS_TMR_STATE_UNUSED, OSTmrNext := (if j = i + n then None else Some (j + 1)),
     OSTmrName := name_unknown (OSTmrName (tbl j))\<rparr>"
proof (induction n arbitrary: i tbl)
  case (Suc n)
  then show ?case by (cases "j = i") (auto simp: tmr_link_other)
qed auto

lemma tmr_chain_upt:
  assumes "\<And>j. i \<le> j \<Longrightarrow> j < i + n \<Longrightarrow> OSTmrNext (tbl j) = Some (j + 1)" "OSTmrNext (tbl (i + n)) = None"
  shows "tmr_chain tbl (Some i) [i..<i + n + 1]"
  using assms
proof (induction n arbitrary: i)
  case (Suc n)
  have "tmr_chain tbl (Some (i + 1)) [i + 1..<i + 1 + n + 1]" by (rule Suc.IH) (use Suc.prems in auto)
  moreover have "[i..<i + Suc n + 1] = i # [i + 1..<i + 1 + n + 1]" by (subst upt_conv_Cons) auto
  ultimately show ?case using Suc.prems(1) [of i] by simp
qed simp

lemma tmr_tables_wf: "tmr_wf (tmr_tables st)"
proof -
  let ?st = "tmr_tables st"
  have t: "OSTmrTbl ?st j = tmr_zero\<lparr>OSTmrType := OS_TMR_TYPE, OSTmrState := OS_TMR_STATE_UNUSED,
      OSTmrNext := (if j = 15 then None else Some (j + 1)), OSTmrName := name_unknown (OSTmrName tmr_zero)\<rparr>"
    if "j < 16" for j
    using that tmr_link_at [of 0 j 15] by (simp add: tmr_tables_def)
  have "tmr_chain (OSTmrTbl ?st) (Some 0) [0..<0 + 15 + 1]"
    by (rule tmr_chain_upt) (use t in auto)
  moreover have "set [0..<16] = in_state OS_TMR_STATE_UNUSED ?st" "in_state OS_TMR_STATE_RUNNING ?st = {}"
    by (auto simp: in_state_def t)
  moreover have "spoke_list ?st k []" if "k < 2" for k
    using that by (auto simp: spoke_list_def ring_def tmr_nx_def tmr_pv_def tmr_tables_def)
  ultimately have "tmr_lists ?st [0..<16] (\<lambda>_. [])"
    by (simp add: tmr_lists_def) (simp add: tmr_tables_def)
  moreover have "tmr_typed (OSTmrTbl ?st j)" if "j < 16" for j
    using t [OF that] by (simp add: tmr_typed_def tmr_zero_def name_unknown_def set_update_memI)
  ultimately show ?thesis
    using \<open>in_state OS_TMR_STATE_RUNNING ?st = {}\<close> by (auto simp: tmr_wf_def)
qed

lemma OSTmr_Init_wf:
  assumes "OSTmr_Init prt img st = Some st'"
  shows "tmr_wf st'"
proof -
  have sem: "tmr_wf (st\<lparr>OSTmrSem := a, OSTmrSemSignal := b\<rparr>) = tmr_wf st" for st a b
    by (simp add: tmr_wf_def tmr_lists_def spoke_list_def in_state_def)
  show ?thesis
    using assms tmr_tables_wf [of st] sem
    by (auto simp: OSTmr_Init_def OSTmr_InitTask_def split_beta split: option.splits)
qed

text \<open>Creating and naming a semaphore before the scheduler is started.\<close>

lemma booted_sem:
  assumes b: "booted s js fs P (e # es)" and e: "e < 60"
  shows "\<exists>s'. OSSemCreate cnt s = (PEvent e, s') \<and> booted s' js fs P es \<and>
    OSEventTbl s' = (OSEventTbl s)(e := (OSEventTbl s e)\<lparr>OSEventType := OS_EVENT_TYPE_SEM,
      OSEventCnt := cnt, OSEventPtr := NULL, OSEventName := name_unknown (OSEventName (OSEventTbl s e)),
      OSEventWait := bm_init\<rparr>) \<and> OSTCBTbl s' = OSTCBTbl s \<and> OSTCBPrioTbl s' = OSTCBPrioTbl s"
proof -
  note B = b [unfolded booted_def]
  let ?ev = "(OSEventTbl s e)\<lparr>OSEventType := OS_EVENT_TYPE_SEM, OSEventCnt := cnt, OSEventPtr := NULL,
    OSEventName := name_unknown (OSEventName (OSEventTbl s e)), OSEventWait := bm_init\<rparr>"
  define s' where "s' = s\<lparr>OSEventFreeList := OSEventPtr (OSEventTbl s e),
    OSEventTbl := (OSEventTbl s)(e := ?ev)\<rparr>"
  have fr: "free_events s (e # es)" and nest: "OSIntNesting s = 0" using B by (simp_all add: can_sched_def)
  have eq: "OSSemCreate cnt s = (PEvent e, s')"
    using event_get_free(1) [OF fr] nest
    by (simp add: OSSemCreate_def Let_def s'_def OS_EventWaitListInit_def upd_event_def)
  have "wait_set s' e' = {}" for e'
    using B by (simp add: s'_def wait_set_def bm_elems_init)
  then have "free_events s' es"
    using fr by (auto simp: free_events_def) (simp add: s'_def ev_chain_upd)
  then have "booted s' js fs P es"
    by (rule booted_event [OF b, of _ _ _ ?ev]) (use e in \<open>simp_all add: s'_def bm_elems_init bm_wf_init\<close>)
  then show ?thesis using eq by (auto simp: s'_def)
qed

lemma booted_event_name:
  assumes b: "booted s js fs P es" and e: "e < 60" "e \<notin> set es" and sem: "OSEventType (OSEventTbl s e) = OS_EVENT_TYPE_SEM"
    and nm: "length xs \<le> 31" "\<forall>c \<in> set xs. of_char c \<noteq> (0 :: u8)"
    and len: "length (OSEventName (OSEventTbl s e)) = 32"
  shows "\<exists>s' nm. OSEventNameSet (PEvent e) (Some (c_str xs)) True s = Some (Some OS_ERR_NONE, s') \<and>
    booted s' js fs P es \<and> OSEventTbl s' = (OSEventTbl s)(e := (OSEventTbl s e)\<lparr>OSEventName := nm\<rparr>) \<and>
    OSTCBTbl s' = OSTCBTbl s \<and> OSTCBPrioTbl s' = OSTCBPrioTbl s"
proof -
  note B = b [unfolded booted_def]
  let ?b = "map of_char xs :: u8 list"
  have cs: "c_string ?b (c_str xs)" using nm(2) by (force simp: c_string_def c_str_def)
  have "\<not> (of_nat (length xs) :: u8) > of_nat 31"
    using nm(1) by (simp add: word_less_nat_alt unat_of_nat)
  then have sn: "set_name OS_EVENT_NAME_SIZE (c_str xs) (OSEventName (OSEventTbl s e)) =
      Some (True, ?b @ 0 # drop (Suc (length xs)) (OSEventName (OSEventTbl s e)))"
    using OS_StrLen_string [OF cs] OS_StrCopy_string [OF cs, of "OSEventName (OSEventTbl s e)"] nm(1) len
    by (simp add: set_name_def)
  let ?nm = "?b @ 0 # drop (Suc (length xs)) (OSEventName (OSEventTbl s e))"
  define s' where "s' = upd_event e (\<lambda>ev. ev\<lparr>OSEventName := ?nm\<rparr>) s"
  have nest: "OSIntNesting s = 0" using B by (simp add: can_sched_def)
  have eq: "OSEventNameSet (PEvent e) (Some (c_str xs)) True s = Some (Some OS_ERR_NONE, s')"
    using sem nest sn by (simp add: OSEventNameSet_def named_event_def s'_def)
  have "free_events s' es"
    using B e(2) by (auto simp: free_events_def s'_def wait_set_upd_event) (simp add: upd_event_def ev_chain_upd)
  then have "booted s' js fs P es"
    by (rule booted_event [OF b, of _ _ e "(OSEventTbl s e)\<lparr>OSEventName := ?nm\<rparr>"])
      (use B e(1) os_wf_bm(2) [of s e] in \<open>simp_all add: s'_def upd_event_def wait_set_def\<close>)
  then show ?thesis using eq by (auto simp: s'_def upd_event_def)
qed

text \<open>
  Initialising the timers after the kernel takes two event control blocks as semaphores, the timer lock
  with one unit and the signal with none, creates the timer task as the most urgent ready task, and
  leaves all 16 timers free and the wheel empty.
\<close>

theorem OSTmr_Init_correct:
  assumes b: "booted (kern st) js (i # fs) P (e1 # e2 # es)" and e: "e1 < 60" "e2 < 60"
    and nm: "\<forall>e < 60. length (OSEventName (OSEventTbl (kern st) e)) = 32" "length (OSTCBTaskName (OSTCBTbl (kern st) i)) = 32"
    and free: "OSTCBPrioTbl (kern st) 0 = NULL"
  shows "\<exists>st'. OSTmr_Init prt img st = Some st' \<and> tmr_wf st' \<and> in_state OS_TMR_STATE_UNUSED st' = {..<16} \<and>
    OSTmrSem st' = PEvent e1 \<and> sem_ok e1 (kern st') \<and> sem_count e1 (kern st') = 1 \<and>
    OSTmrSemSignal st' = PEvent e2 \<and> sem_ok e2 (kern st') \<and> sem_count e2 (kern st') = 0 \<and>
    at_prio (kern st') 0 i \<and> rdy_set (kern st') = insert 0 P \<and> tcbs_ok (kern st') (i # js) fs"
proof -
  have ne: "e1 \<noteq> e2" "e1 \<notin> set es" "e2 \<notin> set es" using b by (auto simp: booted_def free_events_def)
  obtain s1 where s1: "OSSemCreate 1 (kern st) = (PEvent e1, s1)" "booted s1 js (i # fs) P (e2 # es)"
    "OSEventTbl s1 = (OSEventTbl (kern st))(e1 := (OSEventTbl (kern st) e1)\<lparr>OSEventType := OS_EVENT_TYPE_SEM,
      OSEventCnt := 1, OSEventPtr := NULL, OSEventName := name_unknown (OSEventName (OSEventTbl (kern st) e1)),
      OSEventWait := bm_init\<rparr>)" "OSTCBTbl s1 = OSTCBTbl (kern st)" "OSTCBPrioTbl s1 = OSTCBPrioTbl (kern st)"
    using booted_sem [OF b e(1), of 1] by auto
  obtain s2 where s2: "OSSemCreate 0 s1 = (PEvent e2, s2)" "booted s2 js (i # fs) P es"
    "OSEventTbl s2 = (OSEventTbl s1)(e2 := (OSEventTbl s1 e2)\<lparr>OSEventType := OS_EVENT_TYPE_SEM,
      OSEventCnt := 0, OSEventPtr := NULL, OSEventName := name_unknown (OSEventName (OSEventTbl s1 e2)),
      OSEventWait := bm_init\<rparr>)" "OSTCBTbl s2 = OSTCBTbl s1" "OSTCBPrioTbl s2 = OSTCBPrioTbl s1"
    using booted_sem [OF s1(2) e(2), of 0] by auto
  have "\<exists>s3 nm. OSEventNameSet (PEvent e1) (Some (c_str ''uC/OS-II TmrLock'')) True s2 = Some (Some OS_ERR_NONE, s3) \<and>
    booted s3 js (i # fs) P es \<and> OSEventTbl s3 = (OSEventTbl s2)(e1 := (OSEventTbl s2 e1)\<lparr>OSEventName := nm\<rparr>) \<and>
    OSTCBTbl s3 = OSTCBTbl s2 \<and> OSTCBPrioTbl s3 = OSTCBPrioTbl s2"
    by (rule booted_event_name [OF s2(2) e(1) ne(2)]) (use s1(3) s2(3) ne(1) nm(1) e in simp_all)
  then obtain s3 n3 where s3:
    "OSEventNameSet (PEvent e1) (Some (c_str ''uC/OS-II TmrLock'')) True s2 = Some (Some OS_ERR_NONE, s3)"
    "booted s3 js (i # fs) P es" "OSEventTbl s3 = (OSEventTbl s2)(e1 := (OSEventTbl s2 e1)\<lparr>OSEventName := n3\<rparr>)"
    "OSTCBTbl s3 = OSTCBTbl s2" "OSTCBPrioTbl s3 = OSTCBPrioTbl s2" by blast
  have "\<exists>s4 nm. OSEventNameSet (PEvent e2) (Some (c_str ''uC/OS-II TmrSignal'')) True s3 = Some (Some OS_ERR_NONE, s4) \<and>
    booted s4 js (i # fs) P es \<and> OSEventTbl s4 = (OSEventTbl s3)(e2 := (OSEventTbl s3 e2)\<lparr>OSEventName := nm\<rparr>) \<and>
    OSTCBTbl s4 = OSTCBTbl s3 \<and> OSTCBPrioTbl s4 = OSTCBPrioTbl s3"
    by (rule booted_event_name [OF s3(2) e(2) ne(3)]) (use s1(3) s2(3) s3(3) ne(1) nm(1) e in simp_all)
  then obtain s4 n4 where s4:
    "OSEventNameSet (PEvent e2) (Some (c_str ''uC/OS-II TmrSignal'')) True s3 = Some (Some OS_ERR_NONE, s4)"
    "booted s4 js (i # fs) P es" "OSEventTbl s4 = (OSEventTbl s3)(e2 := (OSEventTbl s3 e2)\<lparr>OSEventName := n4\<rparr>)"
    "OSTCBTbl s4 = OSTCBTbl s3" "OSTCBPrioTbl s4 = OSTCBPrioTbl s3" by blast
  note B = s4(2) [unfolded booted_def]
  have wf4: "os_wf s4" "tcbs_ok s4 js (i # fs)" "\<not> OSRunning s4" "OSIntNesting s4 = 0"
    using B by (simp_all add: can_sched_def)
  have "\<exists>s5. OSTmr_InitTask prt img (st'\<lparr>kern := s4\<rparr>) = Some (st'\<lparr>kern := s5\<rparr>) \<and> os_wf s5 \<and>
      tcbs_ok s5 (i # js) fs \<and> task_added 0 i s4 s5 \<and> boot_frame s4 s5" for st' :: tmr_state
  proof -
    have "\<exists>s5. (let (err, s1) = OSTaskCreateExt prt (OSTmr_Task_addr img) 0
            (OSTmrTaskStk img + 4 * (OS_TASK_TMR_STK_SIZE - 1)) OS_TASK_TMR_PRIO OS_TASK_TMR_ID
            (OSTmrTaskStk img) OS_TASK_TMR_STK_SIZE NULL (OS_TASK_OPT_STK_CHK OR OS_TASK_OPT_STK_CLR) s4
        in map_option snd (OSTaskNameSet OS_TASK_TMR_PRIO (Some (c_str ''uC/OS-II Tmr'')) True s1)) = Some s5 \<and>
      os_wf s5 \<and> tcbs_ok s5 (i # js) fs \<and> task_added (unat (0 :: u8)) i s4 s5 \<and> boot_frame s4 s5"
      by (rule boot_named_task [OF wf4(1,2)])
        (use wf4 nm(2) free s1(4,5) s2(4,5) s3(4,5) s4(4,5) in simp_all)
    then show ?thesis by (auto simp: OSTmr_InitTask_def split_beta)
  qed
  then obtain s5 where s5: "OSTmr_InitTask prt img ((tmr_tables st)\<lparr>OSTmrSem := PEvent e1,
      OSTmrSemSignal := PEvent e2, kern := s4\<rparr>) =
      Some ((tmr_tables st)\<lparr>OSTmrSem := PEvent e1, OSTmrSemSignal := PEvent e2, kern := s5\<rparr>)"
    "os_wf s5" "tcbs_ok s5 (i # js) fs" "task_added 0 i s4 s5" "boot_frame s4 s5"
    by (metis tmr_state.surjective tmr_state.update_convs(9))
  define st' where "st' = (tmr_tables st)\<lparr>OSTmrSem := PEvent e1, OSTmrSemSignal := PEvent e2, kern := s5\<rparr>"
  have init: "OSTmr_Init prt img st = Some st'"
    using s1(1) s2(1) s3(1) s4(1) s5(1) by (simp add: OSTmr_Init_def st'_def)
  have "OSEventTbl s5 = OSEventTbl s4" using s5(5) by (simp add: boot_frame_def)
  then have "sem_ok e1 s5" "sem_count e1 s5 = 1" "sem_ok e2 s5" "sem_count e2 s5 = 0"
    using s5(2) s1(3) s2(3) s3(3) s4(3) ne(1) by (simp_all add: sem_ok_def sem_count_def)
  moreover have "in_state OS_TMR_STATE_UNUSED st' = {..<16}"
    using tmr_link_at [of 0 _ 15] by (auto simp: in_state_def st'_def tmr_tables_def)
  moreover have "at_prio s5 0 i" "rdy_set s5 = insert 0 P"
    using s5(4) B by (simp_all add: task_added_def)
  ultimately show ?thesis using init OSTmr_Init_wf [OF init] s5(3) by (simp add: st'_def)
qed


section \<open>The lock\<close>

text \<open>
  While another task is inside the timer functions (the lock has no unit), OSTmrStart waits and leaves the
  timers alone - unless its caller has locked the scheduler: then the pend on the lock fails with an error
  that OSTmr_Lock ignores, the timer is linked although the other task is still inside, and the unlock
  gives the lock a unit, so that two tasks may be inside from then on.\<close>

theorem OSTmrStart_lock:
  assumes wf: "tmr_wf st" and i: "i < OS_TMR_CFG_MAX" and c: "OSTmrState (OSTmrTbl st i) = OS_TMR_STATE_STOPPED"
    and sem: "OSTmrSem st = PEvent e" "sem_ok e (kern st)" "sem_count e (kern st) = 0" "wait_set (kern st) e = {}"
    and isr: "OSIntNesting (kern st) = 0"
  shows "if OSLockNesting (kern st) = 0
    then \<exists>s. OSTmrStart (Some i) True st = Some (Wait, st\<lparr>kern := s\<rparr>)
    else \<exists>st'. OSTmrStart (Some i) True st = Some (Done (True, Some OS_ERR_NONE), st') \<and>
      OSTmrState (OSTmrTbl st' i) = OS_TMR_STATE_RUNNING \<and> sem_count e (kern st') = 1"
proof -
  have ty: "OSTmrType (OSTmrTbl st i) = OS_TMR_TYPE" using wf i by (simp add: tmr_wf_def tmr_typed_def)
  have cnt: "OSEventType (OSEventTbl (kern st) e) = OS_EVENT_TYPE_SEM" "OSEventCnt (OSEventTbl (kern st) e) = 0"
    using sem(2,3) by (simp_all add: sem_ok_def sem_count_def unat_eq_0)
  show ?thesis
  proof (cases "OSLockNesting (kern st) = 0")
    case True
    then have "OSTmrStart (Some i) True st =
        Some (Wait, st\<lparr>kern := OS_Sched (pend_block e OS_STAT_SEM 0 (kern st))\<rparr>)"
      using isr cnt sem(1) ty
      by (simp add: OSTmrStart_def tmr_checked_def tmr_locked_def OSTmr_Lock_def OSSemPend_def)
    then show ?thesis using True by auto
  next
    case False
    then have lk: "OSLockNesting (kern st) > 0" by (simp add: word_neq_0_conv)
    have lock: "OSTmr_Lock st = (Done (), st)"
      using lk isr cnt sem(1) by (simp add: OSTmr_Lock_def OSSemPend_def)
    have nu: "OSTmrState (OSTmrTbl st i) \<noteq> OS_TMR_STATE_UNUSED" using c by simp
    obtain st1 where s1: "tmr_start i st = Some ((True, Some OS_ERR_NONE), st1)" "kern st1 = kern st"
      "OSTmrSem st1 = OSTmrSem st" "tmr_left st1 i \<noteq> None"
      by (rule tmr_start_ok [OF wf i nu]) auto
    have "sem_count e (snd (OSSemPost (PEvent e) (kern st))) = 1"
      using OSSemPost_step(3) [OF sem(2)] sem(3,4) by simp
    then have "\<exists>st'. OSTmrStart (Some i) True st = Some (Done (True, Some OS_ERR_NONE), st') \<and>
        OSTmrState (OSTmrTbl st' i) = OS_TMR_STATE_RUNNING \<and> sem_count e (kern st') = 1"
      using s1 lock ty isr sem(1)
      by (auto simp: OSTmrStart_def tmr_checked_def tmr_locked_def OSTmr_Unlock_def tmr_left_def split: if_splits)
    then show ?thesis using False by simp
  qed
qed

section \<open>Examples\<close>

definition demo_timers :: tmr_state where
  "demo_timers = tmr_tables \<lparr>OSTmrFree = 0, OSTmrUsed = 0, OSTmrTime = 0, OSTmrSem = NULL,
     OSTmrSemSignal = NULL, OSTmrTbl = (\<lambda>_. tmr_zero), OSTmrFreeList = None,
     OSTmrWheelTbl = (\<lambda>_. \<lparr>OSTmrFirst = None, OSTmrEntries = 0\<rparr>), kern = demo\<rparr>"

text \<open>A periodic timer with delay 3 and period 5.\<close>

definition demo_timer :: tmr_state where
  "demo_timer = snd (the (tmr_create 3 5 OS_TMR_OPT_PERIODIC (PWord 4096) NULL None demo_timers))"

lemma demo_timer_ok: "tmr_wf demo_timer" "OSTmrState (OSTmrTbl demo_timer 0) = OS_TMR_STATE_STOPPED"
  "OSTmrDly (OSTmrTbl demo_timer 0) = 3" "OSTmrPeriod (OSTmrTbl demo_timer 0) = 5"
  "OSTmrOpt (OSTmrTbl demo_timer 0) = OS_TMR_OPT_PERIODIC"
proof -
  have wf: "tmr_wf demo_timers" by (simp add: demo_timers_def tmr_tables_wf)
  have a: "timer_args 3 5 OS_TMR_OPT_PERIODIC" "name_arg None" by (simp_all add: timer_args_def name_arg_def)
  have f: "OSTmrFreeList demo_timers = Some 0" by (simp add: demo_timers_def tmr_tables_def)
  show "tmr_wf demo_timer" "OSTmrState (OSTmrTbl demo_timer 0) = OS_TMR_STATE_STOPPED"
    "OSTmrDly (OSTmrTbl demo_timer 0) = 3" "OSTmrPeriod (OSTmrTbl demo_timer 0) = 5"
    "OSTmrOpt (OSTmrTbl demo_timer 0) = OS_TMR_OPT_PERIODIC"
    using tmr_create_ok [OF wf a, of "PWord 4096" NULL] by (auto simp: demo_timer_def f)
qed

theorem tmr_round_correct_witness:
  "\<exists>st'. tmr_round (\<lambda>_ _ _ s. s) demo_timer = Some ((), st') \<and> kern st' = kern demo_timer"
proof -
  obtain st' due where "tmr_round (\<lambda>_ _ _ s. s) demo_timer = Some ((), st')"
    "kern st' = fold (\<lambda>i. run_callback (\<lambda>_ _ _ s. s) (OSTmrTbl demo_timer i) i) due (kern demo_timer)"
    using tmr_round_correct [OF demo_timer_ok(1), of "\<lambda>_ _ _ s. s"] by blast
  moreover have "fold (\<lambda>i. run_callback (\<lambda>_ _ _ s. s) (OSTmrTbl demo_timer i) i) due s = s" for s
    by (induction due arbitrary: s) (simp_all add: run_callback_def)
  ultimately show ?thesis by simp
qed

theorem OSTmrStart_on_time_witness:
  "\<exists>st0. tmr_start 0 demo_timer = Some ((True, Some OS_ERR_NONE), st0) \<and>
    (\<exists>st'. tmr_rounds 3 (\<lambda>_ _ _ s. s) st0 = Some st' \<and> tmr_left st' 0 = Some 5)"
  using OSTmrStart_on_time [OF demo_timer_ok(1), of 0 3 "\<lambda>_ _ _ s. s"] by (auto simp: demo_timer_ok)


text \<open>The demo timer, its lock (event 4 of the demo kernel) taken and the scheduler locked.\<close>

definition demo_locked :: tmr_state where
  "demo_locked = demo_timer\<lparr>OSTmrSem := PEvent 4, kern := demo\<lparr>OSLockNesting := 1\<rparr>\<rparr>"

theorem OSTmrStart_lock_witness:
  "\<exists>st'. OSTmrStart (Some 0) True demo_locked = Some (Done (True, Some OS_ERR_NONE), st') \<and>
     OSTmrState (OSTmrTbl st' 0) = OS_TMR_STATE_RUNNING \<and> sem_count 4 (kern st') = 1"
proof -
  have "tmr_wf demo_locked"
    using demo_timer_ok(1) by (simp add: demo_locked_def tmr_wf_def tmr_lists_def spoke_list_def in_state_def)
  moreover have "os_wf (demo\<lparr>OSLockNesting := 1\<rparr>)"
    using os_wf_demo os_wf_fields(1) [of "demo\<lparr>OSLockNesting := 1\<rparr>" demo] by simp
  then have "sem_ok 4 (kern demo_locked)"
    by (simp add: demo_locked_def sem_ok_def) (simp add: demo_def)
  moreover have "wait_set (kern demo_locked) 4 = {}"
    using wait_set_demo [of 4] by (simp add: demo_locked_def wait_set_def)
  moreover have "sem_count 4 (kern demo_locked) = 0" "OSIntNesting (kern demo_locked) = 0"
    "OSLockNesting (kern demo_locked) = 1"
    by (simp_all add: demo_locked_def demo_def sem_count_def event_zero_def)
  ultimately show ?thesis
    using OSTmrStart_lock [of demo_locked 0 4] demo_timer_ok(2) by (simp add: demo_locked_def)
qed

end
