(* ===== verification/Hal_List.thy ===== *)
theory Hal_List
  imports Links
begin

text \<open>
  alt_llist.h: the circular doubly linked lists of the HAL, on which alarms, devices and file systems
  are registered.  A store gives the two links of every element; the head of a list is an element too.
\<close>

section \<open>Elements and their operations\<close>

record 'a alt_llist =
  ll_next :: 'a
  ll_previous :: 'a

definition alt_llist_insert :: "'a \<Rightarrow> 'a \<Rightarrow> ('a \<Rightarrow> 'a alt_llist) \<Rightarrow> 'a \<Rightarrow> 'a alt_llist" where
  "alt_llist_insert list entry l =
     (let l1 = l(entry := (l entry)\<lparr>ll_previous := list\<rparr>);
          l2 = l1(entry := (l1 entry)\<lparr>ll_next := ll_next (l1 list)\<rparr>);
          n = ll_next (l2 list);
          l3 = l2(n := (l2 n)\<lparr>ll_previous := entry\<rparr>)
      in l3(list := (l3 list)\<lparr>ll_next := entry\<rparr>))"

definition alt_llist_remove :: "'a \<Rightarrow> ('a \<Rightarrow> 'a alt_llist) \<Rightarrow> 'a \<Rightarrow> 'a alt_llist" where
  "alt_llist_remove entry l =
     (let n = ll_next (l entry);
          l1 = l(n := (l n)\<lparr>ll_previous := ll_previous (l entry)\<rparr>);
          p = ll_previous (l1 entry);
          l2 = l1(p := (l1 p)\<lparr>ll_next := ll_next (l1 entry)\<rparr>)
      in l2(entry := (l2 entry)\<lparr>ll_previous := entry, ll_next := entry\<rparr>))"

section \<open>Their effect on a list\<close>

definition on_list :: "('a \<Rightarrow> 'a alt_llist) \<Rightarrow> 'a \<Rightarrow> 'a list \<Rightarrow> bool" where
  "on_list l h xs \<longleftrightarrow> ring (\<lambda>x. ll_next (l x)) (\<lambda>x. ll_previous (l x)) h xs"

lemma on_list_distinct: "on_list l h xs \<Longrightarrow> distinct (h # xs)"
  by (simp add: on_list_def ring_def)

lemma on_list_first: "on_list l h xs \<Longrightarrow> ll_next (l h) = (if xs = [] then h else hd xs)"
  unfolding on_list_def by (rule ring_first)

lemma on_list_next: "on_list l h (xs @ e # ys) \<Longrightarrow> ll_next (l e) = (if ys = [] then h else hd ys)"
  unfolding on_list_def by (rule ring_next)

lemma on_list_empty: "on_list l h [] \<longleftrightarrow> ll_next (l h) = h \<and> ll_previous (l h) = h"
  by (simp add: on_list_def ring_def)

text \<open>Insertion puts the element in front; removal takes it out, and out of any list afterwards.\<close>

lemma on_list_insert:
  assumes "on_list l h xs" "e \<notin> set (h # xs)"
  shows "on_list (alt_llist_insert h e l) h (e # xs)"
proof -
  have n: "ll_next (l h) \<noteq> e" using on_list_first [OF assms(1)] assms(2) by (auto split: if_splits)
  have "(\<lambda>x. ll_next (alt_llist_insert h e l x)) = (\<lambda>x. ll_next (l x))(e := ll_next (l h), h := e)"
    "(\<lambda>x. ll_previous (alt_llist_insert h e l x)) = (\<lambda>x. ll_previous (l x))(e := h, ll_next (l h) := e)"
    using n assms(2) by (auto simp: alt_llist_insert_def Let_def fun_eq_iff)
  then show ?thesis
    using ring_insert [OF assms(1) [unfolded on_list_def] assms(2)] by (simp add: on_list_def)
qed

lemma on_list_remove:
  assumes "on_list l h (xs @ e # ys)"
  shows "on_list (alt_llist_remove e l) h (xs @ ys)"
    and "ll_next (alt_llist_remove e l e) = e" "ll_previous (alt_llist_remove e l e) = e"
proof -
  have d: "distinct (h # xs @ e # ys)" by (rule on_list_distinct [OF assms])
  then have out: "e \<notin> set (h # xs @ ys)" by auto
  have ne: "ll_next (l e) \<noteq> e" "ll_previous (l e) \<noteq> e"
    using ring_next [OF assms [unfolded on_list_def]] d by (auto dest: hd_in_set last_in_set split: if_splits)
  have "(\<lambda>x. ll_next (alt_llist_remove e l x)) =
      ((\<lambda>x. ll_next (l x))(ll_previous (l e) := ll_next (l e)))(e := e)"
    "(\<lambda>x. ll_previous (alt_llist_remove e l x)) =
      ((\<lambda>x. ll_previous (l x))(ll_next (l e) := ll_previous (l e)))(e := e)"
    using ne by (auto simp: alt_llist_remove_def Let_def fun_eq_iff)
  then show "on_list (alt_llist_remove e l) h (xs @ ys)"
    using ring_upd [OF ring_remove [OF assms [unfolded on_list_def]] out, of e e] by (simp add: on_list_def)
  show "ll_next (alt_llist_remove e l e) = e" "ll_previous (alt_llist_remove e l e) = e"
    by (simp_all add: alt_llist_remove_def Let_def)
qed

text \<open>Further removals of an element are harmless, as alt_llist.h promises.\<close>

lemma alt_llist_remove_again:
  assumes "ll_next (l e) = e" "ll_previous (l e) = e"
  shows "alt_llist_remove e l = l"
proof
  fix x show "alt_llist_remove e l x = l x"
    using assms by (cases "l e") (auto simp: alt_llist_remove_def Let_def)
qed

end
