(* ===== verification/Os_System.thy ===== *)
theory Os_System
  imports Os_Sem Os_Mbox Os_Q Os_Init
begin

text \<open>
  The kernel with its tasks and interrupts running together: a transition system over the kernel
  state and, for every task, the point of its program that matters to the kernel: running its own
  code, or inside a pend call that has given up the processor.

  A step is a kernel service called by the running task, the end of a pend call whose caller has been
  scheduled again, a round of the idle task, or an interrupt.  The invariant \<open>sys_inv\<close> holds in every
  reachable state: the most urgent ready task runs, a task is on a wait list only from inside a pend
  call on that event, and nobody waits for something that is available.

  Objects and tasks are created before; the services with which tasks delete them, change priorities
  or wait for mutexes, flags or several events are left out here.  A service is one atomic step;
  interrupts between the end of its critical section and its \<^verbatim>\<open>OS_Sched\<close> are not modelled.
\<close>

section \<open>Steps\<close>

datatype cont = Run | InSem ptr | InMbox ptr | InQ ptr

datatype svc =
    SemAccept ptr | SemPend ptr u16 | SemAbort ptr u8 | SemPost ptr | SemSet ptr u16
  | MboxAccept ptr | MboxPend ptr u16 | MboxAbort ptr u8 | MboxPost ptr ptr | MboxPostOpt ptr ptr u8
  | QAccept ptr | QFlush ptr | QPend ptr u16 | QAbort ptr u8 | QPost ptr ptr | QPostFront ptr ptr
  | QPostOpt ptr ptr u8
  | TimeDly u16 | TimeDlyResume u8 | TaskSuspend u8 | TaskResume u8 | SchedLock | SchedUnlock

fun blocked :: "'a call \<Rightarrow> cont \<Rightarrow> cont" where
  "blocked (Done r) c = Run"
| "blocked Wait c = c"

text \<open>A service: where it leaves its caller, and the state; \<open>None\<close> would be a service that does not end.\<close>

fun service :: "svc \<Rightarrow> os_state \<Rightarrow> (cont \<times> os_state) option" where
  "service (SemAccept e) s = Some (Run, snd (OSSemAccept e s))"
| "service (SemPend e n) s = (let (r, s') = OSSemPend e n True s in Some (blocked r (InSem e), s'))"
| "service (SemAbort e opt) s = map_option (\<lambda>(n, err, s'). (Run, s')) (OSSemPendAbort e opt True s)"
| "service (SemPost e) s = Some (Run, snd (OSSemPost e s))"
| "service (SemSet e n) s = Some (Run, snd (OSSemSet e n True s))"
| "service (MboxAccept e) s = Some (Run, snd (OSMboxAccept e s))"
| "service (MboxPend e n) s = (let (r, s') = OSMboxPend e n True s in Some (blocked r (InMbox e), s'))"
| "service (MboxAbort e opt) s = map_option (\<lambda>(n, err, s'). (Run, s')) (OSMboxPendAbort e opt True s)"
| "service (MboxPost e m) s = Some (Run, snd (OSMboxPost e m s))"
| "service (MboxPostOpt e m opt) s = map_option (\<lambda>(err, s'). (Run, s')) (OSMboxPostOpt e m opt s)"
| "service (QAccept e) s = Some (Run, snd (snd (OSQAccept e True s)))"
| "service (QFlush e) s = Some (Run, snd (OSQFlush e s))"
| "service (QPend e n) s = (let (r, s') = OSQPend e n True s in Some (blocked r (InQ e), s'))"
| "service (QAbort e opt) s = map_option (\<lambda>(n, err, s'). (Run, s')) (OSQPendAbort e opt True s)"
| "service (QPost e m) s = Some (Run, snd (OSQPost e m s))"
| "service (QPostFront e m) s = Some (Run, snd (OSQPostFront e m s))"
| "service (QPostOpt e m opt) s = map_option (\<lambda>(err, s'). (Run, s')) (OSQPostOpt e m opt s)"
| "service (TimeDly n) s = Some (Run, OSTimeDly n s)"
| "service (TimeDlyResume p) s = Some (Run, snd (OSTimeDlyResume p s))"
| "service (TaskSuspend p) s = Some (Run, snd (OSTaskSuspend p s))"
| "service (TaskResume p) s = Some (Run, snd (OSTaskResume p s))"
| "service SchedLock s = Some (Run, OSSchedLock s)"
| "service SchedUnlock s = Some (Run, OSSchedUnlock s)"

text \<open>The second half of a pend call.\<close>

fun resume :: "cont \<Rightarrow> os_state \<Rightarrow> os_state" where
  "resume Run s = s"
| "resume (InSem e) s = snd (OSSemPend_resume e s)"
| "resume (InMbox e) s = snd (snd (OSMboxPend_resume e s))"
| "resume (InQ e) s = snd (snd (OSQPend_resume e s))"

text \<open>
  What the manual of the kernel asks of its callers: a task that has locked the scheduler does not
  call a service that may give up the processor; \<^verbatim>\<open>OS_POST_OPT_NO_SCHED\<close> leaves the scheduling to a later
  call and is left out for tasks; handlers only accept, post and flush.
\<close>

fun may_call :: "os_state \<Rightarrow> svc \<Rightarrow> bool" where
  "may_call s (TimeDly n) \<longleftrightarrow> OSLockNesting s = 0"
| "may_call s (TaskSuspend p) \<longleftrightarrow> OSLockNesting s = 0"
| "may_call s (MboxPostOpt e m opt) \<longleftrightarrow> opt AND OS_POST_OPT_NO_SCHED = 0"
| "may_call s (QPostOpt e m opt) \<longleftrightarrow> opt AND OS_POST_OPT_NO_SCHED = 0"
| "may_call s _ \<longleftrightarrow> True"

datatype handler = Tick | Service svc

fun isr_may_call :: "svc \<Rightarrow> bool" where
  "isr_may_call (SemAccept e) = True" | "isr_may_call (SemPost e) = True"
| "isr_may_call (MboxAccept e) = True" | "isr_may_call (MboxPost e m) = True"
| "isr_may_call (MboxPostOpt e m opt) = True" | "isr_may_call (QAccept e) = True"
| "isr_may_call (QFlush e) = True" | "isr_may_call (QPost e m) = True"
| "isr_may_call (QPostFront e m) = True" | "isr_may_call (QPostOpt e m opt) = True"
| "isr_may_call _ = False"

fun handler_ok :: "handler \<Rightarrow> bool" where
  "handler_ok Tick = True"
| "handler_ok (Service c) = isr_may_call c"

text \<open>
  \<^verbatim>\<open>alt_irq_handler\<close> (alt_irq_handler.c): the handlers of the pending interrupts run one after the other
  between \<^verbatim>\<open>OSIntEnter\<close> and \<^verbatim>\<open>OSIntExit\<close>, with interrupts off.  \<open>hs\<close> is what they ask of the kernel.
\<close>

fun handle :: "handler \<Rightarrow> os_state \<Rightarrow> os_state option" where
  "handle Tick s = OSTimeTick s"
| "handle (Service c) s = map_option snd (service c s)"

fun handle_all :: "handler list \<Rightarrow> os_state \<Rightarrow> os_state option" where
  "handle_all [] s = Some s"
| "handle_all (h # hs) s = (case handle h s of None \<Rightarrow> None | Some s' \<Rightarrow> handle_all hs s')"

definition alt_irq_handler :: "handler list \<Rightarrow> os_state \<Rightarrow> os_state option" where
  "alt_irq_handler hs s = map_option OSIntExit (handle_all hs (OSIntEnter s))"

type_synonym sys = "os_state \<times> (nat \<Rightarrow> cont)"

abbreviation cur :: "os_state \<Rightarrow> nat" where
  "cur s \<equiv> tcb_of (OSTCBCur s)"

inductive sys_step :: "sys \<Rightarrow> sys \<Rightarrow> bool" where
  call: "k (cur s) = Run \<Longrightarrow> OSPrioCur s \<noteq> OS_TASK_IDLE_PRIO \<Longrightarrow> may_call s c \<Longrightarrow>
    service c s = Some (r, s') \<Longrightarrow> sys_step (s, k) (s', k(cur s := r))"
| wake_up: "k (cur s) \<noteq> Run \<Longrightarrow> sys_step (s, k) (resume (k (cur s)) s, k(cur s := Run))"
| idle: "OSPrioCur s = OS_TASK_IDLE_PRIO \<Longrightarrow> sys_step (s, k) (OS_TaskIdle s, k)"
| interrupt: "\<forall>h \<in> set hs. handler_ok h \<Longrightarrow> alt_irq_handler hs s = Some s' \<Longrightarrow> sys_step (s, k) (s', k)"

inductive_cases sys_stepE: "sys_step (s, k) x"

section \<open>The invariant\<close>

text \<open>The event a continuation waits for.\<close>

fun pends_on :: "cont \<Rightarrow> nat \<Rightarrow> bool" where
  "pends_on Run e \<longleftrightarrow> False"
| "pends_on (InSem x) e \<longleftrightarrow> e = event_of x"
| "pends_on (InMbox x) e \<longleftrightarrow> e = event_of x"
| "pends_on (InQ x) e \<longleftrightarrow> e = event_of x"

text \<open>
  A task with continuation \<open>c\<close> and control block \<open>t\<close>, ready if \<open>r\<close>, on the wait lists \<open>W\<close>: it is on no
  list but that of the event it pends on, and there either its wait has timed out or it is not ready
  and its status says that it waits.
\<close>

definition wait_ok :: "cont \<Rightarrow> OS_TCB \<Rightarrow> bool \<Rightarrow> nat set \<Rightarrow> bool" where
  "wait_ok c t r W \<longleftrightarrow> OSTCBEventMultiPtr t = None \<and>
     (\<forall>e \<in> W. pends_on c e \<and> (OSTCBStatPend t = OS_STAT_PEND_TO \<and> OSTCBDly t = 0 \<or>
        OSTCBStat t AND OS_STAT_PEND_ANY \<noteq> OS_STAT_RDY \<and> \<not> r))"

definition waits_ok :: "(nat \<Rightarrow> cont) \<Rightarrow> os_state \<Rightarrow> bool" where
  "waits_ok k s \<longleftrightarrow> (\<forall>p i. at_prio s p i \<longrightarrow>
     wait_ok (k i) (OSTCBTbl s i) (p \<in> rdy_set s) {e. p \<in> wait_set s e})"

text \<open>The kernel's part, for an interrupt nesting of \<open>nest\<close> and a task list \<open>js\<close> before the idle task.\<close>

definition sys_core :: "nat list \<Rightarrow> u8 \<Rightarrow> (nat \<Rightarrow> cont) \<Rightarrow> os_state \<Rightarrow> bool" where
  "sys_core js nest k s \<longleftrightarrow> os_wf s \<and> waits_ok k s \<and> task_list s js \<and> 20 \<in> rdy_set s \<and> OSRunning s \<and>
     OSTickStepState s = OS_TICK_STEP_DIS \<and> cur_ok s \<and> OSIntNesting s = nest \<and>
     (\<forall>p \<le> 20. OSTCBPrioTbl s p = NULL \<or> (\<exists>i. at_prio s p i))"

text \<open>
  The invariant also inside interrupts and while the scheduler is locked: the running task is ready,
  and unless scheduling is off it is the most urgent one.
\<close>

definition sys_inv :: "nat list \<Rightarrow> u8 \<Rightarrow> (nat \<Rightarrow> cont) \<Rightarrow> os_state \<Rightarrow> bool" where
  "sys_inv js nest k s \<longleftrightarrow> sys_core js nest k s \<and> unat (OSPrioCur s) \<in> rdy_set s \<and> (can_sched s \<longrightarrow> highest_runs s)"

section \<open>What the invariant looks at\<close>

text \<open>The part of the state that the invariant depends on; data of objects is not in it.\<close>

definition sched_view :: "os_state \<Rightarrow> prio_map \<times> (nat \<Rightarrow> OS_TCB) \<times> (nat \<Rightarrow> prio_map) \<times> (nat \<Rightarrow> ptr) \<times>
    ptr \<times> u8 \<times> ptr \<times> bool \<times> tick_step \<times> u8 \<times> u8" where
  "sched_view s = (OSRdy s, OSTCBTbl s, wait_of s, OSTCBPrioTbl s, OSTCBCur s, OSPrioCur s, OSTCBList s,
     OSRunning s, OSTickStepState s, OSIntNesting s, OSLockNesting s)"

lemma sys_inv_view:
  assumes "sched_view s' = sched_view s"
  shows "sys_inv js nest k s' = sys_inv js nest k s" "sys_core js nest k s' = sys_core js nest k s"
proof -
  have f: "OSRdy s' = OSRdy s" "OSTCBTbl s' = OSTCBTbl s" "wait_of s' = wait_of s"
    "OSTCBPrioTbl s' = OSTCBPrioTbl s" "OSTCBCur s' = OSTCBCur s" "OSPrioCur s' = OSPrioCur s"
    "OSTCBList s' = OSTCBList s" "OSRunning s' = OSRunning s" "OSTickStepState s' = OSTickStepState s"
    "OSIntNesting s' = OSIntNesting s" "OSLockNesting s' = OSLockNesting s"
    using assms by (simp_all add: sched_view_def)
  have w: "wait_of s' e = wait_of s e" for e using f(3) by (rule fun_cong)
  have sets: "rdy_set s' = rdy_set s" "wait_set s' e = wait_set s e" "at_prio s' q j = at_prio s q j" for e q j
    by (simp_all add: rdy_set_def wait_set_def at_prio_def f w)
  have "os_wf s' = os_wf s" unfolding os_wf_def sets f w ..
  then show c: "sys_core js nest k s' = sys_core js nest k s"
    by (simp add: sys_core_def waits_ok_def task_list_def cur_ok_def sets f)
  show "sys_inv js nest k s' = sys_inv js nest k s"
    by (simp add: sys_inv_def c can_sched_def highest_runs_def sets f)
qed

lemma wait_ok_core:
  assumes "tcb_core t = tcb_core t'"
  shows "wait_ok c t r W = wait_ok c t' r W"
  by (simp add: wait_ok_def tcb_core_fields [OF assms])

lemma wait_ok_off: "OSTCBEventMultiPtr t = None \<Longrightarrow> wait_ok c t r {}"
  by (simp add: wait_ok_def)

text \<open>A change to one task.\<close>

lemma waits_ok_change:
  assumes w: "waits_ok k s" and ap: "\<And>q j. at_prio s' q j = at_prio s q j"
    and other: "\<And>q j. at_prio s q j \<Longrightarrow> q \<noteq> p \<Longrightarrow> k' j = k j \<and>
      tcb_core (OSTCBTbl s' j) = tcb_core (OSTCBTbl s j) \<and> (q \<in> rdy_set s' \<longleftrightarrow> q \<in> rdy_set s) \<and>
      (\<forall>e. q \<in> wait_set s' e \<longleftrightarrow> q \<in> wait_set s e)"
    and own: "\<And>j. at_prio s p j \<Longrightarrow> wait_ok (k' j) (OSTCBTbl s' j) (p \<in> rdy_set s') {e. p \<in> wait_set s' e}"
  shows "waits_ok k' s'"
  unfolding waits_ok_def
proof (intro allI impI)
  fix q j assume "at_prio s' q j"
  then have a: "at_prio s q j" by (simp add: ap)
  show "wait_ok (k' j) (OSTCBTbl s' j) (q \<in> rdy_set s') {e. q \<in> wait_set s' e}"
  proof (cases "q = p")
    case True
    then show ?thesis using own a by simp
  next
    case False
    note o = other [OF a False]
    have "wait_ok (k j) (OSTCBTbl s j) (q \<in> rdy_set s) {e. q \<in> wait_set s e}"
      using w a by (simp add: waits_ok_def)
    then show ?thesis using o wait_ok_core [of "OSTCBTbl s' j" "OSTCBTbl s j"] by simp
  qed
qed

lemma waits_okD: "waits_ok k s \<Longrightarrow> at_prio s p i \<Longrightarrow>
    wait_ok (k i) (OSTCBTbl s i) (p \<in> rdy_set s) {e. p \<in> wait_set s e}"
  by (simp add: waits_ok_def)

lemma sys_core_change:
  assumes c: "sys_core js nest k s" and s': "os_wf s'" "waits_ok k' s'" "20 \<in> rdy_set s'"
    and ap: "\<And>q j. at_prio s' q j = at_prio s q j" and fr: "os_frame s' = os_frame s"
    and tick: "OSTickStepState s' = OSTickStepState s"
    and nx: "\<And>j. OSTCBPrio (OSTCBTbl s' j) = OSTCBPrio (OSTCBTbl s j) \<and>
      OSTCBNext (OSTCBTbl s' j) = OSTCBNext (OSTCBTbl s j)"
  shows "sys_core js nest k' s'"
proof -
  have "task_list s' js"
    by (rule task_list_core [OF _ os_frameD(7) [OF fr] ap nx]) (use c in \<open>simp add: sys_core_def\<close>)
  then show ?thesis
    using c s' tick os_frameD(3,5,6) [OF fr] os_frame_ok(1) [OF fr] by (simp add: sys_core_def ap)
qed

section \<open>The scheduler\<close>

lemma sched_tick [simp]: "OSTickStepState (OS_Sched s) = OSTickStepState s"
  by (simp add: OS_Sched_def sched_switch_def Let_def OSCtxSw_def OS_SchedNew_eq)

lemma can_sched_Sched [simp]: "can_sched (OS_Sched s) = can_sched s"
  by (simp add: can_sched_def)

lemma rdy_not_empty: "sys_core js nest k s \<Longrightarrow> rdy_set s \<noteq> {}"
  by (auto simp: sys_core_def)

lemma sys_core_Sched:
  assumes c: "sys_core js nest k s"
  shows "sys_core js nest k (OS_Sched s)"
proof -
  have "cur_ok (OS_Sched s)"
    using OS_Sched_runs_highest(3) [of s] rdy_not_empty [OF c] OS_Sched_locked [of s] c
    by (cases "can_sched s") (auto simp: sys_core_def)
  moreover have "waits_ok k (OS_Sched s)"
    using c wait_ok_core [OF tcb_core_sched] by (simp add: sys_core_def waits_ok_def)
  moreover have "task_list (OS_Sched s) js"
    by (rule task_list_core [of s]) (use c tcb_core_fields [OF tcb_core_sched [of s]] in \<open>simp_all add: sys_core_def\<close>)
  ultimately show ?thesis using c by (simp add: sys_core_def)
qed

lemma sys_inv_Sched:
  assumes c: "sys_core js nest k s" and off: "\<not> can_sched s \<Longrightarrow> unat (OSPrioCur s) \<in> rdy_set s"
  shows "sys_inv js nest k (OS_Sched s)"
proof (cases "can_sched s")
  case True
  have wf: "os_wf s" and cu: "cur_ok s" using c by (simp_all add: sys_core_def)
  have h: "highest_runs (OS_Sched s)"
    by (rule OS_Sched_highest [OF wf rdy_not_empty [OF c] True]) (simp add: cu)
  moreover have "Min (rdy_set s) \<in> rdy_set s"
    using Min_in [OF bm.finite_els [OF os_wf_bm(1) [OF wf]]] rdy_not_empty [OF c] by (simp add: rdy_set_def)
  ultimately show ?thesis
    using sys_core_Sched [OF c] by (simp add: sys_inv_def highest_runs_def)
next
  case False
  then show ?thesis using c off by (simp add: OS_Sched_locked sys_inv_def)
qed

text \<open>The running task.\<close>

lemma sys_cur:
  assumes "sys_inv js nest k s"
  obtains p i where "OSTCBCur s = PTcb i" "unat (OSPrioCur s) = p" "at_prio s p i" "p \<in> rdy_set s"
proof -
  have wf: "os_wf s" and cu: "cur_ok s" and r: "unat (OSPrioCur s) \<in> rdy_set s"
    using assms by (simp_all add: sys_inv_def sys_core_def)
  then obtain i where "at_prio s (unat (OSPrioCur s)) i" by (auto elim: os_wf_rdyE)
  then show thesis using that cu r by (simp add: cur_ok_def at_prio_tbl)
qed

lemma sys_running:
  assumes i: "sys_inv js nest k s" and run: "k (cur s) = Run"
  obtains p i where "running s p i" "cur s = i" "unat (OSPrioCur s) = p"
proof -
  obtain p i where c: "OSTCBCur s = PTcb i" "unat (OSPrioCur s) = p" "at_prio s p i" "p \<in> rdy_set s"
    using sys_cur [OF i] .
  have "wait_ok (k i) (OSTCBTbl s i) (p \<in> rdy_set s) {e. p \<in> wait_set s e}"
    using i c by (intro waits_okD) (auto simp: sys_inv_def sys_core_def)
  then have "running s p i" using c run by (auto simp: running_def wait_ok_def)
  then show thesis using that c by simp
qed

section \<open>Posts\<close>

lemma rdy_tick [simp]: "OSTickStepState (snd (OS_EventTaskRdy e m msk pend s)) = OSTickStepState s"
proof -
  have u: "OSTickStepState (upd_tcb i f u) = OSTickStepState u"
    "OSTickStepState (rdy_insert i y u) = OSTickStepState u"
    "OSTickStepState (OS_EventTaskRemove i e u) = OSTickStepState u" for i f y e u
    by (simp_all add: upd_tcb_def rdy_insert_def Let_def OS_EventTaskRemove_def upd_event_def)
  have "OSTickStepState (OS_EventTaskRemoveMulti i es u) = OSTickStepState u" for i es u
    by (induction es arbitrary: u) (simp_all add: u)
  then show ?thesis by (simp add: OS_EventTaskRdy_def Let_def u split: option.split)
qed

lemma sys_core_rdy:
  fixes e :: nat and m :: ptr and msk :: u8 and pend :: pend_stat
  assumes c: "sys_core js nest k s" and ne: "Grp (wait_of s e) \<noteq> 0"
  defines "s' \<equiv> snd (OS_EventTaskRdy e m msk pend s)"
  shows "sys_core js nest k s'" "rdy_set s \<subseteq> rdy_set s'" "os_frame s' = os_frame s"
proof -
  have wf: "os_wf s" using c by (simp add: sys_core_def)
  let ?p = "unat (bm_highest (wait_of s e))"
  have "?p \<in> wait_set s e"
    using bm.hi_mem [OF os_wf_bm(2) [OF wf]] ne by (simp add: wait_set_def bm_some_def)
  then obtain i where a: "at_prio s ?p i" using wf by (auto elim: os_wf_waitE)
  note r = EventTaskRdy_correct [OF wf ne a, where pmsg = m and msk = msk and pend = pend, folded s'_def]
  show mono: "rdy_set s \<subseteq> rdy_set s'" by (auto simp: r(3))
  show fr: "os_frame s' = os_frame s" by (simp add: s'_def)
  have mi: "OSTCBEventMultiPtr (OSTCBTbl s i) = None"
    using c waits_okD [OF _ a] by (auto simp: sys_core_def wait_ok_def)
  have "waits_ok k s'"
  proof (rule waits_ok_change [where p = ?p and s = s and k = k])
    show "waits_ok k s" using c by (simp add: sys_core_def)
  next
    fix q j assume q: "at_prio s q j" "q \<noteq> ?p"
    then have "j \<noteq> i" using at_prio_same_tcb [OF a] by blast
    with q show "k j = k j \<and> tcb_core (OSTCBTbl s' j) = tcb_core (OSTCBTbl s j) \<and>
        (q \<in> rdy_set s' \<longleftrightarrow> q \<in> rdy_set s) \<and> (\<forall>e. q \<in> wait_set s' e \<longleftrightarrow> q \<in> wait_set s e)"
      by (simp add: r(2,3,7))
  next
    fix j assume "at_prio s ?p j"
    then have j: "j = i" using a at_prio_unique by blast
    have "OSTCBEventMultiPtr (OSTCBTbl s' i) = None" by (simp add: r(6) mi rdy_write_def)
    then show "wait_ok (k j) (OSTCBTbl s' j) (?p \<in> rdy_set s') {e. ?p \<in> wait_set s' e}"
      by (simp add: j r(2) wait_ok_off)
  qed (rule r(4))
  moreover have "OSTCBPrio (OSTCBTbl s' j) = OSTCBPrio (OSTCBTbl s j) \<and>
      OSTCBNext (OSTCBTbl s' j) = OSTCBNext (OSTCBTbl s j)" for j
    by (cases "j = i") (simp_all add: r(6,7) rdy_write_def)
  moreover have "20 \<in> rdy_set s'" using mono c by (auto simp: sys_core_def)
  ultimately show "sys_core js nest k s'"
    by (intro sys_core_change [OF c r(1) _ _ r(4) fr]) (simp_all add: s'_def)
qed

lemma sys_inv_core: "sys_inv js nest k s \<Longrightarrow> sys_core js nest k s"
  by (simp add: sys_inv_def)

lemma sys_inv_Sched_after:
  assumes i: "sys_inv js nest k s" and c: "sys_core js nest k s'" and m: "rdy_set s \<subseteq> rdy_set s'"
    and fr: "os_frame s' = os_frame s"
  shows "sys_inv js nest k (OS_Sched s')" "\<not> can_sched s \<Longrightarrow> sys_inv js nest k s'"
proof -
  have cur: "unat (OSPrioCur s') \<in> rdy_set s'"
    using i m os_frameD(2) [OF fr] by (auto simp: sys_inv_def)
  then show "sys_inv js nest k (OS_Sched s')" by (rule sys_inv_Sched [OF c])
  show "sys_inv js nest k s'" if "\<not> can_sched s"
    using that c cur os_frame_ok(2) [OF fr] by (simp add: sys_inv_def)
qed

lemma sys_core_rdy_all:
  assumes "sys_core js nest k s" "rdy_all fuel e m msk pend s = Some (n, s')"
  shows "sys_core js nest k s' \<and> rdy_set s \<subseteq> rdy_set s' \<and> os_frame s' = os_frame s"
  using assms
proof (induction fuel arbitrary: s n s')
  case 0
  then show ?case by (subst (asm) rdy_all.simps) (auto split: if_splits)
next
  case (Suc fuel)
  show ?case
  proof (cases "Grp (wait_of s e) = 0")
    case True
    then show ?thesis using Suc.prems by (subst (asm) rdy_all.simps) simp
  next
    case False
    let ?t = "snd (OS_EventTaskRdy e m msk pend s)"
    obtain n' where "rdy_all fuel e m msk pend ?t = Some (n', s')"
      using Suc.prems(2) False by (subst (asm) rdy_all.simps) (auto split: option.splits)
    moreover note sys_core_rdy [OF Suc.prems(1) False, of m msk pend]
    ultimately show ?thesis using Suc.IH [of ?t n' s'] by auto
  qed
qed

text \<open>The shapes in which the services use them.\<close>

lemma sys_inv_post:
  assumes "sys_inv js nest k s" "Grp (wait_of s e) \<noteq> 0"
  shows "sys_inv js nest k (OS_Sched (snd (OS_EventTaskRdy e m msk pend s)))"
  by (rule sys_inv_Sched_after(1) [OF assms(1) sys_core_rdy [OF sys_inv_core [OF assms(1)] assms(2)]])

lemma sys_inv_post_opt:
  assumes i: "sys_inv js nest k s" and ne: "Grp (wait_of s e) \<noteq> 0"
    and w: "post_wake e m msk opt s = Some s'"
  shows "sys_inv js nest k (OS_Sched s')" "\<not> can_sched s \<Longrightarrow> sys_inv js nest k s'"
proof -
  have "sys_core js nest k s' \<and> rdy_set s \<subseteq> rdy_set s' \<and> os_frame s' = os_frame s"
  proof (cases "opt AND OS_POST_OPT_BROADCAST = 0")
    case True
    then have "s' = snd (OS_EventTaskRdy e m msk OS_STAT_PEND_OK s)" using w by (simp add: post_wake_def)
    then show ?thesis using sys_core_rdy [OF sys_inv_core [OF i] ne] by blast
  next
    case False
    then obtain n where "rdy_all 24 e m msk OS_STAT_PEND_OK s = Some (n, s')"
      using w by (auto simp: post_wake_def)
    then show ?thesis by (rule sys_core_rdy_all [OF sys_inv_core [OF i]])
  qed
  then show "sys_inv js nest k (OS_Sched s')" "\<not> can_sched s \<Longrightarrow> sys_inv js nest k s'"
    using sys_inv_Sched_after [OF i] by blast+
qed

lemma sys_inv_abort:
  assumes i: "sys_inv js nest k s" and a: "pend_abort e opt msk s = Some (err, n, s')"
  shows "sys_inv js nest k s'"
proof (cases "Grp (wait_of s e) = 0")
  case True
  then show ?thesis using i a by (simp add: pend_abort_def)
next
  case False
  then show ?thesis
    using a sys_inv_post [OF i False] sys_core_rdy_all [OF sys_inv_core [OF i]] sys_inv_Sched_after(1) [OF i]
    by (auto simp: pend_abort_def split: if_splits option.splits)
qed

lemma sched_view_data:
  "(\<And>ev. OSEventWait (f ev) = OSEventWait ev) \<Longrightarrow> sched_view (upd_event e f s) = sched_view s"
  "sched_view (set_ring q r s) = sched_view s"
  by (simp_all add: sched_view_def upd_event_def set_ring_def fun_eq_iff)

lemma sys_inv_data:
  "(\<And>ev. OSEventWait (f ev) = OSEventWait ev) \<Longrightarrow> sys_inv js nest k (upd_event e f s) = sys_inv js nest k s"
  "sys_inv js nest k (set_ring q r s) = sys_inv js nest k s"
  using sys_inv_view(1) [OF sched_view_data(1)] sys_inv_view(1) [OF sched_view_data(2)] by blast+

lemmas post_defs = OSSemPost_def OSMboxPost_def OSQPost_def OSQPostFront_def

lemma sys_inv_posts:
  assumes i: "sys_inv js nest k s"
  shows "sys_inv js nest k (snd (OSSemPost e s))" "sys_inv js nest k (snd (OSMboxPost e m s))"
    "sys_inv js nest k (snd (OSQPost e m s))" "sys_inv js nest k (snd (OSQPostFront e m s))"
  using i by (auto simp: post_defs Let_def sys_inv_data sys_inv_post)

lemma sys_inv_post_opts:
  assumes i: "sys_inv js nest k s" and o: "opt AND OS_POST_OPT_NO_SCHED = 0 \<or> \<not> can_sched s"
  shows "OSMboxPostOpt e m opt s = Some (err, s') \<Longrightarrow> sys_inv js nest k s'"
    "OSQPostOpt e m opt s = Some (err, s') \<Longrightarrow> sys_inv js nest k s'"
  using i o sys_inv_post_opt [OF i]
  by (auto simp: OSMboxPostOpt_def OSQPostOpt_def Let_def sys_inv_data split: if_splits option.splits)

lemma sys_inv_takes:
  assumes i: "sys_inv js nest k s"
  shows "sys_inv js nest k (snd (OSSemAccept e s))" "sys_inv js nest k (snd (OSMboxAccept e s))"
    "sys_inv js nest k (snd (snd (OSQAccept e True s)))" "sys_inv js nest k (snd (OSQFlush e s))"
    "sys_inv js nest k (snd (OSSemSet e n True s))"
  using i by (auto simp: OSSemAccept_def OSMboxAccept_def OSQAccept_def OSQFlush_def OSSemSet_def Let_def
      sys_inv_data split: prod.split)

lemma sys_inv_aborts:
  assumes i: "sys_inv js nest k s"
  shows "OSSemPendAbort e opt True s = Some (n, err, s') \<Longrightarrow> sys_inv js nest k s'"
    "OSMboxPendAbort e opt True s = Some (n, err, s') \<Longrightarrow> sys_inv js nest k s'"
    "OSQPendAbort e opt True s = Some (n, err, s') \<Longrightarrow> sys_inv js nest k s'"
  using i sys_inv_abort [OF i]
  by (auto simp: OSSemPendAbort_def OSMboxPendAbort_def OSQPendAbort_def Let_def split: if_splits option.splits)

section \<open>Giving up the processor\<close>

text \<open>A change after which the same tasks are ready and the same task runs.\<close>

lemma sys_inv_still:
  assumes i: "sys_inv js nest k s" and c: "sys_core js nest k' s'" and r: "rdy_set s' = rdy_set s"
    and ap: "\<And>q j. at_prio s' q j = at_prio s q j" and fr: "os_frame s' = os_frame s"
  shows "sys_inv js nest k' s'"
  using i c os_frameD(1,2) [OF fr] os_frame_ok(2) [OF fr] by (simp add: sys_inv_def highest_runs_def r ap)

text \<open>A task that leaves the ready list, or stays off it, because of a delay or a suspension.\<close>

lemma sys_core_leave:
  assumes c: "sys_core js nest k s" and a: "at_prio s p j" and p: "p \<noteq> 20" and f: "keeps_prio f"
    and w: "\<And>t e. waits_on (f t) e = waits_on t e" "\<And>t. OSTCBNext (f t) = OSTCBNext t"
    and ok: "wait_ok (k j) (f (OSTCBTbl s j)) False {e. p \<in> wait_set s e}"
  defines "s' \<equiv> upd_tcb j f (rdy_remove j s)"
  shows "sys_core js nest k s'" "rdy_set s' = rdy_set s - {p}" "os_frame s' = os_frame s"
    "at_prio s' q i = at_prio s q i"
proof -
  have wf: "os_wf s" using c by (simp add: sys_core_def)
  have r: "rdy_set (rdy_remove j s) = rdy_set s - {p}" by (rule rdy_set_remove [OF wf a])
  then show r': "rdy_set s' = rdy_set s - {p}" by (simp add: s'_def)
  show fr: "os_frame s' = os_frame s" by (simp add: s'_def)
  show ap: "at_prio s' q i = at_prio s q i" for q i using f by (simp add: s'_def)
  have ws: "wait_set s' e = wait_set s e" for e by (simp add: s'_def)
  have wf': "os_wf s'" unfolding s'_def
    by (rule os_wf_upd_tcb_at [OF os_wf_rdy_remove [OF wf a] f, of p])
      (use a r w(1) at_prio_waits_on [OF wf a] in auto)
  have "waits_ok k s'"
  proof (rule waits_ok_change [where p = p and s = s and k = k])
    show "waits_ok k s" using c by (simp add: sys_core_def)
  next
    fix q i assume q: "at_prio s q i" "q \<noteq> p"
    then have "i \<noteq> j" using at_prio_same_tcb [OF a] by blast
    with q show "k i = k i \<and> tcb_core (OSTCBTbl s' i) = tcb_core (OSTCBTbl s i) \<and>
        (q \<in> rdy_set s' \<longleftrightarrow> q \<in> rdy_set s) \<and> (\<forall>e. q \<in> wait_set s' e \<longleftrightarrow> q \<in> wait_set s e)"
      by (simp add: r' ws) (simp add: s'_def)
  next
    fix i assume "at_prio s p i"
    then have "i = j" using at_prio_unique [OF a] by blast
    then show "wait_ok (k i) (OSTCBTbl s' i) (p \<in> rdy_set s') {e. p \<in> wait_set s' e}"
      using ok by (simp add: r' ws) (simp add: s'_def)
  qed (rule ap)
  moreover have "20 \<in> rdy_set s'" using c p by (simp add: r' sys_core_def)
  ultimately show "sys_core js nest k s'"
    by (intro sys_core_change [OF c wf' _ _ ap fr]) (use w f in \<open>auto simp: s'_def keeps_prio_def rdy_remove_def Let_def upd_tcb_def\<close>)
qed

lemma sys_inv_block:
  fixes stat :: u8 and timeout :: u16
  assumes i: "sys_inv js nest k s" and cs: "can_sched s" and run: "k (cur s) = Run"
    and idle: "OSPrioCur s \<noteq> OS_TASK_IDLE_PRIO" and st: "stat AND OS_STAT_PEND_ANY \<noteq> 0"
    and c: "pends_on c e"
  shows "sys_inv js nest (k(cur s := c)) (OS_Sched (pend_block e stat timeout s))"
proof -
  obtain p j where r: "running s p j" "cur s = j" "unat (OSPrioCur s) = p" using sys_running [OF i run] .
  have co: "sys_core js nest k s" and wf: "os_wf s" using i by (simp_all add: sys_inv_def sys_core_def)
  note b = pend_block_correct [OF wf r(1), where e = e and stat = stat and timeout = timeout]
  define s' where "s' = pend_block e stat timeout s"
  note b = b [folded s'_def]
  have a: "at_prio s p j" and off: "\<And>e. p \<notin> wait_set s e" and multi: "OSTCBEventMultiPtr (OSTCBTbl s j) = None"
    using r(1) by (auto simp: running_def)
  have p: "p \<noteq> 20" using idle r(3) by (auto simp: word_unat_eq_iff)
  have "waits_ok (k(j := c)) s'"
  proof (rule waits_ok_change [where p = p and s = s and k = k])
    show "waits_ok k s" using co by (simp add: sys_core_def)
  next
    fix q i assume q: "at_prio s q i" "q \<noteq> p"
    then have "i \<noteq> j" using at_prio_same_tcb [OF a] by blast
    with q show "(k(j := c)) i = k i \<and> tcb_core (OSTCBTbl s' i) = tcb_core (OSTCBTbl s i) \<and>
        (q \<in> rdy_set s' \<longleftrightarrow> q \<in> rdy_set s) \<and> (\<forall>e. q \<in> wait_set s' e \<longleftrightarrow> q \<in> wait_set s e)"
      by (simp add: b(2-4))
  next
    fix i assume "at_prio s p i"
    then have ij: "i = j" using at_prio_unique [OF a] by blast
    have m: "(OSTCBStat (OSTCBTbl s j) OR stat) AND OS_STAT_PEND_ANY \<noteq> 0" by (rule or_masked [OF st])
    have "{e'. p \<in> wait_set s' e'} = {e}" using off by (auto simp: b(3))
    then show "wait_ok ((k(j := c)) i) (OSTCBTbl s' i) (p \<in> rdy_set s') {e. p \<in> wait_set s' e}"
      using c m multi by (simp add: ij b(2,4) wait_ok_def)
  qed (rule b(5))
  moreover have "20 \<in> rdy_set s'" using co p by (simp add: b(2) sys_core_def)
  moreover have "OSTickStepState s' = OSTickStepState s"
    by (simp add: s'_def pend_block_def OS_EventTaskWait_def Let_def rdy_remove_def upd_tcb_def upd_event_def)
  moreover have "OSTCBPrio (OSTCBTbl s' i) = OSTCBPrio (OSTCBTbl s i) \<and>
      OSTCBNext (OSTCBTbl s' i) = OSTCBNext (OSTCBTbl s i)" for i by (simp add: b(4))
  ultimately have "sys_core js nest (k(j := c)) s'" by (intro sys_core_change [OF co b(1) _ _ b(5,6)])
  moreover have "can_sched s'" using cs os_frame_ok(2) [OF b(6)] by simp
  ultimately show ?thesis unfolding r(2) s'_def by (auto intro!: sys_inv_Sched)
qed

text \<open>The end of a pend call.\<close>

lemma pend_finish_frame:
  assumes "OSTCBCur s = PTcb i"
  shows "OSTCBTbl (snd (pend_finish e s)) = (OSTCBTbl s)(i := (OSTCBTbl s i)\<lparr>OSTCBStat := OS_STAT_RDY,
      OSTCBStatPend := OS_STAT_PEND_OK, OSTCBEventPtr := NULL, OSTCBEventMultiPtr := None\<rparr>)"
    and "os_frame (snd (pend_finish e s)) = os_frame s"
    and "at_prio (snd (pend_finish e s)) q j = at_prio s q j"
    and "OSTickStepState (snd (pend_finish e s)) = OSTickStepState s"
proof -
  have k: "keeps_prio (\<lambda>t. t\<lparr>OSTCBStat := OS_STAT_RDY, OSTCBStatPend := OS_STAT_PEND_OK,
     OSTCBEventPtr := NULL, OSTCBEventMultiPtr := None\<rparr>)" by (simp add: keeps_prio_def)
  show "OSTCBTbl (snd (pend_finish e s)) = (OSTCBTbl s)(i := (OSTCBTbl s i)\<lparr>OSTCBStat := OS_STAT_RDY,
      OSTCBStatPend := OS_STAT_PEND_OK, OSTCBEventPtr := NULL, OSTCBEventMultiPtr := None\<rparr>)"
    "os_frame (snd (pend_finish e s)) = os_frame s"
    "at_prio (snd (pend_finish e s)) q j = at_prio s q j"
    using assms k by (simp_all add: pend_finish_def pend_clear_def split: pend_stat.split)
  show "OSTickStepState (snd (pend_finish e s)) = OSTickStepState s"
    by (simp add: pend_finish_def pend_clear_def OS_EventTaskRemove_def Let_def upd_tcb_def upd_event_def
        split: pend_stat.split)
qed

lemma sys_inv_finish:
  assumes i: "sys_inv js nest k s" and on: "\<And>e'. pends_on (k (cur s)) e' \<Longrightarrow> e' = e"
  shows "sys_inv js nest (k(cur s := Run)) (snd (pend_finish e s))"
proof -
  obtain p j where c: "OSTCBCur s = PTcb j" "unat (OSPrioCur s) = p" "at_prio s p j" "p \<in> rdy_set s"
    using sys_cur [OF i] .
  have co: "sys_core js nest k s" and wf: "os_wf s" and wo: "waits_ok k s"
    using i by (simp_all add: sys_inv_def sys_core_def)
  have "wait_ok (k j) (OSTCBTbl s j) True {e. p \<in> wait_set s e}"
    using waits_okD [OF wo c(3)] c(4) by simp
  then have "resumed s p j e" using c on by (auto simp: resumed_def wait_ok_def)
  note f = pend_finish_correct [OF wf this] and g = pend_finish_frame [OF c(1), of e]
  let ?s' = "snd (pend_finish e s)"
  have "waits_ok (k(j := Run)) ?s'"
  proof (rule waits_ok_change [where p = p and s = s and k = k])
    fix q i assume q: "at_prio s q i" "q \<noteq> p"
    then have "i \<noteq> j" using at_prio_same_tcb [OF c(3)] by blast
    with q show "(k(j := Run)) i = k i \<and> tcb_core (OSTCBTbl ?s' i) = tcb_core (OSTCBTbl s i) \<and>
        (q \<in> rdy_set ?s' \<longleftrightarrow> q \<in> rdy_set s) \<and> (\<forall>e. q \<in> wait_set ?s' e \<longleftrightarrow> q \<in> wait_set s e)"
      by (simp add: f(3,4) g(1))
  next
    fix i assume "at_prio s p i"
    then have "i = j" using at_prio_unique [OF c(3)] by blast
    then show "wait_ok ((k(j := Run)) i) (OSTCBTbl ?s' i) (p \<in> rdy_set ?s') {e. p \<in> wait_set ?s' e}"
      by (simp add: f(3,4) g(1) wait_ok_off)
  qed (rule wo, rule g(3))
  moreover have "20 \<in> rdy_set ?s'" using co by (simp add: f(3) sys_core_def)
  ultimately have "sys_core js nest (k(j := Run)) ?s'"
    by (intro sys_core_change [OF co f(1) _ _ g(3,2,4)]) (simp_all add: g(1))
  from sys_inv_still [OF i this f(3) g(3,2)] show ?thesis by (simp add: c(1))
qed

lemma sys_inv_msg: "sys_inv js nest k (upd_tcb i (\<lambda>t. t\<lparr>OSTCBMsg := m\<rparr>) s) = sys_inv js nest k s"
proof -
  let ?u = "upd_tcb i (\<lambda>t. t\<lparr>OSTCBMsg := m\<rparr>) s"
  have f: "keeps_prio (\<lambda>t. t\<lparr>OSTCBMsg := m\<rparr>)" by (simp add: keeps_prio_def)
  have ap: "at_prio ?u = at_prio s" using f by (simp add: fun_eq_iff)
  have w: "wait_ok c (OSTCBTbl ?u j) r W = wait_ok c (OSTCBTbl s j) r W" for c j r W
    by (simp add: wait_ok_def)
  have t: "task_list ?u js = task_list s js"
    using f chain_cong [of "OSTCBTbl ?u" "OSTCBTbl s"] by (simp add: task_list_def)
  have "OSTickStepState ?u = OSTickStepState s" by (simp add: upd_tcb_def)
  then show ?thesis
    unfolding sys_inv_def sys_core_def waits_ok_def w t ap
    using f by (simp add: cur_ok_def can_sched_def highest_runs_def ap)
qed

lemma sys_inv_resume:
  assumes i: "sys_inv js nest k s"
  shows "sys_inv js nest (k(cur s := Run)) (resume (k (cur s)) s)"
proof (cases "k (cur s)")
  case Run
  then show ?thesis using i by (simp add: fun_upd_idem)
next
  case (InSem x)
  then show ?thesis using sys_inv_finish [OF i, of "event_of x"] by (simp add: OSSemPend_resume_def)
next
  case (InMbox x)
  obtain j where "OSTCBCur s = PTcb j" using sys_cur [OF i] .
  then show ?thesis using sys_inv_finish [OF i, of "event_of x"] InMbox
    by (simp add: OSMboxPend_resume_def pend_finish_msg_eq sys_inv_msg)
next
  case (InQ x)
  obtain j where "OSTCBCur s = PTcb j" using sys_cur [OF i] .
  then show ?thesis using sys_inv_finish [OF i, of "event_of x"] InQ
    by (simp add: OSQPend_resume_def pend_finish_msg_eq sys_inv_msg)
qed

section \<open>Delays and suspension\<close>

lemma sys_inv_dly:
  assumes i: "sys_inv js nest k s" and run: "k (cur s) = Run" and idle: "OSPrioCur s \<noteq> OS_TASK_IDLE_PRIO"
    and lock: "OSLockNesting s = 0"
  shows "sys_inv js nest k (OSTimeDly n s)"
proof (cases "OSIntNesting s > 0 \<or> n = 0")
  case True
  then show ?thesis using i by (auto simp: OSTimeDly_def)
next
  case False
  then have cs: "can_sched s" and n: "n > 0" using lock by (auto simp: can_sched_def word_gt_0)
  obtain p j where r: "running s p j" "cur s = j" "unat (OSPrioCur s) = p" using sys_running [OF i run] .
  have a: "at_prio s p j" and off: "{e. p \<in> wait_set s e} = {}" and multi: "OSTCBEventMultiPtr (OSTCBTbl s j) = None"
    using r(1) by (auto simp: running_def)
  have p: "p \<noteq> 20" using idle r(3) by (auto simp: word_unat_eq_iff)
  let ?s1 = "upd_tcb j (\<lambda>t. t\<lparr>OSTCBDly := n\<rparr>) (rdy_remove j s)"
  have eq: "OSTimeDly n s = OS_Sched ?s1"
    using cs n r(2) by (simp add: OSTimeDly_def can_sched_def Let_def)
  have f: "keeps_prio (\<lambda>t. t\<lparr>OSTCBDly := n\<rparr>)" "waits_on (t\<lparr>OSTCBDly := n\<rparr>) e = waits_on t e"
    "OSTCBNext (t\<lparr>OSTCBDly := n\<rparr>) = OSTCBNext t" for t e
    by (simp_all add: keeps_prio_def waits_on_def split: option.split)
  have "wait_ok (k j) ((OSTCBTbl s j)\<lparr>OSTCBDly := n\<rparr>) False {e. p \<in> wait_set s e}"
    by (simp add: off multi wait_ok_off)
  note l = sys_core_leave(1,3) [OF sys_inv_core [OF i] a p f this]
  show ?thesis using l(1) cs os_frame_ok(2) [OF l(2)] unfolding eq by (auto intro!: sys_inv_Sched)
qed

lemma pend_bits_suspend:
  "(w OR OS_STAT_SUSPEND) AND OS_STAT_PEND_ANY = w AND OS_STAT_PEND_ANY"
  "(w AND NOT OS_STAT_SUSPEND) AND OS_STAT_PEND_ANY = w AND OS_STAT_PEND_ANY" for w :: u8
proof -
  have "(OS_STAT_SUSPEND :: u8) AND OS_STAT_PEND_ANY = 0" by code_simp
  then show "(w OR OS_STAT_SUSPEND) AND OS_STAT_PEND_ANY = w AND OS_STAT_PEND_ANY"
    by (metis (no_types, lifting) and.commute bit.conj_disj_distrib or.right_neutral)
  have "NOT OS_STAT_SUSPEND AND OS_STAT_PEND_ANY = (OS_STAT_PEND_ANY :: u8)" by code_simp
  then show "(w AND NOT OS_STAT_SUSPEND) AND OS_STAT_PEND_ANY = w AND OS_STAT_PEND_ANY"
    by (simp only: and.assoc)
qed

lemma prio_tbl_task:
  assumes c: "sys_core js nest k s" and p: "p \<le> 20" and t: "OSTCBPrioTbl s p \<noteq> NULL"
  obtains i where "at_prio s p i"
  using assms by (auto simp: sys_core_def)

lemma OSTaskSuspend_eq:
  assumes cp: "OSTCBPrio (cur_tcb s) = OSPrioCur s" and ne: "OSPrioCur s \<noteq> OS_PRIO_SELF"
  shows "snd (OSTaskSuspend prio s) =
    (let q = (if prio = OS_PRIO_SELF then OSPrioCur s else prio); ptcb = OSTCBPrioTbl s (unat q);
         s1 = upd_tcb (tcb_of ptcb) suspend_write (rdy_remove (tcb_of ptcb) s)
     in if prio = OS_TASK_IDLE_PRIO \<or> prio \<ge> OS_LOWEST_PRIO \<and> prio \<noteq> OS_PRIO_SELF \<or> ptcb = NULL \<or>
          ptcb = OS_TCB_RESERVED then s
        else if q = OSPrioCur s then OS_Sched s1 else s1)"
proof (cases "prio = OS_PRIO_SELF")
  case True
  then show ?thesis by (simp add: OSTaskSuspend_def Let_def cp suspend_write_def [abs_def])
next
  case False
  then show ?thesis using ne
    by (cases "prio = OSPrioCur s") (simp_all add: OSTaskSuspend_def Let_def cp suspend_write_def [abs_def])
qed

lemma sys_inv_suspend:
  fixes prio :: u8
  assumes i: "sys_inv js 0 k s" and run: "k (cur s) = Run" and idle: "OSPrioCur s \<noteq> OS_TASK_IDLE_PRIO"
    and lock: "OSLockNesting s = 0"
  shows "sys_inv js 0 k (snd (OSTaskSuspend prio s))"
proof -
  have c: "sys_core js 0 k s" by (rule sys_inv_core [OF i])
  obtain p j where r: "running s p j" "cur s = j" "unat (OSPrioCur s) = p" using sys_running [OF i run] .
  have cp: "OSTCBPrio (cur_tcb s) = OSPrioCur s"
    using r at_prio_unat [of s p j] by (auto simp: running_def word_unat_eq_iff)
  define q where "q = (if prio = OS_PRIO_SELF then OSPrioCur s else prio)"
  have "OSPrioCur s \<noteq> OS_PRIO_SELF" using r(1,3) by (auto simp: running_def at_prio_def)
  note E = OSTaskSuspend_eq [OF cp this, of prio, folded q_def, unfolded Let_def]
  show ?thesis
  proof (cases "prio = OS_TASK_IDLE_PRIO \<or> prio \<ge> OS_LOWEST_PRIO \<and> prio \<noteq> OS_PRIO_SELF \<or>
      OSTCBPrioTbl s (unat q) = NULL \<or> OSTCBPrioTbl s (unat q) = OS_TCB_RESERVED")
    case True
    then show ?thesis using i unfolding E by (simp only: if_True)
  next
    case False
    have q20: "unat q < 20"
    proof (cases "prio = OS_PRIO_SELF")
      case True
      have "p \<le> 20" "p \<noteq> 20" using r(1,3) idle by (auto simp: running_def at_prio_def word_unat_eq_iff)
      then show ?thesis using True r(3) by (simp add: q_def)
    next
      case f: False
      then show ?thesis using False by (auto simp: q_def word_le_nat_alt)
    qed
    obtain l where a: "at_prio s (unat q) l" using prio_tbl_task [OF c] False q20 by (metis less_imp_le)
    let ?s1 = "upd_tcb l suspend_write (rdy_remove l s)"
    have eq: "snd (OSTaskSuspend prio s) = (if q = OSPrioCur s then OS_Sched ?s1 else ?s1)"
      using False unfolding E at_prio_tbl [OF a] tcb_of.simps by auto
    have ok: "wait_ok (k l) (OSTCBTbl s l) (unat q \<in> rdy_set s) {e. unat q \<in> wait_set s e}"
      using c a by (intro waits_okD) (simp_all add: sys_core_def)
    then have ok': "wait_ok (k l) (suspend_write (OSTCBTbl s l)) False {e. unat q \<in> wait_set s e}"
      by (auto simp: wait_ok_def suspend_write_def pend_bits_suspend)
    have nx: "OSTCBNext (suspend_write t) = OSTCBNext t" for t by (simp add: suspend_write_def)
    have "unat q \<noteq> 20" using q20 by simp
    note l = sys_core_leave [OF c a this keeps_prio_suspend_write(1) waits_on_stat(1) nx ok']
    have L: "sys_core js 0 k ?s1" "rdy_set ?s1 = rdy_set s - {unat q}" "os_frame ?s1 = os_frame s"
      "at_prio ?s1 u v = at_prio s u v" for u v
      by (rule l)+
    show ?thesis
    proof (cases "q = OSPrioCur s")
      case True
      have "can_sched s" using lock c by (simp add: can_sched_def sys_core_def)
      then have "sys_inv js 0 k (OS_Sched ?s1)"
        using L(1) os_frame_ok(2) [OF L(3)] by (auto intro!: sys_inv_Sched)
      then show ?thesis by (simp add: eq True)
    next
      case other: False
      have u: "unat (OSPrioCur s) \<in> rdy_set s" "unat (OSPrioCur s) \<noteq> unat q"
        using i other by (auto simp: sys_inv_def word_unat_eq_iff)
      have h: "highest_runs ?s1" if "can_sched s"
      proof -
        have hr: "highest_runs s" using i that by (simp add: sys_inv_def)
        have fin: "finite (rdy_set s)"
          using c bm.finite_els [OF os_wf_bm(1)] by (simp add: sys_core_def rdy_set_def)
        have mn: "Min (rdy_set s) = unat (OSPrioCur s)" using hr by (simp add: highest_runs_def)
        have "Min (rdy_set s - {unat q}) = unat (OSPrioCur s)"
          using u fin mn by (intro Min_eqI) (use Min_le [OF fin] mn in auto)
        then show ?thesis
          using hr mn L(2) os_frameD(1,2) [OF L(3)] by (simp add: highest_runs_def L(4))
      qed
      have "sys_inv js 0 k ?s1"
        using L(1,2) u h os_frameD(2) [OF L(3)] os_frame_ok(2) [OF L(3)] by (simp add: sys_inv_def)
      then show ?thesis by (simp add: eq other)
    qed
  qed
qed

text \<open>Changing the control block of one task, and making one ready.\<close>

lemma sys_core_upd:
  assumes c: "sys_core js nest k s" and a: "at_prio s p i" and f: "keeps_prio f"
    and w: "\<And>t e. waits_on (f t) e = waits_on t e" "\<And>t. OSTCBNext (f t) = OSTCBNext t"
    and r: "p \<in> rdy_set s \<Longrightarrow> rdy_ok (f (OSTCBTbl s i))"
    and ok: "wait_ok (k i) (f (OSTCBTbl s i)) (p \<in> rdy_set s) {e. p \<in> wait_set s e}"
  shows "sys_core js nest k (upd_tcb i f s)"
proof -
  have wf: "os_wf s" using c by (simp add: sys_core_def)
  have wf': "os_wf (upd_tcb i f s)"
    by (rule os_wf_upd_tcb_at [OF wf f a r]) (use w(1) at_prio_waits_on [OF wf a] in auto)
  have "waits_ok k (upd_tcb i f s)"
  proof (rule waits_ok_change [where p = p and s = s and k = k])
    show "waits_ok k s" using c by (simp add: sys_core_def)
  next
    fix q j assume q: "at_prio s q j" "q \<noteq> p"
    then have "j \<noteq> i" using at_prio_same_tcb [OF a] by blast
    then show "k j = k j \<and> tcb_core (OSTCBTbl (upd_tcb i f s) j) = tcb_core (OSTCBTbl s j) \<and>
        (q \<in> rdy_set (upd_tcb i f s) \<longleftrightarrow> q \<in> rdy_set s) \<and>
        (\<forall>e. q \<in> wait_set (upd_tcb i f s) e \<longleftrightarrow> q \<in> wait_set s e)" by simp
  next
    fix j assume "at_prio s p j"
    then have "j = i" using at_prio_unique [OF a] by blast
    then show "wait_ok (k j) (OSTCBTbl (upd_tcb i f s) j) (p \<in> rdy_set (upd_tcb i f s))
        {e. p \<in> wait_set (upd_tcb i f s) e}" using ok by simp
  qed (use f in simp)
  then show ?thesis
  proof (rule sys_core_change [OF c wf'])
    show "20 \<in> rdy_set (upd_tcb i f s)" using c by (simp add: sys_core_def)
    show "at_prio (upd_tcb i f s) q j = at_prio s q j" for q j using f by simp
    show "OSTickStepState (upd_tcb i f s) = OSTickStepState s" by (simp add: upd_tcb_def)
    show "OSTCBPrio (OSTCBTbl (upd_tcb i f s) j) = OSTCBPrio (OSTCBTbl s j) \<and>
        OSTCBNext (OSTCBTbl (upd_tcb i f s) j) = OSTCBNext (OSTCBTbl s j)" for j
      using f w(2) by (simp add: keeps_prio_def)
  qed simp
qed

lemma sys_core_insert:
  assumes c: "sys_core js nest k s" and a: "at_prio s p i" and r: "rdy_ok (OSTCBTbl s i)"
    and ok: "wait_ok (k i) (OSTCBTbl s i) True {e. p \<in> wait_set s e}"
  defines "s' \<equiv> rdy_insert i (OSTCBY (OSTCBTbl s i)) s"
  shows "sys_core js nest k s'" "rdy_set s' = insert p (rdy_set s)"
proof -
  have wf: "os_wf s" using c by (simp add: sys_core_def)
  show rs: "rdy_set s' = insert p (rdy_set s)" unfolding s'_def by (rule rdy_set_insert [OF wf a])
  have wf': "os_wf s'" unfolding s'_def by (rule os_wf_rdy_insert [OF wf a r])
  have "waits_ok k s'"
  proof (rule waits_ok_change [where p = p and s = s and k = k])
    show "waits_ok k s" using c by (simp add: sys_core_def)
  next
    fix q j assume "at_prio s q j" "q \<noteq> p"
    then show "k j = k j \<and> tcb_core (OSTCBTbl s' j) = tcb_core (OSTCBTbl s j) \<and>
        (q \<in> rdy_set s' \<longleftrightarrow> q \<in> rdy_set s) \<and> (\<forall>e. q \<in> wait_set s' e \<longleftrightarrow> q \<in> wait_set s e)"
      by (simp add: rs) (simp add: s'_def)
  next
    fix j assume "at_prio s p j"
    then have "j = i" using at_prio_unique [OF a] by blast
    then show "wait_ok (k j) (OSTCBTbl s' j) (p \<in> rdy_set s') {e. p \<in> wait_set s' e}"
      using ok by (simp add: rs) (simp add: s'_def)
  qed (simp add: s'_def)
  then show "sys_core js nest k s'"
  proof (rule sys_core_change [OF c wf'])
    show "20 \<in> rdy_set s'" using c rs by (simp add: sys_core_def)
    show "OSTickStepState s' = OSTickStepState s" by (simp add: s'_def rdy_insert_def Let_def)
  qed (simp_all add: s'_def)
qed

lemma wait_ok_expire: "wait_ok c t r W \<Longrightarrow> OSTCBDly t \<noteq> 0 \<Longrightarrow> wait_ok c (expire t) r' W"
  by (auto simp: wait_ok_def expire_def)

lemma sys_inv_dly_resume:
  assumes i: "sys_inv js nest k s"
  shows "sys_inv js nest k (snd (OSTimeDlyResume prio s))"
proof (cases "prio \<ge> OS_LOWEST_PRIO \<or> OSTCBPrioTbl s (unat prio) = NULL \<or>
    OSTCBPrioTbl s (unat prio) = OS_TCB_RESERVED \<or>
    OSTCBDly (OSTCBTbl s (tcb_of (OSTCBPrioTbl s (unat prio)))) = 0")
  case True
  then have "snd (OSTimeDlyResume prio s) = s" by (auto simp: OSTimeDlyResume_def Let_def)
  then show ?thesis using i by simp
next
  case False
  have c: "sys_core js nest k s" and wf: "os_wf s" using i by (simp_all add: sys_inv_def sys_core_def)
  have "unat prio \<le> 20" using False by (auto simp: word_le_nat_alt)
  then obtain l where a: "at_prio s (unat prio) l" using prio_tbl_task [OF c] False by metis
  have d: "OSTCBDly (OSTCBTbl s l) \<noteq> 0" using False at_prio_tbl [OF a] by simp
  have nr: "unat prio \<notin> rdy_set s" using at_prio_rdy_ok [OF wf a] d by (auto simp: rdy_ok_def)
  have w: "wait_ok (k l) (expire (OSTCBTbl s l)) r {e. unat prio \<in> wait_set s e}" for r
    using c waits_okD [OF _ a] d by (auto simp: sys_core_def intro: wait_ok_expire)
  have nx: "OSTCBNext (expire t) = OSTCBNext t" for t by (simp add: expire_def)
  have c1: "sys_core js nest k (upd_tcb l expire s)"
    by (rule sys_core_upd [OF c a keeps_prio_expire waits_on_expire nx _ w]) (simp add: nr)
  have eq: "snd (OSTimeDlyResume prio s) =
      (if suspended (OSTCBTbl s l) then upd_tcb l expire s
       else OS_Sched (rdy_insert l (OSTCBY (OSTCBTbl (upd_tcb l expire s) l)) (upd_tcb l expire s)))"
    using False at_prio_tbl [OF a] d
    by (simp add: OSTimeDlyResume_def Let_def dly_over_eq suspended_def)
  show ?thesis
  proof (cases "suspended (OSTCBTbl s l)")
    case True
    then show ?thesis unfolding eq using sys_inv_still [OF i c1] by simp
  next
    case False
    have a1: "at_prio (upd_tcb l expire s) (unat prio) l" using a by simp
    have "rdy_ok (OSTCBTbl (upd_tcb l expire s) l)"
      "wait_ok (k l) (OSTCBTbl (upd_tcb l expire s) l) True {e. unat prio \<in> wait_set (upd_tcb l expire s) e}"
      using False w by (simp_all add: rdy_ok_expire)
    note n = sys_core_insert [OF c1 a1 this]
    have "sys_inv js nest k (OS_Sched (rdy_insert l (OSTCBY (OSTCBTbl (upd_tcb l expire s) l)) (upd_tcb l expire s)))"
      by (rule sys_inv_Sched_after(1) [OF i n(1)]) (use n(2) in auto)
    then show ?thesis using False unfolding eq by simp
  qed
qed

lemma sys_inv_task_resume:
  assumes i: "sys_inv js nest k s"
  shows "sys_inv js nest k (snd (OSTaskResume prio s))"
proof (cases "prio \<ge> OS_LOWEST_PRIO \<or> OSTCBPrioTbl s (unat prio) = NULL \<or>
    OSTCBPrioTbl s (unat prio) = OS_TCB_RESERVED \<or>
    \<not> suspended (OSTCBTbl s (tcb_of (OSTCBPrioTbl s (unat prio))))")
  case True
  then have "snd (OSTaskResume prio s) = s" by (auto simp: OSTaskResume_def Let_def suspended_def)
  then show ?thesis using i by simp
next
  case False
  let ?f = "\<lambda>t. t\<lparr>OSTCBStat := OSTCBStat t AND NOT OS_STAT_SUSPEND\<rparr>"
  have c: "sys_core js nest k s" and wf: "os_wf s" using i by (simp_all add: sys_inv_def sys_core_def)
  have "unat prio \<le> 20" using False by (auto simp: word_le_nat_alt)
  then obtain l where a: "at_prio s (unat prio) l" using prio_tbl_task [OF c] False by metis
  have su: "suspended (OSTCBTbl s l)" using False at_prio_tbl [OF a] by simp
  have nr: "unat prio \<notin> rdy_set s" using at_prio_rdy_ok [OF wf a] su by (auto simp: rdy_ok_def suspended_def)
  have w: "wait_ok (k l) (OSTCBTbl s l) False {e. unat prio \<in> wait_set s e}"
    using c waits_okD [OF _ a] nr by (auto simp: sys_core_def)
  have w1: "wait_ok (k l) (?f (OSTCBTbl s l)) False {e. unat prio \<in> wait_set s e}"
    using w by (auto simp: wait_ok_def pend_bits_suspend(2) [simplified])
  have f: "keeps_prio ?f" "waits_on (?f t) e = waits_on t e" "OSTCBNext (?f t) = OSTCBNext t" for t e
    by simp_all
  let ?s1 = "upd_tcb l ?f s"
  have c1: "sys_core js nest k ?s1"
    by (rule sys_core_upd [OF c a f]) (use nr w1 in simp_all)
  have eq: "snd (OSTaskResume prio s) =
      (if OSTCBStat (OSTCBTbl ?s1 l) = OS_STAT_RDY \<and> OSTCBDly (OSTCBTbl ?s1 l) = 0
       then OS_Sched (rdy_insert l (OSTCBY (OSTCBTbl ?s1 l)) ?s1) else ?s1)"
    using False at_prio_tbl [OF a] su c
    by (auto simp: OSTaskResume_def Let_def suspended_def sys_core_def)
  show ?thesis
  proof (cases "OSTCBStat (OSTCBTbl ?s1 l) = OS_STAT_RDY \<and> OSTCBDly (OSTCBTbl ?s1 l) = 0")
    case False
    have "sys_inv js nest k ?s1" by (rule sys_inv_still [OF i c1]) (use f(1) in simp_all)
    then show ?thesis using False unfolding eq by (simp only: if_False)
  next
    case True
    have r: "rdy_ok (OSTCBTbl ?s1 l)" using True by (simp add: rdy_ok_def)
    have a1: "at_prio ?s1 (unat prio) l" using a f(1) by simp
    have "wait_ok (k l) (OSTCBTbl ?s1 l) True {e. unat prio \<in> wait_set ?s1 e}"
      using w1 True by (simp add: wait_ok_def)
    note n = sys_core_insert [OF c1 a1 r this]
    have "sys_inv js nest k (OS_Sched (rdy_insert l (OSTCBY (OSTCBTbl ?s1 l)) ?s1))"
      by (rule sys_inv_Sched_after(1) [OF i n(1)]) (use n(2) in auto)
    then show ?thesis using True unfolding eq by simp
  qed
qed

section \<open>Locking and interrupts\<close>

lemma sys_core_nesting:
  "sys_core js nest k (s\<lparr>OSLockNesting := x\<rparr>) = sys_core js nest k s"
  "sys_core js nest' k (s\<lparr>OSIntNesting := nest'\<rparr>) \<longleftrightarrow> sys_core js (OSIntNesting s) k s"
proof -
  have a: "at_prio (s\<lparr>OSLockNesting := x\<rparr>) = at_prio s" "at_prio (s\<lparr>OSIntNesting := nest'\<rparr>) = at_prio s"
    by (simp_all add: at_prio_def fun_eq_iff)
  show "sys_core js nest k (s\<lparr>OSLockNesting := x\<rparr>) = sys_core js nest k s"
    "sys_core js nest' k (s\<lparr>OSIntNesting := nest'\<rparr>) \<longleftrightarrow> sys_core js (OSIntNesting s) k s"
    unfolding sys_core_def os_wf_def waits_ok_def task_list_def a
    by (simp_all add: rdy_set_def wait_set_def cur_ok_def)
qed

lemma nesting_fields [simp]:
  "rdy_set (s\<lparr>OSLockNesting := x\<rparr>) = rdy_set s" "rdy_set (s\<lparr>OSIntNesting := x\<rparr>) = rdy_set s"
  by (simp_all add: rdy_set_def)

lemma sys_inv_lock:
  assumes i: "sys_inv js nest k s"
  shows "sys_inv js nest k (OSSchedLock s)" "sys_inv js nest k (OSSchedUnlock s)"
proof -
  have c: "sys_core js nest k s" and u: "unat (OSPrioCur s) \<in> rdy_set s"
    using i by (simp_all add: sys_inv_def)
  have off: "sys_inv js nest k (s\<lparr>OSLockNesting := x\<rparr>)" if "x \<noteq> 0 \<or> OSIntNesting s \<noteq> 0" for x
    using that c u by (auto simp: sys_inv_def sys_core_nesting can_sched_def)
  have "OSLockNesting s + 1 \<noteq> 0" if "OSLockNesting s < 255"
  proof
    assume "OSLockNesting s + 1 = 0"
    then have "OSLockNesting s = 255" by (simp add: eq_neg_iff_add_eq_0 [symmetric])
    with that show False by simp
  qed
  then show "sys_inv js nest k (OSSchedLock s)"
    using i off by (simp add: OSSchedLock_def)
  have "sys_inv js nest k (OS_Sched (s\<lparr>OSLockNesting := x\<rparr>))" for x
    by (rule sys_inv_Sched) (use c u in \<open>simp_all add: sys_core_nesting\<close>)
  then show "sys_inv js nest k (OSSchedUnlock s)"
    using i off by (simp add: OSSchedUnlock_def Let_def)
qed

lemma wait_ok_tick:
  assumes "wait_ok c t r W" "r' \<longleftrightarrow> r \<or> wakes t"
  shows "wait_ok c (tick_write t) r' W"
  using assms by (auto simp: wait_ok_def tick_write_def expire_def wakes_def)

lemma sys_core_tick:
  assumes c: "sys_core js nest k s"
  shows "\<exists>s'. OSTimeTick s = Some s' \<and> sys_core js nest k s' \<and> rdy_set s \<subseteq> rdy_set s' \<and> os_frame s' = os_frame s"
proof -
  let ?u = "s\<lparr>OSTime := OSTime s + 1\<rparr>"
  have wf: "os_wf s" and tl: "task_list s js" and on: "OSRunning s" "OSTickStepState s = OS_TICK_STEP_DIS"
    and wo: "waits_ok k s"
    using c by (simp_all add: sys_core_def)
  have d: "distinct js" "\<forall>j \<in> set js. \<exists>p. at_prio s p j" using tl by (auto simp: task_list_def)
  define s' where "s' = tick_all js ?u"
  have eq: "OSTimeTick s = Some s'" unfolding s'_def by (rule OSTimeTick_tick_all [OF tl on])
  have sets: "os_wf s'" "rdy_set s' = rdy_set s \<union> {p. \<exists>j \<in> set js. at_prio s p j \<and> wakes (OSTCBTbl s j)}"
    using tick_all_sets [of ?u js] wf d by (simp_all add: s'_def)
  have tbl: "OSTCBTbl s' j = (if j \<in> set js then tick_write (OSTCBTbl s j) else OSTCBTbl s j)" for j
    using tick_all_tbl [OF d(1), of ?u j] by (simp add: s'_def)
  have fr: "os_frame s' = os_frame s" and ap: "at_prio s' q j = at_prio s q j"
    and ws: "wait_set s' e = wait_set s e" for q j e by (simp_all add: s'_def)
  have "waits_ok k s'" unfolding waits_ok_def
  proof (intro allI impI)
    fix p i assume "at_prio s' p i"
    then have a: "at_prio s p i" by (simp add: ap)
    have w: "wait_ok (k i) (OSTCBTbl s i) (p \<in> rdy_set s) {e. p \<in> wait_set s e}" by (rule waits_okD [OF wo a])
    have "(\<exists>j \<in> set js. at_prio s p j \<and> wakes (OSTCBTbl s j)) \<longleftrightarrow> i \<in> set js \<and> wakes (OSTCBTbl s i)"
      using a at_prio_unique [OF a] by blast
    then have r: "p \<in> rdy_set s' \<longleftrightarrow> p \<in> rdy_set s \<or> i \<in> set js \<and> wakes (OSTCBTbl s i)"
      unfolding sets(2) by simp
    show "wait_ok (k i) (OSTCBTbl s' i) (p \<in> rdy_set s') {e. p \<in> wait_set s' e}"
      using w wait_ok_tick [OF w] r by (simp add: ws tbl)
  qed
  moreover have "20 \<in> rdy_set s'" using c by (simp add: sets(2) sys_core_def)
  moreover have "OSTickStepState s' = OSTickStepState s" by (simp add: s'_def)
  moreover have "OSTCBPrio (OSTCBTbl s' j) = OSTCBPrio (OSTCBTbl s j) \<and>
      OSTCBNext (OSTCBTbl s' j) = OSTCBNext (OSTCBTbl s j)" for j by (simp add: tbl)
  ultimately have "sys_core js nest k s'" by (intro sys_core_change [OF c sets(1) _ _ ap fr])
  then show ?thesis using eq fr sets(2) by auto
qed

text \<open>Every service ends.\<close>

lemma rdy_all_ends:
  assumes "os_wf s"
  shows "\<exists>n s'. rdy_all 24 e m msk pend s = Some (n, s')"
  using rdy_all_terminates [OF assms] by metis

lemma service_ends:
  assumes wf: "os_wf s"
  obtains r s' where "service c s = Some (r, s')"
proof -
  have w: "\<exists>s'. post_wake e m msk opt s = Some s'" for e m msk opt
    using rdy_all_ends [OF wf, of e m msk OS_STAT_PEND_OK] by (auto simp: post_wake_def)
  have a: "\<exists>x. pend_abort e opt msk s = Some x" for e opt msk
    using rdy_all_ends [OF wf, of e NULL msk OS_STAT_PEND_ABORT] by (auto simp: pend_abort_def)
  have p: "OSMboxPostOpt e m opt s \<noteq> None" "OSQPostOpt e m opt s \<noteq> None" for e m opt
    using w [of "event_of e" m OS_STAT_MBOX opt] w [of "event_of e" m OS_STAT_Q opt]
    by (auto simp: OSMboxPostOpt_def OSQPostOpt_def Let_def)
  have b: "OSSemPendAbort e opt True s \<noteq> None" "OSMboxPendAbort e opt True s \<noteq> None"
    "OSQPendAbort e opt True s \<noteq> None" for e opt
    using a [of "event_of e" opt OS_STAT_SEM] a [of "event_of e" opt OS_STAT_MBOX]
      a [of "event_of e" opt OS_STAT_Q]
    by (auto simp: OSSemPendAbort_def OSMboxPendAbort_def OSQPendAbort_def Let_def)
  have "service c s \<noteq> None"
    by (cases c) (simp_all add: split_beta p b del: not_None_eq)
  then show thesis using that by auto
qed

section \<open>Steps keep the invariant\<close>

text \<open>A pend call: it returns at once, or its caller is inside it from now on.\<close>

lemma sys_inv_pend:
  assumes i: "sys_inv js 0 k s" and run: "k (cur s) = Run" and idle: "OSPrioCur s \<noteq> OS_TASK_IDLE_PRIO"
  shows "OSSemPend e n True s = (r, s') \<Longrightarrow> sys_inv js 0 (k(cur s := blocked r (InSem e))) s'"
    "OSMboxPend e n True s = (r', s') \<Longrightarrow> sys_inv js 0 (k(cur s := blocked r' (InMbox e))) s'"
    "OSQPend e n True s = (r', s') \<Longrightarrow> sys_inv js 0 (k(cur s := blocked r' (InQ e))) s'"
proof -
  have keep: "k(cur s := Run) = k" using run by (simp add: fun_upd_idem)
  have nest: "OSIntNesting s = 0" using i by (simp add: sys_inv_def sys_core_def)
  have block: "sys_inv js 0 (k(cur s := c)) (OS_Sched (pend_block (event_of e) stat n s))"
    if "OSLockNesting s = 0" "stat AND OS_STAT_PEND_ANY \<noteq> 0" "pends_on c (event_of e)" for c stat
    by (rule sys_inv_block [OF i _ run idle]) (use that nest in \<open>simp_all add: can_sched_def\<close>)
  have bits: "(OS_STAT_SEM :: u8) AND OS_STAT_PEND_ANY \<noteq> 0" "(OS_STAT_MBOX :: u8) AND OS_STAT_PEND_ANY \<noteq> 0"
    "(OS_STAT_Q :: u8) AND OS_STAT_PEND_ANY \<noteq> 0" by code_simp+
  show "OSSemPend e n True s = (r, s') \<Longrightarrow> sys_inv js 0 (k(cur s := blocked r (InSem e))) s'"
    using i keep nest block [OF _ bits(1), of "InSem e"]
    by (auto simp: OSSemPend_def Let_def sys_inv_data word_gt_0 split: if_splits)
  show "OSMboxPend e n True s = (r', s') \<Longrightarrow> sys_inv js 0 (k(cur s := blocked r' (InMbox e))) s'"
    using i keep nest block [OF _ bits(2), of "InMbox e"]
    by (auto simp: OSMboxPend_def Let_def sys_inv_data word_gt_0 split: if_splits)
  show "OSQPend e n True s = (r', s') \<Longrightarrow> sys_inv js 0 (k(cur s := blocked r' (InQ e))) s'"
    using i keep nest block [OF _ bits(3), of "InQ e"]
    by (auto simp: OSQPend_def Let_def sys_inv_data word_gt_0 split: if_splits prod.splits)
qed

lemma sys_inv_service:
  assumes i: "sys_inv js 0 k s" and run: "k (cur s) = Run" and idle: "OSPrioCur s \<noteq> OS_TASK_IDLE_PRIO"
    and may: "may_call s c" and sv: "service c s = Some (r, s')"
  shows "sys_inv js 0 (k(cur s := r)) s'"
proof -
  have keep: "k(cur s := Run) = k" using run by (simp add: fun_upd_idem)
  note rules = sys_inv_takes [OF i] sys_inv_posts [OF i] sys_inv_dly_resume [OF i]
    sys_inv_task_resume [OF i] sys_inv_lock [OF i]
  show ?thesis
  proof (cases c)
    case (MboxPostOpt e m opt)
    then show ?thesis using sv may keep sys_inv_post_opts(1) [OF i disjI1, of opt e m] by auto
  next
    case (QPostOpt e m opt)
    then show ?thesis using sv may keep sys_inv_post_opts(2) [OF i disjI1, of opt e m] by auto
  next
    case (SemAbort e opt)
    then show ?thesis using sv keep sys_inv_aborts(1) [OF i, of e opt] by auto
  next
    case (MboxAbort e opt)
    then show ?thesis using sv keep sys_inv_aborts(2) [OF i, of e opt] by auto
  next
    case (QAbort e opt)
    then show ?thesis using sv keep sys_inv_aborts(3) [OF i, of e opt] by auto
  next
    case (SemPend e n)
    then show ?thesis using sv sys_inv_pend(1) [OF i run idle, of e n] by (auto split: prod.splits)
  next
    case (MboxPend e n)
    then show ?thesis using sv sys_inv_pend(2) [OF i run idle, of e n] by (auto split: prod.splits)
  next
    case (QPend e n)
    then show ?thesis using sv sys_inv_pend(3) [OF i run idle, of e n] by (auto split: prod.splits)
  qed (use sv may keep rules sys_inv_dly [OF i run idle] sys_inv_suspend [OF i run idle] in auto)
qed

lemma sys_inv_handle:
  assumes i: "sys_inv js nest k s" and off: "nest \<noteq> 0" and h: "handler_ok h"
  shows "\<exists>s'. handle h s = Some s' \<and> sys_inv js nest k s'"
proof -
  have c: "sys_core js nest k s" and wf: "os_wf s" and cs: "\<not> can_sched s"
    using i off by (auto simp: sys_inv_def sys_core_def can_sched_def)
  show ?thesis
  proof (cases h)
    case Tick
    obtain s' where s': "OSTimeTick s = Some s'" "sys_core js nest k s'" "rdy_set s \<subseteq> rdy_set s'"
      "os_frame s' = os_frame s"
      using sys_core_tick [OF c] by blast
    then show ?thesis using Tick sys_inv_Sched_after(2) [OF i s'(2-4) cs] by simp
  next
    case (Service x)
    obtain r s' where s': "service x s = Some (r, s')" by (rule service_ends [OF wf])
    have "sys_inv js nest k s'"
      using s' h Service sys_inv_takes [OF i] sys_inv_posts [OF i] sys_inv_post_opts [OF i] cs
      by (cases x) auto
    then show ?thesis using Service s' by simp
  qed
qed

lemma sys_inv_handle_all:
  assumes "sys_inv js nest k s" "nest \<noteq> 0" "\<forall>h \<in> set hs. handler_ok h"
  shows "\<exists>s'. handle_all hs s = Some s' \<and> sys_inv js nest k s'"
  using assms
proof (induction hs arbitrary: s)
  case (Cons h hs)
  then obtain s1 where "handle h s = Some s1" "sys_inv js nest k s1"
    using sys_inv_handle [of js nest k s h] by auto
  then show ?case using Cons by auto
qed simp

lemma sys_inv_enter:
  assumes "sys_inv js 0 k s"
  shows "sys_inv js 1 k (OSIntEnter s)"
proof -
  have "sys_core js 0 k s" "OSRunning s" "OSIntNesting s = 0" "unat (OSPrioCur s) \<in> rdy_set s"
    using assms by (simp_all add: sys_inv_def sys_core_def)
  then show ?thesis by (simp add: OSIntEnter_def sys_inv_def sys_core_nesting can_sched_def)
qed

lemma sys_inv_interrupt:
  assumes i: "sys_inv js 0 k s" and h: "\<forall>h \<in> set hs. handler_ok h"
  shows "\<exists>s'. alt_irq_handler hs s = Some s' \<and> sys_inv js 0 k s'"
proof -
  have c: "sys_core js 0 k s" and on: "OSRunning s" and n0: "OSIntNesting s = 0"
    and u: "unat (OSPrioCur s) \<in> rdy_set s"
    using i by (simp_all add: sys_inv_def sys_core_def)
  have "sys_inv js 1 k (OSIntEnter s)" by (rule sys_inv_enter [OF i])
  then obtain s1 where s1: "handle_all hs (OSIntEnter s) = Some s1" "sys_inv js 1 k s1"
    using sys_inv_handle_all [OF _ _ h, of js 1 k "OSIntEnter s"] by auto
  have c1: "sys_core js 1 k s1" "OSIntNesting s1 = 1" "OSRunning s1" "unat (OSPrioCur s1) \<in> rdy_set s1"
    using s1(2) by (simp_all add: sys_inv_def sys_core_def)
  let ?t = "s1\<lparr>OSIntNesting := 0\<rparr>"
  have t: "sys_core js 0 k ?t" using c1 by (simp add: sys_core_nesting)
  have "OSIntExit s1 = OS_Sched ?t"
    using c1(2,3) by (simp add: OSIntExit_def OS_Sched_def Let_def)
  moreover have "sys_inv js 0 k (OS_Sched ?t)"
    by (rule sys_inv_Sched [OF t]) (use c1(4) in simp)
  ultimately show ?thesis using s1(1) by (simp add: alt_irq_handler_def)
qed

lemma sys_inv_idle: "sys_inv js 0 k s \<Longrightarrow> sys_inv js 0 k (OS_TaskIdle s)"
  using sys_inv_view(1) [of "OS_TaskIdle s" s] by (simp add: sched_view_def OS_TaskIdle_def)

lemma sys_step_inv:
  assumes "sys_step (s, k) (s', k')" "sys_inv js 0 k s"
  shows "sys_inv js 0 k' s'"
  using assms(1)
proof (cases rule: sys_step.cases)
  case (call c r)
  then show ?thesis using sys_inv_service [OF assms(2)] by simp
next
  case wake_up
  then show ?thesis using sys_inv_resume [OF assms(2)] by simp
next
  case idle
  then show ?thesis using sys_inv_idle [OF assms(2)] by simp
next
  case (interrupt hs)
  then show ?thesis using sys_inv_interrupt [OF assms(2), of hs] by auto
qed

section \<open>Nobody waits for something that is available\<close>

definition avail :: "os_state \<Rightarrow> nat \<Rightarrow> bool" where
  "avail s e =
     (case OSEventType (OSEventTbl s e) of
        OS_EVENT_TYPE_SEM \<Rightarrow> OSEventCnt (OSEventTbl s e) > 0
      | OS_EVENT_TYPE_MBOX \<Rightarrow> OSEventPtr (OSEventTbl s e) \<noteq> NULL
      | OS_EVENT_TYPE_Q \<Rightarrow> OSQEntries (OSQTbl s (ev_q s e)) > 0
      | _ \<Rightarrow> False)"

text \<open>And no two queues share their buffer.\<close>

definition served :: "os_state \<Rightarrow> bool" where
  "served s \<longleftrightarrow> (\<forall>e. avail s e \<longrightarrow> wait_set s e = {}) \<and>
     (\<forall>e e'. OSEventType (OSEventTbl s e) = OS_EVENT_TYPE_Q \<longrightarrow> OSEventType (OSEventTbl s e') = OS_EVENT_TYPE_Q \<longrightarrow>
        ev_q s e = ev_q s e' \<longrightarrow> e = e')"

lemma avail_data:
  assumes "event_data (OSEventTbl s' e) = event_data (OSEventTbl s e)" "OSQTbl s' = OSQTbl s"
  shows "avail s' e = avail s e"
  using event_data_eq [OF assms(1)] assms(2) by (simp add: avail_def split: event_type.split)

text \<open>An operation that changes no object and only takes tasks off wait lists.\<close>

definition calm :: "os_state \<Rightarrow> os_state \<Rightarrow> bool" where
  "calm s s' \<longleftrightarrow> (\<forall>e. event_data (OSEventTbl s' e) = event_data (OSEventTbl s e)) \<and> OSQTbl s' = OSQTbl s \<and>
     (\<forall>e. wait_set s' e \<subseteq> wait_set s e)"

lemma calm_served: "calm s s' \<Longrightarrow> served s \<Longrightarrow> served s'"
proof -
  assume c: "calm s s'" and d: "served s"
  have e: "OSEventType (OSEventTbl s' e) = OSEventType (OSEventTbl s e)"
    "OSEventPtr (OSEventTbl s' e) = OSEventPtr (OSEventTbl s e)" "avail s' e = avail s e" for e
    using c event_data_eq [of "OSEventTbl s' e" "OSEventTbl s e"] avail_data [of s' e s] by (simp_all add: calm_def)
  have "wait_set s' x = {}" if "wait_set s x = {}" for x using c that by (auto simp: calm_def)
  then show "served s'" using d by (simp add: served_def e)
qed

lemma calm_trans: "calm s t \<Longrightarrow> calm t u \<Longrightarrow> calm s u"
  unfolding calm_def by (metis order_trans)

lemma calm_same: "OSEventTbl s' = OSEventTbl s \<Longrightarrow> OSQTbl s' = OSQTbl s \<Longrightarrow> calm s s'"
  by (simp add: calm_def wait_set_def)

lemma calm_refl: "calm s s"
  by (rule calm_same) simp_all

lemma calm_Sched: "calm s t \<Longrightarrow> calm s (OS_Sched t)"
  by (simp add: calm_def)

lemma calm_rdy:
  assumes wf: "os_wf s" and ne: "Grp (wait_of s e) \<noteq> 0"
  shows "os_wf (snd (OS_EventTaskRdy e m msk pend s))" "calm s (snd (OS_EventTaskRdy e m msk pend s))"
proof -
  let ?s' = "snd (OS_EventTaskRdy e m msk pend s)"
  have w: "wait_set s e \<noteq> {}" using ne wait_empty_iff [OF wf] by simp
  note r = EventTaskRdy_sets [OF wf w, where pmsg = m and msk = msk and pend = pend]
  show "os_wf ?s'" by (rule r(1))
  have "OSQTbl ?s' = OSQTbl s" using r(6) by (simp add: os_frame_def)
  then show "calm s ?s'" using r(2,4) by (auto simp: calm_def)
qed

lemma calm_rdy_all:
  assumes wf: "os_wf s" and r: "rdy_all 24 e m msk pend s = Some (n, s')"
  shows "calm s s'"
proof -
  obtain t where t: "rdy_all 24 e m msk pend s = Some (card (wait_set s e), t)"
    "\<And>e'. wait_set t e' = wait_set s e' - wait_set s e"
    "\<And>e'. event_data (OSEventTbl t e') = event_data (OSEventTbl s e')" "os_frame t = os_frame s"
    by (rule rdy_all_terminates [OF wf]) blast
  have "t = s'" using t(1) r by simp
  moreover have "OSQTbl t = OSQTbl s" using t(4) by (simp add: os_frame_def)
  ultimately show ?thesis using t(2,3) by (auto simp: calm_def)
qed

lemma calm_wake:
  assumes "os_wf s" "Grp (wait_of s e) \<noteq> 0" "post_wake e m msk opt s = Some s'"
  shows "calm s s'"
  using assms calm_rdy_all [OF assms(1)] calm_rdy [OF assms(1,2)]
  by (auto simp: post_wake_def split: if_splits)

lemma calm_abort:
  assumes "os_wf s" "pend_abort e opt msk s = Some (err, n, s')"
  shows "calm s s'"
  using assms calm_rdy_all [OF assms(1)] calm_rdy [OF assms(1)] calm_refl
  by (auto simp: pend_abort_def intro!: calm_Sched split: if_splits option.splits)

text \<open>Changing one object that nobody waits for, or taking from it.\<close>

lemma served_update:
  assumes d: "served s" and w: "\<And>ev. OSEventWait (f ev) = OSEventWait ev"
    and t: "\<And>ev. OSEventType (f ev) = OSEventType ev" and q: "OSEventType (OSEventTbl s e) \<noteq> OS_EVENT_TYPE_Q"
    and a: "avail (upd_event e f s) e \<Longrightarrow> wait_set s e = {}"
  shows "served (upd_event e f s)"
proof -
  have o: "avail (upd_event e f s) e' = avail s e'" if "e' \<noteq> e" for e'
    using that by (simp add: avail_def upd_event_def split: event_type.split)
  have ty: "OSEventType (OSEventTbl (upd_event e f s) e') = OSEventType (OSEventTbl s e')" for e' by (simp add: t)
  have ws: "wait_set (upd_event e f s) e' = wait_set s e'" for e' by (rule os_wf_upd_event_data(2) [OF w])
  have pt: "ev_q (upd_event e f s) e' = ev_q s e'" if "e' \<noteq> e" for e' using that by simp
  have ne: "e' \<noteq> e" if "OSEventType (OSEventTbl s e') = OS_EVENT_TYPE_Q" for e' using that q by auto
  have "wait_set s e' = {}" if "avail (upd_event e f s) e'" for e'
    using that a o d by (cases "e' = e") (auto simp: served_def)
  moreover have "x = y" if "OSEventType (OSEventTbl s x) = OS_EVENT_TYPE_Q"
    "OSEventType (OSEventTbl s y) = OS_EVENT_TYPE_Q" "ev_q (upd_event e f s) x = ev_q (upd_event e f s) y" for x y
    using that d pt [OF ne] unfolding served_def by metis
  ultimately show ?thesis unfolding served_def ty ws by blast
qed

lemma served_ring:
  assumes d: "served s" and q: "OSEventType (OSEventTbl s e) = OS_EVENT_TYPE_Q"
    and a: "OSQEntries (fst r) > 0 \<Longrightarrow> wait_set s e = {}"
  shows "served (set_ring (ev_q s e) r s)"
proof -
  let ?s' = "set_ring (ev_q s e) r s"
  have q': "OSQTbl ?s' = (OSQTbl s)(ev_q s e := fst r)" by (simp add: set_ring_def split: prod.split)
  have "avail ?s' e' = avail s e'" if "e' \<noteq> e" for e'
  proof -
    have "ev_q s e' \<noteq> ev_q s e" if "OSEventType (OSEventTbl s e') = OS_EVENT_TYPE_Q"
      using d q that \<open>e' \<noteq> e\<close> unfolding served_def by blast
    then show ?thesis by (auto simp: avail_def q' split: event_type.split)
  qed
  moreover have "avail ?s' e \<Longrightarrow> wait_set s e = {}" using a q by (simp add: avail_def q')
  ultimately have "avail ?s' e' \<Longrightarrow> wait_set s e' = {}" for e'
    using d by (cases "e' = e") (auto simp: served_def)
  then show ?thesis using d by (simp add: served_def)
qed

lemma served_block:
  assumes wf: "os_wf s" and run: "running s p i" and d: "served s" and e: "\<not> avail s e"
  shows "served (OS_Sched (pend_block e stat timeout s))"
proof -
  let ?s' = "OS_Sched (pend_block e stat timeout s)"
  note b = pend_block_correct [OF wf run, where e = e and stat = stat and timeout = timeout]
  have ev: "event_data (OSEventTbl ?s' x) = event_data (OSEventTbl s x)" for x by (simp add: b(7))
  have q: "OSQTbl ?s' = OSQTbl s" using b(6) by (simp add: os_frame_def)
  have f: "OSEventType (OSEventTbl ?s' x) = OSEventType (OSEventTbl s x)"
    "OSEventPtr (OSEventTbl ?s' x) = OSEventPtr (OSEventTbl s x)" "avail ?s' x = avail s x" for x
    using event_data_eq [OF ev] avail_data [OF ev q] by blast+
  have "wait_set ?s' x = wait_set s x" if "x \<noteq> e" for x using that by (simp add: b(3))
  then show ?thesis using d e unfolding served_def f by metis
qed

lemma served_off: "served s \<Longrightarrow> avail s e \<Longrightarrow> wait_set s e = {}"
  by (simp add: served_def)

lemma served_posts:
  assumes wf: "os_wf s" and d: "served s"
  shows "served (snd (OSSemPost e s))" "served (snd (OSMboxPost e m s))"
    "served (snd (OSQPost e m s))" "served (snd (OSQPostFront e m s))"
    "OSMboxPostOpt e m opt s = Some (err, s') \<Longrightarrow> served s'"
    "OSQPostOpt e m opt s = Some (err, s') \<Longrightarrow> served s'"
proof -
  let ?e = "event_of e"
  have c: "served (OS_Sched (snd (OS_EventTaskRdy ?e x msk pend s)))" if "Grp (wait_of s ?e) \<noteq> 0" for x msk pend
    by (rule calm_served [OF calm_Sched [OF calm_rdy(2) [OF wf that]] d])
  have w: "served s1" "served (OS_Sched s1)"
    if "Grp (wait_of s ?e) \<noteq> 0" "post_wake ?e x msk opt s = Some s1" for x msk s1
    using calm_wake [OF wf that] d calm_served calm_Sched by blast+
  have u: "served (upd_event ?e f s)" if "Grp (wait_of s ?e) = 0" "OSEventType (OSEventTbl s ?e) \<noteq> OS_EVENT_TYPE_Q"
    "\<And>ev. OSEventWait (f ev) = OSEventWait ev" "\<And>ev. OSEventType (f ev) = OSEventType ev" for f
    by (rule served_update [OF d]) (use that wait_empty_iff [OF wf] in auto)
  have r: "served (set_ring (ev_q s ?e) x s)" if "Grp (wait_of s ?e) = 0" "OSEventType (OSEventTbl s ?e) = OS_EVENT_TYPE_Q" for x
    by (rule served_ring [OF d]) (use that wait_empty_iff [OF wf] in auto)
  show "served (snd (OSSemPost e s))" "served (snd (OSMboxPost e m s))"
    "served (snd (OSQPost e m s))" "served (snd (OSQPostFront e m s))"
    using d by (auto simp: post_defs Let_def intro!: c u r)
  show "OSMboxPostOpt e m opt s = Some (err, s') \<Longrightarrow> served s'"
    using d by (auto simp: OSMboxPostOpt_def Let_def intro: w intro!: u split: if_splits option.splits)
  show "OSQPostOpt e m opt s = Some (err, s') \<Longrightarrow> served s'"
    using d by (auto simp: OSQPostOpt_def Let_def intro: w intro!: r split: if_splits option.splits)
qed

lemma served_takes:
  assumes wf: "os_wf s" and d: "served s"
  shows "served (snd (OSSemAccept e s))" "served (snd (OSMboxAccept e s))"
    "served (snd (snd (OSQAccept e True s)))" "served (snd (OSQFlush e s))"
    "served (snd (OSSemSet e n True s))"
proof -
  let ?e = "event_of e"
  have u: "served (upd_event ?e f s)" if "avail (upd_event ?e f s) ?e \<Longrightarrow> wait_set s ?e = {}" "OSEventType (OSEventTbl s ?e) \<noteq> OS_EVENT_TYPE_Q"
    "\<And>ev. OSEventWait (f ev) = OSEventWait ev" "\<And>ev. OSEventType (f ev) = OSEventType ev" for f
    by (rule served_update [OF d]) (use that in auto)
  have a: "avail s ?e \<Longrightarrow> wait_set s ?e = {}" by (rule served_off [OF d])
  show "served (snd (OSSemAccept e s))"
    using d a by (auto simp: OSSemAccept_def Let_def avail_def intro!: u)
  show "served (snd (OSMboxAccept e s))"
    using d by (auto simp: OSMboxAccept_def Let_def avail_def intro!: u)
  show "served (snd (OSSemSet e n True s))"
    using d a wait_empty_iff [OF wf, of ?e] by (auto simp: OSSemSet_def Let_def avail_def intro!: u)
  have r: "served (set_ring (ev_q s ?e) x s)"
    if "OSEventType (OSEventTbl s ?e) = OS_EVENT_TYPE_Q" "OSQEntries (fst x) > 0 \<Longrightarrow> wait_set s ?e = {}" for x
    by (rule served_ring [OF d]) (use that in auto)
  show "served (snd (snd (OSQAccept e True s)))"
    using d a by (auto simp: OSQAccept_def Let_def avail_def intro!: r split: prod.split)
  show "served (snd (OSQFlush e s))"
    using d by (auto simp: OSQFlush_def Let_def ring_flush_def intro!: r split: prod.split)
qed

lemma served_aborts:
  assumes wf: "os_wf s" and d: "served s"
  shows "OSSemPendAbort e opt True s = Some (n, err, s') \<Longrightarrow> served s'"
    "OSMboxPendAbort e opt True s = Some (n, err, s') \<Longrightarrow> served s'"
    "OSQPendAbort e opt True s = Some (n, err, s') \<Longrightarrow> served s'"
  using d calm_served [OF calm_abort [OF wf] d]
  by (auto simp: OSSemPendAbort_def OSMboxPendAbort_def OSQPendAbort_def Let_def split: if_splits option.splits)

lemma served_pends:
  assumes wf: "os_wf s" and d: "served s" and run: "running s p i"
  shows "served (snd (OSSemPend e n True s))" "served (snd (OSMboxPend e n True s))"
    "served (snd (OSQPend e n True s))"
proof -
  let ?e = "event_of e"
  have u: "served (upd_event ?e f s)" if "avail (upd_event ?e f s) ?e \<Longrightarrow> wait_set s ?e = {}" "OSEventType (OSEventTbl s ?e) \<noteq> OS_EVENT_TYPE_Q"
    "\<And>ev. OSEventWait (f ev) = OSEventWait ev" "\<And>ev. OSEventType (f ev) = OSEventType ev" for f
    by (rule served_update [OF d]) (use that in auto)
  have a: "avail s ?e \<Longrightarrow> wait_set s ?e = {}" by (rule served_off [OF d])
  have r: "served (set_ring (ev_q s ?e) x s)"
    if "OSEventType (OSEventTbl s ?e) = OS_EVENT_TYPE_Q" "OSQEntries (fst x) > 0 \<Longrightarrow> wait_set s ?e = {}" for x
    by (rule served_ring [OF d]) (use that in auto)
  note b = served_block [OF wf run d, of ?e]
  show "served (snd (OSSemPend e n True s))"
    using d a b by (auto simp: OSSemPend_def Let_def avail_def intro!: u)
  show "served (snd (OSMboxPend e n True s))"
    using d b by (auto simp: OSMboxPend_def Let_def avail_def intro!: u)
  show "served (snd (OSQPend e n True s))"
    using d a b by (auto simp: OSQPend_def Let_def avail_def intro!: r split: prod.split)
qed

text \<open>The services that change no object.\<close>

lemma event_tables_kept:
  "OSEventTbl (OSTimeDly n s) = OSEventTbl s" "OSQTbl (OSTimeDly n s) = OSQTbl s"
  "OSEventTbl (snd (OSTimeDlyResume p s)) = OSEventTbl s" "OSQTbl (snd (OSTimeDlyResume p s)) = OSQTbl s"
  "OSEventTbl (snd (OSTaskSuspend p s)) = OSEventTbl s" "OSQTbl (snd (OSTaskSuspend p s)) = OSQTbl s"
  "OSEventTbl (snd (OSTaskResume p s)) = OSEventTbl s" "OSQTbl (snd (OSTaskResume p s)) = OSQTbl s"
  "OSEventTbl (OSSchedLock s) = OSEventTbl s" "OSQTbl (OSSchedLock s) = OSQTbl s"
  "OSEventTbl (OSSchedUnlock s) = OSEventTbl s" "OSQTbl (OSSchedUnlock s) = OSQTbl s"
  by (simp_all add: OSTimeDly_def OSTimeDlyResume_def OSTaskSuspend_def OSTaskResume_def OSSchedLock_def
      OSSchedUnlock_def dly_over_eq Let_def split: prod.split)

lemmas served_kept = calm_served [OF calm_same]

lemma served_service:
  assumes wf: "os_wf s" and d: "served s" and run: "running s p i \<or> isr_may_call c"
    and sv: "service c s = Some (r, s')"
  shows "served s'"
proof -
  note rules = served_takes [OF wf d] served_posts(1-4) [OF wf d] served_kept [OF event_tables_kept(1,2) d]
    served_kept [OF event_tables_kept(3,4) d] served_kept [OF event_tables_kept(5,6) d]
    served_kept [OF event_tables_kept(7,8) d] served_kept [OF event_tables_kept(9,10) d]
    served_kept [OF event_tables_kept(11,12) d]
  show ?thesis
  proof (cases c)
    case (MboxPostOpt e m opt)
    then show ?thesis using sv served_posts(5) [OF wf d, of e m opt] by auto
  next
    case (QPostOpt e m opt)
    then show ?thesis using sv served_posts(6) [OF wf d, of e m opt] by auto
  next
    case (SemAbort e opt)
    then show ?thesis using sv served_aborts(1) [OF wf d, of e opt] by auto
  next
    case (MboxAbort e opt)
    then show ?thesis using sv served_aborts(2) [OF wf d, of e opt] by auto
  next
    case (QAbort e opt)
    then show ?thesis using sv served_aborts(3) [OF wf d, of e opt] by auto
  next
    case (SemPend e n)
    then show ?thesis using sv run served_pends(1) [OF wf d, of p i e n] by (auto split: prod.splits)
  next
    case (MboxPend e n)
    then show ?thesis using sv run served_pends(2) [OF wf d, of p i e n] by (auto split: prod.splits)
  next
    case (QPend e n)
    then show ?thesis using sv run served_pends(3) [OF wf d, of p i e n] by (auto split: prod.splits)
  qed (use sv rules in auto)
qed

lemma served_tick:
  assumes c: "sys_core js nest k s" and d: "served s" and t: "OSTimeTick s = Some s'"
  shows "served s'"
proof -
  have "s' = tick_all js (s\<lparr>OSTime := OSTime s + 1\<rparr>)"
    using c t OSTimeTick_tick_all [of s js] by (simp add: sys_core_def)
  moreover from this have "os_frame s' = os_frame s" by simp
  ultimately show ?thesis by (intro served_kept [OF _ _ d]) (simp_all add: os_frame_def)
qed

lemma served_handle_all:
  assumes "sys_inv js nest k s" "nest \<noteq> 0" "served s" "\<forall>h \<in> set hs. handler_ok h" "handle_all hs s = Some s'"
  shows "served s'"
  using assms
proof (induction hs arbitrary: s)
  case (Cons h hs)
  then obtain s1 where s1: "handle h s = Some s1" "sys_inv js nest k s1"
    using sys_inv_handle [of js nest k s h] by auto
  have c: "sys_core js nest k s" and wf: "os_wf s" using Cons.prems(1) by (simp_all add: sys_inv_def sys_core_def)
  have "served s1"
  proof (cases h)
    case Tick
    then show ?thesis using s1(1) served_tick [OF c Cons.prems(3)] by simp
  next
    case (Service x)
    then show ?thesis using s1(1) Cons.prems(4) served_service [OF wf Cons.prems(3), of _ _ x] by auto
  qed
  then show ?case using Cons.IH [OF s1(2)] Cons.prems s1(1) by simp
qed simp

lemma served_interrupt:
  assumes i: "sys_inv js 0 k s" and d: "served s" and h: "\<forall>h \<in> set hs. handler_ok h"
    and s': "alt_irq_handler hs s = Some s'"
  shows "served s'"
proof -
  have c: "sys_core js 0 k s" and on: "OSRunning s" and n0: "OSIntNesting s = 0"
    and u: "unat (OSPrioCur s) \<in> rdy_set s"
    using i by (simp_all add: sys_inv_def sys_core_def)
  have e: "sys_inv js 1 k (OSIntEnter s)" "served (OSIntEnter s)"
    using c u n0 on served_kept [OF _ _ d, of "OSIntEnter s"]
    by (simp_all add: OSIntEnter_def sys_inv_def sys_core_nesting can_sched_def)
  obtain s1 where s1: "handle_all hs (OSIntEnter s) = Some s1" "s' = OSIntExit s1"
    using s' by (auto simp: alt_irq_handler_def)
  have "served s1" by (rule served_handle_all [OF e(1) _ e(2) h s1(1)]) simp
  then show ?thesis unfolding s1(2)
    by (rule served_kept [rotated 2]) (simp_all add: OSIntExit_def Let_def)
qed

lemma served_resume:
  assumes i: "sys_inv js nest k s" and d: "served s"
  shows "served (resume (k (cur s)) s)"
proof -
  obtain p j where c: "OSTCBCur s = PTcb j" "at_prio s p j" using sys_cur [OF i] .
  have wf: "os_wf s" using i by (simp add: sys_inv_def sys_core_def)
  have "calm s (snd (pend_finish e s))" for e
  proof -
    define s1 where "s1 = (if OSTCBStatPend (OSTCBTbl s j) = OS_STAT_PEND_TO then OS_EventTaskRemove j e s else s)"
    have "snd (pend_finish e s) = pend_clear s1"
      by (simp add: pend_finish_def c(1) s1_def split: pend_stat.split)
    moreover have "calm s s1"
      using wait_set_EventTaskRemove [OF wf c(2)] calm_refl by (auto simp: s1_def calm_def)
    moreover have "calm s1 (pend_clear s1)" by (rule calm_same) (simp_all add: pend_clear_def)
    ultimately show ?thesis using calm_trans by simp
  qed
  moreover have "calm s (upd_tcb j f t)" if "calm s t" for f t
    by (rule calm_trans [OF that calm_same]) simp_all
  ultimately have "calm s (resume (k (cur s)) s)"
    using calm_refl
    by (cases "k (cur s)") (auto simp: OSSemPend_resume_def OSMboxPend_resume_def OSQPend_resume_def
        pend_finish_msg_eq [OF c(1)])
  then show ?thesis by (rule calm_served [OF _ d])
qed

section \<open>Reachable states\<close>

definition sys_ok :: "nat list \<Rightarrow> sys \<Rightarrow> bool" where
  "sys_ok js x \<longleftrightarrow> (case x of (s, k) \<Rightarrow> sys_inv js 0 k s \<and> served s)"

lemma sys_step_ok:
  assumes st: "sys_step x y" and ok: "sys_ok js x"
  shows "sys_ok js y"
proof -
  obtain s k s' k' where xy: "x = (s, k)" "y = (s', k')" by fastforce
  have i: "sys_inv js 0 k s" and d: "served s" using ok xy by (simp_all add: sys_ok_def)
  have wf: "os_wf s" using i by (simp add: sys_inv_def sys_core_def)
  have "served s'"
    using st unfolding xy
  proof (cases rule: sys_step.cases)
    case (call c r)
    obtain p j where "running s p j" using sys_running [OF i call(2)] .
    then show ?thesis using served_service [OF wf d _ call(5)] by blast
  next
    case wake_up
    then show ?thesis using served_resume [OF i d] by simp
  next
    case idle
    have "served (OS_TaskIdle s)" by (rule served_kept [OF _ _ d]) (simp_all add: OS_TaskIdle_def)
    then show ?thesis using idle by simp
  next
    case (interrupt hs)
    then show ?thesis using served_interrupt [OF i d] by simp
  qed
  then show ?thesis using sys_step_inv [OF st [unfolded xy] i] by (simp add: sys_ok_def xy)
qed

text \<open>Invariance along runs, for any transition relation.\<close>

locale transitions =
  fixes step :: "'a \<Rightarrow> 'a \<Rightarrow> bool"
    and ok :: "'a \<Rightarrow> bool"
  assumes step_ok: "step x y \<Longrightarrow> ok x \<Longrightarrow> ok y"
begin

lemma run_ok: "step\<^sup>*\<^sup>* x y \<Longrightarrow> ok x \<Longrightarrow> ok y"
  by (induction rule: rtranclp_induct) (auto intro: step_ok)

end

interpretation sys: transitions sys_step "sys_ok js" for js
  by unfold_locales (rule sys_step_ok)

text \<open>A state to start from: one task waits for semaphore 0, the task at priority 5 runs.\<close>

definition demo_conts :: "nat \<Rightarrow> cont" where
  "demo_conts = (\<lambda>_. Run)(1 := InSem (PEvent 0))"

lemma at_prio_demo_iff: "at_prio demo p i \<longleftrightarrow> (p, i) \<in> {(5, 0), (3, 1), (12, 3), (20, 2)}"
proof
  assume a: "at_prio demo p i"
  then have "OSTCBPrioTbl demo p = PTcb i" by (rule at_prio_tbl)
  then show "(p, i) \<in> {(5, 0), (3, 1), (12, 3), (20, 2)}" by (auto simp: demo_def split: if_splits)
qed (auto intro: at_prio_demo at_prio_demo [simplified])

lemma sys_ok_demo: "sys_ok [3, 1, 0] (demo, demo_conts)"
proof -
  have m: "OSTCBEventMultiPtr (OSTCBTbl demo i) = None" for i
    by (simp add: demo_def demo_tcb_def tcb_zero_def)
  have b: "(OS_STAT_SEM :: u8) AND OS_STAT_PEND_ANY \<noteq> 0" by code_simp
  have t: "OSTCBStat (OSTCBTbl demo 1) = OS_STAT_SEM" by (simp add: demo_def)
  have "waits_ok demo_conts demo"
    unfolding waits_ok_def at_prio_demo_iff wait_ok_def
    using m t b by (auto simp: rdy_set_demo wait_set_demo demo_conts_def)
  moreover have "highest_runs demo"
    using at_prio_demo by (simp add: highest_runs_def rdy_set_demo) (simp add: demo_def)
  moreover have "OSTCBPrioTbl demo p = NULL \<or> (\<exists>i. at_prio demo p i)" for p
    unfolding at_prio_demo_iff by (auto simp: demo_def)
  moreover have "OSRunning demo" "OSTickStepState demo = OS_TICK_STEP_DIS" "OSIntNesting demo = 0"
    "unat (OSPrioCur demo) = 5" by (simp_all add: demo_def)
  ultimately have "sys_inv [3, 1, 0] 0 demo_conts demo"
    using os_wf_demo task_list_demo cur_ok_demo by (simp add: sys_inv_def sys_core_def rdy_set_demo)
  moreover have "served demo"
    unfolding served_def wait_set_demo by (auto simp: avail_def demo_def event_zero_def)
  ultimately show ?thesis by (simp add: sys_ok_def)
qed

lemma demo_step: "sys_step (demo, demo_conts) (snd (OSSemPost (PEvent 0) demo), demo_conts)"
proof -
  have c: "demo_conts (cur demo) = Run" "OSPrioCur demo \<noteq> 20" by (simp_all add: demo_def demo_conts_def)
  have "sys_step (demo, demo_conts) (snd (OSSemPost (PEvent 0) demo), demo_conts(cur demo := Run))"
    by (rule sys_step.call [where k = demo_conts and c = "SemPost (PEvent 0)"]) (use c in simp_all)
  then show ?thesis using c(1) by (simp add: fun_upd_idem)
qed

section \<open>Properties\<close>

text \<open>
  C2: The kernel under any sequence of service calls of its tasks, clock ticks and other interrupts:
  the tables stay consistent, the most urgent ready task runs whenever the scheduler is not locked,
  and a task is on a wait list only while it is inside a pend call on that very event, and is ready
  then only if its time-out has ended the wait.
\<close>

theorem system_invariant:
  assumes "sys_ok js (s, k)" and "sys_step\<^sup>*\<^sup>* (s, k) (s', k')"
  shows "os_wf s' \<and> (OSLockNesting s' = 0 \<longrightarrow> highest_runs s') \<and>
    (\<forall>p i e. at_prio s' p i \<longrightarrow> p \<in> wait_set s' e \<longrightarrow> pends_on (k' i) e \<and>
       (p \<in> rdy_set s' \<longrightarrow> OSTCBStatPend (OSTCBTbl s' i) = OS_STAT_PEND_TO))"
proof -
  have i: "sys_inv js 0 k' s'" using sys.run_ok [OF assms(2,1)] by (simp add: sys_ok_def)
  then have n: "OSIntNesting s' = 0" and wf: "os_wf s'" and w: "waits_ok k' s'"
    by (simp_all add: sys_inv_def sys_core_def)
  have "pends_on (k' i) e \<and> (p \<in> rdy_set s' \<longrightarrow> OSTCBStatPend (OSTCBTbl s' i) = OS_STAT_PEND_TO)"
    if "at_prio s' p i" "p \<in> wait_set s' e" for p i e
    using waits_okD [OF w that(1)] that(2) by (auto simp: wait_ok_def)
  then show ?thesis using i n wf by (auto simp: sys_inv_def can_sched_def)
qed

theorem system_invariant_witness: "highest_runs (snd (OSSemPost (PEvent 0) demo))"
proof -
  have l: "OSLockNesting (snd (OSSemPost (PEvent 0) demo)) = 0"
    using os_frameD(4) [OF os_frame_EventTaskRdy [of 0 NULL 1 OS_STAT_PEND_OK demo]]
    by (simp add: OSSemPost_def Let_def) (simp add: demo_def)
  have "sys_step\<^sup>*\<^sup>* (demo, demo_conts) (snd (OSSemPost (PEvent 0) demo), demo_conts)"
    using demo_step by (rule r_into_rtranclp)
  from system_invariant [OF sys_ok_demo this] l show ?thesis by blast
qed

text \<open>
  C3: No lost wake-up.  In no reachable state does a task wait for a semaphore with units, a mailbox
  with a message or a queue with messages.
\<close>

theorem system_no_lost_wakeup:
  assumes "sys_ok js (s, k)" and "sys_step\<^sup>*\<^sup>* (s, k) (s', k')" and "avail s' e"
  shows "wait_set s' e = {}"
proof -
  have "served s'" using sys.run_ok [OF assms(2,1)] by (simp add: sys_ok_def)
  then show ?thesis using assms(3) by (simp add: served_def)
qed

theorem system_no_lost_wakeup_witness: "wait_set demo 1 = {}"
proof -
  have "avail demo 1" by (simp add: avail_def demo_def)
  then show ?thesis
    by (rule system_no_lost_wakeup [OF sys_ok_demo rtranclp.rtrancl_refl])
qed



end
