(* ===== verification/Hal_Alarm.thy ===== *)
theory Hal_Alarm
  imports Hal_List Os_System
begin

text \<open>
  The HAL's alarms and system clock (alt_alarm_start.c, alt_tick.c, alt_alarm.h) and the driver of the
  interval timer that gives the clock (altera_avalon_timer_sc.c).  The alarms form an \<^verbatim>\<open>alt_llist\<close> whose
  head \<^verbatim>\<open>alt_alarm_list\<close> is the element \<open>None\<close>; \<open>Some a\<close> is the list element of alarm \<open>a\<close>.  A callback is
  application or driver code: the function \<open>cb\<close> of its address and its argument gives the number it
  returns and changes the state of the kernel.
\<close>

section \<open>Alarms\<close>

datatype errno = EINVAL | ENOTSUP | EMFILE | ENODEV | EACCES | EBADFD | ENOSYS | ENOTTY | EIO | EWOULDBLOCK | EAGAIN

record alt_alarm =
  al_time :: u32
  al_callback :: u32
  al_rollover :: bool
  al_context :: ptr

record hal_clock =
  alt_tick_rate :: u32
  alt_nticks :: u32
  al_links :: "nat option \<Rightarrow> nat option alt_llist"
  al_tbl :: "nat \<Rightarrow> alt_alarm"
  al_os :: os_state

type_synonym alarm_callback = "u32 \<Rightarrow> ptr \<Rightarrow> os_state \<Rightarrow> u32 \<times> os_state"

definition upd_alarm :: "nat \<Rightarrow> (alt_alarm \<Rightarrow> alt_alarm) \<Rightarrow> hal_clock \<Rightarrow> hal_clock" where
  "upd_alarm a f st = st\<lparr>al_tbl := (al_tbl st)(a := f (al_tbl st a))\<rparr>"

definition alt_sysclk_init :: "u32 \<Rightarrow> hal_clock \<Rightarrow> bool \<times> hal_clock" where
  "alt_sysclk_init nticks st =
     (if alt_tick_rate st = 0 then (True, st\<lparr>alt_tick_rate := nticks\<rparr>) else (False, st))"

text \<open>\<open>None\<close> is the return value 0, and the \<^verbatim>\<open>NULL\<close> pointer for \<open>alarm\<close>.\<close>

definition alt_alarm_start ::
  "nat option \<Rightarrow> u32 \<Rightarrow> u32 \<Rightarrow> ptr \<Rightarrow> hal_clock \<Rightarrow> errno option \<times> hal_clock" where
  "alt_alarm_start alarm nticks callback context st =
     (if alt_tick_rate st \<noteq> 0 then
        (case alarm of
           None \<Rightarrow> (Some EINVAL, st)
         | Some a \<Rightarrow>
             let st1 = upd_alarm a (\<lambda>al. al\<lparr>al_callback := callback, al_context := context\<rparr>) st;
                 current_nticks = alt_nticks st1;
                 st2 = upd_alarm a (\<lambda>al. al\<lparr>al_time := nticks + current_nticks + 1\<rparr>) st1;
                 st3 = upd_alarm a (\<lambda>al. al\<lparr>al_rollover := al_time al < current_nticks\<rparr>) st2
             in (None, st3\<lparr>al_links := alt_llist_insert None (Some a) (al_links st3)\<rparr>))
      else (Some ENOTSUP, st))"

definition alt_alarm_stop :: "nat \<Rightarrow> hal_clock \<Rightarrow> hal_clock" where
  "alt_alarm_stop a st = st\<lparr>al_links := alt_llist_remove (Some a) (al_links st)\<rparr>"

section \<open>The clock tick\<close>

text \<open>The body of the loop of \<^verbatim>\<open>alt_tick\<close>.\<close>

definition alarm_check :: "alarm_callback \<Rightarrow> nat \<Rightarrow> hal_clock \<Rightarrow> hal_clock" where
  "alarm_check cb a st =
     (let st1 = (if al_rollover (al_tbl st a) \<and> alt_nticks st = 0
                 then upd_alarm a (\<lambda>al. al\<lparr>al_rollover := False\<rparr>) st else st);
          al = al_tbl st1 a
      in if al_time al \<le> alt_nticks st1 \<and> \<not> al_rollover al then
           let (next_callback, s) = cb (al_callback al) (al_context al) (al_os st1);
               st2 = st1\<lparr>al_os := s\<rparr>
           in if next_callback = 0 then alt_alarm_stop a st2
              else
                let st3 = upd_alarm a (\<lambda>al. al\<lparr>al_time := al_time al + next_callback\<rparr>) st2
                in if al_time (al_tbl st3 a) < alt_nticks st3
                   then upd_alarm a (\<lambda>al. al\<lparr>al_rollover := True\<rparr>) st3 else st3
         else st1)"

partial_function (option) alarm_walk :: "alarm_callback \<Rightarrow> nat option \<Rightarrow> hal_clock \<Rightarrow> hal_clock option" where
  "alarm_walk cb alarm st =
     (case alarm of
        None \<Rightarrow> Some st
      | Some a \<Rightarrow>
          let nxt = ll_next (al_links st (Some a))
          in alarm_walk cb nxt (alarm_check cb a st))"

definition alt_tick :: "alarm_callback \<Rightarrow> hal_clock \<Rightarrow> hal_clock option" where
  "alt_tick cb st =
     (let alarm = ll_next (al_links st None);
          st1 = st\<lparr>alt_nticks := alt_nticks st + 1\<rparr>
      in case alarm_walk cb alarm st1 of
           None \<Rightarrow> None
         | Some st2 \<Rightarrow> map_option (\<lambda>s. st2\<lparr>al_os := s\<rparr>) (OSTimeTick (al_os st2)))"

section \<open>Registered alarms\<close>

text \<open>The number of ticks until the alarm is due.\<close>

definition alarm_left :: "hal_clock \<Rightarrow> nat \<Rightarrow> nat" where
  "alarm_left st a = unat (al_time (al_tbl st a)) + (if al_rollover (al_tbl st a) then 2 ^ 32 else 0) -
     unat (alt_nticks st)"

definition alarm_ok :: "hal_clock \<Rightarrow> nat \<Rightarrow> bool" where
  "alarm_ok st a \<longleftrightarrow> (if al_rollover (al_tbl st a) then al_time (al_tbl st a) < alt_nticks st
     else alt_nticks st < al_time (al_tbl st a))"

definition alarms_ok :: "hal_clock \<Rightarrow> nat list \<Rightarrow> bool" where
  "alarms_ok st xs \<longleftrightarrow> on_list (al_links st) None (map Some xs) \<and> (\<forall>a \<in> set xs. alarm_ok st a)"

text \<open>The calls of the callbacks of the alarms \<open>as\<close>, one after the other, and what they return.\<close>

fun alarm_calls :: "alarm_callback \<Rightarrow> (nat \<Rightarrow> alt_alarm) \<Rightarrow> nat list \<Rightarrow> os_state \<Rightarrow> u32 list \<times> os_state" where
  "alarm_calls cb tbl [] s = ([], s)"
| "alarm_calls cb tbl (a # as) s =
     (let (r, s1) = cb (al_callback (tbl a)) (al_context (tbl a)) s; (rs, s2) = alarm_calls cb tbl as s1
      in (r # rs, s2))"

lemma upd_alarm_sel [simp]:
  "al_tbl (upd_alarm a f st) = (al_tbl st)(a := f (al_tbl st a))"
  "alt_nticks (upd_alarm a f st) = alt_nticks st" "alt_tick_rate (upd_alarm a f st) = alt_tick_rate st"
  "al_links (upd_alarm a f st) = al_links st" "al_os (upd_alarm a f st) = al_os st"
  by (simp_all add: upd_alarm_def)

lemma alt_alarm_stop_sel [simp]:
  "al_tbl (alt_alarm_stop a st) = al_tbl st" "alt_nticks (alt_alarm_stop a st) = alt_nticks st"
  "al_os (alt_alarm_stop a st) = al_os st"
  "al_links (alt_alarm_stop a st) = alt_llist_remove (Some a) (al_links st)"
  by (simp_all add: alt_alarm_stop_def)

lemma unat_next: "unat (n + 1 :: u32) = (if unat n = 2 ^ 32 - 1 then 0 else unat n + 1)"
proof -
  have "unat n < 2 ^ 32" using unsigned_less [of n] by simp
  then show ?thesis by (auto simp: unat_word_ariths)
qed

lemma unat_sum: "unat (a + b :: u32) = (if unat a + unat b < 2 ^ 32 then unat a + unat b
    else unat a + unat b - 2 ^ 32)"
proof -
  have "unat a < 2 ^ 32" "unat b < 2 ^ 32" using unsigned_less [of a] unsigned_less [of b] by simp_all
  then show ?thesis by (simp add: unat_word_ariths le_mod_geq)
qed

text \<open>The check of an alarm just after the tick counter has moved on from the state \<open>st0\<close>.\<close>

lemma alarm_check_idle:
  fixes cb :: alarm_callback
  assumes ok: "alarm_ok st0 a" and n: "alt_nticks st = alt_nticks st0 + 1" and t: "al_tbl st a = al_tbl st0 a"
    and idle: "alarm_left st0 a \<noteq> 1"
  defines "st' \<equiv> alarm_check cb a st"
  shows "alarm_ok st' a" "alarm_left st' a = alarm_left st0 a - 1" "al_links st' = al_links st"
    "al_os st' = al_os st" "alt_nticks st' = alt_nticks st" "\<And>b. b \<noteq> a \<Longrightarrow> al_tbl st' b = al_tbl st b"
    "al_callback (al_tbl st' a) = al_callback (al_tbl st0 a)" "al_context (al_tbl st' a) = al_context (al_tbl st0 a)"
proof -
  let ?al = "al_tbl st0 a" and ?n = "alt_nticks st0"
  have lt: "unat (al_time ?al) < 2 ^ 32" "unat ?n < 2 ^ 32"
    using unsigned_less [of "al_time ?al"] unsigned_less [of ?n] by simp_all
  have st': "st' = (if al_rollover ?al \<and> alt_nticks st = 0 then upd_alarm a (\<lambda>al. al\<lparr>al_rollover := False\<rparr>) st
      else st) \<and> alarm_ok st' a \<and> alarm_left st' a = alarm_left st0 a - 1"
  proof (cases "unat ?n = 2 ^ 32 - 1")
    case True
    then have z: "unat (alt_nticks st) = 0" by (simp add: n unat_next)
    then have "alt_nticks st = 0" by (simp add: unat_eq_0)
    moreover have "al_rollover ?al" using ok True lt by (auto simp: alarm_ok_def word_less_nat_alt split: if_splits)
    moreover from this have "unat (al_time ?al) \<noteq> 0" using idle True by (simp add: alarm_left_def)
    ultimately show ?thesis
      using True by (auto simp: st'_def alarm_check_def Let_def t alarm_ok_def alarm_left_def word_less_nat_alt
          word_le_nat_alt)
  next
    case False
    then have u: "unat (alt_nticks st) = unat ?n + 1" by (simp add: n unat_next)
    then have "alt_nticks st \<noteq> 0" by (auto simp: unat_eq_0)
    then show ?thesis
      using ok idle u lt by (auto simp: st'_def alarm_check_def Let_def t alarm_ok_def alarm_left_def
          word_less_nat_alt word_le_nat_alt split: if_splits)
  qed
  then show "alarm_ok st' a" "alarm_left st' a = alarm_left st0 a - 1" "al_links st' = al_links st"
    "al_os st' = al_os st" "alt_nticks st' = alt_nticks st" "\<And>b. b \<noteq> a \<Longrightarrow> al_tbl st' b = al_tbl st b"
    "al_callback (al_tbl st' a) = al_callback ?al" "al_context (al_tbl st' a) = al_context ?al"
    by (auto simp: t)
qed

lemma alarm_check_due:
  fixes cb :: alarm_callback
  assumes ok: "alarm_ok st0 a" and n: "alt_nticks st = alt_nticks st0 + 1" and t: "al_tbl st a = al_tbl st0 a"
    and due: "alarm_left st0 a = 1" and c: "cb (al_callback (al_tbl st a)) (al_context (al_tbl st a)) (al_os st) = (r, s)"
  defines "st' \<equiv> alarm_check cb a st"
  shows "r \<noteq> 0 \<Longrightarrow> alarm_ok st' a" "r \<noteq> 0 \<Longrightarrow> alarm_left st' a = unat r"
    "al_links st' = (if r = 0 then alt_llist_remove (Some a) (al_links st) else al_links st)"
    "al_os st' = s" "alt_nticks st' = alt_nticks st" "\<And>b. b \<noteq> a \<Longrightarrow> al_tbl st' b = al_tbl st b"
proof -
  let ?al = "al_tbl st0 a" and ?n = "alt_nticks st0"
  have lt: "unat (al_time ?al) < 2 ^ 32" "unat ?n < 2 ^ 32" "unat r < 2 ^ 32"
    using unsigned_less [of "al_time ?al"] unsigned_less [of ?n] unsigned_less [of r] by simp_all
  have tm: "unat (al_time ?al) = unat (alt_nticks st)" "al_rollover ?al \<Longrightarrow> unat (alt_nticks st) = 0"
  proof -
    define T N where "T = unat (al_time ?al)" and "N = unat ?n"
    have u: "unat (alt_nticks st) = (if N = 2 ^ 32 - 1 then 0 else N + 1)" by (simp add: n unat_next N_def)
    have b: "T < 2 ^ 32" "N < 2 ^ 32" using lt by (simp_all add: T_def N_def)
    have "if al_rollover ?al then T < N \<and> T + 2 ^ 32 - N = 1 else N < T \<and> T - N = 1"
      using ok due by (auto simp: alarm_ok_def alarm_left_def word_less_nat_alt T_def N_def split: if_splits)
    then have "T = unat (alt_nticks st) \<and> (al_rollover ?al \<longrightarrow> unat (alt_nticks st) = 0)"
      unfolding u using b by (cases "al_rollover ?al") auto
    then show "unat (al_time ?al) = unat (alt_nticks st)" "al_rollover ?al \<Longrightarrow> unat (alt_nticks st) = 0"
      by (simp_all add: T_def)
  qed
  have eq: "al_time ?al = alt_nticks st" using tm(1) by (rule unsigned_word_eqI)
  have eq0: "alt_nticks st = 0" if "al_rollover ?al" using tm(2) [OF that] unat_eq_0 by blast
  define al where "al = ?al\<lparr>al_rollover := False\<rparr>"
  have st': "st' = (let st2 = st\<lparr>al_tbl := (al_tbl st)(a := al), al_os := s\<rparr>
      in if r = 0 then alt_alarm_stop a st2
         else st2\<lparr>al_tbl := (al_tbl st2)(a := al\<lparr>al_time := alt_nticks st + r,
           al_rollover := alt_nticks st + r < alt_nticks st\<rparr>)\<rparr>)"
  proof (cases "al_rollover ?al")
    case True
    then show ?thesis
      using eq eq0 c by (cases ?al, simp add: st'_def alarm_check_def Let_def t al_def) (simp add: upd_alarm_def t)
  next
    case False
    then have "?al = al" by (simp add: al_def)
    then show ?thesis
      using False eq c by (cases al) (simp add: st'_def alarm_check_def Let_def t fun_upd_idem)
  qed
  show "al_links st' = (if r = 0 then alt_llist_remove (Some a) (al_links st) else al_links st)"
    "al_os st' = s" "alt_nticks st' = alt_nticks st" "\<And>b. b \<noteq> a \<Longrightarrow> al_tbl st' b = al_tbl st b"
    by (simp_all add: st' Let_def)
  assume r: "r \<noteq> 0"
  have "unat (alt_nticks st + r) < unat (alt_nticks st) \<longleftrightarrow> unat (alt_nticks st) + unat r \<ge> 2 ^ 32"
    "unat r > 0" using r lt unsigned_less [of "alt_nticks st"] by (auto simp: unat_sum unat_gt_0)
  then show "alarm_ok st' a" "alarm_left st' a = unat r"
    using r lt unsigned_less [of "alt_nticks st"]
    by (auto simp: st' Let_def alarm_ok_def alarm_left_def word_less_nat_alt unat_sum)
qed

text \<open>
  The alarms among \<open>xs\<close> that are due after the state \<open>st0\<close>, with what their callbacks return when the
  kernel is in state \<open>s\<close>.
\<close>

definition due_alarms :: "hal_clock \<Rightarrow> nat list \<Rightarrow> nat list" where
  "due_alarms st0 xs = filter (\<lambda>a. alarm_left st0 a = 1) xs"

definition due_returns :: "alarm_callback \<Rightarrow> hal_clock \<Rightarrow> nat list \<Rightarrow> os_state \<Rightarrow> (nat \<times> u32) list" where
  "due_returns cb st0 xs s =
     zip (due_alarms st0 xs) (fst (alarm_calls cb (al_tbl st0) (due_alarms st0 xs) s))"

text \<open>The alarm \<open>b\<close> after the tick; \<open>rets\<close> are the callbacks' values.\<close>

definition alarm_after :: "(nat \<times> u32) list \<Rightarrow> hal_clock \<Rightarrow> hal_clock \<Rightarrow> nat \<Rightarrow> bool" where
  "alarm_after rets st0 st' b \<longleftrightarrow>
     (if alarm_left st0 b = 1
      then \<forall>r. (b, r) \<in> set rets \<longrightarrow> r \<noteq> 0 \<longrightarrow> alarm_ok st' b \<and> alarm_left st' b = unat r
      else alarm_ok st' b \<and> alarm_left st' b = alarm_left st0 b - 1)"

lemma alarm_after_cong:
  "al_tbl st1 b = al_tbl st2 b \<Longrightarrow> alt_nticks st1 = alt_nticks st2 \<Longrightarrow>
     alarm_after rets st0 st1 b = alarm_after rets st0 st2 b"
  by (simp add: alarm_after_def alarm_ok_def alarm_left_def)

lemma alarm_calls_length: "length (fst (alarm_calls cb tbl as s)) = length as"
  by (induction as arbitrary: s) (auto simp: split_beta)

lemma due_returns_due: "(b, r) \<in> set (due_returns cb st0 xs s) \<Longrightarrow> b \<in> set xs \<and> alarm_left st0 b = 1"
  unfolding due_returns_def by (drule set_zip_leftD) (simp add: due_alarms_def)

lemma alarm_walk_ok:
  fixes cb :: alarm_callback
  assumes "on_list (al_links st) None (map Some (ys @ xs))" "alt_nticks st = alt_nticks st0 + 1"
    and "\<forall>a \<in> set xs. al_tbl st a = al_tbl st0 a \<and> alarm_ok st0 a"
  shows "\<exists>st'. alarm_walk cb (if xs = [] then None else Some (hd xs)) st = Some st' \<and>
    al_os st' = snd (alarm_calls cb (al_tbl st0) (due_alarms st0 xs) (al_os st)) \<and>
    alt_nticks st' = alt_nticks st \<and> (\<forall>b. b \<notin> set xs \<longrightarrow> al_tbl st' b = al_tbl st b) \<and>
    on_list (al_links st') None
      (map Some (ys @ filter (\<lambda>b. (b, 0) \<notin> set (due_returns cb st0 xs (al_os st))) xs)) \<and>
    (\<forall>b \<in> set xs. alarm_after (due_returns cb st0 xs (al_os st)) st0 st' b)"
  using assms
proof (induction xs arbitrary: st ys)
  case Nil
  then show ?case by (simp add: alarm_walk.simps due_alarms_def)
next
  case (Cons a xs)
  have ol: "on_list (al_links st) None (map Some ys @ Some a # map Some xs)" using Cons.prems(1) by simp
  have d: "a \<notin> set xs" "a \<notin> set ys" using on_list_distinct [OF ol] by (auto simp: distinct_map)
  have t: "al_tbl st a = al_tbl st0 a" and ok: "alarm_ok st0 a" using Cons.prems(3) by simp_all
  let ?st1 = "alarm_check cb a st"
  have step: "alarm_walk cb (Some a) st = alarm_walk cb (if xs = [] then None else Some (hd xs)) ?st1"
    using on_list_next [OF ol] by (subst alarm_walk.simps) (simp add: hd_map)
  show ?case
  proof (cases "alarm_left st0 a = 1")
    case False
    note c = alarm_check_idle [OF ok Cons.prems(2) t False, where cb = cb]
    have dr: "due_returns cb st0 (a # xs) (al_os st) = due_returns cb st0 xs (al_os st)"
      "due_alarms st0 (a # xs) = due_alarms st0 xs"
      using False by (simp_all add: due_returns_def due_alarms_def)
    have ol1: "on_list (al_links ?st1) None (map Some ((ys @ [a]) @ xs))" using Cons.prems(1) c(3) by simp
    have n1: "alt_nticks ?st1 = alt_nticks st0 + 1" using Cons.prems(2) c(5) by simp
    have tb: "\<forall>b \<in> set xs. al_tbl ?st1 b = al_tbl st0 b \<and> alarm_ok st0 b"
      using c(6) Cons.prems(3) d(1) by (metis list.set_intros(2))
    from Cons.IH [OF ol1 n1 tb] obtain st' where st': "alarm_walk cb (if xs = [] then None else Some (hd xs)) ?st1 = Some st'"
      "al_os st' = snd (alarm_calls cb (al_tbl st0) (due_alarms st0 xs) (al_os ?st1))"
      "alt_nticks st' = alt_nticks ?st1" "\<forall>b. b \<notin> set xs \<longrightarrow> al_tbl st' b = al_tbl ?st1 b"
      "on_list (al_links st') None
        (map Some ((ys @ [a]) @ filter (\<lambda>b. (b, 0) \<notin> set (due_returns cb st0 xs (al_os ?st1))) xs))"
      "\<forall>b \<in> set xs. alarm_after (due_returns cb st0 xs (al_os ?st1)) st0 st' b"
      by blast
    have nd: "(a, 0) \<notin> set (due_returns cb st0 xs (al_os st))" using due_returns_due d(1) by blast
    have cg: "alarm_after rets st0 st' a = alarm_after rets st0 ?st1 a" for rets
      by (rule alarm_after_cong) (use st'(3,4) d(1) in auto)
    have "alarm_after (due_returns cb st0 xs (al_os st)) st0 st' a"
      unfolding cg using c(1,2) False by (simp add: alarm_after_def)
    then show ?thesis
      using st' step c(4-6) dr nd by (intro exI [of _ st']) simp
  next
    case due: True
    obtain r s where call: "cb (al_callback (al_tbl st a)) (al_context (al_tbl st a)) (al_os st) = (r, s)"
      by fastforce
    note c = alarm_check_due [where cb = cb and st = st and a = a and r = r and s = s, OF ok Cons.prems(2) t due call]
    have da: "due_alarms st0 (a # xs) = a # due_alarms st0 xs" using due by (simp add: due_alarms_def)
    have dr: "due_returns cb st0 (a # xs) (al_os st) = (a, r) # due_returns cb st0 xs (al_os ?st1)"
      "snd (alarm_calls cb (al_tbl st0) (due_alarms st0 (a # xs)) (al_os st)) =
        snd (alarm_calls cb (al_tbl st0) (due_alarms st0 xs) (al_os ?st1))"
      using call t c(4) by (simp_all add: due_returns_def da split_beta)
    let ?ys = "if r = 0 then ys else ys @ [a]"
    have ol1: "on_list (al_links ?st1) None (map Some (?ys @ xs))"
      using ol c(3) on_list_remove(1) [OF ol] by simp
    have n1: "alt_nticks ?st1 = alt_nticks st0 + 1" using Cons.prems(2) c(5) by simp
    have tb: "\<forall>b \<in> set xs. al_tbl ?st1 b = al_tbl st0 b \<and> alarm_ok st0 b"
      using c(6) Cons.prems(3) d(1) by (metis list.set_intros(2))
    from Cons.IH [OF ol1 n1 tb] obtain st' where st': "alarm_walk cb (if xs = [] then None else Some (hd xs)) ?st1 = Some st'"
      "al_os st' = snd (alarm_calls cb (al_tbl st0) (due_alarms st0 xs) (al_os ?st1))"
      "alt_nticks st' = alt_nticks ?st1" "\<forall>b. b \<notin> set xs \<longrightarrow> al_tbl st' b = al_tbl ?st1 b"
      "on_list (al_links st') None
        (map Some (?ys @ filter (\<lambda>b. (b, 0) \<notin> set (due_returns cb st0 xs (al_os ?st1))) xs))"
      "\<forall>b \<in> set xs. alarm_after (due_returns cb st0 xs (al_os ?st1)) st0 st' b"
      by blast
    have nd: "(a, r') \<notin> set (due_returns cb st0 xs (al_os ?st1))" for r' using due_returns_due d(1) by blast
    have fl: "filter (\<lambda>b. (b, 0) \<notin> set ((a, r) # due_returns cb st0 xs (al_os ?st1))) (a # xs) =
        (if r = 0 then [] else [a]) @ filter (\<lambda>b. (b, 0) \<notin> set (due_returns cb st0 xs (al_os ?st1))) xs"
      using d(1) nd by (auto intro: filter_cong)
    have cg: "alarm_after rets st0 st' a = alarm_after rets st0 ?st1 a" for rets
      by (rule alarm_after_cong) (use st'(3,4) d(1) in auto)
    have "alarm_after ((a, r) # due_returns cb st0 xs (al_os ?st1)) st0 st' a"
      unfolding cg using c(1,2) due nd by (auto simp: alarm_after_def)
    moreover have "alarm_after ((a, r) # due_returns cb st0 xs (al_os ?st1)) st0 st' b" if "b \<in> set xs" for b
      using st'(6) that d(1) by (auto simp: alarm_after_def)
    ultimately show ?thesis
      unfolding dr fl using st' step c(5,6) by (intro exI [of _ st']) auto
  qed
qed

section \<open>Ticks and alarms\<close>

lemma alt_tick_spec:
  fixes cb :: alarm_callback
  assumes ok: "alarms_ok st xs"
  defines "rets \<equiv> due_returns cb st xs (al_os st)"
  shows "\<exists>st'. alt_tick cb st = map_option (\<lambda>s. st'\<lparr>al_os := s\<rparr>)
      (OSTimeTick (snd (alarm_calls cb (al_tbl st) (due_alarms st xs) (al_os st)))) \<and>
    alt_nticks st' = alt_nticks st + 1 \<and> alarms_ok st' (filter (\<lambda>a. (a, 0) \<notin> set rets) xs) \<and>
    (\<forall>(a, r) \<in> set rets. r \<noteq> 0 \<longrightarrow> alarm_left st' a = unat r) \<and>
    (\<forall>a \<in> set xs. a \<notin> set (due_alarms st xs) \<longrightarrow> alarm_left st' a = alarm_left st a - 1)"
proof -
  define st1 where "st1 = st\<lparr>alt_nticks := alt_nticks st + 1\<rparr>"
  have l: "on_list (al_links st1) None (map Some ([] @ xs))" and ao: "\<forall>a \<in> set xs. alarm_ok st a"
    using ok by (simp_all add: alarms_ok_def st1_def)
  have n: "alt_nticks st1 = alt_nticks st + 1" and t: "\<forall>a \<in> set xs. al_tbl st1 a = al_tbl st a \<and> alarm_ok st a"
    using ao by (simp_all add: st1_def)
  have os: "al_os st1 = al_os st" by (simp add: st1_def)
  obtain st' where w: "alarm_walk cb (if xs = [] then None else Some (hd xs)) st1 = Some st'"
    "al_os st' = snd (alarm_calls cb (al_tbl st) (due_alarms st xs) (al_os st))"
    "alt_nticks st' = alt_nticks st1"
    "on_list (al_links st') None (map Some (filter (\<lambda>b. (b, 0) \<notin> set rets) xs))"
    "\<forall>b \<in> set xs. alarm_after rets st st' b"
    using alarm_walk_ok [OF l n t, of cb] unfolding rets_def os append_Nil by blast
  have "ll_next (al_links st None) = (if xs = [] then None else Some (hd xs))"
    using on_list_first [OF l] by (simp add: st1_def hd_map)
  then have tick: "alt_tick cb st = map_option (\<lambda>s. st'\<lparr>al_os := s\<rparr>)
      (OSTimeTick (snd (alarm_calls cb (al_tbl st) (due_alarms st xs) (al_os st))))"
    using w(1,2) by (simp add: alt_tick_def st1_def)
  have rets: "b \<in> set xs \<and> alarm_left st b = 1" if "(b, r) \<in> set rets" for b r
    using due_returns_due that unfolding rets_def by blast
  have after: "alarm_ok st' b \<and> alarm_left st' b = unat r" if "(b, r) \<in> set rets" "r \<noteq> 0" for b r
    using w(5) rets [OF that(1)] that by (auto simp: alarm_after_def)
  have idle: "alarm_ok st' b \<and> alarm_left st' b = alarm_left st b - 1" if "b \<in> set xs" "alarm_left st b \<noteq> 1" for b
    using w(5) that by (auto simp: alarm_after_def)
  have "alarm_ok st' b" if b: "b \<in> set xs" "(b, 0) \<notin> set rets" for b
  proof (cases "alarm_left st b = 1")
    case True
    then have "b \<in> set (due_alarms st xs)" using b(1) by (simp add: due_alarms_def)
    then obtain r where "(b, r) \<in> set rets"
      unfolding rets_def due_returns_def
      by (rule in_set_impl_in_set_zip1 [OF alarm_calls_length [symmetric]])
    moreover from this b(2) have "r \<noteq> 0" by auto
    ultimately show ?thesis using after by blast
  qed (use idle b(1) in blast)
  then have "alarms_ok st' (filter (\<lambda>a. (a, 0) \<notin> set rets) xs)"
    using w(4) by (simp add: alarms_ok_def)
  then show ?thesis
    using tick w(3) n after idle by (intro exI [of _ st']) (auto simp: due_alarms_def)
qed

text \<open>The callbacks and the tick keep an invariant of the kernel.\<close>

definition kernel_ticks :: "(os_state \<Rightarrow> bool) \<Rightarrow> alarm_callback \<Rightarrow> bool" where
  "kernel_ticks K cb \<longleftrightarrow> (\<forall>s. K s \<longrightarrow> (\<exists>s'. OSTimeTick s = Some s' \<and> K s')) \<and>
     (\<forall>f c s. K s \<longrightarrow> K (snd (cb f c s)))"

lemma alarm_calls_kernel: "kernel_ticks K cb \<Longrightarrow> K s \<Longrightarrow> K (snd (alarm_calls cb tbl as s))"
  by (induction as arbitrary: s) (auto simp: split_beta kernel_ticks_def)

lemma alt_tick_kernel:
  assumes ok: "alarms_ok st xs" and k: "K (al_os st)" "kernel_ticks K cb"
  obtains st' where "alt_tick cb st = Some st'" "K (al_os st')"
    "alarms_ok st' (filter (\<lambda>a. (a, 0) \<notin> set (due_returns cb st xs (al_os st))) xs)"
    "\<forall>a \<in> set xs. a \<notin> set (due_alarms st xs) \<longrightarrow> alarm_left st' a = alarm_left st a - 1"
proof -
  obtain st1 where s1: "alt_tick cb st = map_option (\<lambda>s. st1\<lparr>al_os := s\<rparr>)
      (OSTimeTick (snd (alarm_calls cb (al_tbl st) (due_alarms st xs) (al_os st))))"
    "alarms_ok st1 (filter (\<lambda>a. (a, 0) \<notin> set (due_returns cb st xs (al_os st))) xs)"
    "\<forall>a \<in> set xs. a \<notin> set (due_alarms st xs) \<longrightarrow> alarm_left st1 a = alarm_left st a - 1"
    using alt_tick_spec [OF ok, of cb] by blast
  have "K (snd (alarm_calls cb (al_tbl st) (due_alarms st xs) (al_os st)))"
    by (rule alarm_calls_kernel [OF k(2,1)])
  then obtain s where s: "OSTimeTick (snd (alarm_calls cb (al_tbl st) (due_alarms st xs) (al_os st))) = Some s" "K s"
    using k(2) by (auto simp: kernel_ticks_def)
  show ?thesis
    by (rule that [of "st1\<lparr>al_os := s\<rparr>"]) (use s1 s in \<open>simp_all add: alarms_ok_def alarm_ok_def alarm_left_def\<close>)
qed

text \<open>The countdown of a registered alarm.\<close>

definition alarm_on :: "hal_clock \<Rightarrow> nat \<Rightarrow> bool" where
  "alarm_on st a \<longleftrightarrow> (\<exists>xs. alarms_ok st xs \<and> a \<in> set xs)"

definition alarm_countdown :: "nat \<Rightarrow> hal_clock \<Rightarrow> nat option" where
  "alarm_countdown a st = (if alarm_on st a then Some (alarm_left st a) else None)"

interpretation alarms: countdown "alt_tick cb" "\<lambda>st. (\<exists>xs. alarms_ok st xs) \<and> K (al_os st) \<and> kernel_ticks K cb"
  "alarm_countdown a" for cb K a
proof
  fix st assume "(\<exists>xs. alarms_ok st xs) \<and> K (al_os st) \<and> kernel_ticks K cb"
  then obtain xs where "alarms_ok st xs" "K (al_os st)" "kernel_ticks K cb" by blast
  from alt_tick_kernel [OF this]
  show "\<exists>s'. alt_tick cb st = Some s' \<and> (\<exists>xs. alarms_ok s' xs) \<and> K (al_os s') \<and> kernel_ticks K cb"
    using \<open>kernel_ticks K cb\<close> by metis
next
  fix st st' n assume ok: "(\<exists>xs. alarms_ok st xs) \<and> K (al_os st) \<and> kernel_ticks K cb"
    and tick: "alt_tick cb st = Some st'" and "alarm_countdown a st = Some (Suc (Suc n))"
  then obtain xs where xs: "alarms_ok st xs" "a \<in> set xs" and l: "alarm_left st a = Suc (Suc n)"
    by (auto simp: alarm_countdown_def alarm_on_def split: if_splits)
  have nd: "a \<notin> set (due_alarms st xs)" using l by (simp add: due_alarms_def)
  obtain st1 where s1: "alt_tick cb st = Some st1"
    "alarms_ok st1 (filter (\<lambda>a. (a, 0) \<notin> set (due_returns cb st xs (al_os st))) xs)"
    "\<forall>a \<in> set xs. a \<notin> set (due_alarms st xs) \<longrightarrow> alarm_left st1 a = alarm_left st a - 1"
    using alt_tick_kernel [OF xs(1), of K cb] ok by metis
  have "a \<in> set (filter (\<lambda>a. (a, 0) \<notin> set (due_returns cb st xs (al_os st))) xs)"
    using xs(2) l due_returns_due by fastforce
  then have "alarm_on st1 a" using s1(2) unfolding alarm_on_def by blast
  then show "alarm_countdown a st' = Some (Suc n)"
    using s1(1,3) tick xs(2) nd l by (simp add: alarm_countdown_def)
qed

lemma alt_alarm_start_ok:
  assumes ok: "alarms_ok st xs" and rate: "alt_tick_rate st \<noteq> 0" and a: "a \<notin> set xs" and n: "unat n < 2 ^ 32 - 1"
  obtains st' where "alt_alarm_start (Some a) n f c st = (None, st')" "alarms_ok st' (a # xs)"
    "alarm_left st' a = unat n + 1" "al_os st' = al_os st" "alt_nticks st' = alt_nticks st"
    "\<forall>b \<in> set xs. alarm_left st' b = alarm_left st b"
proof -
  let ?t = "n + alt_nticks st + 1"
  define st' where "st' = snd (alt_alarm_start (Some a) n f c st)"
  have s: "alt_alarm_start (Some a) n f c st = (None, st')" using rate by (simp add: st'_def alt_alarm_start_def Let_def)
  have f: "al_links st' = alt_llist_insert None (Some a) (al_links st)" "al_os st' = al_os st"
    "alt_nticks st' = alt_nticks st" "al_time (al_tbl st' a) = ?t"
    "al_rollover (al_tbl st' a) \<longleftrightarrow> ?t < alt_nticks st" "\<And>b. b \<noteq> a \<Longrightarrow> al_tbl st' b = al_tbl st b"
    using rate by (simp_all add: st'_def alt_alarm_start_def Let_def)
  have lt: "unat (alt_nticks st) < 2 ^ 32" using unsigned_less [of "alt_nticks st"] by simp
  have n1: "unat (n + 1) = unat n + 1" using n by (simp add: unat_next)
  have "?t = (n + 1) + alt_nticks st" by (simp add: ac_simps)
  then have t: "unat ?t = (if unat n + 1 + unat (alt_nticks st) < 2 ^ 32 then unat n + 1 + unat (alt_nticks st)
      else unat n + 1 + unat (alt_nticks st) - 2 ^ 32)"
    by (simp only: unat_sum [of "n + 1"] n1)
  have a_ok: "alarm_ok st' a" "alarm_left st' a = unat n + 1"
    using t n lt f(3-5) by (auto simp: alarm_ok_def alarm_left_def word_less_nat_alt)
  have same: "alarm_ok st' b = alarm_ok st b" "alarm_left st' b = alarm_left st b" if "b \<in> set xs" for b
  proof -
    have "b \<noteq> a" using that a by blast
    then show "alarm_ok st' b = alarm_ok st b" "alarm_left st' b = alarm_left st b"
      by (simp_all add: alarm_ok_def alarm_left_def f(3,6))
  qed
  have "on_list (al_links st') None (map Some (a # xs))"
    using on_list_insert [of "al_links st" None "map Some xs" "Some a"] ok a by (auto simp: f(1) alarms_ok_def)
  then have "alarms_ok st' (a # xs)" using ok a_ok(1) same(1) by (simp add: alarms_ok_def)
  then show ?thesis using that [OF s _ a_ok(2) f(2,3)] same(2) by blast
qed

text \<open>
  The longest delay, 2^32 - 1, does not wait: time and tick counter are equal and the roll-over flag is
  not set, so that the callback comes in the very next tick.
\<close>

lemma alt_alarm_start_max:
  fixes a :: nat and f :: u32 and c :: ptr and cb :: alarm_callback
  assumes "alt_tick_rate st \<noteq> 0" "unat (alt_nticks st) < 2 ^ 32 - 1"
  defines "st' \<equiv> snd (alt_alarm_start (Some a) 0xFFFFFFFF f c st)"
  shows "\<not> alarm_ok st' a"
    and "al_os (alarm_check cb a (st'\<lparr>alt_nticks := alt_nticks st' + 1\<rparr>)) = snd (cb f c (al_os st))"
proof -
  have t: "(4294967296 :: u32) = 0" by simp
  have s: "al_tbl st' a = \<lparr>al_time = alt_nticks st, al_callback = f, al_rollover = False, al_context = c\<rparr>"
    "alt_nticks st' = alt_nticks st" "al_os st' = al_os st"
    using assms(1) by (cases "al_tbl st a", simp_all add: st'_def alt_alarm_start_def Let_def t)
  show "\<not> alarm_ok st' a" by (simp add: alarm_ok_def s)
  have "alt_nticks st \<le> alt_nticks st + 1" using assms(2) by (simp add: word_le_nat_alt unat_next)
  then show "al_os (alarm_check cb a (st'\<lparr>alt_nticks := alt_nticks st' + 1\<rparr>)) = snd (cb f c (al_os st))"
    by (simp add: alarm_check_def Let_def s split: prod.split)
qed

section \<open>Callbacks that call kernel services\<close>

definition services_only :: "alarm_callback \<Rightarrow> bool" where
  "services_only cb \<longleftrightarrow> (\<forall>f c. \<exists>hs. (\<forall>h \<in> set hs. handler_ok h) \<and>
     (\<forall>s s'. handle_all hs s = Some s' \<longrightarrow> snd (cb f c s) = s'))"

lemma sys_kernel_ticks:
  assumes "services_only cb" "nest \<noteq> 0"
  shows "kernel_ticks (sys_inv js nest k) cb"
proof -
  have "sys_inv js nest k (snd (cb f c s))" if "sys_inv js nest k s" for f c s
    using assms sys_inv_handle_all [OF that assms(2)] unfolding services_only_def by metis
  moreover have "\<exists>s'. OSTimeTick s = Some s' \<and> sys_inv js nest k s'" if "sys_inv js nest k s" for s
    using sys_inv_handle [OF that assms(2), of Tick] by simp
  ultimately show ?thesis by (simp add: kernel_ticks_def)
qed

text \<open>A clock just before its counter wraps around, in an interrupt; its callbacks post a semaphore.\<close>

definition demo_clock :: hal_clock where
  "demo_clock = \<lparr>alt_tick_rate = 1000, alt_nticks = 0xFFFFFFFD,
     al_links = (\<lambda>_. \<lparr>ll_next = None, ll_previous = None\<rparr>),
     al_tbl = (\<lambda>_. \<lparr>al_time = 0, al_callback = 0, al_rollover = False, al_context = NULL\<rparr>),
     al_os = OSIntEnter demo\<rparr>"

definition demo_cb :: alarm_callback where
  "demo_cb f c s = (7, snd (OSSemPost c s))"

lemma demo_clock_ok: "alarms_ok demo_clock []" "alt_tick_rate demo_clock \<noteq> 0"
  "sys_inv [3, 1, 0] 1 demo_conts (al_os demo_clock)" "kernel_ticks (sys_inv [3, 1, 0] 1 demo_conts) demo_cb"
proof -
  show "alarms_ok demo_clock []" "alt_tick_rate demo_clock \<noteq> 0"
    by (simp_all add: alarms_ok_def demo_clock_def on_list_empty)
  have "sys_inv [3, 1, 0] 0 demo_conts demo" using sys_ok_demo by (simp add: sys_ok_def)
  then show "sys_inv [3, 1, 0] 1 demo_conts (al_os demo_clock)"
    using sys_inv_enter by (simp add: demo_clock_def)
  have "services_only demo_cb"
    unfolding services_only_def
  proof (intro allI)
    fix f c
    show "\<exists>hs. (\<forall>h \<in> set hs. handler_ok h) \<and> (\<forall>s s'. handle_all hs s = Some s' \<longrightarrow> snd (demo_cb f c s) = s')"
      by (intro exI [of _ "[Service (SemPost c)]"]) (auto simp: demo_cb_def split: option.splits)
  qed
  then show "kernel_ticks (sys_inv [3, 1, 0] 1 demo_conts) demo_cb" by (rule sys_kernel_ticks) simp
qed

text \<open>
  C18: A clock tick walks through all registered alarms and calls the callbacks of exactly those with one
  tick left, in the order of the list, and then gives the kernel its tick.  An alarm whose callback
  returns 0 is taken off the list; one whose callback returns r is due again r ticks later; every other
  alarm has one tick less to go.  The 32-bit tick counter may wrap around at any time.\<close>

theorem alt_tick_correct:
  fixes cb :: alarm_callback
  assumes ok: "alarms_ok st xs"
  defines "rets \<equiv> due_returns cb st xs (al_os st)"
  shows "\<exists>st'. alt_tick cb st = map_option (\<lambda>s. st'\<lparr>al_os := s\<rparr>)
      (OSTimeTick (snd (alarm_calls cb (al_tbl st) (due_alarms st xs) (al_os st)))) \<and>
    alt_nticks st' = alt_nticks st + 1 \<and> alarms_ok st' (filter (\<lambda>a. (a, 0) \<notin> set rets) xs) \<and>
    (\<forall>(a, r) \<in> set rets. r \<noteq> 0 \<longrightarrow> alarm_left st' a = unat r) \<and>
    (\<forall>a \<in> set xs. a \<notin> set (due_alarms st xs) \<longrightarrow> alarm_left st' a = alarm_left st a - 1)"
  unfolding rets_def by (rule alt_tick_spec [OF ok])

theorem alt_tick_correct_witness:
  "\<exists>st st'. snd (alt_alarm_start (Some 0) 0 1 (PEvent 0) demo_clock) = st \<and>
    alt_tick demo_cb st = Some st' \<and> alarm_left st' 0 = 7"
proof -
  obtain st where st: "alt_alarm_start (Some 0) 0 1 (PEvent 0) demo_clock = (None, st)" "alarms_ok st [0]"
    "alarm_left st 0 = 1" "al_os st = al_os demo_clock"
    using alt_alarm_start_ok [OF demo_clock_ok(1,2), of 0 0 1 "PEvent 0"] by auto
  have k: "sys_inv [3, 1, 0] 1 demo_conts (al_os st)" using demo_clock_ok(3) st(4) by simp
  obtain st' where tick: "alt_tick demo_cb st = Some st'"
    using alt_tick_kernel [OF st(2) k demo_clock_ok(4)] by blast
  have due: "due_returns demo_cb st [0] (al_os st) = [(0, 7)]"
    by (simp add: due_returns_def due_alarms_def st(3) demo_cb_def split_beta)
  obtain st1 where st1: "alt_tick demo_cb st = map_option (\<lambda>s. st1\<lparr>al_os := s\<rparr>)
      (OSTimeTick (snd (alarm_calls demo_cb (al_tbl st) (due_alarms st [0]) (al_os st))))"
    "\<forall>(a, r) \<in> set (due_returns demo_cb st [0] (al_os st)). r \<noteq> 0 \<longrightarrow> alarm_left st1 a = unat r"
    using alt_tick_correct [OF st(2), of demo_cb] by blast
  have "\<exists>s. st' = st1\<lparr>al_os := s\<rparr>" using trans [OF st1(1) [symmetric] tick] by auto
  then obtain s where "st' = st1\<lparr>al_os := s\<rparr>" by blast
  then have "alarm_left st' 0 = 7" using st1(2) by (simp add: due alarm_left_def)
  then show ?thesis using st(1) tick by (intro exI [of _ st] exI [of _ st']) simp
qed



end
