(* ===== verification/Rover_Io.thy ===== *)
theory Rover_Io
  imports Complex_Main Os_Time "HOL-Library.Monad_Syntax"
begin

text \<open>
  What the application and its device drivers see of the board: the register accesses of io.h, kept
  as a trace with the newest access first, and the delays, which give up the processor.  What a
  register read returns is the parameter \<open>dev\<close>, a function of all accesses made before, so any
  deterministic device is an instance.  What the rest of the system does until a delayed task runs
  again is the parameter \<open>others\<close>, as in \<open>Os_Time\<close>.
\<close>

section \<open>Bus accesses\<close>

datatype io_event =
    IoRd u32 nat u32    \<comment> \<open>base, register, value read\<close>
  | IoWr u32 nat u32    \<comment> \<open>base, register, value written\<close>
  | IoSpin nat          \<comment> \<open>busy loop of that many microseconds\<close>

type_synonym device = "io_event list \<Rightarrow> u32 \<Rightarrow> nat \<Rightarrow> u32"

record board =
  trace :: "io_event list"
  os :: os_state

definition IORD :: "device \<Rightarrow> u32 \<Rightarrow> nat \<Rightarrow> 'a board_scheme \<Rightarrow> u32 \<times> 'a board_scheme" where
  "IORD dev base reg r =
     (let v = dev (trace r) base reg in (v, r\<lparr>trace := IoRd base reg v # trace r\<rparr>))"

definition IOWR :: "u32 \<Rightarrow> nat \<Rightarrow> u32 \<Rightarrow> 'a board_scheme \<Rightarrow> 'a board_scheme" where
  "IOWR base reg v r = r\<lparr>trace := IoWr base reg v # trace r\<rparr>"

text \<open>A word read from a register as the C type \<^verbatim>\<open>int\<close> that the compiler gives it, as a double.\<close>

definition int_of_reg :: "u32 \<Rightarrow> rat" where
  "int_of_reg v = of_int (sint v)"

text \<open>A double stored to a register: the conversion to \<^verbatim>\<open>int\<close> truncates towards zero.\<close>

definition reg_of_double :: "rat \<Rightarrow> u32" where
  "reg_of_double x = word_of_int (if x \<ge> 0 then \<lfloor>x\<rfloor> else \<lceil>x\<rceil>)"

section \<open>Delays\<close>

text \<open>The delays a kernel call makes, each followed by what happens until the caller runs again.\<close>

fun dly_calls :: "('a board_scheme \<Rightarrow> 'a board_scheme) \<Rightarrow> u16 list \<Rightarrow> 'a board_scheme \<Rightarrow> 'a board_scheme" where
  "dly_calls others [] r = r"
| "dly_calls others (d # ds) r = dly_calls others ds (others (r\<lparr>os := OSTimeDly d (os r)\<rparr>))"

definition dly_hmsm ::
  "('a board_scheme \<Rightarrow> 'a board_scheme) \<Rightarrow> u8 \<Rightarrow> u8 \<Rightarrow> u8 \<Rightarrow> u16 \<Rightarrow> 'a board_scheme \<Rightarrow> 'a board_scheme"
  where
  "dly_hmsm others h m s ms r = dly_calls others (snd (OSTimeDlyHMSM_delays h m s ms (os r))) r"

definition ALT_US :: u32 where
  "ALT_US = 1000000"

text \<open>The loop over the calls of \<^verbatim>\<open>OSTimeDly\<close> in \<^verbatim>\<open>ALT_USLEEP\<close>.\<close>

function usleep_delays :: "u32 \<Rightarrow> u16 list" where
  "usleep_delays ticks =
     (if ticks > 0xFFFF then 0xFFFF # usleep_delays (ticks - 0xFFFF) else [ucast ticks])"
  by auto
termination
  by (relation "measure unat") (auto simp: word_less_nat_alt unat_sub_if')

declare usleep_delays.simps [simp del]

definition usleep_ticks :: "u32 \<Rightarrow> u32" where
  "usleep_ticks us =
     us div ALT_US * OS_TICKS_PER_SEC + us mod ALT_US * OS_TICKS_PER_SEC div ALT_US"

definition alt_busy_sleep :: "u32 \<Rightarrow> 'a board_scheme \<Rightarrow> 'a board_scheme" where
  "alt_busy_sleep us r = r\<lparr>trace := IoSpin (unat us) # trace r\<rparr>"

definition usleep :: "('a board_scheme \<Rightarrow> 'a board_scheme) \<Rightarrow> u32 \<Rightarrow> 'a board_scheme \<Rightarrow> 'a board_scheme" where
  "usleep others us r =
     (if \<not> OSRunning (os r) then alt_busy_sleep us r
      else alt_busy_sleep (us mod (ALT_US div OS_TICKS_PER_SEC))
             (dly_calls others (usleep_delays (usleep_ticks us)) r))"

subsection \<open>The length of a sleep\<close>

lemma usleep_delays_sum: "sum_list (map unat (usleep_delays ticks)) = unat ticks"
proof (induction ticks rule: usleep_delays.induct)
  case (1 ticks)
  show ?case
  proof (cases "ticks > 0xFFFF")
    case True
    then have "unat (ticks - 0xFFFF) = unat ticks - 0xFFFF" "unat ticks > 0xFFFF"
      by (auto simp: word_less_nat_alt unat_sub_if')
    with 1 True show ?thesis
      by (subst usleep_delays.simps) simp
  next
    case False
    then have "unat ticks < 2 ^ 16"
      by (simp add: word_less_nat_alt)
    with False show ?thesis
      by (subst usleep_delays.simps) (simp add: unsigned_ucast_eq take_bit_nat_eq_self)
  qed
qed

lemma usleep_ticks_eq: "unat (usleep_ticks us) = unat us div 1000"
proof -
  have lt: "unat us < 2 ^ 32" using unsigned_less [of us] by simp
  define n where "n = unat us"
  have aux: "(a * 1000 + b) div 1000 = a + b div 1000" for a b :: nat
    by simp
  have m: "n div 1000000 \<le> 4294" "n mod 1000000 < 1000000"
    using lt by (auto simp: n_def)
  have a: "unat (us div ALT_US * OS_TICKS_PER_SEC) = n div 1000000 * 1000"
    using m by (simp add: ALT_US_def unat_word_ariths unat_div n_def)
  have b: "unat (us mod ALT_US * OS_TICKS_PER_SEC) = n mod 1000000 * 1000"
    using m by (simp add: ALT_US_def unat_word_ariths unat_mod n_def)
  have c: "unat (us mod ALT_US * OS_TICKS_PER_SEC div ALT_US) = n mod 1000000 * 1000 div 1000000"
    by (simp add: unat_div b) (simp add: ALT_US_def)
  have "unat (usleep_ticks us) = n div 1000000 * 1000 + n mod 1000000 * 1000 div 1000000"
    unfolding usleep_ticks_def using m a c by (subst unat_add_lem [THEN iffD1]) auto
  also have "n mod 1000000 * 1000 div 1000000 = n mod 1000000 div 1000"
    using div_mult_mult2 [of "1000 :: nat" "n mod 1000000" 1000] by simp
  also have "n div 1000000 * 1000 + n mod 1000000 div 1000 = (n div 1000000 * 1000 * 1000 + n mod 1000000) div 1000"
    by (rule aux [symmetric])
  also have "n div 1000000 * 1000 * 1000 + n mod 1000000 = n"
    using div_mult_mod_eq [of n 1000000] by simp
  finally show ?thesis by (simp add: n_def)
qed

text \<open>
  \<^verbatim>\<open>usleep(us)\<close> of a running kernel (alt_usleep.c) is made of delays that add up to exactly
  \<^verbatim>\<open>us / 1000\<close> ticks of a millisecond, none longer than \<^verbatim>\<open>OSTimeDly\<close> can take, and a busy loop of the
  \<^verbatim>\<open>us % 1000\<close> microseconds that are left; the 32-bit arithmetic does not overflow.
\<close>

theorem usleep_total:
  "sum_list (map unat (usleep_delays (usleep_ticks us))) * 1000
     + unat (us mod (ALT_US div OS_TICKS_PER_SEC)) = unat us"
proof -
  have "unat (us mod (ALT_US div OS_TICKS_PER_SEC)) = unat us mod 1000"
    by (simp add: ALT_US_def unat_mod unat_div)
  then show ?thesis
    by (simp add: usleep_delays_sum usleep_ticks_eq)
qed

section \<open>Polling\<close>

text \<open>A register is read until \<open>ready\<close> holds of the value, after the first read at most \<open>n\<close> times more.\<close>

fun poll :: "device \<Rightarrow> u32 \<Rightarrow> nat \<Rightarrow> (u32 \<Rightarrow> bool) \<Rightarrow> nat \<Rightarrow> 'a board_scheme \<Rightarrow> u32 \<times> 'a board_scheme" where
  "poll dev base reg ready 0 r = IORD dev base reg r"
| "poll dev base reg ready (Suc n) r =
     (let (v, r1) = IORD dev base reg r
      in if ready v then (v, r1) else poll dev base reg ready n r1)"

lemma poll_trace:
  "\<exists>vs. snd (poll dev base reg ready n r) =
      r\<lparr>trace := IoRd base reg (fst (poll dev base reg ready n r)) # map (IoRd base reg) vs @ trace r\<rparr>
    \<and> length vs \<le> n \<and> list_all (\<lambda>v. \<not> ready v) vs
    \<and> (ready (fst (poll dev base reg ready n r)) \<or> length vs = n)"
proof (induction n arbitrary: r)
  case 0
  then show ?case by (auto simp: IORD_def Let_def)
next
  case (Suc n)
  define v where "v = dev (trace r) base reg"
  define r1 where "r1 = r\<lparr>trace := IoRd base reg v # trace r\<rparr>"
  show ?case
  proof (cases "ready v")
    case True
    then show ?thesis
      by (intro exI [of _ "[]"]) (simp add: IORD_def Let_def flip: v_def)
  next
    case False
    obtain vs where vs: "snd (poll dev base reg ready n r1) =
        r1\<lparr>trace := IoRd base reg (fst (poll dev base reg ready n r1)) # map (IoRd base reg) vs @ trace r1\<rparr>"
      "length vs \<le> n" "list_all (\<lambda>v. \<not> ready v) vs"
      "ready (fst (poll dev base reg ready n r1)) \<or> length vs = n"
      using Suc [of r1] by blast
    have eq: "poll dev base reg ready (Suc n) r = poll dev base reg ready n r1"
      using False by (simp add: IORD_def Let_def r1_def flip: v_def)
    show ?thesis
      unfolding eq using vs False
      by (intro exI [of _ "vs @ [v]"]) (auto simp: r1_def)
  qed
qed

section \<open>Accesses to some devices only\<close>

fun touches :: "u32 set \<Rightarrow> io_event \<Rightarrow> bool" where
  "touches B (IoRd base reg v) \<longleftrightarrow> base \<in> B"
| "touches B (IoWr base reg v) \<longleftrightarrow> base \<in> B"
| "touches B (IoSpin us) \<longleftrightarrow> False"

text \<open>The other tasks do not use the devices at the bases \<open>B\<close>.\<close>

definition leaves_alone :: "u32 set \<Rightarrow> ('a board_scheme \<Rightarrow> 'a board_scheme) \<Rightarrow> bool" where
  "leaves_alone B others \<longleftrightarrow>
     (\<forall>r. filter (touches B) (trace (others r)) = filter (touches B) (trace r))"

lemma leaves_alone_id: "leaves_alone B (\<lambda>r. r)"
  by (simp add: leaves_alone_def)

lemma leaves_alone_dly:
  assumes "leaves_alone B others"
  shows "filter (touches B) (trace (dly_calls others ds r)) = filter (touches B) (trace r)"
  using assms by (induction ds arbitrary: r) (simp_all add: leaves_alone_def)

lemma leaves_alone_usleep:
  assumes "leaves_alone B others"
  shows "filter (touches B) (trace (usleep others us r)) = filter (touches B) (trace r)"
  by (simp add: usleep_def alt_busy_sleep_def leaves_alone_dly [OF assms])

lemma leaves_alone_dly_hmsm:
  assumes "leaves_alone B others"
  shows "filter (touches B) (trace (dly_hmsm others h m s ms r)) = filter (touches B) (trace r)"
  by (simp add: dly_hmsm_def leaves_alone_dly [OF assms])

text \<open>An observer of the trace that looks at some devices only does not notice a delay.\<close>

definition observes :: "u32 set \<Rightarrow> (io_event list \<Rightarrow> 'm) \<Rightarrow> bool" where
  "observes B mon \<longleftrightarrow> (\<forall>tr. mon (filter (touches B) tr) = mon tr)"

lemma observes_usleep:
  assumes "observes B mon" "leaves_alone B others"
  shows "mon (trace (usleep others us r)) = mon (trace r)"
  using assms leaves_alone_usleep [OF assms(2)] by (metis observes_def)

lemma observes_dly_hmsm:
  assumes "observes B mon" "leaves_alone B others"
  shows "mon (trace (dly_hmsm others h m s ms r)) = mon (trace r)"
  using assms leaves_alone_dly_hmsm [OF assms(2)] by (metis observes_def)

section \<open>Properties of the rest of the state\<close>

text \<open>
  The interface of a property \<open>I\<close> of the variables of the application: bus accesses and kernel calls do
  not matter for it.  The lemmas show for each routine that it keeps \<open>I\<close> when the other tasks do.
\<close>

definition keeps :: "('a \<Rightarrow> bool) \<Rightarrow> ('a \<Rightarrow> 'a) \<Rightarrow> bool" where
  "keeps I others \<longleftrightarrow> (\<forall>r. I r \<longrightarrow> I (others r))"

lemma keepsD: "keeps I others \<Longrightarrow> I r \<Longrightarrow> I (others r)"
  by (simp add: keeps_def)

lemma keeps_id: "keeps I (\<lambda>r. r)"
  by (simp add: keeps_def)

locale board_inv =
  fixes I :: "'a board_scheme \<Rightarrow> bool"
  assumes I_trace [simp]: "I (r\<lparr>trace := tr\<rparr>) \<longleftrightarrow> I r"
    and I_os [simp]: "I (r\<lparr>os := s\<rparr>) \<longleftrightarrow> I r"
begin

lemma IORD [simp]: "I (snd (IORD dev base reg r)) \<longleftrightarrow> I r"
  by (simp add: IORD_def Let_def)

lemma IOWR [simp]: "I (IOWR base reg v r) \<longleftrightarrow> I r"
  by (simp add: IOWR_def)

lemma dly_calls:
  assumes "keeps I others"
  shows "I r \<Longrightarrow> I (dly_calls others ds r)"
  using assms by (induction ds arbitrary: r) (simp_all add: keepsD)

lemma dly_hmsm:
  assumes "keeps I others"
  shows "I r \<Longrightarrow> I (dly_hmsm others h m s ms r)"
  by (simp add: dly_hmsm_def dly_calls assms)

lemma usleep:
  assumes "keeps I others"
  shows "I r \<Longrightarrow> I (usleep others us r)"
  by (simp add: usleep_def alt_busy_sleep_def dly_calls assms)

lemma poll [simp]: "I (snd (poll dev base reg ready n r)) \<longleftrightarrow> I r"
  by (induction n arbitrary: r) (simp_all add: Let_def split_beta)

end

lemma trace_IOWR [simp]: "trace (IOWR base reg v r) = IoWr base reg v # trace r"
  by (simp add: IOWR_def)

lemma trace_IORD [simp]:
  "trace (snd (IORD dev base reg r)) = IoRd base reg (fst (IORD dev base reg r)) # trace r"
  by (simp add: IORD_def Let_def)

lemma fst_IORD: "fst (IORD dev base reg r) = dev (trace r) base reg"
  by (simp add: IORD_def Let_def)

end
