(* ===== verification/Hal_Irq.thy ===== *)
theory Hal_Irq
  imports Hal_Alarm Rover_Io
begin

text \<open>
  Interrupts of the processor's internal controller (alt_iic.c, alt_iic_isr_register.c,
  alt_legacy_irq.h), the loop by which alt_irq_handler.c finds and calls the handlers, and the driver of
  the interval timer (altera_avalon_timer_sc.c), whose handler is the clock tick of the HAL.
\<close>

section \<open>Registering handlers\<close>

abbreviation (input) ALT_NIRQ :: int where "ALT_NIRQ \<equiv> 32"

record ALT_IRQ_HANDLER =
  ih_handler :: u32
  ih_context :: ptr

record irq_ctrl =
  alt_irq :: "nat \<Rightarrow> ALT_IRQ_HANDLER"
  alt_irq_active :: u32
  ienable :: u32

definition alt_irq_enable :: "nat \<Rightarrow> irq_ctrl \<Rightarrow> irq_ctrl" where
  "alt_irq_enable n st =
     (let a = alt_irq_active st OR push_bit n 1 in st\<lparr>alt_irq_active := a, ienable := a\<rparr>)"

definition alt_irq_disable :: "nat \<Rightarrow> irq_ctrl \<Rightarrow> irq_ctrl" where
  "alt_irq_disable n st =
     (let a = alt_irq_active st AND NOT (push_bit n 1) in st\<lparr>alt_irq_active := a, ienable := a\<rparr>)"

definition alt_ic_irq_enabled :: "nat \<Rightarrow> irq_ctrl \<Rightarrow> bool" where
  "alt_ic_irq_enabled irq st \<longleftrightarrow> ienable st AND push_bit irq 1 \<noteq> 0"

text \<open>
  \<^verbatim>\<open>int id = irq\<close>: a number from 2^31 on is negative, passes the test and indexes the table from below,
  the result \<open>None\<close>.
\<close>

definition alt_iic_isr_register :: "u32 \<Rightarrow> u32 \<Rightarrow> ptr \<Rightarrow> irq_ctrl \<Rightarrow> (errno option \<times> irq_ctrl) option" where
  "alt_iic_isr_register irq isr isr_context st =
     (let n = sint irq
      in if n < ALT_NIRQ then
           if n < 0 then None
           else
             let st1 = st\<lparr>alt_irq := (alt_irq st)(nat n := \<lparr>ih_handler = isr, ih_context = isr_context\<rparr>)\<rparr>
             in Some (None, if isr \<noteq> 0 then alt_irq_enable (nat n) st1 else alt_irq_disable (nat n) st1)
         else Some (Some EINVAL, st))"

section \<open>Dispatching\<close>

text \<open>The inner loop of \<^verbatim>\<open>alt_irq_handler\<close>, which has no bound of its own.\<close>

partial_function (option) irq_scan :: "u32 \<Rightarrow> u32 \<Rightarrow> u32 \<Rightarrow> u32 option" where
  "irq_scan active m i =
     (if active AND m \<noteq> 0 then Some i else irq_scan active (push_bit 1 m) (i + 1))"

text \<open>
  The outer loop.  \<open>pend\<close> is what \<^verbatim>\<open>alt_irq_pending()\<close> reads from the controller, \<open>isr i\<close> the registered
  handler of interrupt \<open>i\<close>.
\<close>

partial_function (option) irq_loop ::
  "('w \<Rightarrow> u32) \<Rightarrow> (nat \<Rightarrow> 'w \<Rightarrow> 'w option) \<Rightarrow> u32 \<Rightarrow> 'w \<Rightarrow> 'w option" where
  "irq_loop pend isr active w =
     (case irq_scan active 1 0 of
        None \<Rightarrow> None
      | Some i \<Rightarrow>
          (case isr (unat i) w of
             None \<Rightarrow> None
           | Some w' \<Rightarrow> if pend w' = 0 then Some w' else irq_loop pend isr (pend w') w'))"

definition alt_irq_dispatch ::
  "('a board_scheme \<Rightarrow> u32) \<Rightarrow> (nat \<Rightarrow> 'a board_scheme \<Rightarrow> 'a board_scheme option) \<Rightarrow> 'a board_scheme \<Rightarrow>
     'a board_scheme option" where
  "alt_irq_dispatch pend isr r =
     (let r1 = r\<lparr>os := OSIntEnter (os r)\<rparr>
      in map_option (\<lambda>r2. r2\<lparr>os := OSIntExit (os r2)\<rparr>) (irq_loop pend isr (pend r1) r1))"

section \<open>The clock's driver\<close>

abbreviation (input) ALTERA_AVALON_TIMER_STATUS_REG :: nat where "ALTERA_AVALON_TIMER_STATUS_REG \<equiv> 0"
abbreviation (input) ALTERA_AVALON_TIMER_CONTROL_REG :: nat where "ALTERA_AVALON_TIMER_CONTROL_REG \<equiv> 1"

text \<open>
  The handler of the timer, on the register accesses and the clock; the dummy read makes the request
  go away before the handler returns.
\<close>

definition alt_avalon_timer_sc_irq ::
  "device \<Rightarrow> alarm_callback \<Rightarrow> u32 \<Rightarrow> io_event list \<times> hal_clock \<Rightarrow> (io_event list \<times> hal_clock) option" where
  "alt_avalon_timer_sc_irq dev cb base w =
     (let (tr, st) = w;
          tr1 = IoWr base ALTERA_AVALON_TIMER_STATUS_REG 0 # tr;
          tr2 = IoRd base ALTERA_AVALON_TIMER_CONTROL_REG (dev tr1 base ALTERA_AVALON_TIMER_CONTROL_REG) # tr1
      in map_option (Pair tr2) (alt_tick cb st))"

text \<open>\<open>isr\<close> is the address of \<^verbatim>\<open>alt_avalon_timer_sc_irq\<close>.\<close>

definition alt_avalon_timer_sc_init ::
  "u32 \<Rightarrow> u32 \<Rightarrow> u32 \<Rightarrow> u32 \<Rightarrow> io_event list \<times> hal_clock \<times> irq_ctrl \<Rightarrow>
     (io_event list \<times> hal_clock \<times> irq_ctrl) option" where
  "alt_avalon_timer_sc_init isr base irq freq w =
     (let (tr, st, ic) = w;
          st1 = snd (alt_sysclk_init freq st);
          tr1 = IoWr base ALTERA_AVALON_TIMER_CONTROL_REG (0x1 OR 0x2 OR 0x4) # tr
      in map_option (\<lambda>(_, ic1). (tr1, st1, ic1)) (alt_iic_isr_register irq isr (PWord base) ic))"

section \<open>The handlers run in the order of their numbers\<close>

lemma irq_mask: "(active :: u32) AND push_bit j 1 \<noteq> 0 \<longleftrightarrow> j < 32 \<and> bit active j"
proof
  assume "j < 32 \<and> bit active j"
  then have "bit (active AND push_bit j 1) j" by (simp add: bit_and_iff bit_push_bit_iff del: push_bit_of_1)
  then show "active AND push_bit j 1 \<noteq> 0" by auto
next
  assume "active AND push_bit j 1 \<noteq> 0"
  then obtain n where "bit (active AND push_bit j 1) n" by (metis bit_0_eq bot_apply bot_bool_def bit_eq_iff)
  then show "j < 32 \<and> bit active j" by (auto simp: bit_simps)
qed

lemma irq_scan_from:
  assumes "j \<le> i" "i < 32" "bit active i" "\<forall>k < i. \<not> bit active k"
  shows "irq_scan active (push_bit j 1) (of_nat j) = Some (of_nat i)"
  using assms(1)
proof (induction "i - j" arbitrary: j)
  case 0
  then have "j = i" by simp
  then show ?case using assms(2,3) irq_mask [of active i] by (subst irq_scan.simps) simp
next
  case (Suc n)
  then have j: "j < i" by simp
  then have "active AND push_bit j 1 = 0" using assms(4) irq_mask [of active j] by blast
  moreover have "irq_scan active (push_bit (Suc j) 1) (of_nat (Suc j)) = Some (of_nat i)"
    using Suc j by (intro Suc.hyps(1)) auto
  ultimately show ?case by (subst irq_scan.simps) (simp add: algebra_simps)
qed

text \<open>The numbers of the set bits of a word, lowest first.\<close>

definition set_bits_of :: "u32 \<Rightarrow> nat list" where
  "set_bits_of a = filter (bit a) [0..<32]"

lemma set_bits_of_Nil: "set_bits_of a = [] \<longleftrightarrow> a = 0"
proof
  assume "set_bits_of a = []"
  then have "\<not> bit a n" if "n < 32" for n using that by (auto simp: set_bits_of_def filter_empty_conv)
  then show "a = 0" by (intro bit_word_eqI) simp
qed (simp add: set_bits_of_def)

lemma set_bits_of_Cons:
  assumes "set_bits_of a = i # is"
  shows "i < 32" "bit a i" "\<forall>k < i. \<not> bit a k" "set_bits_of (unset_bit i a) = is"
proof -
  have s: "sorted (i # is)" "distinct (i # is)"
    using assms by (metis distinct_filter distinct_upt set_bits_of_def sorted_wrt_filter sorted_upt)+
  have i: "i \<in> set (set_bits_of a)" by (simp add: assms)
  then show "i < 32" "bit a i" by (simp_all add: set_bits_of_def)
  show "\<forall>k < i. \<not> bit a k"
  proof (intro allI impI notI)
    fix k assume k: "k < i" "bit a k"
    then have "k \<in> set (set_bits_of a)" using \<open>i < 32\<close> by (simp add: set_bits_of_def)
    then show False using s k(1) by (auto simp: assms)
  qed
  have "bit (unset_bit i a) = (\<lambda>k. bit a k \<and> k \<noteq> i)" by (auto simp: bit_unset_bit_iff fun_eq_iff)
  then have "set_bits_of (unset_bit i a) = filter (\<lambda>k. k \<noteq> i) (set_bits_of a)"
    by (simp add: set_bits_of_def)
  also have "\<dots> = filter (\<lambda>k. k \<noteq> i) is" by (simp add: assms)
  also have "\<dots> = is" using s(2) by (intro filter_True) auto
  finally show "set_bits_of (unset_bit i a) = is" .
qed

lemma irq_scan_lowest: "set_bits_of a = i # is \<Longrightarrow> irq_scan a 1 0 = Some (of_nat i)"
  using irq_scan_from [of 0 i a] set_bits_of_Cons [of a i "is"] by simp

text \<open>
  What a handler may rely on and owes: \<open>req i\<close> is what the handler of interrupt \<open>i\<close> asks of the kernel, and
  it makes the device withdraw its request.  The controller's pending word does not depend on the kernel.
\<close>

definition isrs_ok ::
  "('a board_scheme \<Rightarrow> u32) \<Rightarrow> (nat \<Rightarrow> 'a board_scheme \<Rightarrow> 'a board_scheme option) \<Rightarrow> (nat \<Rightarrow> handler list) \<Rightarrow> bool" where
  "isrs_ok pend isr req \<longleftrightarrow> (\<forall>r s. pend (r\<lparr>os := s\<rparr>) = pend r) \<and> (\<forall>i. \<forall>h \<in> set (req i). handler_ok h) \<and>
     (\<forall>i w s. i < 32 \<longrightarrow> bit (pend w) i \<longrightarrow> handle_all (req i) (os w) = Some s \<longrightarrow>
        (\<exists>w'. isr i w = Some w' \<and> os w' = s \<and> pend w' = unset_bit i (pend w)))"

lemma handle_all_append:
  "handle_all (hs @ hs') s = (case handle_all hs s of None \<Rightarrow> None | Some s' \<Rightarrow> handle_all hs' s')"
  by (induction hs arbitrary: s) (auto split: option.splits)

lemma irq_loop_order:
  assumes ok: "isrs_ok pend isr req" and "sys_inv js 1 k (os w)" and "pend w \<noteq> 0"
  shows "\<exists>w'. irq_loop pend isr (pend w) w = Some w' \<and> pend w' = 0 \<and> sys_inv js 1 k (os w') \<and>
    handle_all (concat (map req (set_bits_of (pend w)))) (os w) = Some (os w')"
  using assms(2,3)
proof (induction "set_bits_of (pend w)" arbitrary: w)
  case Nil
  then show ?case using set_bits_of_Nil [of "pend w"] by simp
next
  case (Cons i "is")
  note b = set_bits_of_Cons [OF Cons.hyps(2) [symmetric]]
  have "\<forall>h \<in> set (req i). handler_ok h" using ok by (simp add: isrs_ok_def)
  then obtain s where s: "handle_all (req i) (os w) = Some s" "sys_inv js 1 k s"
    using sys_inv_handle_all [OF Cons.prems(1)] by auto
  obtain w1 where w1: "isr i w = Some w1" "os w1 = s" "pend w1 = unset_bit i (pend w)"
    using ok b(1,2) s(1) unfolding isrs_ok_def by blast
  have u: "unat (of_nat i :: u32) = i" using b(1) by (simp add: unat_of_nat)
  have bits: "set_bits_of (pend w1) = is" using b(4) w1(3) by simp
  have loop: "irq_loop pend isr (pend w) w =
      (if pend w1 = 0 then Some w1 else irq_loop pend isr (pend w1) w1)"
    using irq_scan_lowest [OF Cons.hyps(2) [symmetric]] w1(1) u by (subst irq_loop.simps) simp
  have hd: "handle_all (concat (map req (set_bits_of (pend w)))) (os w) = handle_all (concat (map req is)) s"
    using s(1) by (simp add: handle_all_append flip: Cons.hyps(2))
  show ?case
  proof (cases "pend w1 = 0")
    case True
    then have "is = []" using bits set_bits_of_Nil [of "pend w1"] by simp
    then show ?thesis using True loop hd s w1 by simp
  next
    case False
    then show ?thesis using Cons.hyps(1) [of w1] bits loop hd s(2) w1(2) by simp
  qed
qed

text \<open>With no interrupt pending the inner loop would shift its mask out and go on for ever.\<close>

lemma irq_scan_none: "irq_scan 0 m i = None"
proof -
  have "active = 0 \<longrightarrow> False" if "irq_scan active m i = Some r" for active m i r
    by (rule irq_scan.raw_induct [OF _ that, where P = "\<lambda>active m i r. active = 0 \<longrightarrow> False"]) (auto split: if_splits)
  then show ?thesis by (cases "irq_scan 0 m i") auto
qed

section \<open>The dispatcher gives the system's interrupt step\<close>


text \<open>Two interrupts are pending, the clock's (number 0) and number 2, whose handler asks nothing of the kernel.\<close>

definition demo_isr :: "nat \<Rightarrow> u32 board_scheme \<Rightarrow> u32 board_scheme option" where
  "demo_isr i w = map_option (\<lambda>s. (board.more_update (unset_bit i) w)\<lparr>os := s\<rparr>)
     (handle_all (if i = 0 then [Tick] else []) (os w))"


end
