(* ===== verification/Ring_Buffer.thy ===== *)
theory Ring_Buffer
  imports Main
begin

text \<open>
  Circular buffers with one reader and one writer: an array with an index \<open>out\<close> of the next element to
  read and an index \<open>inn\<close> of the next free place; equal indices mean that the buffer is empty, so one place
  stays free.
\<close>

definition ring_data :: "'a list \<Rightarrow> nat \<Rightarrow> nat \<Rightarrow> 'a list" where
  "ring_data buf out inn = (if out \<le> inn then take (inn - out) (drop out buf) else drop out buf @ take inn buf)"

lemma ring_data_empty [simp]: "ring_data buf k k = []"
  by (simp add: ring_data_def)

lemma length_ring_data:
  assumes "out < length buf" "inn < length buf"
  shows "length (ring_data buf out inn) = (if out \<le> inn then inn - out else length buf - out + inn)"
  using assms by (simp add: ring_data_def)

text \<open>The free places in a row after \<open>inn\<close>, and the elements in a row after \<open>out\<close>.\<close>

definition ring_room :: "nat \<Rightarrow> nat \<Rightarrow> nat \<Rightarrow> nat" where
  "ring_room N out inn = (if inn < out then out - 1 - inn else if out > 0 then N - inn else N - 1 - inn)"

definition ring_avail :: "nat \<Rightarrow> nat \<Rightarrow> nat \<Rightarrow> nat" where
  "ring_avail N out inn = (if inn \<ge> out then inn - out else N - out)"

lemma ring_avail_0: "out < N \<Longrightarrow> inn < N \<Longrightarrow> ring_avail N out inn = 0 \<longleftrightarrow> out = inn"
  by (auto simp: ring_avail_def)

lemma ring_avail_min:
  "out < length buf \<Longrightarrow> inn < length buf \<Longrightarrow>
     ring_avail (length buf) out inn = min (length buf - out) (length (ring_data buf out inn))"
  by (auto simp: ring_avail_def length_ring_data)

lemma ring_room_min:
  "out < length buf \<Longrightarrow> inn < length buf \<Longrightarrow>
     ring_room (length buf) out inn = min (length buf - inn) (length buf - 1 - length (ring_data buf out inn))"
  by (auto simp: ring_room_def length_ring_data)

lemma ring_room_0: "out < N \<Longrightarrow> inn < N \<Longrightarrow> ring_room N out inn = 0 \<longleftrightarrow> (inn + 1) mod N = out"
proof -
  assume a: "out < N" "inn < N"
  show ?thesis
  proof (cases "inn + 1 = N")
    case True
    then show ?thesis using a by (auto simp: ring_room_def)
  next
    case False
    then have "(inn + 1) mod N = inn + 1" using a by simp
    moreover have "inn + 1 < N" using False a by simp
    ultimately show ?thesis using a by (auto simp: ring_room_def)
  qed
qed

lemma mod_end: "i + n \<le> N \<Longrightarrow> 0 < N \<Longrightarrow> (i + n) mod N = (if i + n = N then 0 else i + n)" for i n N :: nat
  by auto

text \<open>Writing a block of elements, and reading one.\<close>

lemma ring_put_block:
  assumes b: "out < length buf" "inn < length buf" and n: "length xs \<le> ring_room (length buf) out inn"
  defines "buf' \<equiv> take inn buf @ xs @ drop (inn + length xs) buf"
  shows "ring_data buf' out ((inn + length xs) mod length buf) = ring_data buf out inn @ xs"
    and "length buf' = length buf"
proof -
  have le: "inn + length xs \<le> length buf" using b n by (auto simp: ring_room_def split: if_splits)
  then show "length buf' = length buf" by (simp add: buf'_def)
  have m: "(inn + length xs) mod length buf = (if inn + length xs = length buf then 0 else inn + length xs)"
    by (rule mod_end [OF le]) (use b in linarith)
  show "ring_data buf' out ((inn + length xs) mod length buf) = ring_data buf out inn @ xs"
  proof (cases "inn < out")
    case True
    then have lt: "inn + length xs < out" using n by (auto simp: ring_room_def)
    then have "(inn + length xs) mod length buf = inn + length xs" using b by simp
    then show ?thesis using True lt b by (simp add: ring_data_def buf'_def)
  next
    case False
    show ?thesis
    proof (cases "inn + length xs = length buf")
      case True
      have "length xs < length buf - inn" if "out = 0" using that b n by (auto simp: ring_room_def)
      then have "out > 0 \<or> xs = []" using True by (cases "out = 0") auto
      then show ?thesis
        using True False b m by (auto simp: ring_data_def buf'_def take_drop)
    next
      case ne: False
      then show ?thesis using False b m le by (simp add: ring_data_def buf'_def take_drop)
    qed
  qed
qed

text \<open>Writing to free places only does not change what is in the buffer.\<close>

lemma ring_write_free:
  assumes b: "out < length buf" "inn < length buf" and n: "length xs \<le> ring_room (length buf) out inn"
  shows "ring_data (take inn buf @ xs @ drop (inn + length xs) buf) out inn = ring_data buf out inn"
proof (cases "inn < out")
  case True
  then have "inn + length xs < out" using n by (auto simp: ring_room_def)
  then show ?thesis using True b by (simp add: ring_data_def)
next
  case False
  then show ?thesis using b by (simp add: ring_data_def take_drop)
qed

lemma ring_put_one:
  assumes "out < length buf" "inn < length buf" "(inn + 1) mod length buf \<noteq> out"
  shows "ring_data (buf[inn := x]) out ((inn + 1) mod length buf) = ring_data buf out inn @ [x]"
proof -
  have "ring_room (length buf) out inn \<noteq> 0" using ring_room_0 [OF assms(1,2)] assms(3) by simp
  then show ?thesis
    using ring_put_block(1) [OF assms(1,2), of "[x]"] by (simp add: upd_conv_take_nth_drop assms(2))
qed

lemma ring_take_block:
  assumes b: "out < length buf" "inn < length buf" and n: "n \<le> ring_avail (length buf) out inn"
  shows "ring_data buf out inn = take n (drop out buf) @ ring_data buf ((out + n) mod length buf) inn"
    and "length (take n (drop out buf)) = n"
proof -
  have le: "out + n \<le> length buf" using b n by (auto simp: ring_avail_def split: if_splits)
  then show "length (take n (drop out buf)) = n" by simp
  have m: "(out + n) mod length buf = (if out + n = length buf then 0 else out + n)"
    by (rule mod_end [OF le]) (use b in linarith)
  have sp: "drop out buf = take n (drop out buf) @ drop (out + n) buf"
    using append_take_drop_id [of n "drop out buf"] by (simp add: add.commute)
  show "ring_data buf out inn = take n (drop out buf) @ ring_data buf ((out + n) mod length buf) inn"
  proof (cases "out \<le> inn")
    case True
    then have nn: "out + n \<le> inn" using n by (simp add: ring_avail_def)
    then have "take (inn - out) (drop out buf) = take n (drop out buf) @ take (inn - (out + n)) (drop (out + n) buf)"
      using take_add [of n "inn - (out + n)" "drop out buf"] by (simp add: add.commute)
    then show ?thesis using True nn m b by (simp add: ring_data_def)
  next
    case False
    then show ?thesis using m b sp le by (auto simp: ring_data_def)
  qed
qed

end
