(* ===== verification/Hal_Uart.thy ===== *)
theory Hal_Uart
  imports Ring_Buffer Rover_Io Hal_Irq Os_Flag Os_Sem
begin

text \<open>
  The interrupt-driven driver of the JTAG UART, the rover's console (altera_avalon_jtag_uart_init.c,
  _read.c, _write.c, _ioctl.c): two circular buffers between the interrupt routine and the tasks.
  \<open>intr\<close> is what interrupts do between two statements of a task, \<open>others\<close> what everything else does
  while the task waits.
\<close>

section \<open>State\<close>

abbreviation (input) BUF_LEN :: u32 where "BUF_LEN \<equiv> 2048"
abbreviation (input) INT_MAX :: u32 where "INT_MAX \<equiv> 0x7FFFFFFF"
abbreviation (input) UART_DATA_REG :: nat where "UART_DATA_REG \<equiv> 0"
abbreviation (input) UART_CONTROL_REG :: nat where "UART_CONTROL_REG \<equiv> 1"
abbreviation (input) CONTROL_RE :: u32 where "CONTROL_RE \<equiv> 0x1"
abbreviation (input) CONTROL_WE :: u32 where "CONTROL_WE \<equiv> 0x2"
abbreviation (input) CONTROL_RI :: u32 where "CONTROL_RI \<equiv> 0x100"
abbreviation (input) CONTROL_WI :: u32 where "CONTROL_WI \<equiv> 0x200"
abbreviation (input) CONTROL_AC :: u32 where "CONTROL_AC \<equiv> 0x400"
abbreviation (input) DATA_RVALID :: u32 where "DATA_RVALID \<equiv> 0x8000"
abbreviation (input) READ_RDY :: u16 where "READ_RDY \<equiv> 1"
abbreviation (input) WRITE_RDY :: u16 where "WRITE_RDY \<equiv> 2"
abbreviation (input) UART_TIMEOUT :: u16 where "UART_TIMEOUT \<equiv> 4"
abbreviation (input) O_NONBLOCK :: u32 where "O_NONBLOCK \<equiv> 0x4000"

record jtag_uart = board +
  ju_base :: u32
  ju_timeout :: u32
  irq_enable :: u32
  host_inactive :: u32
  read_lock :: ptr
  write_lock :: ptr
  ju_events :: ptr
  rx_in :: u32
  rx_out :: u32
  tx_in :: u32
  tx_out :: u32
  rx_buf :: "u8 list"
  tx_buf :: "u8 list"

text \<open>alt_flag_ucosii.h and alt_sem_ucosii.h; a post may switch tasks only outside interrupts.\<close>

definition alt_flag_post :: "ptr \<Rightarrow> u16 \<Rightarrow> u8 \<Rightarrow> os_state \<Rightarrow> os_state option" where
  "alt_flag_post grp flags opt s =
     (if OSRunning s then map_option snd (OSFlagPost grp flags opt True s) else Some s)"

definition alt_flag_pend ::
  "('a board_scheme \<Rightarrow> 'a board_scheme) \<Rightarrow> ptr \<Rightarrow> u16 \<Rightarrow> u8 \<Rightarrow> 'a board_scheme \<Rightarrow> 'a board_scheme" where
  "alt_flag_pend others grp flags wait_type r =
     (if OSRunning (os r) then
        (case OSFlagPend grp flags wait_type 0 True (os r) of
           (Done _, s) \<Rightarrow> r\<lparr>os := s\<rparr>
         | (Wait, s) \<Rightarrow>
             let r1 = others (r\<lparr>os := s\<rparr>); (_, _, s2) = OSFlagPend_resume grp wait_type (os r1)
             in r1\<lparr>os := s2\<rparr>)
      else r)"

definition alt_sem_pend :: "('a board_scheme \<Rightarrow> 'a board_scheme) \<Rightarrow> ptr \<Rightarrow> 'a board_scheme \<Rightarrow> 'a board_scheme" where
  "alt_sem_pend others sem r =
     (case OSSemPend sem 0 True (os r) of
        (Done _, s) \<Rightarrow> r\<lparr>os := s\<rparr>
      | (Wait, s) \<Rightarrow>
          let r1 = others (r\<lparr>os := s\<rparr>) in r1\<lparr>os := snd (OSSemPend_resume sem (os r1))\<rparr>)"

definition alt_sem_post :: "('a board_scheme \<Rightarrow> 'a board_scheme) \<Rightarrow> ptr \<Rightarrow> 'a board_scheme \<Rightarrow> 'a board_scheme" where
  "alt_sem_post others sem r = others (r\<lparr>os := snd (OSSemPost sem (os r))\<rparr>)"

section \<open>The interrupt routine\<close>

definition uart_post :: "u16 \<Rightarrow> 'a jtag_uart_scheme \<Rightarrow> 'a jtag_uart_scheme option" where
  "uart_post flags r = map_option (\<lambda>s. r\<lparr>os := s\<rparr>) (alt_flag_post (ju_events r) flags OS_FLAG_SET (os r))"

text \<open>The loop of a read interrupt: the last value read from the data register, and the new state.\<close>

partial_function (option) uart_rx ::
  "device \<Rightarrow> u32 \<Rightarrow> 'a jtag_uart_scheme \<Rightarrow> (u32 \<times> 'a jtag_uart_scheme) option" where
  "uart_rx dev data r =
     (if (rx_in r + 1) mod BUF_LEN = rx_out r then Some (data, r)
      else
        let (data1, r1) = IORD dev (ju_base r) UART_DATA_REG r
        in if data1 AND DATA_RVALID = 0 then Some (data1, r1)
           else
             let r2 = r1\<lparr>rx_buf := (rx_buf r1)[unat (rx_in r1) := ucast (data1 AND 0xFF)]\<rparr>;
                 r3 = r2\<lparr>rx_in := (rx_in r2 + 1) mod BUF_LEN\<rparr>
             in case uart_post READ_RDY r3 of None \<Rightarrow> None | Some r4 \<Rightarrow> uart_rx dev data1 r4)"

text \<open>Changing the interrupt enables, with the dummy read that follows inside interrupts.\<close>

definition uart_irq_off :: "device \<Rightarrow> u32 \<Rightarrow> 'a jtag_uart_scheme \<Rightarrow> 'a jtag_uart_scheme" where
  "uart_irq_off dev msk r =
     (let r1 = r\<lparr>irq_enable := irq_enable r AND NOT msk\<rparr>;
          r2 = IOWR (ju_base r1) UART_CONTROL_REG (irq_enable r1) r1
      in snd (IORD dev (ju_base r2) UART_CONTROL_REG r2))"

definition uart_irq_on :: "u32 \<Rightarrow> 'a jtag_uart_scheme \<Rightarrow> 'a jtag_uart_scheme" where
  "uart_irq_on msk r =
     (let r1 = r\<lparr>irq_enable := irq_enable r OR msk\<rparr>
      in IOWR (ju_base r1) UART_CONTROL_REG (irq_enable r1) r1)"

definition uart_read_irq :: "device \<Rightarrow> 'a jtag_uart_scheme \<Rightarrow> 'a jtag_uart_scheme option" where
  "uart_read_irq dev r =
     (case uart_rx dev (push_bit 16 1) r of
        None \<Rightarrow> None
      | Some (data, r1) \<Rightarrow>
          Some (if data AND 0xFFFF0000 \<noteq> 0 then uart_irq_off dev CONTROL_RE r1 else r1))"

text \<open>The loop of a write interrupt: the space left, and the new state.\<close>

fun uart_tx :: "nat \<Rightarrow> 'a jtag_uart_scheme \<Rightarrow> (nat \<times> 'a jtag_uart_scheme) option" where
  "uart_tx 0 r = Some (0, r)"
| "uart_tx (Suc space) r =
     (if tx_out r = tx_in r then Some (Suc space, r)
      else
        let r1 = IOWR (ju_base r) UART_DATA_REG (ucast (tx_buf r ! unat (tx_out r))) r;
            r2 = r1\<lparr>tx_out := (tx_out r1 + 1) mod BUF_LEN\<rparr>
        in case uart_post WRITE_RDY r2 of None \<Rightarrow> None | Some r3 \<Rightarrow> uart_tx space r3)"

definition uart_write_irq :: "device \<Rightarrow> u32 \<Rightarrow> 'a jtag_uart_scheme \<Rightarrow> 'a jtag_uart_scheme option" where
  "uart_write_irq dev control r =
     (case uart_tx (unat (drop_bit 16 (control AND 0xFFFF0000))) r of
        None \<Rightarrow> None
      | Some (space, r1) \<Rightarrow> Some (if space > 0 then uart_irq_off dev CONTROL_WE r1 else r1))"

partial_function (option) altera_avalon_jtag_uart_irq ::
  "device \<Rightarrow> 'a jtag_uart_scheme \<Rightarrow> 'a jtag_uart_scheme option" where
  "altera_avalon_jtag_uart_irq dev r =
     (let (control, r1) = IORD dev (ju_base r) UART_CONTROL_REG r
      in if control AND (CONTROL_RI OR CONTROL_WI) = 0 then Some r1
         else
           case (if control AND CONTROL_RI \<noteq> 0 then uart_read_irq dev r1 else Some r1) of
             None \<Rightarrow> None
           | Some r2 \<Rightarrow>
               (case (if control AND CONTROL_WI \<noteq> 0 then uart_write_irq dev control r2 else Some r2) of
                  None \<Rightarrow> None
                | Some r3 \<Rightarrow> altera_avalon_jtag_uart_irq dev r3))"

section \<open>The alarm that looks for the host\<close>

text \<open>The result is what \<^verbatim>\<open>alt_ticks_per_second()\<close> gives, the parameter \<open>rate\<close>.\<close>

definition altera_avalon_jtag_uart_timeout ::
  "device \<Rightarrow> u32 \<Rightarrow> 'a jtag_uart_scheme \<Rightarrow> (u32 \<times> 'a jtag_uart_scheme) option" where
  "altera_avalon_jtag_uart_timeout dev rate r =
     (let (control, r1) = IORD dev (ju_base r) UART_CONTROL_REG r
      in map_option (Pair rate)
        (if control AND CONTROL_AC \<noteq> 0 then
           Some ((IOWR (ju_base r1) UART_CONTROL_REG (irq_enable r1 OR CONTROL_AC) r1)\<lparr>host_inactive := 0\<rparr>)
         else if host_inactive r1 < INT_MAX - 2 then
           let r2 = r1\<lparr>host_inactive := host_inactive r1 + 1\<rparr>
           in if host_inactive r2 \<ge> ju_timeout r2 then uart_post UART_TIMEOUT r2 else Some r2
         else Some r1))"

section \<open>Reading\<close>

text \<open>
  The inner loop of \<^verbatim>\<open>altera_avalon_jtag_uart_read\<close>: the bytes copied, the last value of \<^verbatim>\<open>in\<close>, the state.
  Interrupts may come after the indices have been read, after the copy and before the task waits.
\<close>

function uart_read_avail ::
  "('a jtag_uart_scheme \<Rightarrow> 'a jtag_uart_scheme) \<Rightarrow> nat \<Rightarrow> 'a jtag_uart_scheme \<Rightarrow>
     u8 list \<times> u32 \<times> 'a jtag_uart_scheme" where
  "uart_read_avail intr space r =
     (let inn = rx_in r; out = rx_out r;
          n = unat (if inn \<ge> out then inn - out else BUF_LEN - out)
      in if n = 0 \<or> space = 0 then ([], inn, r)
         else
           let n1 = min n space;
               r1 = intr r;
               bytes = take n1 (drop (unat out) (rx_buf r1));
               r2 = intr r1;
               r3 = r2\<lparr>rx_out := (out + of_nat n1) mod BUF_LEN\<rparr>;
               (bs, inn', r4) = (if space - n1 > 0 then uart_read_avail intr (space - n1) r3 else ([], inn, r3))
           in (bytes @ bs, inn', r4))"
  by pat_completeness auto
termination by (relation "measure (\<lambda>(_, space, _). space)") auto

declare uart_read_avail.simps [simp del]

partial_function (option) uart_spin_rx ::
  "('a jtag_uart_scheme \<Rightarrow> 'a jtag_uart_scheme) \<Rightarrow> u32 \<Rightarrow> 'a jtag_uart_scheme \<Rightarrow> 'a jtag_uart_scheme option" where
  "uart_spin_rx intr inn r =
     (if inn = rx_in r \<and> host_inactive r < ju_timeout r then uart_spin_rx intr inn (intr r) else Some r)"

text \<open>The outer loop, for \<open>space > 0\<close>; the result is empty when nothing could be read.\<close>

partial_function (option) uart_read_loop ::
  "('a jtag_uart_scheme \<Rightarrow> 'a jtag_uart_scheme) \<Rightarrow> ('a jtag_uart_scheme \<Rightarrow> 'a jtag_uart_scheme) \<Rightarrow>
     nat \<Rightarrow> u32 \<Rightarrow> 'a jtag_uart_scheme \<Rightarrow> (u8 list \<times> 'a jtag_uart_scheme) option" where
  "uart_read_loop intr others space flags r =
     (let (bytes, inn, r1) = uart_read_avail intr space r
      in if bytes \<noteq> [] then Some (bytes, r1)
         else if flags AND O_NONBLOCK \<noteq> 0 then Some ([], r1)
         else
           case (if OSRunning (os r1)
                 then Some (alt_flag_pend others (ju_events r1) (READ_RDY OR UART_TIMEOUT)
                              (OS_FLAG_WAIT_SET_ANY + OS_FLAG_CONSUME) (intr r1))
                 else uart_spin_rx intr inn r1) of
             None \<Rightarrow> None
           | Some r2 \<Rightarrow> if inn = rx_in r2 then Some ([], r2) else uart_read_loop intr others space flags r2)"

definition altera_avalon_jtag_uart_read ::
  "('a jtag_uart_scheme \<Rightarrow> 'a jtag_uart_scheme) \<Rightarrow> ('a jtag_uart_scheme \<Rightarrow> 'a jtag_uart_scheme) \<Rightarrow>
     int \<Rightarrow> u32 \<Rightarrow> 'a jtag_uart_scheme \<Rightarrow> ((errno + u8 list) \<times> 'a jtag_uart_scheme) option" where
  "altera_avalon_jtag_uart_read intr others space flags r =
     (let r1 = alt_sem_pend others (read_lock r) r
      in case (if space > 0 then uart_read_loop intr others (nat space) flags r1 else Some ([], r1)) of
           None \<Rightarrow> None
         | Some (bytes, r2) \<Rightarrow>
             let r3 = alt_sem_post others (read_lock r2) r2;
                 r4 = (if bytes \<noteq> [] then uart_irq_on CONTROL_RE r3 else r3)
             in Some (if bytes \<noteq> [] then Inr bytes
                      else Inl (if flags AND O_NONBLOCK \<noteq> 0 then EWOULDBLOCK else EIO), r4))"

section \<open>Writing\<close>

text \<open>The inner loop: the bytes left, the last value of \<^verbatim>\<open>out\<close>, the state.\<close>

function uart_write_avail ::
  "('a jtag_uart_scheme \<Rightarrow> 'a jtag_uart_scheme) \<Rightarrow> u8 list \<Rightarrow> u32 \<Rightarrow> 'a jtag_uart_scheme \<Rightarrow>
     u8 list \<times> u32 \<times> 'a jtag_uart_scheme" where
  "uart_write_avail intr bytes out0 r =
     (if bytes = [] then ([], out0, r)
      else
        let inn = tx_in r; out = tx_out r;
            n = unat (if inn < out then out - 1 - inn
                      else if out > 0 then BUF_LEN - inn else BUF_LEN - 1 - inn)
        in if n = 0 then (bytes, out, r)
           else
             let n1 = min n (length bytes);
                 r1 = intr r;
                 r2 = r1\<lparr>tx_buf := take (unat inn) (tx_buf r1) @ take n1 bytes @ drop (unat inn + n1) (tx_buf r1)\<rparr>;
                 r3 = intr r2
             in uart_write_avail intr (drop n1 bytes) out (r3\<lparr>tx_in := (inn + of_nat n1) mod BUF_LEN\<rparr>))"
  by pat_completeness auto
termination by (relation "measure (\<lambda>(_, bytes, _). length bytes)") auto

declare uart_write_avail.simps [simp del]

partial_function (option) uart_spin_tx ::
  "('a jtag_uart_scheme \<Rightarrow> 'a jtag_uart_scheme) \<Rightarrow> u32 \<Rightarrow> 'a jtag_uart_scheme \<Rightarrow> 'a jtag_uart_scheme option" where
  "uart_spin_tx intr out r =
     (if out = tx_out r \<and> host_inactive r < ju_timeout r then uart_spin_tx intr out (intr r) else Some r)"

text \<open>The outer loop: the bytes that were not taken.\<close>

partial_function (option) uart_write_loop ::
  "('a jtag_uart_scheme \<Rightarrow> 'a jtag_uart_scheme) \<Rightarrow> ('a jtag_uart_scheme \<Rightarrow> 'a jtag_uart_scheme) \<Rightarrow>
     u8 list \<Rightarrow> u32 \<Rightarrow> u32 \<Rightarrow> 'a jtag_uart_scheme \<Rightarrow> (u8 list \<times> 'a jtag_uart_scheme) option" where
  "uart_write_loop intr others bytes out0 flags r =
     (let (left, out, r1) = uart_write_avail intr bytes out0 r;
          r2 = intr (uart_irq_on CONTROL_WE r1)
      in if left = [] then Some ([], r2)
         else if flags AND O_NONBLOCK \<noteq> 0 then Some (left, r2)
         else
           case (if OSRunning (os r2)
                 then Some (alt_flag_pend others (ju_events r2) (WRITE_RDY OR UART_TIMEOUT)
                              (OS_FLAG_WAIT_SET_ANY + OS_FLAG_CONSUME) r2)
                 else uart_spin_tx intr out r2) of
             None \<Rightarrow> None
           | Some r3 \<Rightarrow> if out = tx_out r3 then Some (left, r3) else uart_write_loop intr others left out flags r3)"

text \<open>The result: the error, or how many bytes were taken.\<close>

definition altera_avalon_jtag_uart_write ::
  "('a jtag_uart_scheme \<Rightarrow> 'a jtag_uart_scheme) \<Rightarrow> ('a jtag_uart_scheme \<Rightarrow> 'a jtag_uart_scheme) \<Rightarrow>
     u8 list \<Rightarrow> u32 \<Rightarrow> 'a jtag_uart_scheme \<Rightarrow> ((errno + nat) \<times> 'a jtag_uart_scheme) option" where
  "altera_avalon_jtag_uart_write intr others bytes flags r =
     (let r1 = alt_sem_pend others (write_lock r) r
      in case uart_write_loop intr others bytes 0 flags r1 of
           None \<Rightarrow> None
         | Some (left, r2) \<Rightarrow>
             let r3 = alt_sem_post others (write_lock r2) r2;
                 n = length bytes - length left
             in Some (if n > 0 then Inr n
                      else Inl (if flags AND O_NONBLOCK \<noteq> 0 then EWOULDBLOCK else EIO), r3))"

section \<open>The other entries\<close>

abbreviation (input) TIOCSTIMEOUT :: u32 where "TIOCSTIMEOUT \<equiv> 0x6a01"
abbreviation (input) TIOCGCONNECTED :: u32 where "TIOCGCONNECTED \<equiv> 0x6a02"

text \<open>\<open>arg\<close> is the value the pointer leads to, part of the result when the code writes to it.\<close>

definition altera_avalon_jtag_uart_ioctl ::
  "u32 \<Rightarrow> u32 \<Rightarrow> 'a jtag_uart_scheme \<Rightarrow> (errno + u32) \<times> 'a jtag_uart_scheme" where
  "altera_avalon_jtag_uart_ioctl req arg r =
     (if req = TIOCSTIMEOUT then
        if ju_timeout r \<noteq> INT_MAX then
          (Inr arg, r\<lparr>ju_timeout := (if sint arg \<ge> 2 \<and> sint arg < sint INT_MAX then arg else INT_MAX - 1)\<rparr>)
        else (Inl ENOTTY, r)
      else if req = TIOCGCONNECTED then
        if ju_timeout r \<noteq> INT_MAX then (Inr (if host_inactive r < ju_timeout r then 1 else 0), r)
        else (Inl ENOTTY, r)
      else (Inl ENOTTY, r))"

partial_function (option) altera_avalon_jtag_uart_close ::
  "('a jtag_uart_scheme \<Rightarrow> 'a jtag_uart_scheme) \<Rightarrow> u32 \<Rightarrow> 'a jtag_uart_scheme \<Rightarrow>
     (errno option \<times> 'a jtag_uart_scheme) option" where
  "altera_avalon_jtag_uart_close intr flags r =
     (if tx_out r \<noteq> tx_in r \<and> host_inactive r < ju_timeout r then
        if flags AND O_NONBLOCK \<noteq> 0 then Some (Some EWOULDBLOCK, r)
        else altera_avalon_jtag_uart_close intr flags (intr r)
      else Some (None, r))"

text \<open>
  The start of the driver, with the addresses \<open>isr\<close> and \<open>tmo\<close> of the two routines, the number of the
  alarm in the driver's record and the pointer \<open>sp\<close> to that record.
\<close>

definition altera_avalon_jtag_uart_init ::
  "u32 \<Rightarrow> u32 \<Rightarrow> nat \<Rightarrow> ptr \<Rightarrow> u32 \<Rightarrow> 'a jtag_uart_scheme \<Rightarrow> irq_ctrl \<Rightarrow> hal_clock \<Rightarrow>
     ('a jtag_uart_scheme \<times> irq_ctrl \<times> hal_clock) option" where
  "altera_avalon_jtag_uart_init isr tmo alarm sp irq r ic clk =
     (let (grp, _, s1) = OSFlagCreate 0 True (os r);
          (rl, s2) = OSSemCreate 1 s1;
          (wl, s3) = OSSemCreate 1 s2;
          r1 = r\<lparr>os := s3, ju_events := grp, read_lock := rl, write_lock := wl, irq_enable := CONTROL_RE\<rparr>;
          r2 = IOWR (ju_base r1) UART_CONTROL_REG (irq_enable r1) r1
      in case alt_iic_isr_register irq isr sp ic of
           None \<Rightarrow> None
         | Some (_, ic1) \<Rightarrow>
             let r3 = r2\<lparr>host_inactive := 0\<rparr>;
                 (err, clk1) = alt_alarm_start (Some alarm) (alt_tick_rate clk) tmo sp clk
             in Some (if err \<noteq> None then r3\<lparr>ju_timeout := INT_MAX\<rparr> else r3, ic1, clk1))"

end
