(* ===== verification/Hal_File.thy ===== *)
theory Hal_File
  imports Hal_Uart Hal_List
begin

text \<open>
  Devices, file systems and file descriptors of the HAL (alt_dev.c, alt_open.c, alt_close.c, alt_read.c
  and the other system calls), and the console as a device (altera_avalon_jtag_uart_fd.c).
\<close>

section \<open>Data\<close>

text \<open>The nodes of the lists of devices, file systems and flash memories: their heads, and the first part
  of a device's record.\<close>

datatype dev_node = DevList | FsList | FlashList | Dev nat

record alt_fd =
  fd_dev :: "nat option"
  fd_priv :: ptr
  fd_flags :: u32

record hal_files = jtag_uart +
  dev_links :: "dev_node \<Rightarrow> dev_node alt_llist"
  alt_fd_list :: "alt_fd list"
  alt_max_fd :: u32
  alt_fd_list_lock :: ptr
  alt_errno :: "errno option"

text \<open>
  A device's callbacks, each with the number of the descriptor it is called for; \<open>None\<close> is the null
  pointer.  A negative result is an error on the left.  The devices are a table \<open>devs\<close>, apart from their lk.
\<close>

record 'a alt_dev =
  dev_name :: "u8 list option"
  dev_open :: "(nat \<Rightarrow> u8 list \<Rightarrow> u32 \<Rightarrow> u32 \<Rightarrow> 'a \<Rightarrow> ((errno + unit) \<times> 'a) option) option"
  dev_close :: "(nat \<Rightarrow> 'a \<Rightarrow> ((errno + unit) \<times> 'a) option) option"
  dev_read :: "(nat \<Rightarrow> int \<Rightarrow> 'a \<Rightarrow> ((errno + u8 list) \<times> 'a) option) option"
  dev_write :: "(nat \<Rightarrow> u8 list \<Rightarrow> 'a \<Rightarrow> ((errno + nat) \<times> 'a) option) option"
  dev_lseek :: "(nat \<Rightarrow> int \<Rightarrow> int \<Rightarrow> 'a \<Rightarrow> ((errno + int) \<times> 'a) option) option"
  dev_fstat :: "(nat \<Rightarrow> 'a \<Rightarrow> ((errno + u32) \<times> 'a) option) option"
  dev_ioctl :: "(nat \<Rightarrow> u32 \<Rightarrow> u32 \<Rightarrow> 'a \<Rightarrow> ((errno + u32) \<times> 'a) option) option"

abbreviation (input) ALT_MAX_FD :: nat where "ALT_MAX_FD \<equiv> 32"
abbreviation (input) ALT_FD_EXCL :: u32 where "ALT_FD_EXCL \<equiv> 0x80000000"
abbreviation (input) ALT_FD_DEV :: u32 where "ALT_FD_DEV \<equiv> 0x40000000"
abbreviation (input) ALT_FD_FLAGS_MASK :: u32 where "ALT_FD_FLAGS_MASK \<equiv> 0xC0000000"
abbreviation (input) O_RDONLY :: u32 where "O_RDONLY \<equiv> 0"
abbreviation (input) O_WRONLY :: u32 where "O_WRONLY \<equiv> 1"
abbreviation (input) O_ACCMODE :: u32 where "O_ACCMODE \<equiv> 3"
abbreviation (input) TIOCEXCL :: u32 where "TIOCEXCL \<equiv> 0x740d"
abbreviation (input) TIOCNXCL :: u32 where "TIOCNXCL \<equiv> 0x740e"
abbreviation (input) IFCHR :: u32 where "IFCHR \<equiv> 0x2000"

definition upd_fd :: "nat \<Rightarrow> (alt_fd \<Rightarrow> alt_fd) \<Rightarrow> 'a hal_files_scheme \<Rightarrow> 'a hal_files_scheme" where
  "upd_fd i f r = r\<lparr>alt_fd_list := (alt_fd_list r)[i := f (alt_fd_list r ! i)]\<rparr>"

text \<open>An error is left in \<^verbatim>\<open>errno\<close>, and the call returns -1 (or the error's negative, where the code does).\<close>

definition set_errno :: "errno + 'b \<Rightarrow> 'a hal_files_scheme \<Rightarrow> 'a hal_files_scheme" where
  "set_errno res r = (case res of Inl e \<Rightarrow> r\<lparr>alt_errno := Some e\<rparr> | Inr _ \<Rightarrow> r)"

section \<open>Registering and finding devices\<close>

text \<open>\<open>nm\<close> is \<open>None\<close> for a null pointer, else the name in the record, which may be a null pointer again.\<close>

definition alt_dev_llist_insert ::
  "u8 list option option \<Rightarrow> nat \<Rightarrow> dev_node \<Rightarrow> 'a hal_files_scheme \<Rightarrow> (errno + unit) \<times> 'a hal_files_scheme" where
  "alt_dev_llist_insert nm d head r =
     (if nm = None \<or> the nm = None then (Inl EINVAL, r\<lparr>alt_errno := Some EINVAL\<rparr>)
      else (Inr (), r\<lparr>dev_links := alt_llist_insert head (Dev d) (dev_links r)\<rparr>))"

definition alt_dev_reg ::
  "'w alt_dev option \<Rightarrow> nat \<Rightarrow> 'a hal_files_scheme \<Rightarrow> (errno + unit) \<times> 'a hal_files_scheme" where
  "alt_dev_reg dev d r = alt_dev_llist_insert (map_option dev_name dev) d DevList r"

definition alt_fs_reg :: "'w alt_dev \<Rightarrow> nat \<Rightarrow> 'a hal_files_scheme \<Rightarrow> (errno + unit) \<times> 'a hal_files_scheme" where
  "alt_fs_reg dev d r =
     (if dev_name dev = None then (Inl ENODEV, r)
      else (Inr (), r\<lparr>dev_links := alt_llist_insert FsList (Dev d) (dev_links r)\<rparr>))"

text \<open>
  Names are C strings without their final zero; \<^verbatim>\<open>memcmp\<close> of the first \<open>n\<close> bytes of two strings, which
  differ at the latest where the shorter one has its zero.
\<close>

definition mem_eq :: "nat \<Rightarrow> u8 list \<Rightarrow> u8 list \<Rightarrow> bool" where
  "mem_eq n xs ys \<longleftrightarrow> take n (xs @ [0]) = take n (ys @ [0]) \<and> n \<le> length xs + 1 \<and> n \<le> length ys + 1"

partial_function (option) find_dev_walk ::
  "(nat \<Rightarrow> u8 list option) \<Rightarrow> (dev_node \<Rightarrow> dev_node alt_llist) \<Rightarrow> u8 list \<Rightarrow> nat \<Rightarrow> dev_node \<Rightarrow> dev_node \<Rightarrow>
     nat option option" where
  "find_dev_walk names lk name len head node =
     (if node = head then Some None
      else
        case node of
          Dev d \<Rightarrow>
            (case names d of
               None \<Rightarrow> None
             | Some dn \<Rightarrow>
                 if mem_eq len dn name then Some (Some d)
                 else find_dev_walk names lk name len head (ll_next (lk node)))
        | _ \<Rightarrow> None)"

definition alt_find_dev ::
  "(nat \<Rightarrow> u8 list option) \<Rightarrow> u8 list \<Rightarrow> dev_node \<Rightarrow> 'a hal_files_scheme \<Rightarrow> nat option option" where
  "alt_find_dev names name llist r =
     (let node = ll_next (dev_links r llist); len = length name + 1
      in find_dev_walk names (dev_links r) name len llist node)"

text \<open>
  The test whether a file lies in a file system.  With a longer mount point the code reads behind the end
  of the file's name, but the comparison fails whatever is there; an empty mount point is read in front of
  its start, which is \<open>None\<close>.
\<close>

abbreviation (input) slash :: u8 where "slash \<equiv> 47"

definition fs_owns :: "u8 list \<Rightarrow> u8 list \<Rightarrow> bool option" where
  "fs_owns fs name =
     (if fs = [] then None
      else
        let len = length fs;
            len1 = (if fs ! (len - 1) = slash then len - 1 else len)
        in Some (len1 \<le> length name \<and> ((name @ [0]) ! len1 = slash \<or> (name @ [0]) ! len1 = 0) \<and>
                 mem_eq len1 fs name))"

partial_function (option) find_file_walk ::
  "(nat \<Rightarrow> 'w alt_dev) \<Rightarrow> (dev_node \<Rightarrow> dev_node alt_llist) \<Rightarrow> u8 list \<Rightarrow> dev_node \<Rightarrow> nat option option" where
  "find_file_walk devs lk name node =
     (if node = FsList then Some None
      else
        case node of
          Dev d \<Rightarrow>
            (case dev_name (devs d) of
               None \<Rightarrow> None
             | Some dn \<Rightarrow>
                 (case fs_owns dn name of
                    None \<Rightarrow> None
                  | Some b \<Rightarrow>
                      if b then Some (Some d) else find_file_walk devs lk name (ll_next (lk node))))
        | _ \<Rightarrow> None)"

definition alt_find_file :: "(nat \<Rightarrow> 'w alt_dev) \<Rightarrow> u8 list \<Rightarrow> 'a hal_files_scheme \<Rightarrow> nat option option" where
  "alt_find_file devs name r = find_file_walk devs (dev_links r) name (ll_next (dev_links r FsList))"

section \<open>The descriptor table\<close>

text \<open>The loop of \<^verbatim>\<open>alt_get_fd\<close>, \<open>n\<close> rounds from \<open>i\<close> on.\<close>

fun get_fd_loop :: "nat \<Rightarrow> nat \<Rightarrow> nat \<Rightarrow> 'a hal_files_scheme \<Rightarrow> (errno + nat) \<times> 'a hal_files_scheme" where
  "get_fd_loop 0 i dev r = (Inl EMFILE, r)"
| "get_fd_loop (Suc n) i dev r =
     (if fd_dev (alt_fd_list r ! i) = None then
        let r1 = upd_fd i (\<lambda>fd. fd\<lparr>fd_dev := Some dev\<rparr>) r
        in (Inr i, if int i > sint (alt_max_fd r1) then r1\<lparr>alt_max_fd := of_nat i\<rparr> else r1)
      else get_fd_loop n (i + 1) dev r)"

definition alt_get_fd ::
  "('a hal_files_scheme \<Rightarrow> 'a hal_files_scheme) \<Rightarrow> nat \<Rightarrow> 'a hal_files_scheme \<Rightarrow>
     (errno + nat) \<times> 'a hal_files_scheme" where
  "alt_get_fd others dev r =
     (let r1 = alt_sem_pend others (alt_fd_list_lock r) r;
          (rc, r2) = get_fd_loop ALT_MAX_FD 0 dev r1
      in (rc, alt_sem_post others (alt_fd_list_lock r2) r2))"

text \<open>\<open>None\<close> here and below: an access outside the table, or through a descriptor without device.\<close>

definition alt_release_fd :: "int \<Rightarrow> 'a hal_files_scheme \<Rightarrow> 'a hal_files_scheme option" where
  "alt_release_fd fd r =
     (if fd > 2 then
        if nat fd < length (alt_fd_list r)
        then Some (upd_fd (nat fd) (\<lambda>f. f\<lparr>fd_flags := 0, fd_dev := None\<rparr>) r)
        else None
      else Some r)"

text \<open>
  The loop of \<^verbatim>\<open>alt_file_locked\<close> compares with \<^verbatim>\<open>alt_max_fd\<close> as an unsigned number, that of \<^verbatim>\<open>alt_fd_lock\<close>
  as a signed one, and stops in front of it.
\<close>

function file_locked_loop :: "nat \<Rightarrow> nat \<Rightarrow> 'a hal_files_scheme \<Rightarrow> bool option" where
  "file_locked_loop fd i r =
     (if i \<le> unat (alt_max_fd r) then
        if i \<ge> length (alt_fd_list r) then None
        else if fd_dev (alt_fd_list r ! i) = fd_dev (alt_fd_list r ! fd) \<and>
          fd_flags (alt_fd_list r ! i) AND ALT_FD_EXCL \<noteq> 0 \<and> i \<noteq> fd then Some True
        else file_locked_loop fd (i + 1) r
      else Some False)"
  by pat_completeness auto
termination by (relation "measure (\<lambda>(_, i, r). unat (alt_max_fd r) + 1 - i)") auto

declare file_locked_loop.simps [simp del]

definition alt_file_locked :: "nat \<Rightarrow> 'a hal_files_scheme \<Rightarrow> ((errno + unit) \<times> 'a hal_files_scheme) option" where
  "alt_file_locked fd r =
     (let r1 = upd_fd fd (\<lambda>f. f\<lparr>fd_flags := fd_flags f OR ALT_FD_DEV\<rparr>) r
      in map_option (\<lambda>b. (if b then Inl EACCES else Inr (), r1)) (file_locked_loop fd 0 r1))"

function fd_lock_loop :: "nat \<Rightarrow> nat \<Rightarrow> 'a hal_files_scheme \<Rightarrow> bool option" where
  "fd_lock_loop fd i r =
     (if int i < sint (alt_max_fd r) then
        if i \<ge> length (alt_fd_list r) then None
        else if i \<noteq> fd \<and> fd_dev (alt_fd_list r ! i) = fd_dev (alt_fd_list r ! fd) then Some True
        else fd_lock_loop fd (i + 1) r
      else Some False)"
  by pat_completeness auto
termination by (relation "measure (\<lambda>(_, i, r). nat (sint (alt_max_fd r)) - i)") auto

declare fd_lock_loop.simps [simp del]

definition alt_fd_lock ::
  "('a hal_files_scheme \<Rightarrow> 'a hal_files_scheme) \<Rightarrow> nat \<Rightarrow> 'a hal_files_scheme \<Rightarrow>
     ((errno + unit) \<times> 'a hal_files_scheme) option" where
  "alt_fd_lock others fd r =
     (let r1 = alt_sem_pend others (alt_fd_list_lock r) r
      in map_option
        (\<lambda>b. let r2 = (if b then r1 else upd_fd fd (\<lambda>f. f\<lparr>fd_flags := fd_flags f OR ALT_FD_EXCL\<rparr>) r1)
              in (if b then Inl EACCES else Inr (), alt_sem_post others (alt_fd_list_lock r2) r2))
        (fd_lock_loop fd 0 r1))"

definition alt_fd_unlock :: "nat \<Rightarrow> 'a hal_files_scheme \<Rightarrow> (errno + unit) \<times> 'a hal_files_scheme" where
  "alt_fd_unlock fd r = (Inr (), upd_fd fd (\<lambda>f. f\<lparr>fd_flags := fd_flags f AND NOT ALT_FD_EXCL\<rparr>) r)"

section \<open>The system calls\<close>

text \<open>The descriptor's device; \<open>None\<close> outside the table and for a free descriptor.\<close>

definition dev_of_fd :: "(nat \<Rightarrow> 'w alt_dev) \<Rightarrow> int \<Rightarrow> 'a hal_files_scheme \<Rightarrow> 'w alt_dev option" where
  "dev_of_fd devs fd r =
     (if nat fd < length (alt_fd_list r) then map_option devs (fd_dev (alt_fd_list r ! nat fd)) else None)"

type_synonym 'w devices = "nat \<Rightarrow> 'w alt_dev"

definition alt_open ::
  "('a hal_files_scheme \<Rightarrow> 'a hal_files_scheme) \<Rightarrow> 'a hal_files_scheme devices \<Rightarrow>
     u8 list \<Rightarrow> u32 \<Rightarrow> u32 \<Rightarrow> 'a hal_files_scheme \<Rightarrow> ((errno + nat) \<times> 'a hal_files_scheme) option" where
  "alt_open others devs file flags mode r =
     (case (case alt_find_dev (\<lambda>d. dev_name (devs d)) file DevList r of
              None \<Rightarrow> None
            | Some (Some d) \<Rightarrow> Some (Some d, False)
            | Some None \<Rightarrow> map_option (\<lambda>dev. (dev, True)) (alt_find_file devs file r)) of
        None \<Rightarrow> None
      | Some (None, _) \<Rightarrow> Some (Inl ENODEV, r\<lparr>alt_errno := Some ENODEV\<rparr>)
      | Some (Some dev, isafs) \<Rightarrow>
          (case alt_get_fd others dev r of
             (Inl e, r1) \<Rightarrow> Some (Inl e, r1\<lparr>alt_errno := Some e\<rparr>)
           | (Inr i, r1) \<Rightarrow>
               let r2 = upd_fd i (\<lambda>fd. fd\<lparr>fd_flags := flags AND NOT ALT_FD_FLAGS_MASK\<rparr>) r1
               in case (case (if isafs then Some (Inr (), r2) else alt_file_locked i r2) of
                          None \<Rightarrow> None
                        | Some (Inl e, r3) \<Rightarrow> Some (Inl e, r3)
                        | Some (Inr _, r3) \<Rightarrow>
                            (case dev_open (devs dev) of
                               None \<Rightarrow> Some (Inr (), r3)
                             | Some f \<Rightarrow> f i file flags mode r3)) of
                    None \<Rightarrow> None
                  | Some (Inl e, r4) \<Rightarrow>
                      map_option (\<lambda>r5. (Inl e, r5\<lparr>alt_errno := Some e\<rparr>)) (alt_release_fd (int i) r4)
                  | Some (Inr _, r4) \<Rightarrow> Some (Inr i, r4)))"

definition alt_close ::
  "'a hal_files_scheme devices \<Rightarrow> int \<Rightarrow> 'a hal_files_scheme \<Rightarrow> ((errno + unit) \<times> 'a hal_files_scheme) option" where
  "alt_close devs fildes r =
     (if fildes < 0 then Some (Inl EBADFD, r\<lparr>alt_errno := Some EBADFD\<rparr>)
      else
        case dev_of_fd devs fildes r of
          None \<Rightarrow> None
        | Some dev \<Rightarrow>
            (case (case dev_close dev of None \<Rightarrow> Some (Inr (), r) | Some f \<Rightarrow> f (nat fildes) r) of
               None \<Rightarrow> None
             | Some (rval, r1) \<Rightarrow> map_option (\<lambda>r2. (rval, set_errno rval r2)) (alt_release_fd fildes r1)))"

definition alt_read ::
  "'a hal_files_scheme devices \<Rightarrow> int \<Rightarrow> int \<Rightarrow> 'a hal_files_scheme \<Rightarrow>
     ((errno + u8 list) \<times> 'a hal_files_scheme) option" where
  "alt_read devs file len r =
     (if file < 0 then Some (Inl EBADFD, r\<lparr>alt_errno := Some EBADFD\<rparr>)
      else
        case dev_of_fd devs file r of
          None \<Rightarrow> None
        | Some dev \<Rightarrow>
            (case (if fd_flags (alt_fd_list r ! nat file) AND O_ACCMODE \<noteq> O_WRONLY then dev_read dev else None) of
               None \<Rightarrow> Some (Inl EACCES, r\<lparr>alt_errno := Some EACCES\<rparr>)
             | Some f \<Rightarrow> map_option (\<lambda>(rval, r1). (rval, set_errno rval r1)) (f (nat file) len r)))"

definition alt_write ::
  "'a hal_files_scheme devices \<Rightarrow> int \<Rightarrow> u8 list \<Rightarrow> 'a hal_files_scheme \<Rightarrow>
     ((errno + nat) \<times> 'a hal_files_scheme) option" where
  "alt_write devs file bytes r =
     (if file < 0 then Some (Inl EBADFD, r\<lparr>alt_errno := Some EBADFD\<rparr>)
      else
        case dev_of_fd devs file r of
          None \<Rightarrow> None
        | Some dev \<Rightarrow>
            (case (if fd_flags (alt_fd_list r ! nat file) AND O_ACCMODE \<noteq> O_RDONLY then dev_write dev else None) of
               None \<Rightarrow> Some (Inl EACCES, r\<lparr>alt_errno := Some EACCES\<rparr>)
             | Some f \<Rightarrow> map_option (\<lambda>(rval, r1). (rval, set_errno rval r1)) (f (nat file) bytes r)))"

definition alt_lseek ::
  "'a hal_files_scheme devices \<Rightarrow> int \<Rightarrow> int \<Rightarrow> int \<Rightarrow> 'a hal_files_scheme \<Rightarrow>
     ((errno + int) \<times> 'a hal_files_scheme) option" where
  "alt_lseek devs file pos dir r =
     map_option (\<lambda>(rc, r1). (rc, set_errno rc r1))
       (if file < 0 then Some (Inl EBADFD, r)
        else
          case dev_of_fd devs file r of
            None \<Rightarrow> None
          | Some dev \<Rightarrow>
              (case dev_lseek dev of None \<Rightarrow> Some (Inl ENOTSUP, r) | Some f \<Rightarrow> f (nat file) pos dir r))"

text \<open>\<open>arg\<close> is the value behind the pointer, after the call where the driver writes to it.\<close>

definition alt_ioctl ::
  "('a hal_files_scheme \<Rightarrow> 'a hal_files_scheme) \<Rightarrow> 'a hal_files_scheme devices \<Rightarrow>
     int \<Rightarrow> u32 \<Rightarrow> u32 \<Rightarrow> 'a hal_files_scheme \<Rightarrow> ((errno + u32) \<times> 'a hal_files_scheme) option" where
  "alt_ioctl others devs file req arg r =
     map_option (\<lambda>(rc, r1). (rc, set_errno rc r1))
       (if file < 0 then Some (Inl EBADFD, r)
        else if nat file \<ge> length (alt_fd_list r) then None
        else
          let dev = fd_flags (alt_fd_list r ! nat file) AND ALT_FD_DEV \<noteq> 0
          in if dev \<and> req = TIOCEXCL then
               map_option (\<lambda>(rc, r1). (map_sum (\<lambda>e. e) (\<lambda>_. arg) rc, r1)) (alt_fd_lock others (nat file) r)
             else if dev \<and> req = TIOCNXCL then Some (Inr arg, snd (alt_fd_unlock (nat file) r))
             else
               case dev_of_fd devs file r of
                 None \<Rightarrow> None
               | Some dev \<Rightarrow>
                   (case dev_ioctl dev of None \<Rightarrow> Some (Inl ENOTTY, r) | Some f \<Rightarrow> f (nat file) req arg r))"

text \<open>The result is the field \<^verbatim>\<open>st_mode\<close>.\<close>

definition alt_fstat ::
  "'a hal_files_scheme devices \<Rightarrow> int \<Rightarrow> 'a hal_files_scheme \<Rightarrow> ((errno + u32) \<times> 'a hal_files_scheme) option" where
  "alt_fstat devs file r =
     (if file < 0 then Some (Inl EBADFD, r\<lparr>alt_errno := Some EBADFD\<rparr>)
      else
        case dev_of_fd devs file r of
          None \<Rightarrow> None
        | Some dev \<Rightarrow> (case dev_fstat dev of None \<Rightarrow> Some (Inr IFCHR, r) | Some f \<Rightarrow> f (nat file) r))"

text \<open>A failing driver leaves the mode unset, and the comparison reads a variable that has no value.\<close>

definition alt_isatty ::
  "'a hal_files_scheme devices \<Rightarrow> int \<Rightarrow> 'a hal_files_scheme \<Rightarrow> (bool \<times> 'a hal_files_scheme) option" where
  "alt_isatty devs file r =
     (if file < 0 then Some (False, r\<lparr>alt_errno := Some EBADFD\<rparr>)
      else
        case dev_of_fd devs file r of
          None \<Rightarrow> None
        | Some dev \<Rightarrow>
            if dev_fstat dev = None then Some (True, r)
            else
              (case alt_fstat devs file r of
                 Some (Inr md, r1) \<Rightarrow> Some (md = IFCHR, r1)
               | _ \<Rightarrow> None))"

abbreviation (input) F_GETFL :: u32 where "F_GETFL \<equiv> 3"
abbreviation (input) F_SETFL :: u32 where "F_SETFL \<equiv> 4"
abbreviation (input) ALT_FCNTL_FLAGS_MASK :: u32 where "ALT_FCNTL_FLAGS_MASK \<equiv> 0x4008"

definition alt_fcntl ::
  "int \<Rightarrow> u32 \<Rightarrow> u32 \<Rightarrow> 'a hal_files_scheme \<Rightarrow> ((errno + u32) \<times> 'a hal_files_scheme) option" where
  "alt_fcntl file cmd flags r =
     (if file < 0 then Some (Inl EBADFD, r\<lparr>alt_errno := Some EBADFD\<rparr>)
      else if nat file \<ge> length (alt_fd_list r) then None
      else if cmd = F_GETFL then Some (Inr (fd_flags (alt_fd_list r ! nat file) AND NOT ALT_FD_FLAGS_MASK), r)
      else if cmd = F_SETFL then
        Some (Inr 0, upd_fd (nat file)
          (\<lambda>fd. fd\<lparr>fd_flags := (fd_flags fd AND NOT ALT_FCNTL_FLAGS_MASK) OR (flags AND ALT_FCNTL_FLAGS_MASK)\<rparr>) r)
      else Some (Inl EINVAL, r\<lparr>alt_errno := Some EINVAL\<rparr>))"

section \<open>Standard input and output\<close>

definition alt_open_fd ::
  "('a hal_files_scheme \<Rightarrow> 'a hal_files_scheme) \<Rightarrow> 'a hal_files_scheme devices \<Rightarrow>
     nat \<Rightarrow> u8 list \<Rightarrow> u32 \<Rightarrow> u32 \<Rightarrow> 'a hal_files_scheme \<Rightarrow> 'a hal_files_scheme option" where
  "alt_open_fd others devs fd name flags mode r =
     (case alt_open others devs name flags mode r of
        None \<Rightarrow> None
      | Some (Inl _, r1) \<Rightarrow> Some r1
      | Some (Inr old, r1) \<Rightarrow>
          let r2 = upd_fd fd (\<lambda>f. f\<lparr>fd_dev := fd_dev (alt_fd_list r1 ! old)\<rparr>) r1;
              r3 = upd_fd fd (\<lambda>f. f\<lparr>fd_priv := fd_priv (alt_fd_list r2 ! old)\<rparr>) r2;
              r4 = upd_fd fd (\<lambda>f. f\<lparr>fd_flags := fd_flags (alt_fd_list r3 ! old)\<rparr>) r3
          in alt_release_fd (int old) r4)"

definition alt_io_redirect ::
  "('a hal_files_scheme \<Rightarrow> 'a hal_files_scheme) \<Rightarrow> 'a hal_files_scheme devices \<Rightarrow>
     u8 list \<Rightarrow> u8 list \<Rightarrow> u8 list \<Rightarrow> 'a hal_files_scheme \<Rightarrow> 'a hal_files_scheme option" where
  "alt_io_redirect others devs stdout_dev stdin_dev stderr_dev r =
     (case alt_open_fd others devs 1 stdout_dev O_WRONLY 0x1FF r of
        None \<Rightarrow> None
      | Some r1 \<Rightarrow>
          (case alt_open_fd others devs 0 stdin_dev O_RDONLY 0x1FF r1 of
             None \<Rightarrow> None
           | Some r2 \<Rightarrow> alt_open_fd others devs 2 stderr_dev O_WRONLY 0x1FF r2))"

section \<open>The null device and the console\<close>

definition alt_dev_null_write ::
  "nat \<Rightarrow> u8 list \<Rightarrow> 'a hal_files_scheme \<Rightarrow> ((errno + nat) \<times> 'a hal_files_scheme) option" where
  "alt_dev_null_write fd bytes r = Some (Inr (length bytes), r)"

abbreviation (input) c_string :: "string \<Rightarrow> u8 list" where "c_string s \<equiv> map of_char s"

definition alt_dev_null :: "'a hal_files_scheme alt_dev" where
  "alt_dev_null = \<lparr>dev_name = Some (c_string ''/dev/null''), dev_open = None, dev_close = None, dev_read = None,
     dev_write = Some alt_dev_null_write, dev_lseek = None, dev_fstat = None, dev_ioctl = None\<rparr>"

definition altera_avalon_jtag_uart_read_fd ::
  "('a hal_files_scheme \<Rightarrow> 'a hal_files_scheme) \<Rightarrow> ('a hal_files_scheme \<Rightarrow> 'a hal_files_scheme) \<Rightarrow>
     nat \<Rightarrow> int \<Rightarrow> 'a hal_files_scheme \<Rightarrow> ((errno + u8 list) \<times> 'a hal_files_scheme) option" where
  "altera_avalon_jtag_uart_read_fd intr others fd space r =
     altera_avalon_jtag_uart_read intr others space (fd_flags (alt_fd_list r ! fd)) r"

definition altera_avalon_jtag_uart_write_fd ::
  "('a hal_files_scheme \<Rightarrow> 'a hal_files_scheme) \<Rightarrow> ('a hal_files_scheme \<Rightarrow> 'a hal_files_scheme) \<Rightarrow>
     nat \<Rightarrow> u8 list \<Rightarrow> 'a hal_files_scheme \<Rightarrow> ((errno + nat) \<times> 'a hal_files_scheme) option" where
  "altera_avalon_jtag_uart_write_fd intr others fd bytes r =
     altera_avalon_jtag_uart_write intr others bytes (fd_flags (alt_fd_list r ! fd)) r"

definition altera_avalon_jtag_uart_close_fd ::
  "('a hal_files_scheme \<Rightarrow> 'a hal_files_scheme) \<Rightarrow> nat \<Rightarrow> 'a hal_files_scheme \<Rightarrow>
     ((errno + unit) \<times> 'a hal_files_scheme) option" where
  "altera_avalon_jtag_uart_close_fd intr fd r =
     map_option (\<lambda>(e, r1). (case e of None \<Rightarrow> Inr () | Some err \<Rightarrow> Inl err, r1))
       (altera_avalon_jtag_uart_close intr (fd_flags (alt_fd_list r ! fd)) r)"

definition altera_avalon_jtag_uart_ioctl_fd ::
  "nat \<Rightarrow> u32 \<Rightarrow> u32 \<Rightarrow> 'a hal_files_scheme \<Rightarrow> ((errno + u32) \<times> 'a hal_files_scheme) option" where
  "altera_avalon_jtag_uart_ioctl_fd fd req arg r = Some (altera_avalon_jtag_uart_ioctl req arg r)"

definition jtag_uart_dev ::
  "('a hal_files_scheme \<Rightarrow> 'a hal_files_scheme) \<Rightarrow> ('a hal_files_scheme \<Rightarrow> 'a hal_files_scheme) \<Rightarrow>
     'a hal_files_scheme alt_dev" where
  "jtag_uart_dev intr others = \<lparr>dev_name = Some (c_string ''/dev/jtag_uart''), dev_open = None,
     dev_close = Some (altera_avalon_jtag_uart_close_fd intr),
     dev_read = Some (altera_avalon_jtag_uart_read_fd intr others),
     dev_write = Some (altera_avalon_jtag_uart_write_fd intr others),
     dev_lseek = None, dev_fstat = None, dev_ioctl = Some altera_avalon_jtag_uart_ioctl_fd\<rparr>"

end
