(* ===== verification/Hal_Console.thy ===== *)
theory Hal_Console
  imports Hal_Uart
begin

text \<open>
  What the JTAG UART driver promises: no byte is lost, duplicated or reordered between the bus and the
  tasks, whatever interrupts come in between, and no call hangs while the kernel runs.
\<close>

section \<open>Posting from the interrupt routine\<close>

text \<open>The flag group \<open>g\<close> of the driver can be posted to.\<close>

definition events_ok :: "nat \<Rightarrow> os_state \<Rightarrow> bool" where
  "events_ok g s \<longleftrightarrow> os_wf s \<and> OSFlagType (OSFlagTbl s g) = OS_EVENT_TYPE_FLAG \<and> (\<exists>js. flag_list s g js)"

lemma FlagTaskRdy_kept:
  "OSRunning (snd (OS_FlagTaskRdy i fl s)) = OSRunning s"
  "OSFlagType (OSFlagTbl (snd (OS_FlagTaskRdy i fl s)) k) = OSFlagType (OSFlagTbl s k)"
  by (simp_all add: OS_FlagTaskRdy_def OS_FlagUnlink_def Let_def rdy_insert_def upd_tcb_def upd_flag_def upd_node_def)

lemma flag_post_loop_kept:
  "flag_post_loop n g p sched s = Some (x, s') \<Longrightarrow>
     OSRunning s' = OSRunning s \<and> OSFlagType (OSFlagTbl s' k) = OSFlagType (OSFlagTbl s k)"
proof (induction n g p sched s rule: flag_post_loop.induct)
  case (2 n g p sched s)
  then show ?case
    using FlagTaskRdy_kept [of "node_of p" _ s]
    by (auto simp: Let_def split: if_splits option.splits prod.splits) (metis snd_conv)+
qed (auto split: if_splits)

lemma upd_flag_running: "OSRunning (upd_flag g f s) = OSRunning s"
  by (simp add: upd_flag_def)

lemma OSFlagPost_kept:
  assumes "OSFlagPost grp flags opt True s = Some (x, s')"
  shows "OSRunning s' = OSRunning s" "OSFlagType (OSFlagTbl s' k) = OSFlagType (OSFlagTbl s k)"
proof -
  have "OSRunning s' = OSRunning s \<and> OSFlagType (OSFlagTbl s' k) = OSFlagType (OSFlagTbl s k)"
    using assms
    by (auto simp: OSFlagPost_def Let_def sched_flag_fields upd_flag_running
        split: if_splits option.splits dest!: flag_post_loop_kept [where k = k])
  then show "OSRunning s' = OSRunning s" "OSFlagType (OSFlagTbl s' k) = OSFlagType (OSFlagTbl s k)" by simp_all
qed

lemma alt_flag_post_ok:
  assumes ok: "OSRunning s \<longrightarrow> events_ok g s"
  obtains s' where "alt_flag_post (PFlagGrp g) flags OS_FLAG_SET s = Some s'" "OSRunning s' = OSRunning s"
    "OSRunning s' \<longrightarrow> events_ok g s'"
proof (cases "OSRunning s")
  case True
  then have e: "os_wf s" "OSFlagType (OSFlagTbl s g) = OS_EVENT_TYPE_FLAG" using ok by (simp_all add: events_ok_def)
  obtain js where l: "flag_list s g js" using ok True by (auto simp: events_ok_def)
  obtain x s' js' where p: "OSFlagPost (PFlagGrp g) flags OS_FLAG_SET True s = Some (x, s')" "os_wf s'"
    "flag_list s' g js'"
    using OSFlagPost_effect [OF e(1) l e(2) _ refl refl, of OS_FLAG_SET flags] by auto
  then show ?thesis
    using that [of s'] True OSFlagPost_kept [OF p(1)] e(2) by (auto simp: alt_flag_post_def events_ok_def)
qed (use that in \<open>simp add: alt_flag_post_def\<close>)

section \<open>What went over the bus and what is in the buffers\<close>

text \<open>The bytes received and sent through the data register, oldest first; the trace has the newest access first.\<close>

fun rx_seen :: "u32 \<Rightarrow> io_event list \<Rightarrow> u8 list" where
  "rx_seen b [] = []"
| "rx_seen b (IoRd a reg v # tr) =
     rx_seen b tr @ (if a = b \<and> reg = UART_DATA_REG \<and> v AND DATA_RVALID \<noteq> 0 then [ucast (v AND 0xFF)] else [])"
| "rx_seen b (_ # tr) = rx_seen b tr"

fun tx_sent :: "u32 \<Rightarrow> io_event list \<Rightarrow> u8 list" where
  "tx_sent b [] = []"
| "tx_sent b (IoWr a reg v # tr) = tx_sent b tr @ (if a = b \<and> reg = UART_DATA_REG then [ucast v] else [])"
| "tx_sent b (_ # tr) = tx_sent b tr"

definition rx_data :: "'a jtag_uart_scheme \<Rightarrow> u8 list" where
  "rx_data r = ring_data (rx_buf r) (unat (rx_out r)) (unat (rx_in r))"

definition tx_data :: "'a jtag_uart_scheme \<Rightarrow> u8 list" where
  "tx_data r = ring_data (tx_buf r) (unat (tx_out r)) (unat (tx_in r))"

text \<open>\<open>C\<close> has been read by the tasks so far; \<open>A\<close> has been written by them.\<close>

definition rx_inv :: "u8 list \<Rightarrow> 'a jtag_uart_scheme \<Rightarrow> bool" where
  "rx_inv C r \<longleftrightarrow> length (rx_buf r) = 2048 \<and> rx_in r < BUF_LEN \<and> rx_out r < BUF_LEN \<and>
     rx_seen (ju_base r) (trace r) = C @ rx_data r"

definition tx_inv :: "u8 list \<Rightarrow> 'a jtag_uart_scheme \<Rightarrow> bool" where
  "tx_inv A r \<longleftrightarrow> length (tx_buf r) = 2048 \<and> tx_in r < BUF_LEN \<and> tx_out r < BUF_LEN \<and>
     tx_sent (ju_base r) (trace r) @ tx_data r = A"

definition uart_fifo :: "u8 list \<Rightarrow> u8 list \<Rightarrow> 'a jtag_uart_scheme \<Rightarrow> bool" where
  "uart_fifo C A r \<longleftrightarrow> rx_inv C r \<and> tx_inv A r"

definition uart_events :: "nat \<Rightarrow> 'a jtag_uart_scheme \<Rightarrow> bool" where
  "uart_events g r \<longleftrightarrow> ju_events r = PFlagGrp g \<and> (OSRunning (os r) \<longrightarrow> events_ok g (os r))"

text \<open>What an interrupt leaves to the tasks.\<close>

definition uart_kept :: "'a jtag_uart_scheme \<Rightarrow> 'a jtag_uart_scheme \<Rightarrow> bool" where
  "uart_kept r r' \<longleftrightarrow> ju_base r' = ju_base r \<and> rx_out r' = rx_out r \<and> tx_in r' = tx_in r \<and> tx_buf r' = tx_buf r \<and>
     (OSRunning (os r') \<longleftrightarrow> OSRunning (os r)) \<and> (\<exists>t. trace r' = t @ trace r)"

lemma uart_kept_refl: "uart_kept r r"
  by (simp add: uart_kept_def)

lemma uart_kept_trans: "uart_kept r1 r2 \<Longrightarrow> uart_kept r2 r3 \<Longrightarrow> uart_kept r1 r3"
  by (auto simp: uart_kept_def)

lemma rx_seen_append: "rx_seen b (t @ tr) = rx_seen b tr @ rx_seen b t"
  by (induction b t rule: rx_seen.induct) simp_all

lemma tx_sent_append: "tx_sent b (t @ tr) = tx_sent b tr @ tx_sent b t"
  by (induction b t rule: tx_sent.induct) simp_all

lemma unat_index: "x < BUF_LEN \<longleftrightarrow> unat x < 2048" for x :: u32
  by (simp add: word_less_nat_alt)

lemma unat_step:
  assumes "x < BUF_LEN" "n \<le> 2048"
  shows "unat ((x + of_nat n) mod BUF_LEN) = (unat x + n) mod 2048" "(x + of_nat n) mod BUF_LEN < BUF_LEN"
proof -
  have u: "unat x < 2048" using assms(1) by (simp add: unat_index)
  have "unat (of_nat n :: u32) = n" using assms(2) by (simp add: unat_of_nat)
  moreover have "unat (x + of_nat n) = unat x + unat (of_nat n :: u32)"
    using u assms(2) calculation by (intro unat_add_lem [THEN iffD1]) simp
  ultimately show "unat ((x + of_nat n) mod BUF_LEN) = (unat x + n) mod 2048"
    by (simp add: unat_mod)
  then show "(x + of_nat n) mod BUF_LEN < BUF_LEN" by (simp add: unat_index)
qed

lemmas unat_step1 = unat_step [where n = 1, simplified]

section \<open>The interrupt routine\<close>

lemma fifo_os: "uart_fifo C A (r\<lparr>os := s\<rparr>) = uart_fifo C A r"
  by (simp add: uart_fifo_def rx_inv_def tx_inv_def rx_data_def tx_data_def)

lemma uart_post_os:
  assumes "uart_post flags r = Some r'"
  obtains s where "r' = r\<lparr>os := s\<rparr>" "OSRunning s = OSRunning (os r)"
proof (cases "OSRunning (os r)")
  case True
  then show ?thesis using assms OSFlagPost_kept(1) that by (auto simp: uart_post_def alt_flag_post_def)
next
  case False
  then show ?thesis using assms that [of "os r"] by (auto simp: uart_post_def alt_flag_post_def)
qed

lemma uart_post_ends:
  assumes "uart_events g r"
  obtains s where "uart_post flags r = Some (r\<lparr>os := s\<rparr>)" "uart_events g (r\<lparr>os := s\<rparr>)"
proof -
  obtain s where "alt_flag_post (PFlagGrp g) flags OS_FLAG_SET (os r) = Some s" "OSRunning s \<longrightarrow> events_ok g s"
    using alt_flag_post_ok [of "os r" g flags] assms by (auto simp: uart_events_def)
  then show ?thesis using that assms by (simp add: uart_events_def uart_post_def)
qed

text \<open>One byte received, and one byte sent.\<close>

definition rx_step :: "u32 \<Rightarrow> 'a jtag_uart_scheme \<Rightarrow> 'a jtag_uart_scheme" where
  "rx_step d r = r\<lparr>trace := IoRd (ju_base r) UART_DATA_REG d # trace r,
     rx_buf := (rx_buf r)[unat (rx_in r) := ucast (d AND 0xFF)], rx_in := (rx_in r + 1) mod BUF_LEN\<rparr>"

definition tx_step :: "'a jtag_uart_scheme \<Rightarrow> 'a jtag_uart_scheme" where
  "tx_step r = r\<lparr>trace := IoWr (ju_base r) UART_DATA_REG (ucast (tx_buf r ! unat (tx_out r))) # trace r,
     tx_out := (tx_out r + 1) mod BUF_LEN\<rparr>"

lemma uart_rx_unfold:
  "uart_rx dev d r =
     (let d' = dev (trace r) (ju_base r) UART_DATA_REG
      in if (rx_in r + 1) mod BUF_LEN = rx_out r then Some (d, r)
         else if d' AND DATA_RVALID = 0
         then Some (d', r\<lparr>trace := IoRd (ju_base r) UART_DATA_REG d' # trace r\<rparr>)
         else case uart_post READ_RDY (rx_step d' r) of None \<Rightarrow> None | Some r' \<Rightarrow> uart_rx dev d' r')"
  by (subst uart_rx.simps) (simp add: IORD_def Let_def rx_step_def)

lemma uart_tx_unfold:
  "uart_tx (Suc n) r =
     (if tx_out r = tx_in r then Some (Suc n, r)
      else case uart_post WRITE_RDY (tx_step r) of None \<Rightarrow> None | Some r' \<Rightarrow> uart_tx n r')"
  by (simp add: IOWR_def Let_def tx_step_def)

lemma rx_step_fifo:
  assumes f: "uart_fifo C A r" and room: "(rx_in r + 1) mod BUF_LEN \<noteq> rx_out r" and v: "d AND DATA_RVALID \<noteq> 0"
  shows "uart_fifo C A (rx_step d r)" "uart_kept r (rx_step d r)"
    "rx_data (rx_step d r) = rx_data r @ [ucast (d AND 0xFF)]"
proof -
  have inv: "rx_inv C r" "length (rx_buf r) = 2048" "unat (rx_in r) < 2048" "unat (rx_out r) < 2048"
    "rx_in r < BUF_LEN"
    using f by (simp_all add: uart_fifo_def rx_inv_def unat_index)
  have ne: "(unat (rx_in r) + 1) mod 2048 \<noteq> unat (rx_out r)"
  proof
    assume "(unat (rx_in r) + 1) mod 2048 = unat (rx_out r)"
    then have "unat ((rx_in r + 1) mod BUF_LEN) = unat (rx_out r)" using unat_step1(1) [OF inv(5)] by simp
    then show False using room unsigned_word_eqI by blast
  qed
  show d: "rx_data (rx_step d r) = rx_data r @ [ucast (d AND 0xFF)]"
    using ring_put_one [of "unat (rx_out r)" "rx_buf r" "unat (rx_in r)"] inv ne unat_step1(1) [OF inv(5)]
    by (simp add: rx_data_def rx_step_def)
  have "rx_inv C (rx_step d r)"
    using inv(1,2) unat_step1(2) [OF inv(5)] d v by (simp add: rx_inv_def) (simp add: rx_step_def)
  then show "uart_fifo C A (rx_step d r)" using f by (simp add: uart_fifo_def tx_inv_def tx_data_def rx_step_def)
  show "uart_kept r (rx_step d r)" by (simp add: uart_kept_def rx_step_def)
qed

lemma tx_step_fifo:
  assumes f: "uart_fifo C A r" and ne: "tx_out r \<noteq> tx_in r"
  shows "uart_fifo C A (tx_step r)" "uart_kept r (tx_step r)"
proof -
  have inv: "tx_inv A r" "length (tx_buf r) = 2048" "unat (tx_in r) < 2048" "unat (tx_out r) < 2048"
    "tx_out r < BUF_LEN"
    using f by (simp_all add: uart_fifo_def tx_inv_def unat_index)
  let ?b = "tx_buf r ! unat (tx_out r)"
  have "unat (tx_out r) \<noteq> unat (tx_in r)" using ne unsigned_word_eqI by blast
  then have "1 \<le> ring_avail 2048 (unat (tx_out r)) (unat (tx_in r))"
    using ring_avail_0 [of "unat (tx_out r)" 2048 "unat (tx_in r)"] inv by simp
  then have "tx_data r = take 1 (drop (unat (tx_out r)) (tx_buf r)) @ tx_data (tx_step r)"
    using ring_take_block(1) [of "unat (tx_out r)" "tx_buf r" "unat (tx_in r)" 1] inv unat_step1(1) [OF inv(5)]
    by (simp add: tx_data_def tx_step_def)
  then have d: "tx_data r = ?b # tx_data (tx_step r)" using inv(2,4) by (simp add: take_Suc hd_drop_conv_nth)
  have uc: "ucast (ucast ?b :: u32) = ?b" by (intro bit_word_eqI) (simp add: bit_unsigned_iff)
  have "tx_inv A (tx_step r)"
    using inv(1,2) unat_step1(2) [OF inv(5)] d uc by (simp add: tx_inv_def) (simp add: tx_step_def)
  then show "uart_fifo C A (tx_step r)" using f by (simp add: uart_fifo_def rx_inv_def rx_data_def tx_step_def)
  show "uart_kept r (tx_step r)" by (simp add: uart_kept_def tx_step_def)
qed

lemma fifo_trace:
  assumes "uart_fifo C A r" and "\<And>tr. rx_seen (ju_base r) (e # tr) = rx_seen (ju_base r) tr"
    and "\<And>tr. tx_sent (ju_base r) (e # tr) = tx_sent (ju_base r) tr"
  shows "uart_fifo C A (r\<lparr>trace := e # trace r\<rparr>)" "uart_kept r (r\<lparr>trace := e # trace r\<rparr>)"
  using assms by (simp_all add: uart_fifo_def rx_inv_def tx_inv_def rx_data_def tx_data_def uart_kept_def)

lemma uart_post_fifo:
  "uart_post flags r = Some r' \<Longrightarrow> uart_fifo C A r \<Longrightarrow> uart_fifo C A r' \<and> uart_kept r r'"
  by (erule uart_post_os) (simp add: fifo_os uart_kept_def)

subsection \<open>It keeps the order of the bytes\<close>

lemma uart_rx_fifo:
  assumes "uart_rx dev d r = Some y"
  shows "uart_fifo C A r \<longrightarrow> uart_fifo C A (snd y) \<and> uart_kept r (snd y)"
proof (rule uart_rx.raw_induct [OF _ assms,
      where P = "\<lambda>dev d r y. uart_fifo C A r \<longrightarrow> uart_fifo C A (snd y) \<and> uart_kept r (snd y)"], goal_cases)
  case 1: (1 rec dev d r y)
  let ?d = "dev (trace r) (ju_base r) UART_DATA_REG"
  show ?case
  proof
    assume f: "uart_fifo C A r"
    consider "y = (d, r)" | "y = (?d, r\<lparr>trace := IoRd (ju_base r) UART_DATA_REG ?d # trace r\<rparr>)" "?d AND DATA_RVALID = 0"
      | r' where "(rx_in r + 1) mod BUF_LEN \<noteq> rx_out r" "?d AND DATA_RVALID \<noteq> 0"
          "uart_post READ_RDY (rx_step ?d r) = Some r'" "rec dev ?d r' = Some y"
      using 1(2) unfolding IORD_def Let_def rx_step_def prod.case
      by (auto split: if_splits option.splits)
    then show "uart_fifo C A (snd y) \<and> uart_kept r (snd y)"
    proof cases
      case 1
      then show ?thesis using f uart_kept_refl by simp
    next
      case 2
      then show ?thesis using fifo_trace [OF f] by simp
    next
      case (3 r')
      note s = rx_step_fifo [OF f 3(1,2)]
      have "uart_fifo C A r' \<and> uart_kept (rx_step ?d r) r'" by (rule uart_post_fifo [OF 3(3) s(1)])
      then show ?thesis using 1(1) [OF 3(4)] uart_kept_trans s(2) by blast
    qed
  qed
qed

lemma uart_tx_fifo:
  "uart_tx n r = Some (n', r') \<Longrightarrow> uart_fifo C A r \<Longrightarrow> uart_fifo C A r' \<and> uart_kept r r'"
proof (induction n arbitrary: r)
  case 0
  then show ?case using uart_kept_refl by simp
next
  case (Suc n)
  show ?case
  proof (cases "tx_out r = tx_in r")
    case True
    then show ?thesis using Suc.prems uart_kept_refl by (simp add: uart_tx_unfold del: uart_tx.simps)
  next
    case False
    note s = tx_step_fifo [OF Suc.prems(2) False]
    obtain r1 where r1: "uart_post WRITE_RDY (tx_step r) = Some r1" "uart_tx n r1 = Some (n', r')"
      using Suc.prems(1) False by (auto simp: uart_tx_unfold simp del: uart_tx.simps split: option.splits)
    have "uart_fifo C A r1 \<and> uart_kept (tx_step r) r1" by (rule uart_post_fifo [OF r1(1) s(1)])
    then show ?thesis using Suc.IH [OF r1(2)] uart_kept_trans s(2) by blast
  qed
qed

lemma uart_irq_off_fifo:
  "uart_fifo C A r \<Longrightarrow> uart_fifo C A (uart_irq_off dev m r) \<and> uart_kept r (uart_irq_off dev m r)"
  by (simp add: uart_irq_off_def Let_def IORD_def IOWR_def uart_fifo_def rx_inv_def tx_inv_def rx_data_def
      tx_data_def uart_kept_def)

lemma uart_irq_on_fifo:
  "uart_fifo C A r \<Longrightarrow> uart_fifo C A (uart_irq_on m r) \<and> uart_kept r (uart_irq_on m r)"
  by (simp add: uart_irq_on_def Let_def IOWR_def uart_fifo_def rx_inv_def tx_inv_def rx_data_def tx_data_def
      uart_kept_def)

lemma uart_read_irq_fifo:
  assumes "uart_read_irq dev r = Some r'" "uart_fifo C A r"
  shows "uart_fifo C A r' \<and> uart_kept r r'"
proof -
  obtain d r1 where r1: "uart_rx dev (push_bit 16 1) r = Some (d, r1)"
    "r' = (if d AND 0xFFFF0000 \<noteq> 0 then uart_irq_off dev CONTROL_RE r1 else r1)"
    using assms(1) by (auto simp: uart_read_irq_def split: option.splits)
  have "uart_fifo C A r1 \<and> uart_kept r r1" using uart_rx_fifo [OF r1(1)] assms(2) by simp
  then show ?thesis using r1(2) uart_irq_off_fifo uart_kept_trans by (metis (full_types))
qed

lemma uart_write_irq_fifo:
  assumes "uart_write_irq dev control r = Some r'" "uart_fifo C A r"
  shows "uart_fifo C A r' \<and> uart_kept r r'"
proof -
  obtain n r1 where r1: "uart_tx (unat (drop_bit 16 (control AND 0xFFFF0000))) r = Some (n, r1)"
    "r' = (if n > 0 then uart_irq_off dev CONTROL_WE r1 else r1)"
    using assms(1) by (auto simp: uart_write_irq_def split: option.splits)
  have "uart_fifo C A r1 \<and> uart_kept r r1" by (rule uart_tx_fifo [OF r1(1) assms(2)])
  then show ?thesis using r1(2) uart_irq_off_fifo uart_kept_trans by (metis (full_types))
qed

text \<open>One round of the interrupt routine's loop for the control word \<open>c\<close>.\<close>

definition uart_round :: "device \<Rightarrow> u32 \<Rightarrow> 'a jtag_uart_scheme \<Rightarrow> 'a jtag_uart_scheme option" where
  "uart_round dev c r =
     (case (if c AND CONTROL_RI \<noteq> 0 then uart_read_irq dev r else Some r) of
        None \<Rightarrow> None
      | Some r1 \<Rightarrow> if c AND CONTROL_WI \<noteq> 0 then uart_write_irq dev c r1 else Some r1)"

lemma uart_round_fifo:
  assumes "uart_round dev c r = Some r'" "uart_fifo C A r"
  shows "uart_fifo C A r' \<and> uart_kept r r'"
proof -
  obtain r1 where r1: "(if c AND CONTROL_RI \<noteq> 0 then uart_read_irq dev r else Some r) = Some r1"
    "(if c AND CONTROL_WI \<noteq> 0 then uart_write_irq dev c r1 else Some r1) = Some r'"
    using assms(1) by (auto simp: uart_round_def split: option.splits)
  have s1: "uart_fifo C A r1 \<and> uart_kept r r1"
    using r1(1) uart_read_irq_fifo [OF _ assms(2)] assms(2) uart_kept_refl by (auto split: if_splits)
  moreover have "uart_fifo C A r' \<and> uart_kept r1 r'"
    using r1(2) uart_write_irq_fifo [OF _ conjunct1 [OF s1]] s1 uart_kept_refl by (auto split: if_splits)
  ultimately show ?thesis using uart_kept_trans by blast
qed

lemma uart_irq_fifo:
  assumes "altera_avalon_jtag_uart_irq dev r = Some r'"
  shows "uart_fifo C A r \<longrightarrow> uart_fifo C A r' \<and> uart_kept r r'"
proof (rule altera_avalon_jtag_uart_irq.raw_induct [OF _ assms,
      where P = "\<lambda>dev r r'. uart_fifo C A r \<longrightarrow> uart_fifo C A r' \<and> uart_kept r r'"], goal_cases)
  case 1: (1 rec dev r r')
  let ?c = "dev (trace r) (ju_base r) UART_CONTROL_REG"
  let ?r1 = "r\<lparr>trace := IoRd (ju_base r) UART_CONTROL_REG ?c # trace r\<rparr>"
  show ?case
  proof
    assume f: "uart_fifo C A r"
    have f1: "uart_fifo C A ?r1" "uart_kept r ?r1" using fifo_trace [OF f] by simp_all
    have "(if ?c AND (CONTROL_RI OR CONTROL_WI) = 0 then Some ?r1
        else case uart_round dev ?c ?r1 of None \<Rightarrow> None | Some r2 \<Rightarrow> rec dev r2) = Some r'"
      using 1(2) unfolding uart_round_def IORD_def Let_def prod.case by (auto split: option.splits if_splits)
    then consider "r' = ?r1" | r2 where "uart_round dev ?c ?r1 = Some r2" "rec dev r2 = Some r'"
      by (auto split: if_splits option.splits)
    then show "uart_fifo C A r' \<and> uart_kept r r'"
    proof cases
      case 1
      then show ?thesis using f1 by simp
    next
      case (2 r2)
      have "uart_fifo C A r2 \<and> uart_kept ?r1 r2" by (rule uart_round_fifo [OF 2(1) f1(1)])
      then show ?thesis using 1(1) [OF 2(2)] uart_kept_trans f1(2) by blast
    qed
  qed
qed

subsection \<open>It ends\<close>

lemma uart_events_steps:
  "uart_events g (rx_step d r) = uart_events g r" "uart_events g (tx_step r) = uart_events g r"
  "uart_events g (r\<lparr>trace := t\<rparr>) = uart_events g r" "uart_events g (uart_irq_off dev m r) = uart_events g r"
  by (simp_all add: uart_events_def rx_step_def tx_step_def uart_irq_off_def Let_def IORD_def IOWR_def)

lemma rx_data_length: "uart_fifo C A r \<Longrightarrow> length (rx_data r) < 2048"
  using length_ring_data [of "unat (rx_out r)" "rx_buf r" "unat (rx_in r)"]
  by (auto simp: uart_fifo_def rx_inv_def rx_data_def unat_index)

lemma uart_rx_ends:
  assumes "uart_fifo C A r" "uart_events g r"
  shows "\<exists>d' r'. uart_rx dev d r = Some (d', r') \<and> uart_events g r'"
  using assms
proof (induction "2048 - length (rx_data r)" arbitrary: d r rule: less_induct)
  case less
  let ?d = "dev (trace r) (ju_base r) UART_DATA_REG"
  show ?case
  proof (cases "(rx_in r + 1) mod BUF_LEN = rx_out r \<or> ?d AND DATA_RVALID = 0")
    case True
    then show ?thesis
      using less.prems uart_rx_unfold [of dev d r]
      by (cases "(rx_in r + 1) mod BUF_LEN = rx_out r") (simp_all add: Let_def uart_events_steps)
  next
    case False
    then have c: "(rx_in r + 1) mod BUF_LEN \<noteq> rx_out r" "?d AND DATA_RVALID \<noteq> 0" by simp_all
    note s = rx_step_fifo [OF less.prems(1) c]
    obtain s' where p: "uart_post READ_RDY (rx_step ?d r) = Some ((rx_step ?d r)\<lparr>os := s'\<rparr>)"
      "uart_events g ((rx_step ?d r)\<lparr>os := s'\<rparr>)"
      by (rule uart_post_ends [of g "rx_step ?d r"]) (use less.prems(2) in \<open>simp add: uart_events_steps\<close>)
    let ?r' = "(rx_step ?d r)\<lparr>os := s'\<rparr>"
    have "rx_data ?r' = rx_data (rx_step ?d r)" by (simp add: rx_data_def)
    then have "2048 - length (rx_data ?r') < 2048 - length (rx_data r)"
      using s(3) rx_data_length [OF less.prems(1)] by simp
    from less.hyps [OF this _ p(2)] show ?thesis
      using p(1) c s(1) uart_rx_unfold [of dev d r] by (simp add: Let_def fifo_os)
  qed
qed

lemma uart_tx_ends: "uart_events g r \<Longrightarrow> \<exists>n' r'. uart_tx n r = Some (n', r') \<and> uart_events g r'"
proof (induction n arbitrary: r)
  case (Suc n)
  obtain s' where p: "uart_post WRITE_RDY (tx_step r) = Some ((tx_step r)\<lparr>os := s'\<rparr>)"
    "uart_events g ((tx_step r)\<lparr>os := s'\<rparr>)"
    by (rule uart_post_ends [of g "tx_step r"]) (use Suc.prems in \<open>simp add: uart_events_steps\<close>)
  show ?case
    using Suc.IH [OF p(2)] Suc.prems p(1) by (simp add: uart_tx_unfold del: uart_tx.simps)
qed simp

lemma uart_round_ends:
  assumes f: "uart_fifo C A r" and ev: "uart_events g r"
  shows "\<exists>r'. uart_round dev c r = Some r' \<and> uart_events g r'"
proof -
  obtain d r1 where "uart_rx dev (push_bit 16 1) r = Some (d, r1)" "uart_events g r1"
    using uart_rx_ends [OF f ev] by blast
  then have "\<exists>r2. uart_read_irq dev r = Some r2 \<and> uart_events g r2"
    by (simp add: uart_read_irq_def uart_events_steps)
  then obtain r2 where r2: "(if c AND CONTROL_RI \<noteq> 0 then uart_read_irq dev r else Some r) = Some r2"
    "uart_events g r2"
    using ev by (cases "c AND CONTROL_RI \<noteq> 0") auto
  obtain n r3 where "uart_tx (unat (drop_bit 16 (c AND 0xFFFF0000))) r2 = Some (n, r3)" "uart_events g r3"
    using uart_tx_ends [OF r2(2)] by blast
  then have "\<exists>r'. uart_write_irq dev c r2 = Some r' \<and> uart_events g r'"
    by (simp add: uart_write_irq_def uart_events_steps)
  then show ?thesis
    unfolding uart_round_def r2(1) option.case using r2(2) by (cases "c AND CONTROL_WI \<noteq> 0") auto
qed

text \<open>A device that after \<open>n\<close> accesses has nothing more to ask for.\<close>

definition uart_quiet :: "device \<Rightarrow> u32 \<Rightarrow> nat \<Rightarrow> bool" where
  "uart_quiet dev b n \<longleftrightarrow> (\<forall>tr. n \<le> length tr \<longrightarrow> dev tr b UART_CONTROL_REG AND (CONTROL_RI OR CONTROL_WI) = 0)"

lemma uart_irq_ends:
  assumes "uart_fifo C A r" "uart_events g r" and q: "uart_quiet dev (ju_base r) n"
  shows "\<exists>r'. altera_avalon_jtag_uart_irq dev r = Some r' \<and> uart_events g r'"
  using assms
proof (induction "n - length (trace r)" arbitrary: r rule: less_induct)
  case less
  let ?c = "dev (trace r) (ju_base r) UART_CONTROL_REG"
  let ?r1 = "r\<lparr>trace := IoRd (ju_base r) UART_CONTROL_REG ?c # trace r\<rparr>"
  have f1: "uart_fifo C A ?r1" using fifo_trace(1) [OF less.prems(1)] by simp
  have e1: "uart_events g ?r1" using less.prems(2) by (simp add: uart_events_steps)
  obtain r2 where r2: "uart_round dev ?c ?r1 = Some r2" "uart_events g r2"
    using uart_round_ends [OF f1 e1] by blast
  have f2: "uart_fifo C A r2" "uart_kept ?r1 r2" using uart_round_fifo [OF r2(1) f1] by simp_all
  have un: "altera_avalon_jtag_uart_irq dev r =
      (if ?c AND (CONTROL_RI OR CONTROL_WI) = 0 then Some ?r1 else altera_avalon_jtag_uart_irq dev r2)"
    using r2(1) unfolding uart_round_def
    by (subst altera_avalon_jtag_uart_irq.simps) (auto simp: IORD_def Let_def split: option.splits)
  show ?case
  proof (cases "?c AND (CONTROL_RI OR CONTROL_WI) = 0")
    case True
    then show ?thesis using un e1 by simp
  next
    case False
    then have "length (trace r) < n" using less.prems(3) by (auto simp: uart_quiet_def not_le)
    moreover have "length (trace r) < length (trace r2)" using f2(2) by (auto simp: uart_kept_def)
    moreover have "uart_quiet dev (ju_base r2) n" using less.prems(3) f2(2) by (simp add: uart_kept_def)
    ultimately show ?thesis
      using less.hyps [OF diff_less_mono2 f2(1) r2(2)] un False by simp
  qed
qed

section \<open>A driver that has just been started\<close>

lemma uart_init_fifo:
  assumes "altera_avalon_jtag_uart_init isr tmo alarm sp irq r ic clk = Some (r', ic', clk')"
    and "rx_in r = 0" "rx_out r = 0" "tx_in r = 0" "tx_out r = 0" "length (rx_buf r) = 2048" "length (tx_buf r) = 2048"
  shows "uart_fifo (rx_seen (ju_base r) (trace r)) (tx_sent (ju_base r) (trace r)) r'" "irq_enable r' = CONTROL_RE"
    "OSRunning (os r) \<or> ju_timeout r' \<in> {ju_timeout r, INT_MAX}"
  using assms
  by (auto simp: altera_avalon_jtag_uart_init_def Let_def IOWR_def uart_fifo_def rx_inv_def tx_inv_def
      rx_data_def tx_data_def split: prod.splits option.splits if_splits)


text \<open>A driver with nothing in its buffers on the kernel of the example, with a received byte at the bus.\<close>

definition demo_uart :: jtag_uart where
  "demo_uart = \<lparr>trace = [],
     os = upd_event 4 (\<lambda>ev. ev\<lparr>OSEventCnt := 1\<rparr>) (upd_flag 0 (\<lambda>fl. fl\<lparr>OSFlagFlags := READ_RDY\<rparr>) demo),
     ju_base = 0x88, ju_timeout = 10, irq_enable = CONTROL_RE, host_inactive = 0,
     read_lock = PEvent 1, write_lock = PEvent 4, ju_events = PFlagGrp 0, rx_in = 0, rx_out = 0,
     tx_in = 0, tx_out = 0, rx_buf = replicate 2048 0, tx_buf = replicate 2048 0\<rparr>"

definition demo_bus :: device where
  "demo_bus tr base reg =
     (if reg = UART_DATA_REG then if length tr = 1 then 0x8041 else 0 else if tr = [] then CONTROL_RI else 0)"

lemma demo_uart_fifo: "uart_fifo [] [] demo_uart"
  by (simp add: uart_fifo_def rx_inv_def tx_inv_def rx_data_def tx_data_def demo_uart_def)

lemma demo_uart_events: "uart_events 0 demo_uart"
proof -
  have "os_wf (os demo_uart)" by (simp add: demo_uart_def os_wf_upd_event_data(1) os_wf_demo)
  moreover have "flag_list (os demo_uart) 0 []" "OSFlagType (OSFlagTbl (os demo_uart) 0) = OS_EVENT_TYPE_FLAG"
    by (simp_all add: demo_uart_def upd_event_def upd_flag_def flag_list_def demo_def flag_zero_def)
  ultimately show ?thesis by (auto simp: uart_events_def events_ok_def) (simp add: demo_uart_def)
qed


end
