(* ===== verification/Hal_Tty.thy ===== *)
theory Hal_Tty
  imports Hal_Console
begin

text \<open>
  Reading from and writing to the JTAG UART while interrupts and other tasks go on: the order of the
  bytes and the end of the calls.
\<close>

section \<open>The kernel calls of the driver leave the buffers alone\<close>

lemma kernel_running:
  "OSRunning (snd (OSSemPend e t True s)) = OSRunning s"
  "OSRunning (snd (OSSemPend_resume e s)) = OSRunning s"
  "OSRunning (snd (OSSemPost e s)) = OSRunning s"
  "OSRunning (snd (OSFlagPend g fl ty t True s)) = OSRunning s"
  "OSRunning (snd (snd (OSFlagPend_resume g ty s))) = OSRunning s"
proof -
  have ready: "OSRunning (snd (OS_EventTaskRdy e m msk pend s)) = OSRunning s" for e m msk pend s
    using os_frame_EventTaskRdy [of e m msk pend s] by (simp add: os_frame_def)
  note defs = Let_def pend_block_def OS_EventTaskWait_def pend_finish_def pend_clear_def OS_EventTaskRemove_def
    OS_FlagBlock_def consume_if_def OS_FlagUnlink_def rdy_remove_def upd_tcb_def upd_flag_def upd_node_def upd_event_def
  show "OSRunning (snd (OSSemPend e t True s)) = OSRunning s" by (simp add: OSSemPend_def defs)
  show "OSRunning (snd (OSSemPend_resume e s)) = OSRunning s"
    by (simp add: OSSemPend_resume_def defs split: pend_stat.split)
  show "OSRunning (snd (OSSemPost e s)) = OSRunning s" by (simp add: OSSemPost_def ready Let_def upd_event_def)
  show "OSRunning (snd (OSFlagPend g fl ty t True s)) = OSRunning s"
    by (simp add: OSFlagPend_def defs split: option.split)
  show "OSRunning (snd (snd (OSFlagPend_resume g ty s))) = OSRunning s" by (simp add: OSFlagPend_resume_def defs)
qed

section \<open>What goes on meanwhile\<close>

text \<open>
  Something that keeps \<open>keep i\<close>, for every \<open>i\<close>, and changes the state at most as \<open>kept\<close> says.
\<close>

definition env_keeps ::
  "('i \<Rightarrow> 'w \<Rightarrow> bool) \<Rightarrow> ('w \<Rightarrow> 'w \<Rightarrow> bool) \<Rightarrow> ('w \<Rightarrow> 'w) \<Rightarrow> bool" where
  "env_keeps keep kept f \<longleftrightarrow> (\<forall>i r. keep i r \<longrightarrow> keep i (f r) \<and> kept r (f r))"

lemma env_keepsD: "env_keeps keep kept f \<Longrightarrow> keep i r \<Longrightarrow> keep i (f r) \<and> kept r (f r)"
  by (simp add: env_keeps_def)

text \<open>Waiting for a semaphore or a flag is such a thing if what goes on meanwhile is.\<close>

locale uart_side =
  fixes keep :: "'i \<Rightarrow> 'a jtag_uart_scheme \<Rightarrow> bool" and kept :: "'a jtag_uart_scheme \<Rightarrow> 'a jtag_uart_scheme \<Rightarrow> bool"
  assumes inv_os: "keep i (r\<lparr>os := s\<rparr>) = keep i r"
    and kept_os: "kept r (r\<lparr>os := s\<rparr>) \<longleftrightarrow> (OSRunning s \<longleftrightarrow> OSRunning (os r))"
    and kept_trans: "kept r1 r2 \<Longrightarrow> kept r2 r3 \<Longrightarrow> kept r1 r3"
begin

lemma kernel_call: "keep i r \<Longrightarrow> (OSRunning s \<longleftrightarrow> OSRunning (os r)) \<Longrightarrow> keep i (r\<lparr>os := s\<rparr>) \<and> kept r (r\<lparr>os := s\<rparr>)"
  by (simp add: inv_os kept_os)

lemma kernel_wait:
  assumes env: "env_keeps keep kept others" and i: "keep i r" and s: "OSRunning s \<longleftrightarrow> OSRunning (os r)"
    and fin: "OSRunning (fin (os (others (r\<lparr>os := s\<rparr>)))) \<longleftrightarrow> OSRunning (os (others (r\<lparr>os := s\<rparr>)))"
  shows "keep i ((others (r\<lparr>os := s\<rparr>))\<lparr>os := fin (os (others (r\<lparr>os := s\<rparr>)))\<rparr>) \<and>
    kept r ((others (r\<lparr>os := s\<rparr>))\<lparr>os := fin (os (others (r\<lparr>os := s\<rparr>)))\<rparr>)"
proof -
  have 1: "keep i (r\<lparr>os := s\<rparr>) \<and> kept r (r\<lparr>os := s\<rparr>)" by (rule kernel_call [OF i s])
  have 2: "keep i (others (r\<lparr>os := s\<rparr>)) \<and> kept (r\<lparr>os := s\<rparr>) (others (r\<lparr>os := s\<rparr>))"
    using env_keepsD [OF env conjunct1 [OF 1]] .
  have 3: "keep i ((others (r\<lparr>os := s\<rparr>))\<lparr>os := fin (os (others (r\<lparr>os := s\<rparr>)))\<rparr>) \<and>
    kept (others (r\<lparr>os := s\<rparr>)) ((others (r\<lparr>os := s\<rparr>))\<lparr>os := fin (os (others (r\<lparr>os := s\<rparr>)))\<rparr>)"
    using kernel_call [of i "others (r\<lparr>os := s\<rparr>)"] 2 fin by simp
  show ?thesis using 1 2 3 kept_trans by blast
qed

lemma sem_pend:
  assumes "env_keeps keep kept others" "keep i r"
  shows "keep i (alt_sem_pend others e r) \<and> kept r (alt_sem_pend others e r)"
proof -
  obtain x s where p: "OSSemPend e 0 True (os r) = (x, s)" by fastforce
  have s: "OSRunning s \<longleftrightarrow> OSRunning (os r)" using kernel_running(1) [of e 0 "os r"] p by simp
  show ?thesis
    using kernel_call [OF assms(2) s] kernel_wait [OF assms s, of "\<lambda>s. snd (OSSemPend_resume e s)"]
    by (cases x) (simp_all add: alt_sem_pend_def p Let_def kernel_running)
qed

lemma sem_post:
  assumes "env_keeps keep kept others" "keep i r"
  shows "keep i (alt_sem_post others e r) \<and> kept r (alt_sem_post others e r)"
proof -
  let ?r = "r\<lparr>os := snd (OSSemPost e (os r))\<rparr>"
  have 1: "keep i ?r \<and> kept r ?r" by (rule kernel_call [OF assms(2) kernel_running(3)])
  then have "keep i (others ?r) \<and> kept ?r (others ?r)" using env_keepsD [OF assms(1)] by blast
  then show ?thesis using 1 kept_trans by (auto simp: alt_sem_post_def)
qed

lemma flag_pend:
  assumes "env_keeps keep kept others" "keep i r"
  shows "keep i (alt_flag_pend others g fl ty r) \<and> kept r (alt_flag_pend others g fl ty r)"
proof -
  obtain x s where p: "OSFlagPend g fl ty 0 True (os r) = (x, s)" by fastforce
  have s: "OSRunning s \<longleftrightarrow> OSRunning (os r)" using kernel_running(4) [of g fl ty 0 "os r"] p by simp
  have same: "keep i r \<and> kept r r" using kernel_call [OF assms(2), of "os r"] by simp
  show ?thesis
    using kernel_call [OF assms(2) s] same
      kernel_wait [OF assms s, of "\<lambda>s. snd (snd (OSFlagPend_resume g ty s))"]
    by (cases x) (simp_all add: alt_flag_pend_def p Let_def kernel_running split_beta)
qed

end

text \<open>
  Beside a reading task: interrupts and writers, but no other reader; what is in the buffer may grow.
  Beside a writing task: interrupts and readers.
\<close>

definition reader_inv :: "u8 list \<Rightarrow> 'a jtag_uart_scheme \<Rightarrow> bool" where
  "reader_inv C r \<longleftrightarrow> (\<exists>A. uart_fifo C A r)"

definition writer_inv :: "u8 list \<Rightarrow> 'a jtag_uart_scheme \<Rightarrow> bool" where
  "writer_inv A r \<longleftrightarrow> (\<exists>C. uart_fifo C A r)"

definition reader_kept :: "'a jtag_uart_scheme \<Rightarrow> 'a jtag_uart_scheme \<Rightarrow> bool" where
  "reader_kept r r' \<longleftrightarrow> ju_base r' = ju_base r \<and> rx_out r' = rx_out r \<and>
     (OSRunning (os r') \<longleftrightarrow> OSRunning (os r)) \<and> (\<exists>t. trace r' = t @ trace r)"

definition writer_kept :: "'a jtag_uart_scheme \<Rightarrow> 'a jtag_uart_scheme \<Rightarrow> bool" where
  "writer_kept r r' \<longleftrightarrow> ju_base r' = ju_base r \<and> tx_in r' = tx_in r \<and> tx_buf r' = tx_buf r \<and>
     (OSRunning (os r') \<longleftrightarrow> OSRunning (os r)) \<and> (\<exists>t. trace r' = t @ trace r)"

abbreviation reader_env :: "('a jtag_uart_scheme \<Rightarrow> 'a jtag_uart_scheme) \<Rightarrow> bool" where
  "reader_env \<equiv> env_keeps reader_inv reader_kept"

abbreviation writer_env :: "('a jtag_uart_scheme \<Rightarrow> 'a jtag_uart_scheme) \<Rightarrow> bool" where
  "writer_env \<equiv> env_keeps writer_inv writer_kept"

interpretation reader: uart_side reader_inv reader_kept
  by unfold_locales (auto simp: reader_inv_def reader_kept_def fifo_os)

interpretation writer: uart_side writer_inv writer_kept
  by unfold_locales (auto simp: writer_inv_def writer_kept_def fifo_os)

text \<open>The driver's interrupt routine is both; \<open>r\<close> if it does not end.\<close>

definition uart_isr :: "device \<Rightarrow> 'a jtag_uart_scheme \<Rightarrow> 'a jtag_uart_scheme" where
  "uart_isr dev r = (case altera_avalon_jtag_uart_irq dev r of None \<Rightarrow> r | Some r' \<Rightarrow> r')"

lemma uart_isr_fifo: "uart_fifo C A r \<Longrightarrow> uart_fifo C A (uart_isr dev r) \<and> uart_kept r (uart_isr dev r)"
  using uart_irq_fifo [of dev r _ C A] uart_kept_refl by (auto simp: uart_isr_def split: option.split)

lemma uart_isr_env: "reader_env (uart_isr dev)" "writer_env (uart_isr dev)"
  using uart_isr_fifo
  by (force simp: env_keeps_def reader_inv_def writer_inv_def reader_kept_def writer_kept_def uart_kept_def)+

section \<open>Reading\<close>

lemma uart_fifoD:
  assumes "uart_fifo C A r"
  shows "length (rx_buf r) = 2048" "unat (rx_in r) < 2048" "unat (rx_out r) < 2048" "rx_out r < BUF_LEN"
    "rx_seen (ju_base r) (trace r) = C @ rx_data r" "length (tx_buf r) = 2048" "unat (tx_in r) < 2048"
    "unat (tx_out r) < 2048" "tx_in r < BUF_LEN" "tx_sent (ju_base r) (trace r) @ tx_data r = A"
  using assms by (simp_all add: uart_fifo_def rx_inv_def tx_inv_def unat_index)

lemma reader_grows:
  assumes "uart_fifo C A r" "uart_fifo C A' r'" "reader_kept r r'"
  shows "\<exists>x. rx_data r' = rx_data r @ x"
proof -
  obtain t where "trace r' = t @ trace r" "ju_base r' = ju_base r" using assms(3) by (auto simp: reader_kept_def)
  then have "C @ rx_data r' = C @ rx_data r @ rx_seen (ju_base r) t"
    using uart_fifoD(5) [OF assms(1)] uart_fifoD(5) [OF assms(2)] by (simp add: rx_seen_append)
  then show ?thesis by simp
qed

text \<open>How many bytes can be copied at once.\<close>

lemma uart_avail:
  assumes "uart_fifo C A r"
  shows "unat (if rx_in r \<ge> rx_out r then rx_in r - rx_out r else BUF_LEN - rx_out r) =
      ring_avail 2048 (unat (rx_out r)) (unat (rx_in r))"
    and "ring_avail 2048 (unat (rx_out r)) (unat (rx_in r)) = min (2048 - unat (rx_out r)) (length (rx_data r))"
    and "ring_avail 2048 (unat (rx_out r)) (unat (rx_in r)) = 0 \<longleftrightarrow> rx_in r = rx_out r"
proof -
  note d = uart_fifoD [OF assms]
  show "unat (if rx_in r \<ge> rx_out r then rx_in r - rx_out r else BUF_LEN - rx_out r) =
      ring_avail 2048 (unat (rx_out r)) (unat (rx_in r))"
    using d(4) by (auto simp: ring_avail_def word_le_nat_alt unat_sub_if' word_less_nat_alt)
  show "ring_avail 2048 (unat (rx_out r)) (unat (rx_in r)) = min (2048 - unat (rx_out r)) (length (rx_data r))"
    using ring_avail_min [of "unat (rx_out r)" "rx_buf r" "unat (rx_in r)"] d(1-3) by (simp add: rx_data_def)
  show "ring_avail 2048 (unat (rx_out r)) (unat (rx_in r)) = 0 \<longleftrightarrow> rx_in r = rx_out r"
    using ring_avail_0 [OF d(3,2)] unsigned_word_eqI by fastforce
qed

text \<open>A block is copied while interrupts put more bytes into the buffer.\<close>

lemma uart_copy_block:
  assumes f: "uart_fifo C A r" and env: "reader_env intr"
    and n: "n \<le> ring_avail 2048 (unat (rx_out r)) (unat (rx_in r))"
  defines "r1 \<equiv> intr r"
  defines "bytes \<equiv> take n (drop (unat (rx_out r)) (rx_buf r1))" and "r2 \<equiv> intr r1"
  defines "r3 \<equiv> r2\<lparr>rx_out := (rx_out r + of_nat n) mod BUF_LEN\<rparr>"
  shows "reader_inv (C @ bytes) r3" "length bytes = n" "OSRunning (os r3) \<longleftrightarrow> OSRunning (os r)"
proof -
  have i: "reader_inv C r" using f by (auto simp: reader_inv_def)
  note e1 = env_keepsD [OF env i, folded r1_def]
  note e2 = env_keepsD [OF env conjunct1 [OF e1], folded r2_def]
  obtain A1 A2 where f1: "uart_fifo C A1 r1" and f2: "uart_fifo C A2 r2"
    using e1 e2 by (auto simp: reader_inv_def)
  have k: "rx_out r1 = rx_out r" "rx_out r2 = rx_out r" using e1 e2 by (simp_all add: reader_kept_def)
  obtain x y where xy: "rx_data r1 = rx_data r @ x" "rx_data r2 = rx_data r1 @ y"
    using reader_grows [OF f f1 conjunct2 [OF e1]] reader_grows [OF f1 f2 conjunct2 [OF e2]] by blast
  have n1: "n \<le> ring_avail 2048 (unat (rx_out r1)) (unat (rx_in r1))"
    and n2: "n \<le> ring_avail 2048 (unat (rx_out r2)) (unat (rx_in r2))"
    using n uart_avail(2) [OF f] uart_avail(2) [OF f1] uart_avail(2) [OF f2] xy k by simp_all
  have t1: "rx_data r1 = bytes @ ring_data (rx_buf r1) ((unat (rx_out r1) + n) mod 2048) (unat (rx_in r1))"
    "length bytes = n"
    using ring_take_block [of "unat (rx_out r1)" "rx_buf r1" "unat (rx_in r1)" n] n1 uart_fifoD(1-3) [OF f1] k
    by (simp_all add: rx_data_def bytes_def)
  then show "length bytes = n" by simp
  have "n \<le> 2048 - unat (rx_out r)" using n uart_avail(2) [OF f] by simp
  then have le: "n \<le> 2048" by simp
  have st: "unat (rx_out r3) = (unat (rx_out r) + n) mod 2048" "rx_out r3 < BUF_LEN"
    using unat_step [OF uart_fifoD(4) [OF f] le] by (simp_all add: r3_def)
  have t2: "rx_data r2 = take n (drop (unat (rx_out r2)) (rx_buf r2)) @ rx_data r3"
    "length (take n (drop (unat (rx_out r2)) (rx_buf r2))) = n"
    using ring_take_block [of "unat (rx_out r2)" "rx_buf r2" "unat (rx_in r2)" n] n2 uart_fifoD(1-3) [OF f2] k st(1)
    by (simp_all add: rx_data_def r3_def)
  have "take n (rx_data r2) = bytes" using xy(2) t1 by simp
  then have "rx_data r2 = bytes @ rx_data r3" using t2 by simp
  then have "uart_fifo (C @ bytes) A2 r3"
    using f2 st(2) by (simp add: uart_fifo_def rx_inv_def tx_inv_def tx_data_def) (simp add: r3_def)
  then show "reader_inv (C @ bytes) r3" by (auto simp: reader_inv_def)
  show "OSRunning (os r3) \<longleftrightarrow> OSRunning (os r)" using e1 e2 by (simp add: reader_kept_def r3_def)
qed

lemma uart_read_avail_ok:
  assumes "reader_env intr" "reader_inv C r" "space > 0"
  shows "\<exists>bs inn r'. uart_read_avail intr space r = (bs, inn, r') \<and> reader_inv (C @ bs) r' \<and> length bs \<le> space \<and>
    (OSRunning (os r') \<longleftrightarrow> OSRunning (os r)) \<and> (bs = [] \<longleftrightarrow> rx_in r = rx_out r) \<and>
    (bs = [] \<longrightarrow> inn = rx_in r \<and> r' = r)"
  using assms(2,3)
proof (induction space arbitrary: C r rule: less_induct)
  case (less space)
  obtain A where f: "uart_fifo C A r" using less.prems(1) by (auto simp: reader_inv_def)
  let ?a = "ring_avail 2048 (unat (rx_out r)) (unat (rx_in r))"
  have a: "unat (if rx_in r \<ge> rx_out r then rx_in r - rx_out r else BUF_LEN - rx_out r) = ?a"
    by (rule uart_avail(1) [OF f])
  show ?case
  proof (cases "?a = 0")
    case True
    then have "uart_read_avail intr space r = ([], rx_in r, r)"
      using a by (subst uart_read_avail.simps) (simp only: Let_def, simp)
    then show ?thesis using True less.prems(1) uart_avail(3) [OF f] by simp
  next
    case False
    let ?n = "min ?a space" and ?r1 = "intr r"
    let ?bytes = "take ?n (drop (unat (rx_out r)) (rx_buf ?r1))"
    let ?r3 = "(intr ?r1)\<lparr>rx_out := (rx_out r + of_nat ?n) mod BUF_LEN\<rparr>"
    note b = uart_copy_block [OF f assms(1) min.cobounded1 [of ?a space]]
    have un: "uart_read_avail intr space r =
        (let (bs, inn', r4) = (if space - ?n > 0 then uart_read_avail intr (space - ?n) ?r3 else ([], rx_in r, ?r3))
         in (?bytes @ bs, inn', r4))"
      using False less.prems(2) a by (subst uart_read_avail.simps) (simp only: Let_def, simp)
    have ne: "?bytes \<noteq> []" "rx_in r \<noteq> rx_out r"
      using b(2) False less.prems(2) uart_avail(3) [OF f] by (metis length_0_conv min_def neq0_conv, simp)
    show ?thesis
    proof (cases "space - ?n > 0")
      case True
      then have "space - ?n < space" using False less.prems(2) by simp
      from less.IH [OF this b(1) True] obtain bs inn r' where r':
        "uart_read_avail intr (space - ?n) ?r3 = (bs, inn, r')" "reader_inv ((C @ ?bytes) @ bs) r'"
        "length bs \<le> space - ?n" "OSRunning (os r') \<longleftrightarrow> OSRunning (os ?r3)" by blast
      have "uart_read_avail intr space r = (?bytes @ bs, inn, r')" by (simp only: un True if_True r'(1) Let_def prod.case)
      then show ?thesis using r' b(2,3) ne True by auto
    next
      case False
      have "uart_read_avail intr space r = (?bytes, rx_in r, ?r3)" by (simp only: un False if_False Let_def prod.case append_Nil2)
      then show ?thesis using b ne by auto
    qed
  qed
qed

lemma uart_read_loop_data:
  assumes "reader_env intr" "reader_inv C r" "space > 0" "rx_in r \<noteq> rx_out r"
  shows "\<exists>bs r'. uart_read_loop intr others space flags r = Some (bs, r') \<and> reader_inv (C @ bs) r' \<and>
    length bs \<le> space \<and> bs \<noteq> []"
proof -
  obtain bs inn r' where r': "uart_read_avail intr space r = (bs, inn, r')" "reader_inv (C @ bs) r'"
    "length bs \<le> space" "bs \<noteq> []"
    using uart_read_avail_ok [OF assms(1-3)] assms(4) by blast
  then have "uart_read_loop intr others space flags r = Some (bs, r')"
    by (subst uart_read_loop.simps) simp
  then show ?thesis using r' by blast
qed

lemma uart_read_loop_ok:
  assumes env: "reader_env intr" "reader_env others" and i: "reader_inv C r" and sp: "space > 0"
    and run: "OSRunning (os r)"
  shows "\<exists>bs r'. uart_read_loop intr others space flags r = Some (bs, r') \<and> reader_inv (C @ bs) r' \<and>
    length bs \<le> space"
proof (cases "rx_in r = rx_out r")
  case False
  then show ?thesis using uart_read_loop_data [OF env(1) i sp] by blast
next
  case True
  then have av: "uart_read_avail intr space r = ([], rx_in r, r)"
    using uart_read_avail_ok [OF env(1) i sp] by blast
  let ?r2 = "alt_flag_pend others (ju_events r) (READ_RDY OR UART_TIMEOUT) (OS_FLAG_WAIT_SET_ANY + OS_FLAG_CONSUME)
    (intr r)"
  note r1 = env_keepsD [OF env(1) i]
  have r2: "reader_inv C ?r2" "rx_out ?r2 = rx_out r"
    using reader.flag_pend [OF env(2) conjunct1 [OF r1]] r1 by (simp_all add: reader_kept_def)
  have un: "uart_read_loop intr others space flags r = (if flags AND O_NONBLOCK \<noteq> 0 then Some ([], r)
      else if rx_in r = rx_in ?r2 then Some ([], ?r2) else uart_read_loop intr others space flags ?r2)"
    using run by (subst uart_read_loop.simps) (simp add: av)
  show ?thesis
  proof (cases "flags AND O_NONBLOCK \<noteq> 0 \<or> rx_in r = rx_in ?r2")
    case True
    then show ?thesis using un i r2(1) by (cases "flags AND O_NONBLOCK \<noteq> 0") auto
  next
    case ne: False
    then have "rx_in ?r2 \<noteq> rx_out ?r2" using True r2(2) by metis
    from uart_read_loop_data [OF env(1) r2(1) sp this, of others flags] show ?thesis
      unfolding un using ne by auto
  qed
qed

lemma reader_inv_irq: "reader_inv C r \<Longrightarrow> reader_inv C (uart_irq_on m r)"
  unfolding reader_inv_def using uart_irq_on_fifo by blast

lemma uart_read_bytes:
  assumes "reader_env intr" "reader_env others" "reader_inv C r" "OSRunning (os r)"
  shows "\<exists>res r'. altera_avalon_jtag_uart_read intr others space flags r = Some (res, r') \<and>
    (case res of
       Inr bytes \<Rightarrow> bytes \<noteq> [] \<and> int (length bytes) \<le> space \<and> reader_inv (C @ bytes) r'
     | Inl err \<Rightarrow> err = (if flags AND O_NONBLOCK \<noteq> 0 then EWOULDBLOCK else EIO) \<and> reader_inv C r')"
proof -
  let ?r1 = "alt_sem_pend others (read_lock r) r"
  have r1: "reader_inv C ?r1" "OSRunning (os ?r1)"
    using reader.sem_pend [OF assms(2,3)] assms(4) by (simp_all add: reader_kept_def)
  obtain bs r2 where r2: "(if space > 0 then uart_read_loop intr others (nat space) flags ?r1 else Some ([], ?r1)) =
      Some (bs, r2)" "reader_inv (C @ bs) r2" "bs \<noteq> [] \<longrightarrow> int (length bs) \<le> space"
  proof (cases "space > 0")
    case True
    then obtain bs r2 where "uart_read_loop intr others (nat space) flags ?r1 = Some (bs, r2)"
      "reader_inv (C @ bs) r2" "length bs \<le> nat space"
      using uart_read_loop_ok [OF assms(1,2) r1(1) _ r1(2), of "nat space" flags] by auto
    moreover from this(3) True have "int (length bs) \<le> space" by linarith
    ultimately show ?thesis using True that by simp
  next
    case False
    then show ?thesis using that [of "[]" ?r1] r1(1) by simp
  qed
  have r3: "reader_inv (C @ bs) (alt_sem_post others (read_lock r2) r2)"
    using reader.sem_post [OF assms(2) r2(2)] by blast
  show ?thesis
    unfolding altera_avalon_jtag_uart_read_def Let_def r2(1)
    using r2(3) r3 reader_inv_irq [OF r3] by (cases "bs = []") auto
qed

text \<open>
  C19: Reading the console keeps the bytes in order.  With the kernel running, a read ends; the bytes it
  returns are the next ones received from the bus, none lost, doubled or out of order, and at most as
  many as asked for - although interrupts put bytes into the buffer at any point, and whatever else goes
  on that does not read.  Without bytes the result is an error.
\<close>

theorem uart_read_fifo:
  assumes "reader_env intr" "reader_env others" "reader_inv C r" "OSRunning (os r)"
  shows "\<exists>res r'. altera_avalon_jtag_uart_read intr others space flags r = Some (res, r') \<and>
    (case res of
       Inr bytes \<Rightarrow> bytes \<noteq> [] \<and> int (length bytes) \<le> space \<and> reader_inv (C @ bytes) r'
     | Inl err \<Rightarrow> err = (if flags AND O_NONBLOCK \<noteq> 0 then EWOULDBLOCK else EIO) \<and> reader_inv C r')"
  by (rule uart_read_bytes [OF assms])

text \<open>
  A reader may be told that the host is gone while it is there: the flag that says that a byte has
  come is not taken back when a read finds bytes in the buffer; the next read on an empty buffer, while
  nothing comes from the bus, takes the old flag for a new byte, finds none and returns \<open>EIO\<close> at once
  instead of waiting.
\<close>

theorem uart_read_stale_flag:
  assumes run: "OSRunning (os r)" "can_sched (os r)" and empty: "rx_in r = rx_out r" and sp: "space > 0"
    and block: "flags AND O_NONBLOCK = 0" and host: "host_inactive r < ju_timeout r"
    and lock: "read_lock r = PEvent e" "OSEventType (OSEventTbl (os r) e) = OS_EVENT_TYPE_SEM"
      "sem_count e (os r) > 0"
    and flag: "ju_events r = PFlagGrp g" "OSFlagType (OSFlagTbl (os r) g) = OS_EVENT_TYPE_FLAG"
      "OSFlagFlags (OSFlagTbl (os r) g) AND READ_RDY \<noteq> 0"
    and calm: "\<And>r'. intr r' = r'"
  shows "\<exists>r'. altera_avalon_jtag_uart_read intr others space flags r = Some (Inl EIO, r')"
proof -
  let ?s = "upd_event e (\<lambda>ev. ev\<lparr>OSEventCnt := OSEventCnt ev - 1\<rparr>) (os r)"
  let ?r1 = "r\<lparr>os := ?s\<rparr>"
  have "OSEventCnt (OSEventTbl (os r) e) > 0" using lock(3) by (simp add: sem_count_def word_less_nat_alt)
  then have r1: "alt_sem_pend others (read_lock r) r = ?r1"
    using lock(1,2) run(2) by (simp add: alt_sem_pend_def OSSemPend_def Let_def can_sched_def)
  have fl: "OSFlagFlags (OSFlagTbl (os r) g) AND (READ_RDY OR UART_TIMEOUT) \<noteq> 0"
  proof
    assume "OSFlagFlags (OSFlagTbl (os r) g) AND (READ_RDY OR UART_TIMEOUT) = 0"
    then have "(OSFlagFlags (OSFlagTbl (os r) g) AND (READ_RDY OR UART_TIMEOUT)) AND READ_RDY = 0" by simp
    then show False using flag(3) by (simp add: and.assoc)
  qed
  have wt: "flag_wait_type (OS_FLAG_WAIT_SET_ANY + OS_FLAG_CONSUME) = OS_FLAG_WAIT_SET_ANY"
    by (simp add: flag_wait_type_def flag_consumes_def)
  obtain x s2 where p: "OSFlagPend (PFlagGrp g) (READ_RDY OR UART_TIMEOUT)
      (OS_FLAG_WAIT_SET_ANY + OS_FLAG_CONSUME) 0 True ?s = (Done x, s2)"
    using flag(2) fl run(2) unfolding OSFlagPend_def Let_def wt
    by (simp add: can_sched_def flag_test_def upd_event_def)
  have av: "uart_read_avail intr (nat space) ?r1 = ([], rx_in r, ?r1)"
    using empty by (subst uart_read_avail.simps) (simp add: Let_def)
  have "uart_read_loop intr others (nat space) flags ?r1 = Some ([], ?r1\<lparr>os := s2\<rparr>)"
    using p run(1) block flag(1) by (subst uart_read_loop.simps) (simp add: av alt_flag_pend_def calm)
  then show ?thesis
    using sp block unfolding altera_avalon_jtag_uart_read_def Let_def r1 by simp
qed

text \<open>
  At concrete inputs: the example's driver, with its own interrupt routine as what goes on meanwhile and a
  received byte at the bus.
\<close>

lemma demo_uart_inv: "reader_inv [] demo_uart" "writer_inv [] demo_uart" "OSRunning (os demo_uart)"
proof -
  show "reader_inv [] demo_uart" "writer_inv [] demo_uart"
    using demo_uart_fifo by (auto simp: reader_inv_def writer_inv_def)
  show "OSRunning (os demo_uart)" by (simp add: demo_uart_def upd_event_def upd_flag_def demo_def)
qed

theorem uart_read_fifo_witness:
  "\<exists>res r'. altera_avalon_jtag_uart_read (uart_isr demo_bus) (uart_isr demo_bus) 4 0 demo_uart = Some (res, r') \<and>
    (case res of Inr bytes \<Rightarrow> bytes \<noteq> [] \<and> length bytes \<le> 4 \<and> reader_inv bytes r' | Inl err \<Rightarrow> err = EIO)"
  using uart_read_fifo [OF uart_isr_env(1) uart_isr_env(1) demo_uart_inv(1,3), of demo_bus demo_bus 4 0]
  by (auto split: sum.splits)

theorem uart_read_stale_flag_witness:
  "\<exists>r'. altera_avalon_jtag_uart_read (\<lambda>r. r) (uart_isr demo_bus) 4 0 demo_uart = Some (Inl EIO, r')"
  by (rule uart_read_stale_flag [where e = 1 and g = 0])
    (simp_all add: demo_uart_def upd_event_def upd_flag_def demo_def can_sched_def sem_count_def event_zero_def)

section \<open>Writing\<close>

lemma writer_shrinks:
  assumes "uart_fifo C A r" "uart_fifo C' A r'" "writer_kept r r'"
  shows "length (tx_data r') \<le> length (tx_data r)"
proof -
  obtain t where "trace r' = t @ trace r" "ju_base r' = ju_base r" using assms(3) by (auto simp: writer_kept_def)
  then have "tx_data r = tx_sent (ju_base r) t @ tx_data r'"
    using uart_fifoD(10) [OF assms(1)] uart_fifoD(10) [OF assms(2)] by (auto simp: tx_sent_append)
  then show ?thesis by simp
qed

lemma uart_room:
  assumes "uart_fifo C A r"
  shows "unat (if tx_in r < tx_out r then tx_out r - 1 - tx_in r
      else if tx_out r > 0 then BUF_LEN - tx_in r else BUF_LEN - 1 - tx_in r) =
      ring_room 2048 (unat (tx_out r)) (unat (tx_in r))"
    and "ring_room 2048 (unat (tx_out r)) (unat (tx_in r)) = min (2048 - unat (tx_in r)) (2047 - length (tx_data r))"
    and "ring_room 2048 (unat (tx_out r)) (unat (tx_in r)) = 0 \<longleftrightarrow> (tx_in r + 1) mod BUF_LEN = tx_out r"
proof -
  note d = uart_fifoD [OF assms]
  have 1: "unat (tx_out r - 1 - tx_in r) = unat (tx_out r) - 1 - unat (tx_in r)" if "tx_in r < tx_out r"
    using that by (simp add: word_less_nat_alt unat_sub_if')
  have 2: "unat (BUF_LEN - tx_in r) = 2048 - unat (tx_in r)" "unat (BUF_LEN - 1 - tx_in r) = 2047 - unat (tx_in r)"
    using d(7) by (simp_all add: unat_sub_if')
  have 3: "tx_in r < tx_out r \<longleftrightarrow> unat (tx_in r) < unat (tx_out r)" "tx_out r > 0 \<longleftrightarrow> unat (tx_out r) > 0"
    by (simp_all add: word_less_nat_alt)
  show "unat (if tx_in r < tx_out r then tx_out r - 1 - tx_in r
      else if tx_out r > 0 then BUF_LEN - tx_in r else BUF_LEN - 1 - tx_in r) =
      ring_room 2048 (unat (tx_out r)) (unat (tx_in r))"
    unfolding ring_room_def 3 [symmetric]
    by (cases "tx_in r < tx_out r"; cases "tx_out r > 0") (simp_all only: if_True if_False 1 2)
  show "ring_room 2048 (unat (tx_out r)) (unat (tx_in r)) = min (2048 - unat (tx_in r)) (2047 - length (tx_data r))"
    using ring_room_min [of "unat (tx_out r)" "tx_buf r" "unat (tx_in r)"] d(6-8) by (simp add: tx_data_def)
  have "ring_room 2048 (unat (tx_out r)) (unat (tx_in r)) = 0 \<longleftrightarrow> unat ((tx_in r + 1) mod BUF_LEN) = unat (tx_out r)"
    using ring_room_0 [OF d(8,7)] unat_step1(1) [OF d(9)] by simp
  then show "ring_room 2048 (unat (tx_out r)) (unat (tx_in r)) = 0 \<longleftrightarrow> (tx_in r + 1) mod BUF_LEN = tx_out r"
    by (simp only: word_unat_eq_iff [of "(tx_in r + 1) mod BUF_LEN"])
qed

text \<open>A block is copied while interrupts take bytes out of the buffer.\<close>

lemma uart_put_block:
  assumes f: "uart_fifo C A r" and env: "writer_env intr"
    and n: "length xs \<le> ring_room 2048 (unat (tx_out r)) (unat (tx_in r))"
  defines "r1 \<equiv> intr r"
  defines "r2 \<equiv> r1\<lparr>tx_buf := take (unat (tx_in r)) (tx_buf r1) @ xs @ drop (unat (tx_in r) + length xs) (tx_buf r1)\<rparr>"
  defines "r3 \<equiv> intr r2"
  defines "r4 \<equiv> r3\<lparr>tx_in := (tx_in r + of_nat (length xs)) mod BUF_LEN\<rparr>"
  shows "writer_inv (A @ xs) r4" "OSRunning (os r4) \<longleftrightarrow> OSRunning (os r)"
proof -
  have i: "writer_inv A r" using f by (auto simp: writer_inv_def)
  note e1 = env_keepsD [OF env i, folded r1_def]
  obtain C1 where f1: "uart_fifo C1 A r1" using e1 by (auto simp: writer_inv_def)
  have k1: "tx_in r1 = tx_in r" using e1 by (simp add: writer_kept_def)
  have n1: "length xs \<le> ring_room 2048 (unat (tx_out r1)) (unat (tx_in r1))"
    using n uart_room(2) [OF f] uart_room(2) [OF f1, unfolded k1] k1
      diff_le_mono2 [OF writer_shrinks [OF f f1 conjunct2 [OF e1]], of 2047]
    by (simp only: k1) linarith
  have le: "unat (tx_in r) + length xs \<le> 2048" using n uart_room(2) [OF f] uart_fifoD(7) [OF f] by linarith
  have len2: "length (tx_buf r2) = 2048" using le uart_fifoD(6) [OF f1] by (simp add: r2_def)
  have "tx_data r2 = tx_data r1"
    using ring_write_free [of "unat (tx_out r1)" "tx_buf r1" "unat (tx_in r1)" xs] n1 uart_fifoD(6-8) [OF f1] k1
    by (simp add: tx_data_def r2_def)
  then have f2: "uart_fifo C1 A r2"
    using f1 len2 by (simp add: uart_fifo_def rx_inv_def tx_inv_def rx_data_def) (simp add: r2_def)
  then have "writer_inv A r2" by (auto simp: writer_inv_def)
  note e3 = env_keepsD [OF env this, folded r3_def]
  obtain C3 where f3: "uart_fifo C3 A r3" using e3 by (auto simp: writer_inv_def)
  have k2: "tx_in r2 = tx_in r" by (simp add: r2_def k1)
  have k3: "tx_in r3 = tx_in r" "tx_buf r3 = tx_buf r2" using e3 by (simp_all add: writer_kept_def k2)
  have n3: "length xs \<le> ring_room 2048 (unat (tx_out r3)) (unat (tx_in r3))"
    using n1 uart_room(2) [OF f1] uart_room(2) [OF f3]
      diff_le_mono2 [OF writer_shrinks [OF f2 f3 conjunct2 [OF e3]], of 2047, unfolded \<open>tx_data r2 = tx_data r1\<close>]
    unfolding k1 k3(1) by linarith
  have buf: "take (unat (tx_in r3)) (tx_buf r3) @ xs @ drop (unat (tx_in r3) + length xs) (tx_buf r3) = tx_buf r3"
    using le uart_fifoD(6,7) [OF f1] k1 k3 by (simp add: r2_def)
  have st: "unat (tx_in r4) = (unat (tx_in r) + length xs) mod 2048" "tx_in r4 < BUF_LEN"
    using unat_step [OF uart_fifoD(9) [OF f], of "length xs"] le by (simp_all add: r4_def)
  have "tx_data r4 = tx_data r3 @ xs"
    using ring_put_block(1) [of "unat (tx_out r3)" "tx_buf r3" "unat (tx_in r3)" xs] n3 uart_fifoD(6-8) [OF f3] buf st(1) k3(1)
    by (simp add: tx_data_def r4_def)
  then have "uart_fifo C3 (A @ xs) r4"
    using f3 st(2) by (simp add: uart_fifo_def rx_inv_def tx_inv_def rx_data_def) (simp add: r4_def)
  then show "writer_inv (A @ xs) r4" by (auto simp: writer_inv_def)
  show "OSRunning (os r4) \<longleftrightarrow> OSRunning (os r)" using e1 e3 by (simp add: writer_kept_def r4_def) (simp add: r2_def)
qed

lemma uart_write_avail_ok:
  assumes "writer_env intr" "writer_inv A r"
  shows "\<exists>k out r'. uart_write_avail intr bytes out0 r = (drop k bytes, out, r') \<and> k \<le> length bytes \<and>
    writer_inv (A @ take k bytes) r' \<and> (OSRunning (os r') \<longleftrightarrow> OSRunning (os r)) \<and>
    (k < length bytes \<longrightarrow> (tx_in r' + 1) mod BUF_LEN = out) \<and>
    (bytes \<noteq> [] \<and> (tx_in r + 1) mod BUF_LEN \<noteq> tx_out r \<longrightarrow> 0 < k)"
  using assms(2)
proof (induction "length bytes" arbitrary: A bytes out0 r rule: less_induct)
  case less
  show ?case
  proof (cases "bytes = []")
    case True
    then show ?thesis using less.prems by (subst uart_write_avail.simps) auto
  next
    case ne: False
    obtain C where f: "uart_fifo C A r" using less.prems by (auto simp: writer_inv_def)
    let ?a = "ring_room 2048 (unat (tx_out r)) (unat (tx_in r))"
    let ?n = "min ?a (length bytes)" and ?r1 = "intr r"
    let ?xs = "take ?n bytes"
    let ?r2 = "?r1\<lparr>tx_buf := take (unat (tx_in r)) (tx_buf ?r1) @ ?xs @ drop (unat (tx_in r) + ?n) (tx_buf ?r1)\<rparr>"
    let ?r4 = "(intr ?r2)\<lparr>tx_in := (tx_in r + of_nat ?n) mod BUF_LEN\<rparr>"
    have un: "uart_write_avail intr bytes out0 r =
        (if ?a = 0 then (bytes, tx_out r, r) else uart_write_avail intr (drop ?n bytes) (tx_out r) ?r4)"
      using ne uart_room(1) [OF f] by (subst uart_write_avail.simps) (simp only: Let_def if_False)
    show ?thesis
    proof (cases "?a = 0")
      case True
      then show ?thesis
        using un uart_room(3) [OF f] less.prems by (intro exI [of _ 0] exI [of _ "tx_out r"] exI [of _ r]) auto
    next
      case False
      have len: "length ?xs = ?n" by simp
      have "length ?xs \<le> ?a" by simp
      note b = uart_put_block [OF f assms(1) this, unfolded len]
      have "length (drop ?n bytes) < length bytes" using False ne by simp
      from less.hyps [OF this b(1), of "tx_out r"] obtain k out r' where r':
        "uart_write_avail intr (drop ?n bytes) (tx_out r) ?r4 = (drop k (drop ?n bytes), out, r')"
        "k \<le> length (drop ?n bytes)" "writer_inv ((A @ ?xs) @ take k (drop ?n bytes)) r'"
        "OSRunning (os r') \<longleftrightarrow> OSRunning (os ?r4)"
        "k < length (drop ?n bytes) \<longrightarrow> (tx_in r' + 1) mod BUF_LEN = out" by blast
      have t: "(A @ ?xs) @ take k (drop ?n bytes) = A @ take (?n + k) bytes" by (simp add: take_add)
      have "uart_write_avail intr bytes out0 r = (drop (?n + k) bytes, out, r')"
        using un False r'(1) by (simp add: add.commute)
      then show ?thesis
        using r'(2-5) b(2) False ne unfolding t
        by (intro exI [of _ "?n + k"] exI [of _ out] exI [of _ r']) auto
    qed
  qed
qed

text \<open>
  The outer loop ends: after a wait that was worth while the buffer has room, so that every other round
  takes at least one byte.
\<close>

lemma uart_write_loop_ok:
  assumes env: "writer_env intr" "writer_env others"
  shows "writer_inv A r \<Longrightarrow> OSRunning (os r) \<Longrightarrow>
    \<exists>k r'. uart_write_loop intr others bytes out0 flags r = Some (drop k bytes, r') \<and> k \<le> length bytes \<and>
      writer_inv (A @ take k bytes) r'"
proof (induction "2 * length bytes + (if (tx_in r + 1) mod BUF_LEN = tx_out r then 1 else 0)"
    arbitrary: A bytes out0 r rule: less_induct)
  case less
  obtain k out r1 where r1: "uart_write_avail intr bytes out0 r = (drop k bytes, out, r1)" "k \<le> length bytes"
    "writer_inv (A @ take k bytes) r1" "OSRunning (os r1) \<longleftrightarrow> OSRunning (os r)"
    "k < length bytes \<longrightarrow> (tx_in r1 + 1) mod BUF_LEN = out"
    "bytes \<noteq> [] \<and> (tx_in r + 1) mod BUF_LEN \<noteq> tx_out r \<longrightarrow> 0 < k"
    using uart_write_avail_ok [OF env(1) less.prems(1)] by blast
  let ?i = "uart_irq_on CONTROL_WE r1"
  let ?r2 = "intr ?i"
  let ?r3 = "alt_flag_pend others (ju_events ?r2) (WRITE_RDY OR UART_TIMEOUT) (OS_FLAG_WAIT_SET_ANY + OS_FLAG_CONSUME) ?r2"
  have i: "writer_inv (A @ take k bytes) ?i" "OSRunning (os ?i)" "tx_in ?i = tx_in r1"
    using r1(3,4) less.prems(2) uart_irq_on_fifo [of _ _ r1 CONTROL_WE]
    by (auto simp: writer_inv_def uart_kept_def uart_irq_on_def IOWR_def Let_def)
  have r2: "writer_inv (A @ take k bytes) ?r2" "OSRunning (os ?r2)" "tx_in ?r2 = tx_in r1"
    using env_keepsD [OF env(1) i(1)] i(2,3) by (simp_all add: writer_kept_def)
  have r3: "writer_inv (A @ take k bytes) ?r3" "OSRunning (os ?r3)" "tx_in ?r3 = tx_in r1"
    using writer.flag_pend [OF env(2) r2(1)] r2(2,3) by (simp_all add: writer_kept_def)
  have un: "uart_write_loop intr others bytes out0 flags r =
      (if drop k bytes = [] then Some ([], ?r2)
       else if flags AND O_NONBLOCK \<noteq> 0 then Some (drop k bytes, ?r2)
       else if out = tx_out ?r3 then Some (drop k bytes, ?r3)
       else uart_write_loop intr others (drop k bytes) out flags ?r3)"
    using r2(2) by (subst uart_write_loop.simps) (simp only: r1(1) Let_def prod.case if_True option.case)
  show ?case
  proof (cases "drop k bytes = [] \<or> flags AND O_NONBLOCK \<noteq> 0 \<or> out = tx_out ?r3")
    case True
    have "drop k bytes = [] \<Longrightarrow> Some ([], ?r2) = Some (drop k bytes, ?r2)" by simp
    then have "uart_write_loop intr others bytes out0 flags r = Some (drop k bytes, ?r2) \<or>
        uart_write_loop intr others bytes out0 flags r = Some (drop k bytes, ?r3)"
      unfolding un using True by presburger
    then show ?thesis using r1(2) r2(1) r3(1) by blast
  next
    case False
    then have lt: "k < length bytes" by simp
    then have full: "(tx_in ?r3 + 1) mod BUF_LEN = out" using r1(5) r3(3) by metis
    then have room: "(tx_in ?r3 + 1) mod BUF_LEN \<noteq> tx_out ?r3" using False by metis
    have "2 * length (drop k bytes) + (if (tx_in ?r3 + 1) mod BUF_LEN = tx_out ?r3 then 1 else 0) <
        2 * length bytes + (if (tx_in r + 1) mod BUF_LEN = tx_out r then 1 else 0)"
    proof (cases "k = 0")
      case True
      then have "(tx_in r + 1) mod BUF_LEN = tx_out r" using r1(6) lt by fastforce
      then show ?thesis using room True by simp
    next
      case nz: False
      then have "2 * length (drop k bytes) < 2 * length bytes" using lt by simp
      then show ?thesis using room by (simp only: if_False trans_less_add1)
    qed
    from less.hyps [OF this r3(1,2)] obtain k' r' where
      r': "uart_write_loop intr others (drop k bytes) out flags ?r3 = Some (drop k' (drop k bytes), r')"
      "k' \<le> length (drop k bytes)" "writer_inv ((A @ take k bytes) @ take k' (drop k bytes)) r'" by blast
    have "uart_write_loop intr others bytes out0 flags r = Some (drop (k + k') bytes, r')"
      unfolding un r'(1) using False by (simp add: add.commute)
    moreover have "(A @ take k bytes) @ take k' (drop k bytes) = A @ take (k + k') bytes" by (simp add: take_add)
    moreover have "k + k' \<le> length bytes" using r'(2) r1(2) by simp
    ultimately show ?thesis using r'(3) by auto
  qed
qed

lemma uart_write_bytes:
  assumes "writer_env intr" "writer_env others" "writer_inv A r" "OSRunning (os r)"
  shows "\<exists>res r'. altera_avalon_jtag_uart_write intr others bytes flags r = Some (res, r') \<and>
    (case res of
       Inr n \<Rightarrow> 0 < n \<and> n \<le> length bytes \<and> writer_inv (A @ take n bytes) r'
     | Inl err \<Rightarrow> err = (if flags AND O_NONBLOCK \<noteq> 0 then EWOULDBLOCK else EIO) \<and> writer_inv A r')"
proof -
  let ?r1 = "alt_sem_pend others (write_lock r) r"
  have r1: "writer_inv A ?r1" "OSRunning (os ?r1)"
    using writer.sem_pend [OF assms(2,3)] assms(4) by (simp_all add: writer_kept_def)
  obtain k r2 where r2: "uart_write_loop intr others bytes 0 flags ?r1 = Some (drop k bytes, r2)"
    "k \<le> length bytes" "writer_inv (A @ take k bytes) r2"
    using uart_write_loop_ok [OF assms(1,2) r1] by blast
  have r3: "writer_inv (A @ take k bytes) (alt_sem_post others (write_lock r2) r2)"
    using writer.sem_post [OF assms(2) r2(3)] by blast
  have n: "length bytes - length (drop k bytes) = k" using r2(2) by simp
  show ?thesis
    unfolding altera_avalon_jtag_uart_write_def Let_def r2(1) option.case prod.case n
    using r2(2) r3 by (cases "k = 0") auto
qed

text \<open>
  C20: Writing to the console keeps the bytes in order.  With the kernel running, a write ends; it takes
  a number of bytes from the front of what it was given, at least one, and what goes to the bus is what was
  taken before followed by these bytes, none lost, doubled or out of order - although interrupts take bytes
  out of the buffer at any point, and whatever else goes on that does not write.  If no byte is taken the
  result is an error.
\<close>

theorem uart_write_fifo:
  assumes "writer_env intr" "writer_env others" "writer_inv A r" "OSRunning (os r)"
  shows "\<exists>res r'. altera_avalon_jtag_uart_write intr others bytes flags r = Some (res, r') \<and>
    (case res of
       Inr n \<Rightarrow> 0 < n \<and> n \<le> length bytes \<and> writer_inv (A @ take n bytes) r'
     | Inl err \<Rightarrow> err = (if flags AND O_NONBLOCK \<noteq> 0 then EWOULDBLOCK else EIO) \<and> writer_inv A r')"
  by (rule uart_write_bytes [OF assms])

theorem uart_write_fifo_witness:
  "\<exists>res r'. altera_avalon_jtag_uart_write (uart_isr demo_bus) (uart_isr demo_bus) [72, 105] 0 demo_uart = Some (res, r') \<and>
    (case res of Inr n \<Rightarrow> 0 < n \<and> n \<le> 2 \<and> writer_inv (take n [72, 105]) r' | Inl err \<Rightarrow> err = EIO)"
  using uart_write_fifo [OF uart_isr_env(2) uart_isr_env(2) demo_uart_inv(2,3), of demo_bus demo_bus "[72, 105]" 0]
  by (elim exE conjE) (intro exI conjI, assumption, auto split: sum.splits)

end
