(* ===== verification/Hal_Open.thy ===== *)
theory Hal_Open
  imports Hal_File Hal_Tty
begin

text \<open>
  What the system calls on files promise: names are resolved as documented, a descriptor is taken and given
  back as a whole, an exclusively held device stays closed to others, and output to the standard
  descriptors reaches the console in order.
\<close>

section \<open>Looking up names\<close>

text \<open>\<open>ds\<close> and \<open>fs\<close> are the registered devices and file systems, in the order of their lists.\<close>

definition name_ok :: "u8 list option \<Rightarrow> bool" where
  "name_ok nm \<longleftrightarrow> (case nm of None \<Rightarrow> False | Some n \<Rightarrow> 0 \<notin> set n)"

definition devs_ok :: "(nat \<Rightarrow> 'w alt_dev) \<Rightarrow> nat list \<Rightarrow> nat list \<Rightarrow> 'a hal_files_scheme \<Rightarrow> bool" where
  "devs_ok devs ds fs r \<longleftrightarrow> on_list (dev_links r) DevList (map Dev ds) \<and> on_list (dev_links r) FsList (map Dev fs) \<and>
     (\<forall>d \<in> set ds \<union> set fs. name_ok (dev_name (devs d))) \<and> (\<forall>d \<in> set fs. dev_name (devs d) \<noteq> Some [])"

lemma mem_eq_string:
  assumes "0 \<notin> set xs"
  shows "mem_eq (length ys + 1) xs ys \<longleftrightarrow> xs = ys"
proof
  assume m: "mem_eq (length ys + 1) xs ys"
  then have t: "take (length ys + 1) (xs @ [0]) = ys @ [0]" and l: "length ys \<le> length xs" by (simp_all add: mem_eq_def)
  show "xs = ys"
  proof (cases "length xs = length ys")
    case True
    then show ?thesis using t by simp
  next
    case False
    then have "take (length ys + 1) xs = ys @ [0]" using t l by simp
    then have "0 \<in> set (take (length ys + 1) xs)" by simp
    then show ?thesis using assms in_set_takeD by fastforce
  qed
qed (simp add: mem_eq_def)

lemma find_dev_walk_list:
  assumes "on_list lk h (pre @ map Dev ds)" "\<forall>d \<in> set ds. name_ok (names d)" "h \<in> {DevList, FsList, FlashList}"
  shows "find_dev_walk names lk name (length name + 1) h (if ds = [] then h else Dev (hd ds)) =
    Some (find (\<lambda>d. names d = Some name) ds)"
  using assms(1,2)
proof (induction ds arbitrary: pre)
  case Nil
  then show ?case by (subst find_dev_walk.simps) simp
next
  case (Cons d ds)
  obtain dn where dn: "names d = Some dn" "0 \<notin> set dn"
    using Cons.prems(2) by (auto simp: name_ok_def split: option.splits)
  have "on_list lk h (pre @ Dev d # map Dev ds)" using Cons.prems(1) by simp
  from on_list_next [OF this] have n: "ll_next (lk (Dev d)) = (if ds = [] then h else Dev (hd ds))"
    by (simp add: hd_map)
  have "find_dev_walk names lk name (length name + 1) h (Dev d) = (if dn = name then Some (Some d)
      else find_dev_walk names lk name (length name + 1) h (if ds = [] then h else Dev (hd ds)))"
    using assms(3) dn mem_eq_string [OF dn(2), of name] by (subst find_dev_walk.simps) (auto simp: n)
  then show ?case using Cons.IH [of "pre @ [Dev d]"] Cons.prems dn(1) by simp
qed

lemma alt_find_dev_eq:
  assumes "devs_ok devs ds fs r"
  shows "alt_find_dev (\<lambda>d. dev_name (devs d)) name DevList r = Some (find (\<lambda>d. dev_name (devs d) = Some name) ds)"
proof -
  have l: "on_list (dev_links r) DevList (map Dev ds)" "\<forall>d \<in> set ds. name_ok (dev_name (devs d))"
    using assms by (simp_all add: devs_ok_def)
  have "ll_next (dev_links r DevList) = (if ds = [] then DevList else Dev (hd ds))"
    using on_list_first [OF l(1)] by (simp add: hd_map)
  then show ?thesis
    using find_dev_walk_list [of _ _ "[]" _ "\<lambda>d. dev_name (devs d)", simplified, OF l(1,2), of name] by (simp add: alt_find_dev_def Let_def)
qed

text \<open>A mount point owns the names that continue it after a slash, and its own name.\<close>

definition mount_base :: "u8 list \<Rightarrow> u8 list" where
  "mount_base fs = (if last fs = slash then butlast fs else fs)"

definition mount_owns :: "u8 list \<Rightarrow> u8 list \<Rightarrow> bool" where
  "mount_owns fs name \<longleftrightarrow> (\<exists>rest. name = mount_base fs @ rest \<and> (rest = [] \<or> hd rest = slash))"

lemma fs_owns_correct:
  assumes "fs \<noteq> []" "0 \<notin> set fs" "0 \<notin> set name"
  shows "fs_owns fs name = Some (mount_owns fs name)"
proof -
  let ?b = "mount_base fs" and ?n = "length (mount_base fs)"
  have b: "?b = take ?n fs" "?n \<le> length fs" by (auto simp: mount_base_def butlast_conv_take)
  have len: "(if fs ! (length fs - 1) = slash then length fs - 1 else length fs) = ?n"
    using assms(1) by (simp add: mount_base_def last_conv_nth)
  have m: "mem_eq ?n fs name \<longleftrightarrow> take ?n name = ?b" if "?n \<le> length name"
    using that b by (auto simp: mem_eq_def)
  have "?n \<le> length name \<and> ((name @ [0]) ! ?n = slash \<or> (name @ [0]) ! ?n = 0) \<and> take ?n name = ?b \<longleftrightarrow> mount_owns fs name"
  proof
    assume a: "?n \<le> length name \<and> ((name @ [0]) ! ?n = slash \<or> (name @ [0]) ! ?n = 0) \<and> take ?n name = ?b"
    then have n: "name = ?b @ drop ?n name" using append_take_drop_id [of ?n name] by metis
    moreover have "drop ?n name = [] \<or> hd (drop ?n name) = slash"
    proof (cases "?n < length name")
      case True
      then have "name ! ?n \<noteq> 0" using assms(3) nth_mem by metis
      then show ?thesis using a True by (simp add: nth_append hd_drop_conv_nth)
    qed simp
    ultimately show "mount_owns fs name" unfolding mount_owns_def by blast
  next
    assume "mount_owns fs name"
    then obtain rest where rest: "name = ?b @ rest" "rest = [] \<or> hd rest = slash" by (auto simp: mount_owns_def)
    then show "?n \<le> length name \<and> ((name @ [0]) ! ?n = slash \<or> (name @ [0]) ! ?n = 0) \<and> take ?n name = ?b"
      by (cases rest) (auto simp: nth_append)
  qed
  moreover have "fs_owns fs name = Some (?n \<le> length name \<and> ((name @ [0]) ! ?n = slash \<or> (name @ [0]) ! ?n = 0) \<and>
      mem_eq ?n fs name)"
    using assms(1) by (simp only: fs_owns_def Let_def len if_False)
  ultimately show ?thesis using m by (cases "?n \<le> length name") simp_all
qed

lemma find_file_walk_list:
  assumes "on_list lk FsList (pre @ map Dev fs)" "\<forall>d \<in> set fs. name_ok (dev_name (devs d)) \<and> dev_name (devs d) \<noteq> Some []"
    and "0 \<notin> set name"
  shows "find_file_walk devs lk name (if fs = [] then FsList else Dev (hd fs)) =
    Some (find (\<lambda>d. mount_owns (the (dev_name (devs d))) name) fs)"
  using assms(1,2)
proof (induction fs arbitrary: pre)
  case Nil
  then show ?case by (subst find_file_walk.simps) simp
next
  case (Cons d fs)
  obtain dn where dn: "dev_name (devs d) = Some dn" "0 \<notin> set dn" "dn \<noteq> []"
    using Cons.prems(2) by (auto simp: name_ok_def split: option.splits)
  have "on_list lk FsList (pre @ Dev d # map Dev fs)" using Cons.prems(1) by simp
  from on_list_next [OF this] have n: "ll_next (lk (Dev d)) = (if fs = [] then FsList else Dev (hd fs))"
    by (simp add: hd_map)
  have "find_file_walk devs lk name (Dev d) = (if mount_owns dn name then Some (Some d)
      else find_file_walk devs lk name (if fs = [] then FsList else Dev (hd fs)))"
    by (subst find_file_walk.simps) (simp add: n dn(1) fs_owns_correct [OF dn(3,2) assms(3)])
  then show ?case using Cons.IH [of "pre @ [Dev d]"] Cons.prems dn(1) by simp
qed

lemma alt_find_file_eq:
  assumes "devs_ok devs ds fs r" "0 \<notin> set name"
  shows "alt_find_file devs name r = Some (find (\<lambda>d. mount_owns (the (dev_name (devs d))) name) fs)"
proof -
  have l: "on_list (dev_links r) FsList (map Dev fs)"
    "\<forall>d \<in> set fs. name_ok (dev_name (devs d)) \<and> dev_name (devs d) \<noteq> Some []"
    using assms(1) by (auto simp: devs_ok_def)
  have "ll_next (dev_links r FsList) = (if fs = [] then FsList else Dev (hd fs))"
    using on_list_first [OF l(1)] by (simp add: hd_map)
  then show ?thesis
    using find_file_walk_list [of _ "[]", simplified, OF l(1,2) assms(2)] by (simp add: alt_find_file_def)
qed

text \<open>What a name stands for: a device of that name, or else the file system that owns it.\<close>

definition resolve :: "(nat \<Rightarrow> 'w alt_dev) \<Rightarrow> nat list \<Rightarrow> nat list \<Rightarrow> u8 list \<Rightarrow> (nat \<times> bool) option" where
  "resolve devs ds fs name =
     (case find (\<lambda>d. dev_name (devs d) = Some name) ds of
        Some d \<Rightarrow> Some (d, False)
      | None \<Rightarrow> map_option (\<lambda>d. (d, True)) (find (\<lambda>d. mount_owns (the (dev_name (devs d))) name) fs))"

section \<open>The descriptor table\<close>

text \<open>
  Descriptors 0 to 2 are always taken; a free one has no flags; \<open>alt_max_fd\<close> bounds the others.  At the start
  of the program it is -1, although three are taken.
\<close>

definition fds_ok :: "'a hal_files_scheme \<Rightarrow> bool" where
  "fds_ok r \<longleftrightarrow> length (alt_fd_list r) = ALT_MAX_FD \<and> (\<forall>i<3. fd_dev (alt_fd_list r ! i) \<noteq> None) \<and>
     - 1 \<le> sint (alt_max_fd r) \<and> sint (alt_max_fd r) < int ALT_MAX_FD \<and>
     (\<forall>i<ALT_MAX_FD. 3 \<le> i \<and> fd_dev (alt_fd_list r ! i) \<noteq> None \<longrightarrow> int i \<le> sint (alt_max_fd r)) \<and>
     (\<forall>i<ALT_MAX_FD. fd_dev (alt_fd_list r ! i) = None \<longrightarrow> fd_flags (alt_fd_list r ! i) = 0)"

text \<open>What matters of a descriptor to its users.\<close>

definition fd_key :: "alt_fd \<Rightarrow> nat option \<times> u32" where
  "fd_key fd = (fd_dev fd, fd_flags fd)"

definition fd_view :: "'a hal_files_scheme \<Rightarrow> (nat option \<times> u32) list" where
  "fd_view r = map fd_key (alt_fd_list r)"

definition free_fd :: "'a hal_files_scheme \<Rightarrow> nat option" where
  "free_fd r = find (\<lambda>i. fd_dev (alt_fd_list r ! i) = None) [0..<ALT_MAX_FD]"

definition dev_locked :: "nat \<Rightarrow> 'a hal_files_scheme \<Rightarrow> bool" where
  "dev_locked d r \<longleftrightarrow> (\<exists>j<ALT_MAX_FD. fd_dev (alt_fd_list r ! j) = Some d \<and>
     fd_flags (alt_fd_list r ! j) AND ALT_FD_EXCL \<noteq> 0)"

text \<open>While a call waits for the lock of the table, others do not change files.\<close>

definition same_files :: "'a hal_files_scheme \<Rightarrow> 'a hal_files_scheme \<Rightarrow> bool" where
  "same_files r r' \<longleftrightarrow> dev_links r' = dev_links r \<and> alt_fd_list r' = alt_fd_list r \<and> alt_max_fd r' = alt_max_fd r"

definition files_quiet :: "('a hal_files_scheme \<Rightarrow> 'a hal_files_scheme) \<Rightarrow> bool" where
  "files_quiet others \<longleftrightarrow> (\<forall>r. same_files r (others r))"

lemma same_files_os: "same_files r (r'\<lparr>os := s\<rparr>) = same_files r r'" "same_files (r\<lparr>os := s\<rparr>) r' = same_files r r'"
  by (simp_all add: same_files_def)

lemma same_files_trans: "same_files r1 r2 \<Longrightarrow> same_files r2 r3 \<Longrightarrow> same_files r1 r3"
  by (simp add: same_files_def)

lemma sem_same_files:
  assumes "files_quiet others"
  shows "same_files r (alt_sem_pend others e r)" "same_files r (alt_sem_post others e r)"
proof -
  have q: "same_files r (others (r\<lparr>os := s\<rparr>))" for s
    using assms same_files_os(2) by (auto simp: files_quiet_def)
  have "same_files r r" by (simp add: same_files_def)
  then show "same_files r (alt_sem_pend others e r)"
    using q by (auto simp: alt_sem_pend_def Let_def same_files_os split: call.split prod.split)
  show "same_files r (alt_sem_post others e r)" using q by (simp add: alt_sem_post_def)
qed

lemma same_files_view:
  assumes "same_files r r'"
  shows "fds_ok r' = fds_ok r" "devs_ok devs ds fs r' = devs_ok devs ds fs r" "fd_view r' = fd_view r"
    "free_fd r' = free_fd r" "dev_locked d r' = dev_locked d r"
  using assms by (simp_all add: same_files_def fds_ok_def devs_ok_def fd_view_def free_fd_def dev_locked_def)

text \<open>The search for a free descriptor.\<close>

definition take_fd :: "nat \<Rightarrow> nat \<Rightarrow> 'a hal_files_scheme \<Rightarrow> 'a hal_files_scheme" where
  "take_fd i dev r = (let r1 = upd_fd i (\<lambda>fd. fd\<lparr>fd_dev := Some dev\<rparr>) r
     in if int i > sint (alt_max_fd r1) then r1\<lparr>alt_max_fd := of_nat i\<rparr> else r1)"

lemma get_fd_loop_eq:
  "get_fd_loop n i dev r = (case find (\<lambda>j. fd_dev (alt_fd_list r ! j) = None) [i..<i + n] of
     None \<Rightarrow> (Inl EMFILE, r) | Some j \<Rightarrow> (Inr j, take_fd j dev r))"
proof (induction n arbitrary: i)
  case (Suc n)
  have "[i..<i + Suc n] = i # [Suc i..<Suc i + n]" by (simp add: upt_conv_Cons)
  then show ?case using Suc.IH [of "i + 1"] by (simp add: take_fd_def Let_def del: upt_Suc)
qed simp

lemma find_SomeD: "find P xs = Some x \<Longrightarrow> x \<in> set xs \<and> P x"
  by (induction xs) (auto split: if_splits)

lemma find_NoneD: "find P xs = None \<Longrightarrow> x \<in> set xs \<Longrightarrow> \<not> P x"
  by (simp add: find_None_iff)

lemma free_fd_Some:
  assumes "fds_ok r" "free_fd r = Some i"
  shows "3 \<le> i" "i < ALT_MAX_FD" "fd_dev (alt_fd_list r ! i) = None" "length (alt_fd_list r) = ALT_MAX_FD"
proof -
  show i: "i < ALT_MAX_FD" "fd_dev (alt_fd_list r ! i) = None"
    using find_SomeD [OF assms(2) [unfolded free_fd_def]] by simp_all
  show "3 \<le> i"
  proof (rule ccontr)
    assume "\<not> 3 \<le> i"
    then have "i < 3" by simp
    then show False using assms(1) i(2) unfolding fds_ok_def by blast
  qed
  show "length (alt_fd_list r) = ALT_MAX_FD" using assms(1) by (simp add: fds_ok_def)
qed

lemma sint_fd_number: "i < ALT_MAX_FD \<Longrightarrow> sint (of_nat i :: u32) = int i"
  by (simp add: signed_of_nat signed_take_bit_int_eq_self)

lemma take_fd_max:
  assumes "fds_ok r" "free_fd r = Some i"
  shows "int i \<le> sint (alt_max_fd (take_fd i d r))" "sint (alt_max_fd r) \<le> sint (alt_max_fd (take_fd i d r))"
    "sint (alt_max_fd (take_fd i d r)) < int ALT_MAX_FD"
  using assms(1) free_fd_Some [OF assms] sint_fd_number [of i]
  by (auto simp: take_fd_def Let_def upd_fd_def fds_ok_def)

lemma alt_get_fd_eq:
  assumes "files_quiet others"
  obtains r1 where
    "alt_get_fd others d r = (case free_fd r of None \<Rightarrow> Inl EMFILE | Some i \<Rightarrow> Inr i, r1)"
    "same_files (case free_fd r of None \<Rightarrow> r | Some i \<Rightarrow> take_fd i d r) r1"
proof -
  let ?p = "alt_sem_pend others (alt_fd_list_lock r) r"
  have p: "same_files r ?p" by (rule sem_same_files(1) [OF assms])
  then have f: "free_fd ?p = free_fd r" by (rule same_files_view(4))
  have t: "same_files (take_fd i d r) (take_fd i d ?p)" for i
    using p by (simp add: same_files_def take_fd_def Let_def upd_fd_def)
  have "get_fd_loop ALT_MAX_FD 0 d ?p = (case free_fd ?p of None \<Rightarrow> (Inl EMFILE, ?p) | Some j \<Rightarrow> (Inr j, take_fd j d ?p))"
    by (simp only: get_fd_loop_eq free_fd_def add_0)
  note l = this [unfolded f]
  show ?thesis
  proof (cases "free_fd r")
    case None
    then show ?thesis
      using that [of "alt_sem_post others (alt_fd_list_lock ?p) ?p"] p sem_same_files(2) [OF assms] l
      by (simp add: alt_get_fd_def Let_def) (blast intro: same_files_trans)
  next
    case (Some i)
    then show ?thesis
      using that [of "alt_sem_post others (alt_fd_list_lock (take_fd i d ?p)) (take_fd i d ?p)"] t
        sem_same_files(2) [OF assms] l
      by (simp add: alt_get_fd_def Let_def) (blast intro: same_files_trans)
  qed
qed

text \<open>Changing one descriptor that is not a standard one.\<close>

lemma fds_ok_upd:
  assumes "fds_ok r" "3 \<le> i" "alt_fd_list r' = (alt_fd_list r)[i := fd]"
    and "fd_dev fd = None \<Longrightarrow> fd_flags fd = 0" "fd_dev fd \<noteq> None \<Longrightarrow> int i \<le> sint (alt_max_fd r')"
    and "sint (alt_max_fd r) \<le> sint (alt_max_fd r')" "sint (alt_max_fd r') < int ALT_MAX_FD"
  shows "fds_ok r'"
proof -
  have o: "length (alt_fd_list r) = ALT_MAX_FD" "- 1 \<le> sint (alt_max_fd r)"
    "\<And>j. j < 3 \<Longrightarrow> fd_dev (alt_fd_list r ! j) \<noteq> None"
    "\<And>j. j < ALT_MAX_FD \<Longrightarrow> 3 \<le> j \<and> fd_dev (alt_fd_list r ! j) \<noteq> None \<longrightarrow> int j \<le> sint (alt_max_fd r)"
    "\<And>j. j < ALT_MAX_FD \<Longrightarrow> fd_dev (alt_fd_list r ! j) = None \<longrightarrow> fd_flags (alt_fd_list r ! j) = 0"
    using assms(1) by (simp_all add: fds_ok_def)
  have nth: "alt_fd_list r' ! j = (if j = i then fd else alt_fd_list r ! j)" if "j < ALT_MAX_FD" for j
    using that o(1) assms(3) by (simp add: nth_list_update)
  have "int j \<le> sint (alt_max_fd r')" if "j < ALT_MAX_FD" "3 \<le> j" "fd_dev (alt_fd_list r' ! j) \<noteq> None" for j
    using that nth [OF that(1)] o(4) [OF that(1)] assms(5,6) by (cases "j = i") auto
  moreover have "fd_dev (alt_fd_list r' ! j) \<noteq> None" if "j < 3" for j
    using nth [of j] that o(3) [OF that] assms(2) by simp
  moreover have "fd_flags (alt_fd_list r' ! j) = 0" if "j < ALT_MAX_FD" "fd_dev (alt_fd_list r' ! j) = None" for j
    using that nth [OF that(1)] o(5) [OF that(1)] assms(4) by (cases "j = i") auto
  ultimately show ?thesis
    using o(1,2) assms(3,6,7) by (simp add: fds_ok_def)
qed

lemma fd_view_upd: "alt_fd_list r' = (alt_fd_list r)[i := fd] \<Longrightarrow> fd_view r' = (fd_view r)[i := fd_key fd]"
  by (simp add: fd_view_def map_update)

lemma free_fd_view:
  assumes "fds_ok r" "free_fd r = Some i"
  shows "fd_view r ! i = (None, 0)"
proof -
  have i: "i < ALT_MAX_FD" "fd_dev (alt_fd_list r ! i) = None" "length (alt_fd_list r) = ALT_MAX_FD"
    using free_fd_Some [OF assms] by simp_all
  then have "fd_flags (alt_fd_list r ! i) = 0" using assms(1) unfolding fds_ok_def by blast
  then show ?thesis using i by (simp add: fd_view_def fd_key_def)
qed

section \<open>The two tests for exclusive use\<close>

lemma file_locked_loop_eq:
  assumes "length (alt_fd_list r) = ALT_MAX_FD" "unat (alt_max_fd r) < ALT_MAX_FD"
  shows "file_locked_loop fd i r = Some (\<exists>j. i \<le> j \<and> j \<le> unat (alt_max_fd r) \<and>
    fd_dev (alt_fd_list r ! j) = fd_dev (alt_fd_list r ! fd) \<and> fd_flags (alt_fd_list r ! j) AND ALT_FD_EXCL \<noteq> 0 \<and> j \<noteq> fd)"
  using assms
proof (induction fd i r rule: file_locked_loop.induct)
  case (1 fd i r)
  let ?P = "\<lambda>j. fd_dev (alt_fd_list r ! j) = fd_dev (alt_fd_list r ! fd) \<and>
    fd_flags (alt_fd_list r ! j) AND ALT_FD_EXCL \<noteq> 0 \<and> j \<noteq> fd"
  have split: "(\<exists>j. i \<le> j \<and> j \<le> m \<and> Q j) \<longleftrightarrow> i \<le> m \<and> (Q i \<or> (\<exists>j. i + 1 \<le> j \<and> j \<le> m \<and> Q j))" for m and Q :: "nat \<Rightarrow> bool"
    by (metis Suc_eq_plus1 Suc_leD le_antisym le_trans not_less_eq_eq order_refl)
  have un: "file_locked_loop fd i r = (if i \<le> unat (alt_max_fd r) then
      if i \<ge> length (alt_fd_list r) then None else if ?P i then Some True else file_locked_loop fd (i + 1) r
      else Some False)"
    by (rule file_locked_loop.simps)
  show ?case
  proof (cases "i \<le> unat (alt_max_fd r)")
    case True
    then have "\<not> i \<ge> length (alt_fd_list r)" using 1(2,3) by simp
    note nl = this
    show ?thesis
    proof (cases "?P i")
      case P: True
      then show ?thesis unfolding un split [of "unat (alt_max_fd r)" ?P] using True nl by (simp only: if_True if_False simp_thms)
    next
      case P: False
      from 1(1) [OF True nl P 1(2,3)] show ?thesis
        unfolding un split [of "unat (alt_max_fd r)" ?P] using True nl P by (simp only: if_True if_False simp_thms)
    qed
  next
    case False
    then show ?thesis unfolding un split [of "unat (alt_max_fd r)" ?P] by simp
  qed
qed

lemma fd_lock_loop_eq:
  assumes "length (alt_fd_list r) = ALT_MAX_FD" "sint (alt_max_fd r) < int ALT_MAX_FD"
  shows "fd_lock_loop fd i r = Some (\<exists>j. i \<le> j \<and> int j < sint (alt_max_fd r) \<and> j \<noteq> fd \<and>
    fd_dev (alt_fd_list r ! j) = fd_dev (alt_fd_list r ! fd))"
  using assms
proof (induction fd i r rule: fd_lock_loop.induct)
  case (1 fd i r)
  let ?P = "\<lambda>j. j \<noteq> fd \<and> fd_dev (alt_fd_list r ! j) = fd_dev (alt_fd_list r ! fd)"
  have split: "(\<exists>j. i \<le> j \<and> int j < m \<and> Q j) \<longleftrightarrow> int i < m \<and> (Q i \<or> (\<exists>j. i + 1 \<le> j \<and> int j < m \<and> Q j))"
    for m and Q :: "nat \<Rightarrow> bool"
  proof -
    have "int i < m" if "i \<le> j" "int j < m" for j using that by linarith
    then show ?thesis by (metis Suc_eq_plus1 Suc_leD le_antisym not_less_eq_eq order_refl)
  qed
  have un: "fd_lock_loop fd i r = (if int i < sint (alt_max_fd r) then
      if i \<ge> length (alt_fd_list r) then None else if ?P i then Some True else fd_lock_loop fd (i + 1) r
      else Some False)"
    by (rule fd_lock_loop.simps)
  show ?case
  proof (cases "int i < sint (alt_max_fd r)")
    case True
    then have "\<not> i \<ge> length (alt_fd_list r)" using 1(2,3) by simp
    note nl = this
    show ?thesis
    proof (cases "?P i")
      case P: True
      then show ?thesis unfolding un split [of "sint (alt_max_fd r)" ?P] using True nl by (simp only: if_True if_False simp_thms)
    next
      case P: False
      from 1(1) [OF True nl P 1(2,3)] show ?thesis
        unfolding un split [of "sint (alt_max_fd r)" ?P] using True nl P by (simp only: if_True if_False simp_thms)
    qed
  next
    case False
    then show ?thesis unfolding un split [of "sint (alt_max_fd r)" ?P] by simp
  qed
qed

lemma unat_sint_max:
  assumes "0 \<le> sint (x :: u32)"
  shows "int (unat x) = sint x"
proof -
  have u: "sint x = signed_take_bit 31 (uint x)" by (simp add: sint_uint)
  then have "\<not> bit (uint x) 31" using assms by simp
  then have "sint x = take_bit 31 (uint x)" unfolding u by (rule signed_take_bit_eq_if_positive)
  also have "\<dots> = uint x"
  proof -
    have "uint x < 2 ^ 32" using unsigned_less [of x] by simp
    then have "take_bit 32 (uint x) = uint x" by (simp add: take_bit_int_eq_self)
    moreover have "take_bit 32 (uint x) = take_bit 31 (uint x)"
      using take_bit_Suc_from_most [of 31 "uint x"] \<open>\<not> bit (uint x) 31\<close> by simp
    ultimately show ?thesis by simp
  qed
  finally show ?thesis by simp
qed

lemma alt_file_locked_eq:
  assumes ok: "fds_ok r" and i: "free_fd r = Some i" and l: "alt_fd_list r2 = (alt_fd_list r)[i := fd]" "fd_dev fd = Some d"
    and m: "int i \<le> sint (alt_max_fd r2)" "sint (alt_max_fd r) \<le> sint (alt_max_fd r2)" "sint (alt_max_fd r2) < int ALT_MAX_FD"
  shows "alt_file_locked i r2 = Some (if dev_locked d r then Inl EACCES else Inr (),
    upd_fd i (\<lambda>f. f\<lparr>fd_flags := fd_flags f OR ALT_FD_DEV\<rparr>) r2)"
proof -
  let ?r3 = "upd_fd i (\<lambda>f. f\<lparr>fd_flags := fd_flags f OR ALT_FD_DEV\<rparr>) r2"
  note f = free_fd_Some [OF ok i]
  have um: "int (unat (alt_max_fd r2)) = sint (alt_max_fd r2)" using m(1) by (intro unat_sint_max) linarith
  have len: "length (alt_fd_list ?r3) = ALT_MAX_FD" "unat (alt_max_fd ?r3) < ALT_MAX_FD"
  proof -
    show "length (alt_fd_list ?r3) = ALT_MAX_FD" using l f by (simp add: upd_fd_def)
    have "unat (alt_max_fd r2) < ALT_MAX_FD" using um m(3) by linarith
    then show "unat (alt_max_fd ?r3) < ALT_MAX_FD" by (simp add: upd_fd_def)
  qed
  have nth: "alt_fd_list ?r3 ! j = alt_fd_list r ! j" if "j \<noteq> i" for j
    using that l by (simp add: upd_fd_def)
  have di: "fd_dev (alt_fd_list ?r3 ! i) = Some d" using f l by (simp add: upd_fd_def)
  have "(\<exists>j. 0 \<le> j \<and> j \<le> unat (alt_max_fd ?r3) \<and> fd_dev (alt_fd_list ?r3 ! j) = fd_dev (alt_fd_list ?r3 ! i) \<and>
      fd_flags (alt_fd_list ?r3 ! j) AND ALT_FD_EXCL \<noteq> 0 \<and> j \<noteq> i) \<longleftrightarrow> dev_locked d r" (is "?L \<longleftrightarrow> _")
  proof
    assume ?L
    then obtain j where j: "j \<le> unat (alt_max_fd ?r3)" "j \<noteq> i" "fd_dev (alt_fd_list ?r3 ! j) = Some d"
      "fd_flags (alt_fd_list ?r3 ! j) AND ALT_FD_EXCL \<noteq> 0" unfolding di by blast
    then show "dev_locked d r" using nth [OF j(2)] len(2) unfolding dev_locked_def by (intro exI [of _ j]) simp
  next
    assume "dev_locked d r"
    then obtain j where j: "j < ALT_MAX_FD" "fd_dev (alt_fd_list r ! j) = Some d"
      "fd_flags (alt_fd_list r ! j) AND ALT_FD_EXCL \<noteq> 0" unfolding dev_locked_def by blast
    have "int j \<le> sint (alt_max_fd r2)"
    proof (cases "j < 3")
      case True
      then show ?thesis using f(1) m(1) by linarith
    next
      case False
      then have "int j \<le> sint (alt_max_fd r)" using ok j(1,2) by (auto simp: fds_ok_def)
      then show ?thesis using m(2) by linarith
    qed
    then have "j \<le> unat (alt_max_fd r2)" using um by linarith
    then have "j \<le> unat (alt_max_fd ?r3)" by (simp add: upd_fd_def)
    moreover have "j \<noteq> i" using j(2) f(3) by auto
    ultimately show ?L unfolding di using j(2,3) nth [of j] by (intro exI [of _ j]) simp
  qed
  then show ?thesis by (simp add: alt_file_locked_def Let_def file_locked_loop_eq [OF len])
qed

section \<open>Opening and closing\<close>

text \<open>
  Drivers that open and close at most change the private pointer of the descriptor they are called for.
\<close>

definition driver_keeps :: "nat \<Rightarrow> 'a hal_files_scheme \<Rightarrow> 'a hal_files_scheme \<Rightarrow> bool" where
  "driver_keeps i r r' \<longleftrightarrow> dev_links r' = dev_links r \<and> alt_max_fd r' = alt_max_fd r \<and>
     (\<exists>p. alt_fd_list r' = (alt_fd_list r)[i := (alt_fd_list r ! i)\<lparr>fd_priv := p\<rparr>])"

definition opens_ok :: "'a hal_files_scheme devices \<Rightarrow> bool" where
  "opens_ok devs \<longleftrightarrow> (\<forall>d f. dev_open (devs d) = Some f \<longrightarrow>
     (\<forall>i name fl md r. \<exists>res r'. f i name fl md r = Some (res, r') \<and> driver_keeps i r r'))"

definition closes_ok :: "'a hal_files_scheme devices \<Rightarrow> bool" where
  "closes_ok devs \<longleftrightarrow> (\<forall>d f. dev_close (devs d) = Some f \<longrightarrow>
     (\<forall>i r res r'. f i r = Some (res, r') \<longrightarrow> driver_keeps i r r'))"

lemma fds_ok_errno [simp]:
  "fds_ok (r\<lparr>alt_errno := e\<rparr>) = fds_ok r" "fd_view (r\<lparr>alt_errno := e\<rparr>) = fd_view r"
  "devs_ok devs ds fs (r\<lparr>alt_errno := e\<rparr>) = devs_ok devs ds fs r"
  "free_fd (r\<lparr>alt_errno := e\<rparr>) = free_fd r" "dev_locked d (r\<lparr>alt_errno := e\<rparr>) = dev_locked d r"
  by (simp_all add: fds_ok_def fd_view_def devs_ok_def free_fd_def dev_locked_def)

lemma open_resolve:
  assumes "devs_ok devs ds fs r" "0 \<notin> set file"
  shows "(case alt_find_dev (\<lambda>d. dev_name (devs d)) file DevList r of
        None \<Rightarrow> None
      | Some (Some d) \<Rightarrow> Some (Some d, False)
      | Some None \<Rightarrow> map_option (\<lambda>dev. (dev, True)) (alt_find_file devs file r)) =
    Some (case resolve devs ds fs file of None \<Rightarrow> (None, True) | Some (d, b) \<Rightarrow> (Some d, b))"
  unfolding alt_find_dev_eq [OF assms(1)] alt_find_file_eq [OF assms] resolve_def
  by (auto split: option.split)

text \<open>The open call from the moment the descriptor is taken.\<close>

definition open_fd ::
  "'a hal_files_scheme devices \<Rightarrow> nat \<Rightarrow> bool \<Rightarrow> u8 list \<Rightarrow> u32 \<Rightarrow> u32 \<Rightarrow> nat \<Rightarrow> 'a hal_files_scheme \<Rightarrow>
     ((errno + nat) \<times> 'a hal_files_scheme) option" where
  "open_fd devs dev isafs file flags mode i r1 =
     (let r2 = upd_fd i (\<lambda>fd. fd\<lparr>fd_flags := flags AND NOT ALT_FD_FLAGS_MASK\<rparr>) r1
      in case (case (if isafs then Some (Inr (), r2) else alt_file_locked i r2) of
                 None \<Rightarrow> None
               | Some (Inl e, r3) \<Rightarrow> Some (Inl e, r3)
               | Some (Inr _, r3) \<Rightarrow>
                   (case dev_open (devs dev) of
                      None \<Rightarrow> Some (Inr (), r3)
                    | Some f \<Rightarrow> f i file flags mode r3)) of
           None \<Rightarrow> None
         | Some (Inl e, r4) \<Rightarrow>
             map_option (\<lambda>r5. (Inl e, r5\<lparr>alt_errno := Some e\<rparr>)) (alt_release_fd (int i) r4)
         | Some (Inr _, r4) \<Rightarrow> Some (Inr i, r4))"

lemma alt_open_unfold:
  assumes "devs_ok devs ds fs r" "0 \<notin> set file"
  shows "alt_open others devs file flags mode r =
    (case resolve devs ds fs file of
       None \<Rightarrow> Some (Inl ENODEV, r\<lparr>alt_errno := Some ENODEV\<rparr>)
     | Some (dev, isafs) \<Rightarrow>
         (case alt_get_fd others dev r of
            (Inl e, r1) \<Rightarrow> Some (Inl e, r1\<lparr>alt_errno := Some e\<rparr>)
          | (Inr i, r1) \<Rightarrow> open_fd devs dev isafs file flags mode i r1))"
  unfolding alt_open_def open_resolve [OF assms] open_fd_def
  by (cases "resolve devs ds fs file") (simp_all split: prod.split)

lemma opened_release:
  assumes ok: "fds_ok r" and i: "free_fd r = Some i" and l: "alt_fd_list r4 = (alt_fd_list r)[i := fd]"
    and m: "sint (alt_max_fd r) \<le> sint (alt_max_fd r4)" "sint (alt_max_fd r4) < int ALT_MAX_FD"
  shows "\<exists>r5. alt_release_fd (int i) r4 = Some r5 \<and> fds_ok r5 \<and> fd_view r5 = fd_view r \<and> dev_links r5 = dev_links r4"
proof -
  note f = free_fd_Some [OF ok i]
  let ?r5 = "upd_fd i (\<lambda>f. f\<lparr>fd_flags := 0, fd_dev := None\<rparr>) r4"
  have "alt_release_fd (int i) r4 = Some ?r5" using f l by (simp add: alt_release_fd_def)
  moreover have l5: "alt_fd_list ?r5 = (alt_fd_list r)[i := fd\<lparr>fd_flags := 0, fd_dev := None\<rparr>]"
    using f l by (simp add: upd_fd_def)
  moreover have "fds_ok ?r5"
    by (rule fds_ok_upd [OF ok f(1) l5]) (use m in \<open>simp_all add: upd_fd_def\<close>)
  moreover have "fd_view ?r5 = fd_view r"
    using fd_view_upd [OF l5] free_fd_view [OF ok i] list_update_id [of "fd_view r" i] by (simp add: fd_key_def)
  ultimately show ?thesis by (simp add: upd_fd_def)
qed

definition open_flags :: "bool \<Rightarrow> u32 \<Rightarrow> u32" where
  "open_flags isafs flags = (flags AND NOT ALT_FD_FLAGS_MASK) OR (if isafs then 0 else ALT_FD_DEV)"

lemma open_fd_ok:
  assumes ok: "fds_ok r" and i: "free_fd r = Some i" and sf: "same_files (take_fd i d r) r1" and op: "opens_ok devs"
  shows "\<exists>res r'. open_fd devs d isafs fname flags mode i r1 = Some (res, r') \<and> fds_ok r' \<and> dev_links r' = dev_links r \<and>
    (if \<not> isafs \<and> dev_locked d r then res = Inl EACCES \<and> fd_view r' = fd_view r
     else (\<exists>e. res = Inl e \<and> dev_open (devs d) \<noteq> None \<and> fd_view r' = fd_view r) \<or>
       (res = Inr i \<and> fd_view r' = (fd_view r)[i := (Some d, open_flags isafs flags)])) \<and>
    (\<forall>e. res = Inl e \<longrightarrow> alt_errno r' = Some e)"
proof -
  let ?r2 = "upd_fd i (\<lambda>fd. fd\<lparr>fd_flags := flags AND NOT ALT_FD_FLAGS_MASK\<rparr>) r1"
  let ?r3 = "if isafs then ?r2 else upd_fd i (\<lambda>f. f\<lparr>fd_flags := fd_flags f OR ALT_FD_DEV\<rparr>) ?r2"
  let ?fd2 = "(alt_fd_list r ! i)\<lparr>fd_dev := Some d, fd_flags := flags AND NOT ALT_FD_FLAGS_MASK\<rparr>"
  let ?fd3 = "(alt_fd_list r ! i)\<lparr>fd_dev := Some d, fd_flags := open_flags isafs flags\<rparr>"
  let ?no = "\<not> isafs \<and> dev_locked d r"
  note f = free_fd_Some [OF ok i]
  have m: "int i \<le> sint (alt_max_fd ?r2)" "sint (alt_max_fd r) \<le> sint (alt_max_fd ?r2)"
    "sint (alt_max_fd ?r2) < int ALT_MAX_FD"
    using take_fd_max [OF ok i, of d] sf by (simp_all add: same_files_def upd_fd_def)
  have l1: "alt_fd_list r1 = (alt_fd_list r)[i := (alt_fd_list r ! i)\<lparr>fd_dev := Some d\<rparr>]"
    using sf by (simp add: same_files_def take_fd_def Let_def upd_fd_def)
  have l2: "alt_fd_list ?r2 = (alt_fd_list r)[i := ?fd2]" using f l1 by (simp add: upd_fd_def)
  have l3: "alt_fd_list ?r3 = (alt_fd_list r)[i := ?fd3]"
    using f l2 by (simp add: upd_fd_def open_flags_def)
  have m3: "alt_max_fd ?r3 = alt_max_fd ?r2" "dev_links ?r3 = dev_links r"
    using sf by (simp_all add: upd_fd_def same_files_def take_fd_def Let_def)
  have A: "(if isafs then Some (Inr (), ?r2) else alt_file_locked i ?r2) = Some (if ?no then Inl EACCES else Inr (), ?r3)"
    using alt_file_locked_eq [OF ok i l2 _ m] by simp
  have keep: "\<exists>fd. alt_fd_list r4 = (alt_fd_list r)[i := fd] \<and> fd_key fd = (Some d, open_flags isafs flags)"
    if "driver_keeps i ?r3 r4" for r4
    using that l3 f by (auto simp: driver_keeps_def fd_key_def)
  have fin: "\<exists>r'. map_option (\<lambda>r5. (Inl e, r5\<lparr>alt_errno := Some e\<rparr>)) (alt_release_fd (int i) r4) = Some (Inl e, r') \<and>
      fds_ok r' \<and> dev_links r' = dev_links r \<and> fd_view r' = fd_view r \<and> alt_errno r' = Some e"
    if "alt_fd_list r4 = (alt_fd_list r)[i := fd]" "alt_max_fd r4 = alt_max_fd ?r2" "dev_links r4 = dev_links r" for r4 fd e
    using opened_release [OF ok i that(1)] m that(2,3) by auto
  have good: "fds_ok r4 \<and> fd_view r4 = (fd_view r)[i := (Some d, open_flags isafs flags)]"
    if "alt_fd_list r4 = (alt_fd_list r)[i := fd]" "fd_key fd = (Some d, open_flags isafs flags)"
      "alt_max_fd r4 = alt_max_fd ?r2" for r4 fd
    using fds_ok_upd [OF ok f(1) that(1)] fd_view_upd [OF that(1)] m that(2,3) by (simp add: fd_key_def)
  show ?thesis
  proof (cases ?no)
    case True
    have "open_fd devs d isafs fname flags mode i r1 =
        map_option (\<lambda>r5. (Inl EACCES, r5\<lparr>alt_errno := Some EACCES\<rparr>)) (alt_release_fd (int i) ?r3)"
      unfolding open_fd_def Let_def A using True by simp
    then show ?thesis using fin [OF l3 m3, of EACCES] True by auto
  next
    case False
    show ?thesis
    proof (cases "dev_open (devs d)")
      case None
      then have "open_fd devs d isafs fname flags mode i r1 = Some (Inr i, ?r3)"
        unfolding open_fd_def Let_def A using False by (cases isafs) simp_all
      then show ?thesis using good [OF l3 _ m3(1)] m3(2) False by (cases isafs) (simp_all add: fd_key_def)
    next
      case (Some g)
      then obtain x r4 where g: "g i fname flags mode ?r3 = Some (x, r4)" "driver_keeps i ?r3 r4"
        using op unfolding opens_ok_def by blast
      then have m4: "alt_max_fd r4 = alt_max_fd ?r2" "dev_links r4 = dev_links r" using m3 by (simp_all add: driver_keeps_def)
      obtain fd where fd: "alt_fd_list r4 = (alt_fd_list r)[i := fd]" "fd_key fd = (Some d, open_flags isafs flags)"
        using keep [OF g(2)] by blast
      have B: "open_fd devs d isafs fname flags mode i r1 =
          (case x of Inl e \<Rightarrow> map_option (\<lambda>r5. (Inl e, r5\<lparr>alt_errno := Some e\<rparr>)) (alt_release_fd (int i) r4)
           | Inr _ \<Rightarrow> Some (Inr i, r4))"
        unfolding open_fd_def Let_def A using False Some g(1) by (cases isafs; cases x) simp_all
      show ?thesis
      proof (cases x)
        case (Inl e)
        then show ?thesis using fin [OF fd(1) m4, of e] False Some unfolding B by auto
      next
        case (Inr u)
        then show ?thesis using good [OF fd m4(1)] m4(2) False unfolding B by simp
      qed
    qed
  qed
qed

lemma alt_open_result:
  assumes "files_quiet others" "opens_ok devs" "devs_ok devs ds fs r" "fds_ok r" "0 \<notin> set file"
  shows "\<exists>res r'. alt_open others devs file flags mode r = Some (res, r') \<and> fds_ok r' \<and> devs_ok devs ds fs r' \<and>
    (case (resolve devs ds fs file, free_fd r) of
       (None, _) \<Rightarrow> res = Inl ENODEV \<and> fd_view r' = fd_view r
     | (Some _, None) \<Rightarrow> res = Inl EMFILE \<and> fd_view r' = fd_view r
     | (Some (d, isafs), Some i) \<Rightarrow>
         if \<not> isafs \<and> dev_locked d r then res = Inl EACCES \<and> fd_view r' = fd_view r
         else (\<exists>e. res = Inl e \<and> dev_open (devs d) \<noteq> None \<and> fd_view r' = fd_view r) \<or>
           (res = Inr i \<and> fd_view r' = (fd_view r)[i := (Some d, open_flags isafs flags)])) \<and>
    (\<forall>e. res = Inl e \<longrightarrow> alt_errno r' = Some e)"
proof (cases "resolve devs ds fs file")
  case None
  then show ?thesis using assms(3,4) by (simp add: alt_open_unfold [OF assms(3,5)])
next
  case (Some p)
  obtain d isafs where p: "p = (d, isafs)" by fastforce
  obtain r1 where g: "alt_get_fd others d r = (case free_fd r of None \<Rightarrow> Inl EMFILE | Some i \<Rightarrow> Inr i, r1)"
    "same_files (case free_fd r of None \<Rightarrow> r | Some i \<Rightarrow> take_fd i d r) r1"
    using alt_get_fd_eq [OF assms(1), of d r] by blast
  show ?thesis
  proof (cases "free_fd r")
    case None
    then have "same_files r r1" using g(2) by simp
    from same_files_view(1,3) [OF this] same_files_view(2) [OF this, of devs ds fs] show ?thesis
      using g(1) None Some p assms(3,4) by (simp add: alt_open_unfold [OF assms(3,5)])
  next
    case (Some i)
    have un: "alt_open others devs file flags mode r = open_fd devs d isafs file flags mode i r1"
      using g(1) Some \<open>resolve devs ds fs file = Some p\<close> p by (simp add: alt_open_unfold [OF assms(3,5)])
    have links: "devs_ok devs ds fs r'" if "dev_links r' = dev_links r" for r'
      using that assms(3) by (simp add: devs_ok_def)
    have "same_files (take_fd i d r) r1" using g(2) Some by simp
    from open_fd_ok [OF assms(4) Some this assms(2), where isafs = isafs and fname = "file" and flags = flags and mode = mode]
    obtain res r' where o: "open_fd devs d isafs file flags mode i r1 = Some (res, r')" "fds_ok r'" "dev_links r' = dev_links r"
      "if \<not> isafs \<and> dev_locked d r then res = Inl EACCES \<and> fd_view r' = fd_view r
       else (\<exists>e. res = Inl e \<and> dev_open (devs d) \<noteq> None \<and> fd_view r' = fd_view r) \<or>
         (res = Inr i \<and> fd_view r' = (fd_view r)[i := (Some d, open_flags isafs flags)])"
      "\<forall>e. res = Inl e \<longrightarrow> alt_errno r' = Some e" by blast
    show ?thesis
      unfolding un \<open>resolve devs ds fs file = Some p\<close> p Some prod.case option.case
      by (intro exI [of _ res] exI [of _ r'] conjI, rule o(1), rule o(2), rule links [OF o(3)], rule o(4), rule o(5))
  qed
qed


text \<open>
  C25: Opening and closing.  A descriptor that was opened and is closed again leaves the table as it was
  before, whether or not the driver reports an error at the close.
\<close>

theorem alt_open_close:
  assumes "files_quiet others" "opens_ok devs" "closes_ok devs" "devs_ok devs ds fs r" "fds_ok r" "0 \<notin> set file"
    and "alt_open others devs file flags mode r = Some (Inr i, r1)" "alt_close devs (int i) r1 = Some (res, r2)"
  shows "fd_view r2 = fd_view r \<and> fds_ok r2 \<and> (\<forall>e. res = Inl e \<longrightarrow> alt_errno r2 = Some e)"
proof -
  obtain d fl where o: "free_fd r = Some i" "fd_view r1 = (fd_view r)[i := (Some d, fl)]" "fds_ok r1"
    using alt_open_result [OF assms(1,2,4,5,6), of flags mode] assms(7)
    by (auto split: option.splits prod.splits if_splits)
  note f = free_fd_Some [OF assms(5) o(1)]
  have len: "length (alt_fd_list r1) = ALT_MAX_FD" using o(3) by (simp add: fds_ok_def)
  have "fd_view r1 ! i = (Some d, fl)" using o(2) f(2,4) by (simp add: fd_view_def)
  then have d: "fd_dev (alt_fd_list r1 ! i) = Some d" using f(2) len by (simp add: fd_view_def fd_key_def)
  then have dev: "dev_of_fd devs (int i) r1 = Some (devs d)" using f(2) len by (simp add: dev_of_fd_def)
  obtain r1' where c: "driver_keeps i r1 r1'" "map_option (\<lambda>r2. (res, set_errno res r2)) (alt_release_fd (int i) r1') = Some (res, r2)"
  proof (cases "dev_close (devs d)")
    case None
    have "driver_keeps i r1 r1"
      using list_update_id [of "alt_fd_list r1" i] by (auto simp: driver_keeps_def intro!: exI [of _ "fd_priv (alt_fd_list r1 ! i)"])
    then show ?thesis using that [of r1] assms(8) dev None by (auto simp: alt_close_def)
  next
    case (Some g)
    then obtain x r1' where g: "g i r1 = Some (x, r1')"
      "map_option (\<lambda>r2. (x, set_errno x r2)) (alt_release_fd (int i) r1') = Some (res, r2)"
      using assms(8) dev by (auto simp: alt_close_def split: option.splits)
    moreover have "driver_keeps i r1 r1'" using assms(3) Some g(1) by (auto simp: closes_ok_def)
    ultimately show ?thesis using that [of r1'] by auto
  qed
  obtain p where p: "alt_fd_list r1' = (alt_fd_list r1)[i := (alt_fd_list r1 ! i)\<lparr>fd_priv := p\<rparr>]"
    "alt_max_fd r1' = alt_max_fd r1" using c(1) by (auto simp: driver_keeps_def)
  let ?r = "upd_fd i (\<lambda>f. f\<lparr>fd_flags := 0, fd_dev := None\<rparr>) r1'"
  have r2: "r2 = set_errno res ?r" using c(2) f(1,2) len p(1) by (auto simp: alt_release_fd_def split: if_splits)
  have l: "alt_fd_list ?r = (alt_fd_list r1)[i := (alt_fd_list r1 ! i)\<lparr>fd_priv := p, fd_flags := 0, fd_dev := None\<rparr>]"
    using f(2) len p(1) by (simp add: upd_fd_def)
  have "fds_ok ?r"
    by (rule fds_ok_upd [OF o(3) f(1) l]) (use o(3) p(2) in \<open>simp_all add: upd_fd_def fds_ok_def\<close>)
  moreover have "fd_view ?r = fd_view r"
    using fd_view_upd [OF l] o(2) free_fd_view [OF assms(5) o(1)] list_update_id [of "fd_view r" i] by (simp add: fd_key_def)
  ultimately show ?thesis by (cases res) (simp_all add: r2 set_errno_def)
qed

text \<open>A request for exclusive use.\<close>

lemma alt_fd_lock_eq:
  assumes "files_quiet others" "fds_ok r" "k < ALT_MAX_FD"
  defines "shared \<equiv> \<exists>j. int j < sint (alt_max_fd r) \<and> j \<noteq> k \<and> fd_dev (alt_fd_list r ! j) = fd_dev (alt_fd_list r ! k)"
  shows "\<exists>r1. alt_fd_lock others k r = Some (if shared then Inl EACCES else Inr (), r1) \<and>
    same_files (if shared then r else upd_fd k (\<lambda>f. f\<lparr>fd_flags := fd_flags f OR ALT_FD_EXCL\<rparr>) r) r1"
proof -
  let ?p = "alt_sem_pend others (alt_fd_list_lock r) r"
  let ?r2 = "if shared then ?p else upd_fd k (\<lambda>f. f\<lparr>fd_flags := fd_flags f OR ALT_FD_EXCL\<rparr>) ?p"
  have p: "same_files r ?p" by (rule sem_same_files(1) [OF assms(1)])
  then have l: "length (alt_fd_list ?p) = ALT_MAX_FD" "sint (alt_max_fd ?p) < int ALT_MAX_FD"
    using assms(2) by (simp_all add: same_files_def fds_ok_def)
  have "fd_lock_loop k 0 ?p = Some shared"
    unfolding fd_lock_loop_eq [OF l] shared_def using p by (simp add: same_files_def)
  then have "alt_fd_lock others k r = Some (if shared then Inl EACCES else Inr (), alt_sem_post others (alt_fd_list_lock ?r2) ?r2)"
    by (simp add: alt_fd_lock_def Let_def)
  moreover have "same_files (if shared then r else upd_fd k (\<lambda>f. f\<lparr>fd_flags := fd_flags f OR ALT_FD_EXCL\<rparr>) r) ?r2"
    using p by (simp add: same_files_def upd_fd_def)
  ultimately show ?thesis using sem_same_files(2) [OF assms(1)] same_files_trans by blast
qed

lemma alt_ioctl_lock:
  assumes "k < length (alt_fd_list r)" "fd_flags (alt_fd_list r ! k) AND ALT_FD_DEV \<noteq> 0"
    and "alt_fd_lock others k r = Some (if b then Inl EACCES else Inr (), r1)"
  shows "alt_ioctl others devs (int k) TIOCEXCL arg r =
    Some (if b then Inl EACCES else Inr arg, if b then r1\<lparr>alt_errno := Some EACCES\<rparr> else r1)"
  using assms by (simp add: alt_ioctl_def Let_def set_errno_def)

text \<open>
  C24: Exclusive use of a device.  The request of an open descriptor of a device is refused if another
  descriptor below the highest one ever used refers to the device.  Otherwise it is granted, also when
  the highest one does, and from then on opening the device fails with \<open>EACCES\<close>.
\<close>

theorem alt_ioctl_exclusive:
  assumes "files_quiet others" "opens_ok devs" "devs_ok devs ds fs r" "fds_ok r" "0 \<notin> set file"
    and k: "k < ALT_MAX_FD" "fd_view r ! k = (Some d, fl)" "fl AND ALT_FD_DEV \<noteq> 0"
    and f: "resolve devs ds fs file = Some (d, False)" "free_fd r \<noteq> None"
  shows "if \<exists>j. int j < sint (alt_max_fd r) \<and> j \<noteq> k \<and> fd_dev (alt_fd_list r ! j) = Some d
    then \<exists>r1. alt_ioctl others devs (int k) TIOCEXCL arg r = Some (Inl EACCES, r1) \<and> fd_view r1 = fd_view r
    else \<exists>r1. alt_ioctl others devs (int k) TIOCEXCL arg r = Some (Inr arg, r1) \<and>
      fd_view r1 = (fd_view r)[k := (Some d, fl OR ALT_FD_EXCL)] \<and>
      (\<exists>r2. alt_open others devs file flags mode r1 = Some (Inl EACCES, r2) \<and> fd_view r2 = fd_view r1)"
proof -
  let ?sh = "\<exists>j. int j < sint (alt_max_fd r) \<and> j \<noteq> k \<and> fd_dev (alt_fd_list r ! j) = fd_dev (alt_fd_list r ! k)"
  let ?u = "upd_fd k (\<lambda>f. f\<lparr>fd_flags := fd_flags f OR ALT_FD_EXCL\<rparr>) r"
  have len: "length (alt_fd_list r) = ALT_MAX_FD" using assms(4) by (simp add: fds_ok_def)
  then have e: "fd_dev (alt_fd_list r ! k) = Some d" "fd_flags (alt_fd_list r ! k) = fl"
    using k by (simp_all add: fd_view_def fd_key_def)
  obtain r1 where r1: "alt_fd_lock others k r = Some (if ?sh then Inl EACCES else Inr (), r1)"
    "same_files (if ?sh then r else ?u) r1"
    using alt_fd_lock_eq [OF assms(1,4) k(1)] by blast
  have io: "alt_ioctl others devs (int k) TIOCEXCL arg r = Some (if ?sh then Inl EACCES else Inr arg,
      if ?sh then r1\<lparr>alt_errno := Some EACCES\<rparr> else r1)"
    by (rule alt_ioctl_lock [OF _ _ r1(1)]) (use len k(1,3) e(2) in simp_all)
  show ?thesis
  proof (cases ?sh)
    case True
    then have "fd_view r1 = fd_view r" using same_files_view(3) [of r r1] r1(2) by simp
    then show ?thesis using io True e(1) by simp
  next
    case False
    have sf: "same_files ?u r1" using r1(2) unfolding if_not_P [OF False] .
    have lu: "alt_fd_list ?u = (alt_fd_list r)[k := (alt_fd_list r ! k)\<lparr>fd_flags := fl OR ALT_FD_EXCL\<rparr>]"
      using e by (simp add: upd_fd_def)
    have nth: "alt_fd_list ?u ! j = (if j = k then (alt_fd_list r ! k)\<lparr>fd_flags := fl OR ALT_FD_EXCL\<rparr> else alt_fd_list r ! j)"
      if "j < ALT_MAX_FD" for j using that len unfolding lu by (simp add: nth_list_update)
    have dv: "fd_dev (alt_fd_list ?u ! j) = fd_dev (alt_fd_list r ! j)" if "j < ALT_MAX_FD" for j
      using nth [OF that] by simp
    have "fds_ok ?u"
      using assms(4) dv nth e(1) unfolding fds_ok_def by (simp add: upd_fd_def len)
    then have ok: "fds_ok r1" using same_files_view(1) [OF sf] by simp
    have v: "fd_view r1 = (fd_view r)[k := (Some d, fl OR ALT_FD_EXCL)]"
      using same_files_view(3) [OF sf] fd_view_upd [OF lu] e(1) by (simp add: fd_key_def)
    have "dev_locked d ?u"
      unfolding dev_locked_def using k(1) nth [OF k(1)] e(1)
      by (intro exI [of _ k]) (simp add: bit.conj_disj_distrib2)
    then have lo: "dev_locked d r1" using same_files_view(5) [OF sf] by simp
    have "find (\<lambda>i. fd_dev (alt_fd_list ?u ! i) = None) [0..<ALT_MAX_FD] = find (\<lambda>i. fd_dev (alt_fd_list r ! i) = None) [0..<ALT_MAX_FD]"
      by (rule find_cong [OF refl]) (use dv in simp)
    then have "free_fd ?u = free_fd r" by (simp only: free_fd_def)
    then have "free_fd r1 \<noteq> None" using f(2) same_files_view(4) [OF sf] by metis
    then obtain i where i: "free_fd r1 = Some i" by blast
    have dk: "devs_ok devs ds fs r1" using assms(3) same_files_view(2) [OF sf, of devs ds fs] by (simp add: devs_ok_def upd_fd_def)
    have "\<exists>r2. alt_open others devs file flags mode r1 = Some (Inl EACCES, r2) \<and> fd_view r2 = fd_view r1"
      using alt_open_result [OF assms(1,2) dk ok assms(5), of flags mode] lo f(1) i by auto
    then show ?thesis
      using io v unfolding if_not_P [OF False] if_not_P [OF False [unfolded e(1)]] by blast
  qed
qed

section \<open>The console as standard input and output\<close>

lemma alt_open_fd_ok:
  assumes "files_quiet others" "opens_ok devs" "devs_ok devs ds fs r" "fds_ok r" "0 \<notin> set name"
    and d: "resolve devs ds fs name = Some (d, False)" "dev_open (devs d) = None" "\<not> dev_locked d r" "free_fd r \<noteq> None"
    and k: "k < 3"
  shows "\<exists>r'. alt_open_fd others devs k name flags mode r = Some r' \<and> fds_ok r' \<and> devs_ok devs ds fs r' \<and>
    fd_view r' = (fd_view r)[k := (Some d, open_flags False flags)]"
proof -
  obtain i where i: "free_fd r = Some i" using d(4) by blast
  obtain r1 where o: "alt_open others devs name flags mode r = Some (Inr i, r1)" "fds_ok r1" "devs_ok devs ds fs r1"
    "fd_view r1 = (fd_view r)[i := (Some d, open_flags False flags)]"
    using alt_open_result [OF assms(1-5), of flags mode] d i by auto
  note f = free_fd_Some [OF assms(4) i]
  let ?fd = "alt_fd_list r1 ! i"
  let ?r4 = "upd_fd k (\<lambda>_. ?fd) r1"
  have len: "length (alt_fd_list r1) = ALT_MAX_FD" using o(2) by (simp add: fds_ok_def)
  have ki: "k \<noteq> i" "k < ALT_MAX_FD" using k f(1) by simp_all
  have key: "fd_key ?fd = (Some d, open_flags False flags)"
  proof -
    have "fd_view r1 ! i = (Some d, open_flags False flags)" using o(4) f(2,4) by (simp add: fd_view_def)
    then show ?thesis using f(2) len by (simp add: fd_view_def)
  qed
  let ?r5 = "upd_fd i (\<lambda>f. f\<lparr>fd_flags := 0, fd_dev := None\<rparr>) ?r4"
  have cp: "x\<lparr>fd_dev := fd_dev y, fd_priv := fd_priv y, fd_flags := fd_flags y\<rparr> = y" for x y :: alt_fd
    by (cases x; cases y) simp
  have un: "alt_open_fd others devs k name flags mode r = Some ?r5"
    using o(1) len ki f(1,2) by (simp add: alt_open_fd_def Let_def upd_fd_def alt_release_fd_def nth_list_update cp)
  have l4: "alt_fd_list ?r4 = (alt_fd_list r1)[k := ?fd]" by (simp add: upd_fd_def)
  have l5: "alt_fd_list ?r5 = (alt_fd_list ?r4)[i := ?fd\<lparr>fd_flags := 0, fd_dev := None\<rparr>]"
    using ki len by (simp add: upd_fd_def)
  have "fds_ok ?r4"
  proof -
    have "fd_dev ?fd = Some d" using key by (simp add: fd_key_def)
    then have "fd_dev (alt_fd_list ?r4 ! j) = (if j = k then Some d else fd_dev (alt_fd_list r1 ! j))" if "j < ALT_MAX_FD" for j
      using that len unfolding l4 by (simp add: nth_list_update)
    moreover have "fd_flags (alt_fd_list ?r4 ! j) = fd_flags (alt_fd_list r1 ! j)" if "j < ALT_MAX_FD" "j \<noteq> k" for j
      using that len unfolding l4 by (simp add: nth_list_update)
    moreover have "length (alt_fd_list ?r4) = ALT_MAX_FD" "alt_max_fd ?r4 = alt_max_fd r1" using len by (simp_all add: upd_fd_def)
    ultimately show ?thesis using o(2) k unfolding fds_ok_def by (auto simp: not_le)
  qed
  then have "fds_ok ?r5"
    by (rule fds_ok_upd [OF _ f(1) l5]) (use o(2) in \<open>simp_all add: upd_fd_def fds_ok_def\<close>)
  moreover have "fd_view ?r5 = (fd_view r)[k := (Some d, open_flags False flags)]"
    unfolding fd_view_upd [OF l5] fd_view_upd [OF l4] o(4) key
    using ki(1) free_fd_view [OF assms(4) i] list_update_id [of "fd_view r" i]
    by (simp add: fd_key_def list_update_swap)
  moreover have "devs_ok devs ds fs ?r5" using o(3) by (simp add: devs_ok_def upd_fd_def)
  ultimately show ?thesis using un by blast
qed

lemma view_nth: "fds_ok r \<Longrightarrow> j < ALT_MAX_FD \<Longrightarrow> fd_view r ! j = fd_key (alt_fd_list r ! j)"
  by (simp add: fd_view_def fds_ok_def)

lemma view_locked:
  "fds_ok r \<Longrightarrow> dev_locked d r \<longleftrightarrow> (\<exists>j<ALT_MAX_FD. fst (fd_view r ! j) = Some d \<and> snd (fd_view r ! j) AND ALT_FD_EXCL \<noteq> 0)"
  unfolding dev_locked_def using view_nth [of r] by (auto simp: fd_key_def)

lemma view_free: "fds_ok r \<Longrightarrow> free_fd r \<noteq> None \<longleftrightarrow> (\<exists>j<ALT_MAX_FD. fst (fd_view r ! j) = None)"
  unfolding free_fd_def find_None_iff using view_nth [of r] by (fastforce simp: fd_key_def)

lemma open_flags_excl: "open_flags False flags AND ALT_FD_EXCL = 0"
  by (simp add: open_flags_def bit.conj_disj_distrib2 and.assoc)

lemma alt_open_fd_still:
  assumes "fds_ok r" "fds_ok r'" "fd_view r' = (fd_view r)[k := (Some d, open_flags False flags)]" "k < 3"
    and "\<not> dev_locked d r" "free_fd r \<noteq> None"
  shows "\<not> dev_locked d r'" "free_fd r' \<noteq> None"
proof -
  have len: "length (fd_view r) = ALT_MAX_FD" using assms(1) by (simp add: fd_view_def fds_ok_def)
  have nth: "fd_view r' ! j = (if j = k then (Some d, open_flags False flags) else fd_view r ! j)" if "j < ALT_MAX_FD" for j
    using that len assms(3) by (simp add: nth_list_update)
  show "\<not> dev_locked d r'"
    using assms(5) unfolding view_locked [OF assms(1)] view_locked [OF assms(2)]
    using nth open_flags_excl by (metis snd_conv)
  obtain i where i: "free_fd r = Some i" using assms(6) by blast
  note f = free_fd_Some [OF assms(1) i]
  then have "fst (fd_view r' ! i) = None" using nth [OF f(2)] free_fd_view [OF assms(1) i] assms(4) by simp
  then show "free_fd r' \<noteq> None" unfolding view_free [OF assms(2)] using f(2) by blast
qed

lemma uart_inv_errno: "reader_inv C (r\<lparr>alt_errno := e\<rparr>) = reader_inv C r" "writer_inv A (r\<lparr>alt_errno := e\<rparr>) = writer_inv A r"
  by (simp_all add: reader_inv_def writer_inv_def uart_fifo_def rx_inv_def tx_inv_def rx_data_def tx_data_def)

lemma uart_fd_write:
  assumes "writer_env intr" "writer_env others" "writer_inv A r" "OSRunning (os r)"
    and "k < length (alt_fd_list r)" "fd_view r ! k = (Some d, open_flags False O_WRONLY)" "devs d = jtag_uart_dev intr others"
  shows "\<exists>res r'. alt_write devs (int k) bytes r = Some (res, r') \<and>
    (case res of Inr n \<Rightarrow> 0 < n \<and> n \<le> length bytes \<and> writer_inv (A @ take n bytes) r'
     | Inl err \<Rightarrow> err = EIO \<and> alt_errno r' = Some EIO \<and> writer_inv A r')"
proof -
  have e: "fd_dev (alt_fd_list r ! k) = Some d" "fd_flags (alt_fd_list r ! k) = open_flags False O_WRONLY"
    using assms(5,6) by (simp_all add: fd_view_def fd_key_def)
  have fl: "open_flags False O_WRONLY AND O_ACCMODE \<noteq> O_RDONLY" "open_flags False O_WRONLY AND O_NONBLOCK = 0"
    by (simp_all add: open_flags_def)
  obtain res r' where w: "altera_avalon_jtag_uart_write intr others bytes (open_flags False O_WRONLY) r = Some (res, r')"
    "case res of Inr n \<Rightarrow> 0 < n \<and> n \<le> length bytes \<and> writer_inv (A @ take n bytes) r'
     | Inl err \<Rightarrow> err = (if open_flags False O_WRONLY AND O_NONBLOCK \<noteq> 0 then EWOULDBLOCK else EIO) \<and> writer_inv A r'"
    using uart_write_bytes [OF assms(1-4), of bytes "open_flags False O_WRONLY"] by blast
  have "alt_write devs (int k) bytes r = Some (res, set_errno res r')"
    using assms(5,7) e fl(1) w(1)
    by (simp add: alt_write_def dev_of_fd_def jtag_uart_dev_def altera_avalon_jtag_uart_write_fd_def)
  then show ?thesis using w(2) fl(2) by (cases res) (simp_all add: set_errno_def uart_inv_errno)
qed

lemma uart_fd_read:
  assumes "reader_env intr" "reader_env others" "reader_inv C r" "OSRunning (os r)"
    and "k < length (alt_fd_list r)" "fd_view r ! k = (Some d, open_flags False O_RDONLY)" "devs d = jtag_uart_dev intr others"
  shows "\<exists>res r'. alt_read devs (int k) len r = Some (res, r') \<and>
    (case res of Inr bytes \<Rightarrow> bytes \<noteq> [] \<and> int (length bytes) \<le> len \<and> reader_inv (C @ bytes) r'
     | Inl err \<Rightarrow> err = EIO \<and> alt_errno r' = Some EIO \<and> reader_inv C r')"
proof -
  have e: "fd_dev (alt_fd_list r ! k) = Some d" "fd_flags (alt_fd_list r ! k) = open_flags False O_RDONLY"
    using assms(5,6) by (simp_all add: fd_view_def fd_key_def)
  have fl: "open_flags False O_RDONLY AND O_ACCMODE \<noteq> O_WRONLY" "open_flags False O_RDONLY AND O_NONBLOCK = 0"
    by (simp_all add: open_flags_def)
  obtain res r' where w: "altera_avalon_jtag_uart_read intr others len (open_flags False O_RDONLY) r = Some (res, r')"
    "case res of Inr bytes \<Rightarrow> bytes \<noteq> [] \<and> int (length bytes) \<le> len \<and> reader_inv (C @ bytes) r'
     | Inl err \<Rightarrow> err = (if open_flags False O_RDONLY AND O_NONBLOCK \<noteq> 0 then EWOULDBLOCK else EIO) \<and> reader_inv C r'"
    using uart_read_bytes [OF assms(1-4), of len "open_flags False O_RDONLY"] by blast
  have "alt_read devs (int k) len r = Some (res, set_errno res r')"
    using assms(5,7) e fl(1) w(1)
    by (simp add: alt_read_def dev_of_fd_def jtag_uart_dev_def altera_avalon_jtag_uart_read_fd_def)
  then show ?thesis using w(2) fl(2) by (cases res) (simp_all add: set_errno_def uart_inv_errno)
qed


section \<open>At concrete inputs\<close>

text \<open>
  The table before \<^verbatim>\<open>main\<close>: the three standard descriptors at the null device, device 0; the console,
  device 2, has been registered after it.
\<close>

definition null_name :: "u8 list" where "null_name = c_string ''/dev/null''"

definition console_name :: "u8 list" where "console_name = c_string ''/dev/jtag_uart''"

definition demo_links :: "dev_node \<Rightarrow> dev_node alt_llist" where
  "demo_links = alt_llist_insert DevList (Dev 2) (alt_llist_insert DevList (Dev 0)
     (\<lambda>n. \<lparr>ll_next = n, ll_previous = n\<rparr>))"

definition demo_files :: hal_files where
  "demo_files = jtag_uart.extend demo_uart (hal_files.fields demo_links
     (replicate 3 \<lparr>fd_dev = Some 0, fd_priv = NULL, fd_flags = 0\<rparr> @
      replicate 29 \<lparr>fd_dev = None, fd_priv = NULL, fd_flags = 0\<rparr>) (- 1) (PEvent 1) None)"

definition demo_devs :: "hal_files devices" where
  "demo_devs d = (if d = 0 then alt_dev_null else jtag_uart_dev (\<lambda>r. r) (\<lambda>r. r))"

lemma demo_lists: "on_list demo_links DevList (map Dev [2, 0])" "on_list demo_links FsList (map Dev [])"
proof -
  let ?l = "\<lambda>n. \<lparr>ll_next = n, ll_previous = n\<rparr> :: dev_node alt_llist"
  have "on_list ?l DevList []" by (simp add: on_list_empty)
  then have "on_list (alt_llist_insert DevList (Dev 0) ?l) DevList [Dev 0]" by (rule on_list_insert) simp
  then have "on_list demo_links DevList [Dev 2, Dev 0]" unfolding demo_links_def by (rule on_list_insert) simp
  then show "on_list demo_links DevList (map Dev [2, 0])" by simp
  show "on_list demo_links FsList (map Dev [])"
    by (simp add: on_list_empty demo_links_def alt_llist_insert_def Let_def)
qed

lemma demo_files_fields:
  "dev_links demo_files = demo_links" "alt_max_fd demo_files = - 1"
  "alt_fd_list demo_files = replicate 3 \<lparr>fd_dev = Some 0, fd_priv = NULL, fd_flags = 0\<rparr> @
    replicate 29 \<lparr>fd_dev = None, fd_priv = NULL, fd_flags = 0\<rparr>"
  by (simp_all add: demo_files_def jtag_uart.defs hal_files.defs)

lemma demo_names: "dev_name (demo_devs 0) = Some null_name"
  "d \<noteq> 0 \<Longrightarrow> dev_name (demo_devs d) = Some console_name"
  by (simp_all add: demo_devs_def alt_dev_null_def jtag_uart_dev_def null_name_def console_name_def)

lemma demo_devs_ok: "devs_ok demo_devs [2, 0] [] demo_files"
  using demo_lists by (simp add: devs_ok_def demo_files_fields demo_names name_ok_def null_name_def console_name_def)

lemma demo_fd: "i < ALT_MAX_FD \<Longrightarrow> alt_fd_list demo_files ! i =
    (if i < 3 then \<lparr>fd_dev = Some 0, fd_priv = NULL, fd_flags = 0\<rparr> else \<lparr>fd_dev = None, fd_priv = NULL, fd_flags = 0\<rparr>)"
  by (simp add: demo_files_fields nth_append)

lemma demo_fds_ok: "fds_ok demo_files"
  using demo_fd unfolding fds_ok_def by (simp add: demo_files_fields)

lemma demo_resolve:
  "resolve demo_devs [2, 0] [] null_name = Some (0, False)" "0 \<notin> set null_name"
  "resolve demo_devs [2, 0] [] console_name = Some (2, False)" "0 \<notin> set console_name"
  by (simp_all add: resolve_def demo_names) (simp_all add: null_name_def console_name_def)

lemma demo_free: "free_fd demo_files = Some 3"
proof -
  have "[0..<ALT_MAX_FD] = 0 # 1 # 2 # 3 # [4..<ALT_MAX_FD]" by (simp add: upt_conv_Cons)
  then show ?thesis by (simp add: free_fd_def demo_fd)
qed

lemma demo_unlocked: "\<not> dev_locked d demo_files"
  using demo_fd by (auto simp: dev_locked_def split: if_splits)

lemma demo_quiet: "files_quiet (\<lambda>r. r)" "writer_env (\<lambda>r :: hal_files. r)" "reader_env (\<lambda>r :: hal_files. r)"
  by (simp_all add: files_quiet_def same_files_def env_keeps_def reader_kept_def writer_kept_def)

lemma demo_opens: "opens_ok demo_devs"
  by (simp add: opens_ok_def demo_devs_def alt_dev_null_def jtag_uart_dev_def)


text \<open>The two tasks' devices of the example do nothing at a close, or wait for the buffer to drain.\<close>

lemma demo_closes: "closes_ok demo_devs"
proof -
  have close: "r' = r" if "altera_avalon_jtag_uart_close (\<lambda>r. r) fl r = Some (e, r')" for fl e and r r' :: hal_files
  proof -
    have "(\<lambda>r. r) = (\<lambda>r :: hal_files. r) \<longrightarrow> snd (e, r') = r"
    proof (rule altera_avalon_jtag_uart_close.raw_induct [OF _ that,
        where P = "\<lambda>intr fl r x. intr = (\<lambda>r. r) \<longrightarrow> snd x = r"], goal_cases)
      case 1: (1 rec intr fl r x)
      show ?case using 1(2) 1(1) by (auto split: if_splits)
    qed
    then show ?thesis by simp
  qed
  moreover have "driver_keeps i r r" for i and r :: hal_files
    using list_update_id [of "alt_fd_list r" i] by (auto simp: driver_keeps_def intro!: exI [of _ "fd_priv (alt_fd_list r ! i)"])
  ultimately show ?thesis
    by (auto simp: closes_ok_def demo_devs_def alt_dev_null_def jtag_uart_dev_def altera_avalon_jtag_uart_close_fd_def
        dest!: close)
qed

theorem alt_open_close_witness:
  "\<exists>r1 r2. alt_open (\<lambda>r. r) demo_devs null_name O_WRONLY 0 demo_files = Some (Inr 3, r1) \<and>
    alt_close demo_devs (int 3) r1 = Some (Inr (), r2) \<and> fd_view r2 = fd_view demo_files"
proof -
  obtain r1 where o: "alt_open (\<lambda>r. r) demo_devs null_name O_WRONLY 0 demo_files = Some (Inr 3, r1)"
    "fds_ok r1" "fd_view r1 = (fd_view demo_files)[3 := (Some 0, open_flags False O_WRONLY)]"
    using alt_open_result [OF demo_quiet(1) demo_opens demo_devs_ok demo_fds_ok demo_resolve(2), of O_WRONLY 0]
    by (auto simp: demo_resolve demo_free demo_unlocked) (simp_all add: demo_devs_def alt_dev_null_def)
  have len: "length (alt_fd_list r1) = ALT_MAX_FD" "length (fd_view demo_files) = ALT_MAX_FD"
    using o(2) demo_fds_ok by (simp_all add: fds_ok_def fd_view_def)
  have "fd_key (alt_fd_list r1 ! 3) = (Some 0, open_flags False O_WRONLY)"
    using view_nth [OF o(2), of 3] o(3) len(2) by simp
  then have "alt_close demo_devs (int 3) r1 = Some (Inr (), upd_fd 3 (\<lambda>f. f\<lparr>fd_flags := 0, fd_dev := None\<rparr>) r1)"
    using len(1) by (simp add: alt_close_def dev_of_fd_def fd_key_def demo_devs_def alt_dev_null_def alt_release_fd_def set_errno_def)
  with alt_open_close [OF demo_quiet(1) demo_opens demo_closes demo_devs_ok demo_fds_ok demo_resolve(2) o(1)] o(1)
  show ?thesis by blast
qed

lemma demo_open:
  "\<exists>r'. alt_open (\<lambda>r. r) demo_devs console_name O_WRONLY 0 demo_files = Some (Inr 3, r') \<and> fds_ok r' \<and> devs_ok demo_devs [2, 0] [] r' \<and>
    fd_view r' = (fd_view demo_files)[3 := (Some 2, open_flags False O_WRONLY)]"
  using alt_open_result [OF demo_quiet(1) demo_opens demo_devs_ok demo_fds_ok demo_resolve(4), of O_WRONLY 0]
  by (auto simp: demo_resolve demo_free demo_unlocked) (simp_all add: demo_devs_def jtag_uart_dev_def)

theorem alt_ioctl_exclusive_witness:
  "\<exists>r r1 r2. fd_view r = (fd_view demo_files)[3 := (Some 2, open_flags False O_WRONLY)] \<and>
    alt_ioctl (\<lambda>r. r) demo_devs (int 3) TIOCEXCL 0 r = Some (Inr 0, r1) \<and>
    alt_open (\<lambda>r. r) demo_devs console_name O_RDONLY 0 r1 = Some (Inl EACCES, r2)"
proof -
  obtain r :: hal_files where o: "fds_ok r" "devs_ok demo_devs [2, 0] [] r"
    "fd_view r = (fd_view demo_files)[3 := (Some 2, open_flags False O_WRONLY)]"
    using demo_open by blast
  have len: "length (fd_view demo_files) = ALT_MAX_FD" using demo_fds_ok by (simp add: fds_ok_def fd_view_def)
  have v: "fd_view r ! j = fd_key (alt_fd_list demo_files ! j)" if "j < ALT_MAX_FD" "j \<noteq> 3" for j
    using that o(3) len view_nth [OF demo_fds_ok that(1)] by simp
  have "fst (fd_view r ! 4) = None" using v [of 4] demo_fd [of 4] by (simp add: fd_key_def)
  then have free: "free_fd r \<noteq> None" unfolding view_free [OF o(1)] by (intro exI [of _ 4]) simp
  have "fd_dev (alt_fd_list r ! j) \<noteq> Some 2" if "int j < sint (alt_max_fd r)" "j \<noteq> 3" for j
  proof -
    have j: "j < ALT_MAX_FD" using that(1) o(1) by (simp add: fds_ok_def)
    then show ?thesis using v [OF j that(2)] view_nth [OF o(1) j] demo_fd [OF j] by (auto simp: fd_key_def split: if_splits)
  qed
  then have sh: "\<not> (\<exists>j. int j < sint (alt_max_fd r) \<and> j \<noteq> 3 \<and> fd_dev (alt_fd_list r ! j) = Some 2)" by blast
  have k: "fd_view r ! 3 = (Some 2, open_flags False O_WRONLY)" "open_flags False O_WRONLY AND ALT_FD_DEV \<noteq> 0"
    using o(3) len by (simp_all add: open_flags_def)
  have "(3 :: nat) < ALT_MAX_FD" by simp
  from alt_ioctl_exclusive [where k = 3, OF demo_quiet(1) demo_opens o(2,1) demo_resolve(4) this k demo_resolve(3) free, of 0 O_RDONLY 0]
  show ?thesis unfolding if_not_P [OF sh] using o(3) by auto
qed


end
