(* ===== verification/Hal_Spi.thy ===== *)
theory Hal_Spi
  imports Rover_Io
begin

text \<open>
  One transaction of the SPI master (altera_avalon_spi.c), as it is seen on the bus: the bytes go out in
  order and the answers come back, if the core keeps to its interface.
\<close>

section \<open>The code\<close>

abbreviation (input) RXDATA_REG :: nat where "RXDATA_REG \<equiv> 0"
abbreviation (input) TXDATA_REG :: nat where "TXDATA_REG \<equiv> 1"
abbreviation (input) SPI_STATUS_REG :: nat where "SPI_STATUS_REG \<equiv> 2"
abbreviation (input) SPI_CONTROL_REG :: nat where "SPI_CONTROL_REG \<equiv> 3"
abbreviation (input) SLAVE_SEL_REG :: nat where "SLAVE_SEL_REG \<equiv> 5"
abbreviation (input) STATUS_TMT :: u32 where "STATUS_TMT \<equiv> 0x20"
abbreviation (input) STATUS_TRDY :: u32 where "STATUS_TRDY \<equiv> 0x40"
abbreviation (input) STATUS_RRDY :: u32 where "STATUS_RRDY \<equiv> 0x80"
abbreviation (input) CONTROL_SSO :: u32 where "CONTROL_SSO \<equiv> 0x400"
abbreviation (input) SPI_MERGE :: u32 where "SPI_MERGE \<equiv> 1"
abbreviation (input) SPI_TOGGLE_SS_N :: u32 where "SPI_TOGGLE_SS_N \<equiv> 2"

text \<open>The loop that waits until the core is ready: the status it ended with.\<close>

partial_function (option) spi_poll :: "device \<Rightarrow> u32 \<Rightarrow> int \<Rightarrow> 'a board_scheme \<Rightarrow> (u32 \<times> 'a board_scheme) option" where
  "spi_poll dev base credits r =
     (let (status, r1) = IORD dev base SPI_STATUS_REG r
      in if (status AND STATUS_TRDY = 0 \<or> credits = 0) \<and> status AND STATUS_RRDY = 0
         then spi_poll dev base credits r1
         else Some (status, r1))"

text \<open>What the loop keeps: credits, bytes and zeros to write, answers to ignore, answers so far.\<close>

definition spi_send ::
  "u32 \<Rightarrow> u32 \<Rightarrow> int \<times> u8 list \<times> nat \<Rightarrow> 'a board_scheme \<Rightarrow> (int \<times> u8 list \<times> nat) \<times> 'a board_scheme" where
  "spi_send base status st r =
     (let (credits, wd, zeros) = st
      in if status AND STATUS_TRDY \<noteq> 0 \<and> credits > 0 then
           let c = credits - 1
           in case wd of
                x # xs \<Rightarrow> ((c, xs, zeros), IOWR base TXDATA_REG (ucast x) r)
              | [] \<Rightarrow> if zeros > 0 then ((c, [], zeros - 1), IOWR base TXDATA_REG 0 r) else ((- 1024, [], zeros), r)
         else (st, r))"

partial_function (option) spi_loop ::
  "device \<Rightarrow> u32 \<Rightarrow> nat \<Rightarrow> int \<times> u8 list \<times> nat \<Rightarrow> nat \<Rightarrow> u8 list \<Rightarrow> 'a board_scheme \<Rightarrow> (u8 list \<times> 'a board_scheme) option"
  where
  "spi_loop dev base rl st ign rd r =
     (case spi_poll dev base (fst st) r of
        None \<Rightarrow> None
      | Some (status, r1) \<Rightarrow>
          let (st1, r2) = spi_send base status st r1
          in if status AND STATUS_RRDY \<noteq> 0 then
               let (rxdata, r3) = IORD dev base RXDATA_REG r2;
                   (ign1, rd1) = (if ign > 0 then (ign - 1, rd) else (ign, rd @ [ucast rxdata]));
                   st2 = (fst st1 + 1, snd st1)
               in if ign1 = 0 \<and> length rd1 = rl then Some (rd1, r3)
                  else spi_loop dev base rl st2 ign1 rd1 r3
             else spi_loop dev base rl st1 ign rd r2)"

partial_function (option) spi_finish :: "device \<Rightarrow> u32 \<Rightarrow> 'a board_scheme \<Rightarrow> 'a board_scheme option" where
  "spi_finish dev base r =
     (let (status, r1) = IORD dev base SPI_STATUS_REG r
      in if status AND STATUS_TMT = 0 then spi_finish dev base r1 else Some r1)"

definition alt_avalon_spi_command ::
  "device \<Rightarrow> u32 \<Rightarrow> nat \<Rightarrow> u8 list \<Rightarrow> nat \<Rightarrow> u32 \<Rightarrow> 'a board_scheme \<Rightarrow> (u8 list \<times> 'a board_scheme) option" where
  "alt_avalon_spi_command dev base slave write_data read_length flags r =
     (let r1 = IOWR base SLAVE_SEL_REG (push_bit slave 1) r;
          r2 = (if flags AND SPI_TOGGLE_SS_N = 0 then IOWR base SPI_CONTROL_REG CONTROL_SSO r1 else r1);
          r3 = snd (IORD dev base RXDATA_REG r2)
      in case spi_loop dev base read_length (1, write_data, read_length) (length write_data) [] r3 of
           None \<Rightarrow> None
         | Some (rd, r4) \<Rightarrow>
             map_option (\<lambda>r5. (rd, if flags AND SPI_MERGE = 0 then IOWR base SPI_CONTROL_REG 0 r5 else r5))
               (spi_finish dev base r4))"

section \<open>What the bus shows\<close>

text \<open>
  The transactions so far, oldest first, and the bytes of the one that is open: a control word without
  \<^verbatim>\<open>SSO\<close> ends it.
\<close>

fun spi_log :: "u32 \<Rightarrow> io_event list \<Rightarrow> u8 list list \<times> u8 list" where
  "spi_log b [] = ([], [])"
| "spi_log b (IoWr a reg v # tr) =
     (let (d, c) = spi_log b tr
      in if a = b \<and> reg = TXDATA_REG then (d, c @ [ucast v])
         else if a = b \<and> reg = SPI_CONTROL_REG \<and> v AND CONTROL_SSO = 0 then (d @ [c], []) else (d, c))"
| "spi_log b (_ # tr) = spi_log b tr"

text \<open>Whether a received word waits in \<^verbatim>\<open>RXDATA\<close>.\<close>

fun spi_pending :: "u32 \<Rightarrow> io_event list \<Rightarrow> bool" where
  "spi_pending b [] = False"
| "spi_pending b (IoWr a reg v # tr) = (a = b \<and> reg = TXDATA_REG \<or> spi_pending b tr)"
| "spi_pending b (IoRd a reg v # tr) = (\<not> (a = b \<and> reg = RXDATA_REG) \<and> spi_pending b tr)"
| "spi_pending b (_ # tr) = spi_pending b tr"

text \<open>Reading the status \<open>k\<close> times.\<close>

fun spi_polled :: "device \<Rightarrow> u32 \<Rightarrow> nat \<Rightarrow> io_event list \<Rightarrow> io_event list" where
  "spi_polled dev b 0 tr = tr"
| "spi_polled dev b (Suc k) tr = spi_polled dev b k (IoRd b SPI_STATUS_REG (dev tr b SPI_STATUS_REG) # tr)"

text \<open>
  The interface of the core: it says that a word waits only when one does; polled long enough it is ready
  for a byte, has the answer to the last one, or is done sending; and the word that waits is what the
  slave answered to the last byte of the open transaction.
\<close>

definition spi_core :: "device \<Rightarrow> u32 \<Rightarrow> (u8 list list \<times> u8 list \<Rightarrow> u8) \<Rightarrow> bool" where
  "spi_core dev b answer \<longleftrightarrow> (\<forall>tr.
     (\<not> spi_pending b tr \<longrightarrow> dev tr b SPI_STATUS_REG AND STATUS_RRDY = 0 \<and>
        (\<exists>k. dev (spi_polled dev b k tr) b SPI_STATUS_REG AND STATUS_TRDY \<noteq> 0)) \<and>
     (spi_pending b tr \<longrightarrow> ucast (dev tr b RXDATA_REG) = answer (spi_log b tr) \<and>
        (\<exists>k. dev (spi_polled dev b k tr) b SPI_STATUS_REG AND STATUS_RRDY \<noteq> 0)) \<and>
     (\<exists>k. dev (spi_polled dev b k tr) b SPI_STATUS_REG AND STATUS_TMT \<noteq> 0))"

section \<open>A transaction\<close>

lemma spi_polled_log [simp]:
  "spi_log b (spi_polled dev b k tr) = spi_log b tr" "spi_pending b (spi_polled dev b k tr) = spi_pending b tr"
  by (induction k arbitrary: tr) simp_all

lemma status_wait:
  assumes un: "\<And>r. f r = (let s = dev (trace r) b SPI_STATUS_REG; r1 = r\<lparr>trace := IoRd b SPI_STATUS_REG s # trace r\<rparr>
      in if good s then Some (g s r1) else f r1)"
  shows "good (dev (spi_polled dev b k (trace r)) b SPI_STATUS_REG) \<Longrightarrow>
    \<exists>m. let s = dev (spi_polled dev b m (trace r)) b SPI_STATUS_REG
      in good s \<and> f r = Some (g s (r\<lparr>trace := spi_polled dev b (Suc m) (trace r)\<rparr>))"
proof (induction k arbitrary: r)
  case 0
  then show ?case by (intro exI [of _ 0]) (subst un, simp add: Let_def)
next
  case (Suc k)
  let ?s = "dev (trace r) b SPI_STATUS_REG"
  show ?case
  proof (cases "good ?s")
    case True
    then show ?thesis by (intro exI [of _ 0]) (subst un, simp add: Let_def)
  next
    case False
    let ?r1 = "r\<lparr>trace := IoRd b SPI_STATUS_REG ?s # trace r\<rparr>"
    have "good (dev (spi_polled dev b k (trace ?r1)) b SPI_STATUS_REG)" using Suc.prems by simp
    then obtain m where m: "let s = dev (spi_polled dev b m (trace ?r1)) b SPI_STATUS_REG
      in good s \<and> f ?r1 = Some (g s (?r1\<lparr>trace := spi_polled dev b (Suc m) (trace ?r1)\<rparr>))"
      using Suc.IH by blast
    then show ?thesis using False by (intro exI [of _ "Suc m"]) (subst un, simp add: Let_def)
  qed
qed

text \<open>The two waits of the loop: for room when nothing is under way, and for the answer to a byte.\<close>

lemma spi_poll_room:
  assumes "spi_core dev b answer" "\<not> spi_pending b (trace r)"
  obtains s tr where "spi_poll dev b 1 r = Some (s, r\<lparr>trace := tr\<rparr>)" "s AND STATUS_TRDY \<noteq> 0" "s AND STATUS_RRDY = 0"
    "spi_log b tr = spi_log b (trace r)" "\<not> spi_pending b tr"
proof -
  obtain k where k: "dev (spi_polled dev b k (trace r)) b SPI_STATUS_REG AND STATUS_TRDY \<noteq> 0"
    using assms by (auto simp: spi_core_def)
  have un: "spi_poll dev b 1 r = (let s = dev (trace r) b SPI_STATUS_REG; r1 = r\<lparr>trace := IoRd b SPI_STATUS_REG s # trace r\<rparr>
      in if s AND STATUS_TRDY \<noteq> 0 \<or> s AND STATUS_RRDY \<noteq> 0 then Some (s, r1) else spi_poll dev b 1 r1)" for r :: "'a board_scheme"
    by (subst spi_poll.simps) (simp add: IORD_def Let_def)
  obtain m where m: "let s = dev (spi_polled dev b m (trace r)) b SPI_STATUS_REG
      in (s AND STATUS_TRDY \<noteq> 0 \<or> s AND STATUS_RRDY \<noteq> 0) \<and>
        spi_poll dev b 1 r = Some (s, r\<lparr>trace := spi_polled dev b (Suc m) (trace r)\<rparr>)"
    using status_wait [where dev = dev and b = b and f = "spi_poll dev b 1" and g = Pair and good = "\<lambda>s. s AND STATUS_TRDY \<noteq> 0 \<or> s AND STATUS_RRDY \<noteq> 0",
        OF un, of k r] k by blast
  have "\<not> spi_pending b (spi_polled dev b m (trace r))" using assms(2) by simp
  then have "dev (spi_polled dev b m (trace r)) b SPI_STATUS_REG AND STATUS_RRDY = 0"
    using assms(1) unfolding spi_core_def by blast
  then show ?thesis
    using that [of _ "spi_polled dev b (Suc m) (trace r)"] m assms(2) unfolding Let_def
    by (metis spi_polled_log)
qed

lemma spi_poll_answer:
  assumes "spi_core dev b answer" "spi_pending b (trace r)"
  obtains s tr where "spi_poll dev b 0 r = Some (s, r\<lparr>trace := tr\<rparr>)" "s AND STATUS_RRDY \<noteq> 0"
    "spi_log b tr = spi_log b (trace r)" "spi_pending b tr"
proof -
  obtain k where k: "dev (spi_polled dev b k (trace r)) b SPI_STATUS_REG AND STATUS_RRDY \<noteq> 0"
    using assms by (auto simp: spi_core_def)
  have un: "spi_poll dev b 0 r = (let s = dev (trace r) b SPI_STATUS_REG; r1 = r\<lparr>trace := IoRd b SPI_STATUS_REG s # trace r\<rparr>
      in if s AND STATUS_RRDY \<noteq> 0 then Some (s, r1) else spi_poll dev b 0 r1)" for r :: "'a board_scheme"
    by (subst spi_poll.simps) (simp add: IORD_def Let_def)
  obtain m where m: "let s = dev (spi_polled dev b m (trace r)) b SPI_STATUS_REG
      in s AND STATUS_RRDY \<noteq> 0 \<and> spi_poll dev b 0 r = Some (s, r\<lparr>trace := spi_polled dev b (Suc m) (trace r)\<rparr>)"
    using status_wait [where dev = dev and b = b and f = "spi_poll dev b 0" and g = Pair and good = "\<lambda>s. s AND STATUS_RRDY \<noteq> 0", OF un, of k r] k by blast
  then show ?thesis
    using that [of _ "spi_polled dev b (Suc m) (trace r)"] assms(2) unfolding Let_def by (metis spi_polled_log)
qed

lemma spi_finish_ok:
  assumes "spi_core dev b answer"
  obtains tr where "spi_finish dev b r = Some (r\<lparr>trace := tr\<rparr>)" "spi_log b tr = spi_log b (trace r)"
    "spi_pending b tr = spi_pending b (trace r)"
proof -
  obtain k where k: "dev (spi_polled dev b k (trace r)) b SPI_STATUS_REG AND STATUS_TMT \<noteq> 0"
    using assms by (auto simp: spi_core_def)
  have un: "spi_finish dev b r = (let s = dev (trace r) b SPI_STATUS_REG; r1 = r\<lparr>trace := IoRd b SPI_STATUS_REG s # trace r\<rparr>
      in if s AND STATUS_TMT \<noteq> 0 then Some r1 else spi_finish dev b r1)" for r :: "'a board_scheme"
    by (subst spi_finish.simps) (simp add: IORD_def Let_def)
  obtain m where "let s = dev (spi_polled dev b m (trace r)) b SPI_STATUS_REG
      in s AND STATUS_TMT \<noteq> 0 \<and> spi_finish dev b r = Some (r\<lparr>trace := spi_polled dev b (Suc m) (trace r)\<rparr>)"
    using status_wait [where dev = dev and b = b and f = "spi_finish dev b" and g = "\<lambda>_ r. r" and good = "\<lambda>s. s AND STATUS_TMT \<noteq> 0", OF un, of k r] k by blast
  then show ?thesis
    using that [of "spi_polled dev b (Suc m) (trace r)"] unfolding Let_def by (metis spi_polled_log)
qed

lemma byte_there_and_back [simp]: "(ucast (ucast x :: u32) :: u8) = x"
  by (rule bit_word_eqI) (simp add: bit_unsigned_iff)

text \<open>One byte \<open>y\<close> out, which is the next of the data or a zero, and its answer in.\<close>

lemma spi_send_byte:
  assumes "status AND STATUS_TRDY \<noteq> 0" and y: "wd = y # wd' \<and> zeros' = zeros \<or> wd = [] \<and> y = 0 \<and> wd' = [] \<and> zeros = Suc zeros'"
  shows "spi_send b status (1, wd, zeros) r = ((0, wd', zeros'), IOWR b TXDATA_REG (ucast y) r)"
  using assms by (auto simp: spi_send_def Let_def)

lemma spi_byte:
  assumes core: "spi_core dev b answer" and idle: "\<not> spi_pending b (trace r)" and l: "spi_log b (trace r) = (d, c)"
    and y: "wd = y # wd' \<and> zeros' = zeros \<or> wd = [] \<and> y = 0 \<and> wd' = [] \<and> zeros = Suc zeros'"
  obtains tr where "spi_loop dev b rl (1, wd, zeros) ign rd r =
      (let rd1 = if ign > 0 then rd else rd @ [answer (d, c @ [y])]
       in if ign - 1 = 0 \<and> length rd1 = rl then Some (rd1, r\<lparr>trace := tr\<rparr>)
          else spi_loop dev b rl (1, wd', zeros') (ign - 1) rd1 (r\<lparr>trace := tr\<rparr>))"
    "spi_log b tr = (d, c @ [y])" "\<not> spi_pending b tr"
proof -
  obtain s tr where p: "spi_poll dev b 1 r = Some (s, r\<lparr>trace := tr\<rparr>)" "s AND STATUS_TRDY \<noteq> 0" "s AND STATUS_RRDY = 0"
    "spi_log b tr = spi_log b (trace r)" "\<not> spi_pending b tr"
    using spi_poll_room [OF core idle] by blast
  let ?tr1 = "IoWr b TXDATA_REG (ucast y) # tr"
  have 1: "spi_loop dev b rl (1, wd, zeros) ign rd r = spi_loop dev b rl (0, wd', zeros') ign rd (r\<lparr>trace := ?tr1\<rparr>)"
    using p(1,3) spi_send_byte [OF p(2) y, of b "r\<lparr>trace := tr\<rparr>"] by (subst spi_loop.simps) (simp add: IOWR_def Let_def)
  have l1: "spi_log b ?tr1 = (d, c @ [y])" "spi_pending b ?tr1" using p(4) l by simp_all
  have "spi_pending b (trace (r\<lparr>trace := ?tr1\<rparr>))" by simp
  from spi_poll_answer [OF core this] obtain s2 tr2 where
    q0: "spi_poll dev b 0 (r\<lparr>trace := ?tr1\<rparr>) = Some (s2, r\<lparr>trace := ?tr1, trace := tr2\<rparr>)" "s2 AND STATUS_RRDY \<noteq> 0"
    "spi_log b tr2 = spi_log b (trace (r\<lparr>trace := ?tr1\<rparr>))" "spi_pending b tr2" .
  have q: "spi_poll dev b 0 (r\<lparr>trace := ?tr1\<rparr>) = Some (s2, r\<lparr>trace := tr2\<rparr>)" "s2 AND STATUS_RRDY \<noteq> 0"
    "spi_log b tr2 = (d, c @ [y])" "spi_pending b tr2"
    using q0 l1 by simp_all
  let ?tr3 = "IoRd b RXDATA_REG (dev tr2 b RXDATA_REG) # tr2"
  have ans: "(ucast (dev tr2 b RXDATA_REG) :: u8) = answer (d, c @ [y])"
    using core q(3,4) by (auto simp: spi_core_def)
  have "spi_send b s2 (0, wd', zeros') (r\<lparr>trace := tr2\<rparr>) = ((0, wd', zeros'), r\<lparr>trace := tr2\<rparr>)"
    by (simp add: spi_send_def)
  then have 2: "spi_loop dev b rl (0, wd', zeros') ign rd (r\<lparr>trace := ?tr1\<rparr>) =
      (let rd1 = if ign > 0 then rd else rd @ [answer (d, c @ [y])]
       in if ign - 1 = 0 \<and> length rd1 = rl then Some (rd1, r\<lparr>trace := ?tr3\<rparr>)
          else spi_loop dev b rl (1, wd', zeros') (ign - 1) rd1 (r\<lparr>trace := ?tr3\<rparr>))"
    using q(1,2) ans by (subst spi_loop.simps) (simp add: IORD_def Let_def)
  show ?thesis
    using that [of ?tr3] 1 2 q(3) by simp
qed

text \<open>All bytes, the data and then as many zeros as answers are wanted.\<close>

lemma spi_loop_transfers:
  assumes core: "spi_core dev b answer"
  shows "\<not> spi_pending b (trace r) \<Longrightarrow> spi_log b (trace r) = (d, c) \<Longrightarrow> wd @ replicate zeros 0 \<noteq> [] \<Longrightarrow>
    ign \<le> length wd + zeros \<Longrightarrow> length rd + (length wd + zeros - ign) = rl \<Longrightarrow>
    \<exists>tr. spi_loop dev b rl (1, wd, zeros) ign rd r = Some (rd @ map (\<lambda>i. answer (d, c @ take (ign + i + 1) (wd @ replicate zeros 0)))
        [0..<length wd + zeros - ign], r\<lparr>trace := tr\<rparr>) \<and>
      spi_log b tr = (d, c @ wd @ replicate zeros 0) \<and> \<not> spi_pending b tr"
proof (induction "length wd + zeros" arbitrary: wd zeros ign rd r c)
  case 0
  then show ?case by simp
next
  case (Suc n)
  obtain y wd' zeros' where y: "wd = y # wd' \<and> zeros' = zeros \<or> wd = [] \<and> y = 0 \<and> wd' = [] \<and> zeros = Suc zeros'"
    using Suc.hyps(2) by (cases wd; cases zeros) auto
  then have ys: "wd @ replicate zeros 0 = y # wd' @ replicate zeros' 0" and n: "length wd' + zeros' = n"
    using Suc.hyps(2) by auto
  let ?rd = "if ign > 0 then rd else rd @ [answer (d, c @ [y])]"
  obtain tr where tr: "spi_loop dev b rl (1, wd, zeros) ign rd r =
      (if ign - 1 = 0 \<and> length ?rd = rl then Some (?rd, r\<lparr>trace := tr\<rparr>)
       else spi_loop dev b rl (1, wd', zeros') (ign - 1) ?rd (r\<lparr>trace := tr\<rparr>))"
    "spi_log b tr = (d, c @ [y])" "\<not> spi_pending b tr"
    using spi_byte [OF core Suc.prems(1,2) y, of rl ign rd] unfolding Let_def by blast
  have len: "length ?rd + (n - (ign - 1)) = rl" "ign - 1 \<le> n"
    using Suc.prems(4,5) Suc.hyps(2) by (auto split: if_splits)
  have rest: "?rd @ map (\<lambda>i. answer (d, (c @ [y]) @ take (ign - 1 + i + 1) (wd' @ replicate zeros' 0))) [0..<n - (ign - 1)] =
      rd @ map (\<lambda>i. answer (d, c @ take (ign + i + 1) (wd @ replicate zeros 0))) [0..<Suc n - ign]"
  proof (cases ign)
    case 0
    have "[0..<Suc n] = 0 # map Suc [0..<n]" by (simp add: map_Suc_upt upt_conv_Cons del: upt_Suc)
    then show ?thesis using 0 by (simp add: ys comp_def del: upt_Suc)
  next
    case (Suc k)
    then show ?thesis by (simp add: ys)
  qed
  show ?case
  proof (cases "n = 0")
    case True
    then have "ign - 1 = 0 \<and> length ?rd = rl" using len by simp
    then have "spi_loop dev b rl (1, wd, zeros) ign rd r = Some (?rd, r\<lparr>trace := tr\<rparr>)" using tr(1) by presburger
    moreover have "?rd = rd @ map (\<lambda>i. answer (d, c @ take (ign + i + 1) (wd @ replicate zeros 0))) [0..<length wd + zeros - ign]"
      using rest True Suc.hyps(2) by simp
    moreover have "wd' @ replicate zeros' 0 = []" using n True by simp
    then have "spi_log b tr = (d, c @ wd @ replicate zeros 0)" using tr(2) ys by simp
    ultimately show ?thesis using tr(3) by (intro exI [of _ tr]) (simp only: simp_thms)
  next
    case False
    have "\<not> (ign - 1 = 0 \<and> length ?rd = rl)"
    proof
      assume a: "ign - 1 = 0 \<and> length ?rd = rl"
      then have "n - (ign - 1) = 0" using len(1) by linarith
      then show False using a False by linarith
    qed
    then have step: "spi_loop dev b rl (1, wd, zeros) ign rd r = spi_loop dev b rl (1, wd', zeros') (ign - 1) ?rd (r\<lparr>trace := tr\<rparr>)"
      using tr(1) by presburger
    have "wd' @ replicate zeros' 0 \<noteq> []" using n False by auto
    from Suc.hyps(1) [OF n [symmetric], of "r\<lparr>trace := tr\<rparr>" "c @ [y]" "ign - 1" ?rd, OF _ _ this]
    obtain tr' where tr': "spi_loop dev b rl (1, wd', zeros') (ign - 1) ?rd (r\<lparr>trace := tr\<rparr>) =
        Some (?rd @ map (\<lambda>i. answer (d, (c @ [y]) @ take (ign - 1 + i + 1) (wd' @ replicate zeros' 0))) [0..<n - (ign - 1)], r\<lparr>trace := tr'\<rparr>)"
      "spi_log b tr' = (d, (c @ [y]) @ wd' @ replicate zeros' 0)" "\<not> spi_pending b tr'"
      using tr(2,3) len n by auto
    show ?thesis
      unfolding step tr'(1) rest Suc.hyps(2) [symmetric] using tr'(2,3) ys by (intro exI [of _ tr']) simp
  qed
qed

lemma spi_transfer:
  assumes "spi_core dev b answer" "spi_log b (trace r) = (d, c)" "wd \<noteq> [] \<or> 0 < rl" "flags AND SPI_TOGGLE_SS_N = 0"
  shows "\<exists>tr. alt_avalon_spi_command dev b slave wd rl flags r =
      Some (map (\<lambda>i. answer (d, c @ wd @ replicate (i + 1) 0)) [0..<rl], r\<lparr>trace := tr\<rparr>) \<and>
    spi_log b tr = (if flags AND SPI_MERGE = 0 then (d @ [c @ wd @ replicate rl 0], []) else (d, c @ wd @ replicate rl 0))"
proof -
  let ?tr1 = "IoRd b RXDATA_REG (dev (IoWr b SPI_CONTROL_REG CONTROL_SSO # IoWr b SLAVE_SEL_REG (push_bit slave 1) # trace r) b RXDATA_REG) #
    IoWr b SPI_CONTROL_REG CONTROL_SSO # IoWr b SLAVE_SEL_REG (push_bit slave 1) # trace r"
  let ?r1 = "r\<lparr>trace := ?tr1\<rparr>"
  have l: "\<not> spi_pending b (trace ?r1)" "spi_log b (trace ?r1) = (d, c)" using assms(2) by simp_all
  have ne: "wd @ replicate rl 0 \<noteq> []" using assms(3) by auto
  from spi_loop_transfers [OF assms(1) l ne, of "length wd" "[]" rl]
  obtain tr where tr: "spi_loop dev b rl (1, wd, rl) (length wd) [] ?r1 =
      Some (map (\<lambda>i. answer (d, c @ take (length wd + i + 1) (wd @ replicate rl 0))) [0..<rl], r\<lparr>trace := tr\<rparr>)"
    "spi_log b tr = (d, c @ wd @ replicate rl 0)" by auto
  obtain tr2 where t: "spi_finish dev b (r\<lparr>trace := tr\<rparr>) = Some (r\<lparr>trace := tr, trace := tr2\<rparr>)"
    "spi_log b tr2 = spi_log b (trace (r\<lparr>trace := tr\<rparr>))"
    by (rule spi_finish_ok [OF assms(1), of "r\<lparr>trace := tr\<rparr>"])
  have tr2: "spi_finish dev b (r\<lparr>trace := tr\<rparr>) = Some (r\<lparr>trace := tr2\<rparr>)" "spi_log b tr2 = (d, c @ wd @ replicate rl 0)"
    using t tr(2) by simp_all
  have rd: "map (\<lambda>i. answer (d, c @ take (length wd + i + 1) (wd @ replicate rl 0))) [0..<rl] =
      map (\<lambda>i. answer (d, c @ wd @ replicate (i + 1) 0)) [0..<rl]"
    by (rule map_cong) (auto simp: take_replicate min_def)
  let ?tr3 = "if flags AND SPI_MERGE = 0 then IoWr b SPI_CONTROL_REG 0 # tr2 else tr2"
  have "alt_avalon_spi_command dev b slave wd rl flags r =
      Some (map (\<lambda>i. answer (d, c @ wd @ replicate (i + 1) 0)) [0..<rl], r\<lparr>trace := ?tr3\<rparr>)"
    using tr(1) tr2(1) assms(4) unfolding alt_avalon_spi_command_def Let_def IOWR_def IORD_def rd by simp
  moreover have "spi_log b ?tr3 = (if flags AND SPI_MERGE = 0 then (d @ [c @ wd @ replicate rl 0], []) else (d, c @ wd @ replicate rl 0))"
    using tr2(2) by simp
  ultimately show ?thesis by blast
qed


text \<open>A core that is always ready, and a slave that answers with the number of bytes it has been sent.\<close>

definition demo_slave :: "u8 list list \<times> u8 list \<Rightarrow> u8" where
  "demo_slave l = of_nat (length (snd l))"

definition demo_spi :: device where
  "demo_spi tr base reg =
     (if reg = SPI_STATUS_REG then (if spi_pending base tr then 0xE0 else 0x60) else ucast (demo_slave (spi_log base tr)))"

lemma demo_spi_core: "spi_core demo_spi b demo_slave"
proof -
  have st: "demo_spi tr b SPI_STATUS_REG AND STATUS_TRDY \<noteq> 0" "demo_spi tr b SPI_STATUS_REG AND STATUS_TMT \<noteq> 0"
    "demo_spi tr b SPI_STATUS_REG AND STATUS_RRDY \<noteq> 0 \<longleftrightarrow> spi_pending b tr"
    "ucast (demo_spi tr b RXDATA_REG) = demo_slave (spi_log b tr)" for tr
    by (simp_all add: demo_spi_def)
  have polled: "spi_polled demo_spi b 0 tr = tr" for tr by simp
  show ?thesis unfolding spi_core_def using st polled by metis
qed


end
