(* ===== verification/Os_Lock.thy ===== *)
theory Os_Lock
  imports Os_Sem Os_Task
begin

text \<open>
  The locks that make newlib's heap and environment safe for several tasks (alt_malloc_lock.c,
  alt_env_lock.c): a task that has the lock may take it again and releases it with the last unlock.
\<close>

section \<open>The locks\<close>

text \<open>
  A lock's semaphore and its two static variables; the priority of a task serves as its name, -1 is
  nobody.
\<close>

record lib_lock =
  lib_sem :: ptr
  lockid :: int
  locks :: int
  lib_os :: os_state

text \<open>
  What the two lock functions share.  \<open>again cnt grp\<close> is the test on the semaphore's data with which the
  code recognises that the lock is taken; the outer \<open>None\<close> stands for reading the data of a query that
  failed.  The code does not look at the error of the pend.
\<close>

definition lock_take :: "int \<Rightarrow> lib_lock \<Rightarrow> lib_lock" where
  "lock_take n l = l\<lparr>locks := 1, lockid := n\<rparr>"

definition lock_or_pend :: "(OS_SEM_DATA \<Rightarrow> bool) \<Rightarrow> lib_lock \<Rightarrow> (unit call \<times> lib_lock) option" where
  "lock_or_pend again l =
     (case OSTaskQuery OS_PRIO_SELF True (lib_os l) of
        (OS_ERR_NONE, Some tcb) \<Rightarrow>
          let n = uint (OSTCBPrio tcb)
          in (case OSSemQuery (lib_sem l) True (lib_os l) of
                (_, None) \<Rightarrow> None
              | (_, Some semdata) \<Rightarrow>
                  if again semdata \<and> n = lockid l then Some (Done (), l\<lparr>locks := locks l + 1\<rparr>)
                  else
                    (case OSSemPend (lib_sem l) 0 True (lib_os l) of
                       (Done _, s) \<Rightarrow> Some (Done (), lock_take n (l\<lparr>lib_os := s\<rparr>))
                     | (Wait, s) \<Rightarrow> Some (Wait, l\<lparr>lib_os := s\<rparr>)))
      | _ \<Rightarrow> Some (Done (), l))"

text \<open>The rest of a lock function after its wait; \<open>n\<close> is the name it found for the task.\<close>

definition lock_resume :: "int \<Rightarrow> lib_lock \<Rightarrow> lib_lock" where
  "lock_resume n l = lock_take n (l\<lparr>lib_os := snd (OSSemPend_resume (lib_sem l) (lib_os l))\<rparr>)"

definition malloc_lock :: "lib_lock \<Rightarrow> (unit call \<times> lib_lock) option" where
  "malloc_lock l =
     (if \<not> OSRunning (lib_os l) then Some (Done (), l) else lock_or_pend (\<lambda>d. SD_OSCnt d = 0) l)"

definition env_lock :: "lib_lock \<Rightarrow> (unit call \<times> lib_lock) option" where
  "env_lock l = lock_or_pend (\<lambda>d. Grp (SD_OSEventWait d) \<noteq> 0) l"

definition env_unlock :: "lib_lock \<Rightarrow> lib_lock" where
  "env_unlock l =
     (if locks l = 0 then l
      else
        let l1 = l\<lparr>locks := locks l - 1\<rparr>
        in if locks l1 = 0
           then l1\<lparr>lockid := -1, lib_os := snd (OSSemPost (lib_sem l1) (lib_os l1))\<rparr>
           else l1)"

definition malloc_unlock :: "lib_lock \<Rightarrow> lib_lock" where
  "malloc_unlock l = (if \<not> OSRunning (lib_os l) then l else env_unlock l)"

section \<open>What the locks promise\<close>

text \<open>The caller runs at priority \<open>p\<close>, and \<open>e\<close> is the lock's semaphore, with \<open>n\<close> units and no waiter.\<close>

definition lock_ready :: "nat \<Rightarrow> nat \<Rightarrow> nat \<Rightarrow> nat \<Rightarrow> lib_lock \<Rightarrow> bool" where
  "lock_ready p i e n l \<longleftrightarrow> os_wf (lib_os l) \<and> running (lib_os l) p i \<and> can_sched (lib_os l) \<and>
     OSRunning (lib_os l) \<and> lib_sem l = PEvent e \<and>
     OSEventType (OSEventTbl (lib_os l) e) = OS_EVENT_TYPE_SEM \<and> sem_count e (lib_os l) = n \<and>
     wait_set (lib_os l) e = {}"

text \<open>\<open>n\<close> calls that all return at once.\<close>

fun lock_times :: "(lib_lock \<Rightarrow> (unit call \<times> lib_lock) option) \<Rightarrow> nat \<Rightarrow> lib_lock \<Rightarrow> lib_lock option" where
  "lock_times f 0 l = Some l"
| "lock_times f (Suc n) l = (case f l of Some (Done _, l1) \<Rightarrow> lock_times f n l1 | _ \<Rightarrow> None)"

lemma task_query_self:
  assumes "running s p i"
  shows "OSTaskQuery OS_PRIO_SELF True s = (OS_ERR_NONE, Some (OSTCBTbl s i))"
    and "uint (OSTCBPrio (OSTCBTbl s i)) = int p"
  using assms by (auto simp: running_def at_prio_def OSTaskQuery_def task_of_prio_def uint_nat)

lemma lock_readyD:
  assumes "lock_ready p i e n l"
  shows "OSTaskQuery OS_PRIO_SELF True (lib_os l) = (OS_ERR_NONE, Some (OSTCBTbl (lib_os l) i))"
    "uint (OSTCBPrio (OSTCBTbl (lib_os l) i)) = int p"
    "\<exists>d. OSSemQuery (lib_sem l) True (lib_os l) = (OS_ERR_NONE, Some d) \<and>
      (SD_OSCnt d = 0 \<longleftrightarrow> n = 0) \<and> Grp (SD_OSEventWait d) = 0"
    "OSRunning (lib_os l)"
proof -
  have r: "running (lib_os l) p i" and wf: "os_wf (lib_os l)" and w: "wait_set (lib_os l) e = {}"
    using assms by (simp_all add: lock_ready_def)
  show "OSTaskQuery OS_PRIO_SELF True (lib_os l) = (OS_ERR_NONE, Some (OSTCBTbl (lib_os l) i))"
    "uint (OSTCBPrio (OSTCBTbl (lib_os l) i)) = int p"
    using task_query_self [OF r] by simp_all
  show "OSRunning (lib_os l)" using assms by (simp add: lock_ready_def)
  have g: "Grp (wait_of (lib_os l) e) = 0" using wait_empty_iff [OF wf, of e] w by simp
  show "\<exists>d. OSSemQuery (lib_sem l) True (lib_os l) = (OS_ERR_NONE, Some d) \<and>
      (SD_OSCnt d = 0 \<longleftrightarrow> n = 0) \<and> Grp (SD_OSEventWait d) = 0"
    using assms g by (auto simp: lock_ready_def OSSemQuery_def Let_def sem_count_def unat_eq_0)
qed

text \<open>The first lock takes the unit; later ones of the same task count.\<close>

lemma sem_take:
  assumes "lock_ready p i e 1 l"
  obtains s where "OSSemPend (lib_sem l) 0 True (lib_os l) = (Done (Some OS_ERR_NONE), s)"
    "lock_ready p i e 0 (l\<lparr>lib_os := s\<rparr>)" "rdy_set s = rdy_set (lib_os l)"
proof -
  let ?s = "upd_event e (\<lambda>ev. ev\<lparr>OSEventCnt := OSEventCnt ev - 1\<rparr>) (lib_os l)"
  have ok: "sem_count e (lib_os l) = 1" "lib_sem l = PEvent e"
    "OSEventType (OSEventTbl (lib_os l) e) = OS_EVENT_TYPE_SEM" "can_sched (lib_os l)"
    using assms by (simp_all add: lock_ready_def)
  then have "unat (OSEventCnt (OSEventTbl (lib_os l) e)) = unat (1 :: u16)" by (simp add: sem_count_def)
  then have c: "OSEventCnt (OSEventTbl (lib_os l) e) = 1" by (rule unsigned_word_eqI)
  have a: "at_prio ?s = at_prio (lib_os l)" "wait_set ?s = wait_set (lib_os l)"
    by (simp_all add: fun_eq_iff at_prio_def wait_set_def)
  have "os_wf ?s" using assms by (simp add: lock_ready_def os_wf_upd_event_data)
  then have "lock_ready p i e 0 (l\<lparr>lib_os := ?s\<rparr>)"
    using assms c by (simp add: lock_ready_def running_def can_sched_def a) (simp add: sem_count_def)
  moreover have "OSSemPend (lib_sem l) 0 True (lib_os l) = (Done (Some OS_ERR_NONE), ?s)"
    using ok c by (simp add: OSSemPend_def Let_def can_sched_def)
  ultimately show ?thesis using that by simp
qed

lemma sem_give:
  assumes "lock_ready p i e 0 l"
  shows "lock_ready p i e 1 (l\<lparr>lib_os := snd (OSSemPost (lib_sem l) (lib_os l))\<rparr>)"
proof -
  let ?s = "upd_event e (\<lambda>ev. ev\<lparr>OSEventCnt := OSEventCnt ev + 1\<rparr>) (lib_os l)"
  have ok: "sem_count e (lib_os l) = 0" "lib_sem l = PEvent e" "os_wf (lib_os l)"
    "OSEventType (OSEventTbl (lib_os l) e) = OS_EVENT_TYPE_SEM" "wait_set (lib_os l) e = {}"
    using assms by (simp_all add: lock_ready_def)
  then have c: "OSEventCnt (OSEventTbl (lib_os l) e) = 0" by (simp add: sem_count_def unat_eq_0)
  have g: "Grp (wait_of (lib_os l) e) = 0" using wait_empty_iff [OF ok(3), of e] ok(5) by simp
  have a: "at_prio ?s = at_prio (lib_os l)" "wait_set ?s = wait_set (lib_os l)"
    by (simp_all add: fun_eq_iff at_prio_def wait_set_def)
  have "os_wf ?s" using assms by (simp add: lock_ready_def os_wf_upd_event_data)
  then have "lock_ready p i e 1 (l\<lparr>lib_os := ?s\<rparr>)"
    using assms c by (simp add: lock_ready_def running_def can_sched_def a) (simp add: sem_count_def)
  moreover have "OSSemPost (lib_sem l) (lib_os l) = (OS_ERR_NONE, ?s)"
    using ok c g by (simp add: OSSemPost_def Let_def)
  ultimately show ?thesis by simp
qed

text \<open>A task that holds the lock \<open>n\<close> times.\<close>

definition lock_held :: "nat \<Rightarrow> nat \<Rightarrow> nat \<Rightarrow> nat \<Rightarrow> lib_lock \<Rightarrow> bool" where
  "lock_held p i e n l \<longleftrightarrow> lock_ready p i e 0 l \<and> locks l = int n \<and> lockid l = int p"

lemma lock_ready_locks: "lock_ready p i e n (l\<lparr>locks := a, lockid := b\<rparr>) = lock_ready p i e n l"
  "lock_ready p i e n (l\<lparr>locks := a\<rparr>) = lock_ready p i e n l"
  by (simp_all add: lock_ready_def)

lemma first_lock:
  assumes free: "lock_ready p i e 1 l"
  obtains l' where "malloc_lock l = Some (Done (), l')" "lock_held p i e 1 l'"
    "env_lock l = Some (Done (), l')" "rdy_set (lib_os l') = rdy_set (lib_os l)"
proof -
  note d = lock_readyD [OF free]
  obtain s where s: "OSSemPend (lib_sem l) 0 True (lib_os l) = (Done (Some OS_ERR_NONE), s)"
    "lock_ready p i e 0 (l\<lparr>lib_os := s\<rparr>)" "rdy_set s = rdy_set (lib_os l)"
    by (rule sem_take [OF free])
  let ?l = "lock_take (int p) (l\<lparr>lib_os := s\<rparr>)"
  have "lock_held p i e 1 ?l"
    using s(2) by (simp add: lock_held_def lock_take_def lock_ready_locks)
  moreover have "malloc_lock l = Some (Done (), ?l)" "env_lock l = Some (Done (), ?l)"
    using d(1,2,4) d(3) s(1) by (auto simp: malloc_lock_def env_lock_def lock_or_pend_def Let_def)
  ultimately show ?thesis using that s(3) by (simp add: lock_take_def)
qed

lemma malloc_lock_again:
  assumes "lock_held p i e n l"
  obtains l' where "malloc_lock l = Some (Done (), l')" "lock_held p i e (Suc n) l'"
proof -
  have r: "lock_ready p i e 0 l" using assms by (simp add: lock_held_def)
  note d = lock_readyD [OF r]
  have "malloc_lock l = Some (Done (), l\<lparr>locks := locks l + 1\<rparr>)"
    using d(1,2,4) d(3) assms by (auto simp: malloc_lock_def lock_or_pend_def Let_def lock_held_def)
  moreover have "lock_held p i e (Suc n) (l\<lparr>locks := locks l + 1\<rparr>)"
    using assms by (simp add: lock_held_def lock_ready_locks)
  ultimately show ?thesis using that by blast
qed

lemma malloc_lock_times:
  "lock_held p i e n l \<Longrightarrow> \<exists>l'. lock_times malloc_lock m l = Some l' \<and> lock_held p i e (n + m) l'"
proof (induction m arbitrary: n l)
  case (Suc m)
  obtain l1 where "malloc_lock l = Some (Done (), l1)" "lock_held p i e (Suc n) l1"
    by (rule malloc_lock_again [OF Suc.prems])
  moreover from this(2) obtain l' where "lock_times malloc_lock m l1 = Some l'" "lock_held p i e (Suc n + m) l'"
    using Suc.IH by blast
  ultimately show ?case by simp
qed simp

lemma malloc_unlock_held:
  assumes "lock_held p i e (Suc n) l"
  shows "if n = 0 then lock_ready p i e 1 (malloc_unlock l) \<and> lockid (malloc_unlock l) = -1
    else lock_held p i e n (malloc_unlock l)"
proof -
  have r: "lock_ready p i e 0 l" "OSRunning (lib_os l)" and n: "locks l = int (Suc n)" "lockid l = int p"
    using assms by (simp_all add: lock_held_def lock_ready_def)
  show ?thesis
  proof (cases "n = 0")
    case True
    let ?l = "l\<lparr>lib_os := snd (OSSemPost (lib_sem l) (lib_os l))\<rparr>"
    have "malloc_unlock l = ?l\<lparr>locks := 0, lockid := -1\<rparr>"
      using True r(2) n by (simp add: malloc_unlock_def env_unlock_def Let_def)
    then show ?thesis using True sem_give [OF r(1)] lock_ready_locks(1) [where l = ?l and n = 1] by simp
  next
    case False
    then show ?thesis
      using r n by (simp add: malloc_unlock_def env_unlock_def Let_def lock_held_def lock_ready_locks)
  qed
qed

lemma malloc_unlock_times:
  "lock_held p i e (Suc n) l \<Longrightarrow> m \<le> n \<Longrightarrow> lock_held p i e (Suc n - m) ((malloc_unlock ^^ m) l)"
proof (induction m)
  case (Suc m)
  then have "lock_held p i e (Suc n - m) ((malloc_unlock ^^ m) l)" by simp
  moreover have "Suc n - m = Suc (n - m)" "n - m \<noteq> 0" using Suc.prems(2) by simp_all
  ultimately show ?case using malloc_unlock_held [of p i e "n - m" "(malloc_unlock ^^ m) l"] by simp
qed simp

text \<open>When the unit is taken, a pend waits.\<close>

lemma sem_waits:
  assumes "lock_ready p i e 0 l"
  shows "OSSemPend (lib_sem l) 0 True (lib_os l) = (Wait, OS_Sched (pend_block e OS_STAT_SEM 0 (lib_os l)))"
proof -
  have "lib_sem l = PEvent e" "OSEventType (OSEventTbl (lib_os l) e) = OS_EVENT_TYPE_SEM" "can_sched (lib_os l)"
    "OSEventCnt (OSEventTbl (lib_os l) e) = 0"
    using assms by (simp_all add: lock_ready_def sem_count_def unat_eq_0)
  then show ?thesis by (simp add: OSSemPend_def Let_def can_sched_def)
qed

lemma sem_wait:
  assumes r: "lock_ready p i e 0 l" and left: "rdy_set (lib_os l) - {p} \<noteq> {}"
  defines "s' \<equiv> snd (OSSemPend (lib_sem l) 0 True (lib_os l))"
  shows "fst (OSSemPend (lib_sem l) 0 True (lib_os l)) = Wait"
    "wait_set s' e = {p}" "p \<notin> rdy_set s'" "OSTCBDly (OSTCBTbl s' i) = 0"
proof -
  have ok: "os_wf (lib_os l)" "running (lib_os l) p i" "can_sched (lib_os l)" "wait_set (lib_os l) e = {}"
    using r by (simp_all add: lock_ready_def)
  note b = pend_block_sched [OF ok(1-3) left, where e = e and stat = OS_STAT_SEM and timeout = 0]
  have s': "s' = OS_Sched (pend_block e OS_STAT_SEM 0 (lib_os l))" by (simp add: s'_def sem_waits [OF r])
  show "fst (OSSemPend (lib_sem l) 0 True (lib_os l)) = Wait" by (simp add: sem_waits [OF r])
  show "wait_set s' e = {p}" "p \<notin> rdy_set s'" using b(2,3) ok(4) by (simp_all add: s')
  show "OSTCBDly (OSTCBTbl s' i) = 0" using tcb_core_fields(4) [OF b(4)] by (simp add: s')
qed

lemma other_waits:
  assumes r: "lock_ready q j e 0 l" and n: "lockid l \<noteq> int q"
  shows "\<exists>l''. malloc_lock l = Some (Wait, l'') \<and> lockid l'' = lockid l"
  using lock_readyD(1,2,4) [OF r] lock_readyD(3) [OF r] sem_waits [OF r] n
  by (auto simp: malloc_lock_def lock_or_pend_def Let_def)

text \<open>
  C40: The heap lock of newlib is recursive: a task may take it any number of times without waiting, the
  lock stays taken until the last of as many unlocks, which frees it; meanwhile every other task that
  calls it has to wait.
\<close>

theorem malloc_lock_recursive:
  assumes free: "lock_ready p i e 1 l"
  shows "\<exists>l'. lock_times malloc_lock (Suc n) l = Some l' \<and> locks l' = int n + 1 \<and> lockid l' = int p \<and>
    (\<forall>m \<le> n. sem_count e (lib_os ((malloc_unlock ^^ m) l')) = 0) \<and>
    lock_ready p i e 1 ((malloc_unlock ^^ Suc n) l') \<and>
    (\<forall>s q j. lock_ready q j e 0 (l'\<lparr>lib_os := s\<rparr>) \<longrightarrow> q \<noteq> p \<longrightarrow>
       (\<exists>l''. malloc_lock (l'\<lparr>lib_os := s\<rparr>) = Some (Wait, l'') \<and> lockid l'' = int p))"
proof -
  obtain l1 where l1: "malloc_lock l = Some (Done (), l1)" "lock_held p i e 1 l1"
    by (rule first_lock [OF free])
  obtain l' where l': "lock_times malloc_lock n l1 = Some l'" "lock_held p i e (Suc n) l'"
    using malloc_lock_times [OF l1(2), of n] by auto
  note un = malloc_unlock_times [OF l'(2)]
  have "lock_ready p i e 1 ((malloc_unlock ^^ Suc n) l')"
    using malloc_unlock_held [of p i e 0 "(malloc_unlock ^^ n) l'"] un [of n] by simp
  moreover have "sem_count e (lib_os ((malloc_unlock ^^ m) l')) = 0" if "m \<le> n" for m
    using un [OF that] by (simp add: lock_held_def lock_ready_def)
  moreover have "\<exists>l''. malloc_lock (l'\<lparr>lib_os := s\<rparr>) = Some (Wait, l'') \<and> lockid l'' = int p"
    if r: "lock_ready q j e 0 (l'\<lparr>lib_os := s\<rparr>)" and q: "q \<noteq> p" for s q j
    using other_waits [OF r] q l'(2) by (simp add: lock_held_def)
  ultimately show ?thesis using l1(1) l' by (auto simp: lock_held_def)
qed

text \<open>
  The environment lock is not: it takes the waiters of its semaphore for the sign that the lock is
  taken, so that a task that takes it twice, with nobody waiting, waits for itself.
\<close>

theorem env_lock_self_deadlock:
  assumes free: "lock_ready p i e 1 l" and left: "rdy_set (lib_os l) - {p} \<noteq> {}"
  shows "\<exists>l1 l2. env_lock l = Some (Done (), l1) \<and> lockid l1 = int p \<and> env_lock l1 = Some (Wait, l2) \<and>
    lockid l2 = int p \<and> wait_set (lib_os l2) e = {p} \<and> p \<notin> rdy_set (lib_os l2) \<and>
    OSTCBDly (OSTCBTbl (lib_os l2) i) = 0"
proof -
  obtain l1 where l1: "env_lock l = Some (Done (), l1)" "lock_held p i e 1 l1"
    "rdy_set (lib_os l1) = rdy_set (lib_os l)"
    by (rule first_lock [OF free])
  have r: "lock_ready p i e 0 l1" and n: "lockid l1 = int p" using l1(2) by (simp_all add: lock_held_def)
  note d = lock_readyD [OF r]
  note w = sem_wait [OF r, unfolded l1(3), OF left]
  have "env_lock l1 = Some (Wait, l1\<lparr>lib_os := snd (OSSemPend (lib_sem l1) 0 True (lib_os l1))\<rparr>)"
    using d(1,2) d(3) w(1) by (auto simp: env_lock_def lock_or_pend_def Let_def prod_eq_iff split: prod.splits)
  then show ?thesis using l1(1) n w(2-4) by auto
qed

text \<open>A free lock with semaphore 4, called by the running task of priority 5.\<close>

definition demo_lock :: lib_lock where
  "demo_lock = \<lparr>lib_sem = PEvent 4, lockid = -1, locks = 0, lib_os = snd (OSSemPost (PEvent 4) demo)\<rparr>"

lemma demo_lock_ready: "lock_ready 5 0 4 1 demo_lock" "rdy_set (lib_os demo_lock) = {5, 12, 20}"
proof -
  have "lock_ready 5 0 4 0 (demo_lock\<lparr>lib_os := demo\<rparr>)"
    using os_wf_demo running_demo can_sched_demo demo_sem4(1,2) demo_running
    by (simp add: lock_ready_def demo_lock_def wait_set_demo)
  from sem_give [OF this] show "lock_ready 5 0 4 1 demo_lock" by (simp add: demo_lock_def)
  have "sem_ok 4 demo" using os_wf_demo demo_sem4(1) by (simp add: sem_ok_def)
  from OSSemPost_step(5) [OF this] show "rdy_set (lib_os demo_lock) = {5, 12, 20}"
    by (simp add: demo_lock_def wait_set_demo rdy_set_demo)
qed

theorem malloc_lock_recursive_witness:
  "\<exists>l'. lock_times malloc_lock 3 demo_lock = Some l' \<and> locks l' = 3 \<and>
    lock_ready 5 0 4 1 ((malloc_unlock ^^ 3) l')"
  using malloc_lock_recursive [OF demo_lock_ready(1), of 2] by (auto simp: numeral_3_eq_3 simp del: lock_times.simps)

theorem env_lock_self_deadlock_witness:
  "\<exists>l1 l2. env_lock demo_lock = Some (Done (), l1) \<and> env_lock l1 = Some (Wait, l2) \<and>
    lockid l2 = 5 \<and> wait_set (lib_os l2) 4 = {5}"
  using env_lock_self_deadlock [OF demo_lock_ready(1)] demo_lock_ready(2) by auto

end
