(* ===== verification/Rover_Motors.thy ===== *)
theory Rover_Motors
  imports Rover_Io
begin

text \<open>
  lib/motors.c: the H-bridge inputs, drives measured by the wheel encoders, and the history of moves.
  Doubles are rationals: the encoder counts and the duty cycles that occur are exact in both or are
  truncated to the same register value.
\<close>

section \<open>Data\<close>

record move_obj =
  mv_move :: char
  mv_dir :: char
  mv_count :: rat
  mv_angle :: rat

abbreviation (input) PWM_0_BASE :: u32 where "PWM_0_BASE \<equiv> 0x80"
abbreviation (input) PWM_1_BASE :: u32 where "PWM_1_BASE \<equiv> 0x78"
abbreviation (input) PWM_2_BASE :: u32 where "PWM_2_BASE \<equiv> 0x70"
abbreviation (input) PWM_3_BASE :: u32 where "PWM_3_BASE \<equiv> 0x68"
abbreviation (input) ENCODER_0A_BASE :: u32 where "ENCODER_0A_BASE \<equiv> 0x40"
abbreviation (input) ENCODER_1A_BASE :: u32 where "ENCODER_1A_BASE \<equiv> 0x20"
abbreviation (input) SECOND_DELAY :: rat where "SECOND_DELAY \<equiv> 1000000"
abbreviation (input) COURSE_LENGTH :: rat where "COURSE_LENGTH \<equiv> 20000"

text \<open>\<^verbatim>\<open>IOWR(base, 0, duty * 31250)\<close> and \<^verbatim>\<open>usleep(secs * SECOND_DELAY)\<close>.\<close>

definition pwm :: "u32 \<Rightarrow> rat \<Rightarrow> 'a board_scheme \<Rightarrow> 'a board_scheme" where
  "pwm base duty = IOWR base 0 (reg_of_double (duty * 31250))"

definition sleep_s :: "('a board_scheme \<Rightarrow> 'a board_scheme) \<Rightarrow> rat \<Rightarrow> 'a board_scheme \<Rightarrow> 'a board_scheme" where
  "sleep_s others secs = usleep others (reg_of_double (secs * SECOND_DELAY))"

definition returnHbridgeIn :: "int \<Rightarrow> u32" where
  "returnHbridgeIn i =
     (if i = 0 then PWM_0_BASE else if i = 1 then PWM_1_BASE
      else if i = 2 then PWM_2_BASE else if i = 3 then PWM_3_BASE else 0)"

section \<open>Stopping and starting\<close>

definition M_allStop :: "('a board_scheme \<Rightarrow> 'a board_scheme) \<Rightarrow> 'a board_scheme \<Rightarrow> 'a board_scheme" where
  "M_allStop others r =
     (let r1 = IOWR PWM_0_BASE 0 1 r;
          r2 = IOWR PWM_1_BASE 0 1 r1;
          r3 = IOWR PWM_2_BASE 0 1 r2;
          r4 = IOWR PWM_3_BASE 0 1 r3
      in sleep_s others 1 r4)"

fun check_motion :: "device \<Rightarrow> u32 list \<Rightarrow> 'a board_scheme \<Rightarrow> bool \<times> 'a board_scheme" where
  "check_motion dev [] r = (False, r)"
| "check_motion dev (b # bs) r =
     (let (v, r1) = IORD dev b 0 r in if sint v > 0 then (True, r1) else check_motion dev bs r1)"

definition M_checkMotion :: "device \<Rightarrow> 'a board_scheme \<Rightarrow> bool \<times> 'a board_scheme" where
  "M_checkMotion dev r = check_motion dev [PWM_0_BASE, PWM_1_BASE, PWM_2_BASE, PWM_3_BASE] r"

text \<open>Both front motors to one duty cycle each, held for some seconds.\<close>

definition ramp ::
  "('a board_scheme \<Rightarrow> 'a board_scheme) \<Rightarrow> rat \<Rightarrow> rat \<Rightarrow> rat \<Rightarrow> 'a board_scheme \<Rightarrow> 'a board_scheme" where
  "ramp others left right secs r = sleep_s others secs (pwm PWM_2_BASE right (pwm PWM_0_BASE left r))"

definition stop_if_moving ::
  "device \<Rightarrow> ('a board_scheme \<Rightarrow> 'a board_scheme) \<Rightarrow> 'a board_scheme \<Rightarrow> 'a board_scheme" where
  "stop_if_moving dev others r =
     (let (moving, r1) = M_checkMotion dev r in if moving then M_allStop others r1 else r1)"

definition stoptofull ::
  "device \<Rightarrow> ('a board_scheme \<Rightarrow> 'a board_scheme) \<Rightarrow> 'a board_scheme \<Rightarrow> 'a board_scheme" where
  "stoptofull dev others r =
     (let r1 = stop_if_moving dev others r;
          r2 = ramp others (1/4) (1/4) (1/2) r1;
          r3 = ramp others (1/2) (1/2) 1 r2;
          r4 = ramp others (3/4) (3/4) 1 r3
      in ramp others 1 1 1 r4)"

definition stoptopartial ::
  "device \<Rightarrow> ('a board_scheme \<Rightarrow> 'a board_scheme) \<Rightarrow> 'a board_scheme \<Rightarrow> 'a board_scheme" where
  "stoptopartial dev others r =
     (let r1 = stop_if_moving dev others r;
          r2 = ramp others (1/2) (1/2) (1/2) r1;
          r3 = ramp others (63/100) (65/100) (1/2) r2
      in ramp others (859/1000) (9/10) 1 r3)"

definition slowtostop :: "('a board_scheme \<Rightarrow> 'a board_scheme) \<Rightarrow> 'a board_scheme \<Rightarrow> 'a board_scheme" where
  "slowtostop others r =
     (let r1 = ramp others (3/4) (3/4) 1 r;
          r2 = ramp others (1/2) (1/2) (3/4) r1;
          r3 = ramp others (1/4) (1/4) (1/4) r2
      in ramp others 0 0 1 r3)"

definition turnLeft_Simple :: "('a board_scheme \<Rightarrow> 'a board_scheme) \<Rightarrow> 'a board_scheme \<Rightarrow> 'a board_scheme" where
  "turnLeft_Simple others r =
     (let r1 = sleep_s others (1/2) (pwm PWM_2_BASE (1/2) (pwm PWM_1_BASE (1/2) r));
          r2 = sleep_s others 1 (pwm PWM_2_BASE (3/4) (pwm PWM_1_BASE (3/4) r1))
      in IOWR PWM_2_BASE 0 0 (IOWR PWM_1_BASE 0 0 r2))"

section \<open>Drives\<close>

text \<open>
  The loop of a drive, which the encoders end: last readings and totals of both wheels.  It waits for
  a device, so it is a partial function; \<open>counts\<close> is the number of counts to go.
\<close>

definition count_up :: "rat \<Rightarrow> rat \<Rightarrow> bool \<Rightarrow> rat \<Rightarrow> rat" where
  "count_up tot temp up old = (if up then tot + (temp - old) else tot + temp)"

partial_function (option) motor_loop ::
  "device \<Rightarrow> ('a board_scheme \<Rightarrow> 'a board_scheme) \<Rightarrow> rat \<Rightarrow> rat \<Rightarrow> rat \<Rightarrow> rat \<Rightarrow> rat \<Rightarrow> 'a board_scheme \<Rightarrow>
   'a board_scheme option"
  where
  "motor_loop dev others counts motor_0 motor_0_total motor_1 motor_1_total r =
     (let (v0, r1) = IORD dev ENCODER_0A_BASE 0 r;
          (v1, r2) = IORD dev ENCODER_1A_BASE 0 r1;
          temp_0 = int_of_reg v0;
          temp_1 = int_of_reg v1;
          total_0 = count_up motor_0_total temp_0 (temp_0 \<ge> motor_0) motor_0;
          total_1 = count_up motor_1_total temp_1 (temp_1 \<ge> motor_0) motor_1
      in if total_0 \<ge> counts \<or> total_1 \<ge> counts then Some r2
         else motor_loop dev others counts temp_0 total_0 temp_1 total_1 (dly_hmsm others 0 0 0 10 r2))"

definition drive_limit :: "rat \<Rightarrow> rat" where
  "drive_limit distance = 16 * distance - 5/100 * 16 * distance"

definition motorGoForward ::
  "device \<Rightarrow> ('a board_scheme \<Rightarrow> 'a board_scheme) \<Rightarrow> int \<Rightarrow> int \<Rightarrow> rat \<Rightarrow> rat \<Rightarrow> rat \<Rightarrow> 'a board_scheme \<Rightarrow>
   'a board_scheme option"
  where
  "motorGoForward dev others leftin rightin leftduty rightduty distance r =
     (let left = returnHbridgeIn leftin;
          right = returnHbridgeIn rightin;
          r1 = pwm left leftduty r;
          r2 = pwm right rightduty r1;
          (v0, r3) = IORD dev ENCODER_0A_BASE 0 r2;
          (v1, r4) = IORD dev ENCODER_1A_BASE 0 r3
      in do {
        r5 \<leftarrow> motor_loop dev others (drive_limit distance) (int_of_reg v0) 0 (int_of_reg v1) 0 r4;
        Some (IOWR right 0 0 (IOWR left 0 0 r5))
      })"

definition motorGo ::
  "device \<Rightarrow> ('a board_scheme \<Rightarrow> 'a board_scheme) \<Rightarrow> int \<Rightarrow> int \<Rightarrow> rat \<Rightarrow> rat \<Rightarrow> 'a board_scheme \<Rightarrow>
   'a board_scheme option"
  where
  "motorGo dev others leftin rightin duty distance r =
     (let left = returnHbridgeIn leftin;
          right = returnHbridgeIn rightin;
          r1 = pwm left duty r;
          r2 = pwm right duty r1;
          (v0, r3) = IORD dev ENCODER_0A_BASE 0 r2;
          (v1, r4) = IORD dev ENCODER_1A_BASE 0 r3
      in do {
        r5 \<leftarrow> motor_loop dev others (drive_limit distance) (int_of_reg v0) 0 (int_of_reg v1) 0 r4;
        Some (IOWR right 0 0 (IOWR left 0 0 r5))
      })"

definition turnLeft :: "device \<Rightarrow> ('a board_scheme \<Rightarrow> 'a board_scheme) \<Rightarrow> 'a board_scheme \<Rightarrow> 'a board_scheme option" where
  "turnLeft dev others = motorGo dev others 1 2 (3/4) 103"

definition turnRight :: "device \<Rightarrow> ('a board_scheme \<Rightarrow> 'a board_scheme) \<Rightarrow> 'a board_scheme \<Rightarrow> 'a board_scheme option" where
  "turnRight dev others = motorGo dev others 0 3 (3/4) 100"

definition turn180 :: "device \<Rightarrow> ('a board_scheme \<Rightarrow> 'a board_scheme) \<Rightarrow> 'a board_scheme \<Rightarrow> 'a board_scheme option" where
  "turn180 dev others = motorGo dev others 0 3 (9/10) 218"

definition motorReverse :: "device \<Rightarrow> ('a board_scheme \<Rightarrow> 'a board_scheme) \<Rightarrow> 'a board_scheme \<Rightarrow> 'a board_scheme option" where
  "motorReverse dev others = motorGo dev others 1 3 (9/10) 120"

section \<open>The history of moves\<close>

definition newDir :: "char \<Rightarrow> char \<Rightarrow> char" where
  "newDir oldDir move =
     (if oldDir = CHR ''N'' then
        (if move = CHR ''F'' then CHR ''N'' else if move = CHR ''L'' then CHR ''W''
         else if move = CHR ''R'' then CHR ''E'' else if move = CHR ''B'' then CHR ''S'' else CHR ''N'')
      else if oldDir = CHR ''W'' then
        (if move = CHR ''F'' then CHR ''W'' else if move = CHR ''L'' then CHR ''S''
         else if move = CHR ''R'' then CHR ''N'' else if move = CHR ''B'' then CHR ''E'' else CHR ''N'')
      else if oldDir = CHR ''E'' then
        (if move = CHR ''F'' then CHR ''E'' else if move = CHR ''L'' then CHR ''N''
         else if move = CHR ''R'' then CHR ''S'' else if move = CHR ''B'' then CHR ''W'' else CHR ''N'')
      else if oldDir = CHR ''S'' then
        (if move = CHR ''F'' then CHR ''S'' else if move = CHR ''L'' then CHR ''E''
         else if move = CHR ''R'' then CHR ''W'' else if move = CHR ''B'' then CHR ''N'' else CHR ''N'')
      else CHR ''N'')"

text \<open>\<open>n\<close> entries of the array from \<open>i\<close> on are left to look at.\<close>

fun eval_loop :: "(nat \<Rightarrow> move_obj) \<Rightarrow> nat \<Rightarrow> nat \<Rightarrow> rat \<Rightarrow> bool" where
  "eval_loop TRVL i 0 d_north = False"
| "eval_loop TRVL i (Suc n) d_north =
     (let d_north' = (if mv_dir (TRVL i) = CHR ''N'' then d_north + mv_count (TRVL i)
                   else if mv_dir (TRVL i) = CHR ''S'' then d_north - mv_count (TRVL i)
                   else d_north)
      in if d_north' \<ge> COURSE_LENGTH - 5/100 * COURSE_LENGTH then True
         else eval_loop TRVL (Suc i) n d_north')"

definition evalHistory :: "(nat \<Rightarrow> move_obj) \<Rightarrow> nat \<Rightarrow> char \<Rightarrow> rat \<Rightarrow> bool" where
  "evalHistory TRVL TRVL_INDEX dir distance = eval_loop TRVL 0 (Suc TRVL_INDEX) 0"

definition execute_move ::
  "device \<Rightarrow> ('a board_scheme \<Rightarrow> 'a board_scheme) \<Rightarrow> move_obj \<Rightarrow> 'a board_scheme \<Rightarrow> 'a board_scheme option" where
  "execute_move dev others mv r =
     do {
       r1 \<leftarrow> (if mv_move mv = CHR ''F''
              then motorGoForward dev others 0 2 (859/1000) (9/10) (mv_count mv) r
              else if mv_move mv = CHR ''L'' then turnRight dev others r
              else if mv_move mv = CHR ''R'' then turnLeft dev others r
              else Some r);
       let r2 = dly_hmsm others 0 0 1 0 r1;
       let r3 = M_allStop others r2;
       Some (dly_hmsm others 0 0 1 0 r3)
     }"

text \<open>
  The array is read as the loop goes on: \<open>TRVL\<close> reads it in the current state.  \<open>n\<close> entries from \<open>i\<close> on
  are left.
\<close>

fun execute_loop ::
  "device \<Rightarrow> ('a board_scheme \<Rightarrow> 'a board_scheme) \<Rightarrow> ('a board_scheme \<Rightarrow> nat \<Rightarrow> move_obj) \<Rightarrow> nat \<Rightarrow> nat \<Rightarrow>
   'a board_scheme \<Rightarrow> 'a board_scheme option" where
  "execute_loop dev others TRVL i 0 r = Some r"
| "execute_loop dev others TRVL i (Suc n) r =
     do { r1 \<leftarrow> execute_move dev others (TRVL r i) r; execute_loop dev others TRVL (Suc i) n r1 }"

definition executeHistory ::
  "device \<Rightarrow> ('a board_scheme \<Rightarrow> 'a board_scheme) \<Rightarrow> ('a board_scheme \<Rightarrow> nat \<Rightarrow> move_obj) \<Rightarrow> nat \<Rightarrow>
   'a board_scheme \<Rightarrow> 'a board_scheme option"
  where
  "executeHistory dev others TRVL TRVL_INDEX r =
     do {
       r1 \<leftarrow> turn180 dev others (M_allStop others r);
       execute_loop dev others TRVL 0 TRVL_INDEX (dly_hmsm others 0 0 2 0 r1)
     }"

section \<open>Directions\<close>

text \<open>Quarter turns clockwise from north, and of a move.\<close>

definition compass :: "char \<Rightarrow> int" where
  "compass d = (if d = CHR ''N'' then 0 else if d = CHR ''E'' then 1 else if d = CHR ''S'' then 2 else 3)"

definition quarters :: "char \<Rightarrow> int" where
  "quarters m = (if m = CHR ''F'' then 0 else if m = CHR ''R'' then 1 else if m = CHR ''B'' then 2 else 3)"

lemma newDir_step:
  assumes "d \<in> set ''NESW''" "m \<in> set ''FRBL''"
  shows "newDir d m \<in> set ''NESW''" and "compass (newDir d m) = (compass d + quarters m) mod 4"
  using assms by (auto simp: newDir_def compass_def quarters_def)

text \<open>
  the direction that \<^verbatim>\<open>newDir\<close> (motors.c) computes over any sequence of moves is the starting
  direction turned by the sum of the quarter turns of the moves, so for example four left turns or a
  left and a right turn restore it.
\<close>

theorem newDir_rotation:
  assumes "d \<in> set ''NESW''" "set ms \<subseteq> set ''FRBL''"
  shows "foldl newDir d ms \<in> set ''NESW'' \<and>
    compass (foldl newDir d ms) = (compass d + sum_list (map quarters ms)) mod 4"
proof -
  have "foldl newDir d ms \<in> set ''NESW'' \<and>
      compass (foldl newDir d ms) = (compass d + sum_list (map quarters ms)) mod 4"
    using assms
  proof (induction ms arbitrary: d)
    case Nil
    then show ?case by (auto simp: compass_def)
  next
    case (Cons m ms)
    then have "newDir d m \<in> set ''NESW''" "compass (newDir d m) = (compass d + quarters m) mod 4"
      by (simp_all only: newDir_step list.set_intros subset_iff)
    with Cons.IH [of "newDir d m"] Cons.prems(2) show ?case
      by (simp add: mod_add_left_eq mod_add_right_eq add.assoc)
  qed
  then show ?thesis .
qed

lemma newDir_rotation_witness:
  "compass (foldl newDir (CHR ''E'') ''LFRB'') =
     (compass (CHR ''E'') + sum_list (map quarters ''LFRB'')) mod 4"
  by (rule newDir_rotation [THEN conjunct2]) simp_all

section \<open>Progress along the course\<close>

definition north :: "move_obj \<Rightarrow> rat" where
  "north mv = (if mv_dir mv = CHR ''N'' then mv_count mv
               else if mv_dir mv = CHR ''S'' then - mv_count mv else 0)"

lemma eval_loop_iff:
  "eval_loop TRVL i n d_north \<longleftrightarrow> (\<exists>k < n. d_north + (\<Sum>j \<in> {i..i + k}. north (TRVL j)) \<ge> 19000)"
proof (induction n arbitrary: i d_north)
  case 0
  then show ?case by simp
next
  case (Suc n)
  have split: "(\<exists>k < Suc n. P k) \<longleftrightarrow> P 0 \<or> (\<exists>k < n. P (Suc k))" for P
    by (auto simp: less_Suc_eq_0_disj)
  have shift: "(\<Sum>j \<in> {i..i + Suc k}. north (TRVL j)) =
      north (TRVL i) + (\<Sum>j \<in> {Suc i..Suc i + k}. north (TRVL j))" for k
    by (simp add: sum.atLeast_Suc_atMost del: sum.cl_ivl_Suc)
  have step: "eval_loop TRVL i (Suc n) d_north \<longleftrightarrow>
      d_north + (\<Sum>j \<in> {i..i + 0}. north (TRVL j)) \<ge> 19000 \<or> eval_loop TRVL (Suc i) n (d_north + north (TRVL i))"
    by (simp add: Let_def north_def)
  show ?case
    unfolding split shift step Suc.IH by (simp only: add.assoc)
qed

text \<open>
  \<^verbatim>\<open>evalHistory\<close> (motors.c) is true exactly when after one of the entries up to and including the
  current one the counts driven north exceed those driven south by 95 percent of the course length
  of 20000; the direction and the distance it is called with do not matter.
\<close>

theorem evalHistory_iff:
  "evalHistory TRVL n dir distance \<longleftrightarrow> (\<exists>k \<le> n. (\<Sum>j \<le> k. north (TRVL j)) \<ge> 19000)"
  by (auto simp: evalHistory_def eval_loop_iff less_Suc_eq_le atLeast0AtMost)

section \<open>The end of a drive\<close>

lemmas motor_loop_unfold = motor_loop.simps

text \<open>One round of the loop, and the state when it reads the counters for the last time.\<close>

definition drive_reads :: "device \<Rightarrow> 'a board_scheme \<Rightarrow> 'a board_scheme" where
  "drive_reads dev r = snd (IORD dev ENCODER_1A_BASE 0 (snd (IORD dev ENCODER_0A_BASE 0 r)))"

definition drive_round :: "device \<Rightarrow> ('a board_scheme \<Rightarrow> 'a board_scheme) \<Rightarrow> 'a board_scheme \<Rightarrow> 'a board_scheme" where
  "drive_round dev others r = dly_hmsm others 0 0 0 10 (drive_reads dev r)"

definition wheel0 :: "device \<Rightarrow> 'a board_scheme \<Rightarrow> rat" where
  "wheel0 dev r = int_of_reg (dev (trace r) ENCODER_0A_BASE 0)"

definition wheel1 :: "device \<Rightarrow> 'a board_scheme \<Rightarrow> rat" where
  "wheel1 dev r = int_of_reg (fst (IORD dev ENCODER_1A_BASE 0 (snd (IORD dev ENCODER_0A_BASE 0 r))))"

lemma motor_loop_round:
  "motor_loop dev others counts m0 t0 m1 t1 r =
     (let t0' = count_up t0 (wheel0 dev r) (wheel0 dev r \<ge> m0) m0;
          t1' = count_up t1 (wheel1 dev r) (wheel1 dev r \<ge> m0) m1
      in if t0' \<ge> counts \<or> t1' \<ge> counts then Some (drive_reads dev r)
         else motor_loop dev others counts (wheel0 dev r) t0' (wheel1 dev r) t1' (drive_round dev others r))"
  by (subst motor_loop.simps)
    (simp add: Let_def split_beta wheel0_def wheel1_def drive_reads_def drive_round_def fst_IORD)

lemma motor_loop_ends:
  assumes "m0 \<le> wheel0 dev r"
    and "\<And>k. k < n \<Longrightarrow> wheel0 dev ((drive_round dev others ^^ k) r) \<le> wheel0 dev ((drive_round dev others ^^ Suc k) r)"
    and "counts \<le> t0 + (wheel0 dev ((drive_round dev others ^^ n) r) - m0)"
  shows "\<exists>k \<le> n. motor_loop dev others counts m0 t0 m1 t1 r =
    Some (drive_reads dev ((drive_round dev others ^^ k) r))"
  using assms
proof (induction n arbitrary: m0 t0 m1 t1 r)
  case 0
  then show ?case by (subst motor_loop_round) (simp add: count_up_def Let_def)
next
  case (Suc n)
  let ?r = "drive_round dev others r"
  define t0' where "t0' = t0 + (wheel0 dev r - m0)"
  define t1' where "t1' = count_up t1 (wheel1 dev r) (wheel1 dev r \<ge> m0) m1"
  have eq: "motor_loop dev others counts m0 t0 m1 t1 r =
      (if t0' \<ge> counts \<or> t1' \<ge> counts then Some (drive_reads dev r)
       else motor_loop dev others counts (wheel0 dev r) t0' (wheel1 dev r) t1' ?r)"
    using Suc.prems(1) by (subst motor_loop_round) (simp add: Let_def t0'_def t1'_def count_up_def)
  show ?case
  proof (cases "t0' \<ge> counts \<or> t1' \<ge> counts")
    case True
    then show ?thesis unfolding eq by (intro exI [of _ 0]) simp
  next
    case False
    have "\<exists>k \<le> n. motor_loop dev others counts (wheel0 dev r) t0' (wheel1 dev r) t1' ?r =
        Some (drive_reads dev ((drive_round dev others ^^ k) ?r))"
    proof (rule Suc.IH)
      show "wheel0 dev r \<le> wheel0 dev ?r" using Suc.prems(2) [of 0] by simp
      show "wheel0 dev ((drive_round dev others ^^ k) ?r)
          \<le> wheel0 dev ((drive_round dev others ^^ Suc k) ?r)" if "k < n" for k
        using Suc.prems(2) [of "Suc k"] that by (simp add: funpow_swap1)
      show "counts \<le> t0' + (wheel0 dev ((drive_round dev others ^^ n) ?r) - wheel0 dev r)"
        using Suc.prems(3) by (simp add: t0'_def funpow_swap1)
    qed
    with False show ?thesis unfolding eq
      by (metis Suc_le_mono funpow_Suc_right comp_apply)
  qed
qed

text \<open>The state when the loop of a drive starts.\<close>

definition drive_on :: "int \<Rightarrow> int \<Rightarrow> rat \<Rightarrow> 'a board_scheme \<Rightarrow> 'a board_scheme" where
  "drive_on leftin rightin duty r = pwm (returnHbridgeIn rightin) duty (pwm (returnHbridgeIn leftin) duty r)"

definition drive_off :: "int \<Rightarrow> int \<Rightarrow> 'a board_scheme \<Rightarrow> 'a board_scheme" where
  "drive_off leftin rightin r = IOWR (returnHbridgeIn rightin) 0 0 (IOWR (returnHbridgeIn leftin) 0 0 r)"

lemma motorGo_loop:
  "motorGo dev others leftin rightin duty distance r =
     map_option (drive_off leftin rightin)
       (let r2 = drive_on leftin rightin duty r
        in motor_loop dev others (drive_limit distance) (wheel0 dev r2) 0 (wheel1 dev r2) 0 (drive_reads dev r2))"
  unfolding motorGo_def Let_def split_beta drive_on_def drive_off_def wheel0_def wheel1_def
    drive_reads_def fst_IORD
  by (auto simp: fst_IORD split: Option.bind_split)

section \<open>What the motors leave alone\<close>

context board_inv begin

lemma pwm [simp]: "I (pwm base duty r) \<longleftrightarrow> I r"
  by (simp add: pwm_def)

lemma M_allStop:
  assumes "keeps I others"
  shows "I r \<Longrightarrow> I (M_allStop others r)"
  by (simp add: M_allStop_def sleep_s_def Let_def usleep assms)

lemma check_motion [simp]: "I (snd (check_motion dev bs r)) \<longleftrightarrow> I r"
  by (induction bs arbitrary: r) (simp_all add: Let_def split_beta)

lemma ramp:
  assumes "keeps I others"
  shows "I r \<Longrightarrow> I (ramp others left right secs r)"
  by (simp add: ramp_def sleep_s_def usleep assms)

lemma stoptopartial:
  assumes "keeps I others"
  shows "I r \<Longrightarrow> I (stoptopartial dev others r)"
  by (simp add: stoptopartial_def stop_if_moving_def M_checkMotion_def Let_def split_beta ramp
      M_allStop assms)

lemma motor_loop:
  assumes "keeps I others"
    and "motor_loop dev others counts m0 t0 m1 t1 r = Some r'" "I r"
  shows "I r'"
proof -
  have "others' = others \<longrightarrow> I r0 \<longrightarrow> I y"
    if "motor_loop dev' others' c m0' t0' m1' t1' r0 = Some y" for dev' others' c m0' t0' m1' t1' r0 y
  proof (rule motor_loop.raw_induct [OF _ that, where P = "\<lambda>dev' others' c m0 t0 m1 t1 r0 y.
      others' = others \<longrightarrow> I r0 \<longrightarrow> I y"], goal_cases)
    case (1 f dev' others' c m0 t0 m1 t1 r0 y)
    show ?case
    proof (intro impI)
      assume o: "others' = others" and r: "I r0"
      define r2 where "r2 = snd (IORD dev' 32 0 (snd (IORD dev' 64 0 r0)))"
      have "I r2" "I (dly_hmsm others 0 0 0 10 r2)"
        using r by (simp_all add: r2_def dly_hmsm assms(1))
      with 1 o show "I y"
        by (auto simp: Let_def split_beta simp flip: r2_def split: if_splits)
    qed
  qed
  with assms(2,3) show ?thesis by blast
qed

lemma motorGo:
  assumes k: "keeps I others"
    and e: "motorGo dev others l ri duty distance r = Some r'" and r: "I r"
  shows "I r'"
proof -
  obtain c m0 t0 m1 t1 r5 where l: "motor_loop dev others c m0 t0 m1 t1 (drive_reads dev (drive_on l ri duty r)) = Some r5"
    and "r' = drive_off l ri r5"
    using e by (auto simp: motorGo_loop Let_def)
  moreover have "I (drive_reads dev (drive_on l ri duty r))"
    using r by (simp add: drive_reads_def drive_on_def)
  ultimately show ?thesis
    using motor_loop [OF k l] by (simp add: drive_off_def)
qed

lemma turns:
  assumes "keeps I others" "I r"
  shows "turnLeft dev others r = Some r' \<Longrightarrow> I r'" and "turnRight dev others r = Some r' \<Longrightarrow> I r'"
    and "turn180 dev others r = Some r' \<Longrightarrow> I r'" and "motorReverse dev others r = Some r' \<Longrightarrow> I r'"
  using motorGo [OF assms(1) _ assms(2)]
  by (auto simp: turnLeft_def turnRight_def turn180_def motorReverse_def)

end

text \<open>
  C36: a drive (\<^verbatim>\<open>motorGo\<close> of motors.c) whose left wheel turns on ends: when the counter of encoder 0
  never goes back in the first \<open>n\<close> rounds and has then gone on by 95 percent of 16 counts per unit of
  distance, the drive returns within those rounds, and the last two accesses clear the two bridge
  inputs that it set.
\<close>

theorem motorGo_ends:
  assumes "r4 = drive_reads dev (drive_on leftin rightin duty r)"
    and "wheel0 dev (drive_on leftin rightin duty r) \<le> wheel0 dev r4"
    and "\<And>k. k < n \<Longrightarrow> wheel0 dev ((drive_round dev others ^^ k) r4)
            \<le> wheel0 dev ((drive_round dev others ^^ Suc k) r4)"
    and "drive_limit distance
            \<le> wheel0 dev ((drive_round dev others ^^ n) r4) - wheel0 dev (drive_on leftin rightin duty r)"
  shows "\<exists>k \<le> n. motorGo dev others leftin rightin duty distance r =
    Some (drive_off leftin rightin (drive_reads dev ((drive_round dev others ^^ k) r4)))"
proof -
  let ?r2 = "drive_on leftin rightin duty r"
  have "drive_limit distance
      \<le> 0 + (wheel0 dev ((drive_round dev others ^^ n) r4) - wheel0 dev ?r2)"
    using assms(4) by simp
  from motor_loop_ends [OF assms(2,3) this]
  obtain k where "k \<le> n" "motor_loop dev others (drive_limit distance) (wheel0 dev ?r2) 0
      (wheel1 dev ?r2) 0 r4 = Some (drive_reads dev ((drive_round dev others ^^ k) r4))"
    by blast
  then show ?thesis
    by (intro exI [of _ k]) (simp add: motorGo_loop Let_def flip: assms(1))
qed

text \<open>A board whose counters count the accesses.\<close>

definition busy_dev :: device where
  "busy_dev tr base reg = of_nat (length tr)"

lemma length_trace_round [simp]:
  "length (trace (drive_round dev (\<lambda>r. r) r)) = length (trace r) + 2"
proof -
  have "trace (dly_calls (\<lambda>r. r) ds r') = trace r'" for ds :: "u16 list" and r' :: "'a board_scheme"
    by (induction ds arbitrary: r') simp_all
  then show ?thesis by (simp add: drive_round_def dly_hmsm_def drive_reads_def)
qed

lemma length_trace_rounds:
  "length (trace ((drive_round dev (\<lambda>r. r) ^^ k) r)) = length (trace r) + 2 * k"
  by (induction k) simp_all

lemma wheel0_busy:
  assumes "length (trace r) < 2 ^ 31"
  shows "wheel0 busy_dev r = of_nat (length (trace r))"
  using assms
  by (simp add: wheel0_def busy_dev_def int_of_reg_def signed_take_bit_int_eq_self signed_of_nat)

lemma motorGo_ends_witness:
  "\<exists>k \<le> 7. motorGo busy_dev (\<lambda>r. r) 0 3 (3/4) 1 \<lparr>trace = [], os = demo\<rparr> =
    Some (drive_off 0 3 (drive_reads busy_dev ((drive_round busy_dev (\<lambda>r. r) ^^ k)
      (drive_reads busy_dev (drive_on 0 3 (3/4) \<lparr>trace = [], os = demo\<rparr>)))))"
proof (rule motorGo_ends [OF refl])
  have l: "length (trace (drive_on 0 3 (3/4) \<lparr>trace = [], os = demo\<rparr>)) = 2"
    "length (trace (drive_reads busy_dev r)) = length (trace r) + 2" for r :: "'x board_scheme"
    by (simp_all add: drive_on_def pwm_def drive_reads_def)
  show "wheel0 busy_dev (drive_on 0 3 (3/4) \<lparr>trace = [], os = demo\<rparr>)
      \<le> wheel0 busy_dev (drive_reads busy_dev (drive_on 0 3 (3/4) \<lparr>trace = [], os = demo\<rparr>))"
    by (simp add: wheel0_busy l)
  show "wheel0 busy_dev ((drive_round busy_dev (\<lambda>r. r) ^^ k)
        (drive_reads busy_dev (drive_on 0 3 (3/4) \<lparr>trace = [], os = demo\<rparr>)))
      \<le> wheel0 busy_dev ((drive_round busy_dev (\<lambda>r. r) ^^ Suc k)
        (drive_reads busy_dev (drive_on 0 3 (3/4) \<lparr>trace = [], os = demo\<rparr>)))" if "k < 7" for k
    using that by (simp add: wheel0_busy l length_trace_rounds del: funpow.simps)
  show "drive_limit 1 \<le> wheel0 busy_dev ((drive_round busy_dev (\<lambda>r. r) ^^ 7)
        (drive_reads busy_dev (drive_on 0 3 (3/4) \<lparr>trace = [], os = demo\<rparr>)))
      - wheel0 busy_dev (drive_on 0 3 (3/4) \<lparr>trace = [], os = demo\<rparr>)"
    by (simp add: wheel0_busy l length_trace_rounds drive_limit_def del: funpow.simps)
qed

subsection \<open>A drive whose wheels do not turn\<close>

lemma stalled_wheels:
  assumes "\<And>tr. dev tr ENCODER_0A_BASE 0 = a" "\<And>tr. dev tr ENCODER_1A_BASE 0 = b"
  shows "wheel0 dev r = int_of_reg a" "wheel1 dev r = int_of_reg b"
  using assms by (simp_all add: wheel0_def wheel1_def fst_IORD)

lemma motor_loop_stalled_ends:
  fixes r :: "'a board_scheme"
  assumes w: "\<And>r :: 'a board_scheme. wheel0 dev r = a" "\<And>r :: 'a board_scheme. wheel1 dev r = b"
    and ab: "0 < b" "b < a" and n: "counts \<le> t1 + of_nat n * b"
  shows "\<exists>r'. motor_loop dev others counts a 0 b t1 r = Some r'"
  using n
proof (induction n arbitrary: t1 r)
  case 0
  then show ?case using ab by (subst motor_loop_round) (simp add: w count_up_def Let_def)
next
  case (Suc n)
  from Suc.prems have "counts \<le> t1 + b + of_nat n * b" by (simp add: algebra_simps)
  then obtain r' where "motor_loop dev others counts a 0 b (t1 + b) (drive_round dev others r) = Some r'"
    using Suc.IH by blast
  then show ?case using ab by (subst motor_loop_round) (simp add: w count_up_def Let_def)
qed

lemma motor_loop_stalled_hangs:
  fixes r :: "'a board_scheme"
  assumes w: "\<And>r :: 'a board_scheme. wheel0 dev r = a" "\<And>r :: 'a board_scheme. wheel1 dev r = b"
    and ab: "\<not> (0 < b \<and> b < a)" "0 \<le> b" and c: "counts > 0"
  shows "motor_loop dev others counts a 0 b 0 r = None"
proof -
  have "\<not> (dev' = dev \<and> m0 = a \<and> t0 = 0 \<and> m1 = b \<and> t1 = 0 \<and> c > 0)"
    if "motor_loop dev' others' c m0 t0 m1 t1 r' = Some y"
    for dev' others' c m0 t0 m1 t1 y and r' :: "'a board_scheme"
  proof (rule motor_loop.raw_induct [OF _ that, where P = "\<lambda>dev' others' c m0 t0 m1 t1 r' y.
      \<not> (dev' = dev \<and> m0 = a \<and> t0 = 0 \<and> m1 = b \<and> t1 = 0 \<and> c > 0)"], goal_cases)
    case (1 f dev' others' c m0 t0 m1 t1 r' y)
    show ?case
    proof
      assume A: "dev' = dev \<and> m0 = a \<and> t0 = 0 \<and> m1 = b \<and> t1 = 0 \<and> c > 0"
      have r: "fst (IORD dev 64 0 r') = dev (trace r') 64 0" by (simp add: fst_IORD)
      have "f dev others' c a 0 b 0 (drive_round dev others' r') = Some y"
        using 1(2) A w(1) [of r'] w(2) [of r'] ab
        by (simp add: Let_def split_beta r drive_round_def drive_reads_def count_up_def
            flip: wheel0_def wheel1_def split: if_splits)
      with 1(1) A show False by blast
    qed
  qed
  from this [of dev others counts a 0 b 0 r] show ?thesis
    using c by (cases "motor_loop dev others counts a 0 b 0 r") auto
qed

text \<open>
  when both wheels stand still, as behind an obstacle or with empty batteries, a drive
  (\<^verbatim>\<open>motorGo\<close>) goes on for ever if the count of the right encoder is 0 or not below that of the left
  one, and else it returns as if the distance had been covered: the code compares the new count of the
  right wheel with the old one of the left wheel (\<^verbatim>\<open>temp_1 >= motor_0\<close>) and takes what is a lower
  number for a counter that has started again.
\<close>

theorem motorGo_stalled:
  assumes "\<And>tr. dev tr ENCODER_0A_BASE 0 = a" "\<And>tr. dev tr ENCODER_1A_BASE 0 = b"
    and "0 \<le> sint b" "0 < distance"
  shows "motorGo dev others leftin rightin duty distance r = None \<longleftrightarrow> sint b = 0 \<or> sint a \<le> sint b"
proof -
  define A where "A = int_of_reg a"
  define B where "B = int_of_reg b"
  define r4 where "r4 = drive_reads dev (drive_on leftin rightin duty r)"
  have B: "0 \<le> B" using assms(3) by (simp add: B_def int_of_reg_def del: of_int_sint)
  have L: "0 < drive_limit distance" using assms(4) by (simp add: drive_limit_def)
  have cond: "0 < B \<and> B < A \<longleftrightarrow> \<not> (sint b = 0 \<or> sint a \<le> sint b)"
    using assms(3) by (auto simp: A_def B_def int_of_reg_def simp del: of_int_sint)
  note w = stalled_wheels [of dev a b, OF assms(1,2), folded A_def B_def]
  have eq: "motorGo dev others leftin rightin duty distance r = map_option (drive_off leftin rightin)
      (motor_loop dev others (drive_limit distance) A 0 B 0 r4)"
    by (simp add: motorGo_loop w Let_def r4_def)
  show ?thesis
  proof (cases "0 < B \<and> B < A")
    case True
    obtain n :: nat where "drive_limit distance < of_nat n * B"
      using True ex_less_of_nat_mult [of B "drive_limit distance"] by blast
    then have "\<exists>r'. motor_loop dev others (drive_limit distance) A 0 B 0 r4 = Some r'"
      using True by (intro motor_loop_stalled_ends [where n = n]) (simp_all add: w)
    with True cond show ?thesis by (auto simp: eq)
  next
    case False
    then have "motor_loop dev others (drive_limit distance) A 0 B 0 r4 = None"
      using B L by (intro motor_loop_stalled_hangs) (simp_all add: w)
    with False cond show ?thesis by (simp add: eq)
  qed
qed

lemma motorGo_stalled_witness:
  "motorGo (\<lambda>tr base reg. if base = 0x40 then 900 else 800) (\<lambda>r. r) 1 2 (3/4) 103
     \<lparr>trace = [], os = demo\<rparr> \<noteq> None"
  by (subst motorGo_stalled [of _ 900 800]) simp_all

end
