(* ===== verification/Rover_Spi.thy ===== *)
theory Rover_Spi
  imports Rover_Io
begin

text \<open>
  The serial devices behind a controller of their own: the analogue-to-digital converter
  (lib/adc_spi_read.c), the SPI master (lib/terasic_spi.c) and on it the accelerometer
  (lib/accelerometer_adxl345_spi.c).
\<close>

section \<open>Analogue-to-digital converter\<close>

abbreviation (input) ADC_SPI_READ_BASE :: u32 where "ADC_SPI_READ_BASE \<equiv> 0x90"
abbreviation (input) START_FLAG :: u16 where "START_FLAG \<equiv> 0x8000"
abbreviation (input) DONE_FLAG :: u16 where "DONE_FLAG \<equiv> 0x8000"

definition adc_done :: "u32 \<Rightarrow> bool" where
  "adc_done v \<longleftrightarrow> (ucast v :: u16) AND DONE_FLAG \<noteq> 0"

text \<open>The loop \<^verbatim>\<open>while(!bDone && nWaitCnt++ <= 1000)\<close> reads the register once and then up to 1000 times more.\<close>

definition ADC_Read ::
  "device \<Rightarrow> ('a board_scheme \<Rightarrow> 'a board_scheme) \<Rightarrow> u8 \<Rightarrow> 'a board_scheme \<Rightarrow> u16 \<times> 'a board_scheme" where
  "ADC_Read dev others NextChannel r =
     (let Data16 = (ucast NextChannel :: u16);
          r1 = IOWR ADC_SPI_READ_BASE 0 (ucast Data16) r;
          r2 = IOWR ADC_SPI_READ_BASE 0 (ucast (Data16 OR START_FLAG)) r1;
          r3 = usleep others 10000 r2;
          (v, r4) = poll dev ADC_SPI_READ_BASE 0 adc_done 1000 r3;
          DigitalValue = (if adc_done v then ucast v AND 0xFFF else 0)
      in (DigitalValue, IOWR ADC_SPI_READ_BASE 0 0 r4))"

section \<open>SPI master\<close>

abbreviation (input) SPI_REG_DATA :: nat where "SPI_REG_DATA \<equiv> 0"
abbreviation (input) SPI_REG_CTRL_STATUS :: nat where "SPI_REG_CTRL_STATUS \<equiv> 1"
abbreviation (input) SPI_REG_INDEX :: nat where "SPI_REG_INDEX \<equiv> 2"
abbreviation (input) SPI_REG_READ_NUM :: nat where "SPI_REG_READ_NUM \<equiv> 3"
abbreviation (input) SPI_FLAG_STATR :: u32 where "SPI_FLAG_STATR \<equiv> 1"
abbreviation (input) SPI_FLGA_REG_READ :: u32 where "SPI_FLGA_REG_READ \<equiv> 2"
abbreviation (input) SPI_FLAG_CLEAR_FIFO :: u32 where "SPI_FLAG_CLEAR_FIFO \<equiv> 4"
abbreviation (input) SPI_STATUS_FLAG_DONE :: u8 where "SPI_STATUS_FLAG_DONE \<equiv> 1"

definition spi_done :: "u32 \<Rightarrow> bool" where
  "spi_done v \<longleftrightarrow> (ucast v :: u8) AND SPI_STATUS_FLAG_DONE \<noteq> 0"

definition SPI_Init :: "u32 \<Rightarrow> 'a board_scheme \<Rightarrow> 'a board_scheme" where
  "SPI_Init spi_base r =
     IOWR spi_base SPI_REG_CTRL_STATUS 0
       (IOWR spi_base SPI_REG_CTRL_STATUS SPI_FLAG_CLEAR_FIFO
         (IOWR spi_base SPI_REG_CTRL_STATUS 0 r))"

fun spi_fill :: "u32 \<Rightarrow> u8 list \<Rightarrow> 'a board_scheme \<Rightarrow> 'a board_scheme" where
  "spi_fill spi_base [] r = r"
| "spi_fill spi_base (b # bs) r = spi_fill spi_base bs (IOWR spi_base SPI_REG_DATA (ucast b) r)"

definition SPI_MultipleWrite ::
  "device \<Rightarrow> ('a board_scheme \<Rightarrow> 'a board_scheme) \<Rightarrow> u32 \<Rightarrow> u8 \<Rightarrow> u8 list \<Rightarrow> 'a board_scheme \<Rightarrow> bool \<times> 'a board_scheme"
  where
  "SPI_MultipleWrite dev others spi_base RegIndex szData r =
     (let r1 = IOWR spi_base SPI_REG_CTRL_STATUS 0 r;
          r2 = IOWR spi_base SPI_REG_INDEX (ucast RegIndex) r1;
          r3 = spi_fill spi_base szData r2;
          r4 = IOWR spi_base SPI_REG_CTRL_STATUS SPI_FLAG_STATR r3;
          r5 = usleep others 10 r4;
          (Status, r6) = poll dev spi_base SPI_REG_CTRL_STATUS spi_done 100 r5
      in (spi_done Status, IOWR spi_base SPI_REG_CTRL_STATUS 0 r6))"

definition SPI_Write ::
  "device \<Rightarrow> ('a board_scheme \<Rightarrow> 'a board_scheme) \<Rightarrow> u32 \<Rightarrow> u8 \<Rightarrow> u8 \<Rightarrow> 'a board_scheme \<Rightarrow> bool \<times> 'a board_scheme"
  where
  "SPI_Write dev others spi_base RegIndex Value r =
     SPI_MultipleWrite dev others spi_base RegIndex [Value] r"

fun spi_drain :: "device \<Rightarrow> u32 \<Rightarrow> nat \<Rightarrow> 'a board_scheme \<Rightarrow> u8 list \<times> 'a board_scheme" where
  "spi_drain dev spi_base 0 r = ([], r)"
| "spi_drain dev spi_base (Suc n) r =
     (let (v, r1) = IORD dev spi_base SPI_REG_DATA r;
          (bs, r2) = spi_drain dev spi_base n r1
      in (ucast v # bs, r2))"

text \<open>The bytes read, or \<open>None\<close> where the code returns \<^verbatim>\<open>FALSE\<close> and leaves the buffer alone.\<close>

definition SPI_MultipleRead ::
  "device \<Rightarrow> ('a board_scheme \<Rightarrow> 'a board_scheme) \<Rightarrow> u32 \<Rightarrow> u8 \<Rightarrow> u8 \<Rightarrow> 'a board_scheme \<Rightarrow>
   u8 list option \<times> 'a board_scheme"
  where
  "SPI_MultipleRead dev others spi_base RegIndex nByteNum r =
     (let r1 = IOWR spi_base SPI_REG_CTRL_STATUS SPI_FLGA_REG_READ r;
          r2 = IOWR spi_base SPI_REG_INDEX (ucast RegIndex) r1;
          r3 = IOWR spi_base SPI_REG_READ_NUM (ucast nByteNum - 1) r2;
          r4 = IOWR spi_base SPI_REG_CTRL_STATUS (SPI_FLAG_STATR OR SPI_FLGA_REG_READ) r3;
          r5 = usleep others 10 r4;
          (Status, r6) = poll dev spi_base SPI_REG_CTRL_STATUS spi_done 100 r5;
          r7 = IOWR spi_base SPI_REG_CTRL_STATUS 0 r6
      in if spi_done Status
         then let (szBuf, r8) = spi_drain dev spi_base (unat nByteNum) r7 in (Some szBuf, r8)
         else (None, r7))"

definition SPI_Read ::
  "device \<Rightarrow> ('a board_scheme \<Rightarrow> 'a board_scheme) \<Rightarrow> u32 \<Rightarrow> u8 \<Rightarrow> 'a board_scheme \<Rightarrow>
   u8 list option \<times> 'a board_scheme"
  where
  "SPI_Read dev others spi_base RegIndex r = SPI_MultipleRead dev others spi_base RegIndex 1 r"

section \<open>Accelerometer\<close>

definition ADXL345_SPI_Init ::
  "device \<Rightarrow> ('a board_scheme \<Rightarrow> 'a board_scheme) \<Rightarrow> u32 \<Rightarrow> 'a board_scheme \<Rightarrow> bool \<times> 'a board_scheme" where
  "ADXL345_SPI_Init dev others device_base r =
     (let r1 = SPI_Init device_base r;
          (ok1, r2) = SPI_Write dev others device_base 0x31 0x40 r1;
          r3 = SPI_Init device_base r2;
          (ok2, r4) = (if ok1 then SPI_Write dev others device_base 0x2C 0x0C r3 else (ok1, r3));
          (ok3, r5) = (if ok2 then SPI_Write dev others device_base 0x2E 0x80 r4 else (ok2, r4));
          (ok4, r6) = (if ok3 then SPI_Write dev others device_base 0x2D 0x00 r5 else (ok3, r5))
      in if ok4 then SPI_Write dev others device_base 0x2D 0x08 r6 else (ok4, r6))"

definition ADXL345_SPI_IsDataReady ::
  "device \<Rightarrow> ('a board_scheme \<Rightarrow> 'a board_scheme) \<Rightarrow> u32 \<Rightarrow> 'a board_scheme \<Rightarrow> bool \<times> 'a board_scheme" where
  "ADXL345_SPI_IsDataReady dev others device_base r =
     (case SPI_Read dev others device_base 0x30 r of
        (Some szBuf, r1) \<Rightarrow> (hd szBuf AND 0x80 \<noteq> 0, r1)
      | (None, r1) \<Rightarrow> (False, r1))"

text \<open>
  The tick counter of the HAL (\<^verbatim>\<open>alt_nticks\<close>) is the parameter \<open>nticks\<close>.  The wait ends only when it moves
  on, so the loop is a partial function.
\<close>

partial_function (option) adxl_wait ::
  "device \<Rightarrow> ('a board_scheme \<Rightarrow> 'a board_scheme) \<Rightarrow> ('a board_scheme \<Rightarrow> u32) \<Rightarrow> u32 \<Rightarrow> u32 \<Rightarrow> 'a board_scheme \<Rightarrow>
   (bool \<times> 'a board_scheme) option"
  where
  "adxl_wait dev others nticks device_base TimeStart r =
     (let (bDataReady, r1) = ADXL345_SPI_IsDataReady dev others device_base r;
          r2 = (if bDataReady then r1 else usleep others 500 r1)
      in if \<not> bDataReady \<and> nticks r2 - TimeStart < OS_TICKS_PER_SEC div 3
         then adxl_wait dev others nticks device_base TimeStart r2
         else Some (bDataReady, r2))"

definition ADXL345_SPI_WaitDataReady ::
  "device \<Rightarrow> ('a board_scheme \<Rightarrow> 'a board_scheme) \<Rightarrow> ('a board_scheme \<Rightarrow> u32) \<Rightarrow> u32 \<Rightarrow> 'a board_scheme \<Rightarrow>
   (bool \<times> 'a board_scheme) option"
  where
  "ADXL345_SPI_WaitDataReady dev others nticks device_base r =
     adxl_wait dev others nticks device_base (nticks r) r"

definition adxl_pair :: "u8 \<Rightarrow> u8 \<Rightarrow> u16" where
  "adxl_pair hi lo = push_bit 8 (ucast hi) OR ucast lo"

definition ADXL345_SPI_XYZ_Read ::
  "device \<Rightarrow> ('a board_scheme \<Rightarrow> 'a board_scheme) \<Rightarrow> u32 \<Rightarrow> 'a board_scheme \<Rightarrow> u16 list option \<times> 'a board_scheme"
  where
  "ADXL345_SPI_XYZ_Read dev others device_base r =
     (case SPI_MultipleRead dev others device_base 0x32 6 r of
        (Some szData8, r1) \<Rightarrow>
          (Some [adxl_pair (szData8 ! 1) (szData8 ! 0), adxl_pair (szData8 ! 3) (szData8 ! 2),
                 adxl_pair (szData8 ! 5) (szData8 ! 4)], r1)
      | (None, r1) \<Rightarrow> (None, r1))"

definition ADXL345_SPI_IdRead ::
  "device \<Rightarrow> ('a board_scheme \<Rightarrow> 'a board_scheme) \<Rightarrow> u32 \<Rightarrow> 'a board_scheme \<Rightarrow> u8 list option \<times> 'a board_scheme"
  where
  "ADXL345_SPI_IdRead dev others device_base r = SPI_Read dev others device_base 0x00 r"

context board_inv begin

lemma ADC_Read:
  assumes "keeps I others"
  shows "I r \<Longrightarrow> I (snd (ADC_Read dev others ch r))"
  by (simp add: ADC_Read_def Let_def split_beta usleep assms)

end

section \<open>The converter's protocol\<close>

lemma adc_done_bit: "adc_done v \<longleftrightarrow> bit v 15"
proof -
  have "adc_done v \<longleftrightarrow> bit (ucast v :: u16) 15"
    unfolding adc_done_def using and_exp_eq_0_iff_not_bit [of "ucast v :: u16" 15] by simp
  then show ?thesis by (simp add: bit_ucast_iff)
qed

text \<open>
  \<^verbatim>\<open>ADC_Read\<close> (adc_spi_read.c) always ends.  It writes the channel, the channel with the start
  flag, waits, reads the register until it shows the done flag, 1001 times at most, and writes 0; the
  result is the low 12 bits of the last value read when that has the done flag, and 0 when the
  converter never answered.
\<close>

theorem ADC_Read_correct:
  "\<exists>vs v. trace (snd (ADC_Read dev others ch r)) =
       IoWr 0x90 0 0 # IoRd 0x90 0 v # map (IoRd 0x90 0) vs @
       trace (usleep others 10000 (r\<lparr>trace :=
         IoWr 0x90 0 (ucast ch OR 0x8000) # IoWr 0x90 0 (ucast ch) # trace r\<rparr>))
     \<and> length vs \<le> 1000 \<and> list_all (\<lambda>x. \<not> bit x 15) vs
     \<and> fst (ADC_Read dev others ch r) = (if bit v 15 then ucast v AND 0xFFF else 0)
     \<and> (if bit v 15 then length vs \<le> 1000 else length vs = 1000)
     \<and> fst (ADC_Read dev others ch r) < 4096"
proof -
  define r0 where "r0 = usleep others 10000 (IOWR 0x90 0 (ucast ((ucast ch :: u16) OR 0x8000))
    (IOWR 0x90 0 (ucast (ucast ch :: u16)) r))"
  have "(ucast (ucast ch :: u16) :: u32) = ucast ch"
    by (rule bit_word_eqI) (auto simp: bit_ucast_iff dest: bit_imp_le_length)
  then have r0: "r0 = usleep others 10000 (r\<lparr>trace :=
         IoWr 0x90 0 (ucast ch OR 0x8000) # IoWr 0x90 0 (ucast ch) # trace r\<rparr>)"
    by (simp add: r0_def unsigned_or_eq IOWR_def)
  obtain v r1 where p: "poll dev 0x90 0 adc_done 1000 r0 = (v, r1)"
    by fastforce
  with poll_trace [where dev = dev and base = "0x90" and reg = 0 and ready = adc_done
        and n = 1000 and r = r0]
  obtain vs where vs: "r1 = r0\<lparr>trace := IoRd 0x90 0 v # map (IoRd 0x90 0) vs @ trace r0\<rparr>"
    "length vs \<le> 1000" "list_all (\<lambda>x. \<not> bit x 15) vs" "bit v 15 \<or> length vs = 1000"
    by (auto simp: adc_done_bit)
  have a: "ADC_Read dev others ch r =
      (if bit v 15 then ucast v AND 0xFFF else 0, IOWR 0x90 0 0 r1)"
    unfolding ADC_Read_def Let_def by (simp add: p adc_done_bit flip: r0_def)
  have "(ucast v :: u16) AND 0xFFF < 4096"
    using and_mask_less' [of 12 "ucast v :: u16"] by (simp add: mask_eq_exp_minus_1)
  then show ?thesis
    unfolding a using vs by (intro exI [of _ vs] exI [of _ v]) (auto simp: r0)
qed

section \<open>What the bus shows of an SPI transfer\<close>

text \<open>
  An observer of the accesses to the SPI master at \<open>base\<close>: the register index, the bytes written to
  the queue since the last transfer, and the write transfers started so far, each with its register
  index and bytes.
\<close>

record spi_view =
  spi_idx :: u32
  spi_fifo :: "u32 list"
  spi_log :: "(u32 \<times> u32 list) list"

definition spi_step :: "io_event \<Rightarrow> spi_view \<Rightarrow> spi_view" where
  "spi_step e m =
     (case e of
        IoWr _ reg v \<Rightarrow>
          if reg = SPI_REG_INDEX then m\<lparr>spi_idx := v\<rparr>
          else if reg = SPI_REG_DATA then m\<lparr>spi_fifo := spi_fifo m @ [v]\<rparr>
          else if reg = SPI_REG_CTRL_STATUS \<and> v = SPI_FLAG_CLEAR_FIFO then m\<lparr>spi_fifo := []\<rparr>
          else if reg = SPI_REG_CTRL_STATUS \<and> v = SPI_FLAG_STATR
          then m\<lparr>spi_fifo := [], spi_log := spi_log m @ [(spi_idx m, spi_fifo m)]\<rparr>
          else m
      | _ \<Rightarrow> m)"

fun spi_mon :: "u32 \<Rightarrow> io_event list \<Rightarrow> spi_view" where
  "spi_mon base [] = \<lparr>spi_idx = 0, spi_fifo = [], spi_log = []\<rparr>"
| "spi_mon base (e # tr) =
     (if touches {base} e then spi_step e (spi_mon base tr) else spi_mon base tr)"

lemma observes_spi: "observes {base} (spi_mon base)"
proof -
  have "spi_mon base (filter (touches {base}) tr) = spi_mon base tr" for tr
    by (induction tr) auto
  then show ?thesis by (simp add: observes_def)
qed

lemmas spi_usleep [simp] = observes_usleep [OF observes_spi]

lemma spi_mon_poll [simp]:
  "spi_mon base (trace (snd (poll dev base reg ready n r))) = spi_mon base (trace r)"
  by (induction n arbitrary: r) (simp_all add: Let_def split_beta spi_step_def)

lemma spi_mon_fill:
  "spi_mon base (trace (spi_fill base bs r)) =
     (spi_mon base (trace r))\<lparr>spi_fifo := spi_fifo (spi_mon base (trace r)) @ map ucast bs\<rparr>"
  by (induction bs arbitrary: r) (simp_all add: spi_step_def)

lemma spi_mon_init:
  "spi_mon base (trace (SPI_Init base r)) = (spi_mon base (trace r))\<lparr>spi_fifo := []\<rparr>"
  by (simp add: SPI_Init_def spi_step_def)

text \<open>A write starts one transfer, of the bytes in the queue, to the register.\<close>

lemma spi_mon_write:
  assumes "leaves_alone {base} others"
  shows "spi_mon base (trace (snd (SPI_MultipleWrite dev others base reg bs r))) =
    (spi_mon base (trace r))\<lparr>spi_idx := ucast reg, spi_fifo := [],
       spi_log := spi_log (spi_mon base (trace r)) @
         [(ucast reg, spi_fifo (spi_mon base (trace r)) @ map ucast bs)]\<rparr>"
  using assms
  by (simp add: SPI_MultipleWrite_def Let_def split_beta spi_mon_fill spi_step_def)

lemma spi_mon_write1:
  assumes "leaves_alone {base} others"
  shows "spi_mon base (trace (snd (SPI_Write dev others base reg v r))) =
    (spi_mon base (trace r))\<lparr>spi_idx := ucast reg, spi_fifo := [],
       spi_log := spi_log (spi_mon base (trace r)) @
         [(ucast reg, spi_fifo (spi_mon base (trace r)) @ [ucast v])]\<rparr>"
  using spi_mon_write [OF assms] by (simp add: SPI_Write_def)

text \<open>A master that answers: each status read shows the done flag.\<close>

definition spi_answers :: "device \<Rightarrow> u32 \<Rightarrow> bool" where
  "spi_answers dev base \<longleftrightarrow> (\<forall>tr. spi_done (dev tr base SPI_REG_CTRL_STATUS))"

lemma poll_answers:
  assumes "spi_answers dev base"
  shows "spi_done (fst (poll dev base (Suc 0) spi_done n r))"
  using assms by (cases n) (simp_all add: spi_answers_def Let_def split_beta fst_IORD)

lemma SPI_Write_ok:
  assumes "spi_answers dev base"
  shows "fst (SPI_Write dev others base reg v r)"
  using poll_answers [OF assms]
  by (simp add: SPI_Write_def SPI_MultipleWrite_def Let_def split_beta)

text \<open>
  with an SPI master that answers and that no other task uses, \<^verbatim>\<open>ADXL345_SPI_Init\<close> succeeds and
  the bus shows exactly these one-byte transfers in this order: three-wire mode to \<^verbatim>\<open>DATA_FORMAT\<close>, the
  data rate to \<^verbatim>\<open>BW_RATE\<close>, the data-ready interrupt to \<^verbatim>\<open>INT_ENABLE\<close>, standby and then measure to
  \<^verbatim>\<open>POWER_CTL\<close>; bytes left over in the queue from before are not sent.
\<close>

theorem ADXL345_SPI_Init_correct:
  assumes "spi_answers dev base" "leaves_alone {base} others"
  shows "fst (ADXL345_SPI_Init dev others base r) \<and>
    spi_log (spi_mon base (trace (snd (ADXL345_SPI_Init dev others base r)))) =
      spi_log (spi_mon base (trace r)) @
        [(0x31, [0x40]), (0x2C, [0x0C]), (0x2E, [0x80]), (0x2D, [0x00]), (0x2D, [0x08])]"
proof (rule conjI)
  show "fst (ADXL345_SPI_Init dev others base r)"
    by (simp add: ADXL345_SPI_Init_def Let_def split_beta SPI_Write_ok [OF assms(1)])
  show "spi_log (spi_mon base (trace (snd (ADXL345_SPI_Init dev others base r)))) =
      spi_log (spi_mon base (trace r)) @
        [(0x31, [0x40]), (0x2C, [0x0C]), (0x2E, [0x80]), (0x2D, [0x00]), (0x2D, [0x08])]"
    by (simp add: ADXL345_SPI_Init_def Let_def split_beta SPI_Write_ok [OF assms(1)]
        spi_mon_init spi_mon_write1 [OF assms(2)])
qed

lemma ADXL345_SPI_Init_correct_witness:
  "spi_log (spi_mon 0x100 (trace (snd (ADXL345_SPI_Init (\<lambda>_ _ _. 1) (\<lambda>r. r) 0x100
      \<lparr>trace = [], os = demo\<rparr>)))) =
    [(0x31, [0x40]), (0x2C, [0x0C]), (0x2E, [0x80]), (0x2D, [0x00]), (0x2D, [0x08])]"
  using ADXL345_SPI_Init_correct [of "\<lambda>_ _ _. 1" "0x100" "\<lambda>r. r" "\<lparr>trace = [], os = demo\<rparr>"]
  by (simp add: spi_answers_def spi_done_def leaves_alone_id)

end
