(* ===== verification/Rover_I2c.thy ===== *)
theory Rover_I2c
  imports Rover_Io
begin

text \<open>
  The software I2C master of lib/I2C.c on two parallel ports, and an observer that decodes the wires.
\<close>

section \<open>The master\<close>

text \<open>Registers of a parallel port (altera_avalon_pio_regs.h): 0 is the data, 1 the direction.\<close>

definition SDA_DIR_IN :: "u32 \<Rightarrow> 'a board_scheme \<Rightarrow> 'a board_scheme" where
  "SDA_DIR_IN data_base = IOWR data_base 1 0"

definition SDA_DIR_OUT :: "u32 \<Rightarrow> 'a board_scheme \<Rightarrow> 'a board_scheme" where
  "SDA_DIR_OUT data_base = IOWR data_base 1 1"

definition SDA_HIGH :: "u32 \<Rightarrow> 'a board_scheme \<Rightarrow> 'a board_scheme" where
  "SDA_HIGH data_base = IOWR data_base 0 1"

definition SDA_LOW :: "u32 \<Rightarrow> 'a board_scheme \<Rightarrow> 'a board_scheme" where
  "SDA_LOW data_base = IOWR data_base 0 0"

definition SDA_READ :: "device \<Rightarrow> u32 \<Rightarrow> 'a board_scheme \<Rightarrow> u32 \<times> 'a board_scheme" where
  "SDA_READ dev data_base = IORD dev data_base 0"

definition SCL_HIGH :: "u32 \<Rightarrow> 'a board_scheme \<Rightarrow> 'a board_scheme" where
  "SCL_HIGH clk_base = IOWR clk_base 0 1"

definition SCL_LOW :: "u32 \<Rightarrow> 'a board_scheme \<Rightarrow> 'a board_scheme" where
  "SCL_LOW clk_base = IOWR clk_base 0 0"

definition SCL_DELAY :: "('a board_scheme \<Rightarrow> 'a board_scheme) \<Rightarrow> 'a board_scheme \<Rightarrow> 'a board_scheme" where
  "SCL_DELAY others = usleep others 2000"

definition i2c_start ::
  "('a board_scheme \<Rightarrow> 'a board_scheme) \<Rightarrow> u32 \<Rightarrow> u32 \<Rightarrow> 'a board_scheme \<Rightarrow> 'a board_scheme" where
  "i2c_start others clk_base data_base r =
     (let r1 = SDA_DIR_OUT data_base r;
          r2 = SDA_HIGH data_base r1;
          r3 = SCL_HIGH clk_base r2;
          r4 = SCL_DELAY others r3;
          r5 = SDA_LOW data_base r4;
          r6 = SCL_DELAY others r5;
          r7 = SCL_LOW clk_base r6
      in SCL_DELAY others r7)"

definition i2c_stop ::
  "('a board_scheme \<Rightarrow> 'a board_scheme) \<Rightarrow> u32 \<Rightarrow> u32 \<Rightarrow> 'a board_scheme \<Rightarrow> 'a board_scheme" where
  "i2c_stop others clk_base data_base r =
     (let r1 = SDA_DIR_OUT data_base r;
          r2 = SDA_LOW data_base r1;
          r3 = SCL_HIGH clk_base r2;
          r4 = SCL_DELAY others r3;
          r5 = SDA_HIGH data_base r4
      in SCL_DELAY others r5)"

text \<open>The loop over the bits, highest first; \<open>n\<close> rounds are left.\<close>

fun i2c_put :: "('a board_scheme \<Rightarrow> 'a board_scheme) \<Rightarrow> u32 \<Rightarrow> u32 \<Rightarrow> u8 \<Rightarrow> nat \<Rightarrow> u8 \<Rightarrow> 'a board_scheme \<Rightarrow> 'a board_scheme" where
  "i2c_put others clk_base data_base Data 0 Mask r = r"
| "i2c_put others clk_base data_base Data (Suc n) Mask r =
     (let r1 = SCL_LOW clk_base r;
          r2 = (if Data AND Mask \<noteq> 0 then SDA_HIGH data_base r1 else SDA_LOW data_base r1);
          r3 = SCL_HIGH clk_base r2;
          r4 = SCL_DELAY others r3;
          r5 = SCL_LOW clk_base r4;
          r6 = SCL_DELAY others r5
      in i2c_put others clk_base data_base Data n (drop_bit 1 Mask) r6)"

definition i2c_write ::
  "device \<Rightarrow> ('a board_scheme \<Rightarrow> 'a board_scheme) \<Rightarrow> u32 \<Rightarrow> u32 \<Rightarrow> u8 \<Rightarrow> 'a board_scheme \<Rightarrow> bool \<times> 'a board_scheme"
  where
  "i2c_write dev others clk_base data_base Data r =
     (let r1 = SDA_DIR_OUT data_base r;
          r2 = i2c_put others clk_base data_base Data 8 0x80 r1;
          r3 = SDA_DIR_IN data_base r2;
          r4 = SCL_HIGH clk_base r3;
          r5 = SCL_DELAY others r4;
          (v, r6) = SDA_READ dev data_base r5;
          r7 = SCL_LOW clk_base r6
      in (v = 0, SCL_DELAY others r7))"

fun i2c_get :: "device \<Rightarrow> ('a board_scheme \<Rightarrow> 'a board_scheme) \<Rightarrow> u32 \<Rightarrow> u32 \<Rightarrow> nat \<Rightarrow> u8 \<Rightarrow> 'a board_scheme \<Rightarrow> u8 \<times> 'a board_scheme" where
  "i2c_get dev others clk_base data_base 0 Data r = (Data, r)"
| "i2c_get dev others clk_base data_base (Suc n) Data r =
     (let Data1 = push_bit 1 Data;
          r1 = SCL_HIGH clk_base r;
          r2 = SCL_DELAY others r1;
          (v, r3) = SDA_READ dev data_base r2;
          Data2 = (if v \<noteq> 0 then Data1 OR 1 else Data1);
          r4 = SCL_LOW clk_base r3
      in i2c_get dev others clk_base data_base n Data2 (SCL_DELAY others r4))"

definition i2c_read ::
  "device \<Rightarrow> ('a board_scheme \<Rightarrow> 'a board_scheme) \<Rightarrow> u32 \<Rightarrow> u32 \<Rightarrow> bool \<Rightarrow> 'a board_scheme \<Rightarrow> u8 \<times> 'a board_scheme"
  where
  "i2c_read dev others clk_base data_base bAck r =
     (let r1 = SDA_DIR_IN data_base r;
          r2 = SCL_LOW clk_base r1;
          r3 = SCL_DELAY others r2;
          (Data, r4) = i2c_get dev others clk_base data_base 8 0 r3;
          r5 = SCL_LOW clk_base r4;
          r6 = SDA_DIR_OUT data_base r5;
          r7 = (if bAck then SDA_LOW data_base r6 else SDA_HIGH data_base r6);
          r8 = SCL_HIGH clk_base r7;
          r9 = SCL_DELAY others r8;
          r10 = SCL_LOW clk_base r9;
          r11 = SCL_DELAY others r10;
          r12 = SDA_LOW data_base r11
      in (Data, SCL_DELAY others r12))"

text \<open>The sequence of calls of \<^verbatim>\<open>i2c_write\<close> guarded by \<^verbatim>\<open>bSuccess\<close>: it stops at the first byte not acknowledged.\<close>

fun i2c_send ::
  "device \<Rightarrow> ('a board_scheme \<Rightarrow> 'a board_scheme) \<Rightarrow> u32 \<Rightarrow> u32 \<Rightarrow> u8 list \<Rightarrow> 'a board_scheme \<Rightarrow> bool \<times> 'a board_scheme"
  where
  "i2c_send dev others clk_base data_base [] r = (True, r)"
| "i2c_send dev others clk_base data_base (b # bs) r =
     (let (bAck, r1) = i2c_write dev others clk_base data_base b r
      in if bAck then i2c_send dev others clk_base data_base bs r1 else (False, r1))"

definition I2C_Write ::
  "device \<Rightarrow> ('a board_scheme \<Rightarrow> 'a board_scheme) \<Rightarrow> u32 \<Rightarrow> u32 \<Rightarrow> u8 \<Rightarrow> u8 \<Rightarrow> u8 \<Rightarrow> 'a board_scheme \<Rightarrow>
   bool \<times> 'a board_scheme"
  where
  "I2C_Write dev others clk_base data_base DeviceAddr ControlAddr ControlData r =
     (let r1 = i2c_start others clk_base data_base r;
          (bSuccess, r2) = i2c_send dev others clk_base data_base [DeviceAddr, ControlAddr, ControlData] r1;
          r3 = i2c_stop others clk_base data_base r2
      in (bSuccess, usleep others 7000 r3))"

text \<open>\<open>None\<close> where the code returns \<^verbatim>\<open>FALSE\<close> and stores nothing.\<close>

definition I2C_Read ::
  "device \<Rightarrow> ('a board_scheme \<Rightarrow> 'a board_scheme) \<Rightarrow> u32 \<Rightarrow> u32 \<Rightarrow> u8 \<Rightarrow> u8 \<Rightarrow> 'a board_scheme \<Rightarrow>
   u8 option \<times> 'a board_scheme"
  where
  "I2C_Read dev others clk_base data_base DeviceAddr ControlAddr r =
     (let r1 = i2c_start others clk_base data_base r;
          (ok1, r2) = i2c_send dev others clk_base data_base [DeviceAddr, ControlAddr] r1;
          r3 = i2c_start others clk_base data_base r2;
          (ok2, r4) = (if ok1 then i2c_write dev others clk_base data_base (DeviceAddr OR 1) r3
                       else (ok1, r3));
          (res, r5) = (if ok2 then let (d, r5) = i2c_read dev others clk_base data_base False r4
                                   in (Some d, r5)
                       else (None, r4))
      in (res, i2c_stop others clk_base data_base r5))"

definition I2C_MultipleWrite ::
  "device \<Rightarrow> ('a board_scheme \<Rightarrow> 'a board_scheme) \<Rightarrow> u32 \<Rightarrow> u32 \<Rightarrow> u8 \<Rightarrow> u8 \<Rightarrow> u8 list \<Rightarrow> 'a board_scheme \<Rightarrow>
   bool \<times> 'a board_scheme"
  where
  "I2C_MultipleWrite dev others clk_base data_base DeviceAddr ControlAddr pData r =
     (let r1 = i2c_start others clk_base data_base r;
          (ok1, r2) = i2c_send dev others clk_base data_base [DeviceAddr, ControlAddr] r1;
          (bSuccess, r3) = (if ok1 then i2c_send dev others clk_base data_base pData r2 else (ok1, r2));
          r4 = i2c_stop others clk_base data_base r3
      in (bSuccess, usleep others 8000 r4))"

text \<open>The bytes but the last are acknowledged.\<close>

fun i2c_fetch ::
  "device \<Rightarrow> ('a board_scheme \<Rightarrow> 'a board_scheme) \<Rightarrow> u32 \<Rightarrow> u32 \<Rightarrow> nat \<Rightarrow> 'a board_scheme \<Rightarrow> u8 list \<times> 'a board_scheme"
  where
  "i2c_fetch dev others clk_base data_base 0 r = ([], r)"
| "i2c_fetch dev others clk_base data_base (Suc n) r =
     (let (d, r1) = i2c_read dev others clk_base data_base (n \<noteq> 0) r;
          (ds, r2) = i2c_fetch dev others clk_base data_base n r1
      in (d # ds, r2))"

definition I2C_MultipleRead ::
  "device \<Rightarrow> ('a board_scheme \<Rightarrow> 'a board_scheme) \<Rightarrow> u32 \<Rightarrow> u32 \<Rightarrow> u8 \<Rightarrow> u8 \<Rightarrow> u16 \<Rightarrow> 'a board_scheme \<Rightarrow>
   u8 list option \<times> 'a board_scheme"
  where
  "I2C_MultipleRead dev others clk_base data_base DeviceAddr ControlAddr len r =
     (let r1 = i2c_start others clk_base data_base r;
          (ok1, r2) = i2c_send dev others clk_base data_base [DeviceAddr, ControlAddr] r1;
          r3 = (if ok1 then i2c_start others clk_base data_base r2 else r2);
          (ok2, r4) = (if ok1 then i2c_write dev others clk_base data_base (DeviceAddr OR 1) r3
                       else (ok1, r3));
          (res, r5) = (if ok2 then let (ds, r5) = i2c_fetch dev others clk_base data_base (unat len) r4
                                   in (Some ds, r5)
                       else (None, r4))
      in (res, i2c_stop others clk_base data_base r5))"

text \<open>
  A read, a write of other data, a read, and the same with the old data.  \<open>nticks\<close> is \<^verbatim>\<open>alt_nticks()\<close>.
\<close>

definition i2c_check ::
  "device \<Rightarrow> ('a board_scheme \<Rightarrow> 'a board_scheme) \<Rightarrow> u32 \<Rightarrow> u32 \<Rightarrow> u8 \<Rightarrow> u8 \<Rightarrow> 'a board_scheme \<Rightarrow> bool \<times> 'a board_scheme"
  where
  "i2c_check dev others scl_base sda_base ControlAddr d r =
     (let (ok1, r1) = I2C_Write dev others scl_base sda_base 0xA0 ControlAddr d r
      in if ok1
         then case I2C_Read dev others scl_base sda_base 0xA0 ControlAddr r1 of
                (Some Data, r2) \<Rightarrow> (Data = d, r2)
              | (None, r2) \<Rightarrow> (False, r2)
         else (False, r1))"

definition i2c_data_verify ::
  "device \<Rightarrow> ('a board_scheme \<Rightarrow> 'a board_scheme) \<Rightarrow> ('a board_scheme \<Rightarrow> u32) \<Rightarrow> u32 \<Rightarrow> u32 \<Rightarrow> u8 \<Rightarrow> 'a board_scheme \<Rightarrow>
   bool \<times> 'a board_scheme"
  where
  "i2c_data_verify dev others nticks scl_base sda_base ControlAddr r =
     (let t = (ucast (nticks r) :: u8);
          TestData = (if t = 0 then 0x12 else t)
      in case I2C_Read dev others scl_base sda_base 0xA0 ControlAddr r of
           (None, r1) \<Rightarrow> (False, r1)
         | (Some OrgData, r1) \<Rightarrow>
             (let (ok, r2) = i2c_check dev others scl_base sda_base ControlAddr TestData r1
              in if ok then i2c_check dev others scl_base sda_base ControlAddr OrgData r2
                 else (False, r2)))"

definition I2C_Verify ::
  "device \<Rightarrow> ('a board_scheme \<Rightarrow> 'a board_scheme) \<Rightarrow> ('a board_scheme \<Rightarrow> u32) \<Rightarrow> u32 \<Rightarrow> u32 \<Rightarrow> u32 \<Rightarrow> 'a board_scheme \<Rightarrow>
   bool \<times> 'a board_scheme"
  where
  "I2C_Verify dev others nticks scl_base sda_base nbytes r =
     (if nbytes \<le> 256 then
        let (bPass, r1) = i2c_data_verify dev others nticks scl_base sda_base 0 r
        in if bPass
           then i2c_data_verify dev others nticks scl_base sda_base (ucast (nbytes - 1)) r1
           else (bPass, r1)
      else (False, r))"

section \<open>The observer\<close>

datatype i2c_item =
    BusStart
  | BusByte "bool list"     \<comment> \<open>eight bits and the acknowledge bit, as levels of the data wire\<close>
  | BusStop
  | BusGlitch               \<comment> \<open>the master changed the data wire while the clock was high\<close>

text \<open>
  The clock, the data register and the direction of the data port as last written, the bits since
  the last start condition or whole byte, and what was decoded so far.  The data wire is the data
  register while the port drives it and high, or what the slave answers to a read, while it does not.
\<close>

record i2c_view =
  v_scl :: bool
  v_sda :: bool
  v_out :: bool
  v_bits :: "bool list"
  v_log :: "i2c_item list"

definition wire :: "i2c_view \<Rightarrow> bool" where
  "wire m = (if v_out m then v_sda m else True)"

text \<open>A change of the data port; with the clock high it is a start or stop condition.\<close>

definition sda_change :: "i2c_view \<Rightarrow> i2c_view \<Rightarrow> i2c_view" where
  "sda_change m m' =
     (if \<not> v_scl m \<or> wire m = wire m' then m'
      else if \<not> v_out m \<or> \<not> v_out m' then m'\<lparr>v_log := v_log m @ [BusGlitch]\<rparr>
      else if wire m then m'\<lparr>v_bits := [], v_log := v_log m @ [BusStart]\<rparr>
      else m'\<lparr>v_bits := [], v_log := v_log m @ [BusStop]\<rparr>)"

definition scl_change :: "i2c_view \<Rightarrow> bool \<Rightarrow> i2c_view" where
  "scl_change m c =
     (if c = v_scl m then m
      else if c then m\<lparr>v_scl := True, v_bits := v_bits m @ [wire m]\<rparr>
      else if length (v_bits m) = 9
      then m\<lparr>v_scl := False, v_bits := [], v_log := v_log m @ [BusByte (v_bits m)]\<rparr>
      else m\<lparr>v_scl := False\<rparr>)"

fun i2c_step :: "u32 \<Rightarrow> u32 \<Rightarrow> io_event \<Rightarrow> i2c_view \<Rightarrow> i2c_view" where
  "i2c_step clk dat (IoWr base reg v) m =
     (if base = clk then if reg = 0 then scl_change m (bit v 0) else m
      else if reg = 0 then sda_change m (m\<lparr>v_sda := bit v 0\<rparr>)
      else sda_change m (m\<lparr>v_out := bit v 0\<rparr>))"
| "i2c_step clk dat (IoRd base reg v) m =
     (if base = dat \<and> reg = 0 \<and> v_scl m \<and> \<not> v_out m \<and> v_bits m \<noteq> []
      then m\<lparr>v_bits := butlast (v_bits m) @ [v \<noteq> 0]\<rparr> else m)"
| "i2c_step clk dat (IoSpin us) m = m"

fun i2c_mon :: "u32 \<Rightarrow> u32 \<Rightarrow> io_event list \<Rightarrow> i2c_view" where
  "i2c_mon clk dat [] = \<lparr>v_scl = False, v_sda = False, v_out = False, v_bits = [], v_log = []\<rparr>"
| "i2c_mon clk dat (e # tr) =
     (if touches {clk, dat} e then i2c_step clk dat e (i2c_mon clk dat tr) else i2c_mon clk dat tr)"

lemma observes_i2c: "observes {clk, dat} (i2c_mon clk dat)"
proof -
  have "i2c_mon clk dat (filter (touches {clk, dat}) tr) = i2c_mon clk dat tr" for tr
    by (induction tr) auto
  then show ?thesis by (simp add: observes_def)
qed

lemmas i2c_pins = SDA_DIR_IN_def SDA_DIR_OUT_def SDA_HIGH_def SDA_LOW_def SCL_HIGH_def SCL_LOW_def

lemma i2c_delay [simp]:
  assumes "leaves_alone {clk, dat} others"
  shows "i2c_mon clk dat (trace (SCL_DELAY others r)) = i2c_mon clk dat (trace r)"
    and "i2c_mon clk dat (trace (usleep others us r)) = i2c_mon clk dat (trace r)"
  using observes_usleep [OF observes_i2c assms] by (simp_all add: SCL_DELAY_def)

section \<open>What each operation puts on the wires\<close>

definition bits8 :: "u8 \<Rightarrow> bool list" where
  "bits8 d = map (bit d) (rev [0..<8])"

abbreviation acked :: "u8 \<Rightarrow> i2c_item" where "acked d \<equiv> BusByte (bits8 d @ [False])"
abbreviation nacked :: "u8 \<Rightarrow> i2c_item" where "nacked d \<equiv> BusByte (bits8 d @ [True])"

text \<open>The bus between bytes of a transfer; and when a transfer can start.\<close>

definition bus_busy :: "i2c_view \<Rightarrow> bool" where
  "bus_busy m \<longleftrightarrow> \<not> v_scl m \<and> v_bits m = []"

definition bus_ready :: "i2c_view \<Rightarrow> bool" where
  "bus_ready m \<longleftrightarrow> \<not> v_scl m \<or> v_out m \<and> v_sda m"

text \<open>\<open>logs clk dat r r' xs\<close>: the items \<open>xs\<close> were put on the bus, which is then between bytes.\<close>

definition logs :: "u32 \<Rightarrow> u32 \<Rightarrow> 'a board_scheme \<Rightarrow> 'a board_scheme \<Rightarrow> i2c_item list \<Rightarrow> bool" where
  "logs clk dat r r' xs \<longleftrightarrow>
     bus_busy (i2c_mon clk dat (trace r')) \<and>
     v_log (i2c_mon clk dat (trace r')) = v_log (i2c_mon clk dat (trace r)) @ xs"

lemma i2c_start_mon:
  assumes "clk \<noteq> dat" "leaves_alone {clk, dat} others" "bus_ready (i2c_mon clk dat (trace r))"
  shows "logs clk dat r (i2c_start others clk dat r) [BusStart]"
  using assms(1,3)
  by (cases "v_scl (i2c_mon clk dat (trace r))")
    (simp_all add: logs_def bus_ready_def bus_busy_def i2c_start_def Let_def i2c_delay [OF assms(2)]
      i2c_pins sda_change_def scl_change_def wire_def)

lemma i2c_stop_mon:
  assumes "clk \<noteq> dat" "leaves_alone {clk, dat} others" "bus_busy (i2c_mon clk dat (trace r))"
  shows "v_log (i2c_mon clk dat (trace (i2c_stop others clk dat r))) =
      v_log (i2c_mon clk dat (trace r)) @ [BusStop]"
    and "bus_ready (i2c_mon clk dat (trace (i2c_stop others clk dat r)))"
  using assms(1,3)
  by (simp_all add: bus_ready_def bus_busy_def i2c_stop_def Let_def i2c_delay [OF assms(2)]
      i2c_pins sda_change_def scl_change_def wire_def)

lemma and_mask_bit: "(d :: u8) AND push_bit k 1 \<noteq> 0 \<longleftrightarrow> bit d k"
  by (simp add: and_exp_eq_0_iff_not_bit)

lemma i2c_put_mon:
  assumes ne: "clk \<noteq> dat" and al: "leaves_alone {clk, dat} others"
    and m: "i2c_mon clk dat (trace r) = m" "\<not> v_scl m" "v_out m" "length (v_bits m) + n \<le> 8"
    and mk: "n > 0 \<Longrightarrow> mk = push_bit (n - 1) 1"
  shows "\<exists>b. i2c_mon clk dat (trace (i2c_put others clk dat d n mk r)) =
    m\<lparr>v_sda := b, v_bits := v_bits m @ map (bit d) (rev [0..<n])\<rparr>"
  using m mk
proof (induction n arbitrary: r m mk)
  case 0
  then show ?case by (intro exI [of _ "v_sda m"]) simp
next
  case (Suc n)
  then have le: "n < 8" and mk: "mk = push_bit n 1" by auto
  have nx: "drop_bit 1 mk = push_bit (n - 1) 1" if "n > 0"
    using le that unfolding mk by (auto intro!: bit_word_eqI simp: bit_simps)
  define r1 where "r1 = SCL_LOW clk r"
  define r2 where "r2 = (if d AND mk \<noteq> 0 then SDA_HIGH dat r1 else SDA_LOW dat r1)"
  define r6 where "r6 = SCL_DELAY others (SCL_LOW clk (SCL_DELAY others (SCL_HIGH clk r2)))"
  have 1: "i2c_mon clk dat (trace r1) = m"
    using Suc.prems(1,2) by (simp add: r1_def i2c_pins scl_change_def)
  have 2: "i2c_mon clk dat (trace r2) = m\<lparr>v_sda := bit d n\<rparr>"
    using 1 Suc.prems(2) ne unfolding r2_def mk and_mask_bit
    by (simp add: i2c_pins sda_change_def)
  have 6: "i2c_mon clk dat (trace r6) = m\<lparr>v_sda := bit d n, v_bits := v_bits m @ [bit d n]\<rparr>"
    using Suc.prems(2-4) 2 by (simp add: r6_def i2c_delay [OF al] i2c_pins scl_change_def wire_def)
  obtain b where "i2c_mon clk dat (trace (i2c_put others clk dat d n (drop_bit 1 mk) r6)) =
      m\<lparr>v_sda := b, v_bits := v_bits m @ bit d n # map (bit d) (rev [0..<n])\<rparr>"
    using Suc.IH [OF 6, of "drop_bit 1 mk"] Suc.prems(2-4) nx by auto
  moreover have "i2c_put others clk dat d (Suc n) mk r = i2c_put others clk dat d n (drop_bit 1 mk) r6"
    by (simp add: r6_def r2_def r1_def Let_def)
  ultimately show ?case by auto
qed

lemma i2c_write_mon:
  assumes ne: "clk \<noteq> dat" and al: "leaves_alone {clk, dat} others"
    and b: "bus_busy (i2c_mon clk dat (trace r))"
  shows "logs clk dat r (snd (i2c_write dev others clk dat d r))
    [BusByte (bits8 d @ [\<not> fst (i2c_write dev others clk dat d r)])]"
proof -
  define m where "m = i2c_mon clk dat (trace r)"
  define r2 where "r2 = i2c_put others clk dat d 8 0x80 (SDA_DIR_OUT dat r)"
  have "i2c_mon clk dat (trace (SDA_DIR_OUT dat r)) = m\<lparr>v_out := True\<rparr>"
    using ne b by (simp add: m_def i2c_pins sda_change_def bus_busy_def)
  from i2c_put_mon [OF ne al this, of 8 "0x80" d] b
  obtain x where 2: "i2c_mon clk dat (trace r2) = m\<lparr>v_out := True, v_sda := x, v_bits := bits8 d\<rparr>"
    by (auto simp: r2_def bits8_def bus_busy_def simp flip: m_def)
  define r5 where "r5 = SCL_DELAY others (SCL_HIGH clk (SDA_DIR_IN dat r2))"
  define v where "v = fst (SDA_READ dev dat r5)"
  define r7 where "r7 = SCL_DELAY others (SCL_LOW clk (snd (SDA_READ dev dat r5)))"
  have 5: "i2c_mon clk dat (trace r5) =
      m\<lparr>v_scl := True, v_out := False, v_sda := x, v_bits := bits8 d @ [True]\<rparr>"
    using b ne 2
    by (simp add: r5_def i2c_delay [OF al] i2c_pins sda_change_def scl_change_def wire_def bus_busy_def
        flip: m_def)
  have 7: "i2c_mon clk dat (trace r7) = m\<lparr>v_out := False, v_sda := x,
      v_log := v_log m @ [BusByte (bits8 d @ [v \<noteq> 0])]\<rparr>"
    using b ne 5
    by (simp add: r7_def v_def i2c_delay [OF al] i2c_pins SDA_READ_def scl_change_def bus_busy_def
        bits8_def flip: m_def)
  have "i2c_write dev others clk dat d r = (v = 0, r7)"
    by (simp add: i2c_write_def Let_def split_beta r7_def v_def r5_def r2_def)
  then show ?thesis
    using b 7 by (simp add: logs_def bus_busy_def flip: m_def)
qed

definition shift_in :: "u8 \<Rightarrow> bool \<Rightarrow> u8" where
  "shift_in d b = (if b then push_bit 1 d OR 1 else push_bit 1 d)"

lemma i2c_get_mon:
  assumes ne: "clk \<noteq> dat" and al: "leaves_alone {clk, dat} others"
    and m: "i2c_mon clk dat (trace r) = m" "\<not> v_scl m" "\<not> v_out m" "length (v_bits m) + n \<le> 8"
  shows "\<exists>bs. length bs = n \<and> fst (i2c_get dev others clk dat n d r) = foldl shift_in d bs \<and>
    i2c_mon clk dat (trace (snd (i2c_get dev others clk dat n d r))) = m\<lparr>v_bits := v_bits m @ bs\<rparr>"
  using m
proof (induction n arbitrary: r m d)
  case 0
  then show ?case by simp
next
  case (Suc n)
  define r2 where "r2 = SCL_DELAY others (SCL_HIGH clk r)"
  define v where "v = fst (SDA_READ dev dat r2)"
  define r6 where "r6 = SCL_DELAY others (SCL_LOW clk (snd (SDA_READ dev dat r2)))"
  have 2: "i2c_mon clk dat (trace r2) = m\<lparr>v_scl := True, v_bits := v_bits m @ [True]\<rparr>"
    using Suc.prems by (simp add: r2_def i2c_delay [OF al] i2c_pins scl_change_def wire_def)
  have 6: "i2c_mon clk dat (trace r6) = m\<lparr>v_bits := v_bits m @ [v \<noteq> 0]\<rparr>"
    using Suc.prems 2 ne
    by (simp add: r6_def i2c_delay [OF al] i2c_pins scl_change_def SDA_READ_def v_def)
  have eq: "i2c_get dev others clk dat (Suc n) d r =
      i2c_get dev others clk dat n (shift_in d (v \<noteq> 0)) r6"
    by (simp add: r6_def v_def r2_def Let_def split_beta shift_in_def)
  obtain bs where "length bs = n"
    "fst (i2c_get dev others clk dat n (shift_in d (v \<noteq> 0)) r6) = foldl shift_in (shift_in d (v \<noteq> 0)) bs"
    "i2c_mon clk dat (trace (snd (i2c_get dev others clk dat n (shift_in d (v \<noteq> 0)) r6))) =
      m\<lparr>v_bits := v_bits m @ (v \<noteq> 0) # bs\<rparr>"
    using Suc.IH [OF 6, of "shift_in d (v \<noteq> 0)"] Suc.prems(2-4) by auto
  then show ?case
    unfolding eq by (intro exI [of _ "(v \<noteq> 0) # bs"]) simp
qed

lemma bit_shift_in: "bit (shift_in d b) i \<longleftrightarrow> i < 8 \<and> (if i = 0 then b else bit d (i - 1))"
  by (cases i) (auto simp: shift_in_def bit_simps mult.commute [of d 2] dest: bit_imp_le_length)

lemma bits8_shift_in:
  assumes "length bs = 8"
  shows "bits8 (foldl shift_in d bs) = bs"
proof -
  obtain b7 b6 b5 b4 b3 b2 b1 b0 where "bs = [b7, b6, b5, b4, b3, b2, b1, b0]"
    using assms by (auto simp: numeral_eq_Suc length_Suc_conv)
  then show ?thesis
    by (simp add: bits8_def bit_shift_in upt_rec)
qed

lemma i2c_read_mon:
  assumes ne: "clk \<noteq> dat" and al: "leaves_alone {clk, dat} others"
    and b: "bus_busy (i2c_mon clk dat (trace r))"
  shows "logs clk dat r (snd (i2c_read dev others clk dat bAck r))
    [BusByte (bits8 (fst (i2c_read dev others clk dat bAck r)) @ [\<not> bAck])]"
proof -
  define m where "m = i2c_mon clk dat (trace r)"
  define r3 where "r3 = SCL_DELAY others (SCL_LOW clk (SDA_DIR_IN dat r))"
  define g where "g = i2c_get dev others clk dat 8 0 r3"
  have "i2c_mon clk dat (trace r3) = m\<lparr>v_out := False\<rparr>"
    using ne b by (simp add: r3_def m_def i2c_delay [OF al] i2c_pins sda_change_def scl_change_def bus_busy_def)
  from i2c_get_mon [OF ne al this, of 8 dev 0] b
  obtain bs where bs: "length bs = 8" "fst g = foldl shift_in 0 bs"
    "i2c_mon clk dat (trace (snd g)) = m\<lparr>v_out := False, v_bits := bs\<rparr>"
    by (auto simp: g_def bus_busy_def simp flip: m_def)
  have 8: "bits8 (fst g) = bs" using bs bits8_shift_in by simp
  define r7 where "r7 = (let r6 = SDA_DIR_OUT dat (SCL_LOW clk (snd g))
    in if bAck then SDA_LOW dat r6 else SDA_HIGH dat r6)"
  define r10 where "r10 = SCL_LOW clk (SCL_DELAY others (SCL_HIGH clk r7))"
  define r12 where "r12 = SCL_DELAY others (SDA_LOW dat (SCL_DELAY others r10))"
  have 7: "i2c_mon clk dat (trace r7) = m\<lparr>v_out := True, v_sda := \<not> bAck, v_bits := bs\<rparr>"
    using b ne bs(3)
    by (cases bAck) (simp_all add: r7_def i2c_pins sda_change_def scl_change_def bus_busy_def
        flip: m_def)
  have 10: "i2c_mon clk dat (trace r10) = m\<lparr>v_out := True, v_sda := \<not> bAck,
      v_log := v_log m @ [BusByte (bs @ [\<not> bAck])]\<rparr>"
    using b ne bs(1) 7
    by (simp add: r10_def i2c_delay [OF al] i2c_pins scl_change_def wire_def bus_busy_def flip: m_def)
  have 12: "i2c_mon clk dat (trace r12) = m\<lparr>v_out := True, v_sda := False,
      v_log := v_log m @ [BusByte (bs @ [\<not> bAck])]\<rparr>"
    using b ne 10
    by (simp add: r12_def i2c_delay [OF al] i2c_pins sda_change_def bus_busy_def flip: m_def)
  have "i2c_read dev others clk dat bAck r = (fst g, r12)"
    by (simp add: i2c_read_def Let_def split_beta r12_def r10_def r7_def g_def r3_def)
  then show ?thesis
    using b 12 8 by (simp add: logs_def bus_busy_def flip: m_def)
qed

section \<open>Transfers\<close>

lemma logs_trans: "logs clk dat r r1 xs \<Longrightarrow> logs clk dat r1 r2 ys \<Longrightarrow> logs clk dat r r2 (xs @ ys)"
  by (simp add: logs_def)

lemma logs_refl: "bus_busy (i2c_mon clk dat (trace r)) \<Longrightarrow> logs clk dat r r []"
  by (simp add: logs_def)

lemma logs_busy: "logs clk dat r r1 xs \<Longrightarrow> bus_busy (i2c_mon clk dat (trace r1))"
  by (simp add: logs_def)

text \<open>What a sequence of bytes shows: all are acknowledged, or those before the first that is not.\<close>

definition sent :: "bool \<Rightarrow> u8 list \<Rightarrow> i2c_item list \<Rightarrow> bool" where
  "sent ok bs xs \<longleftrightarrow>
     (if ok then xs = map acked bs
      else \<exists>n < length bs. xs = map acked (take n bs) @ [nacked (bs ! n)])"

lemma sent_Nil [simp]: "sent True [] xs \<longleftrightarrow> xs = []"
  by (simp add: sent_def)

lemma sent_Cons: "sent ok bs xs \<Longrightarrow> sent ok (b # bs) (acked b # xs)"
proof (cases ok)
  case False
  assume "sent ok bs xs"
  with False obtain n where "n < length bs" "xs = map acked (take n bs) @ [nacked (bs ! n)]"
    by (auto simp: sent_def)
  with False show ?thesis
    by (auto simp: sent_def intro: exI [of _ "Suc n"])
qed (simp add: sent_def)

lemma sent_nack: "sent False (b # bs) [nacked b]"
  by (auto simp: sent_def intro!: exI [of _ 0])

lemma i2c_send_mon:
  assumes ne: "clk \<noteq> dat" and al: "leaves_alone {clk, dat} others"
    and b: "bus_busy (i2c_mon clk dat (trace r))"
  shows "\<exists>xs. logs clk dat r (snd (i2c_send dev others clk dat bs r)) xs \<and>
    sent (fst (i2c_send dev others clk dat bs r)) bs xs"
  using b
proof (induction bs arbitrary: r)
  case Nil
  then show ?case by (simp add: logs_refl)
next
  case (Cons x bs)
  obtain ok r1 where w: "i2c_write dev others clk dat x r = (ok, r1)" by fastforce
  then have l: "logs clk dat r r1 [BusByte (bits8 x @ [\<not> ok])]"
    using i2c_write_mon [OF ne al Cons.prems, of dev x] by simp
  show ?case
  proof (cases ok)
    case False
    with w l show ?thesis
      by (intro exI [of _ "[nacked x]"]) (simp add: sent_nack)
  next
    case True
    obtain xs where "logs clk dat r1 (snd (i2c_send dev others clk dat bs r1)) xs"
      "sent (fst (i2c_send dev others clk dat bs r1)) bs xs"
      using Cons.IH [OF logs_busy [OF l]] by blast
    with w l True show ?thesis
      by (intro exI [of _ "acked x # xs"]) (auto simp: sent_Cons dest: logs_trans)
  qed
qed

lemma logs_stop:
  assumes "clk \<noteq> dat" "leaves_alone {clk, dat} others" "logs clk dat r r1 xs"
  shows "v_log (i2c_mon clk dat (trace (i2c_stop others clk dat r1))) =
      v_log (i2c_mon clk dat (trace r)) @ xs @ [BusStop]"
    and "bus_ready (i2c_mon clk dat (trace (i2c_stop others clk dat r1)))"
  using i2c_stop_mon [OF assms(1,2) logs_busy [OF assms(3)]] assms(3) by (simp_all add: logs_def)

lemma logs_start:
  assumes "clk \<noteq> dat" "leaves_alone {clk, dat} others" "logs clk dat r r1 xs"
  shows "logs clk dat r (i2c_start others clk dat r1) (xs @ [BusStart])"
proof -
  have "bus_ready (i2c_mon clk dat (trace r1))"
    using logs_busy [OF assms(3)] by (simp add: bus_ready_def bus_busy_def)
  from logs_trans [OF assms(3) i2c_start_mon [OF assms(1,2) this]] show ?thesis .
qed

text \<open>
  C37: on a bus that is free and that no other task uses, \<^verbatim>\<open>I2C_Write\<close> puts on the wires a start
  condition, the device address, the register and the value, each as eight bits, highest first, with
  the acknowledge bit the slave gave, and a stop condition, and leaves the bus free.  It returns
  \<^verbatim>\<open>TRUE\<close> exactly when all three bytes were acknowledged; after a byte that was not, it sends no more.
\<close>

theorem I2C_Write_correct:
  assumes "clk \<noteq> dat" "leaves_alone {clk, dat} others" "bus_ready (i2c_mon clk dat (trace r))"
  shows "bus_ready (i2c_mon clk dat (trace (snd (I2C_Write dev others clk dat a c d r)))) \<and>
    (\<exists>xs. sent (fst (I2C_Write dev others clk dat a c d r)) [a, c, d] xs \<and>
      v_log (i2c_mon clk dat (trace (snd (I2C_Write dev others clk dat a c d r)))) =
        v_log (i2c_mon clk dat (trace r)) @ BusStart # xs @ [BusStop])"
proof -
  define r1 where "r1 = i2c_start others clk dat r"
  have l: "logs clk dat r r1 [BusStart]"
    using i2c_start_mon [OF assms] by (simp add: r1_def)
  obtain xs where xs: "logs clk dat r1 (snd (i2c_send dev others clk dat [a, c, d] r1)) xs"
    "sent (fst (i2c_send dev others clk dat [a, c, d] r1)) [a, c, d] xs"
    using i2c_send_mon [OF assms(1,2) logs_busy [OF l]] by blast
  note s = logs_stop [OF assms(1,2) logs_trans [OF l xs(1)]]
  have eq: "I2C_Write dev others clk dat a c d r =
      (fst (i2c_send dev others clk dat [a, c, d] r1),
       usleep others 7000 (i2c_stop others clk dat (snd (i2c_send dev others clk dat [a, c, d] r1))))"
    unfolding I2C_Write_def by (simp only: Let_def split_beta r1_def)
  have "\<exists>xs. sent (fst (I2C_Write dev others clk dat a c d r)) [a, c, d] xs \<and>
    v_log (i2c_mon clk dat (trace (snd (I2C_Write dev others clk dat a c d r)))) =
      v_log (i2c_mon clk dat (trace r)) @ BusStart # xs @ [BusStop]"
    using xs(2) s(1) unfolding eq fst_conv snd_conv
    by (intro exI [of _ xs]) (simp add: i2c_delay [OF assms(2)] del: i2c_send.simps)
  moreover have "bus_ready (i2c_mon clk dat (trace (snd (I2C_Write dev others clk dat a c d r))))"
    using s(2) unfolding eq snd_conv by (simp add: i2c_delay [OF assms(2)] del: i2c_send.simps)
  ultimately show ?thesis by blast
qed

text \<open>The second half of a read, from the repeated start condition on.\<close>

definition read_items :: "u8 \<Rightarrow> u8 \<Rightarrow> u8 option \<Rightarrow> i2c_item list \<Rightarrow> bool" where
  "read_items a c res xs \<longleftrightarrow>
     (case res of
        Some d \<Rightarrow> xs = [acked a, acked c, BusStart, acked (a OR 1), nacked d]
      | None \<Rightarrow> xs \<in> {[nacked a, BusStart], [acked a, nacked c, BusStart],
                       [acked a, acked c, BusStart, nacked (a OR 1)]})"

lemma I2C_Read_tail:
  assumes ne: "clk \<noteq> dat" and al: "leaves_alone {clk, dat} others"
    and xs: "sent ok1 [a, c] xs" and l3: "logs clk dat r r3 (BusStart # xs @ [BusStart])"
    and I: "(res, r5) = (let (ok2, r4) = (if ok1 then i2c_write dev others clk dat (a OR 1) r3
                       else (ok1, r3))
          in if ok2 then let (d, r5) = i2c_read dev others clk dat False r4 in (Some d, r5)
             else (None, r4))"
  shows "\<exists>ys. logs clk dat r r5 (BusStart # ys) \<and> read_items a c res ys"
proof (cases ok1)
  case False
  with I have "res = None" "r5 = r3" by auto
  moreover have "xs = [nacked a] \<or> xs = [acked a, nacked c]"
    using xs False by (auto simp: sent_def less_Suc_eq numeral_2_eq_2)
  ultimately show ?thesis using l3 by (auto simp: read_items_def)
next
  case True
  with xs have x: "xs = [acked a, acked c]" by (simp add: sent_def)
  obtain ok2 r4 where p4: "i2c_write dev others clk dat (a OR 1) r3 = (ok2, r4)" by fastforce
  then have l4: "logs clk dat r r4 (BusStart # xs @ [BusStart, BusByte (bits8 (a OR 1) @ [\<not> ok2])])"
    using logs_trans [OF l3 i2c_write_mon [OF ne al logs_busy [OF l3], of dev "a OR 1"]]
    by simp
  show ?thesis
  proof (cases ok2)
    case False
    with True I p4 have "res = None" "r5 = r4" by auto
    with l4 x False show ?thesis by (auto simp: read_items_def)
  next
    case ok2: True
    obtain d r6 where p5: "i2c_read dev others clk dat False r4 = (d, r6)" by fastforce
    with ok2 True I p4 have "res = Some d" "r5 = r6" by auto
    moreover have "logs clk dat r r6
        (BusStart # xs @ [BusStart, BusByte (bits8 (a OR 1) @ [\<not> ok2]), nacked d])"
      using logs_trans [OF l4 i2c_read_mon [OF ne al logs_busy [OF l4], of dev False]] p5 by simp
    ultimately show ?thesis using x ok2 by (auto simp: read_items_def)
  qed
qed

text \<open>
  C38: \<^verbatim>\<open>I2C_Read\<close> on such a bus puts on the wires the device address and the register, a second start
  condition, the device address with the read bit, the byte that it returns, which it does not
  acknowledge, and a stop condition.  When it fails, some byte was not acknowledged; the bus is free
  again in both cases, and the data wire never changed while the clock was high but for the start and
  stop conditions.
\<close>

theorem I2C_Read_correct:
  assumes "clk \<noteq> dat" "leaves_alone {clk, dat} others" "bus_ready (i2c_mon clk dat (trace r))"
  shows "bus_ready (i2c_mon clk dat (trace (snd (I2C_Read dev others clk dat a c r)))) \<and>
    (\<exists>xs. v_log (i2c_mon clk dat (trace (snd (I2C_Read dev others clk dat a c r)))) =
        v_log (i2c_mon clk dat (trace r)) @ BusStart # xs @ [BusStop] \<and>
      read_items a c (fst (I2C_Read dev others clk dat a c r)) xs)"
proof -
  define r1 where "r1 = i2c_start others clk dat r"
  have l: "logs clk dat r r1 [BusStart]"
    using i2c_start_mon [OF assms] by (simp add: r1_def)
  obtain ok1 r2 where p2: "i2c_send dev others clk dat [a, c] r1 = (ok1, r2)" by fastforce
  obtain xs where xs: "logs clk dat r1 r2 xs" "sent ok1 [a, c] xs"
    using i2c_send_mon [OF assms(1,2) logs_busy [OF l], of dev "[a, c]"] p2
    by (metis fst_conv snd_conv)
  define r3 where "r3 = i2c_start others clk dat r2"
  have l3: "logs clk dat r r3 (BusStart # xs @ [BusStart])"
    using logs_start [OF assms(1,2) logs_trans [OF l xs(1)]] by (simp add: r3_def)
  obtain res r5 where I: "I2C_Read dev others clk dat a c r = (res, i2c_stop others clk dat r5)"
    "(res, r5) = (let (ok2, r4) = (if ok1 then i2c_write dev others clk dat (a OR 1) r3
                       else (ok1, r3))
          in if ok2 then let (d, r5) = i2c_read dev others clk dat False r4 in (Some d, r5)
             else (None, r4))"
    unfolding I2C_Read_def
    by (simp only: p2 Let_def split_beta fst_conv snd_conv flip: r1_def r3_def) simp
  obtain ys where ys: "logs clk dat r r5 (BusStart # ys)" "read_items a c res ys"
    using I2C_Read_tail [OF assms(1,2) xs(2) l3 I(2)] by blast
  note s = logs_stop [OF assms(1,2) ys(1)]
  have "\<exists>xs. v_log (i2c_mon clk dat (trace (snd (I2C_Read dev others clk dat a c r)))) =
        v_log (i2c_mon clk dat (trace r)) @ BusStart # xs @ [BusStop] \<and>
      read_items a c (fst (I2C_Read dev others clk dat a c r)) xs"
    using s(1) ys(2) by (intro exI [of _ ys]) (simp add: I)
  moreover have "bus_ready (i2c_mon clk dat (trace (snd (I2C_Read dev others clk dat a c r))))"
    using s(2) by (simp add: I)
  ultimately show ?thesis by blast
qed

definition i2c_demo :: board where
  "i2c_demo = \<lparr>trace = [], os = demo\<rparr>"

lemma I2C_Write_correct_witness:
  "\<exists>xs. sent (fst (I2C_Write (\<lambda>_ _ _. 0) (\<lambda>r. r) 0x1000000 0x1000010 0x3C 2 0 i2c_demo)) [0x3C, 2, 0] xs \<and>
    v_log (i2c_mon 0x1000000 0x1000010 (trace (snd
      (I2C_Write (\<lambda>_ _ _. 0) (\<lambda>r. r) 0x1000000 0x1000010 0x3C 2 0 i2c_demo)))) =
      v_log (i2c_mon 0x1000000 0x1000010 []) @ BusStart # xs @ [BusStop]"
  using I2C_Write_correct [of "0x1000000" "0x1000010" "\<lambda>r. r" i2c_demo "\<lambda>_ _ _. 0" "0x3C" 2 0]
  by (simp add: leaves_alone_id bus_ready_def i2c_demo_def)

lemma I2C_Read_correct_witness:
  "\<exists>xs. v_log (i2c_mon 0x1000000 0x1000010 (trace (snd
      (I2C_Read (\<lambda>_ _ _. 0) (\<lambda>r. r) 0x1000000 0x1000010 0x3C 3 i2c_demo)))) =
        v_log (i2c_mon 0x1000000 0x1000010 []) @ BusStart # xs @ [BusStop] \<and>
      read_items 0x3C 3 (fst (I2C_Read (\<lambda>_ _ _. 0) (\<lambda>r. r) 0x1000000 0x1000010 0x3C 3 i2c_demo)) xs"
  using I2C_Read_correct [of "0x1000000" "0x1000010" "\<lambda>r. r" i2c_demo "\<lambda>_ _ _. 0" "0x3C" 3]
  by (simp add: leaves_alone_id bus_ready_def i2c_demo_def)

end
