(* ===== verification/Rover_Nav.thy ===== *)
theory Rover_Nav
  imports Rover_Motors Rover_Spi Rover_I2c Os_Q Os_Task
begin

text \<open>
  nav.c: the tasks of the rover and their shared variables.  A task function is one round of the task's
  loop.  \<open>others\<close> is what the other tasks and the ticks do whenever this task gives up the processor:
  at a delay and after a kernel call that may switch tasks.  The history array has 400 entries that the
  code does not check; \<open>None\<close> is an access past its end (or before its start), or a drive that never ends.
\<close>

section \<open>Shared variables\<close>

record angle_obj =
  quadrant :: string
  ag_angle :: rat
  ag_distance :: rat

record rover = board +
  MainQueue :: ptr
  SYSTEM_STATUS :: int
  MOTOR_0_STATUS :: int
  MOTOR_1_STATUS :: int
  FRONT_CLEAR :: bool
  LEFT_CLEAR :: bool
  RIGHT_CLEAR :: bool
  FRONT_SERVO :: "nat \<Rightarrow> angle_obj"
  TRVL :: "nat \<Rightarrow> move_obj"
  TRVL_INDEX :: nat
  ENCODER_INIT :: rat
  LEFT_VOLT :: rat
  RIGHT_VOLT :: rat
  ENCODER_0A :: rat
  ENCODER_1A :: rat

type_synonym tasks = "rover \<Rightarrow> rover"

abbreviation (input) FRONT_IS_BLOCKED :: u32 where "FRONT_IS_BLOCKED \<equiv> 0"
abbreviation (input) FRONT_IS_CLEAR :: u32 where "FRONT_IS_CLEAR \<equiv> 1"
abbreviation (input) UNKNOWN :: u32 where "UNKNOWN \<equiv> 90"
abbreviation (input) MOTOR_STOP :: int where "MOTOR_STOP \<equiv> 0"
abbreviation (input) MOTOR_FULL :: int where "MOTOR_FULL \<equiv> 1"
abbreviation (input) SYS_BUSY :: int where "SYS_BUSY \<equiv> 1"
abbreviation (input) SYS_FREE :: int where "SYS_FREE \<equiv> 0"
abbreviation (input) SERVO_BASE :: u32 where "SERVO_BASE \<equiv> 0"
abbreviation (input) SERVO_MAX :: rat where "SERVO_MAX \<equiv> 1000000"
abbreviation (input) CH_FRONT :: u8 where "CH_FRONT \<equiv> 1"
abbreviation (input) CH_LEFT :: nat where "CH_LEFT \<equiv> 4"
abbreviation (input) CH_RIGHT :: nat where "CH_RIGHT \<equiv> 6"
abbreviation (input) TASK_ENCODER_PRIORITY :: u8 where "TASK_ENCODER_PRIORITY \<equiv> 1"
abbreviation (input) TASK_NAVI_PRIORITY :: u8 where "TASK_NAVI_PRIORITY \<equiv> 2"
abbreviation (input) TASK_SERVO_PRIORITY :: u8 where "TASK_SERVO_PRIORITY \<equiv> 3"
abbreviation (input) TASK_HISTORY_PRIORITY :: u8 where "TASK_HISTORY_PRIORITY \<equiv> 4"
abbreviation (input) TASK_LSM303_PRIORITY :: u8 where "TASK_LSM303_PRIORITY \<equiv> 5"
abbreviation (input) COMPASS_I2C_SCL_BASE :: u32 where "COMPASS_I2C_SCL_BASE \<equiv> 0x1000000"
abbreviation (input) COMPASS_I2C_SDA_BASE :: u32 where "COMPASS_I2C_SDA_BASE \<equiv> 0x1000010"

section \<open>Kernel calls of the tasks\<close>

definition post_main :: "tasks \<Rightarrow> u32 \<Rightarrow> rover \<Rightarrow> rover" where
  "post_main others status r =
     others (r\<lparr>os := snd (OSQPost (MainQueue r) (PWord status) (os r))\<rparr>)"

definition suspend_task :: "tasks \<Rightarrow> u8 \<Rightarrow> rover \<Rightarrow> os_err \<times> rover" where
  "suspend_task others prio r =
     (let (err, s) = OSTaskSuspend prio (os r) in (err, others (r\<lparr>os := s\<rparr>)))"

definition resume_task :: "tasks \<Rightarrow> u8 \<Rightarrow> rover \<Rightarrow> os_err \<times> rover" where
  "resume_task others prio r =
     (let (err, s) = OSTaskResume prio (os r) in (err, others (r\<lparr>os := s\<rparr>)))"

text \<open>The wait for the next message; the null pointer is the message \<open>FRONT_IS_BLOCKED\<close>.\<close>

definition next_message :: "tasks \<Rightarrow> rover \<Rightarrow> ptr \<times> rover" where
  "next_message others r =
     (case OSQPend (MainQueue r) 0 True (os r) of
        (Done (m, err), s) \<Rightarrow> (m, r\<lparr>os := s\<rparr>)
      | (Wait, s) \<Rightarrow>
          let r1 = others (r\<lparr>os := s\<rparr>);
              (m, err, s2) = OSQPend_resume (MainQueue r1) (os r1)
          in (m, r1\<lparr>os := s2\<rparr>))"

section \<open>The history array\<close>

definition trvl_get :: "nat \<Rightarrow> rover \<Rightarrow> move_obj option" where
  "trvl_get i r = (if i < 400 then Some (TRVL r i) else None)"

definition trvl_upd :: "nat \<Rightarrow> (move_obj \<Rightarrow> move_obj) \<Rightarrow> rover \<Rightarrow> rover option" where
  "trvl_upd i f r = (if i < 400 then Some (r\<lparr>TRVL := (TRVL r)(i := f (TRVL r i))\<rparr>) else None)"

definition trvl_prev :: "rover \<Rightarrow> move_obj option" where
  "trvl_prev r = (if TRVL_INDEX r = 0 then None else trvl_get (TRVL_INDEX r - 1) r)"

text \<open>A turn is appended to the history.\<close>

definition record_turn :: "char \<Rightarrow> rat \<Rightarrow> rover \<Rightarrow> rover option" where
  "record_turn c ang r =
     do {
       r1 \<leftarrow> trvl_upd (TRVL_INDEX r) (\<lambda>mv. mv\<lparr>mv_move := c\<rparr>) r;
       p \<leftarrow> trvl_prev r1;
       r2 \<leftarrow> trvl_upd (TRVL_INDEX r1)
               (\<lambda>mv. mv\<lparr>mv_dir := newDir (mv_dir p) c, mv_angle := ang\<rparr>) r1;
       Some (r2\<lparr>TRVL_INDEX := TRVL_INDEX r2 + 1\<rparr>)
     }"

text \<open>A drive straight on gets its direction and length.\<close>

definition record_forward :: "rover \<Rightarrow> rover option" where
  "record_forward r =
     do {
       p \<leftarrow> trvl_prev r;
       trvl_upd (TRVL_INDEX r)
         (\<lambda>mv. mv\<lparr>mv_dir := newDir (mv_dir p) (CHR ''F''), mv_count := ENCODER_0A r - ENCODER_INIT r,
                 mv_angle := 0\<rparr>) r
     }"

section \<open>Sensors\<close>

definition isSensorClear :: "rat \<Rightarrow> bool" where
  "isSensorClear volt = (if volt > 19/10 then False else True)"

definition adc_volt :: "u16 \<Rightarrow> rat" where
  "adc_volt v = of_nat (unat v) * (33/10) / 4095"

fun read_channels :: "device \<Rightarrow> tasks \<Rightarrow> nat list \<Rightarrow> rover \<Rightarrow> rover" where
  "read_channels dev others [] r = r"
| "read_channels dev others (ch # chs) r =
     (let (data16, r1) = ADC_Read dev others (of_nat ch) r;
          volt = adc_volt data16;
          r2 = (if ch = CH_LEFT then r1\<lparr>LEFT_VOLT := volt\<rparr>
                else if ch = CH_RIGHT then r1\<lparr>RIGHT_VOLT := volt\<rparr> else r1)
      in read_channels dev others chs r2)"

definition checkLeftRight :: "device \<Rightarrow> tasks \<Rightarrow> rover \<Rightarrow> rover" where
  "checkLeftRight dev others r =
     (let r1 = read_channels dev others [0..<8] r;
          r2 = r1\<lparr>LEFT_CLEAR := isSensorClear (LEFT_VOLT r1)\<rparr>
      in r2\<lparr>RIGHT_CLEAR := isSensorClear (RIGHT_VOLT r2)\<rparr>)"

definition set_distance :: "nat \<Rightarrow> rat \<Rightarrow> rover \<Rightarrow> rover" where
  "set_distance i d r =
     r\<lparr>FRONT_SERVO := (FRONT_SERVO r)(i := (FRONT_SERVO r i)\<lparr>ag_distance := d\<rparr>)\<rparr>"

text \<open>Turn the servo, wait a quarter of a second and measure.\<close>

definition servo_look :: "device \<Rightarrow> tasks \<Rightarrow> rat \<Rightarrow> nat \<Rightarrow> rover \<Rightarrow> rover" where
  "servo_look dev others pos i r =
     (let r1 = IOWR SERVO_BASE 0 (reg_of_double (pos * SERVO_MAX)) r;
          r2 = dly_hmsm others 0 0 0 250 r1;
          (v, r3) = ADC_Read dev others CH_FRONT r2
      in set_distance i (adc_volt v) r3)"

definition servoRotate :: "device \<Rightarrow> tasks \<Rightarrow> rover \<Rightarrow> rover" where
  "servoRotate dev others r =
     (let r1 = servo_look dev others (117/1000) 0 r;
          r2 = servo_look dev others (1/10) 1 r1
      in if \<not> isSensorClear (ag_distance (FRONT_SERVO r2 1)) then set_distance 2 (21/10) r2
         else
           let r3 = servo_look dev others (9/100) 2 r2
           in if \<not> isSensorClear (ag_distance (FRONT_SERVO r3 2)) then r3
              else dly_hmsm others 0 0 0 200 (servo_look dev others (1/10) 1 r3))"

definition front_free :: "rover \<Rightarrow> bool" where
  "front_free r \<longleftrightarrow> isSensorClear (ag_distance (FRONT_SERVO r 0)) \<and>
     isSensorClear (ag_distance (FRONT_SERVO r 1)) \<and> isSensorClear (ag_distance (FRONT_SERVO r 2))"

definition motors_status :: "rover \<Rightarrow> int" where
  "motors_status r = MOTOR_0_STATUS r AND MOTOR_1_STATUS r"

definition navigateFront :: "tasks \<Rightarrow> rover \<Rightarrow> rover" where
  "navigateFront others r =
     (if motors_status r = MOTOR_STOP then
        if front_free r then
          let r1 = r\<lparr>FRONT_CLEAR := True\<rparr>
          in if SYSTEM_STATUS r1 = SYS_FREE
             then post_main others FRONT_IS_CLEAR (r1\<lparr>SYSTEM_STATUS := SYS_BUSY\<rparr>)
             else r1
        else r
      else if motors_status r = MOTOR_FULL then
        if \<not> front_free r then
          let r1 = r\<lparr>FRONT_CLEAR := False\<rparr>
          in if SYSTEM_STATUS r1 = SYS_FREE
             then let r2 = M_allStop others r1
                  in post_main others FRONT_IS_BLOCKED (r2\<lparr>SYSTEM_STATUS := SYS_BUSY\<rparr>)
             else r1
        else r
      else r)"

section \<open>The tasks\<close>

definition resume_servo :: "tasks \<Rightarrow> rover \<Rightarrow> rover" where
  "resume_servo others r =
     snd (resume_task others TASK_SERVO_PRIORITY (r\<lparr>SYSTEM_STATUS := SYS_FREE\<rparr>))"

definition suspend_servo :: "tasks \<Rightarrow> rover \<Rightarrow> rover" where
  "suspend_servo others r =
     (let (err, r1) = suspend_task others TASK_SERVO_PRIORITY r
      in if err = OS_ERR_NONE
         then IOWR SERVO_BASE 0 (reg_of_double (1/10 * SERVO_MAX)) (dly_hmsm others 0 0 0 100 r1)
         else r1)"

text \<open>What to do in front of an obstacle.\<close>

definition choose_turn :: "device \<Rightarrow> tasks \<Rightarrow> rover \<Rightarrow> rover option" where
  "choose_turn dev others r =
     (if \<not> FRONT_CLEAR r then
        if RIGHT_CLEAR r \<or> LEFT_CLEAR r then
          if RIGHT_VOLT r > LEFT_VOLT r then
            if LEFT_CLEAR r then do { r1 \<leftarrow> turnLeft dev others r; record_turn (CHR ''L'') 90 r1 }
            else Some r
          else do { r1 \<leftarrow> turnRight dev others r; record_turn (CHR ''R'') 90 r1 }
        else
          do {
            r1 \<leftarrow> motorReverse dev others r;
            r2 \<leftarrow> turn180 dev others (dly_hmsm others 0 0 2 0 r1);
            record_turn (CHR ''B'') 180 r2
          }
      else Some r)"

definition on_blocked :: "device \<Rightarrow> tasks \<Rightarrow> rover \<Rightarrow> rover option" where
  "on_blocked dev others r =
     do {
       let r1 = M_allStop others r;
       mv \<leftarrow> trvl_get (TRVL_INDEX r1) r1;
       r2 \<leftarrow> (if mv_move mv = CHR ''F''
              then do { r2 \<leftarrow> record_forward r1; Some (r2\<lparr>TRVL_INDEX := TRVL_INDEX r2 + 1\<rparr>) }
              else Some r1);
       let r3 = (if SYSTEM_STATUS r2 = SYS_BUSY then suspend_servo others r2 else r2);
       let r4 = checkLeftRight dev others (dly_hmsm others 0 0 0 1500 r3);
       r5 \<leftarrow> choose_turn dev others r4;
       let r6 = navigateFront others (servoRotate dev others r5);
       Some (if FRONT_CLEAR r6 then resume_servo others r6
             else post_main others FRONT_IS_BLOCKED r6)
     }"

definition on_clear :: "device \<Rightarrow> tasks \<Rightarrow> rover \<Rightarrow> rover option" where
  "on_clear dev others r =
     do {
       r1 \<leftarrow> trvl_upd (TRVL_INDEX r) (\<lambda>mv. mv\<lparr>mv_move := CHR ''F''\<rparr>) r;
       let r2 = stoptopartial dev others (r1\<lparr>ENCODER_INIT := ENCODER_0A r1\<rparr>);
       let r3 = dly_hmsm others 0 0 0 500 r2;
       Some (if motors_status r3 = MOTOR_FULL then resume_servo others r3
             else post_main others FRONT_IS_CLEAR
                    (navigateFront others (servoRotate dev others (M_allStop others r3))))
     }"

definition Navigation_Task :: "device \<Rightarrow> tasks \<Rightarrow> rover \<Rightarrow> rover option" where
  "Navigation_Task dev others r =
     (let (status, r1) = next_message others r
      in if status = PWord FRONT_IS_BLOCKED then on_blocked dev others r1
         else if status = PWord FRONT_IS_CLEAR then on_clear dev others r1
         else if status = PWord UNKNOWN
         then Some (checkLeftRight dev others (navigateFront others (servoRotate dev others r1)))
         else Some r1)"

definition Servo_Task_init :: "tasks \<Rightarrow> rover \<Rightarrow> rover" where
  "Servo_Task_init others r =
     (let r1 = r\<lparr>FRONT_SERVO := (FRONT_SERVO r)
                 (0 := (FRONT_SERVO r 0)\<lparr>quadrant := ''left'', ag_angle := -15\<rparr>,
                  1 := (FRONT_SERVO r 1)\<lparr>quadrant := ''center'', ag_angle := 0\<rparr>,
                  2 := (FRONT_SERVO r 2)\<lparr>quadrant := ''right'', ag_angle := 15\<rparr>)\<rparr>;
          r2 = IOWR SERVO_BASE 0 (reg_of_double (1/10 * SERVO_MAX)) r1
      in dly_hmsm others 0 0 1 0 r2)"

definition Servo_Task :: "device \<Rightarrow> tasks \<Rightarrow> rover \<Rightarrow> rover" where
  "Servo_Task dev others r = navigateFront others (servoRotate dev others r)"

text \<open>One encoder: the total and the status that follow from the last and the new count.\<close>

definition wheel_total :: "rat \<Rightarrow> rat \<Rightarrow> rat \<Rightarrow> rat" where
  "wheel_total tot new old = (if new \<ge> old then tot + (new - old) else tot + new)"

definition wheel_status :: "rat \<Rightarrow> rat \<Rightarrow> rat \<Rightarrow> int" where
  "wheel_status new old least = (if new - old < least then MOTOR_STOP else MOTOR_FULL)"

definition Encoder_Task :: "device \<Rightarrow> tasks \<Rightarrow> rat \<times> rat \<Rightarrow> rover \<Rightarrow> (rat \<times> rat) \<times> rover" where
  "Encoder_Task dev others old r =
     (let (v0, r1) = IORD dev ENCODER_0A_BASE 0 r;
          new_0 = int_of_reg v0;
          r2 = r1\<lparr>ENCODER_0A := wheel_total (ENCODER_0A r1) new_0 (fst old)\<rparr>;
          r3 = r2\<lparr>MOTOR_0_STATUS := wheel_status new_0 (fst old) 1\<rparr>;
          (v1, r4) = IORD dev ENCODER_1A_BASE 0 r3;
          new_1 = int_of_reg v1;
          r5 = r4\<lparr>ENCODER_1A := wheel_total (ENCODER_1A r4) new_1 (snd old)\<rparr>;
          r6 = r5\<lparr>MOTOR_1_STATUS := wheel_status new_1 (snd old) 2\<rparr>
      in ((new_0, new_1), dly_hmsm others 0 0 0 100 r6))"

text \<open>The look at the history stops at the first entry that reaches the end of the course.\<close>

definition history_reached :: "rover \<Rightarrow> bool option" where
  "history_reached r =
     (if TRVL_INDEX r < 400 then Some (evalHistory (TRVL r) (TRVL_INDEX r) (CHR ''N'') COURSE_LENGTH)
      else if evalHistory (TRVL r) 399 (CHR ''N'') COURSE_LENGTH then Some True else None)"

definition History_Task :: "device \<Rightarrow> tasks \<Rightarrow> rover \<Rightarrow> rover option" where
  "History_Task dev others r =
     do {
       reached \<leftarrow> history_reached r;
       r1 \<leftarrow> (if reached then
                do {
                  mv \<leftarrow> trvl_get (TRVL_INDEX r) r;
                  r1 \<leftarrow> (if mv_move mv = CHR ''F'' then record_forward r else Some r);
                  r2 \<leftarrow> executeHistory dev others TRVL (TRVL_INDEX r1) (r1\<lparr>SYSTEM_STATUS := SYS_BUSY\<rparr>);
                  let (e3, r3) = suspend_task others TASK_NAVI_PRIORITY r2;
                  let (e4, r4) = suspend_task others TASK_SERVO_PRIORITY r3;
                  Some (M_allStop others r4)
                }
              else Some r);
       Some (dly_hmsm others 0 0 10 0 r1)
     }"

definition LSM303_Task :: "device \<Rightarrow> tasks \<Rightarrow> rover \<Rightarrow> rover" where
  "LSM303_Task dev others r =
     (let r1 = usleep others 2000000 r;
          (ok, r2) = I2C_Write dev others COMPASS_I2C_SCL_BASE COMPASS_I2C_SDA_BASE 0x3C 0x02 0x00 r1
      in snd (I2C_Read dev others COMPASS_I2C_SCL_BASE COMPASS_I2C_SDA_BASE 0x3C 0x03 r2))"

definition EncoderCalibrate :: "device \<Rightarrow> tasks \<Rightarrow> rover \<Rightarrow> (rat \<times> rat) \<times> rover" where
  "EncoderCalibrate dev others r =
     (let r1 = pwm PWM_2_BASE (3/4) (pwm PWM_0_BASE (3/4) r);
          (c0, r2) = IORD dev ENCODER_0A_BASE 0 r1;
          (c1, r3) = IORD dev ENCODER_1A_BASE 0 r2;
          r4 = IOWR PWM_2_BASE 0 0 (IOWR PWM_0_BASE 0 0 (dly_hmsm others 0 0 2 0 r3));
          (d0, r5) = IORD dev ENCODER_0A_BASE 0 r4;
          (d1, r6) = IORD dev ENCODER_1A_BASE 0 r5
      in ((int_of_reg d0 - int_of_reg c0, int_of_reg d1 - int_of_reg c1), r6))"

text \<open>One round of the loop, which prints the voltage; \<open>ch\<close> is the channel.\<close>

definition SensorsCalibrate :: "device \<Rightarrow> tasks \<Rightarrow> nat \<Rightarrow> rover \<Rightarrow> rat \<times> nat \<times> rover" where
  "SensorsCalibrate dev others ch r =
     (let ch1 = (if ch > 7 then 0 else ch);
          (data16, r1) = ADC_Read dev others (of_nat ch1) r
      in (adc_volt data16, ch1 + 1, dly_hmsm others 0 0 0 500 r1))"

section \<open>Sensors\<close>

lemma clear_iff: "isSensorClear (adc_volt v) \<longleftrightarrow> unat v \<le> 2357"
proof -
  have "isSensorClear (adc_volt v) \<longleftrightarrow> (of_nat (unat v) :: rat) * 330 \<le> of_nat 778050"
    by (simp add: isSensorClear_def adc_volt_def field_simps)
  also have "\<dots> \<longleftrightarrow> (of_nat (unat v * 330) :: rat) \<le> of_nat 778050" by simp
  also have "\<dots> \<longleftrightarrow> unat v * 330 \<le> 778050" by (rule of_nat_le_iff)
  also have "\<dots> \<longleftrightarrow> unat v \<le> 2357" by arith
  finally show ?thesis .
qed

text \<open>
  a look ahead counts as clear exactly when the converter delivered a code of at most 2357, which is
  1.9 V of 3.3 V full scale (nav.c, \<^verbatim>\<open>isSensorClear\<close>); a converter that does not answer within its 1001
  polls counts as clear too, since \<^verbatim>\<open>ADC_Read\<close> then returns 0.
\<close>

theorem sensor_threshold:
  fixes r :: "'a board_scheme"
  assumes "\<And>tr. dev tr 0x90 0 = v"
  shows "isSensorClear (adc_volt (fst (ADC_Read dev others ch r))) \<longleftrightarrow> \<not> bit v 15 \<or> unat v mod 4096 \<le> 2357"
proof -
  have p: "fst (poll dev 0x90 0 adc_done n r0) = v" for n and r0 :: "'a board_scheme"
    by (induction n arbitrary: r0) (simp_all add: fst_IORD Let_def split_beta assms)
  then have "fst (ADC_Read dev others ch r) = (if bit v 15 then ucast v AND 0xFFF else 0)"
    unfolding ADC_Read_def Let_def by (simp add: split_beta adc_done_bit)
  moreover have "unat ((ucast v :: u16) AND 0xFFF) = unat v mod 4096"
  proof -
    have "(ucast v :: u16) AND 0xFFF = take_bit 12 (ucast v)"
      by (simp add: take_bit_eq_mask mask_eq_exp_minus_1)
    then have "unat ((ucast v :: u16) AND 0xFFF) = unat v mod 65536 mod 4096"
      by (simp only: unsigned_take_bit_eq unsigned_ucast_eq) (simp add: take_bit_eq_mod)
    also have "\<dots> = unat v mod 4096"
      by (rule mod_mod_cancel) simp
    finally show ?thesis .
  qed
  ultimately show ?thesis by (simp add: clear_iff)
qed

lemma sensor_threshold_witness:
  "isSensorClear (adc_volt (fst (ADC_Read (\<lambda>_ _ _. 0x0F00) (\<lambda>r. r) 1 \<lparr>trace = [], os = demo\<rparr>)))"
  by (subst sensor_threshold [of _ "0x0F00"]) simp_all

section \<open>The choice of a turn\<close>

lemma checkLeftRight_clear:
  "LEFT_CLEAR (checkLeftRight dev others r) = isSensorClear (LEFT_VOLT (checkLeftRight dev others r))"
  "RIGHT_CLEAR (checkLeftRight dev others r) = isSensorClear (RIGHT_VOLT (checkLeftRight dev others r))"
  by (simp_all add: checkLeftRight_def Let_def)

text \<open>
  in front of an obstacle, after a look to both sides, the rover (\<^verbatim>\<open>Navigation_Task\<close> of nav.c) turns
  left when the left side is clear and farther away than the right one, else right when the right side
  is clear, and backs up and turns round exactly when both sides are blocked; so it never turns to a
  side that is blocked and never does nothing, and it notes what it did with the heading that follows.
\<close>

theorem choose_turn_safe:
  fixes dev :: device and others :: tasks and r :: rover
  defines "q \<equiv> checkLeftRight dev others r"
  shows "choose_turn dev others q =
    (if FRONT_CLEAR q then Some q
     else if LEFT_VOLT q < RIGHT_VOLT q \<and> LEFT_VOLT q \<le> 19/10
     then Option.bind (turnLeft dev others q) (record_turn (CHR ''L'') 90)
     else if RIGHT_VOLT q \<le> 19/10
     then Option.bind (turnRight dev others q) (record_turn (CHR ''R'') 90)
     else Option.bind (motorReverse dev others q) (\<lambda>r1.
            Option.bind (turn180 dev others (dly_hmsm others 0 0 2 0 r1)) (record_turn (CHR ''B'') 180)))"
  using checkLeftRight_clear [of dev others r]
  by (auto simp: q_def choose_turn_def isSensorClear_def split: if_splits)

section \<open>The history of moves\<close>

text \<open>
  Every finished entry but the first has the heading that its move gives to the heading before; the
  entry at \<open>TRVL_INDEX\<close> is under construction.
\<close>

definition history_ok :: "rover \<Rightarrow> bool" where
  "history_ok r \<longleftrightarrow> 0 < TRVL_INDEX r \<and> TRVL_INDEX r \<le> 400 \<and>
     (\<forall>i < TRVL_INDEX r. mv_dir (TRVL r i) \<in> set ''NESW'') \<and>
     (\<forall>i < TRVL_INDEX r. 0 < i \<longrightarrow> mv_move (TRVL r i) \<in> set ''FRBL'' \<and>
        mv_dir (TRVL r i) = newDir (mv_dir (TRVL r (i - 1))) (mv_move (TRVL r i)))"

interpretation hist: board_inv history_ok
  by unfold_locales (simp_all add: history_ok_def)

lemma history_ok_upd [simp]:
  "history_ok (r\<lparr>LEFT_VOLT := x\<rparr>) = history_ok r" "history_ok (r\<lparr>RIGHT_VOLT := x\<rparr>) = history_ok r"
  "history_ok (r\<lparr>LEFT_CLEAR := b\<rparr>) = history_ok r" "history_ok (r\<lparr>RIGHT_CLEAR := b\<rparr>) = history_ok r"
  "history_ok (r\<lparr>FRONT_CLEAR := b\<rparr>) = history_ok r" "history_ok (r\<lparr>SYSTEM_STATUS := n\<rparr>) = history_ok r"
  "history_ok (r\<lparr>FRONT_SERVO := f\<rparr>) = history_ok r" "history_ok (r\<lparr>ENCODER_INIT := x\<rparr>) = history_ok r"
  by (simp_all add: history_ok_def)

lemma history_ok_append:
  assumes "history_ok r" "TRVL_INDEX r < 400" "m \<in> set ''FRBL''" "mv_move mv = m"
    "mv_dir mv = newDir (mv_dir (TRVL r (TRVL_INDEX r - 1))) m"
  shows "history_ok (r\<lparr>TRVL := (TRVL r)(TRVL_INDEX r := mv), TRVL_INDEX := Suc (TRVL_INDEX r)\<rparr>)"
proof -
  let ?n = "TRVL_INDEX r"
  have h: "0 < ?n" "\<And>i. i < ?n \<Longrightarrow> mv_dir (TRVL r i) \<in> set ''NESW''"
    "\<And>i. i < ?n \<Longrightarrow> 0 < i \<Longrightarrow> mv_move (TRVL r i) \<in> set ''FRBL'' \<and>
        mv_dir (TRVL r i) = newDir (mv_dir (TRVL r (i - 1))) (mv_move (TRVL r i))"
    using assms(1) unfolding history_ok_def by blast+
  have d: "mv_dir mv \<in> set ''NESW''"
    using newDir_step(1) [OF h(2) assms(3)] h(1) assms(5) by simp
  let ?t = "(TRVL r)(?n := mv)"
  have "mv_dir (?t i) \<in> set ''NESW''" if "i < Suc ?n" for i
    using h(2) [of i] d that by (cases "i = ?n") (simp_all add: less_Suc_eq)
  moreover have "mv_move (?t i) \<in> set ''FRBL'' \<and> mv_dir (?t i) = newDir (mv_dir (?t (i - 1))) (mv_move (?t i))"
    if "i < Suc ?n" "0 < i" for i
  proof (cases "i = ?n")
    case True
    moreover have "?n - 1 \<noteq> ?n" using h(1) by simp
    ultimately show ?thesis using assms(3-5) by simp
  next
    case False
    with that have "i < ?n" "i - 1 \<noteq> ?n" by auto
    with h(3) [of i] that show ?thesis by simp
  qed
  ultimately show ?thesis
    using assms(2) by (simp add: history_ok_def)
qed

lemma history_ok_current:
  "history_ok (r\<lparr>TRVL := (TRVL r)(TRVL_INDEX r := mv)\<rparr>) \<longleftrightarrow> history_ok r"
proof -
  have "i < n \<Longrightarrow> i - Suc 0 \<noteq> n" for i n :: nat by simp
  then show ?thesis by (simp add: history_ok_def)
qed

lemma history_ok_record_turn:
  assumes "history_ok r" "record_turn c a r = Some r'" "c \<in> set ''FRBL''"
  shows "history_ok r'"
proof -
  have lt: "TRVL_INDEX r < 400" "TRVL_INDEX r - Suc 0 < 400" "TRVL_INDEX r - Suc 0 \<noteq> TRVL_INDEX r"
    and pos: "0 < TRVL_INDEX r"
    using assms(1,2) by (auto simp: record_turn_def trvl_upd_def history_ok_def split: if_splits)
  define mv where "mv = (TRVL r (TRVL_INDEX r))\<lparr>mv_move := c,
    mv_dir := newDir (mv_dir (TRVL r (TRVL_INDEX r - 1))) c, mv_angle := a\<rparr>"
  have "r' = r\<lparr>TRVL := (TRVL r)(TRVL_INDEX r := mv), TRVL_INDEX := Suc (TRVL_INDEX r)\<rparr>"
    using assms(2) lt pos by (simp add: record_turn_def trvl_upd_def trvl_prev_def trvl_get_def mv_def)
  with history_ok_append [OF assms(1) lt(1) assms(3), of mv] show ?thesis
    by (simp add: mv_def)
qed

lemma history_ok_record_forward:
  assumes "history_ok r" "mv_move (TRVL r (TRVL_INDEX r)) = CHR ''F''" "record_forward r = Some r'"
  shows "history_ok (r'\<lparr>TRVL_INDEX := TRVL_INDEX r' + 1\<rparr>)" and "history_ok r'"
proof -
  have lt: "TRVL_INDEX r < 400" "TRVL_INDEX r - Suc 0 < 400" "TRVL_INDEX r - Suc 0 \<noteq> TRVL_INDEX r"
    and pos: "0 < TRVL_INDEX r"
    using assms(1,3) by (auto simp: record_forward_def trvl_upd_def trvl_prev_def history_ok_def
        bind_eq_Some_conv split: if_splits)
  define mv where "mv = (TRVL r (TRVL_INDEX r))\<lparr>
    mv_dir := newDir (mv_dir (TRVL r (TRVL_INDEX r - 1))) (CHR ''F''),
    mv_count := ENCODER_0A r - ENCODER_INIT r, mv_angle := 0\<rparr>"
  have r': "r' = r\<lparr>TRVL := (TRVL r)(TRVL_INDEX r := mv)\<rparr>"
    using assms(3) lt pos by (simp add: record_forward_def trvl_upd_def trvl_prev_def trvl_get_def mv_def)
  show "history_ok (r'\<lparr>TRVL_INDEX := TRVL_INDEX r' + 1\<rparr>)"
    using history_ok_append [OF assms(1) lt(1), of "CHR ''F''" mv] assms(2) by (simp add: mv_def r')
  show "history_ok r'"
    using assms(1) by (simp add: r' history_ok_current)
qed

lemma history_ok_post:
  assumes "keeps history_ok others"
  shows "history_ok r \<Longrightarrow> history_ok (post_main others n r)"
    and "history_ok r \<Longrightarrow> history_ok (snd (suspend_task others p r))"
    and "history_ok r \<Longrightarrow> history_ok (snd (resume_task others p r))"
  by (simp_all add: post_main_def suspend_task_def resume_task_def keepsD [OF assms] split_beta)

lemma history_ok_sensors:
  assumes "keeps history_ok others"
  shows "history_ok r \<Longrightarrow> history_ok (checkLeftRight dev others r)"
    and "history_ok r \<Longrightarrow> history_ok (servoRotate dev others r)"
    and "history_ok r \<Longrightarrow> history_ok (navigateFront others r)"
proof -
  have c: "history_ok r \<Longrightarrow> history_ok (read_channels dev others chs r)" for chs r
    by (induction chs arbitrary: r) (simp_all add: Let_def split_beta hist.ADC_Read assms)
  then show "history_ok r \<Longrightarrow> history_ok (checkLeftRight dev others r)"
    by (simp add: checkLeftRight_def Let_def)
  have l: "history_ok r \<Longrightarrow> history_ok (servo_look dev others pos i r)" for pos i r
    by (simp add: servo_look_def set_distance_def Let_def split_beta hist.ADC_Read hist.dly_hmsm assms)
  then show "history_ok r \<Longrightarrow> history_ok (servoRotate dev others r)"
    by (simp add: servoRotate_def Let_def set_distance_def hist.dly_hmsm assms)
  show "history_ok r \<Longrightarrow> history_ok (navigateFront others r)"
    by (simp add: navigateFront_def Let_def history_ok_post hist.M_allStop assms)
qed

lemma history_ok_choose:
  assumes k: "keeps history_ok others"
    and "history_ok r" "choose_turn dev others r = Some r'"
  shows "history_ok r'"
proof -
  note t = hist.turns [OF k]
  from assms(3) consider "r' = r"
    | q where "turnLeft dev others r = Some q" "record_turn (CHR ''L'') 90 q = Some r'"
    | q where "turnRight dev others r = Some q" "record_turn (CHR ''R'') 90 q = Some r'"
    | q q' where "motorReverse dev others r = Some q"
        "turn180 dev others (dly_hmsm others 0 0 2 0 q) = Some q'" "record_turn (CHR ''B'') 180 q' = Some r'"
    unfolding choose_turn_def by (fastforce simp: bind_eq_Some_conv split: if_split_asm)
  then show ?thesis
  proof cases
    case 4
    then have "history_ok q'" using t(3,4) hist.dly_hmsm [OF k] assms(2) by blast
    then show ?thesis using 4(3) by (rule history_ok_record_turn) simp
  next
    case 1
    with assms(2) show ?thesis by simp
  next
    case 2
    from t(1) [OF assms(2) 2(1)] 2(2) show ?thesis by (rule history_ok_record_turn) simp
  next
    case 3
    from t(2) [OF assms(2) 3(1)] 3(2) show ?thesis by (rule history_ok_record_turn) simp
  qed
qed

lemma history_ok_on_blocked:
  assumes k: "keeps history_ok others"
    and r: "history_ok r" and e: "on_blocked dev others r = Some r'"
  shows "history_ok r'"
proof -
  define r1 where "r1 = M_allStop others r"
  obtain r2 where r2: "(if mv_move (TRVL r1 (TRVL_INDEX r1)) = CHR ''F''
      then Option.bind (record_forward r1) (\<lambda>r2. Some (r2\<lparr>TRVL_INDEX := TRVL_INDEX r2 + 1\<rparr>))
      else Some r1) = Some r2" and e2: "Option.bind (choose_turn dev others
        (checkLeftRight dev others (dly_hmsm others 0 0 0 1500
          (if SYSTEM_STATUS r2 = 1 then suspend_servo others r2 else r2))))
      (\<lambda>r5. let r6 = navigateFront others (servoRotate dev others r5)
        in Some (if FRONT_CLEAR r6 then resume_servo others r6 else post_main others 0 r6)) = Some r'"
    using e unfolding on_blocked_def
    by (auto simp: bind_eq_Some_conv trvl_get_def Let_def simp flip: r1_def split: if_splits)
  have "history_ok r2"
    using r2 history_ok_record_forward hist.M_allStop [OF k r, folded r1_def]
    by (auto simp: bind_eq_Some_conv split: if_splits)
  then have "history_ok (checkLeftRight dev others (dly_hmsm others 0 0 0 1500
          (if SYSTEM_STATUS r2 = 1 then suspend_servo others r2 else r2)))"
    using history_ok_post(2) [OF k, of r2 3]
    by (auto simp: suspend_servo_def split_beta Let_def intro!: history_ok_sensors hist.dly_hmsm k)
  then show ?thesis
    using e2 history_ok_choose [OF k]
    by (auto simp: bind_eq_Some_conv Let_def resume_servo_def split: if_splits
        intro!: history_ok_sensors history_ok_post k)
qed

lemma history_ok_on_clear:
  assumes k: "keeps history_ok others" and r: "history_ok r" and e: "on_clear dev others r = Some r'"
  shows "history_ok r'"
proof -
  define mv where "mv = (TRVL r (TRVL_INDEX r))\<lparr>mv_move := CHR ''F''\<rparr>"
  define r3 where "r3 = dly_hmsm others 0 0 0 500 (stoptopartial dev others
    (r\<lparr>TRVL := (TRVL r)(TRVL_INDEX r := mv), ENCODER_INIT := ENCODER_0A r\<rparr>))"
  have "history_ok (r\<lparr>TRVL := (TRVL r)(TRVL_INDEX r := mv), ENCODER_INIT := ENCODER_0A r\<rparr>)"
    using r by (simp add: history_ok_current)
  then have 3: "history_ok r3"
    unfolding r3_def by (intro hist.dly_hmsm hist.stoptopartial k)
  have "r' = (if motors_status r3 = MOTOR_FULL then resume_servo others r3
     else post_main others FRONT_IS_CLEAR
       (navigateFront others (servoRotate dev others (M_allStop others r3))))"
    using e by (auto simp: on_clear_def trvl_upd_def r3_def mv_def Let_def split: if_split_asm)
  then show ?thesis
    using 3 by (auto simp: resume_servo_def intro!: history_ok_post history_ok_sensors hist.M_allStop k)
qed

lemma history_ok_next_message:
  assumes "keeps history_ok others" "history_ok r"
  shows "history_ok (snd (next_message others r))"
  using assms by (auto simp: next_message_def Let_def split_beta keepsD split: call.split prod.split)

text \<open>The heading after the moves of the history.\<close>

lemma history_heading:
  assumes "history_ok r" "i < TRVL_INDEX r"
  shows "compass (mv_dir (TRVL r i)) =
    (compass (mv_dir (TRVL r 0)) + (\<Sum>j \<in> {1..i}. quarters (mv_move (TRVL r j)))) mod 4"
  using assms(2)
proof (induction i)
  case 0
  have "mv_dir (TRVL r 0) \<in> set ''NESW''" using assms(1) by (simp add: history_ok_def)
  then show ?case by (auto simp: compass_def)
next
  case (Suc i)
  have "mv_dir (TRVL r i) \<in> set ''NESW''" "mv_move (TRVL r (Suc i)) \<in> set ''FRBL''"
    and d: "mv_dir (TRVL r (Suc i)) = newDir (mv_dir (TRVL r i)) (mv_move (TRVL r (Suc i)))"
    using assms(1) Suc.prems by (auto simp: history_ok_def simp del: list.set)
  from newDir_step(2) [OF this(1,2)] Suc show ?case
    unfolding d by (simp add: mod_add_left_eq add.assoc)
qed

text \<open>
  C35: every round of \<^verbatim>\<open>Navigation_Task\<close> (nav.c) that ends keeps the history of moves consistent, as long as
  the other tasks leave the finished entries alone: the array is not left, each finished entry has one
  of the four headings and the one that its move gives to the entry before, and so the heading of any
  entry is the starting heading turned by all the moves up to it.
\<close>

theorem Navigation_Task_history:
  assumes "keeps history_ok others" "history_ok r" "Navigation_Task dev others r = Some r'"
  shows "history_ok r' \<and> (\<forall>i < TRVL_INDEX r'. compass (mv_dir (TRVL r' i)) =
      (compass (mv_dir (TRVL r' 0)) + (\<Sum>j \<in> {1..i}. quarters (mv_move (TRVL r' j)))) mod 4)"
proof (rule conjI)
  obtain m r1 where m: "next_message others r = (m, r1)" by fastforce
  with history_ok_next_message [OF assms(1,2)] have r1: "history_ok r1" by simp
  show h: "history_ok r'"
  proof -
    consider "on_blocked dev others r1 = Some r'" | "on_clear dev others r1 = Some r'"
      | "r' = checkLeftRight dev others (navigateFront others (servoRotate dev others r1))" | "r' = r1"
      using assms(3) unfolding Navigation_Task_def m Let_def prod.case
      by (metis option.inject)
    then show ?thesis
    proof cases
      case 1
      then show ?thesis by (rule history_ok_on_blocked [OF assms(1) r1])
    next
      case 2
      then show ?thesis by (rule history_ok_on_clear [OF assms(1) r1])
    next
      case 3
      then show ?thesis using r1 by (simp add: history_ok_sensors [OF assms(1)])
    next
      case 4
      with r1 show ?thesis by simp
    qed
  qed
  show "\<forall>i < TRVL_INDEX r'. compass (mv_dir (TRVL r' i)) =
      (compass (mv_dir (TRVL r' 0)) + (\<Sum>j \<in> {1..i}. quarters (mv_move (TRVL r' j)))) mod 4"
    using history_heading [OF h] by blast
qed

section \<open>An obstacle ahead\<close>

abbreviation pwm_ports :: "u32 set" where
  "pwm_ports \<equiv> {PWM_0_BASE, PWM_1_BASE, PWM_2_BASE, PWM_3_BASE}"

lemma M_allStop_writes:
  assumes "leaves_alone pwm_ports others"
  shows "filter (touches pwm_ports) (trace (M_allStop others r)) =
    IoWr PWM_3_BASE 0 1 # IoWr PWM_2_BASE 0 1 # IoWr PWM_1_BASE 0 1 # IoWr PWM_0_BASE 0 1 #
    filter (touches pwm_ports) (trace r)"
  by (simp add: M_allStop_def sleep_s_def Let_def leaves_alone_usleep [OF assms])

text \<open>
  C34: when the sensors see an obstacle while both motors run and the system is free
  (\<^verbatim>\<open>navigateFront\<close> in the servo task, nav.c), the four bridge inputs are written, the system is marked
  busy, and the message goes to the navigation task: when that waits for \<^verbatim>\<open>MainQueue\<close> and no ready task
  has a higher priority, the kernel runs it at once, and its pend call returns \<^verbatim>\<open>FRONT_IS_BLOCKED\<close>.
\<close>

theorem obstacle_wakes_navigation:
  assumes "motors_status r = MOTOR_FULL" "\<not> front_free r" "SYSTEM_STATUS r = SYS_FREE"
    and "leaves_alone pwm_ports others"
    and r2: "r2 = M_allStop others (r\<lparr>FRONT_CLEAR := False\<rparr>)" and q: "MainQueue r2 = PEvent e"
    and ty: "OSEventType (OSEventTbl (os r2) e) = OS_EVENT_TYPE_Q"
    and tw: "top_waiter (os r2) p i e OS_STAT_Q"
  shows "take 4 (filter (touches pwm_ports) (trace r2)) =
      [IoWr PWM_3_BASE 0 1, IoWr PWM_2_BASE 0 1, IoWr PWM_1_BASE 0 1, IoWr PWM_0_BASE 0 1] \<and>
    (\<exists>s s'. navigateFront others r = others (r2\<lparr>SYSTEM_STATUS := SYS_BUSY, os := s\<rparr>) \<and>
      OSTCBCur s = PTcb i \<and> unat (OSPrioCur s) = p \<and>
      OSQPend_resume (PEvent e) s = (PWord FRONT_IS_BLOCKED, OS_ERR_NONE, s') \<and> running s' p i \<and> os_wf s')"
proof (rule conjI)
  show "take 4 (filter (touches pwm_ports) (trace r2)) =
      [IoWr PWM_3_BASE 0 1, IoWr PWM_2_BASE 0 1, IoWr PWM_1_BASE 0 1, IoWr PWM_0_BASE 0 1]"
    unfolding r2 M_allStop_writes [OF assms(4)] by simp
  define s where "s = snd (OSQPost (PEvent e) (PWord FRONT_IS_BLOCKED) (os r2))"
  have nav: "navigateFront others r = others (r2\<lparr>SYSTEM_STATUS := SYS_BUSY, os := s\<rparr>)"
    using assms(1-3) q by (simp add: navigateFront_def post_main_def s_def flip: r2)
  have "Grp (wait_of (os r2) e) \<noteq> 0"
    using tw wait_empty_iff [of "os r2" e] by (auto simp: top_waiter_def)
  then have s: "s = OS_Sched (snd (OS_EventTaskRdy e (PWord FRONT_IS_BLOCKED) OS_STAT_Q OS_STAT_PEND_OK (os r2)))"
    using ty by (simp add: s_def OSQPost_def)
  note k = post_wakes [OF tw, where pmsg = "PWord FRONT_IS_BLOCKED", folded s]
  have cur: "OSTCBCur s = PTcb i" "unat (OSPrioCur s) = p"
    using k(2) by (simp_all add: resumed_def)
  note f = pend_finish_correct [OF k(1,2)]
  have "OSQPend_resume (PEvent e) s = (PWord FRONT_IS_BLOCKED, OS_ERR_NONE,
      upd_tcb i (\<lambda>t. t\<lparr>OSTCBMsg := NULL\<rparr>) (snd (pend_finish e s)))"
    using f(5) k(4,5) by (simp add: OSQPend_resume_def pend_finish_msg_eq [OF cur(1)])
  with nav cur f(1,2) show "\<exists>s s'. navigateFront others r = others (r2\<lparr>SYSTEM_STATUS := SYS_BUSY, os := s\<rparr>) \<and>
      OSTCBCur s = PTcb i \<and> unat (OSPrioCur s) = p \<and>
      OSQPend_resume (PEvent e) s = (PWord FRONT_IS_BLOCKED, OS_ERR_NONE, s') \<and> running s' p i \<and> os_wf s'"
    by (intro exI [of _ s] exI [of _ "upd_tcb i (\<lambda>t. t\<lparr>OSTCBMsg := NULL\<rparr>) (snd (pend_finish e s))"])
      simp
qed

subsection \<open>A concrete rover\<close>

text \<open>
  Both motors run and a wall is 2 V near; the kernel is the example state, with the message
  \<open>FRONT_IS_CLEAR\<close> in the queue or with task 5 waiting for the queue.
\<close>

definition nav_demo :: rover where
  "nav_demo = \<lparr>trace = [], os = demo\<lparr>OSQStore := (\<lambda>_. NULL)(0 := PWord 1)\<rparr>, MainQueue = PEvent 3,
     SYSTEM_STATUS = 0, MOTOR_0_STATUS = 1, MOTOR_1_STATUS = 1, FRONT_CLEAR = True, LEFT_CLEAR = True,
     RIGHT_CLEAR = True,
     FRONT_SERVO = (\<lambda>_. \<lparr>quadrant = [], ag_angle = 0, ag_distance = 2\<rparr>),
     TRVL = (\<lambda>_. \<lparr>mv_move = CHR ''F'', mv_dir = CHR ''N'', mv_count = 1, mv_angle = 0\<rparr>),
     TRVL_INDEX = 1, ENCODER_INIT = 0, LEFT_VOLT = 0, RIGHT_VOLT = 0, ENCODER_0A = 0, ENCODER_1A = 0\<rparr>"

definition wait_demo :: os_state where
  "wait_demo = OS_Sched (pend_block 3 OS_STAT_Q 0 demo)"

lemma top_waiter_wait_demo: "top_waiter wait_demo 5 0 3 OS_STAT_Q"
  unfolding wait_demo_def
  by (rule pend_block_top_waiter [OF os_wf_demo running_demo can_sched_demo])
    (auto simp: rdy_set_demo wait_set_demo)

lemma obstacle_wakes_navigation_witness:
  "\<exists>s s'. navigateFront (\<lambda>r. r\<lparr>os := wait_demo\<rparr>) nav_demo =
     (M_allStop (\<lambda>r. r\<lparr>os := wait_demo\<rparr>) (nav_demo\<lparr>FRONT_CLEAR := False\<rparr>))\<lparr>SYSTEM_STATUS := 1,
       os := wait_demo\<rparr> \<and>
     OSTCBCur s = PTcb 0 \<and> OSQPend_resume (PEvent 3) s = (PWord 0, OS_ERR_NONE, s') \<and> running s' 5 0"
proof -
  let ?o = "\<lambda>r :: rover. r\<lparr>os := wait_demo\<rparr>"
  let ?r2 = "M_allStop ?o (nav_demo\<lparr>FRONT_CLEAR := False\<rparr>)"
  have la: "leaves_alone B ?o" for B by (simp add: leaves_alone_def)
  have d: "usleep_delays (usleep_ticks 1000000) \<noteq> []"
    by (subst usleep_delays.simps) simp
  have o: "os (dly_calls ?o ds r) = wait_demo \<and> MainQueue (dly_calls ?o ds r) = MainQueue r"
    if "ds \<noteq> []" for ds r
    using that
  proof (induction ds arbitrary: r)
    case (Cons a ds)
    then show ?case by (cases ds) simp_all
  qed simp
  have run: "OSRunning (os nav_demo)" by (simp add: nav_demo_def demo_def)
  have 2: "os ?r2 = wait_demo" "MainQueue ?r2 = PEvent 3"
    using o [OF d] run
    by (simp_all add: M_allStop_def sleep_s_def usleep_def alt_busy_sleep_def Let_def reg_of_double_def IOWR_def)
      (simp_all add: nav_demo_def)
  have ty: "OSEventType (OSEventTbl wait_demo 3) = OS_EVENT_TYPE_Q"
    using event_data_eq(1) [OF pend_block_sched(5) [OF os_wf_demo running_demo can_sched_demo,
        where e = 3 and e' = 3 and stat = OS_STAT_Q and timeout = 0]]
    by (simp add: rdy_set_demo wait_demo_def) (simp add: demo_def)
  have "motors_status nav_demo = 1" "\<not> front_free nav_demo" "SYSTEM_STATUS nav_demo = 0"
    by (simp_all add: nav_demo_def motors_status_def front_free_def isSensorClear_def)
  from obstacle_wakes_navigation [OF this la refl, of 3 5 0] 2 ty top_waiter_wait_demo
  show ?thesis by auto
qed

lemma Navigation_Task_history_witness:
  "\<exists>r'. Navigation_Task (\<lambda>_ _ _. 0) (\<lambda>r. r) nav_demo = Some r' \<and> history_ok r'"
proof -
  have h: "history_ok nav_demo" by (auto simp: history_ok_def nav_demo_def)
  have m: "fst (next_message (\<lambda>r. r) nav_demo) = PWord 1"
    "TRVL_INDEX (snd (next_message (\<lambda>r. r) nav_demo)) = 1"
    by (simp_all add: next_message_def nav_demo_def OSQPend_def demo_def ring_take_def
        get_ring_def Let_def split_beta)
  then obtain r' where e: "Navigation_Task (\<lambda>_ _ _. 0) (\<lambda>r. r) nav_demo = Some r'"
    by (auto simp: Navigation_Task_def split_beta on_clear_def trvl_upd_def Let_def)
  with Navigation_Task_history [OF keeps_id h e] show ?thesis by blast
qed

end
