(* ===== verification/Rover_Main.thy ===== *)
theory Rover_Main
  imports Rover_Nav Os_Init
begin

text \<open>
  \<^verbatim>\<open>main\<close> of nav.c: the message queue, the five tasks, the first entry of the history, and the start
  of the scheduler.  The HAL calls \<^verbatim>\<open>OSInit\<close> before it.  The addresses of the task functions and of
  their stacks are parameters.
\<close>

section \<open>Start of the application\<close>

record rover_image =
  Encoder_Task_addr :: u32
  LSM303_Task_addr :: u32
  Navigation_Task_addr :: u32
  Servo_Task_addr :: u32
  History_Task_addr :: u32
  task1_stk :: u32
  task3_stk :: u32
  task4_stk :: u32
  task5_stk :: u32
  task6_stk :: u32

abbreviation (input) TASK_STACKSIZE :: u32 where "TASK_STACKSIZE \<equiv> 2048"
abbreviation (input) QUEUE_SIZE :: u16 where "QUEUE_SIZE \<equiv> 10"
abbreviation (input) MainQueueBaseAddress :: nat where "MainQueueBaseAddress \<equiv> 0"

text \<open>The result of the call is not looked at.\<close>

definition create_task :: "port \<Rightarrow> u32 \<Rightarrow> u32 \<Rightarrow> u8 \<Rightarrow> rover \<Rightarrow> rover" where
  "create_task prt task stk prio r =
     r\<lparr>os := snd (OSTaskCreateExt prt task 0 (stk + 4 * (TASK_STACKSIZE - 1)) prio (ucast prio) stk
               TASK_STACKSIZE NULL 0 (os r))\<rparr>"

definition nav_main :: "port \<Rightarrow> rover_image \<Rightarrow> tasks \<Rightarrow> rover \<Rightarrow> rover" where
  "nav_main prt img others r =
     (let (pevent, s1) = OSQCreate MainQueueBaseAddress QUEUE_SIZE (os r);
          r1 = r\<lparr>MainQueue := pevent, os := s1\<rparr>;
          r2 = create_task prt (Encoder_Task_addr img) (task1_stk img) TASK_ENCODER_PRIORITY r1;
          r3 = create_task prt (LSM303_Task_addr img) (task4_stk img) TASK_LSM303_PRIORITY r2;
          r4 = create_task prt (Navigation_Task_addr img) (task5_stk img) TASK_NAVI_PRIORITY r3;
          r5 = create_task prt (Servo_Task_addr img) (task6_stk img) TASK_SERVO_PRIORITY r4;
          r6 = create_task prt (History_Task_addr img) (task3_stk img) TASK_HISTORY_PRIORITY r5;
          r7 = M_allStop others r6;
          r8 = r7\<lparr>FRONT_CLEAR := True, RIGHT_CLEAR := True, LEFT_CLEAR := True,
                 ENCODER_1A := 0, ENCODER_0A := 0, ENCODER_INIT := 0\<rparr>;
          r9 = r8\<lparr>TRVL := (TRVL r8)(0 := (TRVL r8 0)\<lparr>mv_dir := CHR ''N'', mv_move := CHR ''F'',
                 mv_angle := 0, mv_count := 1\<rparr>), TRVL_INDEX := 1\<rparr>;
          r10 = r9\<lparr>SYSTEM_STATUS := SYS_FREE\<rparr>
      in r10\<lparr>os := OSStart (os r10)\<rparr>)"

section \<open>The rover starts\<close>

lemma M_allStop_not_running:
  "\<not> OSRunning (os r) \<Longrightarrow> M_allStop others r = (r :: rover)\<lparr>trace :=
     IoSpin (unat (reg_of_double (1 * SECOND_DELAY))) # IoWr PWM_3_BASE 0 1 # IoWr PWM_2_BASE 0 1 #
     IoWr PWM_1_BASE 0 1 # IoWr PWM_0_BASE 0 1 # trace r\<rparr>"
  by (simp add: M_allStop_def Let_def sleep_s_def usleep_def IOWR_def alt_busy_sleep_def)

text \<open>
  Creating tasks, given by function, stack and priority, on a rover whose kernel has been initialised
  but does not run yet: they get the first free control blocks in order.
\<close>

definition create_tasks :: "port \<Rightarrow> (u32 \<times> u32 \<times> u8) list \<Rightarrow> rover \<Rightarrow> rover" where
  "create_tasks prt = fold (\<lambda>(task, stk, prio). create_task prt task stk prio)"

lemma create_tasks_booted:
  assumes "booted s js (is @ fs) P es" "length is = length ts"
    and "distinct (map (\<lambda>(task, stk, prio). unat prio) ts)"
    and "\<forall>(task, stk, prio) \<in> set ts. prio < 19 \<and> OSTCBPrioTbl s (unat prio) = NULL"
  shows "\<exists>s'. create_tasks prt ts (r\<lparr>os := s\<rparr>) = r\<lparr>os := s'\<rparr> \<and>
    booted s' (rev is @ js) fs (P \<union> (\<lambda>(task, stk, prio). unat prio) ` set ts) es \<and> boot_frame s s' \<and>
    (\<forall>x \<in> set (zip is ts). at_prio s' (unat (snd (snd (snd x)))) (fst x)) \<and>
    (\<forall>q k. at_prio s q k \<longrightarrow> at_prio s' q k)"
  using assms
proof (induction ts arbitrary: s js "is" P)
  case Nil
  then show ?case by (intro exI [of _ s]) (simp add: create_tasks_def)
next
  case (Cons t ts)
  obtain task stk prio where t: "t = (task, stk, prio)" by (cases t)
  obtain i is' where i: "is = i # is'" using Cons.prems(2) by (cases "is") auto
  have p: "prio < 19" "OSTCBPrioTbl s (unat prio) = NULL" using Cons.prems(4) t by auto
  have lo: "prio \<le> OS_LOWEST_PRIO" using p(1) by (simp add: word_less_nat_alt word_le_nat_alt)
  have b: "booted s js (i # (is' @ fs)) P es" using Cons.prems(1) i by simp
  obtain s1 where s1: "create_task prt task stk prio (r\<lparr>os := s\<rparr>) = r\<lparr>os := s1\<rparr>"
    "booted s1 (i # js) (is' @ fs) (insert (unat prio) P) es" "at_prio s1 (unat prio) i"
    "OSTCBPrioTbl s1 = (OSTCBPrioTbl s)(unat prio := PTcb i)" "boot_frame s s1" "\<forall>q k. at_prio s q k \<longrightarrow> at_prio s1 q k"
    using booted_task [OF b lo p(2), of prt task 0 "stk + 4 * (TASK_STACKSIZE - 1)" "ucast prio"
      stk TASK_STACKSIZE NULL 0] by (auto simp: create_task_def)
  have "\<forall>(task', stk', prio') \<in> set ts. prio' < 19 \<and> OSTCBPrioTbl s1 (unat prio') = NULL"
    using Cons.prems(3,4) t s1(4) by (fastforce simp: image_iff)
  with Cons.IH [OF s1(2)] Cons.prems(2,3) i
  obtain s' where s': "create_tasks prt ts (r\<lparr>os := s1\<rparr>) = r\<lparr>os := s'\<rparr>"
    "booted s' (rev is' @ i # js) fs (insert (unat prio) P \<union> (\<lambda>(task, stk, prio). unat prio) ` set ts) es"
    "boot_frame s1 s'" "\<forall>x \<in> set (zip is' ts). at_prio s' (unat (snd (snd (snd x)))) (fst x)"
    "\<forall>q k. at_prio s1 q k \<longrightarrow> at_prio s' q k" by auto
  have "create_tasks prt (t # ts) (r\<lparr>os := s\<rparr>) = r\<lparr>os := s'\<rparr>"
    using s'(1) s1(1) by (simp add: create_tasks_def t)
  moreover have "booted s' (rev is @ js) fs (P \<union> (\<lambda>(task, stk, prio). unat prio) ` set (t # ts)) es"
    using s'(2) by (simp add: i t)
  ultimately show ?case
    using s'(3-5) s1(3,5,6) boot_frame_trans by (intro exI [of _ s']) (auto simp: i t)
qed

lemma queue_boot_frame:
  assumes "boot_frame s s'" "os_wf s'"
  shows "queue_ok e q s \<Longrightarrow> queue_ok e q s'" "q_msgs q s' = q_msgs q s"
  using assms by (simp_all add: boot_frame_def queue_ok_def q_msgs_def get_ring_def)

text \<open>
  \<^verbatim>\<open>OSInit\<close> and \<^verbatim>\<open>main\<close>: the kernel state \<open>u\<close> in which \<^verbatim>\<open>OSStart\<close> is called, and what \<^verbatim>\<open>main\<close> leaves in the
  program's own variables.
\<close>

lemma nav_main_boots:
  assumes "tables_only s"
  shows "\<exists>s0. OSInit prt kimg s = Some s0 \<and> (\<forall>r. os r = s0 \<longrightarrow> (\<exists>u. os (nav_main prt img others r) = OSStart u \<and>
    booted u [6, 5, 4, 3, 2, 1, 0] [7..<12] {1, 2, 3, 4, 5, 19, 20} [1..<60] \<and> at_prio u 1 2 \<and>
    queue_ok 0 0 u \<and> q_msgs 0 u = [] \<and> OSTickStepState u = OSTickStepState s \<and>
    MainQueue (nav_main prt img others r) = PEvent 0 \<and> history_ok (nav_main prt img others r) \<and>
    SYSTEM_STATUS (nav_main prt img others r) = SYS_FREE \<and>
    trace (nav_main prt img others r) = IoSpin 1000000 # IoWr PWM_3_BASE 0 1 # IoWr PWM_2_BASE 0 1 #
      IoWr PWM_1_BASE 0 1 # IoWr PWM_0_BASE 0 1 # trace r))"
proof -
  obtain s0 where s0: "OSInit prt kimg s = Some s0" "booted s0 [1, 0] [2..<12] {19, 20} [0..<60]"
    "at_prio s0 20 0" "at_prio s0 19 1" "\<forall>p < 19. OSTCBPrioTbl s0 p = NULL" "OSQFreeList s0 = PQ 0"
    "OSTickStepState s0 = OSTickStepState s"
    using OSInit_boots [OF assms, of prt kimg] by blast
  have es: "[0..<60] = 0 # [1..<60 :: nat]" and fs: "[2..<12] = 2 # 3 # 4 # 5 # 6 # [7..<12 :: nat]"
    by (simp_all add: upt_rec)
  obtain s1 where s1: "OSQCreate MainQueueBaseAddress QUEUE_SIZE s0 = (PEvent 0, s1)"
    "booted s1 [1, 0] (2 # 3 # 4 # 5 # 6 # [7..<12]) {19, 20} [1..<60]" "queue_ok 0 0 s1" "q_msgs 0 s1 = []"
    "OSTCBPrioTbl s1 = OSTCBPrioTbl s0" "OSTickStepState s1 = OSTickStepState s0"
    using booted_queue [OF s0(2) [unfolded es] s0(6), of QUEUE_SIZE MainQueueBaseAddress] fs by auto
  show ?thesis
  proof (rule exI [of _ s0], intro conjI allI impI s0(1))
    fix r :: rover assume r: "os r = s0"
    define ts where "ts = [(Encoder_Task_addr img, task1_stk img, 1 :: u8),
      (LSM303_Task_addr img, task4_stk img, 5), (Navigation_Task_addr img, task5_stk img, 2),
      (Servo_Task_addr img, task6_stk img, 3), (History_Task_addr img, task3_stk img, 4)]"
    let ?r1 = "r\<lparr>MainQueue := PEvent 0\<rparr>"
    have "booted s1 [1, 0] ([2, 3, 4, 5, 6] @ [7..<12]) {19, 20} [1..<60]" using s1(2) by simp
    from create_tasks_booted [OF this, of ts prt ?r1]
    obtain u where u: "create_tasks prt ts (?r1\<lparr>os := s1\<rparr>) = ?r1\<lparr>os := u\<rparr>"
      "booted u [6, 5, 4, 3, 2, 1, 0] [7..<12] {1, 2, 3, 4, 5, 19, 20} [1..<60]" "boot_frame s1 u"
      "at_prio u 1 2"
      using s0(5) s1(5) by (auto simp: ts_def insert_commute)
    have q: "queue_ok 0 0 u" "q_msgs 0 u = []" "OSTickStepState u = OSTickStepState s"
      using queue_boot_frame [OF u(3)] u(2,3) s1(3,4,6) s0(7) by (auto simp: booted_def boot_frame_def)
    have m: "M_allStop others (?r1\<lparr>os := u\<rparr>) = ?r1\<lparr>os := u, trace := IoSpin 1000000 # IoWr PWM_3_BASE 0 1 #
        IoWr PWM_2_BASE 0 1 # IoWr PWM_1_BASE 0 1 # IoWr PWM_0_BASE 0 1 # trace r\<rparr>"
      using u(2) by (subst M_allStop_not_running) (simp_all add: booted_def reg_of_double_def)
    define r' where "r' = nav_main prt img others r"
    have ct: "create_task prt (History_Task_addr img) (task3_stk img) TASK_HISTORY_PRIORITY
       (create_task prt (Servo_Task_addr img) (task6_stk img) TASK_SERVO_PRIORITY
       (create_task prt (Navigation_Task_addr img) (task5_stk img) TASK_NAVI_PRIORITY
       (create_task prt (LSM303_Task_addr img) (task4_stk img) TASK_LSM303_PRIORITY
       (create_task prt (Encoder_Task_addr img) (task1_stk img) TASK_ENCODER_PRIORITY (?r1\<lparr>os := s1\<rparr>))))) =
       ?r1\<lparr>os := u\<rparr>"
      using u(1) by (simp add: create_tasks_def ts_def)
    have f: "os r' = OSStart u" "MainQueue r' = PEvent 0" "SYSTEM_STATUS r' = SYS_FREE" "TRVL_INDEX r' = 1"
      "mv_dir (TRVL r' 0) = CHR ''N''" "trace r' = IoSpin 1000000 # IoWr PWM_3_BASE 0 1 #
        IoWr PWM_2_BASE 0 1 # IoWr PWM_1_BASE 0 1 # IoWr PWM_0_BASE 0 1 # trace r"
      by (simp_all add: r'_def nav_main_def Let_def r s1(1) ct m)
    have h: "history_ok r'" by (simp add: history_ok_def f)
    show "\<exists>u. os (nav_main prt img others r) = OSStart u \<and>
        booted u [6, 5, 4, 3, 2, 1, 0] [7..<12] {1, 2, 3, 4, 5, 19, 20} [1..<60] \<and> at_prio u 1 2 \<and>
        queue_ok 0 0 u \<and> q_msgs 0 u = [] \<and> OSTickStepState u = OSTickStepState s \<and>
        MainQueue (nav_main prt img others r) = PEvent 0 \<and> history_ok (nav_main prt img others r) \<and>
        SYSTEM_STATUS (nav_main prt img others r) = SYS_FREE \<and>
        trace (nav_main prt img others r) = IoSpin 1000000 # IoWr PWM_3_BASE 0 1 # IoWr PWM_2_BASE 0 1 #
          IoWr PWM_1_BASE 0 1 # IoWr PWM_0_BASE 0 1 # trace r"
      unfolding r'_def [symmetric] f using u(2,4) q h f(1) by blast
  qed
qed


definition demo_rover_image :: rover_image where
  "demo_rover_image = \<lparr>Encoder_Task_addr = 1, LSM303_Task_addr = 2, Navigation_Task_addr = 3,
     Servo_Task_addr = 4, History_Task_addr = 5, task1_stk = 65536, task3_stk = 131072,
     task4_stk = 196608, task5_stk = 262144, task6_stk = 327680\<rparr>"


end
