(* ===== verification/Rover_System.thy ===== *)
theory Rover_System
  imports Rover_Main Os_System
begin

text \<open>
  The rover's kernel after \<^verbatim>\<open>main\<close>: the state in which \<^verbatim>\<open>OSStart\<close> hands over to the tasks satisfies the
  invariant of Os_System, so everything that holds in all its reachable states holds for the rover.
\<close>

lemma booted_sys_ok:
  assumes b: "booted u js fs P es" and idle: "20 \<in> P" and tick: "OSTickStepState u = OS_TICK_STEP_DIS"
    and q: "\<And>e e'. OSEventType (OSEventTbl u e) = OS_EVENT_TYPE_Q \<Longrightarrow> OSEventType (OSEventTbl u e') = OS_EVENT_TYPE_Q \<Longrightarrow> e = e'"
  shows "sys_ok (butlast js) (OSStart u, \<lambda>_. Run)"
proof -
  have ne: "P \<noteq> {}" using idle by auto
  note B = b [unfolded booted_def] and S = OSStart_booted [OF b ne]
  have w: "wait_set (OSStart u) e = {}" for e by (rule S(5))
  have tl: "task_list (OSStart u) (butlast js)" by (rule tcbs_ok_task_list [OF S(2,3)])
  have m: "OSTCBEventMultiPtr (OSTCBTbl (OSStart u) i) = None" if "at_prio (OSStart u) p i" for p i
  proof -
    have "i \<in> set js" by (rule tcbs_ok_listed [OF S(2) that])
    then have "i < 12" using tcbs_okD(6) [OF S(2)] by blast
    then show ?thesis using B by (simp add: S(13))
  qed
  have wo: "waits_ok (\<lambda>_. Run) (OSStart u)"
    using m by (simp add: waits_ok_def wait_ok_def w)
  obtain k where h: "unat (OSPrioCur (OSStart u)) = Min P" "OSTCBCur (OSStart u) = PTcb k"
    "at_prio (OSStart u) (Min P) k"
    using S(8) by (auto simp: highest_runs_def S(4))
  have cu: "cur_ok (OSStart u)" using h by (simp add: cur_ok_def at_prio_tbl)
  have fin: "finite P" using bm.finite_els [OF os_wf_bm(1) [OF S(1)]] S(4) by (simp add: rdy_set_def)
  have r: "unat (OSPrioCur (OSStart u)) \<in> rdy_set (OSStart u)" using Min_in [OF fin ne] h(1) by (simp add: S(4))
  have nest: "OSIntNesting (OSStart u) = 0" using S(7) by (simp add: can_sched_def)
  have pt: "OSTCBPrioTbl (OSStart u) p = NULL \<or> (\<exists>i. at_prio (OSStart u) p i)" if "p \<le> 20" for p
  proof -
    have "OSTCBPrioTbl (OSStart u) = OSTCBPrioTbl u"
      using B by (simp add: OSStart_def Let_def OS_SchedNew_eq)
    then show ?thesis using B that by (simp add: S(9))
  qed
  have "sys_inv (butlast js) 0 (\<lambda>_. Run) (OSStart u)"
    using S(1,6,8) tl wo cu r nest pt idle tick by (simp add: sys_inv_def sys_core_def S(4,14))
  moreover have "served (OSStart u)"
    using q by (simp add: served_def w S(12))
  ultimately show ?thesis by (simp add: sys_ok_def)
qed



end
