(* ===== verification/Rover_Flash.thy ===== *)
theory Rover_Flash
  imports Prelude
begin

text \<open>
  lib/flash.c: block addressing of a flash memory with regions of equal blocks, and the split of a write
  into blocks.  The device behind \<^verbatim>\<open>alt_flash\<close> is a parameter: \<open>wr\<close>, \<open>er\<close>, \<open>rd\<close> give the error code (and
  the data) of a call as a function of the calls made before, which are kept newest first.
\<close>

section \<open>Data\<close>

text \<open>\<^verbatim>\<open>flash_region\<close> of alt_flash_types.h; the fields are of the C type \<^verbatim>\<open>int\<close>.\<close>

record flash_region =
  fr_offset :: u32
  region_size :: u32
  number_of_blocks :: u32
  block_size :: u32

datatype flash_call =
    WriteBlock u32 u32 "u8 list"   \<comment> \<open>block offset, data offset, data\<close>
  | EraseBlock u32 u32             \<comment> \<open>offset, length\<close>
  | ReadFlash u32 u32              \<comment> \<open>offset, size\<close>

text \<open>An open device: its descriptor is not null (\<open>fd_flash\<close>), and its regions.\<close>

record FLASH_INFO =
  fd_flash :: bool
  regions_flash :: "flash_region list"

definition blocks_of :: "flash_region \<Rightarrow> nat" where
  "blocks_of rg = nat (sint (number_of_blocks rg))"

section \<open>Operations\<close>

text \<open>\<open>opn\<close> is the result of \<^verbatim>\<open>alt_flash_open_dev\<close>, \<open>info\<close> the regions when \<^verbatim>\<open>alt_get_flash_info\<close> returns 0.\<close>

definition Flash_Open :: "bool \<Rightarrow> flash_region list option \<Rightarrow> FLASH_INFO option" where
  "Flash_Open opn info =
     (if opn then case info of Some regions \<Rightarrow> Some \<lparr>fd_flash = True, regions_flash = regions\<rparr> | None \<Rightarrow> None
      else None)"

text \<open>The loop over the blocks of one region: offset, block count and what was found.\<close>

fun info_blocks :: "nat \<Rightarrow> u32 \<Rightarrow> nat \<Rightarrow> u32 \<times> nat \<times> u32 option \<Rightarrow> u32 \<times> nat \<times> u32 option" where
  "info_blocks 0 bsize idx st = st"
| "info_blocks (Suc n) bsize idx (offs, block_count, found) =
     info_blocks n bsize idx
       (if block_count = idx then (offs, block_count, Some bsize)
        else (offs + bsize, block_count + 1, found))"

fun info_regions :: "flash_region list \<Rightarrow> nat \<Rightarrow> u32 \<times> nat \<times> u32 option \<Rightarrow> u32 \<times> nat \<times> u32 option" where
  "info_regions [] idx st = st"
| "info_regions (rg # rgs) idx st =
     (if snd (snd st) = None then info_regions rgs idx (info_blocks (blocks_of rg) (block_size rg) idx st)
      else st)"

definition Flash_GetBlockInfo :: "FLASH_INFO \<Rightarrow> u16 \<Rightarrow> (u32 \<times> u32) option" where
  "Flash_GetBlockInfo pFlash block_index =
     (if \<not> fd_flash pFlash then None
      else
        let (offs, block_count, found) = info_regions (regions_flash pFlash) (unat block_index) (0, 0, None)
        in case found of Some len \<Rightarrow> Some (offs, len) | None \<Rightarrow> None)"

definition Flash_GetBlockCount :: "FLASH_INFO \<Rightarrow> u16" where
  "Flash_GetBlockCount pFlash =
     foldl (\<lambda>no rg. no + ucast (number_of_blocks rg)) 0 (regions_flash pFlash)"

definition Flash_Size :: "bool \<Rightarrow> flash_region list option \<Rightarrow> u32" where
  "Flash_Size opn info =
     (if opn then case info of Some regions \<Rightarrow> foldl (\<lambda>sz rg. sz + region_size rg) 0 regions | None \<Rightarrow> 0
      else 0)"

definition Flash_Read ::
  "(flash_call list \<Rightarrow> u32 \<Rightarrow> u32 \<Rightarrow> int \<times> u8 list) \<Rightarrow> FLASH_INFO \<Rightarrow> u32 \<Rightarrow> u32 \<Rightarrow> flash_call list \<Rightarrow>
   u8 list option \<times> flash_call list"
  where
  "Flash_Read rd pFlash offs len calls =
     (if \<not> fd_flash pFlash then (None, calls)
      else
        let (error_code, szBuf) = rd calls offs len
        in (if error_code = 0 then Some szBuf else None, ReadFlash offs len # calls))"

definition Flash_Erase ::
  "(flash_call list \<Rightarrow> u32 \<Rightarrow> u32 \<Rightarrow> int) \<Rightarrow> FLASH_INFO \<Rightarrow> u16 \<Rightarrow> flash_call list \<Rightarrow> bool \<times> flash_call list" where
  "Flash_Erase er pFlash block_index calls =
     (if \<not> fd_flash pFlash then (False, calls)
      else case Flash_GetBlockInfo pFlash block_index of
             Some (offs, len) \<Rightarrow> (er calls offs len = 0, EraseBlock offs len # calls)
           | None \<Rightarrow> (False, calls))"

text \<open>
  The write loop: block offset, bytes written, success and the calls so far.  Offset and size are
  unsigned, the others are of type \<^verbatim>\<open>int\<close>; a comparison of the two is unsigned, so all are words here, and
  the one comparison of two \<^verbatim>\<open>int\<close>s is signed.
\<close>

record wstate =
  block_offset :: u32
  write_count :: u32
  wr_ok :: bool
  wr_calls :: "flash_call list"

definition this_write :: "u32 \<Rightarrow> u32 \<Rightarrow> u32 \<Rightarrow> wstate \<Rightarrow> u32" where
  "this_write offs sz bsize w =
     (let n = sz - write_count w
      in if write_count w = 0
         then (if n > block_offset w + bsize - offs then block_offset w + bsize - offs else n)
         else (if sint n > sint bsize then bsize else n))"

definition write_step ::
  "(flash_call list \<Rightarrow> u32 \<Rightarrow> u32 \<Rightarrow> u8 list \<Rightarrow> int) \<Rightarrow> u32 \<Rightarrow> u8 list \<Rightarrow> u32 \<Rightarrow> u32 \<Rightarrow> wstate \<Rightarrow> wstate" where
  "write_step wr offs szData sz bsize w =
     (let w1 =
        (if offs + write_count w \<ge> block_offset w \<and> write_count w < sz then
           let n = this_write offs sz bsize w;
               dat = take (unat n) (drop (unat (write_count w)) szData);
               error_code = wr (wr_calls w) (block_offset w) (offs + write_count w) dat
           in w\<lparr>write_count := write_count w + n, wr_ok := error_code = 0,
                wr_calls := WriteBlock (block_offset w) (offs + write_count w) dat # wr_calls w\<rparr>
         else w)
      in w1\<lparr>block_offset := block_offset w1 + bsize\<rparr>)"

fun write_blocks ::
  "(flash_call list \<Rightarrow> u32 \<Rightarrow> u32 \<Rightarrow> u8 list \<Rightarrow> int) \<Rightarrow> u32 \<Rightarrow> u8 list \<Rightarrow> u32 \<Rightarrow> u32 \<Rightarrow> nat \<Rightarrow> wstate \<Rightarrow> wstate"
  where
  "write_blocks wr offs szData sz bsize 0 w = w"
| "write_blocks wr offs szData sz bsize (Suc n) w =
     (if wr_ok w then write_blocks wr offs szData sz bsize n (write_step wr offs szData sz bsize w) else w)"

fun write_regions ::
  "(flash_call list \<Rightarrow> u32 \<Rightarrow> u32 \<Rightarrow> u8 list \<Rightarrow> int) \<Rightarrow> u32 \<Rightarrow> u8 list \<Rightarrow> u32 \<Rightarrow> flash_region list \<Rightarrow> wstate \<Rightarrow> wstate"
  where
  "write_regions wr offs szData sz [] w = w"
| "write_regions wr offs szData sz (rg # rgs) w =
     (if wr_ok w
      then write_regions wr offs szData sz rgs (write_blocks wr offs szData sz (block_size rg) (blocks_of rg) w)
      else w)"

definition Flash_Write ::
  "(flash_call list \<Rightarrow> u32 \<Rightarrow> u32 \<Rightarrow> u8 list \<Rightarrow> int) \<Rightarrow> FLASH_INFO \<Rightarrow> u32 \<Rightarrow> u8 list \<Rightarrow> u32 \<Rightarrow> flash_call list \<Rightarrow>
   bool \<times> flash_call list"
  where
  "Flash_Write wr pFlash offs szData sz calls =
     (if \<not> fd_flash pFlash then (False, calls)
      else
        let w = write_regions wr offs szData sz (regions_flash pFlash)
                  \<lparr>block_offset = 0, write_count = 0, wr_ok = True, wr_calls = calls\<rparr>
        in (wr_ok w, wr_calls w))"

section \<open>Block addresses\<close>

text \<open>The sizes of all blocks, in the order of their addresses.\<close>

definition block_sizes :: "flash_region list \<Rightarrow> u32 list" where
  "block_sizes rgs = concat (map (\<lambda>rg. replicate (blocks_of rg) (block_size rg)) rgs)"

lemma info_blocks_found: "info_blocks n bsize idx (offs, idx, Some bsize) = (offs, idx, Some bsize)"
  by (induction n) simp_all

lemma info_blocks_eq:
  assumes "c \<le> idx"
  shows "info_blocks n bsize idx (offs, c, None) =
    (if idx < c + n then (offs + of_nat (idx - c) * bsize, idx, Some bsize)
     else (offs + of_nat n * bsize, c + n, None))"
  using assms
proof (induction n arbitrary: offs c)
  case (Suc n)
  show ?case
  proof (cases "c = idx")
    case True
    then show ?thesis by (simp add: info_blocks_found)
  next
    case False
    with Suc.prems have lt: "c < idx" by simp
    then obtain d where d: "idx = Suc (c + d)" using less_imp_Suc_add by blast
    have "info_blocks (Suc n) bsize idx (offs, c, None) = info_blocks n bsize idx (offs + bsize, c + 1, None)"
      using False by simp
    also have "\<dots> = (if idx < c + 1 + n then (offs + bsize + of_nat (idx - (c + 1)) * bsize, idx, Some bsize)
        else (offs + bsize + of_nat n * bsize, c + 1 + n, None))"
      by (rule Suc.IH) (use lt in simp)
    finally show ?thesis using d by (simp add: algebra_simps)
  qed
qed simp

lemma info_regions_eq:
  assumes "c \<le> idx"
  shows "(case info_regions rgs idx (offs, c, None) of (offs', c', found) \<Rightarrow>
      case found of Some len \<Rightarrow> Some (offs', len) | None \<Rightarrow> None) =
    (if idx - c < length (block_sizes rgs)
     then Some (offs + sum_list (take (idx - c) (block_sizes rgs)), block_sizes rgs ! (idx - c)) else None)"
  using assms
proof (induction rgs arbitrary: offs c)
  case Nil
  then show ?case by (simp add: block_sizes_def)
next
  case (Cons rg rgs)
  let ?n = "blocks_of rg" and ?b = "block_size rg"
  have cons: "block_sizes (rg # rgs) = replicate ?n ?b @ block_sizes rgs"
    by (simp add: block_sizes_def)
  show ?case
  proof (cases "idx < c + ?n")
    case True
    then have lt: "idx - c < ?n" using Cons.prems by simp
    have found: "info_regions rgs idx (x, y, Some z) = (x, y, Some z)" for x y z
      by (cases rgs) simp_all
    show ?thesis
      using True lt
      by (simp add: info_blocks_eq [OF Cons.prems] found cons nth_append min_absorb1 sum_list_replicate)
  next
    case False
    then have "c + ?n \<le> idx" by simp
    from Cons.IH [OF this, of "offs + of_nat ?n * ?b"] False Cons.prems show ?thesis
      by (simp add: info_blocks_eq cons nth_append sum_list_replicate add.assoc less_diff_conv
          del: split_paired_All) (auto simp: algebra_simps)
  qed
qed

text \<open>
  \<^verbatim>\<open>Flash_GetBlockInfo\<close> (flash.c) finds block \<open>k\<close> of an open flash memory exactly when the regions have
  more than \<open>k\<close> blocks in all; then the offset is the sum of the sizes of the blocks before it and the
  size is its own, whatever regions of whatever block sizes there are.
\<close>

theorem Flash_GetBlockInfo_eq:
  "Flash_GetBlockInfo \<lparr>fd_flash = True, regions_flash = rgs\<rparr> k =
     (if unat k < length (block_sizes rgs)
      then Some (sum_list (take (unat k) (block_sizes rgs)), block_sizes rgs ! unat k) else None)"
  using info_regions_eq [of 0 "unat k" rgs 0] by (simp add: Flash_GetBlockInfo_def)

section \<open>Writing\<close>

text \<open>Once all bytes are written the loop only counts the blocks.\<close>

lemma write_step_done:
  assumes "write_count w = sz"
  shows "write_step wr offs szData sz bsize w = w\<lparr>block_offset := block_offset w + bsize\<rparr>"
  using assms by (simp add: write_step_def Let_def)

lemma write_blocks_done:
  assumes "write_count w = sz"
  shows "write_count (write_blocks wr offs szData sz bsize n w) = sz \<and>
    wr_ok (write_blocks wr offs szData sz bsize n w) = wr_ok w \<and>
    wr_calls (write_blocks wr offs szData sz bsize n w) = wr_calls w"
  using assms by (induction n arbitrary: w) (simp_all add: write_step_done)

lemma write_regions_done:
  assumes "write_count w = sz"
  shows "wr_ok (write_regions wr offs szData sz rgs w) = wr_ok w \<and>
    wr_calls (write_regions wr offs szData sz rgs w) = wr_calls w"
  using assms
proof (induction rgs arbitrary: w)
  case (Cons rg rgs)
  with write_blocks_done [OF Cons.prems, of wr offs szData "block_size rg" "blocks_of rg"]
  show ?case by auto
qed simp

text \<open>The reference: one call for each block, from \<open>o\<close> to the end of the block at \<open>bo\<close>, then block by block.\<close>

fun split_write :: "nat \<Rightarrow> nat \<Rightarrow> nat \<Rightarrow> nat \<Rightarrow> u8 list \<Rightarrow> flash_call list" where
  "split_write b 0 bo at d = []"
| "split_write b (Suc n) bo at d =
     (if d = [] then []
      else WriteBlock (of_nat bo) (of_nat at) (take (bo + b - at) d) #
           split_write b n (bo + b) (bo + b) (drop (bo + b - at) d))"

fun call_data :: "flash_call \<Rightarrow> u8 list" where
  "call_data (WriteBlock bo at d) = d"
| "call_data _ = []"

lemma split_write_data:
  assumes "bo \<le> at" "at < bo + b" "at + length d \<le> bo + n * b"
  shows "concat (map call_data (split_write b n bo at d)) = d"
  using assms
proof (induction n arbitrary: bo at d)
  case (Suc n)
  have "concat (map call_data (split_write b n (bo + b) (bo + b) (drop (bo + b - at) d))) =
      drop (bo + b - at) d"
    using Suc.prems by (intro Suc.IH) auto
  then show ?case by simp
next
  case 0
  then have "length d = 0" by linarith
  then show ?case by simp
qed

lemma unat_of_small: "n < 2 ^ 31 \<Longrightarrow> unat (of_nat n :: u32) = n"
  by (simp add: unat_of_nat)

lemma sint_of_small: "n < 2 ^ 31 \<Longrightarrow> sint (of_nat n :: u32) = int n"
  by (simp add: signed_of_nat signed_take_bit_int_eq_self)

lemma write_blocks_aligned:
  assumes ok: "\<And>cs bo at d. wr cs bo at d = 0" and d: "length szData = s"
    and b: "0 < b"
  shows "offs + wc = bo \<Longrightarrow> 0 < wc \<Longrightarrow> wc \<le> s \<Longrightarrow> bo + n * b < 2 ^ 31 \<Longrightarrow> offs + s < 2 ^ 31 \<Longrightarrow>
    wr_ok w \<Longrightarrow> block_offset w = of_nat bo \<Longrightarrow> write_count w = of_nat wc \<Longrightarrow>
    wr_ok (write_blocks wr (of_nat offs) szData (of_nat s) (of_nat b) n w) \<and>
    wr_calls (write_blocks wr (of_nat offs) szData (of_nat s) (of_nat b) n w) =
      rev (split_write b n bo bo (drop wc szData)) @ wr_calls w"
proof (induction n arbitrary: bo wc w)
  case (Suc n)
  let ?w1 = "write_step wr (of_nat offs) szData (of_nat s) (of_nat b) w"
  show ?case
  proof (cases "wc = s")
    case True
    then have "write_count w = of_nat s" using Suc.prems(8) by simp
    from write_blocks_done [OF this, of wr "of_nat offs" szData "of_nat b" "Suc n"] True d Suc.prems(6)
    show ?thesis by simp
  next
    case False
    with Suc.prems have lt: "wc < s" "wc < 2 ^ 31" "s < 2 ^ 31" "b < 2 ^ 31" "bo < 2 ^ 31" by auto
    define n' where "n' = min (s - wc) b"
    have sub: "(of_nat s :: u32) - of_nat wc = of_nat (s - wc)" using lt by (simp add: of_nat_diff)
    have t: "this_write (of_nat offs) (of_nat s) (of_nat b) w = of_nat n'"
    proof -
      have "(of_nat wc :: u32) \<noteq> 0"
        using Suc.prems(2) lt unat_of_small [of wc] by (metis unat_0 less_numeral_extra(3))
      moreover have "sint (of_nat (s - wc) :: u32) = int (s - wc)" "sint (of_nat b :: u32) = int b"
        using lt by (simp_all only: sint_of_small less_imp_diff_less)
      ultimately show ?thesis
        unfolding this_write_def Let_def Suc.prems(8) sub by (simp add: n'_def min_def)
    qed
    have cond: "(of_nat offs :: u32) + of_nat wc \<ge> of_nat bo \<and> (of_nat wc :: u32) < of_nat s"
      using Suc.prems(1) lt by (auto simp: word_less_nat_alt unat_of_small simp flip: of_nat_add)
    have nb: "unat (of_nat n' :: u32) = n'" "unat (of_nat wc :: u32) = wc"
      using lt by (simp_all add: unat_of_small n'_def)
    have w1: "?w1 = w\<lparr>block_offset := of_nat (bo + b), write_count := of_nat (wc + n'), wr_ok := True,
        wr_calls := WriteBlock (of_nat bo) (of_nat bo) (take b (drop wc szData)) # wr_calls w\<rparr>"
      unfolding write_step_def Let_def Suc.prems(7,8) using cond
      by (simp add: t nb ok Suc.prems(1) d flip: of_nat_add) (simp add: n'_def min_def d Suc.prems(7))
    show ?thesis
    proof (cases "s - wc \<le> b")
      case True
      then have "write_count ?w1 = of_nat s" using lt by (simp add: w1 n'_def)
      from write_blocks_done [OF this, of wr "of_nat offs" szData "of_nat b" n] True d lt Suc.prems(6)
      show ?thesis
        by (cases n) (simp_all add: w1)
    next
      case False
      then have "n' = b" by (simp add: n'_def)
      with Suc.IH [of "wc + b" "bo + b" ?w1] Suc.prems False b d lt
      show ?thesis by (simp add: w1 add.commute)
    qed
  qed
qed simp

lemma write_blocks_first:
  assumes ok: "\<And>cs bo at d. wr cs bo at d = 0" and d: "length szData = s"
    and b: "offs < b" "Suc n * b < 2 ^ 31" "offs + s < 2 ^ 31"
    and w: "wr_ok w" "block_offset w = 0" "write_count w = 0"
  shows "wr_ok (write_blocks wr (of_nat offs) szData (of_nat s) (of_nat b) (Suc n) w) \<and>
    wr_calls (write_blocks wr (of_nat offs) szData (of_nat s) (of_nat b) (Suc n) w) =
      rev (split_write b (Suc n) 0 offs szData) @ wr_calls w"
proof (cases "s = 0")
  case True
  with w(3) have "write_count w = of_nat s" by simp
  from write_blocks_done [OF this, of wr "of_nat offs" szData "of_nat b" "Suc n"] True d w(1)
  show ?thesis by simp
next
  case False
  let ?w1 = "write_step wr (of_nat offs) szData (of_nat s) (of_nat b) w"
  have lt: "s < 2 ^ 31" "b < 2 ^ 31" "offs < 2 ^ 31" "b - offs < 2 ^ 31" using b by auto
  define n' where "n' = min s (b - offs)"
  have sub: "(of_nat b :: u32) - of_nat offs = of_nat (b - offs)"
    using b(1) by (simp add: of_nat_diff)
  have t: "this_write (of_nat offs) (of_nat s) (of_nat b) w = of_nat n'"
    unfolding this_write_def Let_def w add_0 sub
    by (simp add: word_less_nat_alt n'_def min_def) (use lt in \<open>simp add: unat_of_nat min_def\<close>)
  have cond: "(0 :: u32) < of_nat s"
    using False lt by (simp add: word_less_nat_alt unat_of_nat)
  have nb: "unat (of_nat n' :: u32) = n'"
    using lt by (simp add: unat_of_small n'_def)
  have w1: "?w1 = w\<lparr>block_offset := of_nat b, write_count := of_nat n', wr_ok := True,
      wr_calls := WriteBlock (of_nat 0) (of_nat offs) (take (b - offs) szData) # wr_calls w\<rparr>"
    unfolding write_step_def Let_def w using cond
    by (simp add: t nb ok) (simp add: n'_def min_def d w)
  show ?thesis
  proof (cases "s \<le> b - offs")
    case True
    then have "write_count ?w1 = of_nat s" by (simp add: w1 n'_def)
    from write_blocks_done [OF this, of wr "of_nat offs" szData "of_nat b" n] True d False w(1)
    show ?thesis by (cases n) (auto simp: w1)
  next
    case sb: False
    then have n: "n' = b - offs" by (simp add: n'_def)
    have "wr_ok (write_blocks wr (of_nat offs) szData (of_nat s) (of_nat b) n ?w1) \<and>
        wr_calls (write_blocks wr (of_nat offs) szData (of_nat s) (of_nat b) n ?w1) =
        rev (split_write b n b b (drop (b - offs) szData)) @ wr_calls ?w1"
      by (rule write_blocks_aligned [OF ok d]) (use b sb n in \<open>simp_all add: w1\<close>)
    then show ?thesis using w(1) False d by (auto simp: w1)
  qed
qed

text \<open>
  C39: a \<^verbatim>\<open>Flash_Write\<close> (flash.c) that starts in the first block of a memory of \<open>n\<close> equal blocks and fits
  into it succeeds when the device does, with exactly one call for each block that the data touch, in
  ascending order: each call names the block's offset and the offset and the bytes that fall into that
  block, and the bytes of all calls together are the data.
\<close>

theorem Flash_Write_splits:
  assumes "\<And>cs bo at d. wr cs bo at d = 0" "offs < b" "offs + length szData \<le> Suc n * b"
    "Suc n * b < 2 ^ 31"
  shows "Flash_Write wr
      \<lparr>fd_flash = True, regions_flash = [\<lparr>fr_offset = 0, region_size = of_nat (Suc n * b),
         number_of_blocks = of_nat (Suc n), block_size = of_nat b\<rparr>]\<rparr>
      (of_nat offs) szData (of_nat (length szData)) calls =
    (True, rev (split_write b (Suc n) 0 offs szData) @ calls) \<and>
    concat (map call_data (split_write b (Suc n) 0 offs szData)) = szData"
proof (rule conjI)
  have lt: "offs + length szData < 2 ^ 31" using assms(3,4) by linarith
  have "Suc n \<le> Suc n * b" using mult_le_mono2 [of 1 b "Suc n"] assms(2) by simp
  then have "Suc n < 2 ^ 31" using assms(4) by linarith
  then have nb: "nat (sint (of_nat (Suc n) :: u32)) = Suc n"
    using sint_of_small [of "Suc n"] by simp
  from write_blocks_first [OF assms(1) refl assms(2,4) lt, where w = "\<lparr>block_offset = 0,
      write_count = 0, wr_ok = True, wr_calls = calls\<rparr>"]
  show "Flash_Write wr
      \<lparr>fd_flash = True, regions_flash = [\<lparr>fr_offset = 0, region_size = of_nat (Suc n * b),
         number_of_blocks = of_nat (Suc n), block_size = of_nat b\<rparr>]\<rparr>
      (of_nat offs) szData (of_nat (length szData)) calls =
    (True, rev (split_write b (Suc n) 0 offs szData) @ calls)"
    unfolding Flash_Write_def blocks_of_def Let_def
    by (simp del: of_nat_Suc write_blocks.simps split_write.simps add: blocks_of_def nb)
  show "concat (map call_data (split_write b (Suc n) 0 offs szData)) = szData"
    using assms(2,3) by (intro split_write_data) simp_all
qed

lemma Flash_Write_splits_witness:
  "Flash_Write (\<lambda>_ _ _ _. 0)
      \<lparr>fd_flash = True, regions_flash = [\<lparr>fr_offset = 0, region_size = of_nat (Suc 1 * 4),
         number_of_blocks = of_nat (Suc 1), block_size = of_nat 4\<rparr>]\<rparr>
      (of_nat 3) [7, 8, 9] (of_nat (length [7, 8, 9 :: u8])) [] =
    (True, rev (split_write 4 (Suc 1) 0 3 [7, 8, 9]) @ [])"
  by (rule Flash_Write_splits [THEN conjunct1]) simp_all

text \<open>
  a \<^verbatim>\<open>Flash_Write\<close> that starts after the first block goes wrong: the test for the first block compares
  with the block's start only, and the unsigned difference with its end wraps, so all data are handed
  to the device in one call as if they belonged to the block at offset 0.
\<close>

theorem Flash_Write_wrong_block:
  assumes "block_size rg < offs" "0 < blocks_of rg" "0 < sz"
    "unat sz + (unat offs - unat (block_size rg)) \<le> 2 ^ 32"
  shows "Flash_Write wr \<lparr>fd_flash = True, regions_flash = rg # rgs\<rparr> offs szData sz calls =
    (wr calls 0 offs (take (unat sz) szData) = 0, WriteBlock 0 offs (take (unat sz) szData) # calls)"
proof -
  define w where "w = \<lparr>block_offset = 0, write_count = 0, wr_ok = True, wr_calls = calls\<rparr>"
  obtain n where n: "blocks_of rg = Suc n" using assms(2) by (cases "blocks_of rg") simp_all
  have "unat (block_size rg - offs) = 2 ^ 32 - (unat offs - unat (block_size rg))"
    using assms(1) unsigned_less [of offs] by (simp add: unat_sub_if' word_less_nat_alt)
  then have "\<not> sz > block_size rg - offs"
    using assms(4) by (simp add: word_less_nat_alt)
  then have t: "this_write offs sz (block_size rg) w = sz"
    by (simp add: this_write_def w_def)
  define w1 where "w1 = write_step wr offs szData sz (block_size rg) w"
  have w1: "write_count w1 = sz" "wr_ok w1 = (wr calls 0 offs (take (unat sz) szData) = 0)"
    "wr_calls w1 = WriteBlock 0 offs (take (unat sz) szData) # calls"
    using assms(3) t by (simp_all add: w1_def write_step_def Let_def) (simp_all add: w_def)
  have "write_blocks wr offs szData sz (block_size rg) (blocks_of rg) w =
      write_blocks wr offs szData sz (block_size rg) n w1"
    by (simp add: n w1_def) (simp add: w_def)
  then show ?thesis
    using write_blocks_done [OF w1(1), of wr offs szData "block_size rg" n] w1(2,3)
      write_regions_done [of "write_blocks wr offs szData sz (block_size rg) n w1" sz wr offs szData rgs]
    by (simp add: Flash_Write_def Let_def w_def [symmetric]) (simp add: w_def)
qed

lemma Flash_Write_wrong_block_witness:
  "Flash_Write (\<lambda>_ _ _ _. 0) \<lparr>fd_flash = True, regions_flash = [\<lparr>fr_offset = 0, region_size = 131072,
      number_of_blocks = 2, block_size = 65536\<rparr>]\<rparr> 100000 [1, 2] 2 [] =
    (True, [WriteBlock 0 100000 [1, 2]])"
  by (subst Flash_Write_wrong_block) (simp_all add: blocks_of_def)

end
