(* ===== verification/Spec2Isabelle.thy ===== *)
theory Spec2Isabelle
  imports
    Os_Sem
    Os_Mbox
    Os_Q
    Os_Mem
    Os_Task
    Os_Multi
    Os_Tcbs
    Os_Init
    Os_Timers
    Hal_Irq
    Hal_Open
    Hal_Spi
    Os_Lock
    Rover_Nav
    Rover_Main
    Rover_System
    Rover_Flash
begin

text \<open>
  The software of a three-wheeled rover on a Nios II processor: an application of a few tasks
  (src/software/ROVER) on the real-time kernel uC/OS-II V2.86 (src/software/ROVER_bsp/UCOSII) in the
  configuration of system.h (21 priorities, 12 tasks, 60 events, 20 queues, 20 flag groups, 1000 ticks
  per second, argument checks on; timers off, but modelled as compiled with OS_TMR_EN 1), and parts of the
  board support package's HAL and device drivers (src/software/ROVER_bsp/HAL, drivers).

  \<^bold>\<open>The model.\<close>  \<open>Os_Types\<close> holds the control blocks of ucos_ii.h as records and all kernel variables as
  the record \<open>os_state\<close>; a kernel function is a function on this record, in the order of the statements
  of the code, with the error code as part of its result.  Interrupts are disabled in the critical
  sections of this single processor, so a function is one atomic step up to a call of \<^verbatim>\<open>OS_Sched\<close>.  A
  call that waits is split there: \<open>OSSemPend\<close> is the first half, \<open>OSSemPend_resume\<close> what the task does when
  it runs again.  Integers are words of their C width.  A loop over a linked structure takes fuel, and
  \<open>None\<close> says that it was not enough; the theorems show that it is: 24 rounds for a wait list (one per
  priority bit), 13 for the task list and the wait list of a flag group (one more than there are TCBs).
  The stack checker's loop and the statistics task's wait for \<^verbatim>\<open>OSStatInit\<close> have no bound in the code and
  are \<open>partial_function\<close>s.

  \<^bold>\<open>The theories.\<close>
  \<^item> \<open>Prelude\<close>: lemmas on words and lists.
  \<^item> \<open>Os_Bitmap\<close>: the priority bitmaps and the table \<open>OSUnMapTbl\<close>; the interface \<open>prio_set\<close> of a set of
    priorities with a least element, interpreted on them.
  \<^item> \<open>Os_Types\<close>, \<open>Os_Core\<close>: data model; scheduler, wait lists, clock tick (os_core.c).
  \<^item> \<open>Os_Inv\<close>: the kernel invariant \<open>os_wf\<close> (every bit of the ready list and of a wait list belongs to a
    task of that priority that is ready or waits for that event) and what the operations of \<open>Os_Core\<close> do
    to the ready set and to the wait sets; the scheduler runs the least ready priority.
  \<^item> \<open>Os_Demo\<close>: a small kernel state for the witnesses.
  \<^item> \<open>Os_Time\<close>: delays and ticks (os_time.c): a delayed task is ready after exactly its number of ticks.
  \<^item> \<open>Os_Event\<close>: what all objects one waits for share; the interface \<open>wait_object\<close> of a post, interpreted by
    semaphores, mailboxes and queues.
  \<^item> \<open>Os_Sem\<close>, \<open>Os_Mbox\<close>, \<open>Os_Q\<close>, \<open>Os_Mutex\<close>: os_sem.c, os_mbox.c, os_q.c (the circular buffer and the queue
    refine a bounded list, interface \<open>bounded_queue\<close>), os_mutex.c (priority inheritance).
  \<^item> \<open>Os_Mem\<close>: memory partitions (os_mem.c), interface \<open>pool\<close>.
  \<^item> \<open>Os_Name\<close>: names of events, tasks and partitions, C strings.
  \<^item> \<open>Os_Flag\<close>: event flag groups (os_flag.c) with their doubly linked wait lists.
  \<^item> \<open>Os_Task\<close>: task creation, deletion, suspension, priority change, stack check (os_task.c).
  \<^item> \<open>Os_Multi\<close>: \<^verbatim>\<open>OSEventPendMulti\<close> (os_core.c): a wait for several events ends with exactly the one posted.
  \<^item> \<open>Os_Tcbs\<close>: the invariant \<open>tcbs_ok\<close> of the task table (the doubly linked task list, the free list and the
    priority table share out the 12 control blocks); creating and deleting tasks keep it.
  \<^item> \<open>Os_Init\<close>: \<^verbatim>\<open>OSInit\<close>, the idle and the statistics task (os_core.c); initialisation establishes \<open>os_wf\<close> and
    \<open>tcbs_ok\<close>.
  \<^item> \<open>Links\<close>: doubly linked lists in a store of links; the interface \<open>countdown\<close> of something that is due after
    a number of ticks.
  \<^item> \<open>Os_Tmr\<close>, \<open>Os_Timers\<close>: os_tmr.c: the timer wheel as doubly linked spokes, the timer functions under their
    lock, a round of the timer task; \<open>timers_ok\<close> is kept by everything, and a timer fires in its round.
  \<^item> \<open>Os_System\<close>: the kernel with its tasks and interrupts as a transition system \<open>sys_step\<close>; in every reachable
    state the most urgent ready task runs, and nobody waits for something that is available; no service
    and no interrupt hangs.
  \<^item> \<open>Hal_List\<close>, \<open>Hal_Alarm\<close>: alt_llist.h; alarms and the clock tick (alt_alarm_start.c, alt_tick.c), also an
    instance of \<open>countdown\<close>: an alarm is called back in its tick, across the wrap-around of the tick counter.
  \<^item> \<open>Hal_Irq\<close>: registering and dispatching interrupts (alt_iic_isr_register.c, alt_irq_handler.c), the clock's
    driver (altera_avalon_timer_sc.c); the dispatcher refines the interrupt step of \<open>Os_System\<close>.
  \<^item> \<open>Os_Lock\<close>: newlib's locks (alt_malloc_lock.c, alt_env_lock.c).
  \<^item> \<open>Ring_Buffer\<close>, \<open>Hal_Uart\<close>, \<open>Hal_Console\<close>, \<open>Hal_Tty\<close>: the driver of the console
    (altera_avalon_jtag_uart_*.c): its interrupt routine, reading and writing; the bytes stay in order
    between the bus and the tasks whatever comes in between (interface \<open>uart_side\<close>), and no call hangs.
  \<^item> \<open>Hal_File\<close>, \<open>Hal_Open\<close>: devices, file descriptors and the system calls of the HAL (alt_dev.c, alt_open.c,
    alt_read.c, ...) over the table of drivers, the console as a device: opening, closing, exclusive use,
    and standard input and output over the console.
  \<^item> \<open>Rover_Io\<close>: register accesses as a trace, sleeping (alt_usleep.c) over the kernel's delays; the interface
    \<open>board_inv\<close> of a property of the application's variables, with a lemma for each routine that keeps it.
  \<^item> \<open>Hal_Spi\<close>: a transaction of the SPI master driver (altera_avalon_spi.c) over any core that keeps to its
    interface (\<open>spi_core\<close>): what is sent, what is returned, and that the call ends.
  \<^item> \<open>Rover_Spi\<close>, \<open>Rover_I2c\<close>: the converter, the SPI master and the accelerometer, the software I2C master;
    an observer of the trace decodes what the wires show.
  \<^item> \<open>Rover_Motors\<close>: motors.c: drives, which the wheel encoders end, and the history of moves.
  \<^item> \<open>Rover_Nav\<close>: the tasks of nav.c over the kernel model; an obstacle wakes the navigation task, which turns
    to a clear side; the history stays consistent.
  \<^item> \<open>Rover_Main\<close>: \<^verbatim>\<open>main\<close> of nav.c: after \<^verbatim>\<open>OSInit\<close> and \<^verbatim>\<open>main\<close> the invariants of the kernel, of the message
    queue and of the history hold, and the encoder task runs.
  \<^item> \<open>Rover_System\<close>: the state after \<^verbatim>\<open>main\<close> satisfies the invariant of \<open>Os_System\<close>.
  \<^item> \<open>Rover_Flash\<close>: flash.c: block addresses and the split of a write into blocks.

  \<^bold>\<open>The application.\<close>  A routine takes the state of the board (\<open>board\<close>: trace and kernel state; \<open>rover\<close> adds the
  variables of nav.c) and returns the new one.  What a register read gives is the function \<open>dev\<close> of all
  accesses before; what the other tasks and the ticks do while the caller waits is the function \<open>others\<close>,
  applied after each delay and after each kernel call that may switch tasks.  Preemption at other points
  is not modelled, except in the console's driver, where \<open>intr\<close> comes between its statements.  Doubles are rationals.  A drive waits for the encoders and is a \<open>partial_function\<close>.

  \<^bold>\<open>Parameters.\<close>  newlib's \<^verbatim>\<open>struct _reent\<close> and the start address of tasks (record \<open>port\<close>);
  the addresses of task functions and stacks (\<open>kernel_image\<close>, \<open>rover_image\<close>); the devices (\<open>dev\<close>); the HAL's tick counter and its flash device.

  \<^bold>\<open>Not modelled.\<close>  os_dbg.c holds constants only; of the HAL and the device drivers what is not named above
  (start-up code with its semaphores of the HAL, caches, stubs of newlib calls); in the application the compass (LSM303.c, floating-point trigonometry),
  the demo menu (main.c), the flash self-test and all output.
\<close>

end
